(* ===== verification/Prelude.thy ===== *)
theory Prelude
  imports Main "HOL-Library.Word" "HOL-Library.Monad_Syntax"
begin

text \<open>
  What every component shares: the machine integers of the target (an ARM PXA255, 32-bit,
  little-endian, plain \<open>char\<close> unsigned), the byte-addressed memory with its 16- and
  32-bit accesses, C's \<open>int\<close> as an integer with its wrap-around written out, the ways an
  operation can go wrong, and generic lemmas on these.
\<close>

unbundle bit_operations_syntax

section \<open>Machine integers\<close>

type_synonym u8 = "8 word"
type_synonym u16 = "16 word"
type_synonym u32 = "32 word"

text \<open>
  C's \<open>int\<close> is 32 bits wide. Where the code compares, counts or indexes with an
  \<open>int\<close> it is an \<open>int\<close> here, and each arithmetic result goes through
  \<open>wrap32\<close>.
\<close>

definition wrap32 :: "int \<Rightarrow> int" where
  "wrap32 x = (x + 2 ^ 31) mod 2 ^ 32 - 2 ^ 31"

definition in_int32 :: "int \<Rightarrow> bool" where
  "in_int32 x \<longleftrightarrow> - (2 ^ 31) \<le> x \<and> x < 2 ^ 31"

lemma wrap32_id [simp]: "in_int32 x \<Longrightarrow> wrap32 x = x"
  by (simp add: wrap32_def in_int32_def)

lemma wrap32_small [simp]: "0 \<le> x \<Longrightarrow> x < 2147483648 \<Longrightarrow> wrap32 x = x"
  by (simp add: in_int32_def)

lemma wrap32_in_range [simp]: "in_int32 (wrap32 x)"
  unfolding wrap32_def in_int32_def
  using pos_mod_bound [of "2 ^ 32" "x + 2 ^ 31"] pos_mod_sign [of "2 ^ 32" "x + 2 ^ 31"] by simp

lemma in_int32_sint [simp]: "in_int32 (sint (w :: u32))"
  unfolding in_int32_def using sint_ge [of w] sint_lt [of w] by simp

lemma wrap32_sint_of_int: "wrap32 x = sint (word_of_int x :: u32)"
  unfolding wrap32_def by (simp add: sint_sbintrunc' signed_take_bit_eq_take_bit_shift take_bit_eq_mod)

lemma wrap32_add: "in_int32 i \<Longrightarrow> 0 \<le> k \<Longrightarrow> k < 2 ^ 31 \<Longrightarrow>
    wrap32 (i + k) = (if i + k < 2 ^ 31 then i + k else i + k - 2 ^ 32)"
proof -
  assume a: "in_int32 i" "0 \<le> k" "k < 2 ^ 31"
  have "(i + k + 2 ^ 31) mod 2 ^ 32 = i + k + 2 ^ 31 - (if i + k < 2 ^ 31 then 0 else 2 ^ 32)"
  proof (cases "i + k < 2 ^ 31")
    case True
    with a show ?thesis by (simp add: in_int32_def)
  next
    case False
    then have "(i + k + 2 ^ 31) mod 2 ^ 32 = (i + k - 2 ^ 31) mod 2 ^ 32"
      using mod_add_self2 [of "i + k - 2 ^ 31" "2 ^ 32"] by (simp add: algebra_simps)
    with a False show ?thesis by (simp add: in_int32_def)
  qed
  then show ?thesis by (simp add: wrap32_def)
qed

text \<open>C's division and remainder truncate toward zero.\<close>

definition cdiv :: "int \<Rightarrow> int \<Rightarrow> int" where
  "cdiv a b = sgn a * sgn b * (\<bar>a\<bar> div \<bar>b\<bar>)"

definition crem :: "int \<Rightarrow> int \<Rightarrow> int" where
  "crem a b = sgn a * (\<bar>a\<bar> mod \<bar>b\<bar>)"

lemma cdiv_nonneg [simp]: "0 \<le> a \<Longrightarrow> 0 < b \<Longrightarrow> cdiv a b = a div b"
  by (cases "a = 0") (simp_all add: cdiv_def)

lemma crem_nonneg [simp]: "0 \<le> a \<Longrightarrow> 0 < b \<Longrightarrow> crem a b = a mod b"
  by (cases "a = 0") (simp_all add: crem_def)

section \<open>Characters\<close>

abbreviation NL :: char where "NL \<equiv> CHR 0x0A"
abbreviation TAB :: char where "TAB \<equiv> CHR 0x09"

section \<open>Undefined behaviour and other ends of a run\<close>

text \<open>
  An operation that reads or writes outside an array, calls through a null function pointer or
  divides by zero has no defined result in C. The model says which of these happened instead of
  inventing a value. \<open>NoReturn\<close> is an operation that loops for ever.
\<close>

datatype fault = OutOfBounds | NullCall | DivByZero | NoReturn

type_synonym 'a fres = "fault + 'a"

definition fbind :: "'a fres \<Rightarrow> ('a \<Rightarrow> 'b fres) \<Rightarrow> 'b fres" where
  "fbind r f = (case r of Inl e \<Rightarrow> Inl e | Inr x \<Rightarrow> f x)"

lemma fbind_simps [simp]: "fbind (Inl e) f = Inl e" "fbind (Inr x) f = f x"
  by (simp_all add: fbind_def)

lemma fbind_Inr: "fbind r f = Inr y \<longleftrightarrow> (\<exists>x. r = Inr x \<and> f x = Inr y)"
  by (cases r) simp_all

text \<open>An array access by a C \<open>int\<close> index.\<close>

definition in_array :: "int \<Rightarrow> 'a list \<Rightarrow> bool" where
  "in_array i xs \<longleftrightarrow> 0 \<le> i \<and> nat i < length xs"

lemma in_array_iff: "in_array i xs \<longleftrightarrow> 0 \<le> i \<and> i < int (length xs)"
  by (auto simp: in_array_def)

lemma in_array_update [simp]: "in_array i (xs[j := v]) = in_array i xs"
  by (simp add: in_array_def)

section \<open>Collections of facts\<close>

named_theorems mem_simps \<open>reads over writes of the byte memory\<close>
named_theorems kernel_defs \<open>definitions of the kernel operations that proofs unfold\<close>
named_theorems kernel_inv \<open>preservation of the kernel invariants\<close>

section \<open>The byte memory\<close>

type_synonym mem = "u32 \<Rightarrow> u8"

definition ld16 :: "mem \<Rightarrow> u32 \<Rightarrow> u16" where
  "ld16 m a = ucast (m a) OR push_bit 8 (ucast (m (a + 1)))"

definition st16 :: "mem \<Rightarrow> u32 \<Rightarrow> u16 \<Rightarrow> mem" where
  "st16 m a v = m(a := ucast v, a + 1 := ucast (drop_bit 8 v))"

definition ld32 :: "mem \<Rightarrow> u32 \<Rightarrow> u32" where
  "ld32 m a = ucast (m a) OR push_bit 8 (ucast (m (a + 1)))
     OR push_bit 16 (ucast (m (a + 2))) OR push_bit 24 (ucast (m (a + 3)))"

definition st32 :: "mem \<Rightarrow> u32 \<Rightarrow> u32 \<Rightarrow> mem" where
  "st32 m a v = m(a := ucast v, a + 1 := ucast (drop_bit 8 v),
     a + 2 := ucast (drop_bit 16 v), a + 3 := ucast (drop_bit 24 v))"

text \<open>A 32-bit access at \<open>a\<close> touches the bytes \<open>a\<close> to \<open>a + 3\<close>.\<close>

definition word_bytes :: "u32 \<Rightarrow> u32 set" where
  "word_bytes a = {a, a + 1, a + 2, a + 3}"

lemma bytes_of_word32:
  "(ucast (ucast (v :: u32) :: u8) :: u32) OR push_bit 8 (ucast (ucast (drop_bit 8 v) :: u8))
     OR push_bit 16 (ucast (ucast (drop_bit 16 v) :: u8))
     OR push_bit 24 (ucast (ucast (drop_bit 24 v) :: u8)) = v"
proof (rule bit_word_eqI)
  fix n assume "n < LENGTH(32)"
  then have "n < 8 \<or> (8 \<le> n \<and> n < 16) \<or> (16 \<le> n \<and> n < 24) \<or> (24 \<le> n \<and> n < 32)"
    by simp linarith
  then show "bit ((ucast (ucast v :: u8) :: u32) OR push_bit 8 (ucast (ucast (drop_bit 8 v) :: u8))
     OR push_bit 16 (ucast (ucast (drop_bit 16 v) :: u8))
     OR push_bit 24 (ucast (ucast (drop_bit 24 v) :: u8))) n = bit v n"
    by (elim disjE conjE) (simp_all add: bit_simps, auto)
qed

lemma ld32_st32_same [mem_simps]: "ld32 (st32 m a v) a = v"
  using bytes_of_word32 [of v] by (simp add: ld32_def st32_def)

lemma st32_other: "b \<notin> word_bytes a \<Longrightarrow> st32 m a v b = m b"
  by (auto simp: st32_def word_bytes_def)

lemma ld32_cong: "(\<And>x. x \<in> word_bytes a \<Longrightarrow> m x = m' x) \<Longrightarrow> ld32 m a = ld32 m' a"
  by (simp add: ld32_def word_bytes_def)

lemma ld32_st32_other [mem_simps]:
  "word_bytes a \<inter> word_bytes b = {} \<Longrightarrow> ld32 (st32 m a v) b = ld32 m b"
  by (rule ld32_cong) (auto intro: st32_other)

lemma unat_plus_small: "unat a + n < 2 ^ 32 \<Longrightarrow> unat (a + of_nat n :: u32) = unat a + n"
  by (simp add: unat_word_ariths unat_of_nat)

lemma word_of_unat_plus: "unat e = unat a + n \<Longrightarrow> e = (a :: u32) + of_nat n"
proof -
  assume "unat e = unat a + n"
  then have "of_nat (unat e) = (of_nat (unat a + n) :: u32)" by (simp only:)
  then show ?thesis by simp
qed

lemma word_bytes_range:
  assumes "unat a + 4 \<le> 2 ^ 32" and "x \<in> word_bytes a"
  shows "unat a \<le> unat x" and "unat x < unat a + 4"
  using assms unat_plus_small [of a 1] unat_plus_small [of a 2] unat_plus_small [of a 3]
  by (auto simp: word_bytes_def)

lemma word_bytes_disjoint:
  assumes "unat a + 4 \<le> unat b" and "unat b + 4 \<le> 2 ^ 32"
  shows "word_bytes a \<inter> word_bytes b = {}" and "word_bytes b \<inter> word_bytes a = {}"
proof -
  have "x \<notin> word_bytes b" if "x \<in> word_bytes a" for x
    using word_bytes_range(2) [OF _ that] word_bytes_range(1) [of b x] assms by fastforce
  then show "word_bytes a \<inter> word_bytes b = {}" and "word_bytes b \<inter> word_bytes a = {}" by auto
qed

text \<open>The bytes from \<open>a\<close> on, and storing a list of bytes there.\<close>

primrec read_bytes :: "mem \<Rightarrow> u32 \<Rightarrow> nat \<Rightarrow> u8 list" where
  "read_bytes m a 0 = []"
| "read_bytes m a (Suc n) = m a # read_bytes m (a + 1) n"

primrec write_bytes :: "mem \<Rightarrow> u32 \<Rightarrow> u8 list \<Rightarrow> mem" where
  "write_bytes m a [] = m"
| "write_bytes m a (b # bs) = write_bytes (m(a := b)) (a + 1) bs"

lemma length_read_bytes [simp]: "length (read_bytes m a n) = n"
  by (induction n arbitrary: a) auto

lemma nth_read_bytes: "i < n \<Longrightarrow> read_bytes m a n ! i = m (a + of_nat i)"
proof (induction n arbitrary: a i)
  case (Suc n)
  then show ?case by (cases i) (simp_all add: add.assoc)
qed simp

lemma write_bytes_other:
  "(\<And>i. i < length bs \<Longrightarrow> a + of_nat i \<noteq> x) \<Longrightarrow> write_bytes m a bs x = m x"
proof (induction bs arbitrary: m a)
  case (Cons b bs)
  have "write_bytes (m(a := b)) (a + 1) bs x = (m(a := b)) x"
  proof (rule Cons.IH)
    show "a + 1 + of_nat i \<noteq> x" if "i < length bs" for i
      using Cons.prems [of "Suc i"] that by (simp add: add.assoc)
  qed
  moreover have "a \<noteq> x" using Cons.prems [of 0] by simp
  ultimately show ?case by simp
qed simp

lemma of_nat_neq: "i < 2 ^ 32 \<Longrightarrow> 0 < i \<Longrightarrow> (of_nat i :: u32) \<noteq> 0"
  by (simp add: word_of_nat_eq_0_iff) (metis nat_dvd_not_less)

lemma write_bytes_nth:
  "i < length bs \<Longrightarrow> length bs \<le> 2 ^ 32 \<Longrightarrow> write_bytes m a bs (a + of_nat i) = bs ! i"
proof (induction bs arbitrary: m a i)
  case (Cons b bs)
  show ?case
  proof (cases i)
    case 0
    have "a + 1 + of_nat j \<noteq> a" if "j < length bs" for j
      using of_nat_neq [of "Suc j"] Cons.prems(2) that by (simp add: add.assoc)
    with 0 show ?thesis by (simp add: write_bytes_other)
  next
    case (Suc j)
    have "write_bytes (m(a := b)) (a + 1) bs (a + 1 + of_nat j) = bs ! j"
      by (rule Cons.IH) (use Suc Cons.prems in simp_all)
    with Suc show ?thesis by (simp add: add.assoc)
  qed
qed simp

lemma write_bytes_append: "write_bytes m a (xs @ ys) = write_bytes (write_bytes m a xs) (a + of_nat (length xs)) ys"
  by (induction xs arbitrary: m a) (simp_all add: add.assoc)

text \<open>An index below the length of a block that does not wrap.\<close>

lemma block_less:
  fixes a b :: u32
  assumes "unat a + n \<le> 2 ^ 32" and "unat b + n \<le> 2 ^ 32" and "i < n" and "j < n"
    and "a + of_nat i = b + of_nat j"
  shows "unat a + i = unat b + j"
proof -
  have "unat (a + of_nat i) = unat a + i" by (rule unat_plus_small) (use assms in simp)
  moreover have "unat (b + of_nat j) = unat b + j" by (rule unat_plus_small) (use assms in simp)
  moreover have "unat (a + of_nat i) = unat (b + of_nat j)" by (rule arg_cong [OF assms(5)])
  ultimately show ?thesis by linarith
qed

text \<open>Two blocks apart from each other.\<close>

definition apart :: "u32 \<Rightarrow> nat \<Rightarrow> u32 \<Rightarrow> nat \<Rightarrow> bool" where
  "apart p n q k \<longleftrightarrow> unat p + n \<le> 2 ^ 32 \<and> unat q + k \<le> 2 ^ 32 \<and> (unat p + n \<le> unat q \<or> unat q + k \<le> unat p)"

lemma apart_neq:
  assumes "apart p n q k" "i < n" "j < k"
  shows "p + of_nat i \<noteq> q + of_nat j"
proof -
  have "unat (p + of_nat i) = unat p + i" by (rule unat_plus_small) (use assms in \<open>simp add: apart_def\<close>)
  moreover have "unat (q + of_nat j) = unat q + j" by (rule unat_plus_small) (use assms in \<open>simp add: apart_def\<close>)
  moreover have "unat p + i \<noteq> unat q + j" using assms by (auto simp: apart_def)
  ultimately show ?thesis by metis
qed

lemma apart_sym: "apart p n q k \<longleftrightarrow> apart q k p n"
  by (auto simp: apart_def)

lemma apart_inside: "apart p n q k \<Longrightarrow> n' \<le> n \<Longrightarrow> i + k' \<le> k \<Longrightarrow> 0 < k' \<Longrightarrow> apart p n' (q + of_nat i) k'"
proof -
  assume a: "apart p n q k" "n' \<le> n" "i + k' \<le> k" "0 < k'"
  then have "unat (q + of_nat i) = unat q + i" by (intro unat_plus_small) (simp add: apart_def)
  with a show ?thesis by (auto simp: apart_def)
qed

lemma apart_tail: "apart p n q k \<Longrightarrow> i + n' \<le> n \<Longrightarrow> 0 < n' \<Longrightarrow> apart (p + of_nat i) n' q k"
  using apart_inside [of q k p n k i n'] by (simp add: apart_sym)

lemma apart_less: "apart p n q k \<Longrightarrow> k' \<le> k \<Longrightarrow> apart p n q k'"
  by (auto simp: apart_def)

lemma read_bytes_cong: "(\<And>i. i < n \<Longrightarrow> m' (a + of_nat i) = m (a + of_nat i)) \<Longrightarrow> read_bytes m' a n = read_bytes m a n"
  by (rule nth_equalityI) (simp_all add: nth_read_bytes)

lemma read_split: "read_bytes m a (i + k) = read_bytes m a i @ read_bytes m (a + of_nat i) k"
  by (rule nth_equalityI) (auto simp: nth_append nth_read_bytes add.assoc simp flip: of_nat_add)

lemma read_write_append:
  assumes "j + length d \<le> 2 ^ 32"
  shows "read_bytes (write_bytes m (a + of_nat j) d) a (j + length d) = read_bytes m a j @ d"
proof (rule nth_equalityI)
  fix i assume "i < length (read_bytes (write_bytes m (a + of_nat j) d) a (j + length d))"
  then have i: "i < j + length d" by simp
  show "read_bytes (write_bytes m (a + of_nat j) d) a (j + length d) ! i = (read_bytes m a j @ d) ! i"
  proof (cases "i < j")
    case True
    have "write_bytes m (a + of_nat j) d (a + of_nat i) = m (a + of_nat i)"
    proof (rule write_bytes_other)
      fix x assume "x < length d"
      then have "i < 2 ^ 32" "j + x < 2 ^ 32" "j + x \<noteq> i" using assms True by simp_all
      then have neq: "(of_nat (j + x) :: u32) \<noteq> of_nat i" by (simp del: of_nat_add add: word_of_nat_eq_iff take_bit_nat_eq_self)
      show "a + of_nat j + of_nat x \<noteq> a + of_nat i"
        by (rule notI, rule notE [OF neq]) (simp add: add.assoc)
    qed
    with True i show ?thesis by (simp add: nth_read_bytes nth_append)
  next
    case False
    then obtain x where x: "i = j + x" by (metis le_Suc_ex not_less)
    have "write_bytes m (a + of_nat j) d (a + of_nat j + of_nat x) = d ! x"
      by (rule write_bytes_nth) (use i x assms in simp_all)
    with x i show ?thesis by (simp add: nth_read_bytes nth_append add.assoc)
  qed
qed simp

end
