(* ===== verification/Interfaces.thy ===== *)
theory Interfaces
  imports Prelude
begin

text \<open>
  The contracts between components, each a locale: the operations the client calls and the laws
  the provider keeps. The client's lemmas are proved here once; the provider's theory interprets
  the locale on the model of its code.
\<close>

section \<open>A memory allocator\<close>

text \<open>
  A provider of memory areas: \<open>alloc\<close> hands out an area for a request or refuses,
  \<open>release\<close> takes the area at an address back, \<open>live\<close> is the set of areas handed out
  (address and length).
\<close>

locale allocator =
  fixes inv :: "'s \<Rightarrow> bool"
    and ok :: "'r \<Rightarrow> bool"
    and len :: "'r \<Rightarrow> nat"
    and alloc :: "'r \<Rightarrow> 's \<Rightarrow> (nat \<times> 's) option"
    and release :: "nat \<Rightarrow> 's \<Rightarrow> 's"
    and live :: "'s \<Rightarrow> (nat \<times> nat) set"
  assumes alloc_inv: "inv s \<Longrightarrow> ok r \<Longrightarrow> alloc r s = Some (p, s') \<Longrightarrow> inv s'"
    and alloc_live: "inv s \<Longrightarrow> ok r \<Longrightarrow> alloc r s = Some (p, s') \<Longrightarrow>
        \<exists>n \<ge> len r. live s' = insert (p, n) (live s) \<and> (p, n) \<notin> live s"
    and live_disjoint: "inv s \<Longrightarrow> (p, n) \<in> live s \<Longrightarrow> (q, k) \<in> live s \<Longrightarrow> (p, n) \<noteq> (q, k) \<Longrightarrow>
        p + n \<le> q \<or> q + k \<le> p"
    and release_inv: "inv s \<Longrightarrow> (p, n) \<in> live s \<Longrightarrow> inv (release p s)"
    and release_live: "inv s \<Longrightarrow> (p, n) \<in> live s \<Longrightarrow> live (release p s) = live s - {(p, n)}"
begin

text \<open>A client that asks for several areas in a row.\<close>

fun alloc_seq :: "'r list \<Rightarrow> 's \<Rightarrow> (nat list \<times> 's) option" where
  "alloc_seq [] s = Some ([], s)"
| "alloc_seq (r # rs) s =
     (case alloc r s of
        None \<Rightarrow> None
      | Some (p, s1) \<Rightarrow>
          (case alloc_seq rs s1 of None \<Rightarrow> None | Some (ps, s2) \<Rightarrow> Some (p # ps, s2)))"

lemma alloc_seq_inv: "inv s \<Longrightarrow> \<forall>r \<in> set rs. ok r \<Longrightarrow> alloc_seq rs s = Some (ps, s') \<Longrightarrow> inv s'"
proof (induction rs arbitrary: s ps)
  case (Cons r rs)
  from Cons.prems(3) obtain p s1 ps1 where "alloc r s = Some (p, s1)" "alloc_seq rs s1 = Some (ps1, s')"
    by (auto split: option.splits)
  with Cons.IH [of s1 ps1] Cons.prems alloc_inv [of s r p s1] show ?case by simp
qed simp

lemma alloc_seq_live: "inv s \<Longrightarrow> \<forall>r \<in> set rs. ok r \<Longrightarrow> alloc_seq rs s = Some (ps, s') \<Longrightarrow>
    live s \<subseteq> live s' \<and> (\<forall>i < length rs. \<exists>n \<ge> len (rs ! i). (ps ! i, n) \<in> live s' - live s)"
proof (induction rs arbitrary: s ps)
  case (Cons r rs)
  from Cons.prems(3) obtain p s1 ps1 where a: "alloc r s = Some (p, s1)"
    and q: "alloc_seq rs s1 = Some (ps1, s')" and ps: "ps = p # ps1" by (auto split: option.splits)
  from Cons.prems a have i1: "inv s1" by (auto intro: alloc_inv)
  from alloc_live [OF Cons.prems(1) _ a] Cons.prems(2) obtain n where
    n: "len r \<le> n" "live s1 = insert (p, n) (live s)" "(p, n) \<notin> live s" by auto
  from Cons.IH [OF i1 _ q] Cons.prems(2) have
    l: "live s1 \<subseteq> live s'" "\<forall>i < length rs. \<exists>n \<ge> len (rs ! i). (ps1 ! i, n) \<in> live s' - live s1" by auto
  show ?case
  proof (intro conjI allI impI)
    show "live s \<subseteq> live s'" using l n by auto
    fix i assume i: "i < length (r # rs)"
    show "\<exists>n \<ge> len ((r # rs) ! i). (ps ! i, n) \<in> live s' - live s"
      using i l n ps by (cases i) fastforce+
  qed
qed simp

text \<open>Any two areas handed out in one sequence are disjoint, each as long as asked for.\<close>

lemma alloc_seq_disjoint:
  assumes "inv s" and "\<forall>r \<in> set rs. ok r" and "alloc_seq rs s = Some (ps, s')"
    and "i < j" and "j < length rs"
  shows "ps ! i + len (rs ! i) \<le> ps ! j \<or> ps ! j + len (rs ! j) \<le> ps ! i"
  using assms
proof (induction rs arbitrary: s ps i j)
  case (Cons r rs)
  from Cons.prems(3) obtain p s1 ps1 where a: "alloc r s = Some (p, s1)"
    and q: "alloc_seq rs s1 = Some (ps1, s')" and ps: "ps = p # ps1" by (auto split: option.splits)
  from Cons.prems a have i1: "inv s1" by (auto intro: alloc_inv)
  from alloc_live [OF Cons.prems(1) _ a] Cons.prems(2) obtain n where
    n: "len r \<le> n" "(p, n) \<in> live s1" by auto
  from Cons.prems(4,5) obtain j' where j: "j = Suc j'" "j' < length rs" by (cases j) auto
  from alloc_seq_live [OF i1 _ q] Cons.prems(2) j obtain k where
    k: "len (rs ! j') \<le> k" "(ps1 ! j', k) \<in> live s' - live s1" "live s1 \<subseteq> live s'" by auto
  show ?case
  proof (cases i)
    case 0
    have "inv s'" using alloc_seq_inv [OF i1 _ q] Cons.prems(2) by simp
    then have "p + n \<le> ps1 ! j' \<or> ps1 ! j' + k \<le> p"
      by (rule live_disjoint) (use n k in auto)
    with 0 j n k ps show ?thesis by auto
  next
    case (Suc i')
    with Cons.IH [OF i1 _ q, of i' j'] Cons.prems j ps show ?thesis by simp
  qed
qed simp

text \<open>What is released can be forgotten: the other areas stay.\<close>

lemma release_keeps: "inv s \<Longrightarrow> (p, n) \<in> live s \<Longrightarrow> (q, k) \<in> live s \<Longrightarrow> (p, n) \<noteq> (q, k) \<Longrightarrow>
    (q, k) \<in> live (release p s)"
  by (auto simp: release_live)

end

section \<open>A call that blocks by trying again\<close>

text \<open>
  The pattern of the kernel's blocking library calls: \<open>attempt\<close> the operation; when it says
  \<open>again\<close>, let the others run and repeat. \<open>wait_loop es s\<close> is the loop when the others do
  \<open>es\<close>, one element between two attempts; it is \<open>None\<close> when the attempts are still
  refused at the end of \<open>es\<close>.
\<close>

locale blocking_call =
  fixes inv :: "'s \<Rightarrow> bool"
    and attempt :: "'s \<Rightarrow> (int \<times> 's) fres"
    and again :: "int \<Rightarrow> bool"
    and answer :: "int \<Rightarrow> 's \<Rightarrow> int"
    and wait_loop :: "('s \<Rightarrow> 's) list \<Rightarrow> 's \<Rightarrow> (int \<times> 's) option fres"
  assumes wait_fault: "attempt s = Inl x \<Longrightarrow> wait_loop es s = Inl x"
    and wait_done: "attempt s = Inr (r, s') \<Longrightarrow> \<not> again r \<Longrightarrow>
        wait_loop es s = Inr (Some (answer r s', s'))"
    and wait_nil: "attempt s = Inr (r, s') \<Longrightarrow> again r \<Longrightarrow> wait_loop [] s = Inr None"
    and wait_cons: "attempt s = Inr (r, s') \<Longrightarrow> again r \<Longrightarrow> wait_loop (e # es) s = wait_loop es (e s')"
    and again_keeps: "inv s \<Longrightarrow> attempt s = Inr (r, s') \<Longrightarrow> again r \<Longrightarrow> s' = s"
begin

text \<open>The state after the others did \<open>es\<close>, and that the attempt is refused there.\<close>

definition after :: "('s \<Rightarrow> 's) list \<Rightarrow> 's \<Rightarrow> 's" where
  "after es s = foldl (\<lambda>s e. e s) s es"

definition refused :: "'s \<Rightarrow> bool" where
  "refused s \<longleftrightarrow> (\<exists>r s'. attempt s = Inr (r, s') \<and> again r)"

definition keeps_inv :: "('s \<Rightarrow> 's) list \<Rightarrow> bool" where
  "keeps_inv es \<longleftrightarrow> (\<forall>e \<in> set es. \<forall>s. inv s \<longrightarrow> inv (e s))"

lemma after_simps [simp]: "after [] s = s" "after (e # es) s = after es (e s)"
  by (simp_all add: after_def)

lemma keeps_inv_simps [simp]:
  "keeps_inv []" "keeps_inv (e # es) \<longleftrightarrow> (\<forall>s. inv s \<longrightarrow> inv (e s)) \<and> keeps_inv es"
  "keeps_inv es \<Longrightarrow> keeps_inv (take n es)"
  by (auto simp: keeps_inv_def dest: in_set_takeD)

lemma after_inv: "inv s \<Longrightarrow> keeps_inv es \<Longrightarrow> inv (after es s)"
  by (induction es arbitrary: s) auto

lemma wait_step: "inv s \<Longrightarrow> refused s \<Longrightarrow> wait_loop (e # es) s = wait_loop es (e s)"
  unfolding refused_def using wait_cons again_keeps by blast

text \<open>The call ends as soon as an attempt is not refused, with that attempt's outcome.\<close>

lemma wait_until:
  assumes "inv s" and "keeps_inv es" and "\<forall>i < length es. refused (after (take i es) s)"
    and "attempt (after es s) = Inr (r, s')" and "\<not> again r"
  shows "wait_loop (es @ fs) s = Inr (Some (answer r s', s'))"
  using assms(1-4)
proof (induction es arbitrary: s)
  case Nil
  then show ?case using wait_done [OF _ assms(5)] by (cases fs) simp_all
next
  case (Cons e es)
  have r: "refused s" using Cons.prems(3) by (auto dest: spec [of _ 0])
  have i: "inv (e s)" "keeps_inv es" using Cons.prems(1,2) by (simp_all add: keeps_inv_def)
  have "\<forall>i < length es. refused (after (take i es) (e s))"
    using Cons.prems(3) by (auto dest: spec [of _ "Suc _"])
  from Cons.IH [OF i this] Cons.prems(4) wait_step [OF Cons.prems(1) r] show ?case by simp
qed

text \<open>Conversely, what an ended call says: the attempt that ended it, all earlier ones refused.\<close>

lemma wait_result:
  assumes "inv s" and "keeps_inv es" and "wait_loop es s = Inr (Some (v, s'))"
  shows "\<exists>ds r. ds = take (length ds) es \<and> attempt (after ds s) = Inr (r, s') \<and> \<not> again r \<and>
    v = answer r s' \<and> (\<forall>i < length ds. refused (after (take i ds) s)) \<and> inv (after ds s)"
  using assms
proof (induction es arbitrary: s)
  case Nil
  then obtain r t where a: "attempt s = Inr (r, t)" using wait_fault [of s _ "[]"] by (cases "attempt s") auto
  with Nil wait_nil [OF a] have "\<not> again r" by auto
  with Nil wait_done [OF a this, of "[]"] a show ?case by (intro exI [of _ "[]"]) auto
next
  case (Cons e es)
  then obtain r t where a: "attempt s = Inr (r, t)" using wait_fault [of s _ "e # es"] by (cases "attempt s") auto
  show ?case
  proof (cases "again r")
    case False
    with Cons.prems wait_done [OF a False, of "e # es"] a show ?thesis by (intro exI [of _ "[]"]) auto
  next
    case True
    with a have ref: "refused s" by (auto simp: refused_def)
    with Cons.prems wait_step [of s e es] have "wait_loop es (e s) = Inr (Some (v, s'))" by simp
    moreover have "inv (e s)" "keeps_inv es" using Cons.prems(1,2) by (simp_all add: keeps_inv_def)
    ultimately obtain ds r' where d: "ds = take (length ds) es" "attempt (after ds (e s)) = Inr (r', s')"
      "\<not> again r'" "v = answer r' s'" "\<forall>i < length ds. refused (after (take i ds) (e s))" "inv (after ds (e s))"
      using Cons.IH by blast
    have "\<forall>i < length (e # ds). refused (after (take i (e # ds)) s)"
    proof (intro allI impI)
      fix i assume "i < length (e # ds)"
      with ref d(5) show "refused (after (take i (e # ds)) s)" by (cases i) simp_all
    qed
    moreover have "e # ds = take (length (e # ds)) (e # es)" using d(1) by simp
    ultimately show ?thesis using d(2-4,6) by (intro exI [of _ "e # ds"] exI [of _ r']) simp
  qed
qed

end

end
