(* ===== verification/Kernel_Memory.thy ===== *)
theory Kernel_Memory
  imports Interfaces
begin

text \<open>
  The kernel's memory manager, \<open>navilnux_memory.c\<close> and \<open>navilnux_memory.h\<close> of
  \<open>navilnux/chap16_driver\<close>: the pool of forty 1 MB task stacks, and the dynamic heap, a
  chain of blocks that each start with a header of two words (used flag and size). The heap
  headers live in the byte memory; the manager itself is a record.
\<close>

section \<open>The manager and its constants\<close>

definition MAXMEMBLK :: nat where "MAXMEMBLK = 40"
definition STARTUSRSTACKADDR :: u32 where "STARTUSRSTACKADDR = 0xA0400000"
definition USRSTACKSIZE :: u32 where "USRSTACKSIZE = 0x00100000"
definition STARTDYMEMADDR :: u32 where "STARTDYMEMADDR = 0xA2C00000"
definition ENDUSRSTACKADDR :: u32 where "ENDUSRSTACKADDR = 0xA4000000"

lemmas mem_consts = MAXMEMBLK_def STARTUSRSTACKADDR_def USRSTACKSIZE_def STARTDYMEMADDR_def
  ENDUSRSTACKADDR_def

record free_mem =
  block_start_addr :: u32
  block_end_addr :: u32
  is_used :: int

text \<open>The values a function pointer of the manager can take besides null.\<close>

datatype mem_fn = Fn_mem_init | Fn_mem_alloc | Fn_mem_malloc | Fn_mem_free

record mem_mng =
  free_mem_pool :: "free_mem list"
  heap_start :: u32
  used_end :: u32
  mm_init :: "mem_fn option"
  mm_alloc :: "mem_fn option"
  mm_malloc :: "mem_fn option"
  mm_free :: "mem_fn option"

text \<open>Static storage starts as zeros: no block set up, no function pointer.\<close>

definition mem_mng_zero :: mem_mng where
  "mem_mng_zero = \<lparr>free_mem_pool = replicate MAXMEMBLK \<lparr>block_start_addr = 0, block_end_addr = 0, is_used = 0\<rparr>,
     heap_start = 0, used_end = 0, mm_init = None, mm_alloc = None, mm_malloc = None, mm_free = None\<rparr>"

section \<open>Set-up and the stack pool\<close>

text \<open>
  The loop of \<open>mem_init\<close> writes the entries of the pool in order, \<open>pt\<close> advancing by one
  stack size.
\<close>

fun mem_init_pool :: "free_mem list \<Rightarrow> u32 \<Rightarrow> free_mem list" where
  "mem_init_pool [] pt = []"
| "mem_init_pool (b # bs) pt =
     b\<lparr>block_start_addr := pt, block_end_addr := pt + USRSTACKSIZE - 4, is_used := 0\<rparr>
       # mem_init_pool bs (pt + USRSTACKSIZE)"

definition mem_init :: "mem_mng \<Rightarrow> mem_mng" where
  "mem_init mm = mm\<lparr>free_mem_pool := mem_init_pool (free_mem_pool mm) STARTUSRSTACKADDR,
     heap_start := STARTDYMEMADDR, used_end := STARTDYMEMADDR,
     mm_init := Some Fn_mem_init, mm_alloc := Some Fn_mem_alloc,
     mm_malloc := Some Fn_mem_malloc, mm_free := Some Fn_mem_free\<rparr>"

text \<open>\<open>mem_alloc\<close>: the first unused entry of the pool; its end address, or 0.\<close>

fun mem_alloc_pool :: "free_mem list \<Rightarrow> u32 \<times> free_mem list" where
  "mem_alloc_pool [] = (0, [])"
| "mem_alloc_pool (b # bs) =
     (if is_used b = 0 then (block_end_addr b, b\<lparr>is_used := 1\<rparr> # bs)
      else (let (r, bs') = mem_alloc_pool bs in (r, b # bs')))"

definition mem_alloc :: "mem_mng \<Rightarrow> u32 \<times> mem_mng" where
  "mem_alloc mm = (let (r, p) = mem_alloc_pool (free_mem_pool mm) in (r, mm\<lparr>free_mem_pool := p\<rparr>))"

section \<open>The heap\<close>

text \<open>The header of a block: \<open>used\<close> at offset 0, \<open>size\<close> at offset 4.\<close>

definition HDR :: u32 where "HDR = 8"

definition hdr_used :: "mem \<Rightarrow> u32 \<Rightarrow> u32" where
  "hdr_used m a = ld32 m a"

definition hdr_size :: "mem \<Rightarrow> u32 \<Rightarrow> u32" where
  "hdr_size m a = ld32 m (a + 4)"

definition set_used :: "mem \<Rightarrow> u32 \<Rightarrow> u32 \<Rightarrow> mem" where
  "set_used m a v = st32 m a v"

definition set_size :: "mem \<Rightarrow> u32 \<Rightarrow> u32 \<Rightarrow> mem" where
  "set_size m a v = st32 m (a + 4) v"

text \<open>
  The search loop of \<open>mem_malloc\<close>. It stops at the end of the used area or at the first free
  block that is large enough; nothing makes it stop on a broken chain, so it may not return.
  The result is the memory and \<open>ret_addr\<close>, 0 when no block fits.
\<close>

partial_function (option) malloc_find :: "mem \<Rightarrow> u32 \<Rightarrow> u32 \<Rightarrow> u32 \<Rightarrow> (mem \<times> u32) option" where
  "malloc_find m lim req_size cur_pos =
     (if cur_pos = lim then Some (m, 0)
      else if hdr_used m cur_pos = 0 \<and> sint req_size \<le> sint (hdr_size m cur_pos)
           then Some (set_used m cur_pos 1, cur_pos)
      else malloc_find m lim req_size (cur_pos + hdr_size m cur_pos))"

definition mem_malloc :: "u32 \<Rightarrow> mem_mng \<Rightarrow> mem \<Rightarrow> (u32 \<times> mem_mng \<times> mem) option" where
  "mem_malloc sz mm m =
     (let req_size = sz + HDR in
      case malloc_find m (used_end mm) req_size (heap_start mm) of
        None \<Rightarrow> None
      | Some (m1, ret_addr) \<Rightarrow>
          if ret_addr = 0 then
            (let ret_addr = used_end mm;
                 mm1 = mm\<lparr>used_end := used_end mm + req_size\<rparr>
             in if ENDUSRSTACKADDR < used_end mm1 then Some (0, mm1, m1)
                else Some (ret_addr + HDR, mm1, set_size (set_used m1 ret_addr 1) ret_addr req_size))
          else Some (ret_addr + HDR, mm, m1))"

definition mem_free :: "u32 \<Rightarrow> mem \<Rightarrow> int \<times> mem" where
  "mem_free addr m =
     (let h = addr - HDR in
      if hdr_used m h \<noteq> 1 then (-1, m) else (0, set_used m h 0))"

lemmas hdr_defs = hdr_used_def hdr_size_def set_used_def set_size_def HDR_def

section \<open>The abstract heap\<close>

text \<open>
  What the chain of headers means: a list of blocks, each used or free, with its size (header
  included). \<open>chain m a bs e\<close>: the headers from \<open>a\<close> to \<open>e\<close> in memory
  \<open>m\<close> are exactly the blocks \<open>bs\<close>, each at least a header long and inside the heap area.
\<close>

type_synonym block = "bool \<times> nat"

fun chain :: "mem \<Rightarrow> u32 \<Rightarrow> block list \<Rightarrow> u32 \<Rightarrow> bool" where
  "chain m a [] e = (a = e)"
| "chain m a ((u, n) # bs) e =
     (hdr_used m a = (if u then 1 else 0) \<and> hdr_size m a = of_nat n \<and> 8 \<le> n \<and>
      unat STARTDYMEMADDR \<le> unat a \<and> unat a + n \<le> unat ENDUSRSTACKADDR \<and>
      chain m (a + of_nat n) bs e)"

definition sizes :: "block list \<Rightarrow> nat" where
  "sizes bs = sum_list (map snd bs)"

lemma sizes_simps [simp]: "sizes [] = 0" "sizes (b # bs) = snd b + sizes bs"
  "sizes (bs @ cs) = sizes bs + sizes cs"
  by (simp_all add: sizes_def)

definition heap_wf :: "mem_mng \<Rightarrow> mem \<Rightarrow> block list \<Rightarrow> bool" where
  "heap_wf mm m bs \<longleftrightarrow> heap_start mm = STARTDYMEMADDR \<and> chain m STARTDYMEMADDR bs (used_end mm)"

text \<open>First fit on the abstract heap: the new blocks and the offset of the chosen one.\<close>

fun first_fit :: "nat \<Rightarrow> block list \<Rightarrow> (block list \<times> nat) option" where
  "first_fit r [] = None"
| "first_fit r ((u, n) # bs) =
     (if \<not> u \<and> r \<le> n then Some ((True, n) # bs, 0)
      else (case first_fit r bs of None \<Rightarrow> None | Some (cs, k) \<Rightarrow> Some ((u, n) # cs, n + k)))"

text \<open>Allocation on the abstract heap: first fit, else a new block at the end, if it fits.\<close>

definition HEAP_BYTES :: nat where "HEAP_BYTES = 20971520"

definition abs_malloc :: "nat \<Rightarrow> block list \<Rightarrow> (block list \<times> nat) option" where
  "abs_malloc r bs =
     (case first_fit r bs of
        Some x \<Rightarrow> Some x
      | None \<Rightarrow> if sizes bs + r \<le> HEAP_BYTES then Some (bs @ [(True, r)], sizes bs) else None)"

lemma unat_bounds [simp]:
  "unat STARTDYMEMADDR = 2730491904" "unat ENDUSRSTACKADDR = 2751463424"
  by (simp_all add: mem_consts)

lemma chain_end: "chain m a bs e \<Longrightarrow> unat e = unat a + sizes bs"
proof (induction bs arbitrary: a)
  case (Cons b bs)
  then show ?case by (cases b) (auto simp: unat_plus_small)
qed simp

lemma chain_upper: "chain m a bs e \<Longrightarrow> bs \<noteq> [] \<Longrightarrow> unat a + sizes bs \<le> 2751463424"
proof (induction bs arbitrary: a)
  case (Cons b bs)
  obtain u n where b: "b = (u, n)" by (cases b)
  with Cons.prems have *: "unat a + n \<le> 2751463424" "chain m (a + of_nat n) bs e" by auto
  then have "unat (a + of_nat n) = unat a + n" by (simp add: unat_plus_small)
  with * b Cons.IH [of "a + of_nat n"] show ?case by (cases "bs = []") auto
qed simp

lemma chain_lower: "chain m a bs e \<Longrightarrow> bs \<noteq> [] \<Longrightarrow> 2730491904 \<le> unat a"
  by (cases bs) auto

text \<open>The chain depends on the bytes between its ends only.\<close>

lemma hdr_cong:
  assumes "\<And>x. unat a \<le> unat x \<Longrightarrow> unat x < unat a + 8 \<Longrightarrow> m x = m' x" and "unat a + 8 \<le> 2 ^ 32"
  shows "hdr_used m a = hdr_used m' a" and "hdr_size m a = hdr_size m' a"
proof -
  have a4: "unat (a + 4) = unat a + 4" using unat_plus_small [of a 4] assms(2) by simp
  show "hdr_used m a = hdr_used m' a" unfolding hdr_used_def
    by (rule ld32_cong, rule assms(1)) (use assms(2) word_bytes_range [of a] in fastforce)+
  show "hdr_size m a = hdr_size m' a" unfolding hdr_size_def
    by (rule ld32_cong, rule assms(1)) (use assms(2) a4 word_bytes_range [of "a + 4"] in fastforce)+
qed

lemma chain_cong:
  assumes "\<And>x. unat a \<le> unat x \<Longrightarrow> unat x < unat a + sizes bs \<Longrightarrow> m x = m' x"
    and "chain m a bs e"
  shows "chain m' a bs e"
  using assms
proof (induction bs arbitrary: a)
  case (Cons b bs)
  obtain u n where b: "b = (u, n)" by (cases b)
  from Cons.prems(2) b have n: "8 \<le> n" "unat a + n \<le> 2751463424" by auto
  then have an: "unat (a + of_nat n) = unat a + n" by (simp add: unat_plus_small)
  have "hdr_used m a = hdr_used m' a" "hdr_size m a = hdr_size m' a"
    by (rule hdr_cong; use Cons.prems(1) b n in fastforce)+
  moreover have "chain m' (a + of_nat n) bs e"
    by (rule Cons.IH) (use Cons.prems b an in auto)
  ultimately show ?case using Cons.prems(2) b by simp
qed simp

lemma chain_append:
  "chain m a (xs @ ys) e \<longleftrightarrow>
     chain m a xs (a + of_nat (sizes xs)) \<and> chain m (a + of_nat (sizes xs)) ys e"
  by (induction xs arbitrary: a) (auto simp: add.assoc)

lemma set_used_other: "unat p + 8 \<le> 2 ^ 32 \<Longrightarrow> unat x < unat p \<or> unat p + 4 \<le> unat x \<Longrightarrow>
    set_used m p v x = m x"
  unfolding set_used_def by (rule st32_other) (use word_bytes_range [of p x] in fastforce)

lemma hdr_set_used:
  assumes "unat p + 8 \<le> 2 ^ 32"
  shows "hdr_used (set_used m p v) p = v" and "hdr_size (set_used m p v) p = hdr_size m p"
proof -
  have "unat (p + 4) = unat p + 4" using unat_plus_small [of p 4] assms by simp
  then have "word_bytes p \<inter> word_bytes (p + 4) = {}"
    using word_bytes_disjoint [of p "p + 4"] assms by simp
  then show "hdr_size (set_used m p v) p = hdr_size m p"
    by (simp add: hdr_defs mem_simps)
qed (simp add: hdr_defs mem_simps)

text \<open>Marking one block used or free changes exactly that block of the chain.\<close>

lemma chain_set_used:
  assumes c: "chain m a (xs @ (u, n) # ys) e"
  shows "chain (set_used m (a + of_nat (sizes xs)) (if v then 1 else 0)) a (xs @ (v, n) # ys) e"
proof -
  define p where "p = a + of_nat (sizes xs)"
  from c have cx: "chain m a xs p" and cp: "chain m p ((u, n) # ys) e"
    by (auto simp: chain_append p_def)
  from cp have n: "8 \<le> n" "unat p + n \<le> 2751463424" by auto
  then have pn: "unat (p + of_nat n) = unat p + n" by (simp add: unat_plus_small)
  have up: "unat p = unat a + sizes xs" using chain_end [OF cx] .
  let ?m = "set_used m p (if v then 1 else 0)"
  have x: "chain ?m a xs p"
    using chain_cong [OF _ cx, of ?m] set_used_other [of p] n up by simp
  from cp have "chain m (p + of_nat n) ys e" by simp
  then have y: "chain ?m (p + of_nat n) ys e"
    by (rule chain_cong [rotated]) (use set_used_other [of p] n pn in simp)
  have "chain ?m p ((v, n) # ys) e" using cp y n hdr_set_used [of p m] by simp
  with x show ?thesis by (simp add: chain_append p_def)
qed

lemma first_fit_SomeD:
  "first_fit r bs = Some (cs, k) \<Longrightarrow>
     \<exists>xs n ys. bs = xs @ (False, n) # ys \<and> cs = xs @ (True, n) # ys \<and> k = sizes xs \<and> r \<le> n \<and>
       (\<forall>b \<in> set xs. fst b \<or> snd b < r)"
proof (induction bs arbitrary: cs k)
  case (Cons b bs)
  obtain u n where b: "b = (u, n)" by (cases b)
  show ?case
  proof (cases "\<not> u \<and> r \<le> n")
    case True
    with Cons.prems b show ?thesis by (intro exI [of _ "[]"]) auto
  next
    case False
    with Cons.prems b obtain cs' k' where ff: "first_fit r bs = Some (cs', k')"
      and eq: "cs = (u, n) # cs'" "k = n + k'" by (auto split: option.splits)
    from Cons.IH [OF ff] obtain xs l ys where
      "bs = xs @ (False, l) # ys" "cs' = xs @ (True, l) # ys" "k' = sizes xs" "r \<le> l"
      "\<forall>b \<in> set xs. fst b \<or> snd b < r" by blast
    with False eq b show ?thesis by (intro exI [of _ "(u, n) # xs"]) auto
  qed
qed simp

lemma first_fit_None: "first_fit r bs = None \<longleftrightarrow> (\<forall>b \<in> set bs. fst b \<or> snd b < r)"
  by (induction bs) (auto split: option.splits if_splits)

lemma sint_small: "n < 2 ^ 31 \<Longrightarrow> sint (of_nat n :: u32) = int n"
  by (simp add: signed_of_nat signed_take_bit_int_eq_self)

text \<open>
  On a well-formed chain the search loop returns, and what it does is first fit.
\<close>

lemma malloc_find_first_fit:
  assumes "chain m a bs e" and "r < 2 ^ 31"
  shows "malloc_find m e (of_nat r) a =
    (case first_fit r bs of
       None \<Rightarrow> Some (m, 0)
     | Some (cs, k) \<Rightarrow> Some (set_used m (a + of_nat k) 1, a + of_nat k))"
  using assms
proof (induction bs arbitrary: a)
  case Nil
  then show ?case by (simp add: malloc_find.simps)
next
  case (Cons b bs)
  obtain u n where b: "b = (u, n)" by (cases b)
  with Cons.prems have n: "8 \<le> n" "unat a + n \<le> 2751463424" "hdr_used m a = (if u then 1 else 0)"
    "2730491904 \<le> unat a" "hdr_size m a = of_nat n" "chain m (a + of_nat n) bs e" by auto
  from chain_end [OF Cons.prems(1)] b n(1) have ne: "a \<noteq> e" by auto
  from n have sn: "sint (of_nat n :: u32) = int n" "sint (of_nat r :: u32) = int r"
    using Cons.prems(2) by (simp_all add: sint_small)
  show ?case
  proof (cases "\<not> u \<and> r \<le> n")
    case True
    with b n ne sn show ?thesis by (simp add: malloc_find.simps)
  next
    case False
    then have "malloc_find m e (of_nat r) a = malloc_find m e (of_nat r) (a + of_nat n)"
      using n ne sn by (subst malloc_find.simps) auto
    with Cons.IH [OF n(6) Cons.prems(2)] False b show ?thesis
      by (auto simp: add.assoc split: option.splits)
  qed
qed

section \<open>The code's allocator against the abstract one\<close>

lemma heap_wf_end:
  assumes "heap_wf mm m bs"
  shows "unat (used_end mm) = 2730491904 + sizes bs" and "sizes bs \<le> HEAP_BYTES"
proof -
  from assms have c: "chain m STARTDYMEMADDR bs (used_end mm)" by (simp add: heap_wf_def)
  then show "unat (used_end mm) = 2730491904 + sizes bs" by (simp add: chain_end)
  show "sizes bs \<le> HEAP_BYTES"
    using chain_upper [OF c] by (cases "bs = []") (auto simp: HEAP_BYTES_def)
qed

text \<open>A request that cannot wrap the address computation, header included.\<close>

definition req_ok :: "u32 \<Rightarrow> bool" where
  "req_ok sz \<longleftrightarrow> unat sz + 8 < 1543503872"

lemma req_word: "sz + HDR = of_nat (unat sz + 8)"
  by (simp add: HDR_def)

text \<open>A whole header: what it reads back as, and the bytes it leaves alone.\<close>

lemma header_bytes:
  assumes "unat p + 8 \<le> 2 ^ 32"
  shows "word_bytes (p + 4) \<inter> word_bytes p = {}"
    and "x \<in> word_bytes p \<or> x \<in> word_bytes (p + 4) \<Longrightarrow> unat p \<le> unat x \<and> unat x < unat p + 8"
proof -
  have p4: "unat (p + 4) = unat p + 4" using unat_plus_small [of p 4] assms by simp
  show "word_bytes (p + 4) \<inter> word_bytes p = {}"
    using word_bytes_disjoint(2) [of p "p + 4"] p4 assms by simp
  show "unat p \<le> unat x \<and> unat x < unat p + 8" if "x \<in> word_bytes p \<or> x \<in> word_bytes (p + 4)"
    using that
  proof
    assume "x \<in> word_bytes p"
    from word_bytes_range [OF _ this] assms show ?thesis by simp
  next
    assume "x \<in> word_bytes (p + 4)"
    from word_bytes_range [OF _ this] p4 assms show ?thesis by simp
  qed
qed

lemma set_header_other:
  assumes p: "unat p + 8 \<le> 2 ^ 32" and x: "unat x < unat p \<or> unat p + 8 \<le> unat x"
  shows "set_size (set_used m p u) p v x = m x"
proof -
  from header_bytes(2) [OF p, of x] x have "x \<notin> word_bytes p" "x \<notin> word_bytes (p + 4)" by auto
  then show ?thesis by (simp add: set_size_def set_used_def st32_other)
qed

lemma hdr_set_header:
  assumes "unat p + 8 \<le> 2 ^ 32"
  shows "hdr_used (set_size (set_used m p u) p v) p = u"
    and "hdr_size (set_size (set_used m p u) p v) p = v"
  using header_bytes(1) [OF assms]
  by (simp_all add: hdr_used_def hdr_size_def set_size_def set_used_def mem_simps)

lemma chain_snoc:
  assumes c: "chain m a bs e" and a: "2730491904 \<le> unat a"
    and r: "8 \<le> r" "unat e + r \<le> 2751463424"
  shows "chain (set_size (set_used m e 1) e (of_nat r)) a (bs @ [(True, r)]) (e + of_nat r)"
proof -
  let ?m = "set_size (set_used m e 1) e (of_nat r)"
  have end_eq: "unat e = unat a + sizes bs" using chain_end [OF c] .
  then have e: "e = a + of_nat (sizes bs)" by (rule word_of_unat_plus)
  have p: "unat e + 8 \<le> 2 ^ 32" using r by simp
  have "chain ?m a bs e"
    by (rule chain_cong [OF _ c]) (use set_header_other [OF p] end_eq in simp)
  moreover have "hdr_used ?m e = 1" "hdr_size ?m e = of_nat r"
    using hdr_set_header [OF p] by simp_all
  then have "chain ?m e [(True, r)] (e + of_nat r)" using r a end_eq by simp
  ultimately show ?thesis using e by (simp add: chain_append)
qed

lemma malloc_cases:
  assumes wf: "heap_wf mm m bs" and ok: "req_ok sz"
  shows "(\<exists>xs n ys. first_fit (unat sz + 8) bs = Some (xs @ (True, n) # ys, sizes xs) \<and>
            bs = xs @ (False, n) # ys \<and> unat sz + 8 \<le> n \<and>
            mem_malloc sz mm m = Some (STARTDYMEMADDR + of_nat (sizes xs) + 8, mm,
              set_used m (STARTDYMEMADDR + of_nat (sizes xs)) 1))
       \<or> (first_fit (unat sz + 8) bs = None \<and> sizes bs + (unat sz + 8) \<le> HEAP_BYTES \<and>
            mem_malloc sz mm m = Some (used_end mm + 8, mm\<lparr>used_end := used_end mm + (sz + 8)\<rparr>,
              set_size (set_used m (used_end mm) 1) (used_end mm) (sz + 8)))
       \<or> (first_fit (unat sz + 8) bs = None \<and> HEAP_BYTES < sizes bs + (unat sz + 8) \<and>
            mem_malloc sz mm m = Some (0, mm\<lparr>used_end := used_end mm + (sz + 8)\<rparr>, m))"
proof -
  let ?r = "unat sz + 8"
  from wf have c: "chain m (heap_start mm) bs (used_end mm)" and hs: "heap_start mm = STARTDYMEMADDR"
    by (simp_all add: heap_wf_def)
  from ok have r: "?r < 2 ^ 31" by (simp add: req_ok_def)
  note find = malloc_find_first_fit [OF c r]
  have ue: "unat (used_end mm) = 2730491904 + sizes bs" "sizes bs \<le> HEAP_BYTES"
    using heap_wf_end [OF wf] by simp_all
  have sum: "unat (used_end mm + (sz + 8)) = 2730491904 + sizes bs + ?r"
    using unat_plus_small [of "used_end mm" ?r] ue ok by (simp add: req_ok_def HEAP_BYTES_def)
  show ?thesis
  proof (cases "first_fit ?r bs")
    case (Some x)
    then obtain cs k where ff: "first_fit ?r bs = Some (cs, k)" by (cases x) auto
    from first_fit_SomeD [OF ff] obtain xs n ys where
      x: "bs = xs @ (False, n) # ys" "cs = xs @ (True, n) # ys" "k = sizes xs" "?r \<le> n" by blast
    have "unat (STARTDYMEMADDR + of_nat k) \<noteq> 0"
      using unat_plus_small [of STARTDYMEMADDR k] ue x by (simp add: HEAP_BYTES_def)
    then have "STARTDYMEMADDR + of_nat k \<noteq> 0" by (metis unat_0)
    with find ff hs x have "mem_malloc sz mm m = Some (STARTDYMEMADDR + of_nat k + HDR, mm,
        set_used m (STARTDYMEMADDR + of_nat k) 1)"
      unfolding mem_malloc_def Let_def req_word by simp
    with ff x show ?thesis by (auto simp: HDR_def)
  next
    case None
    with find hs sum show ?thesis
      by (auto simp: mem_malloc_def HDR_def Let_def word_less_nat_alt HEAP_BYTES_def add.commute add.left_commute)
  qed
qed

lemma malloc_refines_abs:
  assumes wf: "heap_wf mm m bs" and ok: "req_ok sz"
  shows "case abs_malloc (unat sz + 8) bs of
      Some (cs, k) \<Rightarrow> \<exists>mm' m'. mem_malloc sz mm m = Some (STARTDYMEMADDR + of_nat k + 8, mm', m') \<and>
                         heap_wf mm' m' cs
    | None \<Rightarrow> mem_malloc sz mm m = Some (0, mm\<lparr>used_end := used_end mm + (sz + 8)\<rparr>, m)"
proof -
  from wf have c: "chain m STARTDYMEMADDR bs (used_end mm)" and hs: "heap_start mm = STARTDYMEMADDR"
    by (simp_all add: heap_wf_def)
  have ue: "unat (used_end mm) = 2730491904 + sizes bs" using heap_wf_end [OF wf] by simp
  then have uw: "used_end mm = STARTDYMEMADDR + of_nat (sizes bs)"
    by (intro word_of_unat_plus) simp
  from malloc_cases [OF wf ok] show ?thesis
  proof (elim disjE exE conjE, goal_cases)
    case (1 xs n ys)
    with chain_set_used [of m STARTDYMEMADDR xs False n ys "used_end mm" True] c hs
    show ?case by (simp add: abs_malloc_def heap_wf_def)
  next
    case 2
    with chain_snoc [OF c, of "unat sz + 8"] ue uw hs show ?case
      by (simp add: abs_malloc_def heap_wf_def HEAP_BYTES_def)
  next
    case 3
    then show ?case by (simp add: abs_malloc_def)
  qed
qed

text \<open>\<open>mem_free\<close> frees a used block, refuses a free one, and changes nothing else.\<close>

lemma free_used_block:
  assumes wf: "heap_wf mm m (xs @ (True, n) # ys)"
  shows "mem_free (STARTDYMEMADDR + of_nat (sizes xs) + 8) m =
      (0, set_used m (STARTDYMEMADDR + of_nat (sizes xs)) 0)"
    and "heap_wf mm (set_used m (STARTDYMEMADDR + of_nat (sizes xs)) 0) (xs @ (False, n) # ys)"
proof -
  from wf have c: "chain m STARTDYMEMADDR (xs @ (True, n) # ys) (used_end mm)"
    and hs: "heap_start mm = STARTDYMEMADDR" by (simp_all add: heap_wf_def)
  then show "mem_free (STARTDYMEMADDR + of_nat (sizes xs) + 8) m =
      (0, set_used m (STARTDYMEMADDR + of_nat (sizes xs)) 0)"
    by (simp add: mem_free_def HDR_def chain_append)
  show "heap_wf mm (set_used m (STARTDYMEMADDR + of_nat (sizes xs)) 0) (xs @ (False, n) # ys)"
    using chain_set_used [OF c, of False] hs by (simp add: heap_wf_def)
qed

lemma free_free_block:
  assumes "heap_wf mm m (xs @ (False, n) # ys)"
  shows "mem_free (STARTDYMEMADDR + of_nat (sizes xs) + 8) m = (-1, m)"
  using assms by (simp add: heap_wf_def mem_free_def HDR_def chain_append)

section \<open>The live areas, and the allocator as an interface\<close>

text \<open>
  The payload areas of the used blocks, as pairs of address and length. A chain determines its
  blocks, so a well-formed heap determines its live areas.
\<close>

fun areas :: "nat \<Rightarrow> block list \<Rightarrow> (nat \<times> nat) set" where
  "areas a [] = {}"
| "areas a ((u, n) # bs) = (if u then {(a + 8, n - 8)} else {}) \<union> areas (a + n) bs"

lemma areas_append: "areas a (xs @ ys) = areas a xs \<union> areas (a + sizes xs) ys"
  by (induction xs arbitrary: a) (auto simp: add.assoc)

lemma areas_bounds: "(p, l) \<in> areas a bs \<Longrightarrow> \<forall>b \<in> set bs. 8 \<le> snd b \<Longrightarrow>
    a + 8 \<le> p \<and> p + l \<le> a + sizes bs"
proof (induction bs arbitrary: a)
  case (Cons b bs)
  obtain u n where b: "b = (u, n)" by (cases b)
  from Cons.prems b have "(u \<and> p = a + 8 \<and> l = n - 8) \<or> (p, l) \<in> areas (a + n) bs"
    by (auto split: if_splits)
  with Cons.IH [of "a + n"] Cons.prems(2) b show ?case by auto
qed simp

lemma areas_disjoint: "(p, l) \<in> areas a bs \<Longrightarrow> (q, k) \<in> areas a bs \<Longrightarrow> (p, l) \<noteq> (q, k) \<Longrightarrow>
    \<forall>b \<in> set bs. 8 \<le> snd b \<Longrightarrow> p + l \<le> q \<or> q + k \<le> p"
proof (induction bs arbitrary: a)
  case (Cons b bs)
  obtain u n where b: "b = (u, n)" by (cases b)
  from Cons.prems b consider "(p, l) \<in> areas (a + n) bs" "(q, k) \<in> areas (a + n) bs"
    | "p = a + 8" "l = n - 8" "(q, k) \<in> areas (a + n) bs"
    | "q = a + 8" "k = n - 8" "(p, l) \<in> areas (a + n) bs"
    by (auto split: if_splits)
  then show ?case
  proof cases
    case 1
    with Cons show ?thesis by simp
  next
    case 2
    with areas_bounds [of q k "a + n" bs] Cons.prems(4) b show ?thesis by auto
  next
    case 3
    with areas_bounds [of p l "a + n" bs] Cons.prems(4) b show ?thesis by auto
  qed
qed simp

lemma chain_sizes_ge: "chain m a bs e \<Longrightarrow> \<forall>b \<in> set bs. 8 \<le> snd b"
  by (induction bs arbitrary: a) fastforce+

lemma chain_unique: "chain m a bs e \<Longrightarrow> chain m a cs e \<Longrightarrow> bs = cs"
proof (induction bs arbitrary: a cs)
  case Nil
  then show ?case using chain_end [of m a cs e] by (cases cs) auto
next
  case (Cons b bs)
  obtain u n where b: "b = (u, n)" by (cases b)
  from Cons.prems(1) b have n: "8 \<le> n" "n \<le> 2751463424" by auto
  from chain_end [OF Cons.prems(1)] b n have "a \<noteq> e" by auto
  with Cons.prems(2) obtain v l cs' where cs: "cs = (v, l) # cs'" by (cases cs) auto
  with Cons.prems(2) have l: "l \<le> 2751463424" by auto
  from Cons.prems b cs have "(of_nat n :: u32) = of_nat l" by simp
  then have "unat (of_nat n :: u32) = unat (of_nat l :: u32)" by simp
  with n l have "n = l" by (simp add: unat_of_nat)
  moreover from Cons.prems b cs have "u = v" by (auto split: if_splits)
  ultimately show ?case using Cons.IH [of "a + of_nat n" cs'] Cons.prems b cs by simp
qed

type_synonym heap = "mem_mng \<times> mem"

definition heap_ok :: "heap \<Rightarrow> bool" where
  "heap_ok s \<longleftrightarrow> (\<exists>bs. heap_wf (fst s) (snd s) bs)"

definition heap_live :: "heap \<Rightarrow> (nat \<times> nat) set" where
  "heap_live s = (\<Union>bs \<in> {bs. heap_wf (fst s) (snd s) bs}. areas 2730491904 bs)"

lemma heap_live_eq: "heap_wf mm m bs \<Longrightarrow> heap_live (mm, m) = areas 2730491904 bs"
proof -
  assume wf: "heap_wf mm m bs"
  then have "{bs. heap_wf mm m bs} = {bs}"
    by (auto simp: heap_wf_def intro: chain_unique)
  then show ?thesis by (simp add: heap_live_def)
qed

lemma heap_sizes_ge: "heap_wf mm m bs \<Longrightarrow> \<forall>b \<in> set bs. 8 \<le> snd b"
  by (auto simp: heap_wf_def dest: chain_sizes_ge)

text \<open>The allocator as a client sees it: an address or no memory.\<close>

definition heap_alloc :: "u32 \<Rightarrow> heap \<Rightarrow> (nat \<times> heap) option" where
  "heap_alloc sz s =
     (case mem_malloc sz (fst s) (snd s) of
        None \<Rightarrow> None
      | Some (a, mm, m) \<Rightarrow> if a = 0 then None else Some (unat a, (mm, m)))"

definition heap_release :: "nat \<Rightarrow> heap \<Rightarrow> heap" where
  "heap_release p s = (fst s, snd (mem_free (of_nat p) (snd s)))"

lemma abs_malloc_areas:
  assumes "abs_malloc r bs = Some (cs, k)"
  shows "\<exists>n \<ge> r. areas a cs = insert (a + k + 8, n - 8) (areas a bs) \<and>
    (\<exists>xs ys. (bs = xs @ (False, n) # ys \<or> bs = xs \<and> ys = []) \<and> cs = xs @ (True, n) # ys \<and> k = sizes xs)"
proof (cases "first_fit r bs")
  case None
  with assms have "cs = bs @ [(True, r)]" "k = sizes bs"
    by (auto simp: abs_malloc_def split: if_splits)
  then show ?thesis by (intro exI [of _ r]) (auto simp: areas_append)
next
  case (Some x)
  with assms have "first_fit r bs = Some (cs, k)" by (simp add: abs_malloc_def)
  from first_fit_SomeD [OF this] obtain xs n ys where
    "bs = xs @ (False, n) # ys" "cs = xs @ (True, n) # ys" "k = sizes xs" "r \<le> n" by blast
  then show ?thesis by (intro exI [of _ n]) (auto simp: areas_append)
qed

lemma heap_alloc_cases:
  assumes wf: "heap_wf mm m bs" and ok: "req_ok sz" and al: "heap_alloc sz (mm, m) = Some (p, (mm', m'))"
  shows "\<exists>cs k. abs_malloc (unat sz + 8) bs = Some (cs, k) \<and> heap_wf mm' m' cs \<and> p = 2730491904 + k + 8"
proof (cases "abs_malloc (unat sz + 8) bs")
  case None
  with malloc_refines_abs [OF wf ok] al show ?thesis by (simp add: heap_alloc_def)
next
  case (Some x)
  then obtain cs k where ck: "abs_malloc (unat sz + 8) bs = Some (cs, k)" by (cases x) auto
  with malloc_refines_abs [OF wf ok] al
  have wf': "heap_wf mm' m' cs" and p: "p = unat (STARTDYMEMADDR + of_nat k + 8)"
    by (auto simp: heap_alloc_def split: if_splits)
  from abs_malloc_areas [OF ck] obtain xs n ys where "cs = xs @ (True, n) # ys" "k = sizes xs" by blast
  then have "k \<le> HEAP_BYTES" using heap_wf_end(2) [OF wf'] by simp
  then have "unat (STARTDYMEMADDR + of_nat (k + 8)) = 2730491904 + (k + 8)"
    by (subst unat_plus_small) (simp_all add: HEAP_BYTES_def)
  with p ck wf' show ?thesis by (simp add: add.assoc)
qed

lemma heap_release_used:
  assumes wf: "heap_wf mm m bs" and l: "(p, l) \<in> areas 2730491904 bs"
  shows "\<exists>xs n ys. bs = xs @ (True, n) # ys \<and> p = 2730491904 + sizes xs + 8 \<and> l = n - 8 \<and>
    heap_release p (mm, m) = (mm, set_used m (STARTDYMEMADDR + of_nat (sizes xs)) 0)"
proof -
  have split: "\<exists>xs n ys. bs = xs @ (True, n) # ys \<and> p = a + sizes xs + 8 \<and> l = n - 8"
    if "(p, l) \<in> areas a bs" for a
    using that
  proof (induction bs arbitrary: a)
    case (Cons b bs)
    obtain u n where b: "b = (u, n)" by (cases b)
    with Cons.prems consider "u" "p = a + 8" "l = n - 8" | "(p, l) \<in> areas (a + n) bs"
      by (auto split: if_splits)
    then show ?case
    proof cases
      case 1
      with b show ?thesis by (intro exI [of _ "[]"]) auto
    next
      case 2
      from Cons.IH [OF this] obtain xs k ys where
        "bs = xs @ (True, k) # ys" "p = (a + n) + sizes xs + 8" "l = k - 8" by blast
      with b show ?thesis by (intro exI [of _ "(u, n) # xs"]) auto
    qed
  qed simp
  from split [OF l] obtain xs n ys where
    x: "bs = xs @ (True, n) # ys" "p = 2730491904 + sizes xs + 8" "l = n - 8" by blast
  have pw: "(of_nat p :: u32) = STARTDYMEMADDR + of_nat (sizes xs) + 8"
    using x(2) by (simp add: mem_consts)
  from wf x(1) have "mem_free (of_nat p) m = (0, set_used m (STARTDYMEMADDR + of_nat (sizes xs)) 0)"
    unfolding pw by (metis free_used_block(1))
  then have "heap_release p (mm, m) = (mm, set_used m (STARTDYMEMADDR + of_nat (sizes xs)) 0)"
    by (simp add: heap_release_def)
  with x show ?thesis by blast
qed

interpretation heap: allocator heap_ok req_ok unat heap_alloc heap_release heap_live
proof (unfold_locales, goal_cases)
  case (1 s r p s')
  then show ?case using heap_alloc_cases by (cases s; cases s') (fastforce simp: heap_ok_def)
next
  case (2 s r p s')
  obtain mm m mm' m' where s: "s = (mm, m)" "s' = (mm', m')" by (cases s; cases s')
  with 2 obtain bs where wf: "heap_wf mm m bs" by (auto simp: heap_ok_def)
  from heap_alloc_cases [OF wf 2(2)] 2(3) s obtain cs k where
    ck: "abs_malloc (unat r + 8) bs = Some (cs, k)" "heap_wf mm' m' cs" "p = 2730491904 + k + 8"
    by blast
  from abs_malloc_areas [OF ck(1), of 2730491904] obtain n where n: "unat r + 8 \<le> n"
    "areas 2730491904 cs = insert (2730491904 + k + 8, n - 8) (areas 2730491904 bs)" by blast
  from abs_malloc_areas [OF ck(1), of 2730491904] obtain xs l ys where
    x: "bs = xs @ (False, l) # ys \<or> bs = xs \<and> ys = []" "k = sizes xs" by blast
  have "(2730491904 + k + 8, j) \<notin> areas 2730491904 bs" for j
    using x areas_bounds [of "2730491904 + k + 8" j 2730491904 xs]
      areas_bounds [of "2730491904 + k + 8" j "2730491904 + sizes xs + l" ys] heap_sizes_ge [OF wf]
    by (auto simp: areas_append)
  with n ck s heap_live_eq [OF wf] heap_live_eq [OF ck(2)] show ?case
    by (intro exI [of _ "n - 8"]) auto
next
  case (3 s p n q k)
  then obtain bs where wf: "heap_wf (fst s) (snd s) bs" by (auto simp: heap_ok_def)
  with 3 heap_live_eq [OF wf] areas_disjoint [of p n _ bs q k] heap_sizes_ge [OF wf] show ?case by simp
next
  case (4 s p n)
  then obtain bs where wf: "heap_wf (fst s) (snd s) bs" by (auto simp: heap_ok_def)
  with 4 heap_live_eq [OF wf] have "(p, n) \<in> areas 2730491904 bs" by simp
  from heap_release_used [OF wf this] obtain xs k ys where x: "bs = xs @ (True, k) # ys"
    "heap_release p s = (fst s, set_used (snd s) (STARTDYMEMADDR + of_nat (sizes xs)) 0)" by auto
  from wf x(1) have "heap_wf (fst s) (set_used (snd s) (STARTDYMEMADDR + of_nat (sizes xs)) 0)
      (xs @ (False, k) # ys)" by (metis free_used_block(2))
  with x(2) show ?case by (auto simp: heap_ok_def)
next
  case (5 s p n)
  then obtain bs where wf: "heap_wf (fst s) (snd s) bs" by (auto simp: heap_ok_def)
  with 5 heap_live_eq [OF wf] have l: "(p, n) \<in> areas 2730491904 bs" by simp
  from heap_release_used [OF wf l] obtain xs k ys where x: "bs = xs @ (True, k) # ys"
    "p = 2730491904 + sizes xs + 8" "n = k - 8"
    "heap_release p s = (fst s, set_used (snd s) (STARTDYMEMADDR + of_nat (sizes xs)) 0)" by auto
  from wf x(1) have "heap_wf (fst s) (set_used (snd s) (STARTDYMEMADDR + of_nat (sizes xs)) 0)
      (xs @ (False, k) # ys)" by (metis free_used_block(2))
  from heap_live_eq [OF this] x(4)
  have live': "heap_live (heap_release p s) = areas 2730491904 (xs @ (False, k) # ys)" by simp
  have "(p, n) \<notin> areas 2730491904 xs" "(p, n) \<notin> areas (2730491904 + sizes xs + k) ys"
    using x areas_bounds [of p n 2730491904 xs] areas_bounds [of p n "2730491904 + sizes xs + k" ys]
      heap_sizes_ge [OF wf] by auto
  with live' x heap_live_eq [OF wf] show ?case by (auto simp: areas_append)
qed

section \<open>A failed request\<close>

text \<open>
  A search that reaches a header of size 0 never leaves it: the loop adds 0 to \<open>cur_pos\<close>
  for ever.
\<close>

lemma malloc_find_stuck:
  assumes z: "hdr_size m e = 0" and lim: "e \<noteq> lim" and r: "0 < sint r"
  shows "malloc_find m lim r e = None"
proof -
  have "cur \<noteq> e" if "malloc_find m lim r cur = Some x" for cur x
  proof -
    have "m' = m \<longrightarrow> lim' = lim \<longrightarrow> r' = r \<longrightarrow> cur' \<noteq> e" if "malloc_find m' lim' r' cur' = Some y"
      for m' lim' r' cur' y
    proof (rule malloc_find.raw_induct
        [where P = "\<lambda>m' lim' r' cur' y. m' = m \<longrightarrow> lim' = lim \<longrightarrow> r' = r \<longrightarrow> cur' \<noteq> e", OF _ that])
      fix f m' lim' r' cur' y
      assume IH: "\<And>m' lim' r' cur' y. f m' lim' r' cur' = Some y \<Longrightarrow>
          m' = m \<longrightarrow> lim' = lim \<longrightarrow> r' = r \<longrightarrow> cur' \<noteq> e"
        and eq: "(if cur' = lim' then Some (m', 0)
            else if hdr_used m' cur' = 0 \<and> sint r' \<le> sint (hdr_size m' cur')
                 then Some (set_used m' cur' 1, cur')
                 else f m' lim' r' (cur' + hdr_size m' cur')) = Some y"
      show "m' = m \<longrightarrow> lim' = lim \<longrightarrow> r' = r \<longrightarrow> cur' \<noteq> e"
      proof (intro impI notI)
        assume "m' = m" "lim' = lim" "r' = r" "cur' = e"
        with eq z lim r have "f m lim r e = Some y" by simp
        with IH show False by blast
      qed
    qed
    with that show ?thesis by blast
  qed
  then show ?thesis by (cases "malloc_find m lim r e") auto
qed

lemma malloc_find_walk:
  assumes "chain m a bs e" and "r < 2 ^ 31" and "first_fit r bs = None" and "unat e < unat lim"
  shows "malloc_find m lim (of_nat r) a = malloc_find m lim (of_nat r) e"
  using assms
proof (induction bs arbitrary: a)
  case (Cons b bs)
  obtain u n where b: "b = (u, n)" by (cases b)
  with Cons.prems have n: "8 \<le> n" "n \<le> 2751463424 - 2730491904" "hdr_used m a = (if u then 1 else 0)"
    "hdr_size m a = of_nat n" "chain m (a + of_nat n) bs e" by auto
  have ne: "a \<noteq> lim" using chain_end [OF Cons.prems(1)] Cons.prems(4) by auto
  have nf: "u \<or> n < r" "first_fit r bs = None" using Cons.prems(3) b
    by (auto split: if_splits option.splits)
  have "malloc_find m lim (of_nat r) a = malloc_find m lim (of_nat r) (a + of_nat n)"
    using n nf ne sint_small [of n] sint_small [OF Cons.prems(2)] by (subst malloc_find.simps) auto
  with Cons.IH [OF n(5) Cons.prems(2) nf(2) Cons.prems(4)] show ?case by simp
qed simp

lemma failed_malloc_then_hang:
  assumes wf: "heap_wf mm m bs" and ok: "req_ok sz" "req_ok sz'"
    and fail: "abs_malloc (unat sz + 8) bs = None"
    and none: "first_fit (unat sz' + 8) bs = None"
    and blank: "hdr_size m (used_end mm) = 0"
  shows "\<exists>mm'. mem_malloc sz mm m = Some (0, mm', m) \<and> mem_malloc sz' mm' m = None"
proof -
  let ?mm = "mm\<lparr>used_end := used_end mm + (sz + 8)\<rparr>"
  from malloc_refines_abs [OF wf ok(1)] fail have f: "mem_malloc sz mm m = Some (0, ?mm, m)" by simp
  from wf have c: "chain m STARTDYMEMADDR bs (used_end mm)" and hs: "heap_start mm = STARTDYMEMADDR"
    by (simp_all add: heap_wf_def)
  have ue: "unat (used_end mm + (sz + 8)) = unat (used_end mm) + (unat sz + 8)"
    using unat_plus_small [of "used_end mm" "unat sz + 8"] heap_wf_end [OF wf] ok(1)
    by (simp add: req_ok_def HEAP_BYTES_def)
  then have lt: "unat (used_end mm) < unat (used_end ?mm)" by simp
  have r: "unat sz' + 8 < 2 ^ 31" using ok(2) by (simp add: req_ok_def)
  have "used_end mm \<noteq> used_end ?mm" using lt by auto
  then have "malloc_find m (used_end ?mm) (of_nat (unat sz' + 8)) (used_end mm) = None"
    by (rule malloc_find_stuck [OF blank]) (use sint_small [OF r] in linarith)
  with malloc_find_walk [OF c r none lt] hs
  have "malloc_find m (used_end ?mm) (of_nat (unat sz' + 8)) (heap_start ?mm) = None" by simp
  then have "mem_malloc sz' ?mm m = None" unfolding mem_malloc_def Let_def req_word by simp
  with f show ?thesis by blast
qed

section \<open>The stack pool after \<open>mem_init\<close>\<close>

lemma nth_mem_init_pool: "i < length p \<Longrightarrow> mem_init_pool p pt ! i =
    (p ! i)\<lparr>block_start_addr := pt + of_nat i * USRSTACKSIZE,
      block_end_addr := pt + of_nat i * USRSTACKSIZE + USRSTACKSIZE - 4, is_used := 0\<rparr>"
proof (induction p arbitrary: pt i)
  case (Cons b p)
  then show ?case by (cases i) (simp_all add: algebra_simps)
qed simp

lemma length_mem_init_pool [simp]: "length (mem_init_pool p pt) = length p"
  by (induction p arbitrary: pt) auto

text \<open>A run of \<open>n\<close> allocations: the addresses in order and the manager afterwards.\<close>

primrec mem_alloc_run :: "nat \<Rightarrow> mem_mng \<Rightarrow> u32 list \<times> mem_mng" where
  "mem_alloc_run 0 mm = ([], mm)"
| "mem_alloc_run (Suc n) mm =
     (let (as, mm1) = mem_alloc_run n mm; (a, mm2) = mem_alloc mm1 in (as @ [a], mm2))"

lemma mem_alloc_pool_split: "\<forall>b \<in> set xs. is_used b \<noteq> 0 \<Longrightarrow>
    mem_alloc_pool (xs @ ys) = (let (r, p) = mem_alloc_pool ys in (r, xs @ p))"
  by (induction xs) (auto simp: Let_def split: prod.splits)

lemma mem_alloc_run_pool:
  "\<forall>b \<in> set (free_mem_pool mm). is_used b = 0 \<Longrightarrow> n \<le> length (free_mem_pool mm) \<Longrightarrow>
   mem_alloc_run n mm = (map block_end_addr (take n (free_mem_pool mm)),
     mm\<lparr>free_mem_pool := map (\<lambda>b. b\<lparr>is_used := 1\<rparr>) (take n (free_mem_pool mm)) @ drop n (free_mem_pool mm)\<rparr>)"
proof (induction n)
  case (Suc n)
  let ?p = "free_mem_pool mm"
  from Suc.prems have d: "drop n ?p = ?p ! n # drop (Suc n) ?p" by (simp add: Cons_nth_drop_Suc)
  have u: "is_used (?p ! n) = 0" using Suc.prems by auto
  have t: "take (Suc n) ?p = take n ?p @ [?p ! n]" using Suc.prems by (simp add: take_Suc_conv_app_nth)
  show ?case using Suc d u t by (simp add: mem_alloc_def mem_alloc_pool_split)
qed simp

section \<open>Properties\<close>

lemma split_position:
  assumes "us @ (True, n) # vs = xs @ (False, k) # ys"
  shows "sizes us + n \<le> sizes xs \<or> sizes xs + k \<le> sizes us"
proof -
  from assms consider zs where "us = xs @ zs" "zs @ (True, n) # vs = (False, k) # ys"
    | zs where "xs = us @ zs" "(True, n) # vs = zs @ (False, k) # ys"
    by (auto simp: append_eq_append_conv2)
  then show ?thesis by cases (auto simp: append_eq_Cons_conv Cons_eq_append_conv)
qed

lemma malloc_frame:
  assumes wf: "heap_wf mm m (us @ (True, n) # vs)" and ok: "req_ok sz"
    and call: "mem_malloc sz mm m = Some (a, mm', m')"
    and x: "2730491904 + sizes us \<le> unat x" "unat x < 2730491904 + sizes us + n"
  shows "m' x = m x"
proof -
  let ?bs = "us @ (True, n) # vs"
  have hb: "sizes ?bs \<le> HEAP_BYTES" and ue: "unat (used_end mm) = 2730491904 + sizes ?bs"
    using heap_wf_end [OF wf] by simp_all
  from malloc_cases [OF wf ok] show ?thesis
  proof (elim disjE exE conjE, goal_cases)
    case (1 xs k ys)
    from \<open>?bs = xs @ (False, k) # ys\<close> have sep: "sizes us + n \<le> sizes xs \<or> sizes xs + k \<le> sizes us"
      by (rule split_position)
    have k: "8 \<le> k" "sizes xs + k \<le> HEAP_BYTES"
      using heap_sizes_ge [OF wf] hb 1(2) by auto
    have "unat (STARTDYMEMADDR + of_nat (sizes xs)) = 2730491904 + sizes xs"
      using k by (subst unat_plus_small) (simp_all add: HEAP_BYTES_def)
    then have "set_used m (STARTDYMEMADDR + of_nat (sizes xs)) 1 x = m x"
      using sep k x by (intro set_used_other) (auto simp: HEAP_BYTES_def)
    with 1 call show ?case by simp
  next
    case 2
    have "set_size (set_used m (used_end mm) 1) (used_end mm) (sz + 8) x = m x"
      using 2(2) x ue ok by (intro set_header_other) (auto simp: HEAP_BYTES_def)
    with 2 call show ?case by simp
  next
    case 3
    with call show ?case by simp
  qed
qed

lemma heap_wf_init: "heap_wf (mem_init mm) m []"
  by (simp add: heap_wf_def mem_init_def)

text \<open>
  C1: On a well-formed heap \<open>mem_malloc\<close> returns, and it implements first fit: when the
  abstract heap has a free block that is large enough, or room at its end, the call returns the
  address eight bytes after that block's header and leaves a well-formed heap with exactly that
  block now used; otherwise it returns the null pointer.
\<close>
theorem malloc_first_fit:
  assumes "heap_wf mm m bs" and "req_ok sz"
  shows "case abs_malloc (unat sz + 8) bs of
      Some (cs, k) \<Rightarrow> \<exists>mm' m'. mem_malloc sz mm m = Some (STARTDYMEMADDR + of_nat k + 8, mm', m') \<and>
                         heap_wf mm' m' cs
    | None \<Rightarrow> \<exists>mm'. mem_malloc sz mm m = Some (0, mm', m)"
  using malloc_refines_abs [OF assms] by (simp split: option.splits prod.splits)

theorem malloc_first_fit_witness:
  "\<exists>mm' m'. mem_malloc 2048 (mem_init mem_mng_zero) (\<lambda>_. 0) = Some (0xA2C00008, mm', m') \<and>
     heap_wf mm' m' [(True, 2056)]"
  using malloc_first_fit [OF heap_wf_init, of 2048 mem_mng_zero "\<lambda>_. 0"]
  by (simp add: req_ok_def abs_malloc_def HEAP_BYTES_def mem_consts)

text \<open>
  C2: Areas that \<open>mem_malloc\<close> hands out one after the other, with no free between them, never
  overlap, each at least as long as was asked for.
\<close>
theorem malloc_areas_disjoint:
  assumes "heap_ok (mm, m)" and "\<forall>r \<in> set rs. req_ok r"
    and "heap.alloc_seq rs (mm, m) = Some (ps, s')" and "i < j" and "j < length rs"
  shows "ps ! i + unat (rs ! i) \<le> ps ! j \<or> ps ! j + unat (rs ! j) \<le> ps ! i"
  by (rule heap.alloc_seq_disjoint [OF assms])

lemma heap_alloc_fresh:
  assumes "heap_wf mm m bs" "req_ok sz" "abs_malloc (unat sz + 8) bs = Some (cs, k)"
    "k \<le> HEAP_BYTES"
  shows "\<exists>mm' m'. heap_alloc sz (mm, m) = Some (2730491904 + k + 8, (mm', m')) \<and> heap_wf mm' m' cs"
proof -
  have u: "unat (STARTDYMEMADDR + of_nat (k + 8)) = 2730491904 + (k + 8)"
    using assms(4) by (subst unat_plus_small) (simp_all add: HEAP_BYTES_def)
  then have u': "unat (STARTDYMEMADDR + of_nat k + 8) = 2730491912 + k" by (simp add: add.assoc)
  have "STARTDYMEMADDR + of_nat k + 8 \<noteq> 0"
  proof
    assume "STARTDYMEMADDR + of_nat k + 8 = 0"
    with u' show False by simp
  qed
  with u' malloc_refines_abs [OF assms(1,2)] assms(3) show ?thesis
    by (auto simp: heap_alloc_def)
qed

theorem malloc_areas_disjoint_witness:
  "\<exists>ps s'. heap.alloc_seq [2048, 3072] (mem_init mem_mng_zero, \<lambda>_. 0) = Some (ps, s') \<and>
     (ps ! 0 + 2048 \<le> ps ! 1 \<or> ps ! 1 + 3072 \<le> ps ! 0)"
proof -
  have "\<exists>mm m. heap_alloc 2048 (mem_init mem_mng_zero, \<lambda>_. 0) = Some (2730491912, (mm, m)) \<and>
      heap_wf mm m [(True, 2056)]"
    using heap_alloc_fresh [OF heap_wf_init, of 2048 "[(True, 2056)]" 0 mem_mng_zero "\<lambda>_. 0"]
    by (simp add: req_ok_def abs_malloc_def HEAP_BYTES_def)
  then obtain mm m where a: "heap_alloc 2048 (mem_init mem_mng_zero, \<lambda>_. 0) = Some (2730491912, (mm, m))"
    and wf: "heap_wf mm m [(True, 2056)]" by blast
  have "\<exists>mm' m'. heap_alloc 3072 (mm, m) = Some (2730493968, (mm', m')) \<and>
      heap_wf mm' m' [(True, 2056), (True, 3080)]"
    using heap_alloc_fresh [OF wf, of 3072 "[(True, 2056), (True, 3080)]" 2056]
    by (simp add: req_ok_def abs_malloc_def HEAP_BYTES_def)
  then obtain s' where "heap_alloc 3072 (mm, m) = Some (2730493968, s')" by blast
  with a have q: "heap.alloc_seq [2048, 3072] (mem_init mem_mng_zero, \<lambda>_. 0) =
      Some ([2730491912, 2730493968], s')" by simp
  have ok: "heap_ok (mem_init mem_mng_zero, \<lambda>_. 0)" using heap_wf_init by (auto simp: heap_ok_def)
  from malloc_areas_disjoint [OF ok _ q, of 0 1] q show ?thesis by (auto simp: req_ok_def)
qed

text \<open>
  \<open>mem_malloc\<close> never changes a byte of a block that is in use, neither its header nor the
  data the owner keeps there, whether the request succeeds or not.
\<close>
lemma malloc_keeps_used_blocks:
  assumes "heap_wf mm m (us @ (True, n) # vs)" and "req_ok sz"
    and "mem_malloc sz mm m = Some (a, mm', m')"
    and "2730491904 + sizes us \<le> unat x" and "unat x < 2730491904 + sizes us + n"
  shows "m' x = m x"
  by (rule malloc_frame [OF assms])

lemma heap_one_block:
  "\<exists>mm m. heap_wf mm m [(True, 2056)] \<and> mem_malloc 2048 (mem_init mem_mng_zero) (\<lambda>_. 0) =
     Some (STARTDYMEMADDR + 8, mm, m)"
  using malloc_refines_abs [OF heap_wf_init, of 2048 mem_mng_zero "\<lambda>_. 0"]
  by (auto simp: req_ok_def abs_malloc_def HEAP_BYTES_def)

theorem malloc_keeps_used_blocks_witness:
  "\<exists>mm m a mm' m'. mem_malloc 2048 (mem_init mem_mng_zero) (\<lambda>_. 0) = Some (STARTDYMEMADDR + 8, mm, m) \<and>
     mem_malloc 3072 mm m = Some (a, mm', m') \<and> m' (STARTDYMEMADDR + 100) = m (STARTDYMEMADDR + 100)"
proof -
  obtain mm m where wf: "heap_wf mm m [(True, 2056)]" and a: "mem_malloc 2048 (mem_init mem_mng_zero) (\<lambda>_. 0) =
     Some (STARTDYMEMADDR + 8, mm, m)" using heap_one_block by blast
  from malloc_refines_abs [OF wf, of 3072] obtain a mm' m' where b: "mem_malloc 3072 mm m = Some (a, mm', m')"
    by (auto simp: req_ok_def abs_malloc_def HEAP_BYTES_def)
  from wf have wf': "heap_wf mm m ([] @ (True, 2056) # [])" by simp
  have x: "unat (STARTDYMEMADDR + 100) = 2730492004" by (simp add: mem_consts)
  have "m' (STARTDYMEMADDR + 100) = m (STARTDYMEMADDR + 100)"
    by (rule malloc_keeps_used_blocks [OF wf' _ b]) (simp_all add: req_ok_def x)
  with a b show ?thesis by blast
qed

text \<open>
  C3: \<open>mem_free\<close> on the address of a used block returns 0 and turns exactly that block into
  a free one; freeing the same address again is refused with -1 and changes nothing.
\<close>
theorem free_once:
  assumes "heap_wf mm m (xs @ (True, n) # ys)"
  shows "\<exists>m'. mem_free (STARTDYMEMADDR + of_nat (sizes xs) + 8) m = (0, m') \<and>
    heap_wf mm m' (xs @ (False, n) # ys) \<and>
    mem_free (STARTDYMEMADDR + of_nat (sizes xs) + 8) m' = (-1, m')"
  using free_used_block [OF assms] free_free_block [OF free_used_block(2) [OF assms]] by blast

theorem free_once_witness:
  "\<exists>mm m m'. mem_malloc 2048 (mem_init mem_mng_zero) (\<lambda>_. 0) = Some (STARTDYMEMADDR + 8, mm, m) \<and>
     mem_free (STARTDYMEMADDR + 8) m = (0, m') \<and> mem_free (STARTDYMEMADDR + 8) m' = (-1, m')"
proof -
  obtain mm m where "heap_wf mm m ([] @ (True, 2056) # [])" and a: "mem_malloc 2048 (mem_init mem_mng_zero) (\<lambda>_. 0) =
     Some (STARTDYMEMADDR + 8, mm, m)" using heap_one_block by auto
  from free_once [OF this(1)] a show ?thesis by auto
qed

text \<open>
  C4: After a request that does not fit, the allocator is unusable: the failed call has moved
  \<open>used_end\<close> past the end of the heap area without writing a header, so the next request that no
  free block satisfies walks past the last block into blank memory (size 0) and loops for ever,
  with interrupts off inside the system call.
\<close>
theorem malloc_hangs_after_failure:
  assumes "heap_wf mm m bs" and "req_ok sz" and "req_ok sz'"
    and "abs_malloc (unat sz + 8) bs = None"
    and "first_fit (unat sz' + 8) bs = None"
    and "hdr_size m (used_end mm) = 0"
  shows "\<exists>mm'. mem_malloc sz mm m = Some (0, mm', m) \<and> mem_malloc sz' mm' m = None"
  by (rule failed_malloc_then_hang [OF assms])

theorem malloc_hangs_after_failure_witness:
  "\<exists>mm'. mem_malloc 20971520 (mem_init mem_mng_zero) (\<lambda>_. 0) = Some (0, mm', \<lambda>_. 0) \<and>
     mem_malloc 4 mm' (\<lambda>_. 0) = None"
  by (rule malloc_hangs_after_failure [OF heap_wf_init])
    (simp_all add: req_ok_def abs_malloc_def HEAP_BYTES_def hdr_size_def ld32_def)

text \<open>
  The limit check of \<open>mem_malloc\<close> can be passed by overflow: a positive request so large
  that \<open>used_end + req_size\<close> wraps around 2^32 is granted, although the heap has no such
  room, and \<open>used_end\<close> ends up below the heap.
\<close>
theorem malloc_limit_wraps:
  assumes wf: "heap_wf mm m bs" and "unat sz + 8 < 2 ^ 31"
    and "first_fit (unat sz + 8) bs = None"
    and "2 ^ 32 \<le> unat (used_end mm) + (unat sz + 8)"
  shows "\<exists>mm' m'. mem_malloc sz mm m = Some (used_end mm + 8, mm', m') \<and>
    unat (used_end mm') < unat STARTDYMEMADDR \<and> HEAP_BYTES < sizes bs + (unat sz + 8)"
proof -
  from wf have c: "chain m (heap_start mm) bs (used_end mm)" by (simp add: heap_wf_def)
  from malloc_find_first_fit [OF c assms(2)] assms(3)
  have find: "malloc_find m (used_end mm) (sz + HDR) (heap_start mm) = Some (m, 0)"
    by (simp add: HDR_def)
  have ue: "unat (used_end mm) \<le> 2751463424" "unat (used_end mm) = 2730491904 + sizes bs"
    using heap_wf_end [OF wf] by (simp_all add: HEAP_BYTES_def)
  have "unat (sz + 8) = unat sz + 8" using assms(2) by (simp add: unat_word_ariths)
  then have w: "unat (used_end mm + (sz + 8)) = unat (used_end mm) + (unat sz + 8) - 2 ^ 32"
    using assms(2,4) ue by (simp add: unat_word_ariths le_mod_geq)
  then have "\<not> ENDUSRSTACKADDR < used_end mm + (sz + 8)"
    using assms(2) ue by (simp add: word_less_nat_alt)
  with find w assms(2,4) ue show ?thesis
    by (simp add: mem_malloc_def HDR_def HEAP_BYTES_def Let_def)
qed

theorem malloc_limit_wraps_witness:
  "\<exists>mm' m'. mem_malloc 0x60000000 (mem_init mem_mng_zero) (\<lambda>_. 0) = Some (0xA2C00008, mm', m') \<and>
     unat (used_end mm') < unat STARTDYMEMADDR"
  using malloc_limit_wraps [OF heap_wf_init, of "0x60000000" mem_mng_zero "\<lambda>_. 0"]
  by (auto simp: mem_init_def mem_consts)

lemma mem_alloc_run_stacks:
  assumes "length (free_mem_pool mm) = MAXMEMBLK" and "n \<le> MAXMEMBLK"
  shows "fst (mem_alloc_run n (mem_init mm)) =
      map (\<lambda>i. STARTUSRSTACKADDR + of_nat i * USRSTACKSIZE + USRSTACKSIZE - 4) [0..<n]"
    and "n = MAXMEMBLK \<longrightarrow> fst (mem_alloc (snd (mem_alloc_run n (mem_init mm)))) = 0"
proof -
  let ?p = "free_mem_pool (mem_init mm)"
  have p: "?p = mem_init_pool (free_mem_pool mm) STARTUSRSTACKADDR" by (simp add: mem_init_def)
  have z: "\<forall>b \<in> set ?p. is_used b = 0"
    by (auto simp: p in_set_conv_nth nth_mem_init_pool)
  have l: "n \<le> length ?p" using assms by (simp add: p)
  from mem_alloc_run_pool [OF z l] have r: "mem_alloc_run n (mem_init mm) =
     (map block_end_addr (take n ?p), (mem_init mm)\<lparr>free_mem_pool :=
        map (\<lambda>b. b\<lparr>is_used := 1\<rparr>) (take n ?p) @ drop n ?p\<rparr>)" .
  show "fst (mem_alloc_run n (mem_init mm)) =
      map (\<lambda>i. STARTUSRSTACKADDR + of_nat i * USRSTACKSIZE + USRSTACKSIZE - 4) [0..<n]"
    using assms by (intro nth_equalityI) (simp_all add: r p nth_mem_init_pool)
  have none: "fst (mem_alloc_pool (map (\<lambda>b. b\<lparr>is_used := 1\<rparr>) q)) = 0" for q
    by (induction q) (auto simp: Let_def split: prod.splits)
  show "n = MAXMEMBLK \<longrightarrow> fst (mem_alloc (snd (mem_alloc_run n (mem_init mm)))) = 0"
  proof
    assume "n = MAXMEMBLK"
    then have "n = length ?p" using assms(1) by (simp add: p)
    then have "take n ?p = ?p" and "drop n ?p = []" by simp_all
    then have "free_mem_pool (snd (mem_alloc_run n (mem_init mm))) = map (\<lambda>b. b\<lparr>is_used := 1\<rparr>) ?p"
      unfolding r by simp
    with none [of ?p] show "fst (mem_alloc (snd (mem_alloc_run n (mem_init mm)))) = 0"
      by (simp add: mem_alloc_def case_prod_beta)
  qed
qed

text \<open>
  After \<open>mem_init\<close>, \<open>mem_alloc\<close> hands out the tops of the forty 1 MB stacks in
  order, each four bytes below the end of its megabyte and below the heap; a further call finds
  none and returns 0.
\<close>
theorem stack_pool_allocation:
  assumes "length (free_mem_pool mm) = MAXMEMBLK" and "n \<le> MAXMEMBLK"
  shows "fst (mem_alloc_run n (mem_init mm)) =
      map (\<lambda>i. STARTUSRSTACKADDR + of_nat i * USRSTACKSIZE + USRSTACKSIZE - 4) [0..<n] \<and>
    (n = MAXMEMBLK \<longrightarrow> fst (mem_alloc (snd (mem_alloc_run n (mem_init mm)))) = 0)"
  using mem_alloc_run_stacks [OF assms] by blast

theorem stack_pool_allocation_witness:
  "fst (mem_alloc_run 2 (mem_init mem_mng_zero)) = [0xA04FFFFC, 0xA05FFFFC] \<and>
   fst (mem_alloc (snd (mem_alloc_run MAXMEMBLK (mem_init mem_mng_zero)))) = 0"
proof
  show "fst (mem_alloc_run 2 (mem_init mem_mng_zero)) = [0xA04FFFFC, 0xA05FFFFC]"
    using stack_pool_allocation [of mem_mng_zero 2]
    by (simp add: mem_mng_zero_def mem_consts upt_rec)
  show "fst (mem_alloc (snd (mem_alloc_run MAXMEMBLK (mem_init mem_mng_zero)))) = 0"
    using stack_pool_allocation [of mem_mng_zero MAXMEMBLK] by (simp add: mem_mng_zero_def)
qed

end
