(* ===== verification/Kernel_Task.thy ===== *)
theory Kernel_Task
  imports Kernel_Memory
begin

text \<open>
  The task manager, \<open>navilnux_task.c\<close> and \<open>navilnux_task.h\<close>: a pool of forty task control
  blocks and the highest task number. A new task gets its stack from the memory manager,
  through the function pointer in \<open>memmng\<close>.
\<close>

section \<open>The pool\<close>

definition MAXTASKNUM :: int where "MAXTASKNUM = 40"
definition CONTEXTNUM :: nat where "CONTEXTNUM = 13"
definition STARTUSRCPSR :: u32 where "STARTUSRCPSR = 0x68000050"

record free_task =
  context_spsr :: u32
  context_regs :: "u32 list"
  context_sp :: u32
  context_lr :: u32
  context_pc :: u32
  sleep_end_tick :: u32

datatype task_fn = Fn_task_init | Fn_task_create

record task_mng =
  free_task_pool :: "free_task list"
  max_task_id :: int
  tm_init :: "task_fn option"
  tm_create :: "task_fn option"

definition task_zero :: free_task where
  "task_zero = \<lparr>context_spsr = 0, context_regs = replicate CONTEXTNUM 0, context_sp = 0,
     context_lr = 0, context_pc = 0, sleep_end_tick = 0\<rparr>"

definition task_mng_zero :: task_mng where
  "task_mng_zero = \<lparr>free_task_pool = replicate (nat MAXTASKNUM) task_zero, max_task_id = 0,
     tm_init = None, tm_create = None\<rparr>"

section \<open>The operations\<close>

text \<open>\<open>task_init\<close> clears four fields of every block; registers and stack pointer stay.\<close>

definition task_init :: "task_mng \<Rightarrow> task_mng" where
  "task_init tm = tm\<lparr>
     free_task_pool := map (\<lambda>t. t\<lparr>context_spsr := 0, context_lr := 0, context_pc := 0,
       sleep_end_tick := 0\<rparr>) (free_task_pool tm),
     max_task_id := -1, tm_init := Some Fn_task_init, tm_create := Some Fn_task_create\<rparr>"

definition task_create :: "u32 \<Rightarrow> task_mng \<Rightarrow> mem_mng \<Rightarrow> (int \<times> task_mng \<times> mem_mng) fres" where
  "task_create startFunc tm mm =
     (let tm1 = tm\<lparr>max_task_id := wrap32 (max_task_id tm + 1)\<rparr>;
          task_idx = max_task_id tm1
      in if task_idx > MAXTASKNUM then Inr (-1, tm1, mm)
         else if mm_alloc mm = None then Inl NullCall
         else (let (stack_top, mm1) = mem_alloc mm
           in if stack_top = 0 then Inr (-2, tm1, mm1)
              else if \<not> in_array task_idx (free_task_pool tm1) then Inl OutOfBounds
              else Inr (task_idx, tm1\<lparr>free_task_pool := (free_task_pool tm1)[nat task_idx :=
                     (free_task_pool tm1 ! nat task_idx)\<lparr>context_spsr := STARTUSRCPSR,
                        context_sp := stack_top, context_pc := startFunc\<rparr>]\<rparr>, mm1)))"

text \<open>A sequence of creations, with the identifiers returned.\<close>

fun create_all :: "u32 list \<Rightarrow> task_mng \<Rightarrow> mem_mng \<Rightarrow> (int list \<times> task_mng \<times> mem_mng) fres" where
  "create_all [] tm mm = Inr ([], tm, mm)"
| "create_all (f # fs) tm mm =
     fbind (task_create f tm mm) (\<lambda>(r, tm1, mm1).
     fbind (create_all fs tm1 mm1) (\<lambda>(rs, tm2, mm2). Inr (r # rs, tm2, mm2)))"

section \<open>Creating tasks\<close>

text \<open>The top of stack \<open>i\<close> of the pool.\<close>

definition stack_top :: "nat \<Rightarrow> u32" where
  "stack_top i = STARTUSRSTACKADDR + of_nat i * USRSTACKSIZE + USRSTACKSIZE - 4"

text \<open>
  \<open>tasks_ready fs tm mm\<close>: the tasks created so far are those with entry points \<open>fs\<close>, in this
  order, task \<open>i\<close> on stack \<open>i\<close>, and the stacks from \<open>length fs\<close> on are free. \<open>tasks_ok\<close>
  says also that there are no more stacks than tasks.
\<close>

definition tasks_ready :: "u32 list \<Rightarrow> task_mng \<Rightarrow> mem_mng \<Rightarrow> bool" where
  "tasks_ready fs tm mm \<longleftrightarrow>
     length (free_task_pool tm) = nat MAXTASKNUM \<and> length fs \<le> nat MAXTASKNUM \<and>
     max_task_id tm = int (length fs) - 1 \<and> mm_alloc mm = Some Fn_mem_alloc \<and>
     MAXMEMBLK \<le> length (free_mem_pool mm) \<and>
     (\<forall>i < MAXMEMBLK. block_end_addr (free_mem_pool mm ! i) = stack_top i \<and>
        (is_used (free_mem_pool mm ! i) = 0 \<longleftrightarrow> length fs \<le> i)) \<and>
     (\<forall>i < length fs. context_spsr (free_task_pool tm ! i) = STARTUSRCPSR \<and>
        context_sp (free_task_pool tm ! i) = stack_top i \<and>
        context_pc (free_task_pool tm ! i) = fs ! i)"

definition tasks_ok :: "u32 list \<Rightarrow> task_mng \<Rightarrow> mem_mng \<Rightarrow> bool" where
  "tasks_ok fs tm mm \<longleftrightarrow> tasks_ready fs tm mm \<and> length (free_mem_pool mm) = MAXMEMBLK"

lemma mem_alloc_pool_first:
  "n < length p \<Longrightarrow> is_used (p ! n) = 0 \<Longrightarrow> \<forall>i < n. is_used (p ! i) \<noteq> 0 \<Longrightarrow>
     mem_alloc_pool p = (block_end_addr (p ! n), p[n := (p ! n)\<lparr>is_used := 1\<rparr>])"
proof (induction p arbitrary: n)
  case (Cons b p)
  then show ?case
  proof (cases n)
    case (Suc k)
    with Cons.prems(3) have "is_used b \<noteq> 0" by auto
    moreover have "\<forall>i < k. is_used (p ! i) \<noteq> 0"
    proof (intro allI impI)
      fix i assume "i < k"
      with Cons.prems(3) Suc show "is_used (p ! i) \<noteq> 0" by (metis Suc_less_eq nth_Cons_Suc)
    qed
    ultimately show ?thesis using Suc Cons.prems Cons.IH [of k] by simp
  qed simp
qed simp

lemma mem_alloc_pool_full:
  "\<forall>b \<in> set p. is_used b \<noteq> 0 \<Longrightarrow> mem_alloc_pool p = (0, p)"
  by (induction p) auto

lemma unat_stack_top: "i < MAXMEMBLK \<Longrightarrow> unat (stack_top i) = 2689597436 + i * 1048576"
proof -
  assume "i < MAXMEMBLK"
  moreover have "stack_top i = of_nat (2689597436 + i * 1048576)"
    by (simp add: stack_top_def mem_consts)
  ultimately show ?thesis by (simp only: MAXMEMBLK_def unat_of_nat) (simp add: take_bit_nat_eq_self)
qed

lemma stack_top_nonzero: "i < MAXMEMBLK \<Longrightarrow> stack_top i \<noteq> 0"
  using unat_stack_top [of i] by auto

lemma mem_init_blocks:
  "MAXMEMBLK \<le> length (free_mem_pool mm) \<Longrightarrow> i < MAXMEMBLK \<Longrightarrow>
     block_end_addr (free_mem_pool (mem_init mm) ! i) = stack_top i \<and>
     is_used (free_mem_pool (mem_init mm) ! i) = 0"
  by (simp add: mem_init_def nth_mem_init_pool stack_top_def)

lemma tasks_ok_init:
  assumes "length (free_task_pool tm) = nat MAXTASKNUM" and "length (free_mem_pool mm) = MAXMEMBLK"
  shows "tasks_ok [] (task_init tm) (mem_init mm)"
proof -
  have "length (free_mem_pool (mem_init mm)) = MAXMEMBLK" "mm_alloc (mem_init mm) = Some Fn_mem_alloc"
    using assms by (simp_all add: mem_init_def)
  with assms mem_init_blocks [of mm] show ?thesis by (simp add: tasks_ok_def tasks_ready_def task_init_def)
qed

text \<open>What one creation changes: the block of the new task and the stack it takes.\<close>

definition task_set_up :: "nat \<Rightarrow> u32 \<Rightarrow> task_mng \<Rightarrow> task_mng" where
  "task_set_up n f tm = tm\<lparr>max_task_id := int n, free_task_pool := (free_task_pool tm)[n :=
      (free_task_pool tm ! n)\<lparr>context_spsr := STARTUSRCPSR, context_sp := stack_top n,
        context_pc := f\<rparr>]\<rparr>"

definition stack_taken :: "nat \<Rightarrow> mem_mng \<Rightarrow> mem_mng" where
  "stack_taken n mm =
     mm\<lparr>free_mem_pool := (free_mem_pool mm)[n := (free_mem_pool mm ! n)\<lparr>is_used := 1\<rparr>]\<rparr>"

lemma tasks_ready_create:
  assumes "tasks_ready fs tm mm" and "length fs < nat MAXTASKNUM"
  shows "task_create f tm mm = Inr (int (length fs), task_set_up (length fs) f tm, stack_taken (length fs) mm)"
    and "tasks_ready (fs @ [f]) (task_set_up (length fs) f tm) (stack_taken (length fs) mm)"
proof -
  let ?n = "length fs"
  from assms have n: "?n < 40" "?n < MAXMEMBLK" by (simp_all add: MAXTASKNUM_def MAXMEMBLK_def)
  from assms have a: "mem_alloc_pool (free_mem_pool mm) =
      (stack_top ?n, (free_mem_pool mm)[?n := (free_mem_pool mm ! ?n)\<lparr>is_used := 1\<rparr>])"
    using mem_alloc_pool_first [of ?n "free_mem_pool mm"] n by (auto simp: tasks_ready_def)
  from assms have m: "wrap32 (max_task_id tm + 1) = int ?n" using n by (simp add: tasks_ready_def)
  show "task_create f tm mm = Inr (int ?n, task_set_up ?n f tm, stack_taken ?n mm)"
    using assms n stack_top_nonzero [OF n(2)]
    by (simp add: task_create_def m a mem_alloc_def tasks_ready_def in_array_def MAXTASKNUM_def Let_def
      task_set_up_def stack_taken_def)
  show "tasks_ready (fs @ [f]) (task_set_up ?n f tm) (stack_taken ?n mm)"
    using assms n
    by (auto simp: tasks_ready_def MAXTASKNUM_def nth_list_update nth_append less_Suc_eq_le
      task_set_up_def stack_taken_def)
qed

lemma tasks_ok_create:
  assumes "tasks_ok fs tm mm" and "length fs < nat MAXTASKNUM"
  shows "task_create f tm mm = Inr (int (length fs), task_set_up (length fs) f tm, stack_taken (length fs) mm)"
    and "tasks_ok (fs @ [f]) (task_set_up (length fs) f tm) (stack_taken (length fs) mm)"
  using assms tasks_ready_create [of fs tm mm f] by (simp_all add: tasks_ok_def stack_taken_def)

lemma tasks_full:
  assumes "tasks_ok fs tm mm" and "length fs = nat MAXTASKNUM"
  shows "task_create f tm mm = Inr (-2, tm\<lparr>max_task_id := MAXTASKNUM\<rparr>, mm)"
proof -
  from assms have "\<forall>b \<in> set (free_mem_pool mm). is_used b \<noteq> 0"
    by (auto simp: tasks_ok_def tasks_ready_def in_set_conv_nth MAXTASKNUM_def MAXMEMBLK_def)
  with assms show ?thesis
    by (simp add: task_create_def mem_alloc_def mem_alloc_pool_full tasks_ok_def tasks_ready_def MAXTASKNUM_def)
qed

lemma create_all_ok:
  assumes "tasks_ok fs tm mm" and "length fs + length gs \<le> nat MAXTASKNUM"
  shows "\<exists>tm' mm'. create_all gs tm mm =
      Inr (map int [length fs..<length fs + length gs], tm', mm') \<and> tasks_ok (fs @ gs) tm' mm'"
  using assms
proof (induction gs arbitrary: fs tm mm)
  case (Cons g gs)
  from tasks_ok_create [OF Cons.prems(1), of g] Cons.prems(2) obtain tm1 mm1 where
    c: "task_create g tm mm = Inr (int (length fs), tm1, mm1)" "tasks_ok (fs @ [g]) tm1 mm1"
    by fastforce
  from Cons.IH [OF c(2)] Cons.prems(2) obtain tm2 mm2 where
    "create_all gs tm1 mm1 = Inr (map int [Suc (length fs)..<Suc (length fs + length gs)], tm2, mm2)"
    "tasks_ok (fs @ g # gs) tm2 mm2" by (auto simp del: upt_Suc)
  moreover have "[length fs..<length fs + length (g # gs)] =
      length fs # [Suc (length fs)..<Suc (length fs + length gs)]" by (simp add: upt_conv_Cons del: upt_Suc)
  ultimately show ?case using c(1) by (simp del: upt_Suc)
qed simp

section \<open>Properties\<close>

text \<open>
  Up to forty tasks, created one after another on a fresh system, all succeed: they get the
  numbers 0, 1, 2, ... and each its own 1 MB stack, its entry point and the user-mode status word.
\<close>
lemma task_create_sequence:
  assumes "length (free_task_pool tm) = nat MAXTASKNUM" and "length (free_mem_pool mm) = MAXMEMBLK"
    and "length fs \<le> 40"
  shows "\<exists>tm' mm'. create_all fs (task_init tm) (mem_init mm) = Inr (map int [0..<length fs], tm', mm') \<and>
    max_task_id tm' = int (length fs) - 1 \<and>
    (\<forall>i < length fs. context_pc (free_task_pool tm' ! i) = fs ! i \<and>
       context_spsr (free_task_pool tm' ! i) = STARTUSRCPSR \<and>
       unat (context_sp (free_task_pool tm' ! i)) = 2689597436 + i * 1048576)"
proof -
  from create_all_ok [OF tasks_ok_init [OF assms(1,2)], of fs] assms(3) obtain tm' mm' where
    "create_all fs (task_init tm) (mem_init mm) = Inr (map int [0..<length fs], tm', mm')"
    and ok: "tasks_ok fs tm' mm'" by (auto simp: MAXTASKNUM_def)
  moreover have "unat (stack_top i) = 2689597436 + i * 1048576" if "i < length fs" for i
    using unat_stack_top [of i] that assms(3) by (simp add: MAXMEMBLK_def)
  ultimately show ?thesis by (auto simp: tasks_ok_def tasks_ready_def)
qed

theorem task_create_sequence_witness:
  "\<exists>tm' mm'. create_all [0x8000, 0x9000] (task_init task_mng_zero) (mem_init mem_mng_zero) = Inr ([0, 1], tm', mm') \<and>
     context_pc (free_task_pool tm' ! 1) = 0x9000 \<and> context_sp (free_task_pool tm' ! 1) = 0xA05FFFFC"
proof -
  have l: "length (free_task_pool task_mng_zero) = nat MAXTASKNUM" "length (free_mem_pool mem_mng_zero) = MAXMEMBLK"
    by (simp_all add: task_mng_zero_def mem_mng_zero_def)
  from task_create_sequence [OF l, of "[0x8000, 0x9000]"] obtain tm' mm' where
    c: "create_all [0x8000, 0x9000] (task_init task_mng_zero) (mem_init mem_mng_zero) = Inr ([0, 1], tm', mm')"
    and p: "\<forall>i<2. context_pc (free_task_pool tm' ! i) = [0x8000, 0x9000] ! i \<and>
       unat (context_sp (free_task_pool tm' ! i)) = 2689597436 + i * 1048576"
    by (auto simp: numeral_2_eq_2)
  from p have "context_pc (free_task_pool tm' ! 1) = 0x9000" "unat (context_sp (free_task_pool tm' ! 1)) = unat (0xA05FFFFC :: u32)"
    by (auto dest: spec [of _ 1])
  then have "context_pc (free_task_pool tm' ! 1) = 0x9000 \<and> context_sp (free_task_pool tm' ! 1) = 0xA05FFFFC"
    using word_unat_eq_iff by blast
  with c show ?thesis by blast
qed

end
