(* ===== verification/Kernel_Msg.thy ===== *)
theory Kernel_Msg
  imports Interfaces
begin

text \<open>
  Messages, semaphores and mutexes: \<open>navilnux_msg.c\<close> and \<open>navilnux_msg.h\<close>. One pool of
  255 cells serves all three: cells 0 to 99 are mailboxes, 100 to 199 semaphores, 200 to 254
  mutexes. The task that runs is passed as \<open>cur\<close>, the address \<open>navilnux_current\<close> points to.
\<close>

section \<open>The pool\<close>

definition MAXMSG :: int where "MAXMSG = 255"
definition ITCSTART :: int where "ITCSTART = 0"
definition ITCEND :: int where "ITCEND = 99"
definition SEMSTART :: int where "SEMSTART = 100"
definition SEMEND :: int where "SEMEND = 199"
definition MUTEXSTART :: int where "MUTEXSTART = 200"
definition MUTEXEND :: int where "MUTEXEND = 254"

lemmas msg_consts = MAXMSG_def ITCSTART_def ITCEND_def SEMSTART_def SEMEND_def MUTEXSTART_def
  MUTEXEND_def

text \<open>
  A cell. \<open>data\<close> holds a message or the address of a task, so it is kept as 32 bits;
  \<open>flag\<close> is compared and counted as a C \<open>int\<close>.
\<close>

record free_msg =
  msg_data :: u32
  msg_flag :: int

datatype msg_fn = Fn_msg_init | Fn_msg_itc_send | Fn_msg_itc_get | Fn_msg_sem_init | Fn_msg_sem_p
  | Fn_msg_sem_v | Fn_msg_mutex_wait | Fn_msg_mutex_release

record msg_mng =
  free_msg_pool :: "free_msg list"
  mg_init :: "msg_fn option"
  mg_itc_send :: "msg_fn option"
  mg_itc_get :: "msg_fn option"
  mg_sem_init :: "msg_fn option"
  mg_sem_p :: "msg_fn option"
  mg_sem_v :: "msg_fn option"
  mg_mutex_wait :: "msg_fn option"
  mg_mutex_release :: "msg_fn option"

definition msg_mng_zero :: msg_mng where
  "msg_mng_zero = \<lparr>free_msg_pool = replicate (nat MAXMSG) \<lparr>msg_data = 0, msg_flag = 0\<rparr>,
     mg_init = None, mg_itc_send = None, mg_itc_get = None, mg_sem_init = None, mg_sem_p = None,
     mg_sem_v = None, mg_mutex_wait = None, mg_mutex_release = None\<rparr>"

definition msg_cell :: "msg_mng \<Rightarrow> int \<Rightarrow> free_msg" where
  "msg_cell mg i = free_msg_pool mg ! nat i"

definition set_msg_cell :: "msg_mng \<Rightarrow> int \<Rightarrow> free_msg \<Rightarrow> msg_mng" where
  "set_msg_cell mg i c = mg\<lparr>free_msg_pool := (free_msg_pool mg)[nat i := c]\<rparr>"

section \<open>The operations\<close>

definition msg_init :: "msg_mng \<Rightarrow> msg_mng" where
  "msg_init mg = mg\<lparr>
     free_msg_pool := map (\<lambda>c. c\<lparr>msg_data := 0, msg_flag := 0\<rparr>) (free_msg_pool mg),
     mg_init := Some Fn_msg_init, mg_itc_send := Some Fn_msg_itc_send,
     mg_itc_get := Some Fn_msg_itc_get, mg_sem_init := Some Fn_msg_sem_init,
     mg_sem_p := Some Fn_msg_sem_p, mg_sem_v := Some Fn_msg_sem_v,
     mg_mutex_wait := Some Fn_msg_mutex_wait, mg_mutex_release := Some Fn_msg_mutex_release\<rparr>"

definition msg_itc_send :: "int \<Rightarrow> u32 \<Rightarrow> msg_mng \<Rightarrow> int \<times> msg_mng" where
  "msg_itc_send itcnum d mg =
     (if itcnum \<ge> MAXMSG \<or> itcnum < 0 then (-1, mg)
      else (itcnum, set_msg_cell mg itcnum ((msg_cell mg itcnum)\<lparr>msg_data := d, msg_flag := 1\<rparr>)))"

text \<open>The third component is what is stored through \<open>data\<close>, \<open>None\<close> when nothing is.\<close>

definition msg_itc_get :: "int \<Rightarrow> msg_mng \<Rightarrow> int \<times> msg_mng \<times> u32 option" where
  "msg_itc_get itcnum mg =
     (if itcnum \<ge> MAXMSG \<or> itcnum < 0 then (-1, mg, None)
      else if msg_flag (msg_cell mg itcnum) = 0 then (-2, mg, None)
      else (0, set_msg_cell mg itcnum ((msg_cell mg itcnum)\<lparr>msg_flag := 0, msg_data := 0\<rparr>),
            Some (msg_data (msg_cell mg itcnum))))"

definition msg_sem_init :: "int \<Rightarrow> int \<Rightarrow> msg_mng \<Rightarrow> int \<times> msg_mng" where
  "msg_sem_init semnum s mg =
     (let n = wrap32 (semnum + SEMSTART) in
      if n > SEMEND \<or> n < SEMSTART then (-1, mg)
      else (0, set_msg_cell mg n ((msg_cell mg n)\<lparr>msg_flag := s\<rparr>)))"

definition msg_sem_p :: "int \<Rightarrow> msg_mng \<Rightarrow> int \<times> msg_mng" where
  "msg_sem_p semnum mg =
     (let n = wrap32 (semnum + SEMSTART) in
      if n > SEMEND \<or> n < SEMSTART then (-1, mg)
      else if msg_flag (msg_cell mg n) \<le> 0 then (-2, mg)
      else (0, set_msg_cell mg n
                 ((msg_cell mg n)\<lparr>msg_flag := wrap32 (msg_flag (msg_cell mg n) - 1)\<rparr>)))"

definition msg_sem_v :: "int \<Rightarrow> msg_mng \<Rightarrow> int \<times> msg_mng" where
  "msg_sem_v semnum mg =
     (let n = wrap32 (semnum + SEMSTART) in
      if n > SEMEND \<or> n < SEMSTART then (-1, mg)
      else (0, set_msg_cell mg n
                 ((msg_cell mg n)\<lparr>msg_flag := wrap32 (msg_flag (msg_cell mg n) + 1)\<rparr>)))"

definition msg_mutex_wait :: "u32 \<Rightarrow> int \<Rightarrow> msg_mng \<Rightarrow> int \<times> msg_mng" where
  "msg_mutex_wait cur mutexnum mg =
     (let n = wrap32 (mutexnum + MUTEXSTART) in
      if n < MUTEXSTART \<or> n > MUTEXEND then (-1, mg)
      else if msg_flag (msg_cell mg n) = 0
        then (0, set_msg_cell mg n ((msg_cell mg n)\<lparr>msg_flag := 1, msg_data := cur\<rparr>))
      else (-2, mg))"

definition msg_mutex_release :: "u32 \<Rightarrow> int \<Rightarrow> msg_mng \<Rightarrow> int \<times> msg_mng" where
  "msg_mutex_release cur mutexnum mg =
     (let n = wrap32 (mutexnum + MUTEXSTART) in
      if n > MUTEXEND \<or> n < MUTEXSTART then (-1, mg)
      else if msg_data (msg_cell mg n) \<noteq> cur then (-2, mg)
      else (0, set_msg_cell mg n ((msg_cell mg n)\<lparr>msg_data := 0, msg_flag := 0\<rparr>)))"

lemmas msg_ops = msg_itc_send_def msg_itc_get_def msg_sem_init_def msg_sem_p_def msg_sem_v_def
  msg_mutex_wait_def msg_mutex_release_def

section \<open>The operations as one step\<close>

text \<open>An operation with its arguments, as a task asks for it.\<close>

datatype msg_op = ItcSend int u32 | ItcGet int | SemInit int int | SemP int | SemV int
  | MutexWait int | MutexRelease int

fun msg_step :: "u32 \<Rightarrow> msg_op \<Rightarrow> msg_mng \<Rightarrow> int \<times> msg_mng" where
  "msg_step cur (ItcSend i d) mg = msg_itc_send i d mg"
| "msg_step cur (ItcGet i) mg = (let (r, mg', x) = msg_itc_get i mg in (r, mg'))"
| "msg_step cur (SemInit i s) mg = msg_sem_init i s mg"
| "msg_step cur (SemP i) mg = msg_sem_p i mg"
| "msg_step cur (SemV i) mg = msg_sem_v i mg"
| "msg_step cur (MutexWait i) mg = msg_mutex_wait cur i mg"
| "msg_step cur (MutexRelease i) mg = msg_mutex_release cur i mg"

text \<open>A run: operations in the order the tasks ask for them, each with its result.\<close>

type_synonym msg_event = "u32 \<times> msg_op \<times> int"

fun msg_run :: "(u32 \<times> msg_op) list \<Rightarrow> msg_mng \<Rightarrow> msg_event list \<times> msg_mng" where
  "msg_run [] mg = ([], mg)"
| "msg_run ((c, p) # ops) mg =
     (let (r, mg1) = msg_step c p mg; (tr, mg2) = msg_run ops mg1 in ((c, p, r) # tr, mg2))"

section \<open>The abstract specification\<close>

text \<open>
  What a client may rely on: mailboxes that hold at most one message, counters, and mutexes
  that have at most one owner.
\<close>

record msg_abs =
  box :: "int \<Rightarrow> u32 option"
  count :: "int \<Rightarrow> int"
  owner :: "int \<Rightarrow> u32 option"

fun abs_step :: "u32 \<Rightarrow> msg_op \<Rightarrow> msg_abs \<Rightarrow> int \<times> msg_abs" where
  "abs_step cur (ItcSend i d) a =
     (if i < 0 \<or> MAXMSG \<le> i then (-1, a) else (i, a\<lparr>box := (box a)(i := Some d)\<rparr>))"
| "abs_step cur (ItcGet i) a =
     (if i < 0 \<or> MAXMSG \<le> i then (-1, a)
      else if box a i = None then (-2, a) else (0, a\<lparr>box := (box a)(i := None)\<rparr>))"
| "abs_step cur (SemInit i s) a =
     (if i < 0 \<or> 99 < i then (-1, a) else (0, a\<lparr>count := (count a)(i := s)\<rparr>))"
| "abs_step cur (SemP i) a =
     (if i < 0 \<or> 99 < i then (-1, a)
      else if count a i \<le> 0 then (-2, a) else (0, a\<lparr>count := (count a)(i := count a i - 1)\<rparr>))"
| "abs_step cur (SemV i) a =
     (if i < 0 \<or> 99 < i then (-1, a)
      else (0, a\<lparr>count := (count a)(i := wrap32 (count a i + 1))\<rparr>))"
| "abs_step cur (MutexWait i) a =
     (if i < 0 \<or> 54 < i then (-1, a)
      else if owner a i = None then (0, a\<lparr>owner := (owner a)(i := Some cur)\<rparr>) else (-2, a))"
| "abs_step cur (MutexRelease i) a =
     (if i < 0 \<or> 54 < i then (-1, a)
      else if owner a i = Some cur then (0, a\<lparr>owner := (owner a)(i := None)\<rparr>) else (-2, a))"

text \<open>Which cells carry which meaning.\<close>

definition msg_abs_of :: "msg_mng \<Rightarrow> msg_abs" where
  "msg_abs_of mg =
     \<lparr>box = (\<lambda>i. if 0 \<le> i \<and> i \<le> ITCEND \<and> msg_flag (msg_cell mg i) \<noteq> 0
                then Some (msg_data (msg_cell mg i)) else None),
      count = (\<lambda>i. if 0 \<le> i \<and> i \<le> 99 then msg_flag (msg_cell mg (i + SEMSTART)) else 0),
      owner = (\<lambda>i. if 0 \<le> i \<and> i \<le> 54 \<and> msg_flag (msg_cell mg (i + MUTEXSTART)) \<noteq> 0
                then Some (msg_data (msg_cell mg (i + MUTEXSTART))) else None)\<rparr>"

definition msg_ok :: "msg_mng \<Rightarrow> bool" where
  "msg_ok mg \<longleftrightarrow> length (free_msg_pool mg) = nat MAXMSG \<and>
     (\<forall>i. 0 \<le> i \<and> i < MAXMSG \<longrightarrow> in_int32 (msg_flag (msg_cell mg i))) \<and>
     (\<forall>i. MUTEXSTART \<le> i \<and> i \<le> MUTEXEND \<and> msg_flag (msg_cell mg i) = 0 \<longrightarrow> msg_data (msg_cell mg i) = 0)"

text \<open>
  Arguments a caller must respect: the arguments are C \<open>int\<close>s, and the two mailbox operations
  are used on mailboxes only. The code checks neither for cells 100 to 254.
\<close>

fun op_ok :: "msg_op \<Rightarrow> bool" where
  "op_ok (ItcSend i d) = (in_int32 i \<and> (i \<le> ITCEND \<or> MAXMSG \<le> i))"
| "op_ok (ItcGet i) = (in_int32 i \<and> (i \<le> ITCEND \<or> MAXMSG \<le> i))"
| "op_ok (SemInit i s) = (in_int32 i \<and> in_int32 s)"
| "op_ok (SemP i) = in_int32 i"
| "op_ok (SemV i) = in_int32 i"
| "op_ok (MutexWait i) = in_int32 i"
| "op_ok (MutexRelease i) = in_int32 i"

section \<open>The code against the specification\<close>

text \<open>The range checks on \<open>semnum\<close> and \<open>mutexnum\<close> accept exactly the right arguments.\<close>

lemma sem_range:
  assumes "in_int32 i"
  shows "(SEMEND < wrap32 (i + SEMSTART) \<or> wrap32 (i + SEMSTART) < SEMSTART) = (i < 0 \<or> 99 < i)"
  using assms by (simp add: msg_consts wrap32_add) (auto simp: in_int32_def)

lemma mutex_range:
  assumes "in_int32 i"
  shows "(wrap32 (i + MUTEXSTART) < MUTEXSTART \<or> MUTEXEND < wrap32 (i + MUTEXSTART)) = (i < 0 \<or> 54 < i)"
    and "(MUTEXEND < wrap32 (i + MUTEXSTART) \<or> wrap32 (i + MUTEXSTART) < MUTEXSTART) = (i < 0 \<or> 54 < i)"
  using assms by (simp_all add: msg_consts wrap32_add) (auto simp: in_int32_def)

lemma msg_index:
  "0 \<le> i \<Longrightarrow> i \<le> 99 \<Longrightarrow> wrap32 (i + SEMSTART) = i + SEMSTART"
  "0 \<le> i \<Longrightarrow> i \<le> 54 \<Longrightarrow> wrap32 (i + MUTEXSTART) = i + MUTEXSTART"
  by (simp_all add: msg_consts)

text \<open>The operations with the cell they work on written out.\<close>

lemma msg_sem_eqs:
  assumes "in_int32 i"
  shows "msg_sem_init i s mg = (if i < 0 \<or> 99 < i then (-1, mg)
      else (0, set_msg_cell mg (i + 100) ((msg_cell mg (i + 100))\<lparr>msg_flag := s\<rparr>)))"
    and "msg_sem_p i mg = (if i < 0 \<or> 99 < i then (-1, mg)
      else if msg_flag (msg_cell mg (i + 100)) \<le> 0 then (-2, mg)
      else (0, set_msg_cell mg (i + 100)
        ((msg_cell mg (i + 100))\<lparr>msg_flag := wrap32 (msg_flag (msg_cell mg (i + 100)) - 1)\<rparr>)))"
    and "msg_sem_v i mg = (if i < 0 \<or> 99 < i then (-1, mg)
      else (0, set_msg_cell mg (i + 100)
        ((msg_cell mg (i + 100))\<lparr>msg_flag := wrap32 (msg_flag (msg_cell mg (i + 100)) + 1)\<rparr>)))"
  using sem_range [OF assms]
  by (auto simp: msg_sem_init_def msg_sem_p_def msg_sem_v_def Let_def msg_index SEMSTART_def SEMEND_def)

lemma msg_mutex_eqs:
  assumes "in_int32 i"
  shows "msg_mutex_wait cur i mg = (if i < 0 \<or> 54 < i then (-1, mg)
      else if msg_flag (msg_cell mg (i + 200)) = 0
        then (0, set_msg_cell mg (i + 200) ((msg_cell mg (i + 200))\<lparr>msg_flag := 1, msg_data := cur\<rparr>))
      else (-2, mg))"
    and "msg_mutex_release cur i mg = (if i < 0 \<or> 54 < i then (-1, mg)
      else if msg_data (msg_cell mg (i + 200)) \<noteq> cur then (-2, mg)
      else (0, set_msg_cell mg (i + 200) ((msg_cell mg (i + 200))\<lparr>msg_data := 0, msg_flag := 0\<rparr>)))"
  using mutex_range [OF assms]
  by (auto simp: msg_mutex_wait_def msg_mutex_release_def Let_def msg_index MUTEXSTART_def MUTEXEND_def)

lemma msg_cell_set [simp]:
  assumes "length (free_msg_pool mg) = nat MAXMSG" and "0 \<le> n" and "n < MAXMSG" and "0 \<le> i"
  shows "msg_cell (set_msg_cell mg n c) i = (if i = n then c else msg_cell mg i)"
  using assms by (auto simp: msg_cell_def set_msg_cell_def nth_list_update MAXMSG_def nat_eq_iff)

lemma msg_pool_set [simp]:
  "length (free_msg_pool (set_msg_cell mg n c)) = length (free_msg_pool mg)"
  by (simp add: set_msg_cell_def)

lemma msg_ok_set:
  assumes "msg_ok mg" and "0 \<le> n" and "n < MAXMSG" and "in_int32 (msg_flag c)"
    and "MUTEXSTART \<le> n \<Longrightarrow> msg_flag c = 0 \<Longrightarrow> msg_data c = 0"
  shows "msg_ok (set_msg_cell mg n c)"
  using assms by (auto simp: msg_ok_def msg_consts)

lemma msg_ok_flag: "msg_ok mg \<Longrightarrow> 0 \<le> i \<Longrightarrow> i < MAXMSG \<Longrightarrow> in_int32 (msg_flag (msg_cell mg i))"
  by (simp add: msg_ok_def)

lemma msg_step_ok:
  assumes "msg_ok mg" and "op_ok p" and "cur \<noteq> 0"
  shows "msg_ok (snd (msg_step cur p mg))"
  using assms
  by (cases p) (auto simp: msg_itc_send_def msg_itc_get_def msg_sem_eqs msg_mutex_eqs
    msg_consts in_int32_def [of 0] in_int32_def [of 1] intro!: msg_ok_set)

lemma msg_abs_eqI:
  "(\<And>i. box a i = box b i) \<Longrightarrow> (\<And>i. count a i = count b i) \<Longrightarrow>
     (\<And>i. owner a i = owner b i) \<Longrightarrow> a = (b :: msg_abs)"
  by (simp add: fun_eq_iff)

lemma msg_ok_len: "msg_ok mg \<Longrightarrow> length (free_msg_pool mg) = nat 255"
  by (simp add: msg_ok_def MAXMSG_def)

lemma msg_step_refines_abs:
  assumes "msg_ok mg" and "op_ok p" and "cur \<noteq> 0"
  shows "abs_step cur p (msg_abs_of mg) =
    (fst (msg_step cur p mg), msg_abs_of (snd (msg_step cur p mg)))"
proof (cases p)
  case (SemP i)
  have "wrap32 (f - 1) = f - 1" if "in_int32 f" "0 < f" for f
    using that by (simp add: in_int32_def)
  moreover have "in_int32 (msg_flag (msg_cell mg (i + 100)))" if "0 \<le> i" "i \<le> 99"
    using msg_ok_flag [OF assms(1), of "i + 100"] that by (simp add: MAXMSG_def)
  ultimately show ?thesis using SemP assms
    by (auto simp: msg_sem_eqs msg_abs_of_def msg_consts msg_ok_len intro!: msg_abs_eqI)
next
  case (MutexRelease i)
  have "msg_data (msg_cell mg (i + 200)) = 0"
    if "0 \<le> i" "i \<le> 54" "msg_flag (msg_cell mg (i + 200)) = 0"
    using that assms(1) by (simp add: msg_ok_def msg_consts)
  with MutexRelease assms show ?thesis
    by (auto simp: msg_mutex_eqs msg_abs_of_def msg_consts msg_ok_len intro!: msg_abs_eqI)
qed (use assms in \<open>auto simp: msg_itc_send_def msg_itc_get_def msg_sem_eqs msg_mutex_eqs
    msg_abs_of_def msg_consts msg_ok_len intro!: msg_abs_eqI\<close>)

section \<open>Runs\<close>

text \<open>Successful acquisitions minus successful releases of mutex \<open>m\<close> by task \<open>c\<close>.\<close>

fun mutex_balance :: "msg_event list \<Rightarrow> u32 \<Rightarrow> int \<Rightarrow> int" where
  "mutex_balance [] c m = 0"
| "mutex_balance ((c', p, r) # tr) c m =
     (if c' = c \<and> r = 0 \<and> p = MutexWait m then 1
      else if c' = c \<and> r = 0 \<and> p = MutexRelease m then -1 else 0) + mutex_balance tr c m"

text \<open>Successful ups and downs of semaphore \<open>i\<close>.\<close>

fun sem_ups :: "msg_event list \<Rightarrow> int \<Rightarrow> int" where
  "sem_ups [] i = 0"
| "sem_ups ((c, p, r) # tr) i = (if r = 0 \<and> p = SemV i then 1 else 0) + sem_ups tr i"

fun sem_downs :: "msg_event list \<Rightarrow> int \<Rightarrow> int" where
  "sem_downs [] i = 0"
| "sem_downs ((c, p, r) # tr) i = (if r = 0 \<and> p = SemP i then 1 else 0) + sem_downs tr i"

definition ops_ok :: "(u32 \<times> msg_op) list \<Rightarrow> bool" where
  "ops_ok ops \<longleftrightarrow> (\<forall>(c, p) \<in> set ops. c \<noteq> 0 \<and> op_ok p)"

lemma ops_ok_simps [simp]:
  "ops_ok []" "ops_ok ((c, p) # ops) \<longleftrightarrow> c \<noteq> 0 \<and> op_ok p \<and> ops_ok ops"
  by (auto simp: ops_ok_def)

lemma msg_run_ok: "msg_ok mg \<Longrightarrow> ops_ok ops \<Longrightarrow> msg_ok (snd (msg_run ops mg))"
proof (induction ops arbitrary: mg)
  case (Cons x ops)
  obtain c p where x: "x = (c, p)" by (cases x)
  then show ?case
    using msg_step_ok [of mg p c] Cons x by (simp add: case_prod_beta)
qed simp

lemma abs_step_owner:
  "abs_step c p a = (r, a') \<Longrightarrow>
     (if owner a' m = Some c' then 1 else 0 :: int) - (if owner a m = Some c' then 1 else 0) =
     (if c = c' \<and> r = 0 \<and> p = MutexWait m then 1
      else if c = c' \<and> r = 0 \<and> p = MutexRelease m then -1 else 0)"
  by (cases p) (auto split: if_splits)

lemma mutex_balance_owner:
  assumes "msg_ok mg" and "ops_ok ops" and "msg_run ops mg = (tr, mg')"
  shows "mutex_balance tr c m =
    (if owner (msg_abs_of mg') m = Some c then 1 else 0) - (if owner (msg_abs_of mg) m = Some c then 1 else 0)"
  using assms
proof (induction ops arbitrary: mg tr)
  case (Cons x ops)
  obtain c' p where x: "x = (c', p)" by (cases x)
  from Cons.prems(3) x obtain r mg1 tr' where s: "msg_step c' p mg = (r, mg1)"
    and t: "msg_run ops mg1 = (tr', mg')" "tr = (c', p, r) # tr'" by (auto split: prod.splits)
  have ok: "msg_ok mg1" "ops_ok ops"
    using msg_step_ok [of mg p c'] Cons.prems x s by auto
  have "abs_step c' p (msg_abs_of mg) = (r, msg_abs_of mg1)"
    using msg_step_refines_abs [of mg p c'] Cons.prems x s by simp
  from abs_step_owner [OF this, of m c] Cons.IH [OF ok t(1)] t(2) show ?case by simp
qed simp

lemma abs_step_count:
  assumes "abs_step c p a = (r, a')" and "\<forall>s. p \<noteq> SemInit i s"
    and "0 \<le> count a i" and "count a i < 2 ^ 31 - 1" and "0 \<le> i" "i \<le> 99"
  shows "count a' i = count a i + (if r = 0 \<and> p = SemV i then 1 else 0)
      - (if r = 0 \<and> p = SemP i then 1 else 0)"
    and "0 \<le> count a' i"
  using assms by (cases p; auto split: if_splits)+

lemma sem_counts:
  assumes "msg_ok mg" and "ops_ok ops" and "msg_run ops mg = (tr, mg')"
    and "\<forall>(c, p) \<in> set ops. \<forall>s. p \<noteq> SemInit i s" and "0 \<le> i" "i \<le> 99"
    and "0 \<le> count (msg_abs_of mg) i" and "count (msg_abs_of mg) i + int (length ops) < 2 ^ 31"
  shows "count (msg_abs_of mg') i = count (msg_abs_of mg) i + sem_ups tr i - sem_downs tr i \<and>
    0 \<le> count (msg_abs_of mg') i"
  using assms
proof (induction ops arbitrary: mg tr)
  case (Cons x ops)
  obtain c p where x: "x = (c, p)" by (cases x)
  from Cons.prems(3) x obtain r mg1 tr' where s: "msg_step c p mg = (r, mg1)"
    and t: "msg_run ops mg1 = (tr', mg')" "tr = (c, p, r) # tr'" by (auto split: prod.splits)
  have ok: "msg_ok mg1" "ops_ok ops"
    using msg_step_ok [of mg p c] Cons.prems x s by auto
  have a: "abs_step c p (msg_abs_of mg) = (r, msg_abs_of mg1)"
    using msg_step_refines_abs [of mg p c] Cons.prems x s by simp
  note k = abs_step_count [OF a, of i]
  have k1: "count (msg_abs_of mg1) i = count (msg_abs_of mg) i + (if r = 0 \<and> p = SemV i then 1 else 0)
      - (if r = 0 \<and> p = SemP i then 1 else 0)" "0 \<le> count (msg_abs_of mg1) i"
    using k Cons.prems x by auto
  have "count (msg_abs_of mg1) i + int (length ops) < 2 ^ 31"
    using k1 Cons.prems(8) by (auto split: if_splits)
  with Cons.IH [OF ok t(1)] Cons.prems k1 t(2) show ?case by auto
qed simp

text \<open>A mailbox keeps its message until somebody sends to it or receives from it.\<close>

lemma abs_step_box:
  "abs_step c p a = (r, a') \<Longrightarrow> \<forall>d. p \<noteq> ItcSend i d \<Longrightarrow> p \<noteq> ItcGet i \<Longrightarrow> box a' i = box a i"
  by (cases p) (auto split: if_splits)

lemma msg_run_box:
  assumes "msg_ok mg" and "ops_ok ops"
    and "\<forall>(c, p) \<in> set ops. p \<noteq> ItcGet i \<and> (\<forall>d. p \<noteq> ItcSend i d)"
  shows "box (msg_abs_of (snd (msg_run ops mg))) i = box (msg_abs_of mg) i"
  using assms
proof (induction ops arbitrary: mg)
  case (Cons x ops)
  obtain c p where x: "x = (c, p)" by (cases x)
  obtain r mg1 where s: "msg_step c p mg = (r, mg1)" by fastforce
  have ok: "msg_ok mg1" using msg_step_ok [of mg p c] Cons.prems x s by auto
  have "abs_step c p (msg_abs_of mg) = (r, msg_abs_of mg1)"
    using msg_step_refines_abs [of mg p c] Cons.prems x s by simp
  from abs_step_box [OF this, of i] Cons.IH [OF ok] Cons.prems x s show ?case
    by (auto split: prod.splits)
qed simp

lemma msg_itc_get_box:
  assumes "0 \<le> i" and "i \<le> ITCEND"
  shows "msg_itc_get i mg = (case box (msg_abs_of mg) i of
     None \<Rightarrow> (-2, mg, None)
   | Some d \<Rightarrow> (0, set_msg_cell mg i ((msg_cell mg i)\<lparr>msg_flag := 0, msg_data := 0\<rparr>), Some d))"
  using assms by (auto simp: msg_itc_get_def msg_abs_of_def msg_consts)

lemma msg_init_ok: "length (free_msg_pool mg) = nat MAXMSG \<Longrightarrow> msg_ok (msg_init mg)"
  by (auto simp: msg_ok_def msg_init_def msg_cell_def msg_consts in_int32_def)

lemma msg_init_abs: "length (free_msg_pool mg) = nat MAXMSG \<Longrightarrow>
   msg_abs_of (msg_init mg) = \<lparr>box = \<lambda>_. None, count = \<lambda>_. 0, owner = \<lambda>_. None\<rparr>"
  by (auto simp: msg_abs_of_def msg_init_def msg_cell_def msg_consts fun_eq_iff)

lemma msg_zero_len [simp]: "length (free_msg_pool msg_mng_zero) = nat MAXMSG"
  by (simp add: msg_mng_zero_def)


lemma itc_delivers_aux:
  assumes ok: "msg_ok mg" and i: "0 \<le> i" "i \<le> ITCEND" and ops: "ops_ok ops"
    and other: "\<forall>(c, p) \<in> set ops. p \<noteq> ItcGet i \<and> (\<forall>d. p \<noteq> ItcSend i d)"
    and mg1: "mg1 = snd (msg_run ops (snd (msg_itc_send i d mg)))"
  shows "\<exists>mg2. msg_itc_get i mg1 = (0, mg2, Some d) \<and> msg_itc_get i mg2 = (-2, mg2, None)"
proof -
  let ?s = "snd (msg_itc_send i d mg)"
  have op: "op_ok (ItcSend i d)" using i by (simp add: ITCEND_def in_int32_def)
  from msg_step_ok [OF ok op, of 1] have sok: "msg_ok ?s" by simp
  from msg_step_refines_abs [OF ok op, of 1] i
  have "msg_abs_of ?s = (msg_abs_of mg)\<lparr>box := (box (msg_abs_of mg))(i := Some d)\<rparr>"
    by (simp add: msg_consts)
  then have "box (msg_abs_of ?s) i = Some d" by simp
  then have b: "box (msg_abs_of mg1) i = Some d" using msg_run_box [OF sok ops other] mg1 by simp
  let ?mg2 = "set_msg_cell mg1 i ((msg_cell mg1 i)\<lparr>msg_flag := 0, msg_data := 0\<rparr>)"
  have "msg_ok mg1" using msg_run_ok [OF sok ops] mg1 by simp
  then have "msg_itc_get i ?mg2 = (-2, ?mg2, None)"
    using i by (simp add: msg_itc_get_def msg_consts msg_ok_len)
  with b show ?thesis by (simp add: msg_itc_get_box [OF i])
qed

lemma itc_get_breaks_mutex_aux:
  assumes "msg_ok mg" and "0 \<le> m" and "m \<le> 54" and "owner (msg_abs_of mg) m = None"
    and "a \<noteq> 0" and "b \<noteq> 0" and "a \<noteq> b"
  shows "fst (msg_run [(a, MutexWait m), (c, ItcGet (MUTEXSTART + m)), (b, MutexWait m),
      (a, MutexRelease m)] mg) =
    [(a, MutexWait m, 0), (c, ItcGet (MUTEXSTART + m), 0), (b, MutexWait m, 0), (a, MutexRelease m, -2)]"
proof -
  have "in_int32 m" using assms by (simp add: in_int32_def)
  moreover have "msg_flag (msg_cell mg (m + 200)) = 0"
    using assms by (auto simp: msg_abs_of_def msg_consts split: if_splits)
  ultimately show ?thesis using assms
    by (simp add: msg_mutex_eqs msg_itc_get_def msg_consts msg_ok_len add.commute)
qed

section \<open>Properties\<close>

text \<open>
  C5: Every message operation implements its abstract counterpart, results and error codes
  included: mailboxes with at most one message, counters, mutexes with at most one owner. The
  callers' part: arguments are C integers and mailbox numbers are not those of other cells.
\<close>
theorem msg_refines_spec:
  assumes "msg_ok mg" and "op_ok p" and "cur \<noteq> 0"
  shows "msg_ok (snd (msg_step cur p mg)) \<and>
    abs_step cur p (msg_abs_of mg) =
      (fst (msg_step cur p mg), msg_abs_of (snd (msg_step cur p mg)))"
  using msg_step_ok [OF assms] msg_step_refines_abs [OF assms] by blast

theorem msg_refines_spec_witness:
  "abs_step 0x1000 (MutexWait 54) (msg_abs_of (msg_init msg_mng_zero)) =
     (fst (msg_mutex_wait 0x1000 54 (msg_init msg_mng_zero)),
      msg_abs_of (snd (msg_mutex_wait 0x1000 54 (msg_init msg_mng_zero))))"
  using msg_refines_spec [OF msg_init_ok [OF msg_zero_len], of "MutexWait 54" "0x1000"]
  by (simp add: in_int32_def)

text \<open>
  C6: Mutual exclusion, over any interleaving of operations of any tasks in which the mailbox calls are made on mailbox
  numbers or refused ones and the arguments are C integers (\<open>ops_ok\<close>): each task holds a mutex at most once, and no two tasks hold it
  together. The kernel itself does not check this: a mailbox call on the number of a mutex's cell breaks the exclusion (\<open>itc_get_breaks_mutex\<close>).
\<close>
theorem mutex_exclusion:
  assumes "msg_ok mg" and "owner (msg_abs_of mg) m = None" and "ops_ok ops"
    and "msg_run ops mg = (tr, mg')"
  shows "mutex_balance tr a m \<in> {0, 1} \<and>
    (mutex_balance tr a m = 1 \<and> mutex_balance tr b m = 1 \<longrightarrow> a = b)"
  using mutex_balance_owner [OF assms(1,3,4), of a m] mutex_balance_owner [OF assms(1,3,4), of b m]
    assms(2) by auto

theorem mutex_exclusion_witness:
  "fst (msg_run [(8, MutexWait 3), (16, MutexWait 3), (16, MutexRelease 3), (8, MutexRelease 3), (16, MutexWait 3)]
      (msg_init msg_mng_zero)) =
     [(8, MutexWait 3, 0), (16, MutexWait 3, -2), (16, MutexRelease 3, -2), (8, MutexRelease 3, 0), (16, MutexWait 3, 0)] \<and>
   mutex_balance [(8, MutexWait 3, 0), (16, MutexWait 3, -2), (16, MutexRelease 3, -2)] 8 3 \<in> {0, 1}"
proof
  let ?mg = "msg_init msg_mng_zero"
  have len: "length (free_msg_pool ?mg) = 255" by (simp add: msg_mng_zero_def msg_init_def MAXMSG_def)
  have cell: "msg_cell ?mg 203 = \<lparr>msg_data = 0, msg_flag = 0\<rparr>"
    by (simp add: msg_mng_zero_def msg_init_def MAXMSG_def msg_cell_def)
  have run: "fst (msg_run [(8, MutexWait 3), (16, MutexWait 3), (16, MutexRelease 3), (8, MutexRelease 3), (16, MutexWait 3)] ?mg) =
     [(8, MutexWait 3, 0), (16, MutexWait 3, -2), (16, MutexRelease 3, -2), (8, MutexRelease 3, 0), (16, MutexWait 3, 0)]"
    using len cell by (simp add: msg_mutex_eqs in_int32_def MAXMSG_def)
  then show "fst (msg_run [(8, MutexWait 3), (16, MutexWait 3), (16, MutexRelease 3), (8, MutexRelease 3), (16, MutexWait 3)] ?mg) =
     [(8, MutexWait 3, 0), (16, MutexWait 3, -2), (16, MutexRelease 3, -2), (8, MutexRelease 3, 0), (16, MutexWait 3, 0)]" .
  have run3: "fst (msg_run [(8, MutexWait 3), (16, MutexWait 3), (16, MutexRelease 3)] ?mg) =
     [(8, MutexWait 3, 0), (16, MutexWait 3, -2), (16, MutexRelease 3, -2)]"
    using len cell by (simp add: msg_mutex_eqs in_int32_def MAXMSG_def)
  have o: "owner (msg_abs_of ?mg) 3 = None" by (simp add: msg_init_abs)
  obtain mg' where "msg_run [(8, MutexWait 3), (16, MutexWait 3), (16, MutexRelease 3)] ?mg =
     ([(8, MutexWait 3, 0), (16, MutexWait 3, -2), (16, MutexRelease 3, -2)], mg')"
    using run3 by (metis fst_conv surj_pair)
  from mutex_exclusion [OF msg_init_ok [OF msg_zero_len] o _ this, of 8 16]
  show "mutex_balance [(8, MutexWait 3, 0), (16, MutexWait 3, -2), (16, MutexRelease 3, -2)] 8 3 \<in> {0, 1}"
    by (simp add: in_int32_def)
qed

text \<open>
  C7: A semaphore (0 to 99) counts: after any interleaving without a new \<open>sem_init\<close>, in which the mailbox calls are made on mailbox numbers or
  refused ones and the arguments are C integers (\<open>ops_ok\<close>; the kernel does not check this), and which is short enough that the count cannot
  overflow (initial value plus number of operations below \<open>2 ^ 31\<close>), its value is the initial value, which is not negative, plus the ups minus the
  downs that succeeded, and never negative, so the downs that succeeded never exceed the initial value plus the ups.
\<close>
theorem semaphore_counts:
  assumes "msg_ok mg" and "ops_ok ops" and "msg_run ops mg = (tr, mg')"
    and "\<forall>(c, p) \<in> set ops. \<forall>s. p \<noteq> SemInit i s" and "0 \<le> i" "i \<le> 99"
    and "0 \<le> count (msg_abs_of mg) i" and "count (msg_abs_of mg) i + int (length ops) < 2 ^ 31"
  shows "count (msg_abs_of mg') i = count (msg_abs_of mg) i + sem_ups tr i - sem_downs tr i \<and>
    sem_downs tr i \<le> count (msg_abs_of mg) i + sem_ups tr i"
  using sem_counts [OF assms] by linarith

theorem semaphore_counts_witness:
  "\<exists>tr mg'. msg_run [(8, SemP 0), (8, SemV 0), (16, SemP 0)] (msg_init msg_mng_zero) = (tr, mg') \<and>
     count (msg_abs_of mg') 0 = sem_ups tr 0 - sem_downs tr 0"
proof -
  obtain tr mg' where r: "msg_run [(8, SemP 0), (8, SemV 0), (16, SemP 0)] (msg_init msg_mng_zero) = (tr, mg')"
    by fastforce
  from semaphore_counts [OF msg_init_ok [OF msg_zero_len] _ r, of 0] r show ?thesis
    by (simp add: in_int32_def msg_init_abs)
qed

text \<open>
  C8: A message waits in its mailbox: after \<open>itc_send\<close>, whatever others do to other cells,
  \<open>itc_get\<close> returns that message, and the next \<open>itc_get\<close> finds the box empty.
\<close>
theorem itc_delivers:
  assumes "msg_ok mg" and "0 \<le> i" and "i \<le> ITCEND" and "ops_ok ops"
    and "\<forall>(c, p) \<in> set ops. p \<noteq> ItcGet i \<and> (\<forall>d. p \<noteq> ItcSend i d)"
    and "mg1 = snd (msg_run ops (snd (msg_itc_send i d mg)))"
  shows "\<exists>mg2. msg_itc_get i mg1 = (0, mg2, Some d) \<and> msg_itc_get i mg2 = (-2, mg2, None)"
  by (rule itc_delivers_aux [OF assms])

theorem itc_delivers_witness:
  "\<exists>mg2. msg_itc_get 7 (snd (msg_run [(16, ItcSend 8 5), (16, SemV 7)]
      (snd (msg_itc_send 7 42 (msg_init msg_mng_zero))))) = (0, mg2, Some 42) \<and>
     msg_itc_get 7 mg2 = (-2, mg2, None)"
  by (rule itc_delivers [OF msg_init_ok [OF msg_zero_len] _ _ _ _ refl])
    (simp_all add: ITCEND_def in_int32_def)

text \<open>
  The mailbox operations accept the numbers of semaphores and mutexes as well: while
  \<open>a\<close> holds mutex \<open>m\<close>, an \<open>itc_get\<close> on number \<open>200 + m\<close> by anyone frees the
  mutex, and \<open>b\<close> acquires it too; \<open>a\<close>'s release is then refused.
\<close>
theorem itc_get_breaks_mutex:
  assumes "msg_ok mg" and "0 \<le> m" and "m \<le> 54" and "owner (msg_abs_of mg) m = None"
    and "a \<noteq> 0" and "b \<noteq> 0" and "a \<noteq> b"
  shows "fst (msg_run [(a, MutexWait m), (c, ItcGet (MUTEXSTART + m)), (b, MutexWait m),
      (a, MutexRelease m)] mg) =
    [(a, MutexWait m, 0), (c, ItcGet (MUTEXSTART + m), 0), (b, MutexWait m, 0), (a, MutexRelease m, -2)]"
  by (rule itc_get_breaks_mutex_aux [OF assms])

theorem itc_get_breaks_mutex_witness:
  "fst (msg_run [(8, MutexWait 0), (24, ItcGet (MUTEXSTART + 0)), (16, MutexWait 0), (8, MutexRelease 0)]
      (msg_init msg_mng_zero)) =
    [(8, MutexWait 0, 0), (24, ItcGet (MUTEXSTART + 0), 0), (16, MutexWait 0, 0), (8, MutexRelease 0, -2)]"
  by (rule itc_get_breaks_mutex [OF msg_init_ok [OF msg_zero_len]]) (simp_all add: msg_init_abs)

end
