(* ===== verification/Kernel_Drv.thy ===== *)
theory Kernel_Drv
  imports Prelude
begin

text \<open>
  The driver table, \<open>navilnux_drv.c\<close> and \<open>navilnux_drv.h\<close>. A slot is unused while its
  \<open>usecount\<close> is negative. Pointers are addresses, 0 the null pointer.
\<close>

definition DRVLIMIT :: int where "DRVLIMIT = 100"

record free_drv =
  navil_fops :: u32
  usecount :: int
  drvname :: u32

datatype drv_fn = Fn_drv_init | Fn_drv_register_drv

record drv_mng =
  free_drv_pool :: "free_drv list"
  dm_init :: "drv_fn option"
  dm_register_drv :: "drv_fn option"

definition drv_mng_zero :: drv_mng where
  "drv_mng_zero = \<lparr>free_drv_pool = replicate (nat DRVLIMIT) \<lparr>navil_fops = 0, usecount = 0, drvname = 0\<rparr>,
     dm_init = None, dm_register_drv = None\<rparr>"

definition drv_init :: "drv_mng \<Rightarrow> drv_mng" where
  "drv_init dm = dm\<lparr>
     free_drv_pool := map (\<lambda>d. d\<lparr>navil_fops := 0, usecount := -1, drvname := 0\<rparr>) (free_drv_pool dm),
     dm_init := Some Fn_drv_init, dm_register_drv := Some Fn_drv_register_drv\<rparr>"

definition drv_register_drv :: "int \<Rightarrow> u32 \<Rightarrow> u32 \<Rightarrow> drv_mng \<Rightarrow> (int \<times> drv_mng) fres" where
  "drv_register_drv drvnum name drvfops dm =
     (if drvnum > DRVLIMIT \<or> drvnum < 0 then Inr (-1, dm)
      else if \<not> in_array drvnum (free_drv_pool dm) then Inl OutOfBounds
      else if usecount (free_drv_pool dm ! nat drvnum) \<ge> 0 then Inr (-1, dm)
      else Inr (0, dm\<lparr>free_drv_pool := (free_drv_pool dm)[nat drvnum :=
             (free_drv_pool dm ! nat drvnum)\<lparr>navil_fops := drvfops, usecount := 0,
               drvname := name\<rparr>]\<rparr>))"

text \<open>
  Registration is once per slot: on an initialised table the first registration of a slot takes
  it, any later one is refused, and no other slot changes.
\<close>

lemma drv_register_fresh:
  assumes "length (free_drv_pool dm) = nat DRVLIMIT" and "0 \<le> i" and "i < DRVLIMIT"
    and "usecount (free_drv_pool dm ! nat i) < 0"
  shows "\<exists>dm'. drv_register_drv i name f dm = Inr (0, dm') \<and>
    length (free_drv_pool dm') = nat DRVLIMIT \<and>
    navil_fops (free_drv_pool dm' ! nat i) = f \<and> usecount (free_drv_pool dm' ! nat i) = 0 \<and>
    (\<forall>j. j \<noteq> nat i \<longrightarrow> free_drv_pool dm' ! j = free_drv_pool dm ! j) \<and>
    drv_register_drv i name' f' dm' = Inr (-1, dm')"
  using assms by (simp add: drv_register_drv_def in_array_def DRVLIMIT_def)

lemma drv_init_slots [simp]:
  "length (free_drv_pool dm) = nat DRVLIMIT \<Longrightarrow> 0 \<le> i \<Longrightarrow> i < DRVLIMIT \<Longrightarrow>
     free_drv_pool (drv_init dm) ! nat i =
       (free_drv_pool dm ! nat i)\<lparr>navil_fops := 0, usecount := -1, drvname := 0\<rparr>"
  by (simp add: drv_init_def DRVLIMIT_def)

lemma drv_init_length [simp]: "length (free_drv_pool (drv_init dm)) = length (free_drv_pool dm)"
  by (simp add: drv_init_def)

lemma drv_zero_slots [simp]:
  "length (free_drv_pool drv_mng_zero) = nat DRVLIMIT"
  "0 \<le> i \<Longrightarrow> i < DRVLIMIT \<Longrightarrow>
     free_drv_pool drv_mng_zero ! nat i = \<lparr>navil_fops = 0, usecount = 0, drvname = 0\<rparr>"
  by (simp_all add: drv_mng_zero_def DRVLIMIT_def)

end
