(* ===== verification/Kernel_Sys.thy ===== *)
theory Kernel_Sys
  imports Kernel_Task Kernel_Msg Kernel_Drv
begin

text \<open>
  The kernel's state and its system calls: \<open>navilnux_sys.c\<close>, \<open>syscalltbl.h\<close>, and the globals
  of \<open>navilnux.c\<close> the calls work on. A device driver is not part of the repository; what its
  operations do is the parameter \<open>drivers\<close>, indexed by the address of its \<open>fops\<close> structure.
\<close>

section \<open>The state\<close>

text \<open>What \<open>navilnux_current\<close> and \<open>navilnux_next\<close> may point to.\<close>

datatype tcb_ref = NoTCB | DummyTCB | PoolTCB int

datatype sys_fn = Sys_mysyscall | Sys_mysyscall4 | Sys_itcsend | Sys_itcget | Sys_semp | Sys_semv
  | Sys_mutexwait | Sys_mutexrelease | Sys_malloc | Sys_free | Sys_open | Sys_close | Sys_read
  | Sys_write

text \<open>
  \<open>pool_addr\<close> and \<open>dummy_addr\<close> are where the linker placed the task pool and \<open>dummyTCB\<close>;
  they matter because the mutexes store the address of their owner.
\<close>

record kernel =
  ram :: mem
  memmng :: mem_mng
  taskmng :: task_mng
  msgmng :: msg_mng
  drvmng :: drv_mng
  syscallvec :: "sys_fn option list"
  navilnux_current :: tcb_ref
  navilnux_next :: tcb_ref
  dummyTCB :: free_task
  navilnux_current_index :: int
  navilnux_time_tick :: u32
  console :: "(string \<times> u32 list) list"
  pool_addr :: u32
  dummy_addr :: u32

definition TCB_SIZE :: u32 where "TCB_SIZE = 72"

definition tcb_addr :: "kernel \<Rightarrow> tcb_ref \<Rightarrow> u32" where
  "tcb_addr k r = (case r of NoTCB \<Rightarrow> 0 | DummyTCB \<Rightarrow> dummy_addr k
     | PoolTCB i \<Rightarrow> pool_addr k + word_of_int i * TCB_SIZE)"

definition k_printf :: "string \<Rightarrow> u32 list \<Rightarrow> kernel \<Rightarrow> kernel" where
  "k_printf fmt args k = k\<lparr>console := console k @ [(fmt, args)]\<rparr>"

section \<open>The system calls\<close>

text \<open>A system call gets its arguments from registers and returns what goes into \<open>r0\<close>.\<close>

type_synonym sysret = "(u32 \<times> kernel) fres"

definition ret_int :: "int \<Rightarrow> kernel \<Rightarrow> sysret" where
  "ret_int r k = Inr (word_of_int r, k)"

definition sys_mysyscall :: "u32 \<Rightarrow> u32 \<Rightarrow> u32 \<Rightarrow> kernel \<Rightarrow> sysret" where
  "sys_mysyscall a b c k = ret_int 333 (k_printf (''My systemcall - %d, %d, %d'' @ [NL]) [a, b, c] k)"

definition sys_mysyscall4 :: "u32 \<Rightarrow> u32 \<Rightarrow> u32 \<Rightarrow> u32 \<Rightarrow> kernel \<Rightarrow> sysret" where
  "sys_mysyscall4 a b c d k =
     ret_int 4444 (k_printf (''My systemcall 4 - %d %d %d %d'' @ [NL]) [a, b, c, d] k)"

text \<open>The calls through the managers' function pointers fail on a null pointer.\<close>

definition lift_msg :: "msg_fn option \<Rightarrow> (msg_mng \<Rightarrow> int \<times> msg_mng) \<Rightarrow> kernel \<Rightarrow> sysret" where
  "lift_msg p f k =
     (if p = None then Inl NullCall
      else (let (r, mg) = f (msgmng k) in ret_int r (k\<lparr>msgmng := mg\<rparr>)))"

definition sys_itcsend :: "int \<Rightarrow> u32 \<Rightarrow> kernel \<Rightarrow> sysret" where
  "sys_itcsend itcnum d k = lift_msg (mg_itc_send (msgmng k)) (msg_itc_send itcnum d) k"

definition sys_itcget :: "int \<Rightarrow> u32 \<Rightarrow> kernel \<Rightarrow> sysret" where
  "sys_itcget itcnum p k =
     (if mg_itc_get (msgmng k) = None then Inl NullCall
      else (let (r, mg, d) = msg_itc_get itcnum (msgmng k) in
        ret_int r (k\<lparr>msgmng := mg,
          ram := (case d of None \<Rightarrow> ram k | Some v \<Rightarrow> st32 (ram k) p v)\<rparr>)))"

definition sys_semp :: "int \<Rightarrow> kernel \<Rightarrow> sysret" where
  "sys_semp semnum k = lift_msg (mg_sem_p (msgmng k)) (msg_sem_p semnum) k"

definition sys_semv :: "int \<Rightarrow> kernel \<Rightarrow> sysret" where
  "sys_semv semnum k = lift_msg (mg_sem_v (msgmng k)) (msg_sem_v semnum) k"

definition sys_mutexwait :: "int \<Rightarrow> kernel \<Rightarrow> sysret" where
  "sys_mutexwait mutexnum k = lift_msg (mg_mutex_wait (msgmng k))
     (msg_mutex_wait (tcb_addr k (navilnux_current k)) mutexnum) k"

definition sys_mutexrelease :: "int \<Rightarrow> kernel \<Rightarrow> sysret" where
  "sys_mutexrelease mutexnum k = lift_msg (mg_mutex_release (msgmng k))
     (msg_mutex_release (tcb_addr k (navilnux_current k)) mutexnum) k"

definition sys_malloc :: "u32 \<Rightarrow> kernel \<Rightarrow> sysret" where
  "sys_malloc sz k =
     (if mm_malloc (memmng k) = None then Inl NullCall
      else case mem_malloc sz (memmng k) (ram k) of
             None \<Rightarrow> Inl NoReturn
           | Some (a, mm, m) \<Rightarrow> Inr (a, k\<lparr>memmng := mm, ram := m\<rparr>))"

definition sys_free :: "u32 \<Rightarrow> kernel \<Rightarrow> sysret" where
  "sys_free addr k =
     (if mm_free (memmng k) = None then Inl NullCall
      else (let (r, m) = mem_free addr (ram k) in ret_int r (k\<lparr>ram := m\<rparr>)))"

section \<open>The driver calls\<close>

record fops =
  fop_open :: "(int \<Rightarrow> int \<Rightarrow> kernel \<Rightarrow> sysret) option"
  fop_read :: "(int \<Rightarrow> u32 \<Rightarrow> int \<Rightarrow> kernel \<Rightarrow> sysret) option"
  fop_write :: "(int \<Rightarrow> u32 \<Rightarrow> int \<Rightarrow> kernel \<Rightarrow> sysret) option"
  fop_close :: "(int \<Rightarrow> kernel \<Rightarrow> sysret) option"

text \<open>\<open>navil_fops->op\<close> for slot \<open>drvnum\<close>: no function when either pointer is null.\<close>

definition drv_op :: "(u32 \<Rightarrow> fops) \<Rightarrow> (fops \<Rightarrow> 'f option) \<Rightarrow> int \<Rightarrow> kernel \<Rightarrow> 'f option" where
  "drv_op drivers sel drvnum k =
     (let p = navil_fops (free_drv_pool (drvmng k) ! nat drvnum)
      in if p = 0 then None else sel (drivers p))"

definition add_usecount :: "int \<Rightarrow> int \<Rightarrow> kernel \<Rightarrow> kernel" where
  "add_usecount drvnum d k = k\<lparr>drvmng := (drvmng k)\<lparr>free_drv_pool :=
     (free_drv_pool (drvmng k))[nat drvnum := (free_drv_pool (drvmng k) ! nat drvnum)\<lparr>usecount :=
        wrap32 (usecount (free_drv_pool (drvmng k) ! nat drvnum) + d)\<rparr>]\<rparr>\<rparr>"

text \<open>The checks every driver call begins with; \<open>act\<close> is what follows them.\<close>

definition drv_checks :: "int \<Rightarrow> kernel \<Rightarrow> sysret \<Rightarrow> sysret" where
  "drv_checks drvnum k act =
     (if drvnum > DRVLIMIT \<or> drvnum < 0 then ret_int (-1) k
      else if \<not> in_array drvnum (free_drv_pool (drvmng k)) then Inl OutOfBounds
      else if usecount (free_drv_pool (drvmng k) ! nat drvnum) < 0 then ret_int (-1) k
      else act)"

definition sys_open :: "(u32 \<Rightarrow> fops) \<Rightarrow> int \<Rightarrow> int \<Rightarrow> kernel \<Rightarrow> sysret" where
  "sys_open drivers drvnum mode k = drv_checks drvnum k
     (let k1 = add_usecount drvnum 1 k in
      case drv_op drivers fop_open drvnum k1 of None \<Rightarrow> Inl NullCall | Some f \<Rightarrow> f drvnum mode k1)"

definition sys_close :: "(u32 \<Rightarrow> fops) \<Rightarrow> int \<Rightarrow> kernel \<Rightarrow> sysret" where
  "sys_close drivers drvnum k = drv_checks drvnum k
     (let k1 = add_usecount drvnum (-1) k in
      case drv_op drivers fop_close drvnum k1 of None \<Rightarrow> Inl NullCall | Some f \<Rightarrow> f drvnum k1)"

definition sys_read :: "(u32 \<Rightarrow> fops) \<Rightarrow> int \<Rightarrow> u32 \<Rightarrow> int \<Rightarrow> kernel \<Rightarrow> sysret" where
  "sys_read drivers drvnum buf sz k = drv_checks drvnum k
     (case drv_op drivers fop_read drvnum k of None \<Rightarrow> Inl NullCall | Some f \<Rightarrow> f drvnum buf sz k)"

definition sys_write :: "(u32 \<Rightarrow> fops) \<Rightarrow> int \<Rightarrow> u32 \<Rightarrow> int \<Rightarrow> kernel \<Rightarrow> sysret" where
  "sys_write drivers drvnum buf sz k = drv_checks drvnum k
     (case drv_op drivers fop_write drvnum k of None \<Rightarrow> Inl NullCall | Some f \<Rightarrow> f drvnum buf sz k)"

section \<open>The call table\<close>

definition SYSCALLNUM :: nat where "SYSCALLNUM = 255"
definition SYS_CALLSCHED :: nat where "SYS_CALLSCHED = SYSCALLNUM"

text \<open>The numbers 0 to 13 of \<open>syscalltbl.h\<close>, in order.\<close>

definition syscall_numbers :: "(nat \<times> sys_fn) list" where
  "syscall_numbers = [(0, Sys_mysyscall), (1, Sys_mysyscall4), (2, Sys_itcsend), (3, Sys_itcget),
     (4, Sys_semp), (5, Sys_semv), (6, Sys_mutexwait), (7, Sys_mutexrelease), (8, Sys_malloc),
     (9, Sys_free), (10, Sys_open), (11, Sys_close), (12, Sys_read), (13, Sys_write)]"

definition syscall_init :: "kernel \<Rightarrow> kernel" where
  "syscall_init k = k\<lparr>syscallvec :=
     foldl (\<lambda>v (n, f). v[n := Some f]) (syscallvec k) syscall_numbers\<rparr>"

fun sys_call :: "(u32 \<Rightarrow> fops) \<Rightarrow> sys_fn \<Rightarrow> u32 \<Rightarrow> u32 \<Rightarrow> u32 \<Rightarrow> u32 \<Rightarrow> kernel \<Rightarrow> sysret" where
  "sys_call drivers Sys_mysyscall r0 r1 r2 r3 k = sys_mysyscall r0 r1 r2 k"
| "sys_call drivers Sys_mysyscall4 r0 r1 r2 r3 k = sys_mysyscall4 r0 r1 r2 r3 k"
| "sys_call drivers Sys_itcsend r0 r1 r2 r3 k = sys_itcsend (sint r0) r1 k"
| "sys_call drivers Sys_itcget r0 r1 r2 r3 k = sys_itcget (sint r0) r1 k"
| "sys_call drivers Sys_semp r0 r1 r2 r3 k = sys_semp (sint r0) k"
| "sys_call drivers Sys_semv r0 r1 r2 r3 k = sys_semv (sint r0) k"
| "sys_call drivers Sys_mutexwait r0 r1 r2 r3 k = sys_mutexwait (sint r0) k"
| "sys_call drivers Sys_mutexrelease r0 r1 r2 r3 k = sys_mutexrelease (sint r0) k"
| "sys_call drivers Sys_malloc r0 r1 r2 r3 k = sys_malloc r0 k"
| "sys_call drivers Sys_free r0 r1 r2 r3 k = sys_free r0 k"
| "sys_call drivers Sys_open r0 r1 r2 r3 k = sys_open drivers (sint r0) (sint r1) k"
| "sys_call drivers Sys_close r0 r1 r2 r3 k = sys_close drivers (sint r0) k"
| "sys_call drivers Sys_read r0 r1 r2 r3 k = sys_read drivers (sint r0) r1 (sint r2) k"
| "sys_call drivers Sys_write r0 r1 r2 r3 k = sys_write drivers (sint r0) r1 (sint r2) k"

text \<open>
  The handler's call through the table: an empty entry is a jump to address 0, a number from
  256 on reads past the table. (255 is the scheduler's and does not get here.)
\<close>

definition syscall_dispatch :: "(u32 \<Rightarrow> fops) \<Rightarrow> nat \<Rightarrow> u32 \<Rightarrow> u32 \<Rightarrow> u32 \<Rightarrow> u32 \<Rightarrow> kernel \<Rightarrow> sysret" where
  "syscall_dispatch drivers n r0 r1 r2 r3 k =
     (if length (syscallvec k) \<le> n then Inl OutOfBounds
      else case syscallvec k ! n of
             None \<Rightarrow> Inl NullCall
           | Some f \<Rightarrow> sys_call drivers f r0 r1 r2 r3 k)"

end
