(* ===== verification/Bus.thy ===== *)
theory Bus
  imports Prelude
begin

text \<open>
  The devices. What a register read returns and what an access does to the device is not in the
  program: it is the parameter \<open>b :: 'h bus\<close> of every definition that touches a register,
  and \<open>'h\<close> the state of the devices. Reads may change that state too (a receive register
  is emptied by reading it). \<open>bus_idle\<close> is what passes for the devices during one turn of a delay loop. The register addresses are those of \<open>pxa255.h\<close>.
\<close>

record 'h bus =
  bus_rd :: "u32 \<Rightarrow> 'h \<Rightarrow> u32 \<times> 'h"
  bus_wr :: "u32 \<Rightarrow> u32 \<Rightarrow> 'h \<Rightarrow> 'h"
  bus_idle :: "'h \<Rightarrow> 'h"

section \<open>Registers\<close>

definition OSMR0 :: u32 where "OSMR0 = 0x40A00000"
definition OSMR1 :: u32 where "OSMR1 = 0x40A00004"
definition OSMR2 :: u32 where "OSMR2 = 0x40A00008"
definition OSMR3 :: u32 where "OSMR3 = 0x40A0000C"
definition OSCR :: u32 where "OSCR = 0x40A00010"
definition OSSR :: u32 where "OSSR = 0x40A00014"
definition OWER :: u32 where "OWER = 0x40A00018"
definition OIER :: u32 where "OIER = 0x40A0001C"
definition ICIP :: u32 where "ICIP = 0x40D00000"
definition ICMR :: u32 where "ICMR = 0x40D00004"
definition ICLR :: u32 where "ICLR = 0x40D00008"
definition ICCR :: u32 where "ICCR = 0x40D00014"

definition OSSR_M0 :: u32 where "OSSR_M0 = 1"
definition OSSR_M1 :: u32 where "OSSR_M1 = 2"
definition OSSR_M3 :: u32 where "OSSR_M3 = 8"

lemmas timer_regs = OSMR0_def OSMR1_def OSMR2_def OSMR3_def OSCR_def OSSR_def OWER_def OIER_def
  ICIP_def ICMR_def ICLR_def ICCR_def

section \<open>Access patterns\<close>

text \<open>\<open>REG = REG op v\<close>: a read, then a write.\<close>

definition reg_modify :: "'h bus \<Rightarrow> u32 \<Rightarrow> (u32 \<Rightarrow> u32) \<Rightarrow> 'h \<Rightarrow> 'h" where
  "reg_modify b r f h = (let (v, h1) = bus_rd b r h in bus_wr b r (f v) h1)"

section \<open>Two concrete buses\<close>

text \<open>
  Registers that behave as memory, and a script: every read, whatever the register, takes the
  next value of a list. They serve as concrete devices in examples.
\<close>

definition ram_bus :: "(u32 \<Rightarrow> u32) bus" where
  "ram_bus = \<lparr>bus_rd = (\<lambda>a h. (h a, h)), bus_wr = (\<lambda>a v h. h(a := v)), bus_idle = (\<lambda>h. h)\<rparr>"

lemma ram_bus_simps [simp]:
  "bus_rd ram_bus a h = (h a, h)" "bus_wr ram_bus a v h = h(a := v)"
  by (simp_all add: ram_bus_def)

type_synonym script = "u32 list \<times> (u32 \<times> u32) list"

text \<open>The values still to be read, and the writes so far, the last first.\<close>

definition script_bus :: "script bus" where
  "script_bus = \<lparr>bus_rd = (\<lambda>a (rs, ws). case rs of [] \<Rightarrow> (0, ([], ws)) | r # rs' \<Rightarrow> (r, (rs', ws))),
     bus_wr = (\<lambda>a v (rs, ws). (rs, (a, v) # ws)), bus_idle = (\<lambda>h. h)\<rparr>"

lemma script_bus_simps [simp]:
  "bus_rd script_bus a ([], ws) = (0, ([], ws))"
  "bus_rd script_bus a (r # rs, ws) = (r, (rs, ws))"
  "bus_wr script_bus a v (rs, ws) = (rs, (a, v) # ws)"
  by (simp_all add: script_bus_def)

end
