(* ===== verification/Kernel_Sched.thy ===== *)
theory Kernel_Sched
  imports Kernel_Sys Bus
begin

text \<open>
  Scheduling, interrupts and start-up: \<open>navilnux.c\<close>, \<open>navilnux_user.c\<close> and the exception
  handlers of \<open>entry.S\<close>. A task that runs is its user-mode context; the handlers save and load
  contexts in the task control blocks.
\<close>

section \<open>The scheduler\<close>

text \<open>
  \<open>scheduler\<close>: round robin. With no task the remainder is by zero; with a task number past
  the pool the next control block lies outside it.
\<close>

definition scheduler :: "kernel \<Rightarrow> kernel fres" where
  "scheduler k =
     (let n = wrap32 (max_task_id (taskmng k) + 1) in
      if n = 0 then Inl DivByZero
      else (let i = wrap32 (navilnux_current_index k + 1);
                i' = crem i n
            in Inr (k\<lparr>navilnux_current_index := i', navilnux_next := PoolTCB i',
                 navilnux_current := PoolTCB i'\<rparr>)))"

definition sched_init :: "kernel \<Rightarrow> int \<times> kernel" where
  "sched_init k =
     (if max_task_id (taskmng k) < 0 then (-1, k)
      else (0, k\<lparr>navilnux_current := DummyTCB, navilnux_next := PoolTCB 0,
             navilnux_current_index := -1\<rparr>))"

section \<open>Contexts and control blocks\<close>

text \<open>User-mode registers \<open>r0\<close> to \<open>r12\<close>, stack pointer, link register, the address of the
  next instruction and the status word.\<close>

record ucontext =
  u_cpsr :: u32
  u_regs :: "u32 list"
  u_sp :: u32
  u_lr :: u32
  u_pc :: u32

definition tcb_get :: "tcb_ref \<Rightarrow> kernel \<Rightarrow> free_task fres" where
  "tcb_get r k = (case r of
     NoTCB \<Rightarrow> Inl NullCall
   | DummyTCB \<Rightarrow> Inr (dummyTCB k)
   | PoolTCB i \<Rightarrow> if in_array i (free_task_pool (taskmng k))
                 then Inr (free_task_pool (taskmng k) ! nat i) else Inl OutOfBounds)"

definition tcb_put :: "tcb_ref \<Rightarrow> free_task \<Rightarrow> kernel \<Rightarrow> kernel" where
  "tcb_put r t k = (case r of
     NoTCB \<Rightarrow> k
   | DummyTCB \<Rightarrow> k\<lparr>dummyTCB := t\<rparr>
   | PoolTCB i \<Rightarrow> k\<lparr>taskmng := (taskmng k)\<lparr>free_task_pool :=
        (free_task_pool (taskmng k))[nat i := t]\<rparr>\<rparr>)"

text \<open>The stores of the handlers through \<open>navilnux_current\<close>; \<open>sleep_end_tick\<close> stays.\<close>

definition save_context :: "ucontext \<Rightarrow> kernel \<Rightarrow> kernel fres" where
  "save_context uc k =
     fbind (tcb_get (navilnux_current k) k) (\<lambda>t.
       Inr (tcb_put (navilnux_current k) (t\<lparr>context_spsr := u_cpsr uc, context_regs := u_regs uc,
         context_sp := u_sp uc, context_lr := u_lr uc, context_pc := u_pc uc\<rparr>) k))"

text \<open>The loads through \<open>navilnux_next\<close> and the return to user mode.\<close>

definition load_context :: "kernel \<Rightarrow> (ucontext \<times> kernel) fres" where
  "load_context k =
     fbind (tcb_get (navilnux_next k) k) (\<lambda>t.
       Inr (\<lparr>u_cpsr = context_spsr t, u_regs = context_regs t, u_sp = context_sp t,
             u_lr = context_lr t, u_pc = context_pc t\<rparr>, k))"

section \<open>The exception handlers\<close>

text \<open>
  \<open>navilnux_swiHandler\<close>. The number is the low 24 bits of the instruction. \<open>r10\<close> and
  \<open>r11\<close> are scratch here. For an ordinary call they are restored from the stack and only
  \<open>r0\<close> changes. For number 255 the handler branches to \<open>sys_scheduler\<close>, which stores the
  registers as they are by then: \<open>r10\<close> holds the number.
\<close>

definition swi_handler :: "(u32 \<Rightarrow> fops) \<Rightarrow> nat \<Rightarrow> ucontext \<Rightarrow> kernel \<Rightarrow> (ucontext \<times> kernel) fres" where
  "swi_handler drivers n uc k =
     (if n = SYS_CALLSCHED then
        fbind (save_context (uc\<lparr>u_regs := (u_regs uc)[10 := of_nat n]\<rparr>) k) (\<lambda>k1.
        fbind (scheduler k1) load_context)
      else
        fbind (syscall_dispatch drivers n (u_regs uc ! 0) (u_regs uc ! 1) (u_regs uc ! 2) (u_regs uc ! 3) k)
          (\<lambda>(r, k1). Inr (uc\<lparr>u_regs := (u_regs uc)[0 := r]\<rparr>, k1)))"

text \<open>The C part of the interrupt: acknowledge timer 1, set the next match, count, schedule.\<close>

definition irqHandler :: "'h bus \<Rightarrow> kernel \<times> 'h \<Rightarrow> (kernel \<times> 'h) fres" where
  "irqHandler b = (\<lambda>(k, h).
     let (icip, h1) = bus_rd b ICIP h in
     if icip AND push_bit 27 1 \<noteq> 0 then
       (let h2 = bus_wr b OSSR OSSR_M1 h1;
            (oscr, h3) = bus_rd b OSCR h2;
            h4 = bus_wr b OSMR1 (oscr + 3686400) h3
        in fbind (scheduler (k\<lparr>navilnux_time_tick := navilnux_time_tick k + 1\<rparr>))
             (\<lambda>k1. Inr (k1, h4)))
     else Inr (k, h1))"

definition irq_handler :: "'h bus \<Rightarrow> ucontext \<Rightarrow> kernel \<times> 'h \<Rightarrow> (ucontext \<times> kernel \<times> 'h) fres" where
  "irq_handler b uc = (\<lambda>(k, h).
     fbind (save_context uc k) (\<lambda>k1.
     fbind (irqHandler b (k1, h)) (\<lambda>(k2, h2).
     fbind (load_context k2) (\<lambda>(uc2, k3). Inr (uc2, k3, h2)))))"

section \<open>Start-up\<close>

definition os_timer_init :: "'h bus \<Rightarrow> 'h \<Rightarrow> 'h" where
  "os_timer_init b h =
     (let h = bus_wr b ICCR 1 h;
          h = reg_modify b ICMR (\<lambda>v. v OR push_bit 27 1) h;
          h = reg_modify b ICLR (\<lambda>v. v AND NOT (push_bit 27 1)) h;
          h = bus_wr b OSCR 0 h;
          (oscr, h) = bus_rd b OSCR h
      in bus_wr b OSMR1 (oscr + 3686400) h)"

definition os_timer_start :: "'h bus \<Rightarrow> 'h \<Rightarrow> 'h" where
  "os_timer_start b h = bus_wr b OSSR OSSR_M1 (reg_modify b OIER (\<lambda>v. v OR 2) h)"

text \<open>\<open>navilnux_init\<close> sets up every manager but the driver table.\<close>

definition navilnux_init :: "'h bus \<Rightarrow> kernel \<times> 'h \<Rightarrow> kernel \<times> 'h" where
  "navilnux_init b = (\<lambda>(k, h).
     (let k1 = k\<lparr>memmng := mem_init (memmng k)\<rparr>;
          k2 = k1\<lparr>taskmng := task_init (taskmng k1)\<rparr>;
          k3 = k2\<lparr>msgmng := msg_init (msgmng k2)\<rparr>;
          k4 = syscall_init k3;
          h1 = os_timer_start b (os_timer_init b h)
      in (k4\<lparr>navilnux_time_tick := 0\<rparr>, h1)))"

text \<open>\<open>taskmng.create\<close>, through its function pointer.\<close>

definition k_task_create :: "u32 \<Rightarrow> kernel \<Rightarrow> (int \<times> kernel) fres" where
  "k_task_create f k =
     (if tm_create (taskmng k) = None then Inl NullCall
      else fbind (task_create f (taskmng k) (memmng k)) (\<lambda>(r, tm, mm).
        Inr (r, k\<lparr>taskmng := tm, memmng := mm\<rparr>)))"

text \<open>\<open>navilnux_user\<close> creates the one user task and ignores the result.\<close>

definition navilnux_user :: "u32 \<Rightarrow> kernel \<Rightarrow> kernel fres" where
  "navilnux_user user_task_1 k = fbind (k_task_create user_task_1 k) (\<lambda>(r, k1). Inr k1)"

fun print_tasks :: "free_task list \<Rightarrow> u32 \<Rightarrow> kernel \<Rightarrow> kernel" where
  "print_tasks [] i k = k"
| "print_tasks (t # ts) i k = print_tasks ts (i + 1)
     (k_printf (''TCB: TASK%d - init PC(%p)'' @ TAB # ''init SP(%p)'' @ [NL]) [i + 1, context_pc t, context_sp t] k)"

text \<open>
  \<open>main\<close> up to its endless \<open>msleep\<close> loop, where it waits for interrupts: the result is 0
  when the loop is reached and -1 after the panic message.
\<close>

definition kernel_main :: "'h bus \<Rightarrow> u32 \<Rightarrow> kernel \<times> 'h \<Rightarrow> (int \<times> kernel \<times> 'h) fres" where
  "kernel_main b user_task_1 s =
     (let (k0, h0) = navilnux_init b s in
      fbind (navilnux_user user_task_1 k0) (\<lambda>k1.
        let (r, k2) = sched_init k1 in
        if r < 0 then Inr (-1, k_printf (''Kernel Panic~!'' @ [NL]) [] k2, h0)
        else if nat (max_task_id (taskmng k2) + 1) > length (free_task_pool (taskmng k2)) then Inl OutOfBounds
        else Inr (0, k_printf (''REAL function TASK1 : %p'' @ [NL]) [user_task_1]
          (print_tasks (take (nat (max_task_id (taskmng k2) + 1)) (free_task_pool (taskmng k2))) 0 k2), h0)))"

section \<open>The scheduler goes round\<close>

text \<open>Tasks 0 to \<open>n - 1\<close> exist and the pool has room for all of them.\<close>

definition sched_ok :: "kernel \<Rightarrow> bool" where
  "sched_ok k \<longleftrightarrow> 0 \<le> max_task_id (taskmng k) \<and> max_task_id (taskmng k) < MAXTASKNUM \<and>
     length (free_task_pool (taskmng k)) = nat MAXTASKNUM"

definition ntasks :: "kernel \<Rightarrow> nat" where
  "ntasks k = nat (max_task_id (taskmng k) + 1)"

lemma ntasks_pos: "sched_ok k \<Longrightarrow> 0 < ntasks k \<and> ntasks k \<le> 40"
  by (auto simp: sched_ok_def ntasks_def MAXTASKNUM_def nat_le_iff)

lemma ntasks_length: "sched_ok k \<Longrightarrow> i < ntasks k \<Longrightarrow> i < length (free_task_pool (taskmng k))"
  using ntasks_pos [of k] by (simp add: sched_ok_def MAXTASKNUM_def)

text \<open>The state after selecting task \<open>i\<close>, and the state when it runs.\<close>

definition at_task :: "nat \<Rightarrow> kernel \<Rightarrow> kernel" where
  "at_task i k = k\<lparr>navilnux_current_index := int i, navilnux_next := PoolTCB (int i),
     navilnux_current := PoolTCB (int i)\<rparr>"

definition runs :: "nat \<Rightarrow> kernel \<Rightarrow> bool" where
  "runs i k \<longleftrightarrow> sched_ok k \<and> i < ntasks k \<and> navilnux_current_index k = int i \<and>
     navilnux_current k = PoolTCB (int i)"

lemma scheduler_next:
  assumes "sched_ok k" and "navilnux_current_index k = int i" and "i < ntasks k"
  shows "scheduler k = Inr (at_task (Suc i mod ntasks k) k)"
proof -
  from assms have n: "wrap32 (max_task_id (taskmng k) + 1) = int (ntasks k)"
    "wrap32 (int i + 1) = int (Suc i)" "0 < ntasks k"
    using ntasks_pos [OF assms(1)] by (auto simp: sched_ok_def ntasks_def MAXTASKNUM_def)
  then show ?thesis
    by (simp add: scheduler_def assms(2) at_task_def Let_def zmod_int)
qed

lemma at_task_simps [simp]:
  "taskmng (at_task i k) = taskmng k" "ntasks (at_task i k) = ntasks k"
  "sched_ok (at_task i k) = sched_ok k" "navilnux_current_index (at_task i k) = int i"
  "at_task j (at_task i k) = at_task j k" "navilnux_current (at_task i k) = PoolTCB (int i)"
  "navilnux_next (at_task i k) = PoolTCB (int i)"
  by (simp_all add: at_task_def ntasks_def sched_ok_def)

lemma runs_at_task: "sched_ok k \<Longrightarrow> i < ntasks k \<Longrightarrow> runs i (at_task i k)"
  by (simp add: runs_def)

fun schedule_times :: "nat \<Rightarrow> kernel \<Rightarrow> kernel fres" where
  "schedule_times 0 k = Inr k"
| "schedule_times (Suc j) k = fbind (scheduler k) (schedule_times j)"

lemma schedule_times_round:
  assumes "runs i k"
  shows "schedule_times (Suc j) k = Inr (at_task ((i + Suc j) mod ntasks k) k)"
  using assms
proof (induction j arbitrary: i k)
  case 0
  then show ?case by (simp add: runs_def scheduler_next)
next
  case (Suc j)
  let ?i = "Suc i mod ntasks k"
  have s: "scheduler k = Inr (at_task ?i k)" using Suc.prems by (simp add: runs_def scheduler_next)
  have r: "runs ?i (at_task ?i k)"
    using Suc.prems by (auto simp: runs_def intro!: mod_less_divisor)
  have "schedule_times (Suc (Suc j)) k = schedule_times (Suc j) (at_task ?i k)"
    by (simp only: schedule_times.simps(2) [of "Suc j"] s fbind_simps)
  also have "\<dots> = Inr (at_task ((?i + Suc j) mod ntasks k) k)" using Suc.IH [OF r] by simp
  also have "(?i + Suc j) mod ntasks k = (i + Suc (Suc j)) mod ntasks k"
    using mod_add_left_eq [of "Suc i" "ntasks k" "Suc j"] by simp
  finally show ?case .
qed

section \<open>Contexts\<close>

text \<open>The context stored in control block \<open>j\<close>.\<close>

definition task_ctx :: "kernel \<Rightarrow> nat \<Rightarrow> ucontext" where
  "task_ctx k j = (let t = free_task_pool (taskmng k) ! j in
     \<lparr>u_cpsr = context_spsr t, u_regs = context_regs t, u_sp = context_sp t,
      u_lr = context_lr t, u_pc = context_pc t\<rparr>)"

lemma save_context_runs:
  assumes "runs i k"
  shows "\<exists>k'. save_context uc k = Inr k' \<and> runs i k' \<and> ntasks k' = ntasks k \<and>
    task_ctx k' = (task_ctx k)(i := uc) \<and> navilnux_time_tick k' = navilnux_time_tick k \<and>
    max_task_id (taskmng k') = max_task_id (taskmng k)"
proof -
  let ?t = "free_task_pool (taskmng k) ! i"
  let ?k = "tcb_put (PoolTCB (int i)) (?t\<lparr>context_spsr := u_cpsr uc, context_regs := u_regs uc,
         context_sp := u_sp uc, context_lr := u_lr uc, context_pc := u_pc uc\<rparr>) k"
  from assms have i: "i < length (free_task_pool (taskmng k))"
    using ntasks_length by (simp add: runs_def)
  have "save_context uc k = Inr ?k"
    using assms i by (simp add: save_context_def tcb_get_def runs_def in_array_def)
  moreover have "runs i ?k" "ntasks ?k = ntasks k"
    using assms by (simp_all add: runs_def tcb_put_def sched_ok_def ntasks_def)
  moreover have "task_ctx ?k = (task_ctx k)(i := uc)"
    using i by (auto simp: fun_eq_iff task_ctx_def tcb_put_def nth_list_update)
  ultimately show ?thesis by (auto simp: tcb_put_def)
qed

lemma load_context_at:
  assumes "sched_ok k" and "i < ntasks k"
  shows "load_context (at_task i k) = Inr (task_ctx k i, at_task i k)"
  using assms ntasks_length [OF assms]
  by (simp add: load_context_def tcb_get_def in_array_def task_ctx_def Let_def)

lemma task_ctx_at [simp]: "task_ctx (at_task i k) = task_ctx k"
  by (simp add: task_ctx_def fun_eq_iff)

text \<open>
  A timer interrupt: the running task's context goes to its block, the next task's context is
  loaded. \<open>timer_pending\<close> says that the interrupt controller reports the timer.
\<close>

definition timer_pending :: "'h bus \<Rightarrow> bool" where
  "timer_pending b \<longleftrightarrow> (\<forall>h. fst (bus_rd b ICIP h) AND push_bit 27 1 \<noteq> 0)"

lemma irq_handler_runs:
  assumes "runs i k" and "timer_pending b"
  shows "\<exists>k' h'. irq_handler b uc (k, h) = Inr (task_ctx k' (Suc i mod ntasks k), k', h') \<and>
    runs (Suc i mod ntasks k) k' \<and> ntasks k' = ntasks k \<and> task_ctx k' = (task_ctx k)(i := uc)"
proof -
  from save_context_runs [OF assms(1), of uc] obtain k1 where
    k1: "save_context uc k = Inr k1" "runs i k1" "ntasks k1 = ntasks k"
      "task_ctx k1 = (task_ctx k)(i := uc)" by blast
  obtain icip h1 where icip: "bus_rd b ICIP h = (icip, h1)" by fastforce
  then have pend: "icip AND push_bit 27 1 \<noteq> 0"
    using assms(2) by (metis fst_conv timer_pending_def)
  obtain oscr h3 where oscr: "bus_rd b OSCR (bus_wr b OSSR OSSR_M1 h1) = (oscr, h3)" by fastforce
  let ?k2 = "k1\<lparr>navilnux_time_tick := navilnux_time_tick k1 + 1\<rparr>"
  let ?i = "Suc i mod ntasks k"
  have k2: "sched_ok ?k2" "ntasks ?k2 = ntasks k" "navilnux_current_index ?k2 = int i" "i < ntasks k"
    "task_ctx ?k2 = task_ctx k1"
    using k1 by (simp_all add: runs_def sched_ok_def ntasks_def task_ctx_def fun_eq_iff)
  have "scheduler ?k2 = Inr (at_task ?i ?k2)" using scheduler_next [OF k2(1,3)] k2 by simp
  moreover have "?i < ntasks ?k2" using k2 by simp
  ultimately have "irq_handler b uc (k, h) = Inr (task_ctx ?k2 ?i, at_task ?i ?k2, bus_wr b OSMR1 (oscr + 3686400) h3)"
    using k1(1) icip oscr pend load_context_at [OF k2(1), of ?i]
    by (simp add: irq_handler_def irqHandler_def)
  moreover have "runs ?i (at_task ?i ?k2)" using k2 by (auto intro!: runs_at_task mod_less_divisor)
  ultimately show ?thesis using k1 k2
    by (intro exI [of _ "at_task ?i ?k2"] exI [of _ "bus_wr b OSMR1 (oscr + 3686400) h3"]) simp
qed


text \<open>
  Interrupts one after another: the list gives the context of whichever task runs when the next
  interrupt arrives, the result the contexts the handlers return to.
\<close>

fun irq_seq :: "'h bus \<Rightarrow> ucontext list \<Rightarrow> kernel \<times> 'h \<Rightarrow> (ucontext list \<times> kernel \<times> 'h) fres" where
  "irq_seq b [] s = Inr ([], s)"
| "irq_seq b (uc # ucs) s =
     fbind (irq_handler b uc s) (\<lambda>(r, s1). fbind (irq_seq b ucs s1) (\<lambda>(rs, s2). Inr (r # rs, s2)))"

lemma mod_round:
  fixes i :: nat
  assumes "i < n" and "0 < m" and "m \<le> n"
  shows "((i + m) mod n = i) = (m = n)"
proof (cases "i + m < n")
  case True
  then have "(i + m) mod n = i + m" by (rule mod_less)
  with assms True show ?thesis by auto
next
  case False
  then have "(i + m) mod n = i + m - n" using assms by (simp add: le_mod_geq)
  with assms False show ?thesis by auto
qed

lemma irq_seq_returns:
  assumes "runs i k" and "timer_pending b"
  shows "\<exists>rs k' h'. irq_seq b ucs (k, h) = Inr (rs, k', h') \<and> length rs = length ucs \<and>
    runs ((i + length ucs) mod ntasks k) k' \<and>
    (\<forall>j < length ucs. rs ! j = (if ntasks k \<le> Suc j then ucs ! (Suc j - ntasks k)
                              else task_ctx k ((i + Suc j) mod ntasks k)))"
  using assms(1)
proof (induction ucs arbitrary: i k h)
  case Nil
  then show ?case by (auto simp: runs_def)
next
  case (Cons uc ucs)
  let ?n = "ntasks k" and ?i = "Suc i mod ntasks k"
  from irq_handler_runs [OF Cons.prems assms(2)] obtain k1 h1 where
    s: "irq_handler b uc (k, h) = Inr (task_ctx k1 ?i, k1, h1)" and r: "runs ?i k1" "ntasks k1 = ?n"
    and c: "task_ctx k1 = (task_ctx k)(i := uc)" by blast
  from Cons.IH [OF r(1), of h1] r(2) obtain rs k' h' where
    t: "irq_seq b ucs (k1, h1) = Inr (rs, k', h')" "length rs = length ucs"
    "runs ((?i + length ucs) mod ?n) k'"
    and nth: "\<And>j. j < length ucs \<Longrightarrow> rs ! j = (if ?n \<le> Suc j then ucs ! (Suc j - ?n)
                              else task_ctx k1 ((?i + Suc j) mod ?n))" by auto
  have i: "i < ?n" using Cons.prems by (simp add: runs_def)
  have idx: "(?i + m) mod ?n = (i + Suc m) mod ?n" for m
    using mod_add_left_eq [of "Suc i" ?n m] by simp
  have ctx: "task_ctx k1 ((i + m) mod ?n) = (if m = ?n then uc else task_ctx k ((i + m) mod ?n))"
    if "0 < m" "m \<le> ?n" for m using mod_round [OF i that] c by simp
  have "(task_ctx k1 ?i # rs) ! j = (if ?n \<le> Suc j then (uc # ucs) ! (Suc j - ?n)
      else task_ctx k ((i + Suc j) mod ?n))" if j: "j < length (uc # ucs)" for j
  proof (cases j)
    case 0
    with ctx [of 1] i show ?thesis by auto
  next
    case (Suc l)
    with j have l: "l < length ucs" by simp
    show ?thesis
    proof (cases "?n \<le> Suc l")
      case True
      then have "Suc (Suc l) - ?n = Suc (Suc l - ?n)" by simp
      with True Suc nth [OF l] show ?thesis by simp
    next
      case False
      then have "rs ! l = task_ctx k1 ((i + Suc (Suc l)) mod ?n)"
        using nth [OF l] idx [of "Suc l"] by simp
      with False Suc ctx [of "Suc (Suc l)"] show ?thesis by (auto simp: not_le)
    qed
  qed
  moreover have "runs ((i + length (uc # ucs)) mod ?n) k'" using t(3) idx [of "length ucs"] by simp
  ultimately show ?case using s t by auto
qed

section \<open>Boot\<close>

text \<open>The state before \<open>main\<close>: zeroed static storage, any memory, any link addresses.\<close>

definition kernel_zero :: "mem \<Rightarrow> u32 \<Rightarrow> u32 \<Rightarrow> kernel" where
  "kernel_zero m pa da = \<lparr>ram = m, memmng = mem_mng_zero, taskmng = task_mng_zero,
     msgmng = msg_mng_zero, drvmng = drv_mng_zero, syscallvec = replicate SYSCALLNUM None,
     navilnux_current = NoTCB, navilnux_next = NoTCB, dummyTCB = task_zero,
     navilnux_current_index = 0, navilnux_time_tick = 0, console = [],
     pool_addr = pa, dummy_addr = da\<rparr>"

lemma print_tasks_console: "\<exists>c. print_tasks ts i k = k\<lparr>console := c\<rparr>"
proof (induction ts arbitrary: i k)
  case Nil
  then show ?case by (auto intro: exI [of _ "console k"])
next
  case (Cons t ts)
  obtain c where "print_tasks ts (i + 1) (k_printf (''TCB: TASK%d - init PC(%p)'' @ TAB # ''init SP(%p)'' @ [NL])
      [i + 1, context_pc t, context_sp t] k) = (k_printf (''TCB: TASK%d - init PC(%p)'' @ TAB # ''init SP(%p)'' @ [NL])
      [i + 1, context_pc t, context_sp t] k)\<lparr>console := c\<rparr>" using Cons.IH by blast
  then show ?case by (simp add: k_printf_def) blast
qed

text \<open>What the rest of the system may assume of a kernel that has been started.\<close>

definition kernel_inv :: "kernel \<Rightarrow> bool" where
  "kernel_inv k \<longleftrightarrow> sched_ok k \<and>
     ((\<exists>i < ntasks k. runs i k \<and> navilnux_next k = PoolTCB (int i)) \<or>
      (navilnux_current k = DummyTCB \<and> navilnux_current_index k = -1 \<and> navilnux_next k = PoolTCB 0)) \<and>
     length (free_msg_pool (msgmng k)) = nat MAXMSG \<and>
     mg_itc_send (msgmng k) \<noteq> None \<and> mg_itc_get (msgmng k) \<noteq> None \<and> mg_sem_p (msgmng k) \<noteq> None \<and>
     mg_sem_v (msgmng k) \<noteq> None \<and> mg_mutex_wait (msgmng k) \<noteq> None \<and>
     mg_mutex_release (msgmng k) \<noteq> None \<and>
     mm_malloc (memmng k) \<noteq> None \<and> mm_free (memmng k) \<noteq> None \<and>
     syscallvec k = syscallvec (syscall_init (kernel_zero (\<lambda>_. 0) 0 0)) \<and>
     drvmng k = drv_mng_zero"

lemma syscall_init_vec: "length (syscallvec k) = SYSCALLNUM \<Longrightarrow> syscallvec k = replicate SYSCALLNUM None \<Longrightarrow>
   syscallvec (syscall_init k) = syscallvec (syscall_init (kernel_zero (\<lambda>_. 0) 0 0))"
  by (simp add: syscall_init_def kernel_zero_def)

lemma kernel_init_create:
  "fst (navilnux_init b (kernel_zero m pa da, h)) =
     (syscall_init (kernel_zero m pa da))\<lparr>memmng := mem_init mem_mng_zero,
        taskmng := task_init task_mng_zero, msgmng := msg_init msg_mng_zero\<rparr>"
  by (simp add: navilnux_init_def kernel_zero_def syscall_init_def Let_def)

lemma kernel_boots:
  "\<exists>k h'. kernel_main b f (kernel_zero m pa da, h) = Inr (0, k, h') \<and> kernel_inv k \<and>
     ntasks k = 1 \<and> navilnux_current k = DummyTCB \<and> task_ctx k 0 =
       \<lparr>u_cpsr = STARTUSRCPSR, u_regs = replicate CONTEXTNUM 0, u_sp = stack_top 0, u_lr = 0, u_pc = f\<rparr>"
proof -
  let ?tm = "task_set_up 0 f (task_init task_mng_zero)" and ?mm = "stack_taken 0 (mem_init mem_mng_zero)"
  obtain k0 h0 where i: "navilnux_init b (kernel_zero m pa da, h) = (k0, h0)" by fastforce
  then have k0: "k0 = (syscall_init (kernel_zero m pa da))\<lparr>memmng := mem_init mem_mng_zero,
        taskmng := task_init task_mng_zero, msgmng := msg_init msg_mng_zero\<rparr>"
    using kernel_init_create [of b m pa da h] by simp
  have l: "length (free_task_pool task_mng_zero) = nat MAXTASKNUM" "length (free_mem_pool mem_mng_zero) = MAXMEMBLK"
    by (simp_all add: task_mng_zero_def mem_mng_zero_def)
  have "task_create f (task_init task_mng_zero) (mem_init mem_mng_zero) = Inr (0, ?tm, ?mm)"
    using tasks_ok_create(1) [OF tasks_ok_init [OF l], of f] by (simp add: MAXTASKNUM_def)
  moreover have "tm_create (task_init task_mng_zero) = Some Fn_task_create" by (simp add: task_init_def)
  ultimately have u: "navilnux_user f k0 = Inr (k0\<lparr>taskmng := ?tm, memmng := ?mm\<rparr>)"
    by (simp add: navilnux_user_def k_task_create_def k0)
  let ?k2 = "k0\<lparr>taskmng := ?tm, memmng := ?mm, navilnux_current := DummyTCB,
      navilnux_next := PoolTCB 0, navilnux_current_index := -1\<rparr>"
  have tm: "max_task_id ?tm = 0" "length (free_task_pool ?tm) = nat MAXTASKNUM"
    using l by (simp_all add: task_set_up_def task_init_def)
  then have s: "sched_init (k0\<lparr>taskmng := ?tm, memmng := ?mm\<rparr>) = (0, ?k2)" by (simp add: sched_init_def)
  obtain c where c: "print_tasks (take 1 (free_task_pool ?tm)) 0 ?k2 = ?k2\<lparr>console := c\<rparr>"
    using print_tasks_console by blast
  let ?k = "k_printf (''REAL function TASK1 : %p'' @ [NL]) [f] (?k2\<lparr>console := c\<rparr>)"
  have "kernel_main b f (kernel_zero m pa da, h) = Inr (0, ?k, h0)"
    using tm c by (simp add: kernel_main_def i u s MAXTASKNUM_def)
  moreover have "kernel_inv ?k"
    using tm by (simp add: kernel_inv_def sched_ok_def k0 k_printf_def MAXTASKNUM_def msg_init_def
      stack_taken_def mem_init_def syscall_init_def kernel_zero_def)
  moreover have "ntasks ?k = 1" "navilnux_current ?k = DummyTCB" using tm by (simp_all add: ntasks_def k_printf_def)
  moreover have "task_ctx ?k 0 = \<lparr>u_cpsr = STARTUSRCPSR, u_regs = replicate CONTEXTNUM 0, u_sp = stack_top 0, u_lr = 0, u_pc = f\<rparr>"
    by (simp add: task_ctx_def k_printf_def task_set_up_def task_init_def task_mng_zero_def
      MAXTASKNUM_def task_zero_def)
  ultimately show ?thesis by blast
qed

text \<open>The first timer interrupt after the boot starts the first task at its entry point.\<close>

lemma first_irq:
  assumes "sched_ok k" and "navilnux_current k = DummyTCB" and "navilnux_current_index k = -1"
    and "timer_pending b"
  shows "\<exists>k' h'. irq_handler b uc (k, h) = Inr (task_ctx k 0, k', h') \<and> runs 0 k' \<and>
     ntasks k' = ntasks k \<and> task_ctx k' = task_ctx k \<and> navilnux_next k' = PoolTCB 0"
proof -
  let ?k1 = "tcb_put DummyTCB ((dummyTCB k)\<lparr>context_spsr := u_cpsr uc, context_regs := u_regs uc,
         context_sp := u_sp uc, context_lr := u_lr uc, context_pc := u_pc uc\<rparr>) k"
  have k1: "save_context uc k = Inr ?k1"
    using assms(2) by (simp add: save_context_def tcb_get_def)
  obtain icip h1 where icip: "bus_rd b ICIP h = (icip, h1)" by fastforce
  then have pend: "icip AND push_bit 27 1 \<noteq> 0"
    using assms(4) by (metis fst_conv timer_pending_def)
  obtain oscr h3 where oscr: "bus_rd b OSCR (bus_wr b OSSR OSSR_M1 h1) = (oscr, h3)" by fastforce
  let ?k2 = "?k1\<lparr>navilnux_time_tick := navilnux_time_tick k + 1\<rparr>"
  have k2: "sched_ok ?k2" "ntasks ?k2 = ntasks k" "task_ctx ?k2 = task_ctx k"
    "navilnux_current_index ?k2 = -1" "navilnux_time_tick ?k1 = navilnux_time_tick k"
    using assms by (simp_all add: tcb_put_def sched_ok_def ntasks_def task_ctx_def fun_eq_iff)
  have n: "0 < ntasks k" "wrap32 (max_task_id (taskmng ?k2) + 1) = int (ntasks k)"
    using assms(1) ntasks_pos [OF assms(1)] by (auto simp: tcb_put_def sched_ok_def ntasks_def MAXTASKNUM_def)
  have "scheduler ?k2 = Inr (at_task 0 ?k2)"
    using n k2(4) by (simp add: scheduler_def at_task_def Let_def)
  then have "irq_handler b uc (k, h) = Inr (task_ctx ?k2 0, at_task 0 ?k2, bus_wr b OSMR1 (oscr + 3686400) h3)"
    using k1 icip oscr pend load_context_at [OF k2(1), of 0] n(1) k2(2,5)
    by (simp add: irq_handler_def irqHandler_def)
  moreover have "runs 0 (at_task 0 ?k2)" using k2 n(1) by (auto intro!: runs_at_task)
  ultimately show ?thesis using k2
    by (intro exI [of _ "at_task 0 ?k2"] exI [of _ "bus_wr b OSMR1 (oscr + 3686400) h3"]) simp
qed


section \<open>The running system\<close>

text \<open>
  One step of the machine once interrupts are on: user code (any change of the context and of
  memory; the kernel's own tables are not in \<open>ram\<close>), a system call, or an interrupt.
\<close>

type_synonym 'h machine = "ucontext \<times> kernel \<times> 'h"

inductive kstep :: "(u32 \<Rightarrow> fops) \<Rightarrow> 'h bus \<Rightarrow> 'h machine \<Rightarrow> 'h machine \<Rightarrow> bool" for drivers b where
  user: "kstep drivers b (uc, k, h) (uc', k\<lparr>ram := m\<rparr>, h)"
| swi: "swi_handler drivers n uc k = Inr (uc', k') \<Longrightarrow> kstep drivers b (uc, k, h) (uc', k', h)"
| irq: "irq_handler b uc (k, h) = Inr s' \<Longrightarrow> kstep drivers b (uc, k, h) s'"

inductive_cases kstep_cases: "kstep drivers b (uc, k, h) (uc', k', h')"

inductive reachable :: "(u32 \<Rightarrow> fops) \<Rightarrow> 'h bus \<Rightarrow> 'h machine \<Rightarrow> bool" for drivers b where
  boot: "kernel_main b f (kernel_zero m pa da, h0) = Inr (0, k, h) \<Longrightarrow> reachable drivers b (uc, k, h)"
| step: "reachable drivers b s \<Longrightarrow> kstep drivers b s s' \<Longrightarrow> reachable drivers b s'"

text \<open>Changes that do not concern the invariant.\<close>

lemma kernel_inv_simps [simp]:
  "kernel_inv (k\<lparr>ram := m\<rparr>) = kernel_inv k"
  "kernel_inv (k_printf fmt args k) = kernel_inv k"
  "kernel_inv (k\<lparr>navilnux_time_tick := t\<rparr>) = kernel_inv k"
  "kernel_inv (k\<lparr>memmng := (memmng k)\<lparr>used_end := u\<rparr>\<rparr>) = kernel_inv k"
  by (simp_all add: kernel_inv_def k_printf_def runs_def sched_ok_def ntasks_def)

lemma kernel_inv_msg:
  "kernel_inv k \<Longrightarrow> length p = nat MAXMSG \<Longrightarrow> kernel_inv (k\<lparr>msgmng := (msgmng k)\<lparr>free_msg_pool := p\<rparr>\<rparr>)"
  by (auto simp: kernel_inv_def runs_def sched_ok_def ntasks_def)

lemma msg_ops_frame:
  "\<exists>p. snd (msg_itc_send i d mg) = mg\<lparr>free_msg_pool := p\<rparr> \<and> length p = length (free_msg_pool mg)"
  "\<exists>p. fst (snd (msg_itc_get i mg)) = mg\<lparr>free_msg_pool := p\<rparr> \<and> length p = length (free_msg_pool mg)"
  "\<exists>p. snd (msg_sem_p i mg) = mg\<lparr>free_msg_pool := p\<rparr> \<and> length p = length (free_msg_pool mg)"
  "\<exists>p. snd (msg_sem_v i mg) = mg\<lparr>free_msg_pool := p\<rparr> \<and> length p = length (free_msg_pool mg)"
  "\<exists>p. snd (msg_mutex_wait c i mg) = mg\<lparr>free_msg_pool := p\<rparr> \<and> length p = length (free_msg_pool mg)"
  "\<exists>p. snd (msg_mutex_release c i mg) = mg\<lparr>free_msg_pool := p\<rparr> \<and> length p = length (free_msg_pool mg)"
proof -
  have same: "\<exists>p. mg = mg\<lparr>free_msg_pool := p\<rparr> \<and> length p = length (free_msg_pool mg)"
    by (intro exI [of _ "free_msg_pool mg"]) simp
  have set: "\<exists>p. set_msg_cell mg n c = mg\<lparr>free_msg_pool := p\<rparr> \<and> length p = length (free_msg_pool mg)" for n c
    by (intro exI [of _ "(free_msg_pool mg)[nat n := c]"]) (simp add: set_msg_cell_def)
  show "\<exists>p. snd (msg_itc_send i d mg) = mg\<lparr>free_msg_pool := p\<rparr> \<and> length p = length (free_msg_pool mg)"
    "\<exists>p. fst (snd (msg_itc_get i mg)) = mg\<lparr>free_msg_pool := p\<rparr> \<and> length p = length (free_msg_pool mg)"
    "\<exists>p. snd (msg_sem_p i mg) = mg\<lparr>free_msg_pool := p\<rparr> \<and> length p = length (free_msg_pool mg)"
    "\<exists>p. snd (msg_sem_v i mg) = mg\<lparr>free_msg_pool := p\<rparr> \<and> length p = length (free_msg_pool mg)"
    "\<exists>p. snd (msg_mutex_wait c i mg) = mg\<lparr>free_msg_pool := p\<rparr> \<and> length p = length (free_msg_pool mg)"
    "\<exists>p. snd (msg_mutex_release c i mg) = mg\<lparr>free_msg_pool := p\<rparr> \<and> length p = length (free_msg_pool mg)"
    unfolding msg_ops Let_def using same set by (auto split: if_splits)
qed

lemma lift_msg_ok:
  assumes "kernel_inv k" and "p \<noteq> None"
    and "\<exists>q. snd (f (msgmng k)) = (msgmng k)\<lparr>free_msg_pool := q\<rparr> \<and> length q = length (free_msg_pool (msgmng k))"
  shows "\<exists>r k'. lift_msg p f k = Inr (r, k') \<and> kernel_inv k'"
proof -
  obtain r mg where f: "f (msgmng k) = (r, mg)" by fastforce
  with assms(3) obtain q where q: "mg = (msgmng k)\<lparr>free_msg_pool := q\<rparr>" "length q = length (free_msg_pool (msgmng k))"
    by auto
  from assms(1) have "length q = nat MAXMSG" using q(2) by (simp add: kernel_inv_def)
  from kernel_inv_msg [OF assms(1) this] f q show ?thesis
    using assms(2) by (simp add: lift_msg_def ret_int_def)
qed

lemma mem_malloc_frame: "mem_malloc sz mm m = Some (a, mm', m') \<Longrightarrow> \<exists>u. mm' = mm\<lparr>used_end := u\<rparr>"
proof -
  have "\<exists>u. mm = mm\<lparr>used_end := u\<rparr>" by (intro exI [of _ "used_end mm"]) simp
  then show "mem_malloc sz mm m = Some (a, mm', m') \<Longrightarrow> \<exists>u. mm' = mm\<lparr>used_end := u\<rparr>"
    by (auto simp: mem_malloc_def Let_def split: option.splits if_splits)
qed

lemma sys_vec:
  assumes "kernel_inv k"
  shows "length (syscallvec k) = 255"
    and "n < 14 \<Longrightarrow> syscallvec k ! n = Some (snd (syscall_numbers ! n))"
    and "14 \<le> n \<Longrightarrow> n < 255 \<Longrightarrow> syscallvec k ! n = None"
proof -
  let ?v = "foldl (\<lambda>v (n, f). v[n := Some f]) (replicate SYSCALLNUM None) syscall_numbers"
  from assms have v: "syscallvec k = ?v" by (simp add: kernel_inv_def syscall_init_def kernel_zero_def)
  show "length (syscallvec k) = 255" unfolding v by (simp add: syscall_numbers_def SYSCALLNUM_def)
  show "syscallvec k ! n = Some (snd (syscall_numbers ! n))" if "n < 14"
  proof -
    from that have "n \<in> {0,1,2,3,4,5,6,7,8,9,10,11,12,13}"
      unfolding insert_iff empty_iff by presburger
    then show ?thesis unfolding v by (auto simp: syscall_numbers_def SYSCALLNUM_def)
  qed
  show "syscallvec k ! n = None" if "14 \<le> n" "n < 255"
    unfolding v using that by (simp add: syscall_numbers_def SYSCALLNUM_def)
qed

lemma sys_call_ok:
  assumes inv: "kernel_inv k" and f: "f \<in> {Sys_mysyscall, Sys_mysyscall4, Sys_itcsend, Sys_itcget,
    Sys_semp, Sys_semv, Sys_mutexwait, Sys_mutexrelease, Sys_malloc, Sys_free}"
  shows "(\<exists>r k'. sys_call drivers f r0 r1 r2 r3 k = Inr (r, k') \<and> kernel_inv k') \<or>
    (f = Sys_malloc \<and> sys_call drivers f r0 r1 r2 r3 k = Inl NoReturn)"
proof -
  have ptrs: "mg_itc_send (msgmng k) \<noteq> None" "mg_itc_get (msgmng k) \<noteq> None" "mg_sem_p (msgmng k) \<noteq> None"
    "mg_sem_v (msgmng k) \<noteq> None" "mg_mutex_wait (msgmng k) \<noteq> None" "mg_mutex_release (msgmng k) \<noteq> None"
    "mm_malloc (memmng k) \<noteq> None" "mm_free (memmng k) \<noteq> None" "length (free_msg_pool (msgmng k)) = nat MAXMSG"
    using inv by (simp_all add: kernel_inv_def)
  have lift: "\<exists>r k'. lift_msg (mg_itc_send (msgmng k)) (msg_itc_send i d) k = Inr (r, k') \<and> kernel_inv k'"
    "\<exists>r k'. lift_msg (mg_sem_p (msgmng k)) (msg_sem_p i) k = Inr (r, k') \<and> kernel_inv k'"
    "\<exists>r k'. lift_msg (mg_sem_v (msgmng k)) (msg_sem_v i) k = Inr (r, k') \<and> kernel_inv k'"
    "\<exists>r k'. lift_msg (mg_mutex_wait (msgmng k)) (msg_mutex_wait c i) k = Inr (r, k') \<and> kernel_inv k'"
    "\<exists>r k'. lift_msg (mg_mutex_release (msgmng k)) (msg_mutex_release c i) k = Inr (r, k') \<and> kernel_inv k'"
    for i d c by (rule lift_msg_ok [OF inv]; use ptrs msg_ops_frame in fast)+
  show ?thesis
  proof (cases f)
    case Sys_itcget
    obtain r mg d where g: "msg_itc_get (sint r0) (msgmng k) = (r, mg, d)" by (cases "msg_itc_get (sint r0) (msgmng k)") auto
    from msg_ops_frame(2) [of "sint r0" "msgmng k"] g obtain p where
      "mg = (msgmng k)\<lparr>free_msg_pool := p\<rparr>" "length p = nat MAXMSG" using ptrs(9) by auto
    moreover have "kernel_inv (k\<lparr>ram := m\<rparr>)" for m using inv by simp
    ultimately have i: "kernel_inv (k\<lparr>ram := m, msgmng := mg\<rparr>)" for m
      using kernel_inv_msg [of "k\<lparr>ram := m\<rparr>" p] by simp
    from i [of "ram k"] have "kernel_inv (k\<lparr>msgmng := mg\<rparr>)" by simp
    with i g ptrs(2) Sys_itcget show ?thesis by (cases d) (simp_all add: sys_itcget_def ret_int_def)
  next
    case Sys_malloc
    show ?thesis
    proof (cases "mem_malloc r0 (memmng k) (ram k)")
      case None
      with Sys_malloc ptrs show ?thesis by (simp add: sys_malloc_def)
    next
      case (Some x)
      obtain a mm m where x: "x = (a, mm, m)" by (cases x)
      with mem_malloc_frame [of r0 "memmng k" "ram k"] Some obtain u where "mm = (memmng k)\<lparr>used_end := u\<rparr>" by blast
      then have "kernel_inv (k\<lparr>memmng := mm\<rparr>)" using inv by simp
      with Some x Sys_malloc ptrs show ?thesis by (simp add: sys_malloc_def)
    qed
  qed (use f inv ptrs in \<open>simp_all add: lift sys_mysyscall_def sys_mysyscall4_def
      sys_itcsend_def sys_semp_def sys_semv_def sys_mutexwait_def sys_mutexrelease_def sys_free_def
      ret_int_def case_prod_beta\<close>)
qed

lemma syscall_numbers_nth [simp]:
  "snd (syscall_numbers ! 0) = Sys_mysyscall" "snd (syscall_numbers ! 1) = Sys_mysyscall4"
  "snd (syscall_numbers ! 2) = Sys_itcsend" "snd (syscall_numbers ! 3) = Sys_itcget"
  "snd (syscall_numbers ! 4) = Sys_semp" "snd (syscall_numbers ! 5) = Sys_semv"
  "snd (syscall_numbers ! 6) = Sys_mutexwait" "snd (syscall_numbers ! 7) = Sys_mutexrelease"
  "snd (syscall_numbers ! 8) = Sys_malloc" "snd (syscall_numbers ! 9) = Sys_free"
  "snd (syscall_numbers ! 10) = Sys_open" "snd (syscall_numbers ! 11) = Sys_close"
  "snd (syscall_numbers ! 12) = Sys_read" "snd (syscall_numbers ! 13) = Sys_write"
  by (simp_all add: syscall_numbers_def)

lemma syscall_dispatch_ok:
  assumes "kernel_inv k" and "n \<le> 9"
  shows "(\<exists>r k'. syscall_dispatch drivers n r0 r1 r2 r3 k = Inr (r, k') \<and> kernel_inv k') \<or>
    (n = 8 \<and> syscall_dispatch drivers n r0 r1 r2 r3 k = Inl NoReturn)"
proof -
  have d: "syscall_dispatch drivers n r0 r1 r2 r3 k = sys_call drivers (snd (syscall_numbers ! n)) r0 r1 r2 r3 k"
    using sys_vec [OF assms(1)] assms(2) by (simp add: syscall_dispatch_def)
  from assms(2) have "n \<in> {0,1,2,3,4,5,6,7,8,9}" unfolding insert_iff empty_iff by presburger
  then show ?thesis unfolding d
    using sys_call_ok [OF assms(1), of "snd (syscall_numbers ! n)" drivers r0 r1 r2 r3]
    by (elim insertE emptyE) (simp_all del: sys_call.simps One_nat_def)
qed

text \<open>The driver calls never return a value from a driver: the table was never set up.\<close>

lemma drv_checks_zero:
  assumes "drvmng k = drv_mng_zero"
  shows "drv_checks d k act = (if d < 0 \<or> 100 < d then ret_int (-1) k else if d = 100 then Inl OutOfBounds else act)"
  using assms by (auto simp: drv_checks_def in_array_def DRVLIMIT_def)

lemma driver_call_faults:
  assumes "drvmng k = drv_mng_zero" and "0 \<le> d" and "d \<le> 100"
  shows "sys_open drivers d mode k = Inl (if d = 100 then OutOfBounds else NullCall)"
    and "sys_close drivers d k = Inl (if d = 100 then OutOfBounds else NullCall)"
    and "sys_read drivers d buf sz k = Inl (if d = 100 then OutOfBounds else NullCall)"
    and "sys_write drivers d buf sz k = Inl (if d = 100 then OutOfBounds else NullCall)"
  using assms drv_zero_slots(2) [of d]
  by (simp_all add: sys_open_def sys_close_def sys_read_def sys_write_def drv_checks_zero
      drv_op_def add_usecount_def DRVLIMIT_def drv_zero_slots(1) [unfolded DRVLIMIT_def])

lemma driver_call_returns:
  assumes "kernel_inv k" and "n \<in> {10, 11, 12, 13}" and "syscall_dispatch drivers n r0 r1 r2 r3 k = Inr (r, k')"
  shows "k' = k"
proof -
  have z: "drvmng k = drv_mng_zero" using assms(1) by (simp add: kernel_inv_def)
  have d: "syscall_dispatch drivers n r0 r1 r2 r3 k = sys_call drivers (snd (syscall_numbers ! n)) r0 r1 r2 r3 k"
    using sys_vec [OF assms(1)] assms(2) by (auto simp add: syscall_dispatch_def)
  show ?thesis
  proof (cases "0 \<le> sint r0 \<and> sint r0 \<le> 100")
    case True
    with driver_call_faults [OF z] assms(2,3) d show ?thesis by auto
  next
    case False
    with assms(2,3) d show ?thesis
      by (auto simp: sys_open_def sys_close_def sys_read_def sys_write_def drv_checks_zero [OF z] ret_int_def)
  qed
qed

lemma syscall_dispatch_inv:
  assumes "kernel_inv k" and "n \<noteq> 255" and "syscall_dispatch drivers n r0 r1 r2 r3 k = Inr (r, k')"
  shows "kernel_inv k'"
proof (cases "n \<le> 9")
  case True
  with syscall_dispatch_ok [OF assms(1) True, of drivers r0 r1 r2 r3] assms(3) show ?thesis by auto
next
  case False
  show ?thesis
  proof (cases "n < 14")
    case True
    with False have "n \<in> {10, 11, 12, 13}" unfolding insert_iff empty_iff by presburger
    with driver_call_returns [OF assms(1) this assms(3)] assms(1) show ?thesis by simp
  next
    case False
    with sys_vec [OF assms(1)] assms(2,3) show ?thesis
      by (cases "n < 255") (simp_all add: syscall_dispatch_def)
  qed
qed


section \<open>Every reachable state keeps the invariant\<close>

lemma save_context_inv:
  assumes "kernel_inv k"
  shows "\<exists>k'. save_context uc k = Inr k' \<and> kernel_inv k' \<and>
    navilnux_current_index k' = navilnux_current_index k \<and> ntasks k' = ntasks k"
proof (cases "navilnux_current k = DummyTCB")
  case True
  with assms show ?thesis
    by (auto simp: save_context_def tcb_get_def tcb_put_def kernel_inv_def runs_def sched_ok_def ntasks_def)
next
  case False
  with assms obtain i where r: "runs i k" by (auto simp: kernel_inv_def)
  then have i: "i < length (free_task_pool (taskmng k))" "navilnux_current k = PoolTCB (int i)"
    using ntasks_length by (auto simp: runs_def)
  then show ?thesis using assms
    by (auto simp: save_context_def tcb_get_def tcb_put_def in_array_def kernel_inv_def runs_def
      sched_ok_def ntasks_def)
qed

lemma scheduler_inv:
  assumes "kernel_inv k"
  shows "\<exists>i < ntasks k. scheduler k = Inr (at_task i k) \<and> kernel_inv (at_task i k) \<and>
    load_context (at_task i k) = Inr (task_ctx k i, at_task i k)"
proof -
  have s: "sched_ok k" using assms by (simp add: kernel_inv_def)
  note n = ntasks_pos [OF s]
  have inv: "kernel_inv (at_task i k)" if "i < ntasks k" for i
    using that assms by (auto simp: kernel_inv_def at_task_def runs_def sched_ok_def ntasks_def)
  have "\<exists>i < ntasks k. scheduler k = Inr (at_task i k)"
  proof (cases "navilnux_current k = DummyTCB")
    case True
    then have "navilnux_current_index k = -1" using assms by (auto simp: kernel_inv_def runs_def)
    moreover have "wrap32 (max_task_id (taskmng k) + 1) = int (ntasks k)"
      using s by (auto simp: sched_ok_def ntasks_def MAXTASKNUM_def)
    ultimately have "scheduler k = Inr (at_task 0 k)"
      using n by (simp add: scheduler_def at_task_def Let_def)
    with n show ?thesis by blast
  next
    case False
    with assms obtain i where "runs i k" by (auto simp: kernel_inv_def)
    then show ?thesis using scheduler_next [OF s, of i] n
      by (intro exI [of _ "Suc i mod ntasks k"]) (simp add: runs_def)
  qed
  with inv load_context_at [OF s] show ?thesis by blast
qed

lemma irq_handler_inv:
  assumes "kernel_inv k"
  shows "\<exists>uc' k' h'. irq_handler b uc (k, h) = Inr (uc', k', h') \<and> kernel_inv k'"
proof -
  from save_context_inv [OF assms, of uc] obtain k1 where k1: "save_context uc k = Inr k1" "kernel_inv k1"
    by blast
  obtain icip h1 where icip: "bus_rd b ICIP h = (icip, h1)" by fastforce
  show ?thesis
  proof (cases "icip AND push_bit 27 1 = 0")
    case True
    have "\<exists>r. load_context k1 = Inr (r, k1)"
      using k1(2) ntasks_length [of k1] ntasks_pos [of k1]
      by (auto simp: kernel_inv_def load_context_def tcb_get_def in_array_def runs_def)
    with True k1 icip show ?thesis by (auto simp: irq_handler_def irqHandler_def)
  next
    case False
    obtain oscr h3 where oscr: "bus_rd b OSCR (bus_wr b OSSR OSSR_M1 h1) = (oscr, h3)" by fastforce
    from scheduler_inv [of "k1\<lparr>navilnux_time_tick := navilnux_time_tick k1 + 1\<rparr>"] k1(2) obtain i where
      "scheduler (k1\<lparr>navilnux_time_tick := navilnux_time_tick k1 + 1\<rparr>) =
         Inr (at_task i (k1\<lparr>navilnux_time_tick := navilnux_time_tick k1 + 1\<rparr>))"
      "kernel_inv (at_task i (k1\<lparr>navilnux_time_tick := navilnux_time_tick k1 + 1\<rparr>))"
      "load_context (at_task i (k1\<lparr>navilnux_time_tick := navilnux_time_tick k1 + 1\<rparr>)) =
         Inr (task_ctx (k1\<lparr>navilnux_time_tick := navilnux_time_tick k1 + 1\<rparr>) i,
              at_task i (k1\<lparr>navilnux_time_tick := navilnux_time_tick k1 + 1\<rparr>))"
      by auto
    with False k1 icip oscr show ?thesis by (simp add: irq_handler_def irqHandler_def)
  qed
qed

lemma swi_handler_sched:
  assumes "kernel_inv k"
  shows "\<exists>uc' k'. swi_handler drivers 255 uc k = Inr (uc', k') \<and> kernel_inv k'"
proof -
  from save_context_inv [OF assms, of "uc\<lparr>u_regs := (u_regs uc)[10 := of_nat 255]\<rparr>"] obtain k1 where
    k1: "save_context (uc\<lparr>u_regs := (u_regs uc)[10 := of_nat 255]\<rparr>) k = Inr k1" "kernel_inv k1" by blast
  from scheduler_inv [OF k1(2)] k1 show ?thesis
    by (auto simp: swi_handler_def SYS_CALLSCHED_def SYSCALLNUM_def)
qed

lemma swi_handler_inv:
  assumes "kernel_inv k" and "swi_handler drivers n uc k = Inr (uc', k')"
  shows "kernel_inv k'"
proof (cases "n = 255")
  case True
  with swi_handler_sched [OF assms(1), of drivers uc] assms(2) show ?thesis by auto
next
  case False
  with assms(2) obtain r where "syscall_dispatch drivers n (u_regs uc ! 0) (u_regs uc ! 1) (u_regs uc ! 2)
      (u_regs uc ! 3) k = Inr (r, k')"
    by (auto simp: swi_handler_def SYS_CALLSCHED_def SYSCALLNUM_def fbind_Inr)
  with syscall_dispatch_inv [OF assms(1) False] show ?thesis by blast
qed

lemma kstep_inv: "kstep drivers b (uc, k, h) (uc', k', h') \<Longrightarrow> kernel_inv k \<Longrightarrow> kernel_inv k'"
proof (erule kstep_cases)
  fix n
  assume "swi_handler drivers n uc k = Inr (uc', k')" "kernel_inv k"
  then show "kernel_inv k'" using swi_handler_inv by blast
next
  assume "irq_handler b uc (k, h) = Inr (uc', k', h')" "kernel_inv k"
  then show "kernel_inv k'" using irq_handler_inv [of k b uc h] by auto
qed simp

lemma reachable_inv: "reachable drivers b s \<Longrightarrow> kernel_inv (fst (snd s))"
proof (induction rule: reachable.induct)
  case (boot f m pa da h0 k h uc)
  with kernel_boots [of b f m pa da h0] show ?case by auto
next
  case (step s s')
  obtain uc k h uc' k' h' where "s = (uc, k, h)" "s' = (uc', k', h')" by (cases s; cases s') auto
  with step kstep_inv show ?case by auto
qed

section \<open>Properties\<close>

text \<open>A concrete machine: registers that read as memory, with the timer interrupt pending.\<close>

definition pending_bus :: "unit bus" where
  "pending_bus = \<lparr>bus_rd = (\<lambda>a h. (if a = ICIP then push_bit 27 1 else 0, h)), bus_wr = (\<lambda>a v h. h), bus_idle = (\<lambda>h. h)\<rparr>"

text \<open>A system without drivers: every operation table is empty.\<close>

definition no_drivers :: "u32 \<Rightarrow> fops" where
  "no_drivers p = \<lparr>fop_open = None, fop_read = None, fop_write = None, fop_close = None\<rparr>"

lemma timer_pending_bus: "timer_pending pending_bus"
  by (simp add: timer_pending_def pending_bus_def)

text \<open>
  C9: Preemption is transparent: with \<open>n\<close> tasks, whatever contexts the others have when they
  are interrupted, each task is resumed \<open>n\<close> timer interrupts later with exactly the registers,
  stack, program counter and status word it was interrupted with.
\<close>
theorem preemption_transparent:
  assumes "runs i k" and "timer_pending b" and "j + ntasks k \<le> length ucs"
  shows "\<exists>rs k' h'. irq_seq b ucs (k, h) = Inr (rs, k', h') \<and> rs ! (j + ntasks k - 1) = ucs ! j"
proof -
  from assms(1) have "0 < ntasks k" by (auto simp: runs_def)
  with irq_seq_returns [OF assms(1,2), of ucs h] assms(3) show ?thesis by fastforce
qed

theorem preemption_transparent_witness:
  "\<exists>rs k' h'. irq_seq pending_bus [\<lparr>u_cpsr = 16, u_regs = replicate 13 7, u_sp = 1, u_lr = 2, u_pc = 3\<rparr>]
      (at_task 0 (kernel_zero (\<lambda>_. 0) 0 0), ()) = Inr (rs, k', h') \<and>
      rs ! 0 = \<lparr>u_cpsr = 16, u_regs = replicate 13 7, u_sp = 1, u_lr = 2, u_pc = 3\<rparr>"
proof -
  have z: "sched_ok (kernel_zero (\<lambda>_. 0) 0 0)" "ntasks (kernel_zero (\<lambda>_. 0) 0 0) = 1"
    by (simp_all add: kernel_zero_def sched_ok_def task_mng_zero_def MAXTASKNUM_def ntasks_def)
  then have "runs 0 (at_task 0 (kernel_zero (\<lambda>_. 0) 0 0))" by (simp add: runs_at_task)
  from preemption_transparent [OF this timer_pending_bus, of 0 "[\<lparr>u_cpsr = 16, u_regs = replicate 13 7, u_sp = 1, u_lr = 2, u_pc = 3\<rparr>]" "()"]
  show ?thesis by (simp add: z del: irq_seq.simps)
qed

text \<open>
  C10: Round robin: from task \<open>i\<close>, the \<open>j\<close>-th call of the scheduler selects task
  \<open>(i + j) mod n\<close>, so every task is selected once in every \<open>n\<close> calls.
\<close>
theorem scheduler_round_robin:
  assumes "runs i k" and "0 < j"
  shows "schedule_times j k = Inr (at_task ((i + j) mod ntasks k) k)"
  using schedule_times_round [OF assms(1), of "j - 1"] assms(2) by simp

theorem scheduler_round_robin_witness:
  "schedule_times 5 (at_task 1 ((kernel_zero (\<lambda>_. 0) 0 0)\<lparr>taskmng := task_mng_zero\<lparr>max_task_id := 2\<rparr>\<rparr>)) =
     Inr (at_task 0 ((kernel_zero (\<lambda>_. 0) 0 0)\<lparr>taskmng := task_mng_zero\<lparr>max_task_id := 2\<rparr>\<rparr>))"
proof -
  let ?k = "(kernel_zero (\<lambda>_. 0) 0 0)\<lparr>taskmng := task_mng_zero\<lparr>max_task_id := 2\<rparr>\<rparr>"
  have z: "sched_ok ?k" "ntasks ?k = 3"
    by (simp_all add: kernel_zero_def sched_ok_def task_mng_zero_def MAXTASKNUM_def ntasks_def)
  then have "runs 1 (at_task 1 ?k)" by (simp add: runs_at_task)
  from scheduler_round_robin [OF this, of 5] show ?thesis by (simp add: z)
qed

text \<open>
  From power-up \<open>main\<close> reaches its idle loop with the one user task created, and the first
  timer interrupt starts that task at its entry point, in user mode, on the first stack.
\<close>
theorem boot_starts_first_task:
  assumes "timer_pending b"
  shows "\<exists>k h1 k' h'. kernel_main b f (kernel_zero m pa da, h) = Inr (0, k, h1) \<and>
    irq_handler b uc (k, h1) = Inr (\<lparr>u_cpsr = STARTUSRCPSR, u_regs = replicate CONTEXTNUM 0,
      u_sp = 0xA04FFFFC, u_lr = 0, u_pc = f\<rparr>, k', h') \<and> runs 0 k'"
proof -
  have top: "stack_top 0 = 0xA04FFFFC" by (simp add: stack_top_def mem_consts)
  from kernel_boots [of b f m pa da h] obtain k h1 where
    k: "kernel_main b f (kernel_zero m pa da, h) = Inr (0, k, h1)" "kernel_inv k"
       "navilnux_current k = DummyTCB"
       "task_ctx k 0 = \<lparr>u_cpsr = STARTUSRCPSR, u_regs = replicate CONTEXTNUM 0, u_sp = stack_top 0, u_lr = 0, u_pc = f\<rparr>"
    by blast
  then have "sched_ok k" "navilnux_current_index k = -1" by (auto simp: kernel_inv_def runs_def)
  from first_irq [OF this(1) k(3) this(2) assms, of uc h1] k top show ?thesis by auto
qed

theorem boot_starts_first_task_witness:
  "\<exists>k h1 k' h'. kernel_main pending_bus 0x8000 (kernel_zero (\<lambda>_. 0) 0xA0010000 0xA0020000, ()) = Inr (0, k, h1) \<and>
    irq_handler pending_bus \<lparr>u_cpsr = 0, u_regs = [], u_sp = 0, u_lr = 0, u_pc = 0\<rparr> (k, h1) =
      Inr (\<lparr>u_cpsr = STARTUSRCPSR, u_regs = replicate CONTEXTNUM 0, u_sp = 0xA04FFFFC, u_lr = 0, u_pc = 0x8000\<rparr>, k', h') \<and>
    runs 0 k'"
  by (rule boot_starts_first_task [OF timer_pending_bus])

text \<open>
  C11: In every state the started system can reach, by any interleaving of user code, system calls
  and interrupts, no interrupt faults, and the system calls 0 to 9 and the scheduler call return,
  \<open>malloc\<close> being the one that may loop.
\<close>
theorem kernel_never_faults:
  assumes "reachable drivers b (uc, k, h)" and "n \<le> 9 \<or> n = 255"
  shows "(\<exists>uc' k' h'. irq_handler b uc (k, h) = Inr (uc', k', h')) \<and>
    ((\<exists>uc' k'. swi_handler drivers n uc k = Inr (uc', k')) \<or>
     (n = 8 \<and> swi_handler drivers n uc k = Inl NoReturn))"
proof -
  have inv: "kernel_inv k" using reachable_inv [OF assms(1)] by simp
  have "(\<exists>uc' k'. swi_handler drivers n uc k = Inr (uc', k')) \<or> (n = 8 \<and> swi_handler drivers n uc k = Inl NoReturn)"
  proof (cases "n = 255")
    case True
    with swi_handler_sched [OF inv] show ?thesis by blast
  next
    case False
    with assms(2) have "n \<le> 9" by simp
    from syscall_dispatch_ok [OF inv this, of drivers "u_regs uc ! 0" "u_regs uc ! 1" "u_regs uc ! 2" "u_regs uc ! 3"]
    show ?thesis using False by (auto simp: swi_handler_def SYS_CALLSCHED_def SYSCALLNUM_def)
  qed
  with irq_handler_inv [OF inv, of b uc h] show ?thesis by auto
qed

theorem kernel_never_faults_witness:
  "\<exists>k h uc' k'. reachable no_drivers pending_bus (\<lparr>u_cpsr = 0, u_regs = [1], u_sp = 0, u_lr = 0, u_pc = 0\<rparr>, k, h) \<and>
     swi_handler no_drivers 255 \<lparr>u_cpsr = 0, u_regs = [1], u_sp = 0, u_lr = 0, u_pc = 0\<rparr> k = Inr (uc', k')"
proof -
  let ?d = no_drivers and ?uc = "\<lparr>u_cpsr = 0, u_regs = [1], u_sp = 0, u_lr = 0, u_pc = 0\<rparr>"
  from kernel_boots [of pending_bus "0x8000" "\<lambda>_. 0" 0 0 "()"] obtain k h where
    "kernel_main pending_bus 0x8000 (kernel_zero (\<lambda>_. 0) 0 0, ()) = Inr (0, k, h)" by blast
  then have r: "reachable ?d pending_bus (?uc, k, h)" by (rule reachable.boot)
  from kernel_never_faults [OF r, of 255] r show ?thesis by auto
qed

text \<open>
  C12: The driver interface cannot be used: \<open>navilnux_init\<close> leaves out \<open>drv_init\<close>, so in
  every reachable state each slot looks taken, with a null operation table. A driver call on
  slots 0 to 99 jumps through the null pointer, one on slot 100 reads past the table, and
  registering a driver is refused.
\<close>
theorem driver_calls_dead:
  assumes "reachable drivers b (uc, k, h)" and "0 \<le> d" and "d \<le> 99"
  shows "sys_open drivers d mode k = Inl NullCall \<and> sys_read drivers d buf sz k = Inl NullCall \<and>
    sys_write drivers d buf sz k = Inl NullCall \<and> sys_close drivers d k = Inl NullCall \<and>
    sys_open drivers 100 mode k = Inl OutOfBounds \<and>
    drv_register_drv d name f (drvmng k) = Inr (-1, drvmng k)"
proof -
  have z: "drvmng k = drv_mng_zero" using reachable_inv [OF assms(1)] by (simp add: kernel_inv_def)
  have "drv_register_drv d name f (drvmng k) = Inr (-1, drvmng k)"
    using assms(2,3) drv_zero_slots(2) [of d] drv_zero_slots(1)
    by (simp add: drv_register_drv_def z in_array_def DRVLIMIT_def)
  with driver_call_faults [OF z, of d] driver_call_faults(1) [OF z, of 100] assms(2,3)
  show ?thesis by simp
qed

theorem driver_calls_dead_witness:
  "\<exists>k h. kernel_main pending_bus 0x8000 (kernel_zero (\<lambda>_. 0) 0 0, ()) = Inr (0, k, h) \<and>
     sys_open no_drivers 3 0 k = Inl NullCall"
proof -
  from kernel_boots [of pending_bus "0x8000" "\<lambda>_. 0" 0 0 "()"] obtain k h where
    b: "kernel_main pending_bus 0x8000 (kernel_zero (\<lambda>_. 0) 0 0, ()) = Inr (0, k, h)" by blast
  then have "reachable no_drivers pending_bus (\<lparr>u_cpsr = 0, u_regs = [1], u_sp = 0, u_lr = 0, u_pc = 0\<rparr>, k, h)"
    by (rule reachable.boot)
  from driver_calls_dead [OF this, of 3] b show ?thesis by auto
qed

text \<open>
  The scheduler call loses a register: a task that calls it while it is the only one comes
  back with everything as it was but \<open>r10\<close>, which holds the call number 255. The C compiler
  takes \<open>r10\<close> to survive a call.
\<close>
theorem call_scheduler_clobbers_r10:
  assumes "runs i k" and "ntasks k = 1" and "length (u_regs uc) = CONTEXTNUM"
  shows "\<exists>k'. swi_handler drivers SYS_CALLSCHED uc k = Inr (uc\<lparr>u_regs := (u_regs uc)[10 := 255]\<rparr>, k')"
proof -
  let ?uc = "uc\<lparr>u_regs := (u_regs uc)[10 := of_nat SYS_CALLSCHED]\<rparr>"
  from assms have i: "i = 0" by (auto simp: runs_def)
  from save_context_runs [OF assms(1), of ?uc] obtain k1 where
    k1: "save_context ?uc k = Inr k1" "runs i k1" "ntasks k1 = 1" "task_ctx k1 = (task_ctx k)(i := ?uc)"
    using assms(2) by auto
  then have "scheduler k1 = Inr (at_task 0 k1)" "sched_ok k1"
    using scheduler_next [of k1 0] i by (auto simp: runs_def)
  with k1 i load_context_at [of k1 0] show ?thesis
    by (simp add: swi_handler_def) (simp add: SYS_CALLSCHED_def SYSCALLNUM_def)
qed

theorem call_scheduler_clobbers_r10_witness:
  "\<exists>k'. swi_handler no_drivers SYS_CALLSCHED \<lparr>u_cpsr = 16, u_regs = replicate CONTEXTNUM 7, u_sp = 1, u_lr = 2, u_pc = 3\<rparr>
      (at_task 0 (kernel_zero (\<lambda>_. 0) 0 0)) =
     Inr (\<lparr>u_cpsr = 16, u_regs = [7,7,7,7,7,7,7,7,7,7,255,7,7], u_sp = 1, u_lr = 2, u_pc = 3\<rparr>, k')"
proof -
  have z: "sched_ok (kernel_zero (\<lambda>_. 0) 0 0)" "ntasks (kernel_zero (\<lambda>_. 0) 0 0) = 1"
    by (simp_all add: kernel_zero_def sched_ok_def task_mng_zero_def MAXTASKNUM_def ntasks_def)
  then have "runs 0 (at_task 0 (kernel_zero (\<lambda>_. 0) 0 0))" by (simp add: runs_at_task)
  from call_scheduler_clobbers_r10 [OF this, of "\<lparr>u_cpsr = 16, u_regs = replicate CONTEXTNUM 7, u_sp = 1, u_lr = 2, u_pc = 3\<rparr>" no_drivers]
  have "\<exists>k'. swi_handler no_drivers SYS_CALLSCHED \<lparr>u_cpsr = 16, u_regs = replicate CONTEXTNUM 7, u_sp = 1, u_lr = 2, u_pc = 3\<rparr>
      (at_task 0 (kernel_zero (\<lambda>_. 0) 0 0)) =
     Inr (\<lparr>u_cpsr = 16, u_regs = (replicate CONTEXTNUM 7)[10 := 255], u_sp = 1, u_lr = 2, u_pc = 3\<rparr>, k')"
    by (simp add: z)
  moreover have "(replicate CONTEXTNUM 7)[10 := 255] = [7,7,7,7,7,7,7,7,7,7,255 :: u32,7,7]"
    by (simp add: CONTEXTNUM_def eval_nat_numeral)
  ultimately show ?thesis by simp
qed

text \<open>
  A creation that fails still counts: after forty tasks, the forty-first creation returns -2
  but leaves the highest task number at 40, and when task 39 is interrupted the scheduler picks
  control block 40, outside the pool.
\<close>
theorem failed_create_breaks_scheduler:
  assumes "tasks_ok fs (taskmng k) (memmng k)" and "length fs = nat MAXTASKNUM"
    and "tm_create (taskmng k) \<noteq> None" and "navilnux_current_index k = 39" and "navilnux_current k = PoolTCB 39"
  shows "\<exists>k1. k_task_create f k = Inr (-2, k1) \<and> swi_handler drivers SYS_CALLSCHED uc k1 = Inl OutOfBounds"
proof -
  let ?k1 = "k\<lparr>taskmng := (taskmng k)\<lparr>max_task_id := 40\<rparr>\<rparr>"
  have "k_task_create f k = Inr (-2, ?k1)"
    using assms(3) tasks_full [OF assms(1,2)] by (simp add: k_task_create_def MAXTASKNUM_def)
  moreover have "length (free_task_pool (taskmng k)) = 40"
    using assms(1) by (simp add: tasks_ok_def tasks_ready_def MAXTASKNUM_def)
  then have "swi_handler drivers SYS_CALLSCHED uc ?k1 = Inl OutOfBounds"
    using assms(4,5)
    by (simp add: swi_handler_def save_context_def tcb_get_def tcb_put_def in_array_def scheduler_def
      load_context_def)
  ultimately show ?thesis by blast
qed

theorem failed_create_breaks_scheduler_witness:
  "\<exists>k k1. k_task_create 0x8000 k = Inr (-2, k1) \<and>
     swi_handler no_drivers SYS_CALLSCHED \<lparr>u_cpsr = 0, u_regs = replicate 13 0, u_sp = 0, u_lr = 0, u_pc = 0\<rparr> k1 = Inl OutOfBounds"
proof -
  have l: "length (free_task_pool task_mng_zero) = nat MAXTASKNUM" "length (free_mem_pool mem_mng_zero) = MAXMEMBLK"
    by (simp_all add: task_mng_zero_def mem_mng_zero_def)
  from create_all_ok [OF tasks_ok_init [OF l], of "replicate 40 0x8000"] obtain tm mm where
    ok: "tasks_ok (replicate 40 0x8000) tm mm" by (auto simp: MAXTASKNUM_def)
  then have ok': "tasks_ok (replicate 40 0x8000) (tm\<lparr>tm_create := Some Fn_task_create\<rparr>) mm"
    by (simp add: tasks_ok_def tasks_ready_def)
  let ?k = "(kernel_zero (\<lambda>_. 0) 0 0)\<lparr>taskmng := tm\<lparr>tm_create := Some Fn_task_create\<rparr>, memmng := mm,
     navilnux_current_index := 39, navilnux_current := PoolTCB 39\<rparr>"
  have "tasks_ok (replicate 40 0x8000) (taskmng ?k) (memmng ?k)" using ok' by simp
  from failed_create_breaks_scheduler [OF this] show ?thesis by (fastforce simp: MAXTASKNUM_def)
qed

end
