(* ===== verification/Kernel_Clib.thy ===== *)
theory Kernel_Clib
  imports Kernel_Sched
begin

text \<open>
  The user library: the traps of \<open>navilnux_lib.S\<close> and the calls of \<open>navilnux_clib.c\<close>. The
  blocking calls try, and while they are refused give up the processor. What the other tasks
  and the interrupts do between two attempts is the argument \<open>others\<close>, one change of the
  kernel's state per round.
\<close>

lemma fbind_cong [fundef_cong]:
  "r = r' \<Longrightarrow> (\<And>x. r' = Inr x \<Longrightarrow> f x = f' x) \<Longrightarrow> fbind r f = fbind r' f'"
  by (cases r') auto

section \<open>The traps\<close>

definition trap :: "(u32 \<Rightarrow> fops) \<Rightarrow> nat \<Rightarrow> u32 \<Rightarrow> u32 \<Rightarrow> u32 \<Rightarrow> kernel \<Rightarrow> (int \<times> kernel) fres" where
  "trap drivers n r0 r1 r2 k =
     fbind (syscall_dispatch drivers n r0 r1 r2 0 k) (\<lambda>(r, k1). Inr (sint r, k1))"

definition lib_itc_send where "lib_itc_send drivers i d = trap drivers 2 (word_of_int i) d 0"
definition lib_itc_get where "lib_itc_get drivers i p = trap drivers 3 (word_of_int i) p 0"
definition lib_sem_p where "lib_sem_p drivers i = trap drivers 4 (word_of_int i) 0 0"
definition lib_sem_v where "lib_sem_v drivers i = trap drivers 5 (word_of_int i) 0 0"
definition lib_mutex_wait where "lib_mutex_wait drivers i = trap drivers 6 (word_of_int i) 0 0"
definition lib_mutex_release where "lib_mutex_release drivers i = trap drivers 7 (word_of_int i) 0 0"
definition lib_open where "lib_open drivers d mode = trap drivers 10 (word_of_int d) (word_of_int mode) 0"
definition lib_close where "lib_close drivers d = trap drivers 11 (word_of_int d) 0 0"
definition lib_read where "lib_read drivers d buf sz = trap drivers 12 (word_of_int d) buf (word_of_int sz)"
definition lib_write where "lib_write drivers d buf sz = trap drivers 13 (word_of_int d) buf (word_of_int sz)"

section \<open>The calls\<close>

type_synonym waiting = "(int \<times> kernel) option fres"

definition navilnux_itc_send where "navilnux_itc_send = lib_itc_send"
definition navilnux_sem_v where "navilnux_sem_v = lib_sem_v"
definition navilnux_mutex_release where "navilnux_mutex_release = lib_mutex_release"
definition navilnux_close where "navilnux_close = lib_close"
definition navilnux_write where "navilnux_write = lib_write"

text \<open>\<open>p\<close> is the address of the local variable \<open>data\<close>.\<close>

fun navilnux_itc_get :: "(u32 \<Rightarrow> fops) \<Rightarrow> u32 \<Rightarrow> int \<Rightarrow> (kernel \<Rightarrow> kernel) list \<Rightarrow> kernel \<Rightarrow> waiting" where
  "navilnux_itc_get drivers p itcnum others k =
     fbind (lib_itc_get drivers itcnum p k) (\<lambda>(ret_value, k1).
       if 0 = ret_value then Inr (Some (sint (ld32 (ram k1) p), k1))
       else if -1 = ret_value then Inr (Some (ret_value, k1))
       else (case others of [] \<Rightarrow> Inr None | e # es \<Rightarrow> navilnux_itc_get drivers p itcnum es (e k1)))"

fun navilnux_sem_p :: "(u32 \<Rightarrow> fops) \<Rightarrow> int \<Rightarrow> (kernel \<Rightarrow> kernel) list \<Rightarrow> kernel \<Rightarrow> waiting" where
  "navilnux_sem_p drivers semnum others k =
     fbind (lib_sem_p drivers semnum k) (\<lambda>(ret_value, k1).
       if ret_value = 0 then Inr (Some (0, k1))
       else if ret_value = -1 then Inr (Some (-1, k1))
       else (case others of [] \<Rightarrow> Inr None | e # es \<Rightarrow> navilnux_sem_p drivers semnum es (e k1)))"

fun navilnux_mutex_wait :: "(u32 \<Rightarrow> fops) \<Rightarrow> int \<Rightarrow> (kernel \<Rightarrow> kernel) list \<Rightarrow> kernel \<Rightarrow> waiting" where
  "navilnux_mutex_wait drivers mutexnum others k =
     fbind (lib_mutex_wait drivers mutexnum k) (\<lambda>(ret_value, k1).
       if ret_value = 0 then Inr (Some (0, k1))
       else if ret_value = -1 then Inr (Some (-1, k1))
       else (case others of [] \<Rightarrow> Inr None | e # es \<Rightarrow> navilnux_mutex_wait drivers mutexnum es (e k1)))"

fun navilnux_read :: "(u32 \<Rightarrow> fops) \<Rightarrow> int \<Rightarrow> u32 \<Rightarrow> int \<Rightarrow> (kernel \<Rightarrow> kernel) list \<Rightarrow> kernel \<Rightarrow> waiting" where
  "navilnux_read drivers drvnum buf sz others k =
     fbind (lib_read drivers drvnum buf sz k) (\<lambda>(ret_value, k1).
       if ret_value \<ge> 0 then Inr (Some (ret_value, k1))
       else if ret_value = -1 then Inr (Some (-1, k1))
       else (case others of [] \<Rightarrow> Inr None | e # es \<Rightarrow> navilnux_read drivers drvnum buf sz es (e k1)))"

text \<open>
  \<open>navilnux_sleep\<close> works on the running task's control block. Here one element of
  \<open>others\<close> is taken in every round of the loop, also in the one that sets the wake-up tick.
\<close>

definition set_sleep_end :: "u32 \<Rightarrow> kernel \<Rightarrow> kernel fres" where
  "set_sleep_end t k = fbind (tcb_get (navilnux_current k) k) (\<lambda>tcb.
     Inr (tcb_put (navilnux_current k) (tcb\<lparr>sleep_end_tick := t\<rparr>) k))"

fun navilnux_sleep :: "u32 \<Rightarrow> (kernel \<Rightarrow> kernel) list \<Rightarrow> kernel \<Rightarrow> waiting" where
  "navilnux_sleep sec others k =
     fbind (tcb_get (navilnux_current k) k) (\<lambda>tcb.
       if sleep_end_tick tcb = 0 then
         fbind (set_sleep_end (navilnux_time_tick k + sec) k) (\<lambda>k1.
           case others of [] \<Rightarrow> Inr None | e # es \<Rightarrow> navilnux_sleep sec es (e k1))
       else if sleep_end_tick tcb \<le> navilnux_time_tick k then
         fbind (set_sleep_end 0 k) (\<lambda>k1. Inr (Some (0, k1)))
       else (case others of [] \<Rightarrow> Inr None | e # es \<Rightarrow> navilnux_sleep sec es (e k)))"

declare navilnux_itc_get.simps [simp del] navilnux_sem_p.simps [simp del]
  navilnux_mutex_wait.simps [simp del] navilnux_read.simps [simp del] navilnux_sleep.simps [simp del]

section \<open>The traps on a running kernel\<close>

lemma trap_calls:
  assumes "kernel_inv k"
  shows "n < 14 \<Longrightarrow> trap drivers n r0 r1 r2 k =
    fbind (sys_call drivers (snd (syscall_numbers ! n)) r0 r1 r2 0 k) (\<lambda>(r, k1). Inr (sint r, k1))"
  using sys_vec [OF assms] by (simp add: trap_def syscall_dispatch_def)

lemma sint_word_of_int32: "in_int32 i \<Longrightarrow> sint (word_of_int i :: u32) = i"
  using wrap32_sint_of_int [of i] by simp

lemma sint_minus [simp]: "sint (-1 :: u32) = -1" "sint (-2 :: u32) = -2" "sint (0 :: u32) = 0"
  by simp_all

lemma trap_sem_p:
  assumes "kernel_inv k"
  shows "lib_sem_p drivers i k = (let (r, mg) = msg_sem_p (wrap32 i) (msgmng k) in Inr (r, k\<lparr>msgmng := mg\<rparr>))"
proof -
  have "mg_sem_p (msgmng k) \<noteq> None" using assms by (simp add: kernel_inv_def)
  moreover have "fst (msg_sem_p (wrap32 i) (msgmng k)) \<in> {0, -1, -2}" by (simp add: msg_sem_p_def Let_def)
  ultimately show ?thesis
    by (auto simp: lib_sem_p_def trap_calls [OF assms] sys_semp_def lift_msg_def ret_int_def
      wrap32_sint_of_int split: prod.splits)
qed

lemma trap_mutex_wait:
  assumes "kernel_inv k"
  shows "lib_mutex_wait drivers i k = (let (r, mg) = msg_mutex_wait (tcb_addr k (navilnux_current k)) (wrap32 i) (msgmng k)
    in Inr (r, k\<lparr>msgmng := mg\<rparr>))"
proof -
  have "mg_mutex_wait (msgmng k) \<noteq> None" using assms by (simp add: kernel_inv_def)
  moreover have "fst (msg_mutex_wait (tcb_addr k (navilnux_current k)) (wrap32 i) (msgmng k)) \<in> {0, -1, -2}"
    by (simp add: msg_mutex_wait_def Let_def)
  ultimately show ?thesis
    by (auto simp: lib_mutex_wait_def trap_calls [OF assms] sys_mutexwait_def lift_msg_def ret_int_def
      wrap32_sint_of_int split: prod.splits)
qed

lemma trap_itc_get:
  assumes "kernel_inv k"
  shows "lib_itc_get drivers i p k = (let (r, mg, d) = msg_itc_get (wrap32 i) (msgmng k)
    in Inr (r, k\<lparr>msgmng := mg, ram := (case d of None \<Rightarrow> ram k | Some v \<Rightarrow> st32 (ram k) p v)\<rparr>))"
proof -
  have "mg_itc_get (msgmng k) \<noteq> None" using assms by (simp add: kernel_inv_def)
  moreover have "fst (msg_itc_get (wrap32 i) (msgmng k)) \<in> {0, -1, -2}" by (simp add: msg_itc_get_def)
  ultimately show ?thesis
    by (auto simp: lib_itc_get_def trap_calls [OF assms] sys_itcget_def ret_int_def
      wrap32_sint_of_int split: prod.splits)
qed

lemma trap_read:
  assumes "kernel_inv k" and "lib_read drivers d buf sz k = Inr (r, k')"
  shows "r = -1 \<and> k' = k"
proof -
  have z: "drvmng k = drv_mng_zero" using assms(1) by (simp add: kernel_inv_def)
  show ?thesis
  proof (cases "0 \<le> wrap32 d \<and> wrap32 d \<le> 100")
    case True
    with driver_call_faults(3) [OF z] assms(2) show ?thesis
      by (auto simp: lib_read_def trap_calls [OF assms(1)] wrap32_sint_of_int)
  next
    case False
    with assms(2) show ?thesis
      by (auto simp: lib_read_def trap_calls [OF assms(1)] wrap32_sint_of_int sys_read_def
        drv_checks_zero [OF z] ret_int_def)
  qed
qed

section \<open>The blocking calls keep the contract\<close>

interpretation semp: blocking_call kernel_inv "lib_sem_p drivers i" "\<lambda>r. r \<noteq> 0 \<and> r \<noteq> -1" "\<lambda>r k. r"
  "navilnux_sem_p drivers i" for drivers i
proof
  fix k k' r es e
  show "lib_sem_p drivers i k = Inl x \<Longrightarrow> navilnux_sem_p drivers i es k = Inl x" for x
    by (simp add: navilnux_sem_p.simps)
  show "lib_sem_p drivers i k = Inr (r, k') \<Longrightarrow> \<not> (r \<noteq> 0 \<and> r \<noteq> -1) \<Longrightarrow>
      navilnux_sem_p drivers i es k = Inr (Some (r, k'))"
    by (subst navilnux_sem_p.simps) auto
  show "lib_sem_p drivers i k = Inr (r, k') \<Longrightarrow> r \<noteq> 0 \<and> r \<noteq> -1 \<Longrightarrow> navilnux_sem_p drivers i [] k = Inr None"
    by (subst navilnux_sem_p.simps) simp
  show "lib_sem_p drivers i k = Inr (r, k') \<Longrightarrow> r \<noteq> 0 \<and> r \<noteq> -1 \<Longrightarrow>
      navilnux_sem_p drivers i (e # es) k = navilnux_sem_p drivers i es (e k')"
    by (subst navilnux_sem_p.simps) simp
  show "kernel_inv k \<Longrightarrow> lib_sem_p drivers i k = Inr (r, k') \<Longrightarrow> r \<noteq> 0 \<and> r \<noteq> -1 \<Longrightarrow> k' = k"
    by (auto simp: trap_sem_p msg_sem_p_def Let_def split: if_splits)
qed

interpretation mutex: blocking_call kernel_inv "lib_mutex_wait drivers i" "\<lambda>r. r \<noteq> 0 \<and> r \<noteq> -1" "\<lambda>r k. r"
  "navilnux_mutex_wait drivers i" for drivers i
proof
  fix k k' r es e
  show "lib_mutex_wait drivers i k = Inl x \<Longrightarrow> navilnux_mutex_wait drivers i es k = Inl x" for x
    by (simp add: navilnux_mutex_wait.simps)
  show "lib_mutex_wait drivers i k = Inr (r, k') \<Longrightarrow> \<not> (r \<noteq> 0 \<and> r \<noteq> -1) \<Longrightarrow>
      navilnux_mutex_wait drivers i es k = Inr (Some (r, k'))"
    by (subst navilnux_mutex_wait.simps) auto
  show "lib_mutex_wait drivers i k = Inr (r, k') \<Longrightarrow> r \<noteq> 0 \<and> r \<noteq> -1 \<Longrightarrow> navilnux_mutex_wait drivers i [] k = Inr None"
    by (subst navilnux_mutex_wait.simps) simp
  show "lib_mutex_wait drivers i k = Inr (r, k') \<Longrightarrow> r \<noteq> 0 \<and> r \<noteq> -1 \<Longrightarrow>
      navilnux_mutex_wait drivers i (e # es) k = navilnux_mutex_wait drivers i es (e k')"
    by (subst navilnux_mutex_wait.simps) simp
  show "kernel_inv k \<Longrightarrow> lib_mutex_wait drivers i k = Inr (r, k') \<Longrightarrow> r \<noteq> 0 \<and> r \<noteq> -1 \<Longrightarrow> k' = k"
    by (auto simp: trap_mutex_wait msg_mutex_wait_def Let_def split: if_splits)
qed

interpretation itcget: blocking_call kernel_inv "lib_itc_get drivers i p" "\<lambda>r. r \<noteq> 0 \<and> r \<noteq> -1"
  "\<lambda>r k. if r = 0 then sint (ld32 (ram k) p) else -1" "navilnux_itc_get drivers p i" for drivers i p
proof
  fix k k' r es e
  show "lib_itc_get drivers i p k = Inl x \<Longrightarrow> navilnux_itc_get drivers p i es k = Inl x" for x
    by (simp add: navilnux_itc_get.simps)
  show "lib_itc_get drivers i p k = Inr (r, k') \<Longrightarrow> \<not> (r \<noteq> 0 \<and> r \<noteq> -1) \<Longrightarrow>
      navilnux_itc_get drivers p i es k = Inr (Some (if r = 0 then sint (ld32 (ram k') p) else -1, k'))"
    by (subst navilnux_itc_get.simps) auto
  show "lib_itc_get drivers i p k = Inr (r, k') \<Longrightarrow> r \<noteq> 0 \<and> r \<noteq> -1 \<Longrightarrow> navilnux_itc_get drivers p i [] k = Inr None"
    by (subst navilnux_itc_get.simps) simp
  show "lib_itc_get drivers i p k = Inr (r, k') \<Longrightarrow> r \<noteq> 0 \<and> r \<noteq> -1 \<Longrightarrow>
      navilnux_itc_get drivers p i (e # es) k = navilnux_itc_get drivers p i es (e k')"
    by (subst navilnux_itc_get.simps) simp
  show "kernel_inv k \<Longrightarrow> lib_itc_get drivers i p k = Inr (r, k') \<Longrightarrow> r \<noteq> 0 \<and> r \<noteq> -1 \<Longrightarrow> k' = k"
    by (auto simp: trap_itc_get msg_itc_get_def Let_def split: if_splits)
qed

interpretation rd: blocking_call kernel_inv "lib_read drivers d buf sz" "\<lambda>r. r < 0 \<and> r \<noteq> -1" "\<lambda>r k. r"
  "navilnux_read drivers d buf sz" for drivers d buf sz
proof
  fix k k' r es e
  show "lib_read drivers d buf sz k = Inl x \<Longrightarrow> navilnux_read drivers d buf sz es k = Inl x" for x
    by (simp add: navilnux_read.simps)
  show "lib_read drivers d buf sz k = Inr (r, k') \<Longrightarrow> \<not> (r < 0 \<and> r \<noteq> -1) \<Longrightarrow>
      navilnux_read drivers d buf sz es k = Inr (Some (r, k'))"
    by (subst navilnux_read.simps) auto
  show "lib_read drivers d buf sz k = Inr (r, k') \<Longrightarrow> r < 0 \<and> r \<noteq> -1 \<Longrightarrow> navilnux_read drivers d buf sz [] k = Inr None"
    by (subst navilnux_read.simps) simp
  show "lib_read drivers d buf sz k = Inr (r, k') \<Longrightarrow> r < 0 \<and> r \<noteq> -1 \<Longrightarrow>
      navilnux_read drivers d buf sz (e # es) k = navilnux_read drivers d buf sz es (e k')"
    by (subst navilnux_read.simps) simp
  show "kernel_inv k \<Longrightarrow> lib_read drivers d buf sz k = Inr (r, k') \<Longrightarrow> r < 0 \<and> r \<noteq> -1 \<Longrightarrow> k' = k"
    using trap_read by blast
qed

lemma kernel_boots_free:
  "\<exists>k. kernel_inv k \<and> (\<forall>m. owner (msg_abs_of (msgmng k)) m = None)"
proof -
  let ?k = "at_task 0 (syscall_init ((kernel_zero (\<lambda>_. 0) 0 0)\<lparr>memmng := mem_init mem_mng_zero,
     msgmng := msg_init msg_mng_zero\<rparr>))"
  have "kernel_inv ?k"
    by (simp add: kernel_inv_def kernel_zero_def sched_ok_def task_mng_zero_def MAXTASKNUM_def ntasks_def
      runs_def at_task_def syscall_init_def msg_init_def mem_init_def)
  moreover have "msgmng ?k = msg_init msg_mng_zero" by (simp add: at_task_def syscall_init_def)
  ultimately show ?thesis by (intro exI [of _ ?k]) (simp add: msg_init_abs)
qed

lemma mutex_refused:
  assumes "kernel_inv k" and "0 \<le> m" and "m \<le> 54"
  shows "mutex.refused drivers m k \<longleftrightarrow> owner (msg_abs_of (msgmng k)) m \<noteq> None"
proof -
  have "in_int32 m" using assms by (simp add: in_int32_def)
  with assms show ?thesis
    by (auto simp: mutex.refused_def trap_mutex_wait msg_mutex_eqs msg_abs_of_def msg_consts)
qed

lemma tcb_addr_msgmng [simp]: "tcb_addr (k\<lparr>msgmng := mg\<rparr>) r = tcb_addr k r"
  by (cases r) (simp_all add: tcb_addr_def)

lemma mutex_wait_acquires_aux:
  assumes inv: "kernel_inv k" and keep: "mutex.keeps_inv others" and m: "0 \<le> m" "m \<le> 54"
    and w: "navilnux_mutex_wait drivers m others k = Inr (Some (r, k'))"
  shows "r = 0 \<and> (\<exists>ds. ds = take (length ds) others \<and>
    (\<forall>i < length ds. owner (msg_abs_of (msgmng (mutex.after (take i ds) k))) m \<noteq> None) \<and>
    owner (msg_abs_of (msgmng (mutex.after ds k))) m = None \<and>
    k' = (mutex.after ds k)\<lparr>msgmng := msgmng k'\<rparr> \<and>
    owner (msg_abs_of (msgmng k')) m = Some (tcb_addr k' (navilnux_current k')))"
proof -
  have i32: "in_int32 m" using m by (simp add: in_int32_def)
  from mutex.wait_result [OF inv keep w] obtain ds where
    ds: "ds = take (length ds) others"
    and a: "lib_mutex_wait drivers m (mutex.after ds k) = Inr (r, k')" and fin: "r = 0 \<or> r = -1"
    and ref: "\<forall>i < length ds. mutex.refused drivers m (mutex.after (take i ds) k)"
    and inv': "kernel_inv (mutex.after ds k)" by auto
  let ?s = "mutex.after ds k"
  have "mutex.keeps_inv ds" using ds keep by (metis mutex.keeps_inv_simps(3))
  then have "kernel_inv (mutex.after (take i ds) k)" for i
    using mutex.after_inv [OF inv] by simp
  with ref m have taken: "\<forall>i < length ds. owner (msg_abs_of (msgmng (mutex.after (take i ds) k))) m \<noteq> None"
    by (simp add: mutex_refused)
  have len: "length (free_msg_pool (msgmng ?s)) = nat 255"
    using inv' by (simp add: kernel_inv_def MAXMSG_def)
  have free: "msg_flag (msg_cell (msgmng ?s) (m + 200)) = 0" and r: "r = 0"
    using a fin m i32 by (auto simp: trap_mutex_wait [OF inv'] msg_mutex_eqs split: if_splits)
  then have k': "k' = ?s\<lparr>msgmng := set_msg_cell (msgmng ?s) (m + 200) ((msg_cell (msgmng ?s) (m + 200))
      \<lparr>msg_flag := 1, msg_data := tcb_addr ?s (navilnux_current ?s)\<rparr>)\<rparr>"
    using a m i32 by (simp add: trap_mutex_wait [OF inv'] msg_mutex_eqs)
  have "owner (msg_abs_of (msgmng ?s)) m = None" using free by (simp add: msg_abs_of_def MUTEXSTART_def)
  moreover have "owner (msg_abs_of (msgmng k')) m = Some (tcb_addr k' (navilnux_current k'))"
    unfolding k' using m len by (simp add: msg_abs_of_def MUTEXSTART_def MAXMSG_def)
  moreover have "k' = ?s\<lparr>msgmng := msgmng k'\<rparr>" by (simp add: k')
  ultimately show ?thesis using r ds taken by blast
qed

section \<open>Sleeping\<close>

definition sleeping :: "u32 \<Rightarrow> kernel \<Rightarrow> bool" where
  "sleeping t k \<longleftrightarrow> (\<exists>tcb. tcb_get (navilnux_current k) k = Inr tcb \<and> sleep_end_tick tcb = t)"

text \<open>The others leave the wake-up tick of this task alone.\<close>

definition keeps_sleep :: "(kernel \<Rightarrow> kernel) list \<Rightarrow> bool" where
  "keeps_sleep es \<longleftrightarrow> (\<forall>e \<in> set es. \<forall>s t. sleeping t s \<longrightarrow> sleeping t (e s))"

lemma keeps_sleep_Cons [simp]:
  "keeps_sleep (e # es) \<longleftrightarrow> (\<forall>s t. sleeping t s \<longrightarrow> sleeping t (e s)) \<and> keeps_sleep es"
  by (auto simp: keeps_sleep_def)

lemma set_sleep_end_sleeping:
  assumes "sleeping t0 k"
  shows "\<exists>k1. set_sleep_end t k = Inr k1 \<and> sleeping t k1 \<and> navilnux_time_tick k1 = navilnux_time_tick k"
proof -
  from assms obtain tcb where tcb: "tcb_get (navilnux_current k) k = Inr tcb" by (auto simp: sleeping_def)
  let ?k = "tcb_put (navilnux_current k) (tcb\<lparr>sleep_end_tick := t\<rparr>) k"
  have "set_sleep_end t k = Inr ?k" using tcb by (simp add: set_sleep_end_def)
  moreover have "sleeping t ?k" using tcb
    by (auto simp: sleeping_def tcb_get_def tcb_put_def in_array_def split: tcb_ref.splits if_splits)
  moreover have "navilnux_time_tick ?k = navilnux_time_tick k"
    by (simp add: tcb_put_def split: tcb_ref.splits)
  ultimately show ?thesis by blast
qed

lemma sleep_round:
  assumes "sleeping t k" and "t \<noteq> 0"
  shows "t \<le> navilnux_time_tick k \<Longrightarrow> \<exists>k1. navilnux_sleep sec es k = Inr (Some (0, k1)) \<and> sleeping 0 k1 \<and>
      navilnux_time_tick k1 = navilnux_time_tick k"
    and "\<not> t \<le> navilnux_time_tick k \<Longrightarrow>
      navilnux_sleep sec es k = (case es of [] \<Rightarrow> Inr None | e # es \<Rightarrow> navilnux_sleep sec es (e k))"
proof -
  from assms obtain tcb where tcb: "tcb_get (navilnux_current k) k = Inr tcb" "sleep_end_tick tcb = t"
    by (auto simp: sleeping_def)
  from set_sleep_end_sleeping [OF assms(1), of 0] obtain k1 where
    "set_sleep_end 0 k = Inr k1" "sleeping 0 k1" "navilnux_time_tick k1 = navilnux_time_tick k" by blast
  with tcb assms(2) show "t \<le> navilnux_time_tick k \<Longrightarrow> \<exists>k1. navilnux_sleep sec es k = Inr (Some (0, k1)) \<and> sleeping 0 k1 \<and>
      navilnux_time_tick k1 = navilnux_time_tick k" by (subst navilnux_sleep.simps) simp
  from tcb assms(2) show "\<not> t \<le> navilnux_time_tick k \<Longrightarrow>
      navilnux_sleep sec es k = (case es of [] \<Rightarrow> Inr None | e # es \<Rightarrow> navilnux_sleep sec es (e k))"
    by (subst navilnux_sleep.simps) simp
qed

lemma sleep_until:
  assumes "sleeping t k" and "t \<noteq> 0" and "keeps_sleep es"
  shows "(\<exists>n \<le> length es. t \<le> navilnux_time_tick (mutex.after (take n es) k) \<and>
      (\<forall>i < n. navilnux_time_tick (mutex.after (take i es) k) < t) \<and>
      (\<exists>k1. navilnux_sleep sec es k = Inr (Some (0, k1)) \<and> sleeping 0 k1 \<and>
         navilnux_time_tick k1 = navilnux_time_tick (mutex.after (take n es) k))) \<or>
    (navilnux_sleep sec es k = Inr None \<and>
      (\<forall>i \<le> length es. navilnux_time_tick (mutex.after (take i es) k) < t))"
  using assms(1,3)
proof (induction es arbitrary: k)
  case Nil
  show ?case
  proof (cases "t \<le> navilnux_time_tick k")
    case True
    with sleep_round(1) [OF Nil(1) assms(2)] show ?thesis by simp
  next
    case False
    with sleep_round(2) [OF Nil(1) assms(2)] show ?thesis by simp
  qed
next
  case (Cons e es)
  show ?case
  proof (cases "t \<le> navilnux_time_tick k")
    case True
    with sleep_round(1) [OF Cons.prems(1) assms(2)] show ?thesis by (intro disjI1 exI [of _ 0]) simp
  next
    case False
    then have r: "navilnux_sleep sec (e # es) k = navilnux_sleep sec es (e k)"
      using sleep_round(2) [OF Cons.prems(1) assms(2)] by simp
    have late: "navilnux_time_tick k < t" using False by simp
    have "sleeping t (e k)" "keeps_sleep es" using Cons.prems by auto
    from Cons.IH [OF this] show ?thesis
    proof (elim disjE exE conjE)
      fix n k1
      assume n: "n \<le> length es" "t \<le> navilnux_time_tick (mutex.after (take n es) (e k))"
        "\<forall>i<n. navilnux_time_tick (mutex.after (take i es) (e k)) < t"
        "navilnux_sleep sec es (e k) = Inr (Some (0, k1))" "sleeping 0 k1"
        "navilnux_time_tick k1 = navilnux_time_tick (mutex.after (take n es) (e k))"
      have "\<forall>i < Suc n. navilnux_time_tick (mutex.after (take i (e # es)) k) < t"
        using n(3) late by (auto simp: less_Suc_eq_0_disj)
      with n r show ?thesis by (intro disjI1 exI [of _ "Suc n"]) simp
    next
      assume n: "navilnux_sleep sec es (e k) = Inr None"
        "\<forall>i\<le>length es. navilnux_time_tick (mutex.after (take i es) (e k)) < t"
      have "\<forall>i \<le> length (e # es). navilnux_time_tick (mutex.after (take i (e # es)) k) < t"
      proof (intro allI impI)
        fix i assume "i \<le> length (e # es)"
        with n(2) late show "navilnux_time_tick (mutex.after (take i (e # es)) k) < t" by (cases i) auto
      qed
      with n(1) r show ?thesis by simp
    qed
  qed
qed

section \<open>Properties\<close>

text \<open>
  C19: \<open>navilnux_mutex_wait\<close> returns 0 only at a moment when the mutex is free, and then the
  running task owns it; all earlier attempts found it taken, and waiting changed nothing itself.
\<close>
theorem mutex_wait_acquires:
  assumes "kernel_inv k" and "mutex.keeps_inv others" and "0 \<le> m" and "m \<le> 54"
    and "navilnux_mutex_wait drivers m others k = Inr (Some (r, k'))"
  shows "r = 0 \<and> (\<exists>ds. ds = take (length ds) others \<and>
    (\<forall>i < length ds. owner (msg_abs_of (msgmng (mutex.after (take i ds) k))) m \<noteq> None) \<and>
    owner (msg_abs_of (msgmng (mutex.after ds k))) m = None \<and>
    k' = (mutex.after ds k)\<lparr>msgmng := msgmng k'\<rparr> \<and>
    owner (msg_abs_of (msgmng k')) m = Some (tcb_addr k' (navilnux_current k')))"
  by (rule mutex_wait_acquires_aux [OF assms])

theorem mutex_wait_acquires_witness:
  "\<exists>k k'. kernel_inv k \<and> navilnux_mutex_wait no_drivers 5 [] k = Inr (Some (0, k')) \<and>
     owner (msg_abs_of (msgmng k')) 5 = Some (tcb_addr k' (navilnux_current k'))"
proof -
  from kernel_boots_free obtain k where
    inv: "kernel_inv k" and free: "owner (msg_abs_of (msgmng k)) 5 = None" by blast
  obtain k' where w: "navilnux_mutex_wait no_drivers 5 [] k = Inr (Some (0, k'))"
    using mutex.wait_done [of no_drivers 5 k 0] free inv
    by (auto simp: trap_mutex_wait msg_mutex_eqs in_int32_def msg_abs_of_def MUTEXSTART_def split: if_splits)
  from mutex_wait_acquires [OF inv _ _ _ w] inv w show ?thesis by auto
qed

text \<open>The wake-up tick is a 32-bit sum: when it wraps, the sleep is over in the first round, however long it was to be.\<close>

lemma sleep_wrapped:
  assumes "sleeping 0 k" and "keeps_sleep (e # es)" and "2 ^ 32 < unat (navilnux_time_tick k) + unat sec"
    and "\<And>k'. navilnux_time_tick k' \<le> navilnux_time_tick (e k')"
  shows "\<exists>k0 k1. set_sleep_end (navilnux_time_tick k + sec) k = Inr k0 \<and> navilnux_sleep sec (e # es) k = Inr (Some (0, k1)) \<and>
    navilnux_time_tick k1 = navilnux_time_tick (e k0)"
proof -
  let ?t = "navilnux_time_tick k + sec"
  have "unat ?t = unat (navilnux_time_tick k) + unat sec - 2 ^ 32"
  proof -
    have "unat (navilnux_time_tick k) < 2 ^ 32" "unat sec < 2 ^ 32"
      using unsigned_less [of "navilnux_time_tick k"] unsigned_less [of sec] by simp_all
    then have "(unat (navilnux_time_tick k) + unat sec) mod 2 ^ 32 = unat (navilnux_time_tick k) + unat sec - 2 ^ 32"
      using assms(3) by (subst le_mod_geq) simp_all
    then show ?thesis by (simp add: unat_word_ariths)
  qed
  moreover have lt: "unat sec < 2 ^ 32" using unsigned_less [of sec] by simp
  ultimately have "?t \<noteq> 0" "?t \<le> navilnux_time_tick k"
    using assms(3) lt by (auto simp: word_le_nat_alt)
  from set_sleep_end_sleeping [OF assms(1), of ?t] obtain k0 where k0: "set_sleep_end ?t k = Inr k0" "sleeping ?t k0" by blast
  then have n: "navilnux_sleep sec (e # es) k = navilnux_sleep sec es (e k0)"
    using assms(1) by (subst navilnux_sleep.simps) (auto simp: sleeping_def)
  have "navilnux_time_tick k0 = navilnux_time_tick k"
  proof -
    have "navilnux_time_tick (tcb_put r x k) = navilnux_time_tick k" for r x by (simp add: tcb_put_def split: tcb_ref.splits)
    with k0(1) show ?thesis by (auto simp: set_sleep_end_def fbind_Inr)
  qed
  with \<open>?t \<le> navilnux_time_tick k\<close> assms(4) [of k0] have "?t \<le> navilnux_time_tick (e k0)" by simp
  moreover have "sleeping ?t (e k0)" using assms(2) k0 by simp
  ultimately show ?thesis using sleep_round(1) [OF _ \<open>?t \<noteq> 0\<close>] k0(1) n by fastforce
qed

text \<open>
  C20: A sleep that the 32-bit tick counter has room for, and whose wake-up tick is not zero (which stands for no sleep): \<open>navilnux_sleep sec\<close> returns at
  the first round in which the counter has reached its value at the call plus \<open>sec\<close>, never earlier, and clears the wake-up tick; if that
  never happens it is still waiting. (Without room the sum wraps and the call returns at once: \<open>sleep_wrapped\<close>.)
\<close>
theorem sleep_lasts:
  assumes "sleeping 0 k" and "keeps_sleep (e # es)"
    and "0 < unat (navilnux_time_tick k) + unat sec" and "unat (navilnux_time_tick k) + unat sec < 2 ^ 32"
  shows "\<exists>k0. set_sleep_end (navilnux_time_tick k + sec) k = Inr k0 \<and>
    ((\<exists>n \<le> length es. unat (navilnux_time_tick k) + unat sec \<le> unat (navilnux_time_tick (mutex.after (take n es) (e k0))) \<and>
      (\<forall>i < n. unat (navilnux_time_tick (mutex.after (take i es) (e k0))) < unat (navilnux_time_tick k) + unat sec) \<and>
      (\<exists>k1. navilnux_sleep sec (e # es) k = Inr (Some (0, k1)) \<and> sleeping 0 k1 \<and>
         navilnux_time_tick k1 = navilnux_time_tick (mutex.after (take n es) (e k0)))) \<or>
    (navilnux_sleep sec (e # es) k = Inr None \<and>
      (\<forall>i \<le> length es. unat (navilnux_time_tick (mutex.after (take i es) (e k0))) < unat (navilnux_time_tick k) + unat sec)))"
proof -
  let ?t = "navilnux_time_tick k + sec"
  have u: "unat ?t = unat (navilnux_time_tick k) + unat sec" using assms(4) by (simp add: unat_word_ariths)
  then have "?t \<noteq> 0" using assms(3) by auto
  from set_sleep_end_sleeping [OF assms(1)] obtain k0 where
    k0: "set_sleep_end ?t k = Inr k0" "sleeping ?t k0" by blast
  then have "navilnux_sleep sec (e # es) k = navilnux_sleep sec es (e k0)"
    using assms(1) by (subst navilnux_sleep.simps) (auto simp: sleeping_def)
  moreover have "sleeping ?t (e k0)" using assms(2) k0 by simp
  ultimately show ?thesis using sleep_until [OF _ \<open>?t \<noteq> 0\<close>, of "e k0" es sec] assms(2) k0(1)
    by (simp add: word_le_nat_alt word_less_nat_alt u)
qed

theorem sleep_lasts_witness:
  "\<exists>k1. navilnux_sleep 2 [\<lambda>k. k\<lparr>navilnux_time_tick := 8\<rparr>, \<lambda>k. k\<lparr>navilnux_time_tick := 9\<rparr>]
      (at_task 0 ((kernel_zero (\<lambda>_. 0) 0 0)\<lparr>navilnux_time_tick := 7\<rparr>)) = Inr (Some (0, k1)) \<and>
     navilnux_time_tick k1 = 9"
proof -
  let ?k = "at_task 0 ((kernel_zero (\<lambda>_. 0) 0 0)\<lparr>navilnux_time_tick := 7\<rparr>)"
  let ?e = "\<lambda>k. k\<lparr>navilnux_time_tick := 8\<rparr>" and ?f = "\<lambda>k. k\<lparr>navilnux_time_tick := 9\<rparr>"
  have s: "sleeping 0 ?k"
    by (simp add: sleeping_def tcb_get_def at_task_def kernel_zero_def task_mng_zero_def in_array_def
      MAXTASKNUM_def task_zero_def)
  have keep: "keeps_sleep [?e, ?f]"
    by (simp add: sleeping_def tcb_get_def keeps_sleep_def split: tcb_ref.splits)
  have t: "navilnux_time_tick ?k = 7" by (simp add: at_task_def)
  from sleep_lasts [OF s keep, of 2] show ?thesis
    by (auto simp: t le_Suc_eq)
qed

end
