(* ===== verification/Kernel_User.thy ===== *)
theory Kernel_User
  imports Kernel_Clib
begin

text \<open>
  The user task, \<open>user_task_1\<close> of \<open>navilnux_user.c\<close>: four allocations and a release, each
  address printed, then an endless loop that prints and sleeps.
\<close>

definition lib_malloc :: "(u32 \<Rightarrow> fops) \<Rightarrow> u32 \<Rightarrow> kernel \<Rightarrow> sysret" where
  "lib_malloc drivers sz k = syscall_dispatch drivers 8 sz 0 0 0 k"

definition lib_free :: "(u32 \<Rightarrow> fops) \<Rightarrow> u32 \<Rightarrow> kernel \<Rightarrow> (int \<times> kernel) fres" where
  "lib_free drivers addr = trap drivers 9 addr 0 0"

definition user_task_1_start :: "(u32 \<Rightarrow> fops) \<Rightarrow> kernel \<Rightarrow> kernel fres" where
  "user_task_1_start drivers k =
     fbind (lib_malloc drivers 2048 k) (\<lambda>(ptr_a, k).
     fbind (Inr (k_printf (''Dynamic mem alloc 2K - %p'' @ [NL]) [ptr_a] k)) (\<lambda>k.
     fbind (lib_malloc drivers 3072 k) (\<lambda>(ptr_b, k).
     fbind (Inr (k_printf (''Dynamic mem alloc 3K - %p'' @ [NL]) [ptr_b] k)) (\<lambda>k.
     fbind (lib_free drivers ptr_b k) (\<lambda>(r, k).
     fbind (lib_malloc drivers 4096 k) (\<lambda>(ptr_c, k).
     fbind (Inr (k_printf (''Dynamic mem alloc 4K - %p'' @ [NL]) [ptr_c] k)) (\<lambda>k.
     fbind (lib_malloc drivers 1024 k) (\<lambda>(ptr_d, k).
     Inr (k_printf (''Dynamic mem alloc 1K - %p'' @ [NL]) [ptr_d] k)))))))))"

text \<open>One round of the loop; \<open>pa\<close>, \<open>pb\<close>, \<open>pc\<close> are where the compiler keeps \<open>a\<close>, \<open>b\<close>, \<open>c\<close>.\<close>

definition user_task_1_round :: "u32 \<Rightarrow> u32 \<Rightarrow> u32 \<Rightarrow> (kernel \<Rightarrow> kernel) list \<Rightarrow> kernel \<Rightarrow> waiting" where
  "user_task_1_round pa pb pc others k =
     navilnux_sleep 1 others
       (k_printf (''TASK1 - a:%p'' @ TAB # ''b:%p'' @ TAB # ''c:%p'' @ [NL]) [pa, pb, pc] k)"

section \<open>System calls on a well-formed heap\<close>

lemma lib_malloc_heap:
  assumes "kernel_inv k" and "heap_wf (memmng k) (ram k) bs" and "req_ok sz"
    and "abs_malloc (unat sz + 8) bs = Some (cs, j)"
  shows "\<exists>mm m. lib_malloc drivers sz k = Inr (STARTDYMEMADDR + of_nat j + 8, k\<lparr>memmng := mm, ram := m\<rparr>) \<and>
    heap_wf mm m cs \<and> kernel_inv (k\<lparr>memmng := mm, ram := m\<rparr>)"
proof -
  from malloc_refines_abs [OF assms(2,3)] assms(4) obtain mm m where
    a: "mem_malloc sz (memmng k) (ram k) = Some (STARTDYMEMADDR + of_nat j + 8, mm, m)" "heap_wf mm m cs"
    by auto
  have p: "mm_malloc (memmng k) \<noteq> None" using assms(1) by (simp add: kernel_inv_def)
  have l: "lib_malloc drivers sz k = Inr (STARTDYMEMADDR + of_nat j + 8, k\<lparr>memmng := mm, ram := m\<rparr>)"
    using a(1) p sys_vec [OF assms(1)] by (simp add: lib_malloc_def syscall_dispatch_def sys_malloc_def)
  have "kernel_inv (k\<lparr>memmng := mm, ram := m\<rparr>)"
    by (rule syscall_dispatch_inv [OF assms(1) _ l [unfolded lib_malloc_def]]) simp
  with a l show ?thesis by blast
qed

lemma lib_free_heap:
  assumes "kernel_inv k" and "heap_wf (memmng k) (ram k) (xs @ (True, n) # ys)"
  shows "\<exists>m. lib_free drivers (STARTDYMEMADDR + of_nat (sizes xs) + 8) k = Inr (0, k\<lparr>ram := m\<rparr>) \<and>
    heap_wf (memmng k) m (xs @ (False, n) # ys)"
proof -
  from free_used_block [OF assms(2)] obtain m where
    f: "mem_free (STARTDYMEMADDR + of_nat (sizes xs) + 8) (ram k) = (0, m)"
    "heap_wf (memmng k) m (xs @ (False, n) # ys)" by (metis surj_pair fst_conv snd_conv)
  have p: "mm_free (memmng k) \<noteq> None" using assms(1) by (simp add: kernel_inv_def)
  from f p show ?thesis
    by (intro exI [of _ m]) (simp add: lib_free_def trap_calls [OF assms(1)] sys_free_def ret_int_def)
qed

text \<open>Printing changes the log only.\<close>

lemma k_printf_simps [simp]:
  "memmng (k_printf f a k) = memmng k" "ram (k_printf f a k) = ram k"
  "console (k_printf f a k) = console k @ [(f, a)]"
  by (simp_all add: k_printf_def)

lemma user_task_start_trace:
  assumes inv: "kernel_inv k" and wf: "heap_wf (memmng k) (ram k) []"
  shows "\<exists>k'. user_task_1_start drivers k = Inr k' \<and> kernel_inv k' \<and>
    heap_wf (memmng k') (ram k') [(True, 2056), (True, 3080), (True, 4104)] \<and>
    console k' = console k @
      [(''Dynamic mem alloc 2K - %p'' @ [NL], [0xA2C00008]), (''Dynamic mem alloc 3K - %p'' @ [NL], [0xA2C00810]),
       (''Dynamic mem alloc 4K - %p'' @ [NL], [0xA2C01418]), (''Dynamic mem alloc 1K - %p'' @ [NL], [0xA2C00810])]"
proof -
  have start: "STARTDYMEMADDR = 0xA2C00000" by (simp add: mem_consts)
  note rq = req_ok_def abs_malloc_def HEAP_BYTES_def
  from lib_malloc_heap [OF inv wf, of 2048 "[(True, 2056)]" 0 drivers] obtain mm1 m1 where
    s1: "lib_malloc drivers 2048 k = Inr (0xA2C00008, k\<lparr>memmng := mm1, ram := m1\<rparr>)"
      "heap_wf mm1 m1 [(True, 2056)]" "kernel_inv (k\<lparr>memmng := mm1, ram := m1\<rparr>)"
    by (auto simp: rq start)
  define k1 where "k1 = k_printf (''Dynamic mem alloc 2K - %p'' @ [NL]) [0xA2C00008] (k\<lparr>memmng := mm1, ram := m1\<rparr>)"
  have k1: "kernel_inv k1" "heap_wf (memmng k1) (ram k1) [(True, 2056)]" using s1 by (simp_all add: k1_def)
  from lib_malloc_heap [OF k1, of 3072 "[(True, 2056), (True, 3080)]" 2056 drivers] obtain mm2 m2 where
    s2: "lib_malloc drivers 3072 k1 = Inr (0xA2C00810, k1\<lparr>memmng := mm2, ram := m2\<rparr>)"
      "heap_wf mm2 m2 [(True, 2056), (True, 3080)]" "kernel_inv (k1\<lparr>memmng := mm2, ram := m2\<rparr>)"
    by (auto simp: rq start)
  define k2 where "k2 = k_printf (''Dynamic mem alloc 3K - %p'' @ [NL]) [0xA2C00810] (k1\<lparr>memmng := mm2, ram := m2\<rparr>)"
  have k2: "kernel_inv k2" "heap_wf (memmng k2) (ram k2) ([(True, 2056)] @ (True, 3080) # [])"
    using s2 by (simp_all add: k2_def)
  from lib_free_heap [OF k2, of drivers] obtain m3 where
    s3: "lib_free drivers 0xA2C00810 k2 = Inr (0, k2\<lparr>ram := m3\<rparr>)"
      "heap_wf (memmng k2) m3 [(True, 2056), (False, 3080)]" by (auto simp: start)
  have k3: "kernel_inv (k2\<lparr>ram := m3\<rparr>)" "heap_wf (memmng (k2\<lparr>ram := m3\<rparr>)) (ram (k2\<lparr>ram := m3\<rparr>)) [(True, 2056), (False, 3080)]"
    using k2(1) s3 by simp_all
  from lib_malloc_heap [OF k3, of 4096 "[(True, 2056), (False, 3080), (True, 4104)]" 5136 drivers] obtain mm4 m4 where
    s4: "lib_malloc drivers 4096 (k2\<lparr>ram := m3\<rparr>) = Inr (0xA2C01418, k2\<lparr>memmng := mm4, ram := m4\<rparr>)"
      "heap_wf mm4 m4 [(True, 2056), (False, 3080), (True, 4104)]" "kernel_inv (k2\<lparr>memmng := mm4, ram := m4\<rparr>)"
    by (auto simp: rq start)
  define k4 where "k4 = k_printf (''Dynamic mem alloc 4K - %p'' @ [NL]) [0xA2C01418] (k2\<lparr>memmng := mm4, ram := m4\<rparr>)"
  have k4: "kernel_inv k4" "heap_wf (memmng k4) (ram k4) [(True, 2056), (False, 3080), (True, 4104)]"
    using s4 by (simp_all add: k4_def)
  from lib_malloc_heap [OF k4, of 1024 "[(True, 2056), (True, 3080), (True, 4104)]" 2056 drivers] obtain mm5 m5 where
    s5: "lib_malloc drivers 1024 k4 = Inr (0xA2C00810, k4\<lparr>memmng := mm5, ram := m5\<rparr>)"
      "heap_wf mm5 m5 [(True, 2056), (True, 3080), (True, 4104)]" "kernel_inv (k4\<lparr>memmng := mm5, ram := m5\<rparr>)"
    by (auto simp: rq start)
  let ?k = "k_printf (''Dynamic mem alloc 1K - %p'' @ [NL]) [0xA2C00810] (k4\<lparr>memmng := mm5, ram := m5\<rparr>)"
  have "user_task_1_start drivers k = Inr ?k"
    unfolding user_task_1_start_def s1(1) fbind_simps prod.case k1_def [symmetric] s2(1) k2_def [symmetric]
      s3(1) s4(1) k4_def [symmetric] s5(1) ..
  moreover have "console ?k = console k @
      [(''Dynamic mem alloc 2K - %p'' @ [NL], [0xA2C00008]), (''Dynamic mem alloc 3K - %p'' @ [NL], [0xA2C00810]),
       (''Dynamic mem alloc 4K - %p'' @ [NL], [0xA2C01418]), (''Dynamic mem alloc 1K - %p'' @ [NL], [0xA2C00810])]"
    by (simp add: k4_def k2_def k1_def)
  ultimately show ?thesis using s5 by (intro exI [of _ ?k]) simp
qed

text \<open>
  The user task on a fresh heap: it prints the addresses of four areas, the fourth request
  reuses the released second area (the larger third request did not fit there), and the heap
  ends as three used blocks.
\<close>
theorem user_task_allocations:
  assumes "kernel_inv k" and "heap_wf (memmng k) (ram k) []"
  shows "\<exists>k'. user_task_1_start drivers k = Inr k' \<and>
    heap_wf (memmng k') (ram k') [(True, 2056), (True, 3080), (True, 4104)] \<and>
    console k' = console k @
      [(''Dynamic mem alloc 2K - %p'' @ [NL], [0xA2C00008]), (''Dynamic mem alloc 3K - %p'' @ [NL], [0xA2C00810]),
       (''Dynamic mem alloc 4K - %p'' @ [NL], [0xA2C01418]), (''Dynamic mem alloc 1K - %p'' @ [NL], [0xA2C00810])]"
  using user_task_start_trace [OF assms] by blast

theorem user_task_allocations_witness:
  "\<exists>k k'. user_task_1_start no_drivers k = Inr k' \<and>
     snd (last (console k')) = [0xA2C00810]"
proof -
  let ?k = "at_task 0 (syscall_init ((kernel_zero (\<lambda>_. 0) 0 0)\<lparr>memmng := mem_init mem_mng_zero,
     msgmng := msg_init msg_mng_zero\<rparr>))"
  have inv: "kernel_inv ?k"
    by (simp add: kernel_inv_def kernel_zero_def sched_ok_def task_mng_zero_def MAXTASKNUM_def ntasks_def
      runs_def at_task_def syscall_init_def msg_init_def mem_init_def)
  have "heap_wf (memmng ?k) (ram ?k) []"
    using heap_wf_init by (simp add: at_task_def syscall_init_def kernel_zero_def)
  from user_task_allocations [OF inv this, of no_drivers] show ?thesis by fastforce
qed

end
