(* ===== verification/Cstring.thy ===== *)
theory Cstring
  imports Prelude
begin

text \<open>
  The string library: \<open>string.c\<close> with the character classes of \<open>stdio.h\<close> and
  \<open>vsprintf.c\<close>. Strings live in the byte memory and pointers are 32-bit addresses, the null
  pointer is 0. A loop that looks for the end of a string need not end, so it is a partial
  function and \<open>None\<close> is not returning; a loop that counts is a recursion on its count.
\<close>

section \<open>Character classes\<close>

text \<open>The mask bits: upper, lower, digit, control, punctuation, space, hex digit, hard space.\<close>

definition ctype_table :: "u8 list" where
  "ctype_table =
     replicate 8 0x08 @
     [0x08, 0x28, 0x28, 0x28, 0x28, 0x28, 0x08, 0x08] @ replicate 16 0x08 @
     [0xA0] @ replicate 15 0x10 @ replicate 10 0x04 @ replicate 6 0x10 @
     [0x10] @ replicate 6 0x41 @ replicate 20 0x01 @ replicate 5 0x10 @
     [0x10] @ replicate 6 0x42 @ replicate 20 0x02 @ replicate 4 0x10 @ [0x08] @
     replicate 32 0 @
     [0xA0] @ replicate 31 0x10 @
     replicate 23 0x01 @ [0x10] @ replicate 7 0x01 @ [0x02] @
     replicate 23 0x02 @ [0x10] @ replicate 8 0x02"

definition ismask :: "u8 \<Rightarrow> u8" where
  "ismask c = ctype_table ! unat c"

definition isdigit :: "u8 \<Rightarrow> bool" where "isdigit c \<longleftrightarrow> ismask c AND 0x04 \<noteq> 0"
definition islower :: "u8 \<Rightarrow> bool" where "islower c \<longleftrightarrow> ismask c AND 0x02 \<noteq> 0"
definition isspace :: "u8 \<Rightarrow> bool" where "isspace c \<longleftrightarrow> ismask c AND 0x20 \<noteq> 0"
definition isupper :: "u8 \<Rightarrow> bool" where "isupper c \<longleftrightarrow> ismask c AND 0x01 \<noteq> 0"

definition tolower :: "u8 \<Rightarrow> u8" where "tolower c = (if isupper c then c + 32 else c)"
definition toupper :: "u8 \<Rightarrow> u8" where "toupper c = (if islower c then c - 32 else c)"

lemmas ctype_defs = isdigit_def islower_def isspace_def isupper_def ismask_def

section \<open>Copying and comparing\<close>

text \<open>\<open>while ((*dest++ = *src++) != 0)\<close>\<close>

partial_function (option) copy_loop :: "mem \<Rightarrow> u32 \<Rightarrow> u32 \<Rightarrow> mem option" where
  "copy_loop m dest src =
     (let m1 = m(dest := m src) in
      if m src = 0 then Some m1 else copy_loop m1 (dest + 1) (src + 1))"

definition strcpy :: "mem \<Rightarrow> u32 \<Rightarrow> u32 \<Rightarrow> mem option" where
  "strcpy m dest src = copy_loop m dest src"

primrec strncpy :: "nat \<Rightarrow> mem \<Rightarrow> u32 \<Rightarrow> u32 \<Rightarrow> mem" where
  "strncpy 0 m dest src = m"
| "strncpy (Suc count) m dest src =
     (let m1 = m(dest := m src) in
      if m src = 0 then m1 else strncpy count m1 (dest + 1) (src + 1))"

text \<open>The address of the terminating zero.\<close>

partial_function (option) str_end :: "mem \<Rightarrow> u32 \<Rightarrow> u32 option" where
  "str_end m p = (if m p = 0 then Some p else str_end m (p + 1))"

definition strcat :: "mem \<Rightarrow> u32 \<Rightarrow> u32 \<Rightarrow> mem option" where
  "strcat m dest src = do { e \<leftarrow> str_end m dest; copy_loop m e src }"

primrec ncat_loop :: "nat \<Rightarrow> mem \<Rightarrow> u32 \<Rightarrow> u32 \<Rightarrow> mem" where
  "ncat_loop 0 m dest src = m"
| "ncat_loop (Suc count) m dest src =
     (let m1 = m(dest := m src) in
      if m src = 0 then m1
      else if count = 0 then m1(dest + 1 := 0)
      else ncat_loop count m1 (dest + 1) (src + 1))"

definition strncat :: "mem \<Rightarrow> u32 \<Rightarrow> u32 \<Rightarrow> nat \<Rightarrow> mem option" where
  "strncat m dest src count =
     (if count = 0 then Some m
      else do { e \<leftarrow> str_end m dest; Some (ncat_loop count m e src) })"

text \<open>A difference of two characters stored in a \<open>signed char\<close>.\<close>

definition char_diff :: "u8 \<Rightarrow> u8 \<Rightarrow> int" where
  "char_diff a b = sint (a - b)"

partial_function (option) strcmp :: "mem \<Rightarrow> u32 \<Rightarrow> u32 \<Rightarrow> int option" where
  "strcmp m cs ct =
     (if char_diff (m cs) (m ct) \<noteq> 0 \<or> m cs = 0 then Some (char_diff (m cs) (m ct))
      else strcmp m (cs + 1) (ct + 1))"

primrec strncmp :: "nat \<Rightarrow> mem \<Rightarrow> u32 \<Rightarrow> u32 \<Rightarrow> int" where
  "strncmp 0 m cs ct = 0"
| "strncmp (Suc count) m cs ct =
     (if char_diff (m cs) (m ct) \<noteq> 0 \<or> m cs = 0 then char_diff (m cs) (m ct)
      else strncmp count m (cs + 1) (ct + 1))"

text \<open>\<open>c1\<close>, \<open>c2\<close> keep the characters compared last, lower-cased when they differed.\<close>

primrec nicmp_loop :: "nat \<Rightarrow> mem \<Rightarrow> u32 \<Rightarrow> u32 \<Rightarrow> u8 \<Rightarrow> u8 \<Rightarrow> int" where
  "nicmp_loop 0 m s1 s2 c1 c2 = uint c1 - uint c2"
| "nicmp_loop (Suc len) m s1 s2 c1 c2 =
     (let c1 = m s1; c2 = m s2 in
      if c1 = 0 \<or> c2 = 0 then uint c1 - uint c2
      else if c1 = c2 then nicmp_loop len m (s1 + 1) (s2 + 1) c1 c2
      else (let c1 = tolower c1; c2 = tolower c2 in
            if c1 \<noteq> c2 then uint c1 - uint c2
            else nicmp_loop len m (s1 + 1) (s2 + 1) c1 c2))"

definition strnicmp :: "mem \<Rightarrow> u32 \<Rightarrow> u32 \<Rightarrow> nat \<Rightarrow> int" where
  "strnicmp m s1 s2 len = nicmp_loop len m s1 s2 0 0"

section \<open>Searching\<close>

partial_function (option) strchr :: "mem \<Rightarrow> u32 \<Rightarrow> u8 \<Rightarrow> u32 option" where
  "strchr m s c =
     (if m s = c then Some s else if m s = 0 then Some 0 else strchr m (s + 1) c)"

definition strlen :: "mem \<Rightarrow> u32 \<Rightarrow> u32 option" where
  "strlen m s = do { e \<leftarrow> str_end m s; Some (e - s) }"

partial_function (option) rchr_loop :: "mem \<Rightarrow> u32 \<Rightarrow> u8 \<Rightarrow> u32 \<Rightarrow> u32 option" where
  "rchr_loop m s c p =
     (if m p = c then Some p else if s \<le> p - 1 then rchr_loop m s c (p - 1) else Some 0)"

definition strrchr :: "mem \<Rightarrow> u32 \<Rightarrow> u8 \<Rightarrow> u32 option" where
  "strrchr m s c = do { n \<leftarrow> strlen m s; rchr_loop m s c (s + n) }"

primrec nlen_loop :: "nat \<Rightarrow> mem \<Rightarrow> u32 \<Rightarrow> nat" where
  "nlen_loop 0 m s = 0"
| "nlen_loop (Suc count) m s = (if m s = 0 then 0 else Suc (nlen_loop count m (s + 1)))"

definition strnlen :: "mem \<Rightarrow> u32 \<Rightarrow> nat \<Rightarrow> nat" where
  "strnlen m s count = nlen_loop count m s"

text \<open>Whether a character other than the zero occurs in a string.\<close>

partial_function (option) in_set_loop :: "mem \<Rightarrow> u8 \<Rightarrow> u32 \<Rightarrow> bool option" where
  "in_set_loop m c a =
     (if m a = 0 then Some False else if m a = c then Some True else in_set_loop m c (a + 1))"

partial_function (option) strspn_loop :: "mem \<Rightarrow> u32 \<Rightarrow> u32 \<Rightarrow> u32 \<Rightarrow> u32 option" where
  "strspn_loop m p accept count =
     (if m p = 0 then Some count
      else do { b \<leftarrow> in_set_loop m (m p) accept;
                if b then strspn_loop m (p + 1) accept (count + 1) else Some count })"

definition strspn :: "mem \<Rightarrow> u32 \<Rightarrow> u32 \<Rightarrow> u32 option" where
  "strspn m s accept = strspn_loop m s accept 0"

partial_function (option) strpbrk :: "mem \<Rightarrow> u32 \<Rightarrow> u32 \<Rightarrow> u32 option" where
  "strpbrk m cs ct =
     (if m cs = 0 then Some 0
      else do { b \<leftarrow> in_set_loop m (m cs) ct; if b then Some cs else strpbrk m (cs + 1) ct })"

text \<open>\<open>strtok\<close>: the result, the new \<open>___strtok\<close> and the memory.\<close>

definition strtok :: "mem \<Rightarrow> u32 \<Rightarrow> u32 \<Rightarrow> u32 \<Rightarrow> (u32 \<times> u32 \<times> mem) option" where
  "strtok m strtok_ptr s ct =
     (let sbegin = (if s \<noteq> 0 then s else strtok_ptr) in
      if sbegin = 0 then Some (0, strtok_ptr, m)
      else do {
        n \<leftarrow> strspn m sbegin ct;
        let sbegin = sbegin + n;
        if m sbegin = 0 then Some (0, 0, m)
        else do {
          send \<leftarrow> strpbrk m sbegin ct;
          if send \<noteq> 0 \<and> m send \<noteq> 0 then Some (sbegin, send + 1, m(send := 0))
          else Some (sbegin, send, m) } })"

text \<open>\<open>strsep\<close>: the result, the new value of \<open>*s\<close> and the memory.\<close>

definition strsep :: "mem \<Rightarrow> u32 \<Rightarrow> u32 \<Rightarrow> (u32 \<times> u32 \<times> mem) option" where
  "strsep m sbegin ct =
     (if sbegin = 0 then Some (0, sbegin, m)
      else do { e \<leftarrow> strpbrk m sbegin ct;
                if e \<noteq> 0 then Some (sbegin, e + 1, m(e := 0)) else Some (sbegin, e, m) })"

section \<open>Blocks of memory\<close>

primrec memset :: "nat \<Rightarrow> mem \<Rightarrow> u32 \<Rightarrow> u8 \<Rightarrow> mem" where
  "memset 0 m s c = m"
| "memset (Suc count) m s c = memset count (m(s := c)) (s + 1) c"

primrec memcpy :: "nat \<Rightarrow> mem \<Rightarrow> u32 \<Rightarrow> u32 \<Rightarrow> mem" where
  "memcpy 0 m dest src = m"
| "memcpy (Suc count) m dest src = memcpy count (m(dest := m src)) (dest + 1) (src + 1)"

definition bcopy :: "mem \<Rightarrow> u32 \<Rightarrow> u32 \<Rightarrow> nat \<Rightarrow> mem" where
  "bcopy m src dest count = memcpy count m dest src"

text \<open>The descending half of \<open>memmove\<close>; both pointers are one past the next byte.\<close>

primrec move_down :: "nat \<Rightarrow> mem \<Rightarrow> u32 \<Rightarrow> u32 \<Rightarrow> mem" where
  "move_down 0 m tmp s = m"
| "move_down (Suc count) m tmp s = move_down count (m(tmp - 1 := m (s - 1))) (tmp - 1) (s - 1)"

definition memmove :: "nat \<Rightarrow> mem \<Rightarrow> u32 \<Rightarrow> u32 \<Rightarrow> mem" where
  "memmove count m dest src =
     (if dest \<le> src then memcpy count m dest src
      else move_down count m (dest + of_nat count) (src + of_nat count))"

primrec memcmp :: "nat \<Rightarrow> mem \<Rightarrow> u32 \<Rightarrow> u32 \<Rightarrow> int" where
  "memcmp 0 m cs ct = 0"
| "memcmp (Suc count) m cs ct =
     (if char_diff (m cs) (m ct) \<noteq> 0 then char_diff (m cs) (m ct)
      else memcmp count m (cs + 1) (ct + 1))"

text \<open>The byte is compared with the whole \<open>int\<close>.\<close>

primrec memscan :: "nat \<Rightarrow> mem \<Rightarrow> u32 \<Rightarrow> int \<Rightarrow> u32" where
  "memscan 0 m p c = p"
| "memscan (Suc sz) m p c = (if uint (m p) = c then p else memscan sz m (p + 1) c)"

primrec memchr :: "nat \<Rightarrow> mem \<Rightarrow> u32 \<Rightarrow> u8 \<Rightarrow> u32" where
  "memchr 0 m p c = 0"
| "memchr (Suc n) m p c = (if c = m p then p else memchr n m (p + 1) c)"

text \<open>\<open>l1 - l2 + 1\<close> comparisons at most; the lengths are \<open>int\<close>s.\<close>

primrec strstr_loop :: "nat \<Rightarrow> nat \<Rightarrow> mem \<Rightarrow> u32 \<Rightarrow> u32 \<Rightarrow> u32" where
  "strstr_loop 0 l2 m s1 s2 = 0"
| "strstr_loop (Suc k) l2 m s1 s2 =
     (if memcmp l2 m s1 s2 = 0 then s1 else strstr_loop k l2 m (s1 + 1) s2)"

definition strstr :: "mem \<Rightarrow> u32 \<Rightarrow> u32 \<Rightarrow> u32 option" where
  "strstr m s1 s2 = do {
     l2 \<leftarrow> strlen m s2;
     if l2 = 0 then Some s1
     else do {
       l1 \<leftarrow> strlen m s1;
       Some (strstr_loop (nat (sint l1 - sint l2 + 1)) (unat l2) m s1 s2) } }"

partial_function (option) UpperStr :: "mem \<Rightarrow> u32 \<Rightarrow> mem option" where
  "UpperStr m p = (if m p = 0 then Some m else UpperStr (m(p := toupper (m p))) (p + 1))"

partial_function (option) LowerStr :: "mem \<Rightarrow> u32 \<Rightarrow> mem option" where
  "LowerStr m p = (if m p = 0 then Some m else LowerStr (m(p := tolower (m p))) (p + 1))"

section \<open>Numbers\<close>

text \<open>The value of a digit in the loop of \<open>strtoul\<close>, if the character is one in this base.\<close>

definition digit_val :: "int \<Rightarrow> u8 \<Rightarrow> int option" where
  "digit_val base c =
     (if 48 \<le> c \<and> c \<le> 57 \<and> uint c - 48 < base then Some (uint c - 48)
      else if 97 \<le> c \<and> c \<le> 122 \<and> uint c - 97 + 10 < base then Some (uint c - 97 + 10)
      else if 65 \<le> c \<and> c \<le> 90 \<and> uint c - 65 + 10 < base then Some (uint c - 65 + 10)
      else None)"

partial_function (option) strtoul_loop :: "mem \<Rightarrow> u32 \<Rightarrow> int \<Rightarrow> u32 \<Rightarrow> (u32 \<times> u32) option" where
  "strtoul_loop m p base v =
     (case digit_val base (m p) of
        None \<Rightarrow> Some (v, p)
      | Some d \<Rightarrow> strtoul_loop m (p + 1) base (v * word_of_int base + word_of_int d))"

partial_function (option) skip_space :: "mem \<Rightarrow> u32 \<Rightarrow> u32 option" where
  "skip_space m p = (if isspace (m p) then skip_space m (p + 1) else Some p)"

text \<open>\<open>strtoul\<close>: the value and the address after the number.\<close>

definition strtoul :: "mem \<Rightarrow> u32 \<Rightarrow> int \<Rightarrow> (u32 \<times> u32) option" where
  "strtoul m p base = do {
     p \<leftarrow> skip_space m p;
     let hex = (base = 16 \<or> base = 0) \<and> m p = 48 \<and> (m (p + 1) = 120 \<or> m (p + 1) = 88);
     let p = (if hex then p + 2 else p);
     let base = (if hex then 16 else base);
     let base = (if base = 0 then (if m p = 48 then 8 else 10) else base);
     strtoul_loop m p base 0 }"

lemma sint_u8_eq_0 [simp]: "(sint (a :: u8) = 0) = (a = 0)"
  using signed_word_eqI [of a 0] by auto

section \<open>Strings in memory\<close>

primrec cstr :: "mem \<Rightarrow> u32 \<Rightarrow> u8 list \<Rightarrow> bool" where
  "cstr m p [] \<longleftrightarrow> m p = 0"
| "cstr m p (c # cs) \<longleftrightarrow> m p = c \<and> c \<noteq> 0 \<and> cstr m (p + 1) cs"

lemma cstr_nth: "cstr m p cs \<longleftrightarrow>
   (\<forall>i < length cs. m (p + of_nat i) = cs ! i \<and> cs ! i \<noteq> 0) \<and> m (p + of_nat (length cs)) = 0"
proof (induction cs arbitrary: p)
  case (Cons c cs)
  show ?case by (auto simp: Cons.IH add.assoc less_Suc_eq_0_disj)
qed simp

lemma cstr_cong: "cstr m p cs \<Longrightarrow> (\<And>i. i \<le> length cs \<Longrightarrow> m' (p + of_nat i) = m (p + of_nat i)) \<Longrightarrow> cstr m' p cs"
  by (simp add: cstr_nth)

lemma str_end_cstr: "cstr m p cs \<Longrightarrow> str_end m p = Some (p + of_nat (length cs))"
  by (induction cs arbitrary: p) (simp_all add: str_end.simps add.assoc)

lemma strlen_cstr: "cstr m p cs \<Longrightarrow> strlen m p = Some (of_nat (length cs))"
  by (simp add: strlen_def str_end_cstr)

lemma strcmp_cstr:
  assumes "cstr m p cs" and "cstr m q ds"
  shows "\<exists>r. strcmp m p q = Some r \<and> (r = 0 \<longleftrightarrow> cs = ds)"
  using assms
proof (induction cs arbitrary: p q ds)
  case Nil
  then show ?case by (cases ds) (auto simp: strcmp.simps [of m p q] char_diff_def)
next
  case (Cons c cs)
  show ?case
  proof (cases ds)
    case Nil
    with Cons.prems show ?thesis by (simp add: strcmp.simps [of m p q] char_diff_def)
  next
    case (Cons d ds')
    with Cons.prems Cons.IH [of "p + 1" "q + 1" ds'] show ?thesis
      by (auto simp: strcmp.simps [of m p q] char_diff_def)
  qed
qed

section \<open>Copying\<close>

lemma copy_loop_cstr:
  assumes "cstr m src cs" and "length cs < 2 ^ 32"
    and "\<And>i j. i \<le> length cs \<Longrightarrow> j \<le> length cs \<Longrightarrow> dest + of_nat i \<noteq> src + of_nat j"
  shows "copy_loop m dest src = Some (write_bytes m dest (cs @ [0]))"
  using assms
proof (induction cs arbitrary: m dest src)
  case Nil
  have "write_bytes m dest ([] @ [0]) = m(dest := 0)" by simp
  with Nil(1) show "copy_loop m dest src = Some (write_bytes m dest ([] @ [0]))" unfolding copy_loop.simps [of m dest src] by (simp add: Let_def)
next
  case (Cons c cs)
  let ?m = "m(dest := c)"
  have "dest \<noteq> src + 1 + of_nat j" if "j \<le> length cs" for j
    using Cons.prems(3) [of 0 "Suc j"] that by (simp add: add.assoc)
  then have upd: "?m (src + 1 + of_nat j) = m (src + 1 + of_nat j)" if "j \<le> length cs" for j
    using that by (metis fun_upd_other)
  have "cstr m (src + 1) cs" using Cons.prems(1) by simp
  then have "cstr ?m (src + 1) cs" by (rule cstr_cong) (rule upd)
  moreover have "\<And>i j. i \<le> length cs \<Longrightarrow> j \<le> length cs \<Longrightarrow> dest + 1 + of_nat i \<noteq> src + 1 + of_nat j"
  proof -
    fix i j assume "i \<le> length cs" "j \<le> length cs"
    with Cons.prems(3) [of "Suc i" "Suc j"] show "dest + 1 + of_nat i \<noteq> src + 1 + of_nat j"
      by (simp add: add.assoc)
  qed
  moreover have "length cs < 2 ^ 32" using Cons.prems(2) by simp
  ultimately have "copy_loop ?m (dest + 1) (src + 1) = Some (write_bytes ?m (dest + 1) (cs @ [0]))"
    by (intro Cons.IH)
  moreover have "m src = c" "c \<noteq> 0" using Cons.prems(1) by simp_all
  ultimately show "copy_loop m dest src = Some (write_bytes m dest ((c # cs) @ [0]))"
    unfolding copy_loop.simps [of m dest src] by (simp add: Let_def)
qed

text \<open>Searching a string, and reading it back.\<close>

lemma in_set_loop_cstr: "cstr m a ds \<Longrightarrow> in_set_loop m c a = Some (c \<in> set ds)"
  by (induction ds arbitrary: a) (simp_all add: in_set_loop.simps, (auto simp: in_set_loop.simps)?)

lemma cstr_append: "cstr m p (xs @ ys) \<Longrightarrow> cstr m (p + of_nat (length xs)) ys"
  by (induction xs arbitrary: p) (simp_all add: add.assoc [symmetric])

lemma strpbrk_cstr:
  assumes "cstr m p cs" and "cstr m q ds"
  shows "strpbrk m p q = Some (if set cs \<inter> set ds = {} then 0 else p + of_nat (length (takeWhile (\<lambda>c. c \<notin> set ds) cs)))"
  using assms(1)
proof (induction cs arbitrary: p)
  case (Cons c cs)
  then show ?case using in_set_loop_cstr [OF assms(2)] by (subst strpbrk.simps) (auto simp: add.assoc)
qed (simp add: strpbrk.simps)

lemma read_cstr: "cstr m s cs \<Longrightarrow> n \<le> length cs \<Longrightarrow> read_bytes m s n = take n cs"
  by (rule nth_equalityI) (auto simp: nth_read_bytes cstr_nth)

text \<open>\<open>memcpy\<close> and the two halves of \<open>memmove\<close> against reading the block first.\<close>

lemma cstr_read: "cstr m p cs \<longleftrightarrow> read_bytes m p (Suc (length cs)) = cs @ [0] \<and> 0 \<notin> set cs"
  by (induction cs arbitrary: p) auto

lemma memset_write: "memset n m p c = write_bytes m p (replicate n c)"
  by (induction n arbitrary: m p) auto

lemma memcpy_ascending:
  assumes "\<And>i j. i < j \<Longrightarrow> j < n \<Longrightarrow> dest + of_nat i \<noteq> src + of_nat j"
  shows "memcpy n m dest src = write_bytes m dest (read_bytes m src n)"
  using assms
proof (induction n arbitrary: m dest src)
  case (Suc n)
  have *: "dest \<noteq> src + 1 + of_nat j" if "j < n" for j
    using Suc.prems [of 0 "Suc j"] that by (simp add: add.assoc)
  have "read_bytes (m(dest := m src)) (src + 1) n = read_bytes m (src + 1) n"
    by (rule nth_equalityI) (use * in \<open>auto simp: nth_read_bytes\<close>)
  moreover have "\<And>i j. i < j \<Longrightarrow> j < n \<Longrightarrow> dest + 1 + of_nat i \<noteq> src + 1 + of_nat j"
  proof -
    fix i j assume that: "i < j" "j < n"
    show "dest + 1 + of_nat i \<noteq> src + 1 + of_nat j"
      using Suc.prems [of "Suc i" "Suc j"] that by (simp add: add.assoc)
  qed
  then have "memcpy n (m(dest := m src)) (dest + 1) (src + 1) =
      write_bytes (m(dest := m src)) (dest + 1) (read_bytes (m(dest := m src)) (src + 1) n)"
    by (rule Suc.IH)
  ultimately show ?case by simp
qed simp

lemma move_down_descending:
  assumes "\<And>i j. j < i \<Longrightarrow> i < n \<Longrightarrow> dest + of_nat i \<noteq> src + of_nat j" and "n \<le> 2 ^ 32"
  shows "move_down n m (dest + of_nat n) (src + of_nat n) = write_bytes m dest (read_bytes m src n)"
  using assms
proof (induction n arbitrary: m)
  case (Suc n)
  let ?m = "m(dest + of_nat n := m (src + of_nat n))"
  have "read_bytes ?m src n = read_bytes m src n"
  proof (rule nth_equalityI)
    fix i assume "i < length (read_bytes ?m src n)"
    then have "i < n" by simp
    with Suc.prems(1) [of i n] have "src + of_nat i \<noteq> dest + of_nat n" by auto
    with \<open>i < n\<close> show "read_bytes ?m src n ! i = read_bytes m src n ! i" by (simp add: nth_read_bytes)
  qed simp
  then have "move_down (Suc n) m (dest + of_nat (Suc n)) (src + of_nat (Suc n)) =
      write_bytes ?m dest (read_bytes m src n)"
  proof -
    have "move_down n ?m (dest + of_nat n) (src + of_nat n) = write_bytes ?m dest (read_bytes ?m src n)"
      by (rule Suc.IH) (use Suc.prems in simp_all)
    with \<open>read_bytes ?m src n = read_bytes m src n\<close> show ?thesis by (simp add: add.assoc [symmetric])
  qed
  also have "\<dots> = (write_bytes m dest (read_bytes m src n))(dest + of_nat n := m (src + of_nat n))"
  proof
    fix x
    show "write_bytes ?m dest (read_bytes m src n) x =
        ((write_bytes m dest (read_bytes m src n))(dest + of_nat n := m (src + of_nat n))) x"
    proof (cases "\<exists>i < n. x = dest + of_nat i")
      case True
      then obtain i where i: "i < n" "x = dest + of_nat i" by blast
      have "(of_nat i :: u32) \<noteq> of_nat n"
        using i Suc.prems(2) by (simp add: word_of_nat_eq_iff take_bit_nat_eq_self)
      with i Suc.prems(2) show ?thesis by (simp add: write_bytes_nth)
    next
      case False
      then have "write_bytes m' dest (read_bytes m src n) x = m' x" for m'
        by (intro write_bytes_other) auto
      then show ?thesis by simp
    qed
  qed
  also have "\<dots> = write_bytes m dest (read_bytes m src (Suc n))"
  proof -
    have "read_bytes m src (Suc n) = read_bytes m src n @ [m (src + of_nat n)]"
      by (rule nth_equalityI) (auto simp: nth_read_bytes nth_append less_Suc_eq simp del: read_bytes.simps)
    then show ?thesis by (simp add: write_bytes_append del: read_bytes.simps)
  qed
  finally show ?case .
qed simp

lemma memmove_block:
  assumes "unat dest + n \<le> 2 ^ 32" and "unat src + n \<le> 2 ^ 32"
  shows "memmove n m dest src = write_bytes m dest (read_bytes m src n)"
proof (cases "dest \<le> src")
  case True
  then have "dest + of_nat i \<noteq> src + of_nat j" if "i < j" "j < n" for i j
    using block_less [OF assms, of i j] that by (auto simp: word_le_nat_alt)
  with True show ?thesis by (simp add: memmove_def memcpy_ascending)
next
  case False
  then have "dest + of_nat i \<noteq> src + of_nat j" if "j < i" "i < n" for i j
    using block_less [OF assms, of i j] that by (auto simp: word_le_nat_alt)
  with False assms show ?thesis by (simp add: memmove_def move_down_descending)
qed

section \<open>Properties\<close>

text \<open>
  C21: \<open>memmove\<close> moves a block correctly however source and destination overlap: afterwards
  the destination holds what the source held, and every other byte is unchanged.
\<close>
theorem memmove_overlap:
  assumes "unat dest + n \<le> 2 ^ 32" and "unat src + n \<le> 2 ^ 32"
  shows "read_bytes (memmove n m dest src) dest n = read_bytes m src n \<and>
    (\<forall>x. (\<forall>i < n. x \<noteq> dest + of_nat i) \<longrightarrow> memmove n m dest src x = m x)"
proof (intro conjI allI impI)
  have "n \<le> 2 ^ 32" using assms by simp
  then show "read_bytes (memmove n m dest src) dest n = read_bytes m src n"
    by (intro nth_equalityI)
      (simp_all add: memmove_block [OF assms] nth_read_bytes write_bytes_nth)
  fix x assume "\<forall>i < n. x \<noteq> dest + of_nat i"
  then show "memmove n m dest src x = m x"
    unfolding memmove_block [OF assms] by (intro write_bytes_other) (metis length_read_bytes)
qed

theorem memmove_overlap_witness:
  "read_bytes (memmove 3 (\<lambda>a. ucast a) 0x102 0x101) 0x102 3 = [1, 2, 3]"
proof -
  have "unat (0x102 :: u32) + 3 \<le> 2 ^ 32" "unat (0x101 :: u32) + 3 \<le> 2 ^ 32" by simp_all
  from memmove_overlap [OF this, THEN conjunct1, of "\<lambda>a. ucast a"]
  have "read_bytes (memmove 3 (\<lambda>a. ucast a) 0x102 0x101) 0x102 3 = read_bytes (\<lambda>a. ucast a) 0x101 3" .
  also have "\<dots> = [1, 2, 3]" by (simp add: numeral_3_eq_3)
  finally show ?thesis .
qed

end
