(* ===== verification/Vsprintf.thy ===== *)
theory Vsprintf
  imports Cstring
begin

text \<open>
  Formatted output: \<open>vsprintf.c\<close> (the same file in the kernel and in the boot loader). The
  format, the output and string arguments are in the byte memory; the variable arguments are
  the 32-bit words \<open>args 0\<close>, \<open>args 1\<close>, ... as the calling convention lays them out.
\<close>

section \<open>Flags\<close>

definition F_ZEROPAD :: u32 where "F_ZEROPAD = 1"
definition F_SIGN :: u32 where "F_SIGN = 2"
definition F_PLUS :: u32 where "F_PLUS = 4"
definition F_SPACE :: u32 where "F_SPACE = 8"
definition F_LEFT :: u32 where "F_LEFT = 16"
definition F_SPECIAL :: u32 where "F_SPECIAL = 32"
definition F_LARGE :: u32 where "F_LARGE = 64"

lemmas flag_defs = F_ZEROPAD_def F_SIGN_def F_PLUS_def F_SPACE_def F_LEFT_def F_SPECIAL_def F_LARGE_def

abbreviation has :: "u32 \<Rightarrow> u32 \<Rightarrow> bool" where "has fl f \<equiv> fl AND f \<noteq> 0"

section \<open>Numbers\<close>

definition DIGITS_LOWER :: "u8 list" where
  "DIGITS_LOWER = map of_nat ([48..<58] @ [97..<123])"

definition DIGITS_UPPER :: "u8 list" where
  "DIGITS_UPPER = map of_nat ([48..<58] @ [65..<91])"

text \<open>
  The digit loop, least significant digit first. \<open>do_div\<close> casts its dividend to
  \<open>unsigned long\<close>, 32 bits, although the variable has 64: the first step drops the upper half.
\<close>

function dig_loop :: "nat \<Rightarrow> nat \<Rightarrow> nat list" where
  "dig_loop base n = (if n = 0 \<or> base < 2 then [] else n mod base # dig_loop base (n div base))"
  by auto
termination by (relation "measure snd") auto

declare dig_loop.simps [simp del]

definition number_digits :: "nat \<Rightarrow> int \<Rightarrow> nat list" where
  "number_digits base num =
     (if num = 0 then [0]
      else (let w = nat (num mod 2 ^ 32) in (w mod base) # dig_loop base (w div base)))"

text \<open>
  The characters \<open>number\<close> appends, \<open>None\<close> when it refuses the base (it then returns a null
  pointer). \<open>sz\<close> and \<open>precision\<close> are its \<open>size\<close> and \<open>precision\<close>.
\<close>

definition number_chars :: "int \<Rightarrow> nat \<Rightarrow> int \<Rightarrow> int \<Rightarrow> u32 \<Rightarrow> u8 list option" where
  "number_chars num base sz precision type =
     (let digits = (if has type F_LARGE then DIGITS_UPPER else DIGITS_LOWER);
          type = (if has type F_LEFT then type AND NOT F_ZEROPAD else type)
      in if base < 2 \<or> 36 < base then None
      else
        (let c = (if has type F_ZEROPAD then 48 else 32);
             sign = (if has type F_SIGN then
                       (if num < 0 then [45] else if has type F_PLUS then [43]
                        else if has type F_SPACE then [32] else [])
                     else []);
             num = (if has type F_SIGN \<and> num < 0 then - num else num);
             special = (if has type F_SPECIAL then
                          (if base = 8 then [48] else if base = 16 then [48, digits ! 33] else [])
                        else []);
             tmp = map (\<lambda>d. digits ! d) (number_digits base num);
             i = int (length tmp);
             precision = (if i > precision then i else precision);
             sz = nat (wrap32 (sz - int (length sign) - int (length special) - precision))
         in Some
              ((if has type F_ZEROPAD \<or> has type F_LEFT then [] else replicate sz 32)
               @ sign @ special
               @ (if has type F_LEFT then [] else if has type F_ZEROPAD then replicate sz c else [])
               @ replicate (nat (precision - i)) 48
               @ rev tmp
               @ (if has type F_LEFT then replicate sz 32 else []))))"

text \<open>Appending characters at the output pointer.\<close>

definition emit :: "u8 list \<Rightarrow> mem \<times> u32 \<Rightarrow> mem \<times> u32" where
  "emit cs = (\<lambda>(m, str). (write_bytes m str cs, str + of_nat (length cs)))"

definition number :: "mem \<Rightarrow> u32 \<Rightarrow> int \<Rightarrow> nat \<Rightarrow> int \<Rightarrow> int \<Rightarrow> u32 \<Rightarrow> mem \<times> u32" where
  "number m str num base sz precision type =
     (case number_chars num base sz precision type of
        None \<Rightarrow> (m, 0) | Some cs \<Rightarrow> emit cs (m, str))"

section \<open>The format\<close>

text \<open>\<open>skip_atoi\<close>: the value and the address after the digits.\<close>

partial_function (option) skip_atoi :: "mem \<Rightarrow> u32 \<Rightarrow> int \<Rightarrow> (int \<times> u32) option" where
  "skip_atoi m s i =
     (if isdigit (m s) then skip_atoi m (s + 1) (wrap32 (i * 10 + uint (m s) - 48)) else Some (i, s))"

text \<open>The flags, from the \<open>%\<close> on; the result is the address of the first other character.\<close>

partial_function (option) fmt_flags :: "mem \<Rightarrow> u32 \<Rightarrow> u32 \<Rightarrow> (u32 \<times> u32) option" where
  "fmt_flags m fmt flags =
     (let fmt = fmt + 1; c = m fmt in
      if c = 45 then fmt_flags m fmt (flags OR F_LEFT)
      else if c = 43 then fmt_flags m fmt (flags OR F_PLUS)
      else if c = 32 then fmt_flags m fmt (flags OR F_SPACE)
      else if c = 35 then fmt_flags m fmt (flags OR F_SPECIAL)
      else if c = 48 then fmt_flags m fmt (flags OR F_ZEROPAD)
      else Some (flags, fmt))"

text \<open>The field width: digits, or \<open>*\<close> and the next argument (\<open>k\<close> counts the arguments used).\<close>

definition fmt_width :: "mem \<Rightarrow> u32 \<Rightarrow> u32 \<Rightarrow> (nat \<Rightarrow> u32) \<Rightarrow> nat \<Rightarrow> (int \<times> u32 \<times> u32 \<times> nat) option" where
  "fmt_width m fmt flags args k =
     (if isdigit (m fmt) then do { (w, fmt) \<leftarrow> skip_atoi m fmt 0; Some (w, flags, fmt, k) }
      else if m fmt = 42 then
        (let w = sint (args k) in
         if w < 0 then Some (wrap32 (- w), flags OR F_LEFT, fmt + 1, k + 1)
         else Some (w, flags, fmt + 1, k + 1))
      else Some (-1, flags, fmt, k))"

definition fmt_precision :: "mem \<Rightarrow> u32 \<Rightarrow> (nat \<Rightarrow> u32) \<Rightarrow> nat \<Rightarrow> (int \<times> u32 \<times> nat) option" where
  "fmt_precision m fmt args k =
     (if m fmt = 46 then
        (let fmt = fmt + 1 in
         if isdigit (m fmt) then do { (p, fmt) \<leftarrow> skip_atoi m fmt 0; Some (max p 0, fmt, k) }
         else if m fmt = 42 then Some (max (sint (args k)) 0, fmt + 1, k + 1)
         else Some (0, fmt, k))
      else Some (-1, fmt, k))"

text \<open>The qualifier character \<open>h\<close>, \<open>l\<close> or \<open>L\<close>, 0 for none.\<close>

definition fmt_qualifier :: "mem \<Rightarrow> u32 \<Rightarrow> u8 \<times> u32" where
  "fmt_qualifier m fmt =
     (if m fmt = 104 \<or> m fmt = 108 \<or> m fmt = 76 then (m fmt, fmt + 1) else (0, fmt))"

text \<open>The argument of an integer conversion, as the \<open>unsigned long num\<close>.\<close>

definition int_arg :: "u8 \<Rightarrow> u32 \<Rightarrow> u32 \<Rightarrow> u32" where
  "int_arg qualifier flags a =
     (if qualifier = 108 then a
      else if qualifier = 104 then
        (if has flags F_SIGN then scast (ucast a :: u16) else ucast (ucast a :: u16))
      else a)"

definition NULL_STR :: "u8 list" where
  "NULL_STR = [60, 78, 85, 76, 76, 62]"

text \<open>
  One conversion, from its letter at \<open>fmt\<close>: the memory, the output pointer, the address of the
  last format character used and the arguments used.
\<close>

definition convert :: "u32 \<Rightarrow> (nat \<Rightarrow> u32) \<Rightarrow> mem \<Rightarrow> u32 \<Rightarrow> u32 \<Rightarrow> nat \<Rightarrow> u32 \<Rightarrow> int \<Rightarrow> int \<Rightarrow> u8 \<Rightarrow>
    mem \<times> u32 \<times> u32 \<times> nat" where
  "convert buf args m str fmt k flags field_width precision qualifier =
     (let c = m fmt in
      if c = 99 then
        (let pad = replicate (nat (field_width - 1)) 32;
             (m, str) = emit ((if has flags F_LEFT then [] else pad) @ [ucast (args k)]
                              @ (if has flags F_LEFT then pad else [])) (m, str)
         in (m, str, fmt, k + 1))
      else if c = 115 then
        (let s = args k;
             count = (if precision = -1 then 4294967295 else nat precision);
             len = (if s = 0 then min count 6 else strnlen m s count);
             pad = replicate (nat (field_width - int len)) 32;
             (m, str) = (if has flags F_LEFT then (m, str) else emit pad (m, str));
             m = (if s = 0 then write_bytes m str (take len NULL_STR) else memcpy len m str s);
             str = str + of_nat len;
             (m, str) = (if has flags F_LEFT then emit pad (m, str) else (m, str))
         in (m, str, fmt, k + 1))
      else if c = 112 then
        (let (w, fl) = (if field_width = -1 then (8, flags OR F_ZEROPAD) else (field_width, flags));
             (m, str) = number m str (uint (args k)) 16 w precision fl
         in (m, str, fmt, k + 1))
      else if c = 110 then (st32 m (args k) (str - buf), str, fmt, k + 1)
      else if c = 111 \<or> c = 88 \<or> c = 120 \<or> c = 100 \<or> c = 105 \<or> c = 117 then
        (let base = (if c = 111 then 8 else if c = 88 \<or> c = 120 then 16 else 10);
             fl = (if c = 88 then flags OR F_LARGE
                   else if c = 100 \<or> c = 105 then flags OR F_SIGN else flags);
             (m, str) = number m str (uint (int_arg qualifier fl (args k))) base field_width precision fl
         in (m, str, fmt, k + 1))
      else
        (let (m, str) = (if c \<noteq> 37 then emit [37] (m, str) else (m, str)) in
         if m fmt \<noteq> 0 then (let (m, str) = emit [m fmt] (m, str) in (m, str, fmt, k))
         else (m, str, fmt - 1, k)))"

partial_function (option) vs_loop :: "u32 \<Rightarrow> (nat \<Rightarrow> u32) \<Rightarrow> mem \<Rightarrow> u32 \<Rightarrow> u32 \<Rightarrow> nat \<Rightarrow> (mem \<times> u32) option" where
  "vs_loop buf args m str fmt k =
     (if m fmt = 0 then Some (m, str)
      else if m fmt \<noteq> 37 then vs_loop buf args (m(str := m fmt)) (str + 1) (fmt + 1) k
      else do {
        (flags, fmt) \<leftarrow> fmt_flags m fmt 0;
        (field_width, flags, fmt, k) \<leftarrow> fmt_width m fmt flags args k;
        (precision, fmt, k) \<leftarrow> fmt_precision m fmt args k;
        let (qualifier, fmt) = fmt_qualifier m fmt;
        let (m, str, fmt, k) = convert buf args m str fmt k flags field_width precision qualifier;
        vs_loop buf args m str (fmt + 1) k })"

text \<open>\<open>vsprintf\<close>: the memory with the terminated output, and its length. \<open>sprintf\<close> is the same.\<close>

definition vsprintf :: "mem \<Rightarrow> u32 \<Rightarrow> u32 \<Rightarrow> (nat \<Rightarrow> u32) \<Rightarrow> (mem \<times> u32) option" where
  "vsprintf m buf fmt args = do {
     (m, str) \<leftarrow> vs_loop buf args m buf fmt 0;
     Some (m(str := 0), str - buf) }"

definition sprintf :: "mem \<Rightarrow> u32 \<Rightarrow> u32 \<Rightarrow> (nat \<Rightarrow> u32) \<Rightarrow> (mem \<times> u32) option" where
  "sprintf m buf fmt args = vsprintf m buf fmt args"

section \<open>Digits\<close>

text \<open>The value of a digit list, the most significant digit first.\<close>

definition digits_value :: "nat \<Rightarrow> nat list \<Rightarrow> nat" where
  "digits_value base ds = foldl (\<lambda>v d. v * base + d) 0 ds"

lemma foldl_digits: "foldl (\<lambda>v d. v * base + d) v ds = v * base ^ length ds + digits_value base ds"
proof (induction ds arbitrary: v)
  case (Cons d ds)
  have "digits_value base (d # ds) = d * base ^ length ds + digits_value base ds"
    unfolding digits_value_def foldl_Cons using Cons.IH [of "0 * base + d"] by (simp add: digits_value_def)
  with Cons.IH [of "v * base + d"] show ?case by (simp add: algebra_simps)
qed (simp add: digits_value_def)

lemma digits_value_snoc: "digits_value base (ds @ [d]) = digits_value base ds * base + d"
  by (simp add: digits_value_def)

lemma dig_loop_0 [simp]: "dig_loop base 0 = []"
  by (subst dig_loop.simps) simp

lemma dig_loop_value: "2 \<le> base \<Longrightarrow> digits_value base (rev (dig_loop base n)) = n"
proof (induction base n rule: dig_loop.induct)
  case (1 base n)
  show ?case
  proof (cases "n = 0")
    case True
    then show ?thesis by (simp add: digits_value_def)
  next
    case False
    with 1 show ?thesis by (subst dig_loop.simps) (simp add: digits_value_snoc)
  qed
qed

lemma dig_loop_less: "2 \<le> base \<Longrightarrow> d \<in> set (dig_loop base n) \<Longrightarrow> d < base"
proof (induction base n rule: dig_loop.induct)
  case (1 base n)
  from 1(3) have "n \<noteq> 0" by (cases "n = 0") auto
  with 1 show ?case by (auto simp: dig_loop.simps [of base n])
qed

lemma number_digits_value:
  assumes "2 \<le> base" and "0 \<le> num" and "num < 2 ^ 32"
  shows "digits_value base (rev (number_digits base num)) = nat num"
proof -
  have "digits_value base (rev (nat num mod base # dig_loop base (nat num div base))) = nat num"
    using dig_loop_value [OF assms(1), of "nat num div base"] by (simp add: digits_value_snoc)
  with assms show ?thesis by (simp add: number_digits_def Let_def digits_value_def)
qed

lemma number_digits_less: "2 \<le> base \<Longrightarrow> d \<in> set (number_digits base num) \<Longrightarrow> d < base"
  by (auto simp: number_digits_def Let_def dest: dig_loop_less split: if_splits)

lemma dig_loop_length: "n < 10 ^ k \<Longrightarrow> length (dig_loop 10 n) \<le> k"
proof (induction k arbitrary: n)
  case 0
  then show ?case by (simp add: dig_loop.simps)
next
  case (Suc k)
  then have "n div 10 < 10 ^ k" by simp
  with Suc.IH show ?case by (subst dig_loop.simps) simp
qed

lemma number_digits_length: "length (number_digits 10 num) \<le> 10 \<and> number_digits 10 num \<noteq> []"
proof -
  have "nat (num mod 2 ^ 32) < 2 ^ 32" by (simp add: nat_less_iff)
  then have "nat (num mod 2 ^ 32) div 10 < 10 ^ 9" by simp
  then have "length (dig_loop 10 (nat (num mod 2 ^ 32) div 10)) \<le> 9" by (rule dig_loop_length)
  then show ?thesis by (simp add: number_digits_def Let_def)
qed

section \<open>Reading digits back\<close>

lemma digits_lower_nth: "d < 36 \<Longrightarrow> DIGITS_LOWER ! d = of_nat (if d < 10 then 48 + d else 87 + d)"
  by (simp add: DIGITS_LOWER_def nth_append del: upt_rec_numeral)

lemma uint_of_nat_u8: "n < 256 \<Longrightarrow> uint (of_nat n :: u8) = int n"
  by (simp add: uint_nat unat_of_nat)

lemma u8_le: "(a :: u8) \<le> b \<longleftrightarrow> uint a \<le> uint b"
  by (simp add: word_le_def)

lemma digit_val_lower:
  assumes "d < base" and "base \<le> 36"
  shows "digit_val (int base) (DIGITS_LOWER ! d) = Some (int d)"
proof -
  from assms have d: "d < 36" by simp
  show ?thesis
  proof (cases "d < 10")
    case True
    have "uint (DIGITS_LOWER ! d) = 48 + int d"
      unfolding digits_lower_nth [OF d] using True by (simp add: uint_of_nat_u8 del: of_nat_add)
    with True assms show ?thesis by (simp add: digit_val_def u8_le)
  next
    case False
    have "uint (DIGITS_LOWER ! d) = 87 + int d"
      unfolding digits_lower_nth [OF d] using False d by (simp add: uint_of_nat_u8 del: of_nat_add)
    with False assms show ?thesis by (simp add: digit_val_def u8_le)
  qed
qed

lemma strtoul_loop_digits:
  assumes "\<And>i. i < length ds \<Longrightarrow> m (p + of_nat i) = DIGITS_LOWER ! (ds ! i)"
    and "\<And>d. d \<in> set ds \<Longrightarrow> d < base" and "base \<le> 36"
    and "digit_val (int base) (m (p + of_nat (length ds))) = None"
  shows "strtoul_loop m p (int base) (of_nat v) =
    Some (of_nat (foldl (\<lambda>v d. v * base + d) v ds), p + of_nat (length ds))"
  using assms(1,2,4)
proof (induction ds arbitrary: p v)
  case Nil
  then show ?case by (simp add: strtoul_loop.simps)
next
  case (Cons d ds)
  have d: "digit_val (int base) (m p) = Some (int d)"
    using Cons.prems(1) [of 0] Cons.prems(2) [of d] assms(3) by (simp add: digit_val_lower)
  have "strtoul_loop m (p + 1) (int base) (of_nat (v * base + d)) =
      Some (of_nat (foldl (\<lambda>v d. v * base + d) (v * base + d) ds), p + 1 + of_nat (length ds))"
  proof (rule Cons.IH)
    fix i assume "i < length ds"
    then show "m (p + 1 + of_nat i) = DIGITS_LOWER ! (ds ! i)"
      using Cons.prems(1) [of "Suc i"] by (simp add: add.assoc)
  next
    fix e assume "e \<in> set ds"
    then show "e < base" using Cons.prems(2) by simp
  next
    show "digit_val (int base) (m (p + 1 + of_nat (length ds))) = None"
      using Cons.prems(3) by (simp add: add.assoc)
  qed
  then show ?case using d by (subst strtoul_loop.simps) (simp add: add.assoc)
qed

lemma digit_not_space: "d < 10 \<Longrightarrow> \<not> isspace (DIGITS_LOWER ! d)"
proof -
  assume "d < 10"
  then have "d \<in> {0,1,2,3,4,5,6,7,8,9}" by auto
  then show ?thesis
    by (elim insertE emptyE) (simp_all add: digits_lower_nth ctype_defs ctype_table_def nth_append)
qed

lemma strtoul_decimal:
  assumes "cstr m p (map (\<lambda>d. DIGITS_LOWER ! d) ds)" and "ds \<noteq> []" and "\<And>d. d \<in> set ds \<Longrightarrow> d < 10"
  shows "strtoul m p 10 = Some (of_nat (digits_value 10 ds), p + of_nat (length ds))"
proof -
  obtain d ds' where ds: "ds = d # ds'" using assms(2) by (cases ds) auto
  then have "skip_space m p = Some p"
    using assms(1,3) digit_not_space [of d] by (simp add: skip_space.simps)
  moreover have "digit_val 10 0 = None" by (simp add: digit_val_def u8_le)
  then have "strtoul_loop m p 10 0 = Some (of_nat (digits_value 10 ds), p + of_nat (length ds))"
    using strtoul_loop_digits [of ds m p 10 0] assms(1,3) by (simp add: cstr_nth digits_value_def)
  ultimately show ?thesis by (simp add: strtoul_def)
qed


section \<open>Whole conversions\<close>

lemma number_chars_plain:
  assumes "fl \<in> {0, F_SIGN}" and "0 \<le> num" and "2 \<le> base" "base \<le> 36"
    and "length (number_digits base num) < 2147483647"
  shows "number_chars num base (-1) (-1) fl = Some (map (\<lambda>d. DIGITS_LOWER ! d) (rev (number_digits base num)))"
proof -
  let ?i = "int (length (number_digits base num))"
  have "in_int32 (- 1 - ?i)" using assms(5) by (simp add: in_int32_def)
  then have w: "wrap32 (- 1 - ?i) = - 1 - ?i" by simp
  have flags: "\<not> has fl F_LARGE" "\<not> has fl F_LEFT" "\<not> has fl F_ZEROPAD" "\<not> has fl F_PLUS"
    "\<not> has fl F_SPACE" "\<not> has fl F_SPECIAL"
    using assms(1) by (auto simp: flag_defs)
  show ?thesis
    using assms(2-4) unfolding number_chars_def Let_def by (simp add: flags w rev_map)
qed

lemma isdigit_d_u [simp]: "\<not> isdigit 100" "\<not> isdigit 117"
  by (simp_all add: ctype_defs ctype_table_def nth_append)

text \<open>The output of a format that is one plain decimal conversion.\<close>

lemma vsprintf_decimal:
  fixes args :: "nat \<Rightarrow> u32"
  assumes fmt: "cstr m fmt [37, c]" and c: "c \<in> {100, 117}"
    and apart: "\<And>i j. i \<le> 10 \<Longrightarrow> j \<le> 2 \<Longrightarrow> buf + of_nat i \<noteq> fmt + of_nat j"
  defines "cs \<equiv> map (\<lambda>d. DIGITS_LOWER ! d) (rev (number_digits 10 (uint (args 0))))"
  shows "vsprintf m buf fmt args = Some (write_bytes m buf (cs @ [0]), of_nat (length cs))"
proof -
  from fmt have f: "m fmt = 37" "m (fmt + 1) = c" "m (fmt + 2) = 0"
    by (simp_all add: add.commute)
  have len: "length cs \<le> 10" using number_digits_length [of "uint (args 0)"] by (simp add: cs_def)
  let ?m1 = "write_bytes m buf cs" and ?s1 = "buf + of_nat (length cs)"
  have keep: "?m1 (fmt + 2) = 0"
  proof -
    have "?m1 (fmt + 2) = m (fmt + 2)"
    proof (rule write_bytes_other)
      fix i assume "i < length cs"
      with apart [of i 2] len show "buf + of_nat i \<noteq> fmt + 2" by simp
    qed
    with f show ?thesis by simp
  qed
  have "number_chars (uint (args 0)) 10 (-1) (-1) fl = Some cs" if "fl \<in> {0, F_SIGN}" for fl
    using number_chars_plain [OF that, of "uint (args 0)" 10] number_digits_length [of "uint (args 0)"]
    by (simp add: cs_def)
  then have num: "number m buf (uint (args 0)) 10 (-1) (-1) 0 = (?m1, ?s1)"
    "number m buf (uint (args 0)) 10 (-1) (-1) F_SIGN = (?m1, ?s1)"
    by (simp_all add: number_def emit_def)
  have conv: "convert buf args m buf (fmt + 1) 0 0 (-1) (-1) 0 = (?m1, ?s1, fmt + 1, 1)"
    using c num f(2) by (auto simp: convert_def int_arg_def)
  have "fmt_flags m fmt 0 = Some (0, fmt + 1)" using f c by (auto simp: fmt_flags.simps [of m fmt])
  moreover have "fmt_width m (fmt + 1) 0 args 0 = Some (-1, 0, fmt + 1, 0)"
    using f c by (auto simp: fmt_width_def)
  moreover have "fmt_precision m (fmt + 1) args 0 = Some (-1, fmt + 1, 0)"
    using f c by (auto simp: fmt_precision_def)
  moreover have "fmt_qualifier m (fmt + 1) = (0, fmt + 1)"
    using f c by (auto simp: fmt_qualifier_def)
  ultimately have "vs_loop buf args m buf fmt 0 = vs_loop buf args ?m1 ?s1 (fmt + 2) 1"
    using f conv by (subst vs_loop.simps) (simp add: add.assoc)
  also have "\<dots> = Some (?m1, ?s1)" using keep by (subst vs_loop.simps) simp
  finally show ?thesis by (simp add: vsprintf_def write_bytes_append)
qed

lemma cstr_write_bytes:
  assumes "0 \<notin> set cs" and "length cs < 2 ^ 32"
  shows "cstr (write_bytes m buf (cs @ [0])) buf cs"
proof -
  have "write_bytes m buf (cs @ [0]) (buf + of_nat i) = (cs @ [0]) ! i" if "i \<le> length cs" for i
    by (rule write_bytes_nth) (use that assms(2) in simp_all)
  then show ?thesis using assms(1) by (auto simp: cstr_nth nth_append in_set_conv_nth)
qed

lemma digits_lower_char: "d < 10 \<Longrightarrow> DIGITS_LOWER ! d \<notin> {0, 45}"
proof -
  assume "d < 10"
  then have "d \<in> {0,1,2,3,4,5,6,7,8,9}" by auto
  then show ?thesis by (elim insertE emptyE) (simp_all add: digits_lower_nth)
qed

section \<open>Properties\<close>

text \<open>
  C22: What \<open>%d\<close> or \<open>%u\<close> prints, \<open>strtoul\<close> reads back: the text is the decimal value of the
  argument's 32 bits, terminated in place. It is the unsigned value for \<open>%d\<close> too: no minus
  sign is ever printed, since \<open>number\<close> receives the argument zero-extended.
\<close>
theorem print_read_roundtrip:
  assumes "cstr m fmt [37, c]" and "c \<in> {100, 117}"
    and "\<And>i j. i \<le> 10 \<Longrightarrow> j \<le> 2 \<Longrightarrow> buf + of_nat i \<noteq> fmt + of_nat j"
  shows "\<exists>m' n. vsprintf m buf fmt args = Some (m', n) \<and>
    strtoul m' buf 10 = Some (args 0, buf + n) \<and>
    (\<exists>cs. cstr m' buf cs \<and> n = of_nat (length cs) \<and> 45 \<notin> set cs)"
proof -
  let ?ds = "rev (number_digits 10 (uint (args 0)))"
  let ?cs = "map (\<lambda>d. DIGITS_LOWER ! d) ?ds"
  have less: "\<And>d. d \<in> set ?ds \<Longrightarrow> d < 10" using number_digits_less [of 10] by auto
  have len: "length ?cs \<le> 10" "?ds \<noteq> []" using number_digits_length [of "uint (args 0)"] by simp_all
  have set: "0 \<notin> set ?cs" "45 \<notin> set ?cs" using less digits_lower_char by fastforce+
  have v: "digits_value 10 ?ds = unat (args 0)"
    using number_digits_value [of 10 "uint (args 0)"] uint_lt2p [of "args 0"] by (simp add: nat_uint_eq)
  have c: "cstr (write_bytes m buf (?cs @ [0])) buf ?cs" by (rule cstr_write_bytes) (use set len in simp_all)
  from strtoul_decimal [OF c len(2) less] v
  have "strtoul (write_bytes m buf (?cs @ [0])) buf 10 = Some (args 0, buf + of_nat (length ?cs))" by simp
  with vsprintf_decimal [OF assms] c set(2) show ?thesis by blast
qed

theorem print_read_roundtrip_witness:
  "\<exists>m' n. vsprintf ((\<lambda>_. 0)(0x200 := 37, 0x201 := 100)) 0x100 0x200 (\<lambda>_. -1) = Some (m', n) \<and>
     strtoul m' 0x100 10 = Some (4294967295, 0x100 + n)"
proof -
  have "\<And>i j. i \<le> 10 \<Longrightarrow> j \<le> 2 \<Longrightarrow> (0x100 :: u32) + of_nat i \<noteq> 0x200 + of_nat j"
  proof -
    fix i j :: nat assume "i \<le> 10" "j \<le> 2"
    then show "(0x100 :: u32) + of_nat i \<noteq> 0x200 + of_nat j"
      using block_less [of "0x100" 11 "0x200" i j] by auto
  qed
  from print_read_roundtrip [OF _ _ this, of "(\<lambda>_. 0)(0x200 := 37, 0x201 := 100)" 100 "\<lambda>_. -1"]
  show ?thesis by auto
qed

end
