(* ===== verification/Vscanf.thy ===== *)
theory Vscanf
  imports Vsprintf
begin

text \<open>
  Formatted input: \<open>vscanf.c\<close>. \<open>_doscan\<close> reads characters through \<open>readchar\<close> and puts one
  back with \<open>unchar\<close>, which move the string pointer \<open>s\<close>; the results are stored through the
  pointers \<open>args 0\<close>, \<open>args 1\<close>, ...
\<close>

text \<open>The digit values of \<open>%d\<close>, \<open>%o\<close> and \<open>%x\<close>.\<close>

definition dec_digit :: "u8 \<Rightarrow> u32 option" where
  "dec_digit c = (if 48 \<le> c \<and> c \<le> 57 then Some (ucast c - 48) else None)"

definition oct_digit :: "u8 \<Rightarrow> u32 option" where
  "oct_digit c = (if 48 \<le> c \<and> c \<le> 55 then Some (ucast c - 48) else None)"

definition hex_digit :: "u8 \<Rightarrow> u32 option" where
  "hex_digit c =
     (if 48 \<le> c \<and> c \<le> 57 then Some (ucast c - 48)
      else if 97 \<le> c \<and> c \<le> 102 then Some (ucast c - 97 + 10)
      else if 65 \<le> c \<and> c \<le> 70 then Some (ucast c - 65 + 10)
      else None)"

text \<open>The digits from \<open>s\<close> on; the result points to the first other character, put back.\<close>

partial_function (option) scan_digits :: "(u8 \<Rightarrow> u32 option) \<Rightarrow> u32 \<Rightarrow> mem \<Rightarrow> u32 \<Rightarrow> u32 \<Rightarrow> (u32 \<times> u32) option" where
  "scan_digits dig base m s n =
     (case dig (m s) of
        None \<Rightarrow> Some (n, s)
      | Some d \<Rightarrow> scan_digits dig base m (s + 1) (n * base + d))"

text \<open>An integer conversion: an optional minus sign, the digits, the store unless discarded.\<close>

definition scan_int :: "(u8 \<Rightarrow> u32 option) \<Rightarrow> u32 \<Rightarrow> bool \<Rightarrow> (nat \<Rightarrow> u32) \<Rightarrow> mem \<Rightarrow> u32 \<Rightarrow> nat \<Rightarrow> (mem \<times> u32 \<times> nat) option" where
  "scan_int dig base discard args m s k = do {
     let neg = (m s = 45);
     let s = (if neg then s + 1 else s);
     (n, s) \<leftarrow> scan_digits dig base m s 0;
     let n = (if neg then - n else n);
     if discard then Some (m, s, k) else Some (st32 m (args k) n, s, k + 1) }"

text \<open>The characters up to the next white space; a zero character does not end them.\<close>

partial_function (option) scan_chars :: "mem \<Rightarrow> u32 \<Rightarrow> u32 option \<Rightarrow> (mem \<times> u32 \<times> u32 option) option" where
  "scan_chars m s buf =
     (if isspace (m s) then Some (m, s, buf)
      else (case buf of
              None \<Rightarrow> scan_chars m (s + 1) None
            | Some b \<Rightarrow> scan_chars (m(b := m s)) (s + 1) (Some (b + 1))))"

definition scan_str :: "bool \<Rightarrow> (nat \<Rightarrow> u32) \<Rightarrow> mem \<Rightarrow> u32 \<Rightarrow> nat \<Rightarrow> (mem \<times> u32 \<times> nat) option" where
  "scan_str discard args m s k = do {
     (m, s, b) \<leftarrow> scan_chars m s (if discard then None else Some (args k));
     Some (case b of None \<Rightarrow> (m, s, k) | Some b \<Rightarrow> (m(b := 0), s, k + 1)) }"

text \<open>
  The conversion letter, after \<open>*\<close> and \<open>l\<close>. The result: memory, string pointer, arguments used,
  format pointer, and whether the value was discarded.
\<close>

partial_function (option) scan_conv :: "bool \<Rightarrow> (nat \<Rightarrow> u32) \<Rightarrow> mem \<Rightarrow> u32 \<Rightarrow> nat \<Rightarrow> u32 \<Rightarrow>
    (mem \<times> u32 \<times> nat \<times> u32 \<times> bool) option" where
  "scan_conv discard args m s k fmt =
     (let c = m fmt; fmt = fmt + 1 in
      if c = 100 then do { (m, s, k) \<leftarrow> scan_int dec_digit 10 discard args m s k; Some (m, s, k, fmt, discard) }
      else if c = 111 then do { (m, s, k) \<leftarrow> scan_int oct_digit 8 discard args m s k; Some (m, s, k, fmt, discard) }
      else if c = 120 then do { (m, s, k) \<leftarrow> scan_int hex_digit 16 discard args m s k; Some (m, s, k, fmt, discard) }
      else if c = 115 then do { (m, s, k) \<leftarrow> scan_str discard args m s k; Some (m, s, k, fmt, discard) }
      else if c = 42 then scan_conv True args m s k fmt
      else if c = 108 then scan_conv discard args m s k fmt
      else Some (m, s, k, fmt, discard))"

partial_function (option) doscan :: "(nat \<Rightarrow> u32) \<Rightarrow> mem \<Rightarrow> u32 \<Rightarrow> nat \<Rightarrow> u32 \<Rightarrow> int \<Rightarrow> (mem \<times> int) option" where
  "doscan args m s k fmt vals =
     (let c = m fmt; fmt = fmt + 1 in
      if c = 0 then Some (m, vals)
      else if c \<noteq> 37 then
        (if isspace c then doscan args m s k fmt vals
         else if c = m s then doscan args m (s + 1) k fmt vals
         else Some (m, vals))
      else do {
        s \<leftarrow> skip_space m s;
        (m, s, k, fmt, discard) \<leftarrow> scan_conv False args m s k fmt;
        doscan args m s k fmt (if discard then vals else vals + 1) })"

definition vsscanf :: "mem \<Rightarrow> u32 \<Rightarrow> u32 \<Rightarrow> (nat \<Rightarrow> u32) \<Rightarrow> (mem \<times> int) option" where
  "vsscanf m s fmt args = doscan args m s 0 fmt 0"

definition sscanf :: "mem \<Rightarrow> u32 \<Rightarrow> u32 \<Rightarrow> (nat \<Rightarrow> u32) \<Rightarrow> (mem \<times> int) option" where
  "sscanf m s fmt args = vsscanf m s fmt args"

section \<open>Reading a decimal number\<close>

lemma dec_digit_lower: "d < 10 \<Longrightarrow> dec_digit (DIGITS_LOWER ! d) = Some (of_nat d)"
proof -
  assume "d < 10"
  then have "d \<in> {0,1,2,3,4,5,6,7,8,9}" by auto
  then show ?thesis by (elim insertE emptyE) (simp_all add: digits_lower_nth dec_digit_def)
qed

lemma scan_digits_decimal:
  assumes "\<And>i. i < length ds \<Longrightarrow> m (s + of_nat i) = DIGITS_LOWER ! (ds ! i)"
    and "\<And>d. d \<in> set ds \<Longrightarrow> d < 10" and "dec_digit (m (s + of_nat (length ds))) = None"
  shows "scan_digits dec_digit 10 m s (of_nat v) =
    Some (of_nat (foldl (\<lambda>v d. v * 10 + d) v ds), s + of_nat (length ds))"
  using assms
proof (induction ds arbitrary: s v)
  case Nil
  then show ?case by (simp add: scan_digits.simps)
next
  case (Cons d ds)
  have d: "dec_digit (m s) = Some (of_nat d)"
    using Cons.prems(1) [of 0] Cons.prems(2) [of d] by (simp add: dec_digit_lower)
  have "scan_digits dec_digit 10 m (s + 1) (of_nat (v * 10 + d)) =
      Some (of_nat (foldl (\<lambda>v d. v * 10 + d) (v * 10 + d) ds), s + 1 + of_nat (length ds))"
  proof (rule Cons.IH)
    fix i assume "i < length ds"
    then show "m (s + 1 + of_nat i) = DIGITS_LOWER ! (ds ! i)"
      using Cons.prems(1) [of "Suc i"] by (simp add: add.assoc)
  next
    fix e assume "e \<in> set ds"
    then show "e < 10" using Cons.prems(2) by simp
  next
    show "dec_digit (m (s + 1 + of_nat (length ds))) = None"
      using Cons.prems(3) by (simp add: add.assoc)
  qed
  then show ?case using d by (subst scan_digits.simps) (simp add: add.assoc)
qed

text \<open>\<open>sscanf\<close> with \<open>%d\<close> on a string of decimal digits, with or without a minus sign.\<close>

lemma isspace_minus [simp]: "\<not> isspace 45" "\<not> isspace 0" "\<not> isspace 37" "\<not> isspace 100"
  by (simp_all add: ctype_defs ctype_table_def nth_append)

lemma doscan_decimal:
  assumes fmt: "cstr m fmt [37, 100]"
    and str: "cstr m s ((if neg then [45] else []) @ map (\<lambda>d. DIGITS_LOWER ! d) ds)"
    and ds: "ds \<noteq> []" "\<And>d. d \<in> set ds \<Longrightarrow> d < 10"
    and keep: "word_bytes (args 0) \<inter> {fmt, fmt + 1, fmt + 2} = {}"
  shows "sscanf m s fmt args = Some (st32 m (args 0)
    (if neg then - of_nat (digits_value 10 ds) else of_nat (digits_value 10 ds)), 1)"
proof -
  from fmt have f: "m fmt = 37" "m (fmt + 1) = 100" "m (fmt + 2) = 0" by (simp_all add: add.commute)
  obtain d ds' where d: "ds = d # ds'" using ds(1) by (cases ds) auto
  have d10: "d < 10" using d ds(2) by simp
  then have sp: "\<not> isspace (DIGITS_LOWER ! d)" by (rule digit_not_space)
  have m0: "DIGITS_LOWER ! d \<noteq> 45" using digits_lower_char [OF d10] by simp
  have sk: "skip_space m s = Some s" using str d sp by (cases neg) (simp_all add: skip_space.simps)
  let ?v = "(if neg then - of_nat (digits_value 10 ds) else of_nat (digits_value 10 ds)) :: u32"
  let ?s = "if neg then s + 1 else s" and ?e = "s + of_nat (length ds) + (if neg then 1 else 0)"
  have c: "cstr m ?s (map (\<lambda>d. DIGITS_LOWER ! d) ds)" using str by (cases neg) simp_all
  have "dec_digit 0 = None" by (simp add: dec_digit_def)
  then have "scan_digits dec_digit 10 m ?s 0 = Some (of_nat (digits_value 10 ds), ?s + of_nat (length ds))"
    using scan_digits_decimal [of ds m ?s 0] c ds(2) by (simp add: cstr_nth digits_value_def)
  moreover have "(m s = 45) = neg" using str d m0 by (cases neg) simp_all
  ultimately have "scan_int dec_digit 10 False args m s 0 = Some (st32 m (args 0) ?v, ?s + of_nat (length ds), 1)"
    by (simp add: scan_int_def)
  then have conv: "scan_conv False args m s 0 (fmt + 1) = Some (st32 m (args 0) ?v, ?s + of_nat (length ds), 1, fmt + 2, False)"
    using f by (subst scan_conv.simps) (simp add: Let_def add.assoc)
  have "st32 m (args 0) ?v (fmt + 2) = 0" using keep f by (subst st32_other) auto
  then have "doscan args (st32 m (args 0) ?v) e 1 (fmt + 2) 1 = Some (st32 m (args 0) ?v, 1)" for e
    by (subst doscan.simps) simp
  then have rest: "doscan args (st32 m (args 0) ?v) e 1 (fmt + 2) 1 = Some (st32 m (args 0) ?v, 1)" for e .
  have "doscan args m s 0 fmt 0 = doscan args (st32 m (args 0) ?v) (?s + of_nat (length ds)) 1 (fmt + 2) 1"
    using conv sk f by (subst doscan.simps) (simp add: Let_def)
  with rest show ?thesis by (simp add: sscanf_def vsscanf_def)
qed

text \<open>
  \<open>sscanf\<close> with \<open>%d\<close> reads a decimal numeral of any length, with or without a minus sign, stores
  its value modulo $2^{32}$ through the argument and counts one conversion.
\<close>
theorem scan_decimal:
  assumes "cstr m fmt [37, 100]"
    and "cstr m s ((if neg then [45] else []) @ map (\<lambda>d. DIGITS_LOWER ! d) ds)"
    and "ds \<noteq> []" and "\<And>d. d \<in> set ds \<Longrightarrow> d < 10"
    and "word_bytes (args 0) \<inter> {fmt, fmt + 1, fmt + 2} = {}"
  shows "sscanf m s fmt args = Some (st32 m (args 0)
    (if neg then - of_nat (digits_value 10 ds) else of_nat (digits_value 10 ds)), 1)"
  by (rule doscan_decimal [where args = args, OF assms])

theorem scan_decimal_witness:
  "\<exists>m. sscanf ((\<lambda>_. 0)(0x100 := 37, 0x101 := 100, 0x200 := 45, 0x201 := 52, 0x202 := 50)) 0x200 0x100 (\<lambda>_. 0x300)
     = Some (m, 1) \<and> sint (ld32 m 0x300) = - 42"
proof -
  let ?m = "(\<lambda>_. 0)(0x100 := 37, 0x101 := 100, 0x200 := 45, 0x201 := 52, 0x202 := 50) :: mem"
  have "sscanf ?m 0x200 0x100 (\<lambda>_. 0x300) = Some (st32 ?m 0x300
      (if True then - of_nat (digits_value 10 [4, 2]) else of_nat (digits_value 10 [4, 2])), 1)"
    by (rule scan_decimal [where neg = True])
      (auto simp: digits_lower_nth word_bytes_def)
  then show ?thesis by (simp add: digits_value_def mem_simps)
qed

end
