(* ===== verification/Boot_State.thy ===== *)
theory Boot_State
  imports Bus Vscanf
begin

text \<open>
  The machine the boot loader runs on: the byte memory, the devices behind the bus, the console
  and the global variables of its modules. Static objects and local arrays live in the byte
  memory; where the linker and the stack put them is not in the source, so their addresses are
  the parameter \<open>e_addr\<close>, by the name of the object. A \<open>printf\<close> of a literal format is an
  entry of \<open>e_out\<close>, the last first; what \<open>printf\<close> itself does is in \<open>Boot_Console\<close>.
  An operation whose result is an \<open>option\<close> has none when it waits for ever or leaves an array.
\<close>

section \<open>The NAND data\<close>

text \<open>
  \<open>TNandPartition\<close> (its name is used by nothing) and \<open>TNandInfo\<close>. \<open>nPartition\<close> says whether
  \<open>pPartition\<close> has been set to the table \<open>Nand1Partition\<close>; before that it is a null pointer.
\<close>

record nand_par =
  BaseBlock :: int
  BlockCount :: int

abbreviation par :: "int \<Rightarrow> int \<Rightarrow> nand_par" where
  "par base count \<equiv> \<lparr>BaseBlock = base, BlockCount = count\<rparr>"

record nand_info =
  nType :: u32
  nBaseAddress :: u32
  nTotalSize :: u32
  nEraseSize :: u32
  nBadBlock :: "u8 list"
  nVirBlock :: "u16 list"
  nBadBlockCount :: int
  nPartition :: bool
  nPartitionNR :: int

section \<open>The boot flash data\<close>

record nor_info =
  Flash_PID :: u16
  nor_BlockCount :: int
  FlashSize :: u32
  pBlockAddr :: "int list"
  nor_progress_pos :: u32

section \<open>The ZMODEM data\<close>

text \<open>The static variables of \<open>zmodem.c\<close> that are not arrays.\<close>

record zm_globals =
  zmodem_requested :: bool
  Zctlesc :: u32
  Crc32t :: u32
  tryzhdrtype :: int
  ZModem_Baudrate :: u32
  Rxframeind :: int
  Rxtype :: int
  Crc32 :: int
  zconv :: u8
  zmanag :: u8
  ztrans :: u8
  skip_if_not_found :: bool

section \<open>The state\<close>

record 'h ez =
  e_mem :: mem
  e_dev :: 'h
  e_addr :: "string \<Rightarrow> u32"
  e_out :: "(string \<times> u32 list) list"
  strtok_ptr :: u32
  numOverflows :: u32
  SerialErrorFlag :: u32
  UART :: u32
  HisCount :: int
  HisIndex :: int
  LastRamDumpAddress :: u32
  IP_ID :: u16
  BootpID :: u32
  ICMP_SEQ :: u16
  TFTPLastBlockNumber :: u16
  TFTPHostPortNumber :: u16
  TFTPResiveTotalSize :: u32
  Nand1 :: nand_info
  Nand1Partition :: "nand_par list"
  progress_pos :: u32
  Nor :: nor_info
  Zm :: zm_globals

abbreviation obj :: "'h ez \<Rightarrow> string \<Rightarrow> u32" where
  "obj e name \<equiv> e_addr e name"

section \<open>Access to devices, memory and console\<close>

definition rd :: "'h bus \<Rightarrow> u32 \<Rightarrow> 'h ez \<Rightarrow> u32 \<times> 'h ez" where
  "rd b r e = (let (v, h) = bus_rd b r (e_dev e) in (v, e\<lparr>e_dev := h\<rparr>))"

definition wr :: "'h bus \<Rightarrow> u32 \<Rightarrow> u32 \<Rightarrow> 'h ez \<Rightarrow> 'h ez" where
  "wr b r v e = e\<lparr>e_dev := bus_wr b r v (e_dev e)\<rparr>"

definition modify_reg :: "'h bus \<Rightarrow> u32 \<Rightarrow> (u32 \<Rightarrow> u32) \<Rightarrow> 'h ez \<Rightarrow> 'h ez" where
  "modify_reg b r f e = e\<lparr>e_dev := reg_modify b r f (e_dev e)\<rparr>"

text \<open>A delay loop of \<open>n\<close> turns with an empty body: time passes for the devices.\<close>

definition pause :: "'h bus \<Rightarrow> nat \<Rightarrow> 'h ez \<Rightarrow> 'h ez" where
  "pause b n e = e\<lparr>e_dev := (bus_idle b ^^ n) (e_dev e)\<rparr>"

text \<open>\<open>while (!p(REG));\<close> has no result when the device never shows the awaited value.\<close>

partial_function (option) wait_reg :: "'h bus \<Rightarrow> u32 \<Rightarrow> (u32 \<Rightarrow> bool) \<Rightarrow> 'h ez \<Rightarrow> (u32 \<times> 'h ez) option" where
  "wait_reg b r p e = (let (v, e) = rd b r e in if p v then Some (v, e) else wait_reg b r p e)"

definition with_mem :: "(mem \<Rightarrow> mem) \<Rightarrow> 'h ez \<Rightarrow> 'h ez" where
  "with_mem f e = e\<lparr>e_mem := f (e_mem e)\<rparr>"

definition with_mem_opt :: "(mem \<Rightarrow> mem option) \<Rightarrow> 'h ez \<Rightarrow> 'h ez option" where
  "with_mem_opt f e = do { m \<leftarrow> f (e_mem e); Some (e\<lparr>e_mem := m\<rparr>) }"

definition say :: "string \<Rightarrow> u32 list \<Rightarrow> 'h ez \<Rightarrow> 'h ez" where
  "say fmt args e = e\<lparr>e_out := (fmt, args) # e_out e\<rparr>"

lemma with_mem_simps [simp]:
  "e_mem (with_mem f e) = f (e_mem e)" "e_dev (with_mem f e) = e_dev e" "e_addr (with_mem f e) = e_addr e"
  "e_out (with_mem f e) = e_out e"
  by (simp_all add: with_mem_def)

lemma say_simps [simp]:
  "e_mem (say f a e) = e_mem e" "e_dev (say f a e) = e_dev e" "e_addr (say f a e) = e_addr e"
  "e_out (say f a e) = (f, a) # e_out e" "UART (say f a e) = UART e"
  by (simp_all add: say_def)

lemma wr_simps [simp]:
  "e_mem (wr b r v e) = e_mem e" "e_dev (wr b r v e) = bus_wr b r v (e_dev e)" "e_addr (wr b r v e) = e_addr e"
  "e_out (wr b r v e) = e_out e" "UART (wr b r v e) = UART e"
  by (simp_all add: wr_def)

lemma pause_simps [simp]:
  "e_mem (pause b n e) = e_mem e" "e_dev (pause b n e) = (bus_idle b ^^ n) (e_dev e)" "e_addr (pause b n e) = e_addr e"
  "e_out (pause b n e) = e_out e" "UART (pause b n e) = UART e" "Nor (pause b n e) = Nor e"
  "Nand1 (pause b n e) = Nand1 e" "Nand1Partition (pause b n e) = Nand1Partition e"
  by (simp_all add: pause_def)

lemma rd_frame:
  assumes "rd b r e = (v, e')"
  shows "e_mem e' = e_mem e" "e_addr e' = e_addr e" "UART e' = UART e" "e_out e' = e_out e"
  using assms by (auto simp: rd_def split: prod.splits)

section \<open>Invariants of an operation\<close>

text \<open>The state an operation ends with, if it ends, satisfies \<open>P\<close>. The rules follow the code.\<close>

definition ensures :: "('h ez \<Rightarrow> bool) \<Rightarrow> ('a \<times> 'h ez) option \<Rightarrow> bool" where
  "ensures P r \<longleftrightarrow> (\<forall>x e. r = Some (x, e) \<longrightarrow> P e)"

named_theorems ensures_rules \<open>rules that derive \<open>ensures\<close> along the code\<close>

lemma ensuresD: "ensures P r \<Longrightarrow> r = Some (x, e) \<Longrightarrow> P e"
  by (simp add: ensures_def)

lemma ensures_Some [ensures_rules]: "P e \<Longrightarrow> ensures P (Some (x, e))"
  by (simp add: ensures_def)

lemma ensures_if [ensures_rules]: "ensures P r \<Longrightarrow> ensures P r' \<Longrightarrow> ensures P (if Q then r else r')"
  by simp

lemma ensures_let [ensures_rules]: "ensures P (f v) \<Longrightarrow> ensures P (let x = v in f x)"
  by simp

lemma ensures_bind [ensures_rules]:
  "ensures P r \<Longrightarrow> (\<And>x e. P e \<Longrightarrow> ensures P (f x e)) \<Longrightarrow> ensures P (r \<bind> (\<lambda>(x, e). f x e))"
  by (cases r) (auto simp: ensures_def)

lemma ensures_bind_state:
  "(\<And>e. r = Some e \<Longrightarrow> P e) \<Longrightarrow> (\<And>e. P e \<Longrightarrow> ensures P (f e)) \<Longrightarrow> ensures P (r \<bind> f)"
  by (cases r) (auto simp: ensures_def)

lemma ensures_option: "(\<And>r. x = Some r \<Longrightarrow> ensures P (Some r)) \<Longrightarrow> ensures P x"
  by (cases x) (auto simp: ensures_def)

text \<open>A state with given memory and devices, for examples.\<close>

definition ez_at :: "mem \<Rightarrow> 'h \<Rightarrow> (string \<Rightarrow> u32) \<Rightarrow> 'h ez" where
  "ez_at m h ad = \<lparr>e_mem = m, e_dev = h, e_addr = ad, e_out = [], strtok_ptr = 0, numOverflows = 0,
     SerialErrorFlag = 0, UART = 0x40700000, HisCount = 0, HisIndex = 0, LastRamDumpAddress = 0, IP_ID = 0,
     BootpID = 0, ICMP_SEQ = 1, TFTPLastBlockNumber = 0, TFTPHostPortNumber = 69, TFTPResiveTotalSize = 0,
     Nand1 = \<lparr>nType = 0, nBaseAddress = 0, nTotalSize = 0, nEraseSize = 0, nBadBlock = replicate 8192 0,
       nVirBlock = replicate 8192 0, nBadBlockCount = 0, nPartition = False, nPartitionNR = 0\<rparr>,
     Nand1Partition = [par 0 64, par 64 192, par 256 (-1), par (-1) 0, par 0 0, par 0 0, par 0 0, par 0 0],
     progress_pos = 0,
     Nor = \<lparr>Flash_PID = 0, nor_BlockCount = 0, FlashSize = 0, pBlockAddr = [], nor_progress_pos = 0\<rparr>,
     Zm = \<lparr>zmodem_requested = False, Zctlesc = 0, Crc32t = 0, tryzhdrtype = 1, ZModem_Baudrate = 115200, Rxframeind = 0,
       Rxtype = 0, Crc32 = 0, zconv = 0, zmanag = 0, ztrans = 0, skip_if_not_found = False\<rparr>\<rparr>"

end
