(* ===== verification/Boot_Timer.thy ===== *)
theory Boot_Timer
  imports Boot_State
begin

text \<open>
  The boot loader's timers and pins: \<open>time.c\<close> and \<open>gpio.c\<close>. \<open>GPIOInit\<close> is empty.
\<close>

definition TICKS_PER_SECOND :: u32 where "TICKS_PER_SECOND = 3686400"
definition OWER_WME :: u32 where "OWER_WME = 1"

section \<open>Timers\<close>

definition SetWatchdog :: "'h bus \<Rightarrow> int \<Rightarrow> 'h ez \<Rightarrow> 'h ez" where
  "SetWatchdog b msec e =
     (let e = wr b OWER OWER_WME e;
          e = wr b OSSR OSSR_M3 e;
          (now, e) = rd b OSCR e
      in wr b OSMR3 (now + word_of_int (36864 * cdiv msec 10)) e)"

definition TimerInit :: "'h bus \<Rightarrow> 'h ez \<Rightarrow> 'h ez option" where
  "TimerInit b e = do {
     let e = wr b OIER 0 (wr b OSCR 0 e);
     (_, e) \<leftarrow> wait_reg b OSCR (\<lambda>v. v \<noteq> 0) e;
     let e = wr b OSSR OSSR_M0 (wr b OSMR0 0 e);
     Some (e\<lparr>numOverflows := 0\<rparr>) }"

definition TimerGetTime :: "'h bus \<Rightarrow> 'h ez \<Rightarrow> u32 \<times> 'h ez" where
  "TimerGetTime b e = rd b OSCR e"

definition TimerDetectOverflow :: "'h bus \<Rightarrow> 'h ez \<Rightarrow> u32 \<times> 'h ez" where
  "TimerDetectOverflow b e = (let (v, e) = rd b OSSR e in (v AND OSSR_M0, e))"

definition TimerClearOverflow :: "'h bus \<Rightarrow> 'h ez \<Rightarrow> 'h ez" where
  "TimerClearOverflow b e =
     (let (v, e) = TimerDetectOverflow b e;
          e = (if v \<noteq> 0 then e\<lparr>numOverflows := numOverflows e + 1\<rparr> else e)
      in wr b OSSR OSSR_M0 e)"

text \<open>The match register and the bit of timer \<open>bTimer\<close>.\<close>

definition OSMR :: "u8 \<Rightarrow> u32" where
  "OSMR t = (if t = 0 then OSMR0 else if t = 1 then OSMR1 else if t = 2 then OSMR2 else OSMR3)"

definition timer_bit :: "u8 \<Rightarrow> u32" where
  "timer_bit t = push_bit (unat (t AND 3)) 1"

definition ReloadTimer :: "'h bus \<Rightarrow> u8 \<Rightarrow> u32 \<Rightarrow> 'h ez \<Rightarrow> 'h ez" where
  "ReloadTimer b bTimer msec e =
     (let bTimer = bTimer AND 3; reg = timer_bit bTimer;
          e = wr b OSSR reg e;
          (now, e) = rd b OSCR e;
          e = wr b (OSMR bTimer) (now + (TICKS_PER_SECOND div 1000) * msec) e
      in modify_reg b OIER (\<lambda>v. v OR reg) e)"

definition TimeOverflow :: "'h bus \<Rightarrow> u8 \<Rightarrow> 'h ez \<Rightarrow> u32 \<times> 'h ez" where
  "TimeOverflow b bTimer e = (let (v, e) = rd b OSSR e in (v AND timer_bit bTimer, e))"

definition FreeTimer :: "'h bus \<Rightarrow> u8 \<Rightarrow> 'h ez \<Rightarrow> 'h ez" where
  "FreeTimer b bTimer e = modify_reg b OIER (\<lambda>v. v AND NOT (timer_bit bTimer)) e"

partial_function (option) wait_overflow :: "'h bus \<Rightarrow> u8 \<Rightarrow> 'h ez \<Rightarrow> 'h ez option" where
  "wait_overflow b t e = (let (v, e) = TimeOverflow b t e in if v \<noteq> 0 then Some e else wait_overflow b t e)"

definition msleep :: "'h bus \<Rightarrow> u32 \<Rightarrow> 'h ez \<Rightarrow> 'h ez option" where
  "msleep b msec e = do {
     let e = ReloadTimer b 0 msec e;
     e \<leftarrow> wait_overflow b 0 e;
     Some (FreeTimer b 0 e) }"

section \<open>Pins\<close>

definition GPIO_MD_MASK_NR :: u32 where "GPIO_MD_MASK_NR = 0x07F"
definition GPIO_MD_MASK_DIR :: u32 where "GPIO_MD_MASK_DIR = 0x080"
definition GPIO_MD_MASK_FN :: u32 where "GPIO_MD_MASK_FN = 0x300"
definition GPSR0 :: u32 where "GPSR0 = 0x40E00018"
definition GPCR0 :: u32 where "GPCR0 = 0x40E00024"

definition GPIO_bit :: "u32 \<Rightarrow> u32" where
  "GPIO_bit x = push_bit (unat (x AND 0x1F)) 1"

definition GPDR :: "u32 \<Rightarrow> u32" where
  "GPDR x = 0x40E0000C + drop_bit 3 (x AND 0x60)"

definition GAFR :: "u32 \<Rightarrow> u32" where
  "GAFR x = 0x40E00054 + drop_bit 2 (x AND 0x70)"

definition set_GPIO_mode :: "'h bus \<Rightarrow> u32 \<Rightarrow> 'h ez \<Rightarrow> 'h ez" where
  "set_GPIO_mode b gpio_mode e =
     (let gpio = gpio_mode AND GPIO_MD_MASK_NR;
          fn = drop_bit 8 (gpio_mode AND GPIO_MD_MASK_FN);
          shift = unat (gpio AND 0xF) * 2;
          e = (if gpio_mode AND GPIO_MD_MASK_DIR \<noteq> 0
               then modify_reg b (GPDR gpio) (\<lambda>v. v OR GPIO_bit gpio) e
               else modify_reg b (GPDR gpio) (\<lambda>v. v AND NOT (GPIO_bit gpio)) e);
          (v, e) = rd b (GAFR gpio) e;
          gafr = v AND NOT (push_bit shift 3)
      in wr b (GAFR gpio) (gafr OR push_bit shift fn) e)"

definition GPIO_SetLED :: "'h bus \<Rightarrow> int \<Rightarrow> bool \<Rightarrow> 'h ez \<Rightarrow> 'h ez" where
  "GPIO_SetLED b LedIndex on e =
     (let r = (if on then GPCR0 else GPSR0) in
      if LedIndex = 0 then wr b r (GPIO_bit 2) e
      else if LedIndex = 1 then wr b r (GPIO_bit 3) e
      else if LedIndex = 2 then wr b r (GPIO_bit 4) e
      else if LedIndex = 3 then wr b r (GPIO_bit 5) e
      else e)"

section \<open>One pin at a time\<close>

lemma unat_and_mask: "unat ((x :: u32) AND 0x1F) = unat x mod 32" "unat (x AND 0xF) = unat x mod 16"
proof -
  have "x AND mask 5 = x mod 32" "x AND mask 4 = x mod 16"
    by (simp_all add: take_bit_eq_mask [symmetric] take_bit_eq_mod)
  moreover have "(mask 5 :: u32) = 0x1F" "(mask 4 :: u32) = 0xF" by (simp_all add: mask_eq_exp_minus_1)
  ultimately show "unat (x AND 0x1F) = unat x mod 32" "unat (x AND 0xF) = unat x mod 16"
    by (simp_all add: unat_mod)
qed

lemma unat_shift: "unat (drop_bit n (w :: u32)) = unat w div 2 ^ n"
  unfolding unat_drop_bit_eq by (rule drop_bit_eq_div)

lemma gpio_regs_differ: "GPDR x \<noteq> GAFR y"
proof -
  have "unat (x AND 0x60) \<le> 0x60" using word_and_le1 [of x "0x60"] by (simp add: word_le_nat_alt)
  then have "unat (drop_bit 3 (x AND 0x60)) \<le> 12" unfolding unat_shift by simp
  then have "unat (GPDR x) \<le> 0x40E0000C + 12" by (simp add: GPDR_def unat_word_ariths)
  moreover have "unat (y AND 0x70) \<le> 0x70" using word_and_le1 [of y "0x70"] by (simp add: word_le_nat_alt)
  then have "unat (drop_bit 2 (y AND 0x70)) \<le> 28" unfolding unat_shift by simp
  then have "unat (GAFR y) \<ge> 0x40E00054" by (simp add: GAFR_def unat_word_ariths)
  ultimately show ?thesis by auto
qed

lemma and_0x80: "((x :: u32) AND 0x80 \<noteq> 0) = bit x 7"
  using and_exp_eq_0_iff_not_bit [of x 7] by simp

lemma bit_3: "bit (3 :: int) n = (n < 2)"
proof -
  have "(3 :: int) = mask 2" by (simp add: mask_eq_exp_minus_1)
  then show ?thesis by (simp only: bit_mask_iff) auto
qed

lemma bit_3_word: "bit (3 :: u32) n = (n < 2)"
proof -
  have "(3 :: u32) = mask 2" by (simp add: mask_eq_exp_minus_1)
  then show ?thesis by (simp only: bit_mask_iff) auto
qed

lemma fn_bit: "bit (drop_bit 8 ((mode :: u32) AND 0x300)) k = (k < 2 \<and> bit mode (8 + k))"
proof -
  have "(0x300 :: u32) = push_bit 8 3" by simp
  then have "bit (0x300 :: u32) (8 + k) = (8 + k < 32 \<and> k < 2)" by (simp only: bit_push_bit_iff bit_3_word) auto
  then show ?thesis by (auto simp only: bit_drop_bit_eq bit_and_iff o_apply)
qed

lemma gpio_fields:
  assumes "k < 16" and "n < 32"
  shows "bit (v AND NOT (push_bit (k * 2) 3) OR push_bit (k * 2) (drop_bit 8 ((mode :: u32) AND 0x300))) n
    = (if n div 2 = k then bit mode (8 + n mod 2) else bit v n)"
proof -
  have a: "bit (push_bit (k * 2) (3 :: u32)) n \<longleftrightarrow> n div 2 = k"
    using assms unfolding bit_push_bit_iff bit_3_word by auto
  have b: "bit (push_bit (k * 2) (drop_bit 8 (mode AND 0x300))) n \<longleftrightarrow> n div 2 = k \<and> bit mode (8 + n mod 2)"
  proof (cases "n div 2 = k")
    case True
    then have "n - k * 2 = n mod 2" "k * 2 \<le> n" by (auto simp: minus_div_mult_eq_mod)
    with assms True show ?thesis unfolding bit_push_bit_iff fn_bit by simp
  qed (use assms in \<open>auto simp only: bit_push_bit_iff fn_bit, auto?\<close>)
  show ?thesis using a b assms(2) by (auto simp: bit_or_iff bit_and_iff bit_not_iff)
qed

text \<open>
  On registers that behave as memory, \<open>set_GPIO_mode\<close> gives the pin its direction and its
  two-bit alternate function, and leaves the direction and function of every other pin and every
  other register as they were.
\<close>
theorem gpio_mode_one_pin:
  assumes "e' = set_GPIO_mode ram_bus mode e" and "g = mode AND 0x7F" and "n < 32"
  shows "bit (e_dev e' (GPDR g)) n = (if n = unat g mod 32 then bit mode 7 else bit (e_dev e (GPDR g)) n) \<and>
    bit (e_dev e' (GAFR g)) n = (if n div 2 = unat g mod 16 then bit mode (8 + n mod 2) else bit (e_dev e (GAFR g)) n) \<and>
    (r = GPDR g \<or> r = GAFR g \<or> e_dev e' r = e_dev e r)"
proof -
  let ?k = "unat (g AND 0xF)"
  have k: "?k = unat g mod 16" "?k < 16" by (simp_all add: unat_and_mask)
  have d: "bit (GPIO_bit g) n = (n = unat g mod 32)"
    using assms(3) by (auto simp: GPIO_bit_def unat_and_mask bit_exp_iff)
  have regs: "e_dev e' = (e_dev e)(GPDR g := (if bit mode 7 then e_dev e (GPDR g) OR GPIO_bit g
       else e_dev e (GPDR g) AND NOT (GPIO_bit g)),
     GAFR g := e_dev e (GAFR g) AND NOT (push_bit (?k * 2) 3) OR push_bit (?k * 2) (drop_bit 8 (mode AND 0x300)))"
    using gpio_regs_differ [of g g] gpio_regs_differ [of g g, symmetric] unfolding assms(1,2)
    by (simp add: set_GPIO_mode_def Let_def GPIO_MD_MASK_NR_def GPIO_MD_MASK_FN_def GPIO_MD_MASK_DIR_def and_0x80
        modify_reg_def reg_modify_def rd_def)
  have "bit (e_dev e' (GPDR g)) n = (if n = unat g mod 32 then bit mode 7 else bit (e_dev e (GPDR g)) n)"
    using gpio_regs_differ [of g g] d assms(3) by (auto simp: regs bit_or_iff bit_and_iff bit_not_iff)
  moreover have "bit (e_dev e' (GAFR g)) n = (if n div 2 = unat g mod 16 then bit mode (8 + n mod 2) else bit (e_dev e (GAFR g)) n)"
    using gpio_fields [OF k(2) assms(3)] k(1) by (simp add: regs)
  moreover have "r = GPDR g \<or> r = GAFR g \<or> e_dev e' r = e_dev e r" by (simp add: regs)
  ultimately show ?thesis by blast
qed

theorem gpio_mode_one_pin_witness:
  "bit (e_dev (set_GPIO_mode ram_bus (47 OR 0x180) (ez_at (\<lambda>_. 0) (\<lambda>_. 0) (\<lambda>_. 0))) 0x40E00010) 15"
  using gpio_mode_one_pin [OF refl refl, of 15 "47 OR 0x180" "ez_at (\<lambda>_. 0) (\<lambda>_. 0) (\<lambda>_. 0)"]
  by (simp add: GPDR_def)

end
