(* ===== verification/Boot_Console.thy ===== *)
theory Boot_Console
  imports Boot_Timer
begin

text \<open>
  The serial console: \<open>serial.c\<close> (the UART driver) and \<open>printf.c\<close> (character and line input and
  output, the command history). The UART's registers are the words from \<open>UART e\<close> on.
\<close>

section \<open>Registers\<close>

definition FFUART :: u32 where "FFUART = 0x40100000"
definition BTUART :: u32 where "BTUART = 0x40200000"
definition STUART :: u32 where "STUART = 0x40700000"
definition CKEN :: u32 where "CKEN = 0x41300004"
definition CKEN_FFUART :: u32 where "CKEN_FFUART = 0x40"
definition CKEN_BTUART :: u32 where "CKEN_BTUART = 0x80"
definition CKEN_STUART :: u32 where "CKEN_STUART = 0x20"

definition UART_DATA :: "'h ez \<Rightarrow> u32" where "UART_DATA e = UART e"
definition UART_IER :: "'h ez \<Rightarrow> u32" where "UART_IER e = UART e + 4"
definition UART_FCR :: "'h ez \<Rightarrow> u32" where "UART_FCR e = UART e + 8"
definition UART_LCR :: "'h ez \<Rightarrow> u32" where "UART_LCR e = UART e + 12"
definition UART_LSR :: "'h ez \<Rightarrow> u32" where "UART_LSR e = UART e + 20"

definition LSR_DR :: u32 where "LSR_DR = 1"
definition LSR_TDRQ :: u32 where "LSR_TDRQ = 0x20"
definition LSR_ERRORS :: u32 where "LSR_ERRORS = 0x0E"

definition GPIO34_FFRXD_MD :: u32 where "GPIO34_FFRXD_MD = 34 OR 0x100"
definition GPIO39_FFTXD_MD :: u32 where "GPIO39_FFTXD_MD = 39 OR 0x280"
definition GPIO42_BTRXD_MD :: u32 where "GPIO42_BTRXD_MD = 42 OR 0x100"
definition GPIO43_BTTXD_MD :: u32 where "GPIO43_BTTXD_MD = 43 OR 0x280"
definition GPIO46_STRXD_MD :: u32 where "GPIO46_STRXD_MD = 46 OR 0x200"
definition GPIO47_STTXD_MD :: u32 where "GPIO47_STTXD_MD = 47 OR 0x180"

section \<open>The UART driver\<close>

text \<open>\<open>serial\<close> is \<open>Cfg.SeriaNumber\<close>.\<close>

definition SerialInit :: "'h bus \<Rightarrow> u32 \<Rightarrow> u32 \<Rightarrow> 'h ez \<Rightarrow> 'h ez" where
  "SerialInit b serial baudrate e =
     (let e = (if serial = 0 then
                 set_GPIO_mode b GPIO39_FFTXD_MD (set_GPIO_mode b GPIO34_FFRXD_MD
                   (modify_reg b CKEN (\<lambda>v. v OR CKEN_FFUART) (e\<lparr>UART := FFUART\<rparr>)))
               else if serial = 1 then
                 set_GPIO_mode b GPIO43_BTTXD_MD (set_GPIO_mode b GPIO42_BTRXD_MD
                   (modify_reg b CKEN (\<lambda>v. v OR CKEN_BTUART) (e\<lparr>UART := BTUART\<rparr>)))
               else
                 set_GPIO_mode b GPIO47_STTXD_MD (set_GPIO_mode b GPIO46_STRXD_MD
                   (modify_reg b CKEN (\<lambda>v. v OR CKEN_STUART) (e\<lparr>UART := STUART\<rparr>))));
          e = wr b (UART_IER e) 0 e;
          e = wr b (UART_FCR e) 7 e;
          e = wr b (UART_FCR e) 1 e;
          e = wr b (UART_LCR e) 0x83 e;
          e = wr b (UART_DATA e) baudrate e;
          e = wr b (UART_IER e) 0 e;
          e = wr b (UART_LCR e) 3 e
      in wr b (UART_IER e) 0x40 e)"

definition SerialOutChar :: "'h bus \<Rightarrow> u8 \<Rightarrow> 'h ez \<Rightarrow> 'h ez option" where
  "SerialOutChar b c e = do {
     (_, e) \<leftarrow> wait_reg b (UART_LSR e) (\<lambda>v. v AND LSR_TDRQ \<noteq> 0) e;
     Some (wr b (UART_DATA e) (ucast c) e) }"

definition SerialOutChar_CheckCR :: "'h bus \<Rightarrow> u8 \<Rightarrow> 'h ez \<Rightarrow> 'h ez option" where
  "SerialOutChar_CheckCR b c e = do {
     e \<leftarrow> SerialOutChar b c e;
     if c = 10 then SerialOutChar b 13 e else Some e }"

text \<open>\<open>SerialOutStr\<close>: the \<open>size\<close> characters from \<open>str\<close> on. The result is \<open>size\<close>.\<close>

primrec SerialOutStr :: "'h bus \<Rightarrow> u32 \<Rightarrow> nat \<Rightarrow> 'h ez \<Rightarrow> 'h ez option" where
  "SerialOutStr b str 0 e = Some e"
| "SerialOutStr b str (Suc n) e = do { e \<leftarrow> SerialOutChar b (e_mem e str) e; SerialOutStr b (str + 1) n e }"

primrec SerialOutStr_CheckCR :: "'h bus \<Rightarrow> u32 \<Rightarrow> nat \<Rightarrow> 'h ez \<Rightarrow> 'h ez option" where
  "SerialOutStr_CheckCR b str 0 e = Some e"
| "SerialOutStr_CheckCR b str (Suc n) e =
     do { e \<leftarrow> SerialOutChar_CheckCR b (e_mem e str) e; SerialOutStr_CheckCR b (str + 1) n e }"

definition SerialIsReadyChar :: "'h bus \<Rightarrow> 'h ez \<Rightarrow> bool \<times> 'h ez" where
  "SerialIsReadyChar b e = (let (v, e) = rd b (UART_LSR e) e in (v AND LSR_DR \<noteq> 0, e))"

definition SeriallGet_LSR :: "'h bus \<Rightarrow> 'h ez \<Rightarrow> u32 \<times> 'h ez" where
  "SeriallGet_LSR b e = rd b (UART_LSR e) e"

definition SerialIsGetChar :: "'h bus \<Rightarrow> 'h ez \<Rightarrow> u8 \<times> 'h ez" where
  "SerialIsGetChar b e =
     (let (l, e) = rd b (UART_LSR e) e;
          e = e\<lparr>SerialErrorFlag := l AND LSR_ERRORS\<rparr>;
          (v, e) = rd b (UART_DATA e) e
      in (ucast v, e))"

definition SerialIsClearError :: "'h ez \<Rightarrow> u8 \<times> 'h ez" where
  "SerialIsClearError e = (0, e\<lparr>SerialErrorFlag := 0\<rparr>)"

definition SerialIsGetError :: "'h ez \<Rightarrow> u32" where
  "SerialIsGetError e = SerialErrorFlag e"

section \<open>Characters and formatted output\<close>

definition putc :: "'h bus \<Rightarrow> u8 \<Rightarrow> 'h ez \<Rightarrow> (int \<times> 'h ez) option" where
  "putc b c e = do { e \<leftarrow> SerialOutChar_CheckCR b c e; Some (1, e) }"

definition putx :: "'h bus \<Rightarrow> u8 \<Rightarrow> 'h ez \<Rightarrow> (int \<times> 'h ez) option" where
  "putx b c e = do { e \<leftarrow> SerialOutChar b c e; Some (1, e) }"

text \<open>\<open>printf\<close> with the format at \<open>fmt\<close>; its 1024-byte buffer is the object \<open>buffer\<close>.\<close>

definition printf :: "'h bus \<Rightarrow> u32 \<Rightarrow> (nat \<Rightarrow> u32) \<Rightarrow> 'h ez \<Rightarrow> (u32 \<times> 'h ez) option" where
  "printf b fmt args e = do {
     (m, len) \<leftarrow> vsprintf (e_mem e) (obj e ''buffer'') fmt args;
     e \<leftarrow> SerialOutStr_CheckCR b (obj e ''buffer'') (if 0 < sint len then unat len else 0) (e\<lparr>e_mem := m\<rparr>);
     Some (len, e) }"

partial_function (option) getc_wait :: "'h bus \<Rightarrow> 'h ez \<Rightarrow> 'h ez option" where
  "getc_wait b e = (let (ready, e) = SerialIsReadyChar b e in if ready then Some e else getc_wait b e)"

definition getc :: "'h bus \<Rightarrow> 'h ez \<Rightarrow> (u8 \<times> 'h ez) option" where
  "getc b e = do { e \<leftarrow> getc_wait b e; Some (SerialIsGetChar b e) }"

text \<open>\<open>gets\<close>: a line into the buffer at \<open>s\<close>; a backspace takes the last character back.\<close>

partial_function (option) gets_loop :: "'h bus \<Rightarrow> u32 \<Rightarrow> int \<Rightarrow> 'h ez \<Rightarrow> (int \<times> 'h ez) option" where
  "gets_loop b s cnt e = do {
     (c, e) \<leftarrow> getc b e;
     if c = 13 then Some (cnt, with_mem (\<lambda>m. m(s := 0)) e)
     else if c \<noteq> 8 then
       gets_loop b (s + 1) (cnt + 1) (say ''%c'' [ucast c] (with_mem (\<lambda>m. m(s := c)) e))
     else if cnt > 0 then
       gets_loop b (s - 1) (cnt - 1) (say [CHR 0x08, CHR 0x20, CHR 0x08] [] (with_mem (\<lambda>m. m(s := 32)) e))
     else gets_loop b s cnt e }"

definition gets :: "'h bus \<Rightarrow> u32 \<Rightarrow> 'h ez \<Rightarrow> (int \<times> 'h ez) option" where
  "gets b s e = gets_loop b s 0 e"

section \<open>The command history\<close>

definition HIS_MAX :: nat where "HIS_MAX = 8"

text \<open>The address of \<open>HisBuff[i]\<close>.\<close>

definition his_row :: "'h ez \<Rightarrow> int \<Rightarrow> u32" where
  "his_row e i = obj e ''HisBuff'' + word_of_int (32 * i)"

text \<open>\<open>HisIndex\<close> at the end of the history.\<close>

definition his_last :: "'h ez \<Rightarrow> 'h ez" where
  "his_last e = e\<lparr>HisIndex := (if HisCount e \<noteq> 0 then HisCount e - 1 else 0)\<rparr>"

text \<open>Is the line in one of the \<open>n\<close> rows from \<open>i\<close> on?\<close>

primrec his_find :: "nat \<Rightarrow> int \<Rightarrow> u32 \<Rightarrow> 'h ez \<Rightarrow> bool option" where
  "his_find 0 i s e = Some False"
| "his_find (Suc n) i s e = do {
     d \<leftarrow> strcmp (e_mem e) s (his_row e i);
     if d = 0 then Some True else his_find n (i + 1) s e }"

text \<open>Moves the rows \<open>i\<close>, \<open>i + 1\<close>, ... (\<open>n\<close> of them) one row down.\<close>

primrec his_shift :: "nat \<Rightarrow> int \<Rightarrow> 'h ez \<Rightarrow> 'h ez option" where
  "his_shift 0 i e = Some e"
| "his_shift (Suc n) i e = do {
     e \<leftarrow> with_mem_opt (\<lambda>m. strcpy m (his_row e (i - 1)) (his_row e i)) e;
     his_shift n (i + 1) e }"

definition his_append :: "u32 \<Rightarrow> 'h ez \<Rightarrow> (int \<times> 'h ez) option" where
  "his_append s e = do {
     found \<leftarrow> his_find HIS_MAX 0 s e;
     if found then Some (HisCount e, his_last e)
     else do {
       e \<leftarrow> (if HisCount e < int HIS_MAX then do {
               e \<leftarrow> with_mem_opt (\<lambda>m. strcpy m (his_row e (HisCount e)) s) e;
               Some (e\<lparr>HisCount := HisCount e + 1\<rparr>) }
             else do {
               e \<leftarrow> his_shift (HIS_MAX - 1) 1 e;
               with_mem_opt (\<lambda>m. strcpy m (his_row e (int HIS_MAX - 1)) s) e });
       Some (HisCount e, his_last e) } }"

text \<open>\<open>his_set\<close>: rubs out the line at \<open>s\<close> and puts row \<open>index\<close> in its place.\<close>

definition his_set :: "u32 \<Rightarrow> int \<Rightarrow> 'h ez \<Rightarrow> (int \<times> 'h ez) option" where
  "his_set s index e = do {
     len \<leftarrow> strlen (e_mem e) s;
     let e = ((say [CHR 0x08, CHR 0x20, CHR 0x08] []) ^^ (if 0 < sint len then unat len else 0)) e;
     e \<leftarrow> with_mem_opt (\<lambda>m. strcpy m s (his_row e index)) e;
     Some (index, say ''%s'' [s] e) }"

text \<open>\<open>gets_his\<close>: \<open>fp\<close> is the start of the buffer; \<open>^Z\<close> and \<open>^X\<close> walk through the history.\<close>

partial_function (option) gets_his_loop :: "'h bus \<Rightarrow> u32 \<Rightarrow> u32 \<Rightarrow> int \<Rightarrow> 'h ez \<Rightarrow> (int \<times> 'h ez) option" where
  "gets_his_loop b fp s cnt e = do {
     (c, e) \<leftarrow> getc b e;
     if c = 13 then do {
       let e = with_mem (\<lambda>m. m(s := 0)) e;
       len \<leftarrow> strlen (e_mem e) fp;
       if len \<noteq> 0 then do { (_, e) \<leftarrow> his_append fp e; Some (cnt, e) } else Some (cnt, e) }
     else if c = 0x1A then
       (if HisIndex e \<ge> 0 then do {
          (_, e) \<leftarrow> his_set fp (HisIndex e) e;
          let e = (if HisIndex e \<noteq> 0 then e\<lparr>HisIndex := HisIndex e - 1\<rparr> else e);
          let e = (if HisIndex e \<ge> HisCount e then e\<lparr>HisIndex := HisCount e - 1\<rparr> else e);
          len \<leftarrow> strlen (e_mem e) fp;
          gets_his_loop b fp (fp + len) (sint len) e }
        else gets_his_loop b fp s cnt e)
     else if c = 0x18 then
       (if HisIndex e < HisCount e then do {
          (_, e) \<leftarrow> his_set fp (HisIndex e) e;
          let e = e\<lparr>HisIndex := HisIndex e + 1\<rparr>;
          len \<leftarrow> strlen (e_mem e) fp;
          gets_his_loop b fp (fp + len) (sint len) e }
        else gets_his_loop b fp s cnt e)
     else if c = 8 then
       (if cnt > 0 then
          gets_his_loop b fp (s - 1) (cnt - 1) (say [CHR 0x08, CHR 0x20, CHR 0x08] [] (with_mem (\<lambda>m. m(s := 32)) e))
        else gets_his_loop b fp s cnt e)
     else gets_his_loop b fp (s + 1) (cnt + 1) (say ''%c'' [ucast c] (with_mem (\<lambda>m. m(s := c)) e)) }"

definition gets_his :: "'h bus \<Rightarrow> u32 \<Rightarrow> 'h ez \<Rightarrow> (int \<times> 'h ez) option" where
  "gets_his b s e = gets_his_loop b s s 0 e"

section \<open>A key press with a time limit\<close>

definition halfsec :: u32 where "halfsec = (TICKS_PER_SECOND div 1000) * 500"

text \<open>The waiting loop: 0 when the awaited key came, -1 on return or when the time is over.\<close>

partial_function (option) key_loop :: "'h bus \<Rightarrow> u8 \<Rightarrow> 'h ez \<Rightarrow> (int \<times> 'h ez) option" where
  "key_loop b cmpKey e =
     (let (st, e) = rd b OSSR e in
      if st AND OSSR_M0 \<noteq> 0 then Some (-1, wr b OIER 0 e)
      else
        (let (ready, e) = SerialIsReadyChar b e;
             (key, e) = (if ready then (let (c, e) = SerialIsGetChar b e in (Some c, e)) else (None, e))
         in if key = Some cmpKey then Some (0, e)
            else if key = Some 13 then Some (-1, e)
            else
              (let (st, e) = rd b OSSR e;
                   e = (if st AND OSSR_M1 \<noteq> 0 then
                          (let e = wr b OSSR OSSR_M1 e; (now, e) = rd b OSCR e
                           in say ''.'' [] (wr b OSMR1 (now + halfsec) e))
                        else e)
               in key_loop b cmpKey e)))"

definition getc_timed :: "'h bus \<Rightarrow> u8 \<Rightarrow> int \<Rightarrow> 'h ez \<Rightarrow> (int \<times> 'h ez) option" where
  "getc_timed b cmpKey mTimeOver e =
     (if mTimeOver = 0 then Some (-1, e)
      else
        (let ticks = (TICKS_PER_SECOND div 1000) * word_of_int mTimeOver;
             (now, e) = rd b OSCR e;
             e = wr b OSSR (OSSR_M0 OR OSSR_M1) e;
             e = wr b OSMR0 (now + ticks) e;
             (now, e) = rd b OSCR e;
             e = wr b OSMR1 (now + halfsec) e;
             e = wr b OIER (OSSR_M0 OR OSSR_M1) e
         in key_loop b cmpKey e))"

section \<open>Reading a line\<close>

text \<open>
  The UART \<open>u\<close> delivers the characters \<open>cs\<close>: any number of reads of the line status show no
  data, one shows data, the next read is for the error flags, and the data register holds the
  character.
\<close>

inductive typed :: "'h bus \<Rightarrow> u32 \<Rightarrow> u8 list \<Rightarrow> 'h \<Rightarrow> bool" where
  typed_nil: "typed b u [] h"
| typed_idle: "bus_rd b (u + 20) h = (v, h') \<Longrightarrow> v AND LSR_DR = 0 \<Longrightarrow> typed b u cs h' \<Longrightarrow> typed b u cs h"
| typed_char: "bus_rd b (u + 20) h = (v, h1) \<Longrightarrow> v AND LSR_DR \<noteq> 0 \<Longrightarrow> bus_rd b (u + 20) h1 = (l, h2) \<Longrightarrow>
    bus_rd b u h2 = (d, h3) \<Longrightarrow> c = ucast d \<Longrightarrow> typed b u cs h3 \<Longrightarrow> typed b u (c # cs) h"

lemma getc_typed:
  assumes "typed b u (c # cs) h" and "UART e = u" and "e_dev e = h"
  shows "\<exists>h' f. getc b e = Some (c, e\<lparr>e_dev := h', SerialErrorFlag := f\<rparr>) \<and> typed b u cs h'"
  using assms
proof (induction b u "c # cs" h arbitrary: e rule: typed.induct)
  case (typed_idle b u h v h')
  from typed_idle.prems typed_idle.hyps
  obtain h'' f where g: "getc b (e\<lparr>e_dev := h'\<rparr>) = Some (c, e\<lparr>e_dev := h'', SerialErrorFlag := f\<rparr>)"
    and t: "typed b u cs h''"
    using typed_idle.hyps(4) [of "e\<lparr>e_dev := h'\<rparr>"] by auto
  have "getc_wait b e = getc_wait b (e\<lparr>e_dev := h'\<rparr>)"
    using typed_idle.hyps(1,2) typed_idle.prems
    by (subst getc_wait.simps) (simp add: SerialIsReadyChar_def rd_def UART_LSR_def)
  then have "getc b e = getc b (e\<lparr>e_dev := h'\<rparr>)" by (simp add: getc_def)
  with g t show ?case by auto
next
  case (typed_char b u h v h1 l h2 d h3)
  then show ?case
    by (subst getc_def, subst getc_wait.simps)
      (auto simp: SerialIsReadyChar_def SerialIsGetChar_def rd_def UART_LSR_def UART_DATA_def
          intro!: exI [of _ h3] exI [of _ "l AND LSR_ERRORS"])
qed

text \<open>What the line editor keeps of the characters typed.\<close>

definition edit_step :: "u8 list \<Rightarrow> u8 \<Rightarrow> u8 list" where
  "edit_step l c = (if c = 8 then butlast l else l @ [c])"

definition edit :: "u8 list \<Rightarrow> u8 list" where
  "edit cs = foldl edit_step [] cs"

lemma edit_length: "length (foldl edit_step l cs) \<le> length l + length cs"
proof (induction cs arbitrary: l)
  case (Cons c cs)
  have "length (edit_step l c) \<le> length l + 1" by (auto simp: edit_step_def)
  with Cons.IH [of "edit_step l c"] show ?case by simp
qed simp

lemma edit_set: "set (foldl edit_step l cs) \<subseteq> set l \<union> set cs"
proof (induction cs arbitrary: l)
  case (Cons c cs)
  have "set (edit_step l c) \<subseteq> insert c (set l)" by (auto simp: edit_step_def dest: in_set_butlastD)
  with Cons.IH [of "edit_step l c"] show ?case by auto
qed simp

text \<open>The buffer at \<open>s\<close> starts with the characters \<open>l\<close>.\<close>

definition holds :: "mem \<Rightarrow> u32 \<Rightarrow> u8 list \<Rightarrow> bool" where
  "holds m s l \<longleftrightarrow> (\<forall>i < length l. m (s + of_nat i) = l ! i)"

lemma offset_neq: "i < n \<Longrightarrow> n < 2 ^ 32 \<Longrightarrow> (s :: u32) + of_nat i \<noteq> s + of_nat n"
proof -
  assume "i < n" "n < 2 ^ 32"
  moreover from this have "(of_nat (n - i) :: u32) \<noteq> 0" by (intro of_nat_neq) simp_all
  ultimately show ?thesis by (simp add: of_nat_diff)
qed

lemma holds_upd: "holds m s l \<Longrightarrow> length l < 2 ^ 32 \<Longrightarrow> holds (m(s + of_nat (length l) := c)) s l"
  using offset_neq [of _ "length l" s] by (simp add: holds_def)

lemma cstr_holds: "0 \<notin> set l \<Longrightarrow> holds m s (l @ [0]) \<Longrightarrow> cstr m s l"
proof -
  assume a: "0 \<notin> set l" "holds m s (l @ [0])"
  have "m (s + of_nat i) = l ! i \<and> l ! i \<noteq> 0" if "i < length l" for i
  proof -
    have "m (s + of_nat i) = (l @ [0]) ! i" using a(2) that unfolding holds_def by (metis length_append_singleton less_SucI)
    with a(1) that show ?thesis by (auto simp: nth_append) (metis nth_mem)
  qed
  moreover have "m (s + of_nat (length l)) = 0"
    using a(2) unfolding holds_def by (metis length_append_singleton lessI nth_append_length)
  ultimately show ?thesis by (simp add: cstr_nth)
qed

text \<open>One character other than return is one step of the editor.\<close>

lemma gets_step:
  assumes g: "getc b e = Some (c, e\<lparr>e_dev := h, SerialErrorFlag := f\<rparr>)" and c: "c \<noteq> 13"
    and l: "holds (e_mem e) s l" "length l < 2 ^ 32"
  shows "\<exists>e1. gets_loop b (s + of_nat (length l)) (int (length l)) e =
      gets_loop b (s + of_nat (length (edit_step l c))) (int (length (edit_step l c))) e1 \<and>
    e_dev e1 = h \<and> UART e1 = UART e \<and> holds (e_mem e1) s (edit_step l c) \<and>
    (\<forall>x. x \<noteq> s + of_nat (length l) \<longrightarrow> e_mem e1 x = e_mem e x)"
proof -
  let ?e = "e\<lparr>e_dev := h, SerialErrorFlag := f\<rparr>"
  consider "c \<noteq> 8" | "c = 8" "l \<noteq> []" | "c = 8" "l = []" by blast
  then show ?thesis
  proof cases
    case 1
    let ?e1 = "say ''%c'' [ucast c] (with_mem (\<lambda>m. m(s + of_nat (length l) := c)) ?e)"
    have hd: "holds (e_mem ?e1) s (l @ [c])"
      using holds_upd [OF l, of c] by (auto simp: holds_def nth_append less_Suc_eq)
    have p: "s + of_nat (length (l @ [c])) = s + of_nat (length l) + 1" "int (length (l @ [c])) = int (length l) + 1"
      by simp_all
    have gl: "gets_loop b (s + of_nat (length l)) (int (length l)) e =
        gets_loop b (s + of_nat (length (l @ [c]))) (int (length (l @ [c]))) ?e1"
      unfolding p by (subst gets_loop.simps) (simp add: g c 1)
    have es: "edit_step l c = l @ [c]" using 1 by (simp add: edit_step_def)
    show ?thesis unfolding es
      by (intro exI [of _ ?e1] conjI allI impI gl hd) (simp_all add: say_def with_mem_def)
  next
    case 2
    let ?e1 = "say [CHR 0x08, CHR 0x20, CHR 0x08] [] (with_mem (\<lambda>m. m(s + of_nat (length l) := 32)) ?e)"
    have len: "length l = Suc (length (butlast l))" using 2 by (cases l) simp_all
    have hd: "holds (e_mem ?e1) s (butlast l)"
      using holds_upd [OF l, of 32] by (simp add: holds_def nth_butlast say_def with_mem_def)
    have p: "s + of_nat (length l) - 1 = s + of_nat (length (butlast l))"
      "int (length l) - 1 = int (length (butlast l))" "0 < int (length l)"
      by (simp_all only: len) simp_all
    have gl: "gets_loop b (s + of_nat (length l)) (int (length l)) e =
        gets_loop b (s + of_nat (length (butlast l))) (int (length (butlast l))) ?e1"
      unfolding p(1,2) [symmetric] using 2 by (subst gets_loop.simps) (simp add: g c p(3))
    have es: "edit_step l c = butlast l" using 2 by (simp add: edit_step_def)
    show ?thesis unfolding es
      by (intro exI [of _ ?e1] conjI allI impI gl hd) (simp_all add: say_def with_mem_def)
  next
    case 3
    have "gets_loop b s 0 e = gets_loop b s 0 ?e" using g c 3 by (subst gets_loop.simps) simp
    with 3 show ?thesis by (intro exI [of _ ?e]) (simp add: edit_step_def holds_def)
  qed
qed

lemma gets_loop_typed:
  assumes "typed b u (cs @ [13]) (e_dev e)" and "UART e = u" and "13 \<notin> set cs"
    and "holds (e_mem e) s l" and "length l + length cs < 2 ^ 32"
  shows "\<exists>e'. gets_loop b (s + of_nat (length l)) (int (length l)) e = Some (int (length (foldl edit_step l cs)), e') \<and>
    holds (e_mem e') s (foldl edit_step l cs @ [0]) \<and>
    (\<forall>x. (\<forall>i \<le> length l + length cs. x \<noteq> s + of_nat i) \<longrightarrow> e_mem e' x = e_mem e x)"
  using assms
proof (induction cs arbitrary: e l)
  case Nil
  from Nil.prems(1,2) obtain h f where "getc b e = Some (13, e\<lparr>e_dev := h, SerialErrorFlag := f\<rparr>)"
    using getc_typed by (metis append_Nil)
  moreover have "holds ((e_mem e)(s + of_nat (length l) := 0)) s (l @ [0])"
    using holds_upd [OF Nil.prems(4)] Nil.prems(5) by (auto simp: holds_def nth_append less_Suc_eq)
  ultimately show ?case by (subst gets_loop.simps) (simp add: with_mem_def)
next
  case (Cons c cs)
  from Cons.prems(1,2) obtain h f where g: "getc b e = Some (c, e\<lparr>e_dev := h, SerialErrorFlag := f\<rparr>)"
    and t: "typed b u (cs @ [13]) h" using getc_typed by (metis append_Cons)
  let ?l = "edit_step l c"
  have le: "length ?l \<le> length l + 1" by (auto simp: edit_step_def)
  from gets_step [OF g _ Cons.prems(4)] Cons.prems(3,5) obtain e1 where
    1: "gets_loop b (s + of_nat (length l)) (int (length l)) e = gets_loop b (s + of_nat (length ?l)) (int (length ?l)) e1"
    and e1: "e_dev e1 = h" "UART e1 = UART e" "holds (e_mem e1) s ?l"
    and fr: "\<And>x. x \<noteq> s + of_nat (length l) \<Longrightarrow> e_mem e1 x = e_mem e x" by auto
  have "\<exists>e'. gets_loop b (s + of_nat (length ?l)) (int (length ?l)) e1 = Some (int (length (foldl edit_step ?l cs)), e') \<and>
    holds (e_mem e') s (foldl edit_step ?l cs @ [0]) \<and>
    (\<forall>x. (\<forall>i \<le> length ?l + length cs. x \<noteq> s + of_nat i) \<longrightarrow> e_mem e' x = e_mem e1 x)"
    by (rule Cons.IH) (use e1 t le Cons.prems in simp_all)
  then obtain e' where e': "gets_loop b (s + of_nat (length ?l)) (int (length ?l)) e1 = Some (int (length (foldl edit_step ?l cs)), e')"
    "holds (e_mem e') s (foldl edit_step ?l cs @ [0])"
    "\<And>x. (\<forall>i \<le> length ?l + length cs. x \<noteq> s + of_nat i) \<Longrightarrow> e_mem e' x = e_mem e1 x" by blast
  have "e_mem e' x = e_mem e x" if "\<forall>i \<le> length l + length (c # cs). x \<noteq> s + of_nat i" for x
  proof -
    have "x \<noteq> s + of_nat (length l)" using that by simp
    moreover have "\<forall>i \<le> length ?l + length cs. x \<noteq> s + of_nat i" using that le by simp
    ultimately show ?thesis using e'(3) fr by simp
  qed
  with 1 e' show ?case by auto
qed

lemma script_typed:
  "typed script_bus u cs (rs, ws) \<Longrightarrow> v AND LSR_DR \<noteq> 0 \<Longrightarrow> typed script_bus u (ucast d # cs) (v # l # d # rs, ws)"
  by (rule typed_char [OF script_bus_simps(2) _ script_bus_simps(2) script_bus_simps(2)]) simp_all

lemma script_idle: "typed script_bus u cs (rs, ws) \<Longrightarrow> v AND LSR_DR = 0 \<Longrightarrow> typed script_bus u cs (v # rs, ws)"
  by (rule typed_idle) simp_all

lemma gets_typed:
  assumes "typed b (UART e) (cs @ [13]) (e_dev e)" and "13 \<notin> set cs" and "0 \<notin> set cs" and "length cs < 2 ^ 32"
  shows "\<exists>e'. gets b s e = Some (int (length (edit cs)), e') \<and> cstr (e_mem e') s (edit cs) \<and>
    (\<forall>x. (\<forall>i \<le> length cs. x \<noteq> s + of_nat i) \<longrightarrow> e_mem e' x = e_mem e x)"
proof -
  have "holds (e_mem e) s []" by (simp add: holds_def)
  from gets_loop_typed [OF assms(1) refl assms(2) this] assms(4) obtain e' where
    e': "gets b s e = Some (int (length (edit cs)), e')" "holds (e_mem e') s (edit cs @ [0])"
    "\<forall>x. (\<forall>i \<le> length cs. x \<noteq> s + of_nat i) \<longrightarrow> e_mem e' x = e_mem e x"
    by (auto simp: gets_def edit_def)
  have "0 \<notin> set (edit cs)" using edit_set [of "[]" cs] assms(3) by (auto simp: edit_def)
  then have "cstr (e_mem e') s (edit cs)"
    using e'(2) by (rule cstr_holds)
  with e' show ?thesis by blast
qed

text \<open>
  C27: \<open>gets\<close> stores the line as the user edited it: from the characters typed before return, each
  backspace removes the last one still there, if any. The result is the length of the line, the
  line is terminated, and nothing beyond one cell per typed character is written.
\<close>
theorem gets_edits_line:
  assumes "typed b (UART e) (cs @ [13]) (e_dev e)" and "13 \<notin> set cs" and "0 \<notin> set cs" and "length cs < 2 ^ 32"
  shows "\<exists>e'. gets b s e = Some (int (length (edit cs)), e') \<and> cstr (e_mem e') s (edit cs) \<and>
    (\<forall>x. (\<forall>i \<le> length cs. x \<noteq> s + of_nat i) \<longrightarrow> e_mem e' x = e_mem e x)"
  by (rule gets_typed [OF assms])

theorem gets_edits_line_witness:
  "\<exists>e'. gets script_bus 0x100 (ez_at (\<lambda>_. 0xAA) ([1, 0, 65, 0, 1, 0, 66, 1, 0, 8, 1, 0, 67, 1, 0, 13], []) (\<lambda>_. 0)) = Some (2, e')
     \<and> cstr (e_mem e') 0x100 [65, 67]"
proof -
  let ?e = "ez_at (\<lambda>_. 0xAA) ([1, 0, 65, 0, 1, 0, 66, 1, 0, 8, 1, 0, 67, 1, 0, 13], []) (\<lambda>_. 0) :: script ez"
  have "typed script_bus (UART ?e) ([ucast (65 :: u32), ucast (66 :: u32), ucast (8 :: u32), ucast (67 :: u32)] @ [ucast (13 :: u32)]) (e_dev ?e)"
    unfolding ez_at_def ez.simps append.simps
    by (intro script_typed script_idle typed_nil) (simp_all add: LSR_DR_def)
  then have "typed script_bus (UART ?e) ([65, 66, 8, 67] @ [13]) (e_dev ?e)" by simp
  from gets_edits_line [OF this, of "0x100"] show ?thesis by (auto simp: edit_def edit_step_def)
qed

section \<open>Sending text\<close>

definition crlf :: "u8 list \<Rightarrow> u8 list" where
  "crlf cs = concat (map (\<lambda>c. if c = 10 then [10, 13] else [c]) cs)"

text \<open>A transmitter that is always ready and whose status can be read without effect.\<close>

definition tx_ready :: "'h bus \<Rightarrow> u32 \<Rightarrow> bool" where
  "tx_ready b u \<longleftrightarrow> (\<forall>h. snd (bus_rd b (u + 20) h) = h \<and> fst (bus_rd b (u + 20) h) AND LSR_TDRQ \<noteq> 0)"

definition send :: "'h bus \<Rightarrow> u32 \<Rightarrow> u8 list \<Rightarrow> 'h \<Rightarrow> 'h" where
  "send b u cs h = fold (\<lambda>c h. bus_wr b u (ucast c) h) cs h"

lemma SerialOutChar_ready:
  assumes "tx_ready b (UART e)"
  shows "SerialOutChar b c e = Some (e\<lparr>e_dev := send b (UART e) [c] (e_dev e)\<rparr>)"
proof -
  obtain v where "bus_rd b (UART e + 20) (e_dev e) = (v, e_dev e)" "v AND LSR_TDRQ \<noteq> 0"
    using assms unfolding tx_ready_def by (metis prod.collapse)
  then show ?thesis
    by (subst SerialOutChar_def, subst wait_reg.simps)
      (simp add: rd_def wr_def UART_LSR_def UART_DATA_def send_def)
qed

lemma SerialOutChar_CheckCR_ready:
  assumes "tx_ready b (UART e)"
  shows "SerialOutChar_CheckCR b c e = Some (e\<lparr>e_dev := send b (UART e) (crlf [c]) (e_dev e)\<rparr>)"
  using assms by (simp add: SerialOutChar_CheckCR_def SerialOutChar_ready crlf_def send_def)

lemma SerialOutStr_CheckCR_ready:
  assumes "tx_ready b (UART e)"
  shows "SerialOutStr_CheckCR b s n e = Some (e\<lparr>e_dev := send b (UART e) (crlf (read_bytes (e_mem e) s n)) (e_dev e)\<rparr>)"
  using assms
proof (induction n arbitrary: s e)
  case 0
  then show ?case by (simp add: crlf_def send_def)
next
  case (Suc n)
  then show ?case by (simp add: SerialOutChar_CheckCR_ready) (simp add: crlf_def send_def)
qed

text \<open>
  Through a transmitter that is always ready, \<open>printf\<close> sends exactly the text \<open>vsprintf\<close> makes of the
  format and the arguments, in order, with a carriage return after each line feed, and returns the
  length of that text.
\<close>
lemma printf_sends_text:
  assumes "tx_ready b (UART e)" and "vsprintf (e_mem e) (obj e ''buffer'') fmt args = Some (m, len)" and "0 \<le> sint len"
  shows "printf b fmt args e = Some (len, e\<lparr>e_mem := m,
    e_dev := send b (UART e) (crlf (read_bytes m (obj e ''buffer'') (unat len))) (e_dev e)\<rparr>)"
proof -
  have "(if 0 < sint len then unat len else 0) = unat len"
    using assms(3) signed_word_eqI [of len 0] by (cases "len = 0") (auto simp: less_le)
  then show ?thesis using assms(1,2)
    by (simp add: printf_def SerialOutStr_CheckCR_ready [of b "e\<lparr>e_mem := m\<rparr>"])
qed

text \<open>A transmitter that keeps what it is sent, the last first.\<close>

definition tty_bus :: "u32 list bus" where
  "tty_bus = \<lparr>bus_rd = (\<lambda>a h. (0x20, h)), bus_wr = (\<lambda>a v h. v # h), bus_idle = (\<lambda>h. h)\<rparr>"

lemma printf_example:
  "\<exists>e'. printf tty_bus 0x200 (\<lambda>_. 0) (ez_at ((\<lambda>_. 0)(0x200 := 72, 0x201 := 10)) [] (\<lambda>_. 0x100)) = Some (2, e')
     \<and> e_dev e' = [13, 10, 72]"
proof -
  let ?e = "ez_at ((\<lambda>_. 0)(0x200 := 72, 0x201 := 10)) [] (\<lambda>_. 0x100) :: u32 list ez"
  have r: "tx_ready tty_bus (UART ?e)" by (simp add: tx_ready_def tty_bus_def LSR_TDRQ_def)
  have v: "vsprintf (e_mem ?e) (obj ?e ''buffer'') 0x200 (\<lambda>_. 0) =
      Some ((\<lambda>_. 0)(0x200 := 72, 0x201 := 10, 0x100 := 72, 0x101 := 10, 0x102 := 0), 2)"
    by (simp add: ez_at_def vsprintf_def vs_loop.simps)
  have n: "unat (2 :: u32) = Suc (Suc 0)" by simp
  from printf_sends_text [OF r v] have "printf tty_bus 0x200 (\<lambda>_. 0) ?e = Some (2, ?e\<lparr>
      e_mem := (\<lambda>_. 0)(0x200 := 72, 0x201 := 10, 0x100 := 72, 0x101 := 10, 0x102 := 0), e_dev := [13, 10, 72]\<rparr>)"
    unfolding n by (simp add: send_def crlf_def tty_bus_def ez_at_def)
  then show ?thesis by auto
qed

end
