(* ===== verification/Boot_Flash.thy ===== *)
theory Boot_Flash
  imports Boot_Console
begin

text \<open>
  The boot flash, a 29LV chip on 16 bits: \<open>flash_29lvx.c\<close>. The chip is behind the bus; its blocks
  are in tables that end with -1. After every write the macro \<open>FB29LVx_WriteMemoryShort\<close> waits in a delay loop.
\<close>

section \<open>Chips and blocks\<close>

definition FB29LV400T_block_addr :: "int list" where
  "FB29LV400T_block_addr =
     [0, 0x10000, 0x20000, 0x30000, 0x40000, 0x50000, 0x60000, 0x70000, 0x78000, 0x7A000,
      0x7C000, -1]"

definition FB29LV400B_block_addr :: "int list" where
  "FB29LV400B_block_addr =
     [0, 0x04000, 0x06000, 0x08000, 0x10000, 0x20000, 0x30000, 0x40000, 0x50000, 0x60000,
      0x70000, -1]"

definition FB29LV800T_block_addr :: "int list" where
  "FB29LV800T_block_addr =
     [0, 0x10000, 0x20000, 0x30000, 0x40000, 0x50000, 0x60000, 0x70000, 0x80000, 0x90000,
      0xA0000, 0xB0000, 0xC0000, 0xD0000, 0xE0000, 0xF0000, 0xF8000, 0xFA000, 0xFC000, -1]"

definition FB29LV800B_block_addr :: "int list" where
  "FB29LV800B_block_addr =
     [0, 0x04000, 0x06000, 0x08000, 0x10000, 0x20000, 0x30000, 0x40000, 0x50000, 0x60000,
      0x70000, 0x80000, 0x90000, 0xA0000, 0xB0000, 0xC0000, 0xD0000, 0xE0000, 0xF0000, -1]"

definition FB29LV160T_block_addr :: "int list" where
  "FB29LV160T_block_addr =
     [0, 0x010000, 0x020000, 0x030000, 0x040000, 0x050000, 0x060000, 0x070000, 0x080000, 0x090000,
      0x0A0000, 0x0B0000, 0x0C0000, 0x0D0000, 0x0E0000, 0x0F0000, 0x100000, 0x110000, 0x120000, 0x130000,
      0x140000, 0x150000, 0x160000, 0x170000, 0x180000, 0x190000, 0x1A0000, 0x1B0000, 0x1C0000, 0x1D0000,
      0x1E0000, 0x1F0000, 0x1F8000, 0x1FA000, 0x1FC000, -1]"

definition FB29LV160B_block_addr :: "int list" where
  "FB29LV160B_block_addr =
     [0, 0x004000, 0x006000, 0x008000, 0x010000, 0x020000, 0x030000, 0x040000, 0x050000, 0x060000,
      0x070000, 0x080000, 0x090000, 0x0A0000, 0x0B0000, 0x0C0000, 0x0D0000, 0x0E0000, 0x0F0000, 0x100000,
      0x110000, 0x120000, 0x130000, 0x140000, 0x150000, 0x160000, 0x170000, 0x180000, 0x190000, 0x1A0000,
      0x1B0000, 0x1C0000, 0x1D0000, 0x1E0000, 0x1F0000, -1]"

definition FB_400x_BLOCK_COUNT :: int where "FB_400x_BLOCK_COUNT = 11"
definition FB_800x_BLOCK_COUNT :: int where "FB_800x_BLOCK_COUNT = 19"
definition FB_160x_BLOCK_COUNT :: int where "FB_160x_BLOCK_COUNT = 35"

text \<open>The chips \<open>FB29LVx_Detect\<close> knows: the number of blocks, the size, the table and the two messages.\<close>

definition chip_data :: "u16 \<Rightarrow> (int \<times> u32 \<times> int list \<times> string \<times> string) option" where
  "chip_data pid =
     (if pid = 0x22B9 then Some (FB_400x_BLOCK_COUNT, 0x80000, FB29LV400T_block_addr,
         ''  Detect %s29LV400 (TOP)Flash : %04X'', ''  SIZE 4M-BIT [512Kbyte]'')
      else if pid = 0x22BA then Some (FB_400x_BLOCK_COUNT, 0x80000, FB29LV400B_block_addr,
         ''  Detect %s29LV400 (BOTTOM)Flash : %04X'', ''  SIZE 4M-BIT [512Kbyte]'')
      else if pid = 0x22DA then Some (FB_800x_BLOCK_COUNT, 0x100000, FB29LV800T_block_addr,
         ''  Detect %s29LV800T (TOP)Flash : %04X'', ''  SIZE 8M-BIT [1Mbyte]'')
      else if pid = 0x225B then Some (FB_800x_BLOCK_COUNT, 0x100000, FB29LV800B_block_addr,
         ''  Detect %s29LV800T (BOTTOM)Flash : %04X'', ''  SIZE 8M-BIT [1Mbyte]'')
      else if pid = 0x22C4 then Some (FB_160x_BLOCK_COUNT, 0x200000, FB29LV160T_block_addr,
         ''  Detect %s29LV160T (TOP)Flash : %04X'', ''  SIZE 16M-BIT [2Mbyte]'')
      else if pid = 0x2249 then Some (FB_160x_BLOCK_COUNT, 0x200000, FB29LV160B_block_addr,
         ''  Detect %s29LV160B (BOTTOM)Flash : %04X'', ''  SIZE 16M-BIT [2Mbyte]'')
      else None)"

section \<open>Commands\<close>

definition RETRY_COUNT :: nat where "RETRY_COUNT = 100"

definition WAIT_LOOP_COUNT :: nat where "WAIT_LOOP_COUNT = 200"

definition FB29LVx_Wait :: "'h bus \<Rightarrow> 'h ez \<Rightarrow> 'h ez" where
  "FB29LVx_Wait b e = pause b WAIT_LOOP_COUNT e"

definition FB29LVx_WriteMemoryShort :: "'h bus \<Rightarrow> u32 \<Rightarrow> u32 \<Rightarrow> 'h ez \<Rightarrow> 'h ez" where
  "FB29LVx_WriteMemoryShort b adr dat e = FB29LVx_Wait b (wr b adr (dat AND 0xFFFF) e)"

definition FB29LVx_ReadMemoryShort :: "'h bus \<Rightarrow> u32 \<Rightarrow> 'h ez \<Rightarrow> u16 \<times> 'h ez" where
  "FB29LVx_ReadMemoryShort b adr e = (let (v, e) = rd b adr e in (ucast v, e))"

definition FB29LVx_CMD_RESET :: "'h bus \<Rightarrow> u32 \<Rightarrow> 'h ez \<Rightarrow> 'h ez" where
  "FB29LVx_CMD_RESET b vBase e = FB29LVx_WriteMemoryShort b vBase 0xF0 e"

definition FB29LVx_CMD_READID_SETUP :: "'h bus \<Rightarrow> u32 \<Rightarrow> 'h ez \<Rightarrow> 'h ez" where
  "FB29LVx_CMD_READID_SETUP b vBase e =
     (let e = FB29LVx_WriteMemoryShort b (vBase + 0xAAA) 0xAA e;
          e = FB29LVx_WriteMemoryShort b (vBase + 0x554) 0x55 e
      in FB29LVx_WriteMemoryShort b (vBase + 0xAAA) 0x90 e)"

definition FB29LVx_CMD_WRITE :: "'h bus \<Rightarrow> u32 \<Rightarrow> u32 \<Rightarrow> u16 \<Rightarrow> 'h ez \<Rightarrow> 'h ez" where
  "FB29LVx_CMD_WRITE b vBase vOffset vData e =
     (let e = FB29LVx_WriteMemoryShort b (vBase + 0xAAA) 0xAA e;
          e = FB29LVx_WriteMemoryShort b (vBase + 0x554) 0x55 e;
          e = FB29LVx_WriteMemoryShort b (vBase + 0xAAA) 0xA0 e
      in FB29LVx_WriteMemoryShort b (vBase + vOffset) (ucast vData) e)"

datatype fb_status = FB_READY | FB_ERSUSP | FB_TIMEOUT

partial_function (option) FB29LVx_GetStatus :: "'h bus \<Rightarrow> u32 \<Rightarrow> 'h ez \<Rightarrow> (fb_status \<times> 'h ez) option" where
  "FB29LVx_GetStatus b vBase e =
     (let (s, e) = FB29LVx_ReadMemoryShort b vBase e;
          (x, e) = FB29LVx_ReadMemoryShort b vBase e
      in if s AND 0x20 \<noteq> 0 then Some (FB_TIMEOUT, e)
         else if s AND 0x80 \<noteq> 0 then Some (FB_ERSUSP, e)
         else if (s XOR x) AND 0x44 = 0 then Some (FB_READY, e)
         else FB29LVx_GetStatus b vBase e)"

text \<open>The name of the maker, as the two letters \<open>Detect\<close> prints.\<close>

definition maker_str :: "u16 \<Rightarrow> string" where
  "maker_str mid = (if mid = 0xC2 then ''MX'' else if mid = 1 then ''AM'' else if mid = 0x4A then ''ES'' else ''xx'')"

definition FB29LVx_Detect :: "'h bus \<Rightarrow> u32 \<Rightarrow> 'h ez \<Rightarrow> int \<times> 'h ez" where
  "FB29LVx_Detect b vBase e =
     (let e = FB29LVx_CMD_READID_SETUP b vBase (FB29LVx_CMD_RESET b vBase e);
          (mid, e) = FB29LVx_ReadMemoryShort b vBase e;
          (pid, e) = FB29LVx_ReadMemoryShort b (vBase + 2) e;
          e = FB29LVx_CMD_RESET b vBase e
      in case chip_data pid of
           None \<Rightarrow> (-1, say ''  Unknown Flash : pid=%04X'' [ucast pid] e)
         | Some (n, sz, tab, msg1, msg2) \<Rightarrow>
             (0, say msg2 [] (say (msg1 @ maker_str mid) [ucast pid]
               (e\<lparr>Nor := Nor e\<lparr>Flash_PID := pid, nor_BlockCount := n, FlashSize := sz, pBlockAddr := tab\<rparr>\<rparr>))))"

text \<open>\<open>n\<close> tries to erase a block, each followed by a wait of 100 ms and a look at the status.\<close>

primrec erase_tries :: "nat \<Rightarrow> 'h bus \<Rightarrow> u32 \<Rightarrow> u32 \<Rightarrow> 'h ez \<Rightarrow> (int \<times> 'h ez) option" where
  "erase_tries 0 b vBase vBlkAddr e = Some (-1, say ''Erase Error [retry count]...'' [] e)"
| "erase_tries (Suc n) b vBase vBlkAddr e = do {
     let e = FB29LVx_WriteMemoryShort b (vBase + 0xAAA) 0xAA e;
     let e = FB29LVx_WriteMemoryShort b (vBase + 0x554) 0x55 e;
     let e = FB29LVx_WriteMemoryShort b (vBase + 0xAAA) 0x80 e;
     let e = FB29LVx_WriteMemoryShort b (vBase + 0xAAA) 0xAA e;
     let e = FB29LVx_WriteMemoryShort b (vBase + 0x554) 0x55 e;
     let e = FB29LVx_WriteMemoryShort b (vBase + vBlkAddr) 0x30 e;
     e \<leftarrow> msleep b 100 e;
     (status, e) \<leftarrow> FB29LVx_GetStatus b vBase e;
     let e = FB29LVx_CMD_RESET b vBase e;
     if status = FB_READY then Some (0, e) else erase_tries n b vBase vBlkAddr e }"

definition FB29LVx_EraseBlock :: "'h bus \<Rightarrow> u32 \<Rightarrow> u32 \<Rightarrow> 'h ez \<Rightarrow> (int \<times> 'h ez) option" where
  "FB29LVx_EraseBlock b vBase vBlkAddr e = erase_tries RETRY_COUNT b vBase vBlkAddr e"

primrec write_tries :: "nat \<Rightarrow> 'h bus \<Rightarrow> u32 \<Rightarrow> u32 \<Rightarrow> u16 \<Rightarrow> 'h ez \<Rightarrow> (int \<times> 'h ez) option" where
  "write_tries 0 b vBase vOffset dat e = Some (-1, say ''Write Error [retry count]...'' [] e)"
| "write_tries (Suc n) b vBase vOffset dat e = do {
     let e = FB29LVx_CMD_WRITE b vBase vOffset dat e;
     (status, e) \<leftarrow> FB29LVx_GetStatus b vBase e;
     if status = FB_READY then Some (0, FB29LVx_Wait b e)
     else write_tries n b vBase vOffset dat (FB29LVx_CMD_RESET b vBase e) }"

definition FB29LVx_WriteWord :: "'h bus \<Rightarrow> u32 \<Rightarrow> u32 \<Rightarrow> u16 \<Rightarrow> 'h ez \<Rightarrow> (int \<times> 'h ez) option" where
  "FB29LVx_WriteWord b vBase vOffset dat e = write_tries RETRY_COUNT b vBase vOffset dat e"

text \<open>
  The block that holds an offset. \<open>block_scan n blk\<close> looks at the blocks from \<open>blk\<close> on, \<open>n\<close> of them.
\<close>

primrec block_scan :: "nat \<Rightarrow> nat \<Rightarrow> int list \<Rightarrow> u32 \<Rightarrow> int" where
  "block_scan 0 blk tab vOffset = int blk"
| "block_scan (Suc n) blk tab vOffset =
     (if 0 > tab ! blk then -1
      else if 0 < tab ! (blk + 1) then
        (if tab ! blk \<le> uint vOffset \<and> uint vOffset < tab ! (blk + 1) then int blk
         else block_scan n (blk + 1) tab vOffset)
      else int blk)"

definition FB29LVx_GetBlockIndex :: "nor_info \<Rightarrow> u32 \<Rightarrow> int" where
  "FB29LVx_GetBlockIndex f vOffset =
     (if FlashSize f \<le> vOffset then -1
      else block_scan (nat (nor_BlockCount f)) 0 (pBlockAddr f) vOffset)"

text \<open>The progress bar; no caller passes 0 for \<open>max\<close>.\<close>

definition Flash_UpdateProgress :: "string \<Rightarrow> u32 \<Rightarrow> u32 \<Rightarrow> 'h ez \<Rightarrow> 'h ez" where
  "Flash_UpdateProgress title cur maxv e =
     (let pos = (nor_progress_pos (Nor e) + 1) AND 3;
          e = e\<lparr>Nor := Nor e\<lparr>nor_progress_pos := pos\<rparr>\<rparr>;
          percent = (cur * 100) div maxv;
          i = ((percent * 50) + 50) div 100;
          e = say (title @ '': |%s%s'') [obj e ''bar'' + (64 - (i + 1)), obj e ''spaces'' + (127 - (50 - i + 1))] e;
          e = say ''%c'' [if percent = 100 then 124 else [92, 124, 47, 45] ! unat pos] e;
          e = say '' %4d%%'' [percent] e
      in if percent = 100 then say ''%s'' [obj e ''spaces'' + 47] e else e)"

definition BootFlash_Init :: "'h bus \<Rightarrow> 'h ez \<Rightarrow> int \<times> 'h ez" where
  "BootFlash_Init b e = FB29LVx_Detect b 0 (say ''Boot Flash Check ......................'' [] e)"

section \<open>Programming\<close>

text \<open>Erases the blocks \<open>idx\<close>, \<open>idx + 1\<close>, ..., \<open>n\<close> of them.\<close>

primrec erase_blocks :: "nat \<Rightarrow> int \<Rightarrow> 'h bus \<Rightarrow> u32 \<Rightarrow> int \<Rightarrow> int \<Rightarrow> 'h ez \<Rightarrow> (int \<times> 'h ez) option" where
  "erase_blocks 0 idx b vBase s_blk e_blk e = Some (0, e)"
| "erase_blocks (Suc n) idx b vBase s_blk e_blk e = do {
     let e = Flash_UpdateProgress ''    Erasing'' (word_of_int (idx - s_blk + 1)) (word_of_int (e_blk - s_blk + 1)) e;
     (r, e) \<leftarrow> FB29LVx_EraseBlock b vBase (word_of_int (pBlockAddr (Nor e) ! nat idx)) e;
     if r < 0 then Some (-1, e)
     else do { e \<leftarrow> msleep b 1000 e; erase_blocks n (idx + 1) b vBase s_blk e_blk e } }"

text \<open>Writes the half-words from \<open>idx\<close> on, \<open>n\<close> of them; a half-word that reads back wrong is written again.\<close>

primrec program_words :: "nat \<Rightarrow> int \<Rightarrow> 'h bus \<Rightarrow> u32 \<Rightarrow> u32 \<Rightarrow> u32 \<Rightarrow> int \<Rightarrow> 'h ez \<Rightarrow> (int \<times> 'h ez) option" where
  "program_words 0 idx b vBase vOffset src sz e = Some (0, e)"
| "program_words (Suc n) idx b vBase vOffset src sz e = do {
     let e = (if crem idx 512 = 0 then Flash_UpdateProgress ''    Writing'' (word_of_int idx) (word_of_int sz) e else e);
     let at = vOffset + word_of_int idx;
     let wData = ld16 (e_mem e) (src + word_of_int idx);
     (r, e) \<leftarrow> FB29LVx_WriteWord b vBase at wData e;
     if r < 0 then Some (-1, e)
     else do {
       let (v, e) = rd b (vBase + at) e;
       (r, e) \<leftarrow> (if ucast v \<noteq> wData then FB29LVx_WriteWord b vBase at wData e else Some (0 :: int, e));
       if r < 0 then Some (-1, e) else program_words n (idx + 2) b vBase vOffset src sz e } }"

definition BootFlash_ProgramEx :: "'h bus \<Rightarrow> u32 \<Rightarrow> u32 \<Rightarrow> u32 \<Rightarrow> int \<Rightarrow> bool \<Rightarrow> 'h ez \<Rightarrow> (int \<times> 'h ez) option" where
  "BootFlash_ProgramEx b vBase vOffset src sz with_erase e =
     (let s_blk = FB29LVx_GetBlockIndex (Nor e) vOffset;
          e_blk = FB29LVx_GetBlockIndex (Nor e) (vOffset + word_of_int sz)
      in if s_blk < 0 \<or> e_blk < 0 then Some (-1, say ''Invalid Address... 0x%08x'' [vBase + vOffset] e)
         else do {
           (r, e) \<leftarrow> (if with_erase then do {
               (r, e) \<leftarrow> erase_blocks (nat (e_blk - s_blk + 1)) s_blk b vBase s_blk e_blk e;
               if r < 0 then Some (-1, e)
               else Some (0, say ''    Erase : OK'' [] (Flash_UpdateProgress ''    Erasing'' 100 100 e)) }
             else Some (0 :: int, e));
           if r < 0 then Some (-1, e)
           else do {
             (r, e) \<leftarrow> program_words (nat ((sz + 1) div 2)) 0 b vBase vOffset src sz e;
             if r < 0 then Some (-1, e)
             else Some (sz, FB29LVx_CMD_RESET b vBase
               (say ''    Write : OK'' [] (Flash_UpdateProgress ''    Writing'' 100 100 e))) } })"

text \<open>The comparison after programming: \<open>n\<close> half-words.\<close>

primrec flash_verify :: "nat \<Rightarrow> 'h bus \<Rightarrow> u32 \<Rightarrow> u32 \<Rightarrow> 'h ez \<Rightarrow> int \<times> 'h ez" where
  "flash_verify 0 b pdst psrc e = (0, e)"
| "flash_verify (Suc n) b pdst psrc e =
     (let (v, e) = FB29LVx_ReadMemoryShort b pdst e; w = ld16 (e_mem e) psrc in
      if v \<noteq> w then (let (v, e) = FB29LVx_ReadMemoryShort b pdst e
                      in (-1, say ''Verify Error %p: %04x/%04x'' [pdst, ucast v, ucast w] e))
      else flash_verify n b (pdst + 2) (psrc + 2) e)"

definition CopyTo_BootFlashEx :: "'h bus \<Rightarrow> u32 \<Rightarrow> u32 \<Rightarrow> int \<Rightarrow> bool \<Rightarrow> 'h ez \<Rightarrow> (int \<times> 'h ez) option" where
  "CopyTo_BootFlashEx b dest src sz with_erase e = do {
     (_, e) \<leftarrow> BootFlash_ProgramEx b 0 dest src sz with_erase e;
     Some (flash_verify (nat (cdiv sz 2)) b dest src e) }"

definition DEFAULT_FLASH_BOOT :: u32 where "DEFAULT_FLASH_BOOT = 0"
definition DEFAULT_BOOT_SIZE :: int where "DEFAULT_BOOT_SIZE = 128 * 1024"
definition DEFAULT_BOOT_PARAM :: u32 where "DEFAULT_BOOT_PARAM = 0x20000"
definition DEFAULT_RAM_BOOT_START :: u32 where "DEFAULT_RAM_BOOT_START = 0xA0F00000"

definition SelfCopy_BootLoader :: "'h bus \<Rightarrow> 'h ez \<Rightarrow> 'h ez option" where
  "SelfCopy_BootLoader b e = do {
     (_, e) \<leftarrow> CopyTo_BootFlashEx b DEFAULT_FLASH_BOOT DEFAULT_RAM_BOOT_START DEFAULT_BOOT_SIZE True e;
     Some e }"

section \<open>Finding a block\<close>

text \<open>A table of \<open>n\<close> ascending block addresses, the first 0, the entry after the last -1, in a chip of size \<open>sz\<close>.\<close>

definition block_table :: "int list \<Rightarrow> nat \<Rightarrow> u32 \<Rightarrow> bool" where
  "block_table tab n sz \<longleftrightarrow> 0 < n \<and> tab ! 0 = 0 \<and> tab ! n = -1 \<and>
     (\<forall>i < n - 1. tab ! i < tab ! (i + 1)) \<and> tab ! (n - 1) < uint sz"

definition block_end :: "int list \<Rightarrow> nat \<Rightarrow> u32 \<Rightarrow> nat \<Rightarrow> int" where
  "block_end tab n sz i = (if i + 1 = n then uint sz else tab ! (i + 1))"

lemma tables_ok:
  "block_table FB29LV400T_block_addr 11 0x80000" "block_table FB29LV400B_block_addr 11 0x80000"
  "block_table FB29LV800T_block_addr 19 0x100000" "block_table FB29LV800B_block_addr 19 0x100000"
  "block_table FB29LV160T_block_addr 35 0x200000" "block_table FB29LV160B_block_addr 35 0x200000"
  by code_simp+

lemma chip_tables: "chip_data pid = Some (n, sz, tab, a, b) \<Longrightarrow> block_table tab (nat n) sz"
  unfolding chip_data_def FB_400x_BLOCK_COUNT_def FB_800x_BLOCK_COUNT_def FB_160x_BLOCK_COUNT_def
  using tables_ok by (auto split: if_splits)

lemma block_table_nonneg: "block_table tab n sz \<Longrightarrow> i < n \<Longrightarrow> 0 \<le> tab ! i"
proof (induction i)
  case (Suc i)
  then have "tab ! i < tab ! (i + 1)" by (simp add: block_table_def)
  with Suc show ?case by simp
qed (simp add: block_table_def)

lemma block_scan_finds:
  assumes "block_table tab n sz" and "blk + k = n" and "0 < k" and "tab ! blk \<le> uint off" and "off < sz"
  shows "\<exists>i. block_scan k blk tab off = int i \<and> i < n \<and> tab ! i \<le> uint off \<and> uint off < block_end tab n sz i"
  using assms(2-4)
proof (induction k arbitrary: blk)
  case (Suc k)
  have b0: "0 \<le> tab ! blk" using block_table_nonneg [OF assms(1), of blk] Suc.prems by simp
  show ?case
  proof (cases "k = 0")
    case True
    with Suc.prems assms(1) have "tab ! (blk + 1) = -1" by (simp add: block_table_def)
    with True Suc.prems b0 assms(5) show ?thesis
      by (intro exI [of _ blk]) (simp add: block_end_def word_less_def)
  next
    case False
    with Suc.prems have n: "blk + 1 < n" "blk < n - 1" by simp_all
    then have "tab ! blk < tab ! (blk + 1)" using assms(1) unfolding block_table_def by blast
    with b0 n have "0 < tab ! (blk + 1)" "blk + 1 < n" by simp_all
    then show ?thesis
    proof (cases "uint off < tab ! (blk + 1)")
      case True
      with Suc.prems b0 \<open>0 < tab ! (blk + 1)\<close> \<open>blk + 1 < n\<close> show ?thesis
        by (intro exI [of _ blk]) (simp add: block_end_def)
    next
      case lt: False
      with Suc.IH [of "blk + 1"] Suc.prems b0 \<open>0 < tab ! (blk + 1)\<close> False show ?thesis by simp
    qed
  qed
qed simp


text \<open>
  on every chip \<open>FB29LVx_Detect\<close> knows, \<open>FB29LVx_GetBlockIndex\<close> gives for an offset inside the chip
  the block whose first byte is at or before it and whose last byte is at or after it, and -1 for an
  offset beyond the chip.
\<close>

theorem block_index_ok:
  assumes "chip_data pid = Some (nor_BlockCount f, FlashSize f, pBlockAddr f, m1, m2)"
  shows "(off < FlashSize f \<longrightarrow> (\<exists>i. FB29LVx_GetBlockIndex f off = int i \<and> i < nat (nor_BlockCount f) \<and>
       pBlockAddr f ! i \<le> uint off \<and> uint off < block_end (pBlockAddr f) (nat (nor_BlockCount f)) (FlashSize f) i)) \<and>
    (FlashSize f \<le> off \<longrightarrow> FB29LVx_GetBlockIndex f off = -1)"
proof -
  have t: "block_table (pBlockAddr f) (nat (nor_BlockCount f)) (FlashSize f)" by (rule chip_tables [OF assms])
  then have "0 < nat (nor_BlockCount f)" "pBlockAddr f ! 0 \<le> uint off" by (simp_all add: block_table_def)
  with block_scan_finds [OF t, of 0 "nat (nor_BlockCount f)" off] show ?thesis
    by (auto simp: FB29LVx_GetBlockIndex_def not_le)
qed

theorem block_index_ok_witness:
  "FB29LVx_GetBlockIndex \<lparr>Flash_PID = 0x2249, nor_BlockCount = 35, FlashSize = 0x200000,
     pBlockAddr = FB29LV160B_block_addr, nor_progress_pos = 0\<rparr> 0x200000 = -1 \<and>
   (\<exists>i. FB29LVx_GetBlockIndex \<lparr>Flash_PID = 0x2249, nor_BlockCount = 35, FlashSize = 0x200000,
     pBlockAddr = FB29LV160B_block_addr, nor_progress_pos = 0\<rparr> 0x1FFFF = int i \<and>
     FB29LV160B_block_addr ! i \<le> 0x1FFFF \<and> 0x1FFFF < block_end FB29LV160B_block_addr 35 0x200000 i)"
proof -
  let ?f = "\<lparr>Flash_PID = 0x2249, nor_BlockCount = 35, FlashSize = 0x200000, pBlockAddr = FB29LV160B_block_addr, nor_progress_pos = 0\<rparr>"
  have c: "chip_data 0x2249 = Some (nor_BlockCount ?f, FlashSize ?f, pBlockAddr ?f,
      ''  Detect %s29LV160B (BOTTOM)Flash : %04X'', ''  SIZE 16M-BIT [2Mbyte]'')"
    by (simp add: chip_data_def FB_160x_BLOCK_COUNT_def)
  show ?thesis using block_index_ok [OF c, of "0x200000"] block_index_ok [OF c, of "0x1FFFF"] by auto
qed

section \<open>What programming erases\<close>

text \<open>A bus that keeps what is written to it, the last first.\<close>

definition logged :: "'h bus \<Rightarrow> ('h \<times> (u32 \<times> u32) list) bus" where
  "logged b = \<lparr>bus_rd = (\<lambda>a (h, l). let (v, h) = bus_rd b a h in (v, (h, l))),
     bus_wr = (\<lambda>a v (h, l). (bus_wr b a v h, (a, v) # l)), bus_idle = (\<lambda>(h, l). (bus_idle b h, l))\<rparr>"

text \<open>The writes \<open>L\<close> have been made, and the block table is \<open>tab\<close>.\<close>

definition logs :: "(u32 \<times> u32) set \<Rightarrow> int list \<Rightarrow> ('h \<times> (u32 \<times> u32) list) ez \<Rightarrow> bool" where
  "logs L tab e \<longleftrightarrow> L \<subseteq> set (snd (e_dev e)) \<and> pBlockAddr (Nor e) = tab"

lemma logs_wr: "logs L tab e \<Longrightarrow> logs (insert (a, v) L) tab (wr (logged b) a v e)"
  by (auto simp: logs_def wr_def logged_def case_prod_beta)

lemma logs_mono: "logs L tab e \<Longrightarrow> L' \<subseteq> L \<Longrightarrow> logs L' tab e"
  by (auto simp: logs_def)

lemma logs_keep [simp]:
  "logs L tab e \<Longrightarrow> logs L tab (wr (logged b) a v e)"
  "logs L tab (snd (rd (logged b) a e)) = logs L tab e"
  "logs L tab (say f args e) = logs L tab e"
  by (auto simp: logs_def wr_def rd_def say_def logged_def case_prod_beta Let_def)

lemma logs_wait [simp]: "logs L tab (FB29LVx_Wait (logged b) e) = logs L tab e"
proof -
  have "(bus_idle (logged b) ^^ n) h = ((bus_idle b ^^ n) (fst h), snd h)" for n h
    by (induction n) (simp_all add: logged_def case_prod_beta)
  then show ?thesis by (simp add: logs_def FB29LVx_Wait_def)
qed

lemma logs_modify [simp]: "logs L tab e \<Longrightarrow> logs L tab (modify_reg (logged b) a g e)"
  by (auto simp: logs_def modify_reg_def reg_modify_def logged_def case_prod_beta Let_def)

lemma logs_progress [simp]: "logs L tab e \<Longrightarrow> logs L tab (Flash_UpdateProgress title cur maxv e)"
  by (simp add: Flash_UpdateProgress_def Let_def) (simp add: logs_def say_def)

lemma wait_overflow_logs: "wait_overflow (logged b) t e = Some e' \<Longrightarrow> logs L tab e \<Longrightarrow> logs L tab e'"
proof -
  have "b' = logged b \<longrightarrow> logs L tab e \<longrightarrow> logs L tab e'" if "wait_overflow b' t e = Some e'" for b' e e'
    using that
  proof (rule wait_overflow.raw_induct [where P = "\<lambda>b' t e e'. b' = logged b \<longrightarrow> logs L tab e \<longrightarrow> logs L tab e'", rotated], goal_cases)
    case (1 f b' t e e')
    show ?case
    proof (intro impI)
      assume b': "b' = logged b" and l: "logs L tab e"
      have "logs L tab (snd (TimeOverflow b' t e))" using l b' by (simp add: TimeOverflow_def Let_def case_prod_beta)
      with 1 b' show "logs L tab e'" by (auto simp: Let_def case_prod_beta split: if_splits)
    qed
  qed
  then show "wait_overflow (logged b) t e = Some e' \<Longrightarrow> logs L tab e \<Longrightarrow> logs L tab e'" by blast
qed

lemma msleep_logs: "msleep (logged b) n e = Some e' \<Longrightarrow> logs L tab e \<Longrightarrow> logs L tab e'"
  unfolding msleep_def ReloadTimer_def FreeTimer_def Let_def case_prod_beta
  by (auto simp: bind_eq_Some_conv dest!: wait_overflow_logs [where L = L and tab = tab])

lemma GetStatus_logs: "logs L tab e \<Longrightarrow> ensures (logs L tab) (FB29LVx_GetStatus (logged b) vBase e)"
proof (rule ensures_option)
  fix r assume l: "logs L tab e" and r: "FB29LVx_GetStatus (logged b) vBase e = Some r"
  have "b' = logged b \<longrightarrow> logs L tab e \<longrightarrow> ensures (logs L tab) (Some r)" if "FB29LVx_GetStatus b' vBase e = Some r" for b' e r
    using that
  proof (rule FB29LVx_GetStatus.raw_induct [where P = "\<lambda>b' vBase e r. b' = logged b \<longrightarrow> logs L tab e \<longrightarrow> ensures (logs L tab) (Some r)", rotated], goal_cases)
    case (1 f b' vBase e r)
    show ?case
    proof (intro impI)
      assume b': "b' = logged b" and l: "logs L tab e"
      have f: "logs L tab e \<Longrightarrow> ensures (logs L tab) (f b' vBase e)" for e vBase
        using 1(1) b' by (auto intro: ensures_option)
      show "ensures (logs L tab) (Some r)" unfolding 1(2) [symmetric] Let_def case_prod_beta FB29LVx_ReadMemoryShort_def
        by (intro ensures_rules f) (simp_all add: l b')
    qed
  qed
  with l r show "ensures (logs L tab) (Some r)" by blast
qed


lemma erase_tries_logs: "logs L tab e \<Longrightarrow> ensures (logs L tab) (erase_tries n (logged b) vBase blk e)"
proof (induction n arbitrary: e)
  case (Suc n)
  show ?case unfolding erase_tries.simps Let_def FB29LVx_WriteMemoryShort_def FB29LVx_CMD_RESET_def
    by (intro ensures_rules ensures_bind_state GetStatus_logs Suc.IH; (elim msleep_logs)?; simp add: Suc.prems)
qed (simp add: ensures_def)

text \<open>An erase of a block writes the erase command to it, whatever its result.\<close>

lemma EraseBlock_logs:
  "logs L tab e \<Longrightarrow> ensures (logs (insert (vBase + blk, 0x30) L) tab) (FB29LVx_EraseBlock (logged b) vBase blk e)"
proof -
  assume l: "logs L tab e"
  have n: "RETRY_COUNT = Suc 99" by (simp add: RETRY_COUNT_def)
  have w: "logs (insert (vBase + blk, 0x30) L) tab (wr (logged b) (vBase + blk) 0x30 e)" if "logs L tab e" for e
    by (rule logs_wr [OF that])
  show ?thesis unfolding FB29LVx_EraseBlock_def n erase_tries.simps Let_def FB29LVx_WriteMemoryShort_def FB29LVx_CMD_RESET_def
    by (intro ensures_rules ensures_bind_state GetStatus_logs erase_tries_logs; (elim msleep_logs)?; simp add: l w)
qed

lemma erase_blocks_logs:
  assumes "logs L tab e" and "erase_blocks n idx (logged b) vBase s_blk e_blk e = Some (r, e')" and "0 \<le> r"
  shows "logs (L \<union> {(vBase + word_of_int (tab ! nat i), 0x30) | i. idx \<le> i \<and> i < idx + int n}) tab e'"
  using assms(1,2)
proof (induction n arbitrary: idx e L)
  case (Suc n)
  let ?c = "(vBase + word_of_int (tab ! nat idx), 0x30 :: u32)"
  define e0 where "e0 = Flash_UpdateProgress ''    Erasing'' (word_of_int (idx - s_blk + 1)) (word_of_int (e_blk - s_blk + 1)) e"
  have l: "logs L tab e0" using Suc.prems(1) by (simp add: e0_def)
  then have tab: "pBlockAddr (Nor e0) = tab" by (simp add: logs_def)
  from Suc.prems(2) [unfolded erase_blocks.simps Let_def e0_def [symmetric] tab] obtain r1 e1 where e1: "FB29LVx_EraseBlock (logged b) vBase (word_of_int (tab ! nat idx)) e0 = Some (r1, e1)"
    and "(if r1 < 0 then Some (-1, e1) else msleep (logged b) 1000 e1 \<bind> erase_blocks n (idx + 1) (logged b) vBase s_blk e_blk) = Some (r, e')"
    unfolding bind_eq_Some_conv by (auto simp del: split_paired_Ex)
  with assms(3) obtain e2 where e2: "msleep (logged b) 1000 e1 = Some e2"
    "erase_blocks n (idx + 1) (logged b) vBase s_blk e_blk e2 = Some (r, e')"
    by (auto simp: bind_eq_Some_conv split: if_splits)
  have "logs (insert ?c L) tab e2"
    using ensuresD [OF EraseBlock_logs [OF l] e1] e2(1) by (rule msleep_logs [rotated])
  from Suc.IH [OF this e2(2)] show ?case
    by (rule logs_mono) (auto simp: le_less)
qed (auto simp: logs_def)

lemma write_tries_logs: "logs L tab e \<Longrightarrow> ensures (logs L tab) (write_tries n (logged b) vBase off d e)"
proof (induction n arbitrary: e)
  case (Suc n)
  show ?case unfolding write_tries.simps Let_def FB29LVx_WriteMemoryShort_def FB29LVx_CMD_RESET_def FB29LVx_CMD_WRITE_def
    by (intro ensures_rules GetStatus_logs Suc.IH; simp add: Suc.prems)
qed (simp add: ensures_def)

lemma WriteWord_logs: "logs L tab e \<Longrightarrow> ensures (logs L tab) (FB29LVx_WriteWord (logged b) vBase off d e)"
  unfolding FB29LVx_WriteWord_def by (rule write_tries_logs)

lemma program_words_logs: "logs L tab e \<Longrightarrow> ensures (logs L tab) (program_words n idx (logged b) vBase off src sz e)"
proof (induction n arbitrary: idx e)
  case (Suc n)
  show ?case unfolding program_words.simps Let_def case_prod_beta [of _ "rd _ _ _"]
    by (intro ensures_rules WriteWord_logs Suc.IH; simp add: Suc.prems)
qed (simp add: ensures_def)


lemma ProgramEx_erases:
  assumes "BootFlash_ProgramEx (logged b) vBase off src sz True e = Some (r, e')" and "0 \<le> r"
    and "FB29LVx_GetBlockIndex (Nor e) off \<le> i" and "i \<le> FB29LVx_GetBlockIndex (Nor e) (off + word_of_int sz)"
  shows "(vBase + word_of_int (pBlockAddr (Nor e) ! nat i), 0x30) \<in> set (snd (e_dev e'))"
proof -
  let ?s = "FB29LVx_GetBlockIndex (Nor e) off" and ?t = "FB29LVx_GetBlockIndex (Nor e) (off + word_of_int sz)"
  let ?tab = "pBlockAddr (Nor e)"
  define L :: "(u32 \<times> u32) set" where "L = {(vBase + word_of_int (?tab ! nat i), 0x30) | i. ?s \<le> i \<and> i < ?s + int (nat (?t - ?s + 1))}"
  have nn: "\<not> (?s < 0 \<or> ?t < 0)" using assms(1,2) by (auto simp: BootFlash_ProgramEx_def Let_def)
  note ex = assms(1) [unfolded BootFlash_ProgramEx_def Let_def if_not_P [OF nn] if_True]
  obtain r0 e0 where e0: "erase_blocks (nat (?t - ?s + 1)) ?s (logged b) vBase ?s ?t e = Some (r0, e0)"
    using ex by (cases "erase_blocks (nat (?t - ?s + 1)) ?s (logged b) vBase ?s ?t e") auto
  note step = ex [unfolded e0 bind.bind_lunit prod.case]
  have r0: "0 \<le> r0" using step assms(2) by (cases "r0 < 0") simp_all
  have l0: "logs {} ?tab e" by (simp add: logs_def)
  have l: "logs L ?tab e0" using erase_blocks_logs [OF l0 e0 r0] by (simp only: L_def Un_empty_left)
  have "ensures (logs L ?tab) (Some (r, e'))"
    unfolding step [symmetric] FB29LVx_CMD_RESET_def FB29LVx_WriteMemoryShort_def
    by (intro ensures_rules program_words_logs; simp add: l)
  then have "logs L ?tab e'" by (rule ensuresD) simp
  moreover have "(vBase + word_of_int (?tab ! nat i), 0x30) \<in> L"
    unfolding L_def using assms(3,4) nn by (intro CollectI exI [of _ i]) simp
  ultimately show ?thesis by (auto simp: logs_def)
qed

lemma block_table_mono:
  assumes "block_table tab n sz" and "j < n" and "i \<le> j"
  shows "tab ! i \<le> tab ! j"
  using assms(3,2)
proof (induction j rule: dec_induct)
  case (step m)
  then have "tab ! m < tab ! (m + 1)" using assms(1) by (simp add: block_table_def)
  with step show ?case by simp
qed simp

text \<open>The configuration starts a block on every chip.\<close>

lemma config_scan:
  "block_scan 11 0 FB29LV400T_block_addr 0x20000 = 2 \<and> FB29LV400T_block_addr ! 2 = 0x20000"
  "block_scan 11 0 FB29LV400B_block_addr 0x20000 = 5 \<and> FB29LV400B_block_addr ! 5 = 0x20000"
  "block_scan 19 0 FB29LV800T_block_addr 0x20000 = 2 \<and> FB29LV800T_block_addr ! 2 = 0x20000"
  "block_scan 19 0 FB29LV800B_block_addr 0x20000 = 5 \<and> FB29LV800B_block_addr ! 5 = 0x20000"
  "block_scan 35 0 FB29LV160T_block_addr 0x20000 = 2 \<and> FB29LV160T_block_addr ! 2 = 0x20000"
  "block_scan 35 0 FB29LV160B_block_addr 0x20000 = 5 \<and> FB29LV160B_block_addr ! 5 = 0x20000"
  by code_simp+

lemma config_block:
  assumes "chip_data pid = Some (nor_BlockCount f, FlashSize f, pBlockAddr f, m1, m2)"
  shows "\<exists>j. FB29LVx_GetBlockIndex f DEFAULT_BOOT_PARAM = int j \<and> j < nat (nor_BlockCount f) \<and> pBlockAddr f ! j = 0x20000"
proof -
  have "\<exists>j \<in> {2, 5}. block_scan (nat (nor_BlockCount f)) 0 (pBlockAddr f) 0x20000 = int j \<and> pBlockAddr f ! j = 0x20000 \<and>
      11 \<le> nor_BlockCount f \<and> 0x80000 \<le> FlashSize f"
    using assms config_scan unfolding chip_data_def FB_400x_BLOCK_COUNT_def FB_800x_BLOCK_COUNT_def FB_160x_BLOCK_COUNT_def
    by (auto split: if_splits)
  then obtain j where j: "j \<in> {2, 5}" "block_scan (nat (nor_BlockCount f)) 0 (pBlockAddr f) 0x20000 = int j"
    "pBlockAddr f ! j = 0x20000" "11 \<le> nor_BlockCount f" "0x80000 \<le> FlashSize f" by blast
  have "\<not> FlashSize f \<le> 0x20000" using j(5) by (auto simp: word_le_nat_alt)
  with j show ?thesis by (intro exI [of _ j]) (auto simp: FB29LVx_GetBlockIndex_def DEFAULT_BOOT_PARAM_def)
qed

text \<open>
  C38: programming an image that ends exactly where the configuration begins, such as the 128 KB boot
  loader \<open>SelfCopy_BootLoader\<close> copies, erases the configuration too: on every chip, when the
  programming succeeds, the erase command has been written to the block of \<open>DEFAULT_BOOT_PARAM\<close>.
\<close>

theorem boot_image_erases_config:
  assumes "chip_data pid = Some (nor_BlockCount (Nor e), FlashSize (Nor e), pBlockAddr (Nor e), m1, m2)"
    and "off + word_of_int sz = DEFAULT_BOOT_PARAM" and "off \<le> DEFAULT_BOOT_PARAM"
    and "BootFlash_ProgramEx (logged b) 0 off src sz True e = Some (r, e')" and "0 \<le> r"
  shows "(DEFAULT_BOOT_PARAM, 0x30) \<in> set (snd (e_dev e'))"
proof -
  let ?f = "Nor e"
  let ?n = "nat (nor_BlockCount ?f)"
  obtain j where j: "FB29LVx_GetBlockIndex ?f DEFAULT_BOOT_PARAM = int j" "j < ?n" "pBlockAddr ?f ! j = 0x20000"
    using config_block [OF assms(1)] by blast
  have "FB29LVx_GetBlockIndex ?f off \<le> int j"
  proof (cases "off < FlashSize ?f")
    case True
    then obtain i where i: "FB29LVx_GetBlockIndex ?f off = int i" "i < ?n" "pBlockAddr ?f ! i \<le> uint off"
      using block_index_ok [OF assms(1), of off] by blast
    have "uint off \<le> 0x20000" using assms(3) by (simp add: DEFAULT_BOOT_PARAM_def word_le_def)
    show ?thesis
    proof (rule ccontr)
      assume "\<not> ?thesis"
      then have "Suc j \<le> i" using i(1) by simp
      then have "pBlockAddr ?f ! Suc j \<le> pBlockAddr ?f ! i" "j < ?n - 1"
        using block_table_mono [OF chip_tables [OF assms(1)] i(2)] i(2) by simp_all
      moreover have "pBlockAddr ?f ! j < pBlockAddr ?f ! Suc j"
        using chip_tables [OF assms(1)] \<open>j < ?n - 1\<close> by (simp add: block_table_def)
      ultimately show False using i(3) j(3) \<open>uint off \<le> 0x20000\<close> by simp
    qed
  next
    case False
    then show ?thesis using block_index_ok [OF assms(1), of off] by (simp add: not_less)
  qed
  then have "(0 + word_of_int (pBlockAddr ?f ! nat (int j)), 0x30) \<in> set (snd (e_dev e'))"
    by (intro ProgramEx_erases [OF assms(4,5)]) (simp_all add: assms(2) j(1))
  then show ?thesis by (simp add: j(3) DEFAULT_BOOT_PARAM_def)
qed


text \<open>A chip that is always ready, with a timer that has always run out; the rest reads as 0.\<close>

definition ready_bus :: "unit bus" where
  "ready_bus = \<lparr>bus_rd = (\<lambda>a h. (if a = OSSR then 1 else 0, h)), bus_wr = (\<lambda>a v h. h), bus_idle = (\<lambda>h. h)\<rparr>"

abbreviation rb :: "(unit \<times> (u32 \<times> u32) list) bus" where "rb \<equiv> logged ready_bus"

lemma rd_rb: "rd rb a e = (if a = OSSR then 1 else 0, e)"
proof -
  have "((), snd (e_dev e)) = e_dev e" by (cases "e_dev e") simp
  then show ?thesis by (simp add: rd_def logged_def ready_bus_def case_prod_beta)
qed

lemma wait_rb [simp]: "FB29LVx_Wait rb e = e"
proof -
  have "(bus_idle rb ^^ n) h = h" for n h by (induction n) (simp_all add: logged_def ready_bus_def case_prod_beta)
  then show ?thesis by (simp add: FB29LVx_Wait_def pause_def)
qed

text \<open>Equal but for the devices, the output and the progress.\<close>

definition alike :: "'h ez \<Rightarrow> 'h ez \<Rightarrow> bool" where
  "alike e e' \<longleftrightarrow> e_mem e' = e_mem e \<and> pBlockAddr (Nor e') = pBlockAddr (Nor e)"

lemma alike_trans: "alike e e1 \<Longrightarrow> alike e1 e2 \<Longrightarrow> alike e e2"
  by (simp add: alike_def)

lemma alike_ops:
  "alike e (wr b a v e)" "alike e (modify_reg b a g e)" "alike e (Flash_UpdateProgress t c m e)" "alike e (say f l e)"
  by (simp_all add: alike_def wr_def modify_reg_def say_def Flash_UpdateProgress_def Let_def)

lemma msleep_rb: "\<exists>e'. msleep rb n e = Some e' \<and> alike e e'"
proof -
  have w: "wait_overflow rb 0 e = Some e" for e
    by (subst wait_overflow.simps) (simp add: TimeOverflow_def rd_rb timer_bit_def)
  show ?thesis unfolding msleep_def ReloadTimer_def FreeTimer_def
    by (simp add: w rd_rb Let_def) (simp add: alike_def wr_def modify_reg_def)
qed

lemma GetStatus_rb: "FB29LVx_GetStatus rb 0 e = Some (FB_READY, e)"
  by (subst FB29LVx_GetStatus.simps) (simp add: FB29LVx_ReadMemoryShort_def rd_rb OSSR_def)

lemma EraseBlock_rb: "\<exists>e'. FB29LVx_EraseBlock rb 0 blk e = Some (0, e') \<and> alike e e'"
proof -
  have n: "RETRY_COUNT = Suc 99" by (simp add: RETRY_COUNT_def)
  obtain e0 where e0: "e0 = wr rb blk 0x30 (wr rb 0x554 0x55 (wr rb 0xAAA 0xAA (wr rb 0xAAA 0x80 (wr rb 0x554 0x55 (wr rb 0xAAA 0xAA e)))))" by blast
  obtain e1 where e1: "msleep rb 100 e0 = Some e1" "alike e0 e1" using msleep_rb by blast
  have "alike e e0" unfolding e0 by (simp add: alike_def wr_def)
  with e1 show ?thesis
    unfolding FB29LVx_EraseBlock_def n erase_tries.simps Let_def FB29LVx_WriteMemoryShort_def FB29LVx_CMD_RESET_def
    by (simp add: e0 [symmetric] GetStatus_rb) (auto intro: alike_trans alike_ops)
qed

lemma erase_blocks_rb: "\<exists>e'. erase_blocks n idx rb 0 s t e = Some (0, e') \<and> alike e e'"
proof (induction n arbitrary: idx e)
  case (Suc n)
  define e0 where "e0 = Flash_UpdateProgress ''    Erasing'' (word_of_int (idx - s + 1)) (word_of_int (t - s + 1)) e"
  obtain e1 where e1: "FB29LVx_EraseBlock rb 0 (word_of_int (pBlockAddr (Nor e0) ! nat idx)) e0 = Some (0, e1)" "alike e0 e1"
    using EraseBlock_rb by blast
  obtain e2 where e2: "msleep rb 1000 e1 = Some e2" "alike e1 e2" using msleep_rb by blast
  obtain e3 where e3: "erase_blocks n (idx + 1) rb 0 s t e2 = Some (0, e3)" "alike e2 e3" using Suc.IH by blast
  have "alike e e0" unfolding e0_def by (rule alike_ops)
  with e1(2) e2(2) e3(2) have "alike e e3" by (blast intro: alike_trans)
  then show ?case unfolding erase_blocks.simps Let_def e0_def [symmetric] by (simp add: e1(1) e2(1) e3(1))
qed (simp add: alike_def)

lemma program_rb: "e_mem e = (\<lambda>_. 0) \<Longrightarrow> \<exists>e'. program_words 1 0 rb 0 0x1FFFE src 2 e = Some (0, e')"
proof -
  assume m: "e_mem e = (\<lambda>_. 0)"
  define e0 where "e0 = Flash_UpdateProgress ''    Writing'' 0 2 e"
  have m0: "e_mem e0 = (\<lambda>_. 0)" using m alike_ops(3) [of e] by (simp add: alike_def e0_def)
  have n: "RETRY_COUNT = Suc 99" by (simp add: RETRY_COUNT_def)
  have "FB29LVx_WriteWord rb 0 0x1FFFE d e0 = Some (0, FB29LVx_CMD_WRITE rb 0 0x1FFFE d e0)" for d
    unfolding FB29LVx_WriteWord_def n write_tries.simps Let_def by (simp add: GetStatus_rb)
  then show ?thesis using m0
    by (simp add: e0_def [symmetric] crem_def Let_def rd_rb OSSR_def ld16_def)
qed

theorem boot_image_erases_config_witness:
  "\<exists>e'. BootFlash_ProgramEx rb 0 0x1FFFE 0x1000 2 True ((ez_at (\<lambda>_. 0) ((), []) (\<lambda>_. 0))
      \<lparr>Nor := \<lparr>Flash_PID = 0x22B9, nor_BlockCount = 11, FlashSize = 0x80000, pBlockAddr = FB29LV400T_block_addr,
         nor_progress_pos = 0\<rparr>\<rparr>) = Some (2, e') \<and>
     (0x20000, 0x30) \<in> set (snd (e_dev e'))"
proof -
  let ?f = "\<lparr>Flash_PID = 0x22B9, nor_BlockCount = 11, FlashSize = 0x80000, pBlockAddr = FB29LV400T_block_addr, nor_progress_pos = 0\<rparr>"
  let ?e = "ez_at (\<lambda>_. 0) ((), []) (\<lambda>_. 0)\<lparr>Nor := ?f\<rparr> :: (unit \<times> (u32 \<times> u32) list) ez"
  have c: "chip_data 0x22B9 = Some (nor_BlockCount (Nor ?e), FlashSize (Nor ?e), pBlockAddr (Nor ?e),
      ''  Detect %s29LV400 (TOP)Flash : %04X'', ''  SIZE 4M-BIT [512Kbyte]'')"
    by (simp add: chip_data_def FB_400x_BLOCK_COUNT_def)
  have "\<exists>e'. BootFlash_ProgramEx rb 0 0x1FFFE 0x1000 2 True ?e = Some (2, e')"
  proof -
    have b: "FB29LVx_GetBlockIndex ?f 0x1FFFE = 1" "FB29LVx_GetBlockIndex ?f 0x20000 = 2"
      by code_simp+
    obtain e1 where e1: "erase_blocks 2 1 rb 0 1 2 ?e = Some (0, e1)" "alike ?e e1" using erase_blocks_rb by blast
    define e2 where "e2 = say ''    Erase : OK'' [] (Flash_UpdateProgress ''    Erasing'' 100 100 e1)"
    have "alike e1 e2" unfolding e2_def by (blast intro: alike_trans alike_ops)
    then have "e_mem e2 = (\<lambda>_. 0)" using e1(2) by (simp add: alike_def ez_at_def)
    from program_rb [OF this, of "0x1000"] obtain e3 where
      "program_words 1 0 rb 0 0x1FFFE 0x1000 2 e2 = Some (0, e3)" by blast
    then show ?thesis by (simp add: BootFlash_ProgramEx_def Let_def b e1(1) e2_def [symmetric] del: program_words.simps)
  qed
  then obtain e' where e': "BootFlash_ProgramEx rb 0 0x1FFFE 0x1000 2 True ?e = Some (2, e')" by blast
  from boot_image_erases_config [OF c _ _ e'] have "(0x20000, 0x30) \<in> set (snd (e_dev e'))"
    by (simp add: DEFAULT_BOOT_PARAM_def)
  with e' show ?thesis by blast
qed

end
