(* ===== verification/Boot_Config.thy ===== *)
theory Boot_Config
  imports Boot_Flash
begin

text \<open>
  The configuration: \<open>config.c\<close>. \<open>Cfg\<close>, its working copy \<open>SvCfg\<close> and the defaults are packed
  structures of 560 bytes in the byte memory, with the fields at fixed offsets. An \<open>argv\<close> array
  is the list of its entries.
\<close>

section \<open>Layout\<close>

definition CFG_SIZE :: nat where "CFG_SIZE = 560"
definition O_AutoBootWaitTime :: u32 where "O_AutoBootWaitTime = 4"
definition O_BootMenuKey :: u32 where "O_BootMenuKey = 8"
definition O_UseRamdisk :: u32 where "O_UseRamdisk = 9"
definition O_Watchdog :: u32 where "O_Watchdog = 10"
definition O_Local_MacAddress :: u32 where "O_Local_MacAddress = 12"
definition O_Host_MacAddress :: u32 where "O_Host_MacAddress = 20"
definition O_Local_IP :: u32 where "O_Local_IP = 28"
definition O_Host_IP :: u32 where "O_Host_IP = 32"
definition O_TFTP_Directory :: u32 where "O_TFTP_Directory = 36"
definition O_TFTP_zImageFileName :: u32 where "O_TFTP_zImageFileName = 100"
definition O_TFTP_RamDiskFileName :: u32 where "O_TFTP_RamDiskFileName = 164"
definition O_TFTP_LoaderFileName :: u32 where "O_TFTP_LoaderFileName = 228"
definition O_SeriaNumber :: u32 where "O_SeriaNumber = 292"
definition O_Kernel_ArchNumber :: u32 where "O_Kernel_ArchNumber = 296"
definition O_NandPar :: u32 where "O_NandPar = 300"
definition O_KCmd :: u32 where "O_KCmd = 308"
definition O_cmd_A :: u32 where "O_cmd_A = 320"
definition O_cmd_B :: u32 where "O_cmd_B = 400"
definition O_cmd_C :: u32 where "O_cmd_C = 480"

lemmas cfg_offsets = O_AutoBootWaitTime_def O_BootMenuKey_def O_UseRamdisk_def O_Watchdog_def
  O_Local_MacAddress_def O_Host_MacAddress_def O_Local_IP_def O_Host_IP_def O_TFTP_Directory_def
  O_TFTP_zImageFileName_def O_TFTP_RamDiskFileName_def O_TFTP_LoaderFileName_def O_SeriaNumber_def
  O_Kernel_ArchNumber_def O_NandPar_def O_KCmd_def O_cmd_A_def O_cmd_B_def O_cmd_C_def

text \<open>A field of the current configuration: its address, and its value as a word or a byte.\<close>

definition cfg_at :: "u32 \<Rightarrow> 'h ez \<Rightarrow> u32" where
  "cfg_at off e = obj e ''Cfg'' + off"

definition cfg32 :: "u32 \<Rightarrow> 'h ez \<Rightarrow> u32" where
  "cfg32 off e = ld32 (e_mem e) (cfg_at off e)"

definition cfg8 :: "u32 \<Rightarrow> 'h ez \<Rightarrow> u8" where
  "cfg8 off e = e_mem e (cfg_at off e)"

definition set_cfg32 :: "u32 \<Rightarrow> u32 \<Rightarrow> 'h ez \<Rightarrow> 'h ez" where
  "set_cfg32 off v e = with_mem (\<lambda>m. st32 m (cfg_at off e) v) e"

definition NandPar :: "nat \<Rightarrow> 'h ez \<Rightarrow> u16" where
  "NandPar i e = ld16 (e_mem e) (cfg_at (O_NandPar + 2 * of_nat i) e)"

section \<open>Defaults\<close>

definition ascii :: "string \<Rightarrow> u8 list" where
  "ascii s = map of_char s"

definition le32 :: "u32 \<Rightarrow> u8 list" where
  "le32 v = [ucast v, ucast (drop_bit 8 v), ucast (drop_bit 16 v), ucast (drop_bit 24 v)]"

definition le16 :: "u16 \<Rightarrow> u8 list" where
  "le16 v = [ucast v, ucast (drop_bit 8 v)]"

text \<open>A string in an array of \<open>n\<close> characters, the rest zero.\<close>

definition field :: "nat \<Rightarrow> string \<Rightarrow> u8 list" where
  "field n s = ascii s @ replicate (n - length s) 0"

definition CONFIG_MAGIC :: u32 where "CONFIG_MAGIC = 0x89880017"
definition CONFIG_CMD_MAGIC :: u32 where "CONFIG_CMD_MAGIC = 0x20030702"
definition LINUX_MACH_TYPE :: u32 where "LINUX_MACH_TYPE = 303"

definition Default_Cfg :: "u8 list" where
  "Default_Cfg =
     le32 CONFIG_MAGIC @ le32 3 @ [32, 89, 0, 0] @ [0x00, 0xA2, 0x55, 0xF2, 0x26, 0x25, 0, 0] @ replicate 8 0 @
     [192, 168, 10, 155] @ [192, 168, 10, 24] @
     field 64 '''' @ field 64 ''zImage.x5'' @ field 64 ''ramdisk.x5-12M.gz'' @ field 64 ''ezboot.x5'' @
     le32 2 @ le32 LINUX_MACH_TYPE @ le16 1 @ le16 5 @ le16 58 @ le16 0 @
     le32 CONFIG_CMD_MAGIC @ field 8 ''CMD='' @
     field 80 ''initrd=0xa0800000,5M root=/dev/ram ramdisk=12288'' @ field 80 ''console=ttyS02,115200'' @ field 80 ''''"

section \<open>Parsing\<close>

definition is_hex_letter :: "u8 \<Rightarrow> bool" where
  "is_hex_letter c \<longleftrightarrow> (65 \<le> c \<and> c \<le> 70) \<or> (97 \<le> c \<and> c \<le> 102)"

partial_function (option) str_to_byte_loop :: "mem \<Rightarrow> u32 \<Rightarrow> bool \<Rightarrow> u8 \<Rightarrow> u8 option" where
  "str_to_byte_loop m p hex rtn =
     (if m p = 0 then Some rtn
      else
        (let rtn = (if hex then rtn * 16 else rtn * 10);
             c = m p;
             rtn = (if 48 \<le> c \<and> c \<le> 57 then rtn + (c AND 0x0F)
                    else if is_hex_letter c then rtn + ((c AND 0x0F) + 9)
                    else rtn)
         in str_to_byte_loop m (p + 1) hex rtn))"

definition StrToByte :: "mem \<Rightarrow> u32 \<Rightarrow> bool \<Rightarrow> u8 option" where
  "StrToByte m p hex = str_to_byte_loop m p hex 0"

text \<open>The tokens of a line, by repeated \<open>strtok\<close>; \<open>s\<close> is 0 after the first call.\<close>

partial_function (option) token_loop :: "mem \<Rightarrow> u32 \<Rightarrow> u32 \<Rightarrow> u32 \<Rightarrow> (u32 list \<times> u32 \<times> mem) option" where
  "token_loop m sp s delim = do {
     (tok, sp, m) \<leftarrow> strtok m sp s delim;
     if tok = 0 then Some ([], sp, m)
     else do { (toks, sp, m) \<leftarrow> token_loop m sp 0 delim; Some (tok # toks, sp, m) } }"

text \<open>Every caller's array has 128 entries, which nothing checks.\<close>

definition tokens :: "u32 \<Rightarrow> u32 \<Rightarrow> 'h ez \<Rightarrow> (u32 list \<times> 'h ez) option" where
  "tokens cmdline delim e = do {
     (toks, sp, m) \<leftarrow> token_loop (e_mem e) (strtok_ptr e) cmdline delim;
     if 128 < length toks then None else Some (toks, e\<lparr>e_mem := m, strtok_ptr := sp\<rparr>) }"

text \<open>The delimiters are the object \<open>delim_\<close>: blank, point, colon, line feed.\<close>

definition Cfg_parse_args :: "u32 \<Rightarrow> 'h ez \<Rightarrow> (u32 list \<times> 'h ez) option" where
  "Cfg_parse_args cmdline e = tokens cmdline (obj e ''delim_'') e"

section \<open>Asking the user\<close>

text \<open>The prompt and the line; \<open>buf\<close> names the local buffer.\<close>

definition ask :: "'h bus \<Rightarrow> string \<Rightarrow> u32 list \<Rightarrow> string \<Rightarrow> 'h ez \<Rightarrow> 'h ez option" where
  "ask b msg args buf e = do {
     let e = say ''     Newvalue : '' [] (say msg args (say [NL] [] e));
     (_, e) \<leftarrow> gets b (obj e buf) e;
     Some e }"

primrec store_mac :: "u32 list \<Rightarrow> u32 \<Rightarrow> 'h ez \<Rightarrow> 'h ez option" where
  "store_mac [] mac e = Some e"
| "store_mac (p # ps) mac e = do {
     v \<leftarrow> StrToByte (e_mem e) p True;
     store_mac ps (mac + 1) (with_mem (\<lambda>m. m(mac := v)) e) }"

definition GetMacAddress :: "'h bus \<Rightarrow> string \<Rightarrow> u32 \<Rightarrow> bool \<Rightarrow> 'h ez \<Rightarrow> 'h ez option" where
  "GetMacAddress b msg mac auto_gen e =
     (if auto_gen then
        (let e = with_mem (\<lambda>m. m(mac + 3 := ucast (drop_bit 24 (cfg32 O_Local_IP e)))) e;
             (v, e) = rd b OSCR e;
             e = with_mem (\<lambda>m. m(mac + 4 := ucast (drop_bit 8 v))) e;
             (v, e) = rd b OSCR e
         in Some (with_mem (\<lambda>m. m(mac + 5 := ucast v)) e))
      else do {
        e \<leftarrow> ask b msg (map (\<lambda>i. ucast (e_mem e (mac + i))) [0, 1, 2, 3, 4, 5]) ''GetMacAddress.rbuff'' e;
        (argv, e) \<leftarrow> Cfg_parse_args (obj e ''GetMacAddress.rbuff'') e;
        if length argv = 6 then store_mac argv mac e else Some e })"

text \<open>Four decimal bytes, the first the lowest.\<close>

definition parse_ip :: "mem \<Rightarrow> u32 list \<Rightarrow> u32 option" where
  "parse_ip m argv = do {
     a3 \<leftarrow> StrToByte m (argv ! 3) False;
     a2 \<leftarrow> StrToByte m (argv ! 2) False;
     a1 \<leftarrow> StrToByte m (argv ! 1) False;
     a0 \<leftarrow> StrToByte m (argv ! 0) False;
     Some (push_bit 24 (ucast a3) OR push_bit 16 (ucast a2) OR push_bit 8 (ucast a1) OR ucast a0) }"

definition ip_bytes :: "u32 \<Rightarrow> u32 list" where
  "ip_bytes ip = [ip AND 0xFF, drop_bit 8 ip AND 0xFF, drop_bit 16 ip AND 0xFF, drop_bit 24 ip AND 0xFF]"

definition GetIPAddress :: "'h bus \<Rightarrow> string \<Rightarrow> u32 \<Rightarrow> 'h ez \<Rightarrow> 'h ez option" where
  "GetIPAddress b msg ip e = do {
     e \<leftarrow> ask b msg (ip_bytes (ld32 (e_mem e) ip)) ''GetIPAddress.rbuff'' e;
     (argv, e) \<leftarrow> Cfg_parse_args (obj e ''GetIPAddress.rbuff'') e;
     if length argv = 4 then do {
       v \<leftarrow> parse_ip (e_mem e) argv;
       Some (with_mem (\<lambda>m. st32 m ip v) e) }
     else Some e }"

definition GetString :: "'h bus \<Rightarrow> string \<Rightarrow> u32 \<Rightarrow> 'h ez \<Rightarrow> 'h ez option" where
  "GetString b msg ptr e = do {
     e \<leftarrow> ask b msg [ptr] ''GetString.rbuff'' e;
     with_mem_opt (\<lambda>m. strcpy m ptr (obj e ''GetString.rbuff'')) e }"

primrec store_words :: "u32 list \<Rightarrow> u32 \<Rightarrow> 'h ez \<Rightarrow> 'h ez option" where
  "store_words [] ary e = Some e"
| "store_words (p # ps) ary e = do {
     (v, _) \<leftarrow> strtoul (e_mem e) p 0;
     store_words ps (ary + 2) (with_mem (\<lambda>m. st16 m ary (ucast v)) e) }"

definition GetWord16_arg3 :: "'h bus \<Rightarrow> string \<Rightarrow> u32 \<Rightarrow> 'h ez \<Rightarrow> 'h ez option" where
  "GetWord16_arg3 b msg ary e = do {
     e \<leftarrow> ask b msg (map (\<lambda>i. ucast (ld16 (e_mem e) (ary + 2 * i))) [0, 1, 2]) ''GetWord16_arg3.rbuff'' e;
     (argv, e) \<leftarrow> Cfg_parse_args (obj e ''GetWord16_arg3.rbuff'') e;
     if length argv = 3 then store_words argv ary e else Some e }"

definition GetChar :: "'h bus \<Rightarrow> string \<Rightarrow> u32 \<Rightarrow> 'h ez \<Rightarrow> 'h ez option" where
  "GetChar b msg cc e = do {
     e \<leftarrow> ask b msg [ucast (e_mem e cc)] ''GetChar.rbuff'' e;
     (argv, e) \<leftarrow> Cfg_parse_args (obj e ''GetChar.rbuff'') e;
     Some (if length argv = 1 then with_mem (\<lambda>m. m(cc := m (argv ! 0))) e else e) }"

definition GetWord32 :: "'h bus \<Rightarrow> string \<Rightarrow> u32 \<Rightarrow> 'h ez \<Rightarrow> 'h ez option" where
  "GetWord32 b msg num e = do {
     e \<leftarrow> ask b msg [ld32 (e_mem e) num] ''GetWord32.rbuff'' e;
     (argv, e) \<leftarrow> Cfg_parse_args (obj e ''GetWord32.rbuff'') e;
     if length argv = 1 then do {
       (v, _) \<leftarrow> strtoul (e_mem e) (argv ! 0) 10;
       Some (with_mem (\<lambda>m. st32 m num v) e) }
     else Some e }"

definition GetByte :: "'h bus \<Rightarrow> string \<Rightarrow> u32 \<Rightarrow> 'h ez \<Rightarrow> 'h ez option" where
  "GetByte b msg num e = do {
     e \<leftarrow> ask b msg [ucast (e_mem e num)] ''GetByte.rbuff'' e;
     (argv, e) \<leftarrow> Cfg_parse_args (obj e ''GetByte.rbuff'') e;
     if length argv = 1 then do {
       (v, _) \<leftarrow> strtoul (e_mem e) (argv ! 0) 10;
       Some (with_mem (\<lambda>m. m(num := ucast v)) e) }
     else Some e }"

section \<open>Texts\<close>

definition CFG_MENU_1_STR :: string where "CFG_MENU_1_STR = ''  1. MAC Address            [%02x:%02x:%02x:%02x:%02x:%02x]'' @ [NL]"
definition CFG_MENU_2_STR :: string where "CFG_MENU_2_STR = ''  2. LOCAL IP               [%d.%d.%d.%d]'' @ [NL]"
definition CFG_MENU_3_STR :: string where "CFG_MENU_3_STR = ''  3. HOST IP                [%d.%d.%d.%d]'' @ [NL]"
definition CFG_MENU_4_STR :: string where "CFG_MENU_4_STR = ''  4. Host tftp directory    [%s]'' @ [NL]"
definition CFG_MENU_5_STR :: string where "CFG_MENU_5_STR = ''  5. zImage      file name  [%s]'' @ [NL]"
definition CFG_MENU_6_STR :: string where "CFG_MENU_6_STR = ''  6. ram disk    file name  [%s]'' @ [NL]"
definition CFG_MENU_7_STR :: string where "CFG_MENU_7_STR = ''  7. boot loader file name  [%s]'' @ [NL]"
definition CFG_MENU_A_STR :: string where "CFG_MENU_A_STR = ''  A. Autoboot wait time     [%d]'' @ [NL]"
definition CFG_MENU_B_STR :: string where "CFG_MENU_B_STR = ''  B. Boot Menu Key          [%c]'' @ [NL]"
definition CFG_MENU_C_STR :: string where "CFG_MENU_C_STR = ''  C. Copy Ramdisk [Y/N]     [%c]'' @ [NL]"
definition CFG_MENU_D_STR :: string where "CFG_MENU_D_STR = ''  D. Architecture Number    [%d]'' @ [NL]"
definition CFG_MENU_E_STR :: string where "CFG_MENU_E_STR = ''  E. Serial FF/BT/ST(0/1/2) [%d]'' @ [NL]"
definition CFG_MENU_F_STR :: string where "CFG_MENU_F_STR = ''  F. NAND-Partition MByte   [%d:%d:%d] (kernel:ramdisk:app)'' @ [NL]"
definition CFG_MENU_W_STR :: string where "CFG_MENU_W_STR = ''  W. Watchdog (sec, off=0)  [%d]'' @ [NL]"
definition CFG_MENU_K_STR :: string where "CFG_MENU_K_STR = ''  K. Kernel CMD 1st [%s]'' @ [NL]"
definition CFG_MENU_M_STR :: string where "CFG_MENU_M_STR = ''  M. Kernel CMD 2nd [%s]'' @ [NL]"
definition CFG_MENU_N_STR :: string where "CFG_MENU_N_STR = ''  N. Kernel CMD 3rd [%s]'' @ [NL]"
definition CFG_MENU_L_STR :: string where "CFG_MENU_L_STR = ''  L. Load Default'' @ [NL]"
definition CFG_MENU_S_STR :: string where "CFG_MENU_S_STR = ''  S. Save'' @ [NL]"
definition CFG_MENU_P_STR :: string where "CFG_MENU_P_STR = ''  P. Apply & Exit'' @ [NL]"
definition CFG_MENU_0_STR :: string where "CFG_MENU_0_STR = ''  0. Exit'' @ [NL]"

section \<open>The menu\<close>

definition sv :: "u32 \<Rightarrow> 'h ez \<Rightarrow> u32" where
  "sv off e = obj e ''SvCfg'' + off"

text \<open>The menu shows the working copy.\<close>

definition show_menu :: "'h ez \<Rightarrow> 'h ez" where
  "show_menu e =
     (let m = e_mem e; byte = (\<lambda>off. ucast (m (sv off e)) :: u32); word = (\<lambda>off. ld32 m (sv off e));
          half = (\<lambda>off. ucast (ld16 m (sv off e)) :: u32);
          say_all = fold (\<lambda>(f, a). say f a)
      in say_all
        [([NL, NL], []), ('' ^^;'' @ [NL], []),
         (CFG_MENU_1_STR, map (\<lambda>i. byte (O_Local_MacAddress + i)) [0, 1, 2, 3, 4, 5]),
         (CFG_MENU_2_STR, ip_bytes (word O_Local_IP)),
         (CFG_MENU_3_STR, ip_bytes (word O_Host_IP)),
         (CFG_MENU_4_STR, [sv O_TFTP_Directory e]),
         (CFG_MENU_5_STR, [sv O_TFTP_zImageFileName e]),
         (CFG_MENU_6_STR, [sv O_TFTP_RamDiskFileName e]),
         (CFG_MENU_7_STR, [sv O_TFTP_LoaderFileName e]),
         ([NL], []),
         (CFG_MENU_A_STR, [word O_AutoBootWaitTime]),
         (CFG_MENU_B_STR, [byte O_BootMenuKey]),
         (CFG_MENU_C_STR, [byte O_UseRamdisk]),
         (CFG_MENU_D_STR, [word O_Kernel_ArchNumber]),
         (CFG_MENU_E_STR, [word O_SeriaNumber]),
         (CFG_MENU_F_STR, [half O_NandPar, half (O_NandPar + 2), half (O_NandPar + 4)]),
         (CFG_MENU_W_STR, [byte O_Watchdog]),
         ([NL], []),
         (CFG_MENU_K_STR, [sv O_cmd_A e]), (CFG_MENU_M_STR, [sv O_cmd_B e]), (CFG_MENU_N_STR, [sv O_cmd_C e]),
         ([NL], []),
         (CFG_MENU_L_STR, []), (CFG_MENU_P_STR, []), (CFG_MENU_S_STR, []), (CFG_MENU_0_STR, []),
         ([NL] @ ''  Select >>'', [])] e)"

definition save_again :: "'h bus \<Rightarrow> 'h ez \<Rightarrow> (int \<times> 'h ez) option" where
  "save_again b e = CopyTo_BootFlashEx b DEFAULT_BOOT_PARAM (obj e ''Cfg'') (int CFG_SIZE) False e"

text \<open>Up to \<open>n\<close> times more without erasing.\<close>

primrec save_tries :: "nat \<Rightarrow> 'h bus \<Rightarrow> 'h ez \<Rightarrow> 'h ez option" where
  "save_tries 0 b e = Some e"
| "save_tries (Suc n) b e = do {
     (r, e) \<leftarrow> save_again b e;
     if r = 0 then Some (say ''    Verify: Ok'' [] e) else save_tries n b e }"

definition SaveConfig :: "'h bus \<Rightarrow> 'h ez \<Rightarrow> 'h ez option" where
  "SaveConfig b e = do {
     (r, e) \<leftarrow> CopyTo_BootFlashEx b DEFAULT_BOOT_PARAM (obj e ''Cfg'') (int CFG_SIZE) True e;
     if r = -1 then save_tries 10 b e else Some e }"

text \<open>\<open>memcpy( &Cfg, &SvCfg, sizeof(TConfig) )\<close>.\<close>

definition apply_config :: "'h ez \<Rightarrow> 'h ez" where
  "apply_config e = with_mem (\<lambda>m. memcpy CFG_SIZE m (obj e ''Cfg'') (obj e ''SvCfg'')) e"

text \<open>
  One choice, by its letter: the new state, and whether the menu is left. \<open>c1\<close> is the second
  character of the line. The string the choice \<open>LF\<close> copies is the object \<open>noinitrd\<close>.
\<close>

definition menu_choice :: "'h bus \<Rightarrow> u8 \<Rightarrow> u8 \<Rightarrow> 'h ez \<Rightarrow> ('h ez \<times> bool) option" where
  "menu_choice b c c1 e =
     (let stay = (\<lambda>r. case r of None \<Rightarrow> None | Some e \<Rightarrow> Some (e, False)) in
      if c = 49 then stay (GetMacAddress b CFG_MENU_1_STR (sv O_Local_MacAddress e) (toupper c1 = 65) e)
      else if c = 50 then stay (GetIPAddress b CFG_MENU_2_STR (sv O_Local_IP e) e)
      else if c = 51 then stay (GetIPAddress b CFG_MENU_3_STR (sv O_Host_IP e) e)
      else if c = 52 then stay (GetString b CFG_MENU_4_STR (sv O_TFTP_Directory e) e)
      else if c = 53 then stay (GetString b CFG_MENU_5_STR (sv O_TFTP_zImageFileName e) e)
      else if c = 54 then stay (GetString b CFG_MENU_6_STR (sv O_TFTP_RamDiskFileName e) e)
      else if c = 55 then stay (GetString b CFG_MENU_7_STR (sv O_TFTP_LoaderFileName e) e)
      else if c = 65 then stay (GetWord32 b CFG_MENU_A_STR (sv O_AutoBootWaitTime e) e)
      else if c = 66 then stay (GetChar b CFG_MENU_B_STR (sv O_BootMenuKey e) e)
      else if c = 67 then stay (GetChar b CFG_MENU_C_STR (sv O_UseRamdisk e) e)
      else if c = 68 then stay (GetWord32 b CFG_MENU_D_STR (sv O_Kernel_ArchNumber e) e)
      else if c = 69 then stay (GetWord32 b CFG_MENU_E_STR (sv O_SeriaNumber e) e)
      else if c = 70 then stay (GetWord16_arg3 b CFG_MENU_F_STR (sv O_NandPar e) e)
      else if c = 87 then stay (GetByte b CFG_MENU_W_STR (sv O_Watchdog e) e)
      else if c = 75 then stay (GetString b CFG_MENU_K_STR (sv O_cmd_A e) e)
      else if c = 77 then stay (GetString b CFG_MENU_M_STR (sv O_cmd_B e) e)
      else if c = 78 then stay (GetString b CFG_MENU_N_STR (sv O_cmd_C e) e)
      else if c = 80 then Some (say [NL] [] (say ([NL] @ ''  ...Applyed'') [] (apply_config e)), True)
      else if c = 83 then do {
        e \<leftarrow> SaveConfig b (say [NL] [] (apply_config e));
        Some (say ([NL] @ ''  ...Saved'') [] e, False) }
      else if c = 76 then do {
        e \<leftarrow> (if toupper c1 = 70 then with_mem_opt (\<lambda>m. strcpy m (sv O_cmd_A e) (obj e ''noinitrd'')) e
              else Some (with_mem (\<lambda>m. write_bytes m (sv 0 e) Default_Cfg) e));
        Some (say ([NL] @ ''  ...Loaded default'') [] e, False) }
      else if c = 48 then Some (say [NL] [] e, True)
      else Some (e, False))"

partial_function (option) menu_loop :: "'h bus \<Rightarrow> 'h ez \<Rightarrow> 'h ez option" where
  "menu_loop b e = do {
     let e = show_menu e;
     let rbuff = obj e ''ModifyCfg.rbuff'';
     (_, e) \<leftarrow> gets b rbuff e;
     (e, leave) \<leftarrow> menu_choice b (toupper (e_mem e rbuff)) (e_mem e (rbuff + 1)) e;
     if leave then Some e else menu_loop b e }"

definition ModifyCfg :: "'h bus \<Rightarrow> 'h ez \<Rightarrow> (int \<times> 'h ez) option" where
  "ModifyCfg b e = do {
     let e = with_mem (\<lambda>m. memcpy CFG_SIZE m (obj e ''SvCfg'') (obj e ''Cfg'')) e;
     e \<leftarrow> menu_loop b e;
     Some (0, e) }"

section \<open>Loading and the kernel command line\<close>

text \<open>\<open>memcpy\<close> from the boot flash, byte by byte.\<close>

primrec copy_from_flash :: "nat \<Rightarrow> 'h bus \<Rightarrow> u32 \<Rightarrow> u32 \<Rightarrow> 'h ez \<Rightarrow> 'h ez" where
  "copy_from_flash 0 b dest src e = e"
| "copy_from_flash (Suc n) b dest src e =
     (let (v, e) = rd b src e in copy_from_flash n b (dest + 1) (src + 1) (with_mem (\<lambda>m. m(dest := ucast v)) e))"

definition LoadConfig :: "'h bus \<Rightarrow> 'h ez \<Rightarrow> 'h ez" where
  "LoadConfig b e =
     (let (v, e) = rd b DEFAULT_BOOT_PARAM e in
      if v = CONFIG_MAGIC then copy_from_flash CFG_SIZE b (obj e ''Cfg'') DEFAULT_BOOT_PARAM e
      else with_mem (\<lambda>m. write_bytes m (obj e ''Cfg'') Default_Cfg) e)"

text \<open>
  \<open>GetKCmdStr\<close>: the header of the command line, then the three parts of the configuration and
  what \<open>sprintf\<close> makes of the addresses; the formats are the objects named \<open>fmt_...\<close>.
\<close>

definition GetKCmdStr :: "u32 \<Rightarrow> 'h ez \<Rightarrow> (u32 \<times> 'h ez) option" where
  "GetKCmdStr dest e = do {
     let e = with_mem (\<lambda>m. memcpy 12 m dest (cfg_at O_KCmd e)) e;
     let ptr = dest + 12;
     (m, _) \<leftarrow> sprintf (e_mem e) (obj e ''ip_cmd'') (obj e ''fmt_ip0'') (\<lambda>k. ip_bytes (cfg32 O_Local_IP e) ! k);
     let e = e\<lparr>e_mem := m\<rparr>;
     (m, _) \<leftarrow> sprintf (e_mem e) (obj e ''nand_cmd'') (obj e ''fmt_nandparts'') (\<lambda>k. ucast (NandPar k e));
     let e = e\<lparr>e_mem := m\<rparr>;
     (m, _) \<leftarrow> sprintf (e_mem e) (obj e ''arch_cmd'') (obj e ''fmt_arch'') (\<lambda>k. obj e ''CMD_ARCH_NAME'');
     let e = e\<lparr>e_mem := m\<rparr>;
     (m, _) \<leftarrow> sprintf (e_mem e) ptr (obj e ''fmt_kcmd'')
        (\<lambda>k. [cfg_at O_cmd_A e, cfg_at O_cmd_B e, cfg_at O_cmd_C e, obj e ''ip_cmd'', obj e ''nand_cmd'', obj e ''arch_cmd''] ! k);
     len \<leftarrow> strlen m ptr;
     Some (len + 12, e\<lparr>e_mem := m\<rparr>) }"

end
