(* ===== verification/Boot_Net.thy ===== *)
theory Boot_Net
  imports Boot_Config
begin

text \<open>
  Packets: \<open>net.c\<close> with the headers of \<open>net.h\<close>. A packet is a block of the byte memory; its
  headers are packed structures, so a field is a fixed distance from the start of the frame
  (Ethernet 14 bytes, IP 20, UDP 8; the parts of \<open>SetIPHeader...\<close> take the address of the IP
  header itself).
\<close>

section \<open>Byte order\<close>

text \<open>\<open>SWAP16\<close> of a non-negative value, and of a negative one (C shifts it arithmetically).\<close>

definition SWAP16 :: "u32 \<Rightarrow> u32" where
  "SWAP16 a = push_bit 8 (a AND 0xFF) OR drop_bit 8 a"

definition SWAP16_int :: "u32 \<Rightarrow> u32" where
  "SWAP16_int a = push_bit 8 (a AND 0xFF) OR signed_drop_bit 8 a"

definition SWAP32 :: "u32 \<Rightarrow> u32" where
  "SWAP32 a = push_bit 24 (a AND 0xFF) OR push_bit 8 (a AND 0xFF00)
     OR drop_bit 8 (a AND 0xFF0000) OR drop_bit 24 (a AND 0xFF000000)"

text \<open>A 16-bit field in network order, and storing one.\<close>

definition net16 :: "mem \<Rightarrow> u32 \<Rightarrow> u32" where
  "net16 m a = SWAP16 (ucast (ld16 m a))"

definition put16 :: "mem \<Rightarrow> u32 \<Rightarrow> u32 \<Rightarrow> mem" where
  "put16 m a v = st16 m a (ucast (SWAP16 v))"

section \<open>Sizes and constants\<close>

definition ETH_SIZE :: u32 where "ETH_SIZE = 14"
definition IP_SIZE :: u32 where "IP_SIZE = 20"
definition UDP_SIZE :: u32 where "UDP_SIZE = 8"
definition ARP_PACKET_SIZE :: u32 where "ARP_PACKET_SIZE = 42"
definition ICMP_SIZE :: u32 where "ICMP_SIZE = 40"
definition ECHO_PACKET_SIZE :: u32 where "ECHO_PACKET_SIZE = 74"
definition BOOTP_PACKET_SIZE :: u32 where "BOOTP_PACKET_SIZE = 342"
definition TFTP_PACKET_SIZE :: u32 where "TFTP_PACKET_SIZE = 44"

lemmas net_sizes = ETH_SIZE_def IP_SIZE_def UDP_SIZE_def ARP_PACKET_SIZE_def ICMP_SIZE_def
  ECHO_PACKET_SIZE_def BOOTP_PACKET_SIZE_def TFTP_PACKET_SIZE_def

definition PROT_IP :: u32 where "PROT_IP = 0x0800"
definition PROT_ARP :: u32 where "PROT_ARP = 0x0806"
definition IPPROTO_ICMP :: u8 where "IPPROTO_ICMP = 1"
definition IPPROTO_UDP :: u8 where "IPPROTO_UDP = 17"
definition ARPOP_REQUEST :: u32 where "ARPOP_REQUEST = 1"
definition ARPOP_REPLY :: u32 where "ARPOP_REPLY = 2"
definition PORT_BOOTPS :: u32 where "PORT_BOOTPS = 67"
definition PORT_BOOTPC :: u32 where "PORT_BOOTPC = 68"
definition TFTP_PORT_HOST :: u16 where "TFTP_PORT_HOST = 69"
definition TFTP_PORT_CLIENT :: u16 where "TFTP_PORT_CLIENT = 6666"
definition TFTP_RRQ :: u32 where "TFTP_RRQ = 1"
definition TFTP_DATA :: u32 where "TFTP_DATA = 3"
definition TFTP_ACK :: u32 where "TFTP_ACK = 4"
definition TFTP_ERROR :: u32 where "TFTP_ERROR = 5"
definition TFTP_OACK :: u32 where "TFTP_OACK = 6"

section \<open>Checksums\<close>

primrec sum16 :: "nat \<Rightarrow> mem \<Rightarrow> u32 \<Rightarrow> u32 \<Rightarrow> u32" where
  "sum16 0 m p xsum = xsum"
| "sum16 (Suc n) m p xsum = sum16 n m (p + 2) (xsum + ucast (ld16 m p))"

definition IPChecksum :: "mem \<Rightarrow> u32 \<Rightarrow> nat \<Rightarrow> u32" where
  "IPChecksum m ptr len =
     (let xsum = sum16 len m ptr 0;
          xsum = (xsum AND 0xFFFF) + drop_bit 16 xsum;
          xsum = (xsum AND 0xFFFF) + drop_bit 16 xsum
      in xsum AND 0xFFFF)"

definition IPChksumOK :: "mem \<Rightarrow> u32 \<Rightarrow> nat \<Rightarrow> bool" where
  "IPChksumOK m ptr len \<longleftrightarrow> (IPChecksum m ptr len + 1) AND 0xFFFE = 0"

text \<open>The sum is an \<open>int\<close>: the shifts are arithmetic.\<close>

primrec icmp_sum :: "nat \<Rightarrow> mem \<Rightarrow> u32 \<Rightarrow> u32 \<Rightarrow> u32" where
  "icmp_sum 0 m w acc = acc"
| "icmp_sum (Suc n) m w acc = icmp_sum n m (w + 2) (acc + ucast (ld16 m w))"

definition GetCheckSumICMP :: "mem \<Rightarrow> u32 \<Rightarrow> nat \<Rightarrow> u16" where
  "GetCheckSumICMP m dat sz =
     (let acc = icmp_sum (sz div 2) m dat 0;
          acc = (if sz mod 2 = 1 then acc + ucast (m (dat + 2 * of_nat (sz div 2))) else acc);
          acc = signed_drop_bit 16 acc + (acc AND 0xFFFF);
          acc = acc + signed_drop_bit 16 acc
      in ucast (NOT acc))"

section \<open>Received packets\<close>

definition GetProtocolFromRxPacket :: "mem \<Rightarrow> u32 \<Rightarrow> u32" where
  "GetProtocolFromRxPacket m p = net16 m (p + 12)"

text \<open>The checks on the IP header that the three \<open>Check...RxPacket\<close> functions share.\<close>

definition ip_header_ok :: "mem \<Rightarrow> u32 \<Rightarrow> u32 \<Rightarrow> bool" where
  "ip_header_ok m p ClientIP \<longleftrightarrow>
     m (p + 14) AND 0xF0 = 0x40 \<and>
     ucast (ld16 m (p + 20)) AND SWAP16 0x1FFF = 0 \<and>
     IPChksumOK m (p + 14) 10 \<and>
     \<not> (ClientIP \<noteq> 0 \<and> ld32 m (p + 30) \<noteq> ClientIP)"

definition udp_lengths_ok :: "mem \<Rightarrow> u32 \<Rightarrow> u32 \<Rightarrow> bool" where
  "udp_lengths_ok m p len \<longleftrightarrow> \<not> len < ETH_SIZE + IP_SIZE + UDP_SIZE \<and> \<not> len < ETH_SIZE + net16 m (p + 16)"

definition CheckBootpRxPacket :: "'h ez \<Rightarrow> u32 \<Rightarrow> u32 \<Rightarrow> u32 \<Rightarrow> bool" where
  "CheckBootpRxPacket e p len ClientIP \<longleftrightarrow>
     (let m = e_mem e in
      udp_lengths_ok m p len \<and> ip_header_ok m p ClientIP \<and>
      m (p + 23) = IPPROTO_UDP \<and>
      ucast (ld16 m (p + 34)) = SWAP16 PORT_BOOTPS \<and>
      ucast (ld16 m (p + 36)) = SWAP16 PORT_BOOTPC \<and>
      len = BOOTP_PACKET_SIZE \<and>
      m (p + 42) = 2 \<and> m (p + 43) = 1 \<and> m (p + 44) = 6 \<and>
      ld32 m (p + 46) = BootpID e)"

definition CheckECHORxPacket :: "mem \<Rightarrow> u32 \<Rightarrow> u32 \<Rightarrow> u32 \<Rightarrow> bool" where
  "CheckECHORxPacket m p len ClientIP \<longleftrightarrow>
     \<not> len < ECHO_PACKET_SIZE \<and> ip_header_ok m p ClientIP \<and>
     m (p + 23) = IPPROTO_ICMP \<and> m (p + 34) = 0"

definition CheckTftpRxPacket :: "mem \<Rightarrow> u32 \<Rightarrow> u32 \<Rightarrow> u32 \<Rightarrow> bool" where
  "CheckTftpRxPacket m p len ClientIP \<longleftrightarrow>
     udp_lengths_ok m p len \<and> ip_header_ok m p ClientIP \<and>
     m (p + 23) = IPPROTO_UDP \<and>
     ucast (ld16 m (p + 36)) = SWAP16 (ucast TFTP_PORT_CLIENT) \<and>
     \<not> len < TFTP_PACKET_SIZE"

definition CheckARPRxPacket :: "mem \<Rightarrow> u32 \<Rightarrow> u32 \<Rightarrow> u32 \<Rightarrow> u32 \<Rightarrow> bool" where
  "CheckARPRxPacket m p len HostIP ClientIP \<longleftrightarrow>
     \<not> len < ARP_PACKET_SIZE \<and>
     net16 m (p + 20) = ARPOP_REPLY \<and> net16 m (p + 14) = 1 \<and> net16 m (p + 16) = PROT_IP \<and>
     m (p + 18) = 6 \<and> m (p + 19) = 4 \<and>
     ld32 m (p + 28) = HostIP \<and> ld32 m (p + 38) = ClientIP"

text \<open>The two addresses of a BOOTP reply: local and host.\<close>

definition GetIPFromBootpPacket :: "mem \<Rightarrow> u32 \<Rightarrow> u32 \<times> u32" where
  "GetIPFromBootpPacket m p = (ld32 m (p + 58), ld32 m (p + 62))"

definition GetHostMacAddressFromBootpPacket :: "mem \<Rightarrow> u32 \<Rightarrow> u32 \<Rightarrow> mem" where
  "GetHostMacAddressFromBootpPacket m p HostMacAddress = memcpy 6 m HostMacAddress (p + 6)"

definition GetHostPortNumberFromTftpPacket :: "mem \<Rightarrow> u32 \<Rightarrow> u16" where
  "GetHostPortNumberFromTftpPacket m p = ucast (net16 m (p + 34))"

definition GetHostMacAddressFromArpPacket :: "mem \<Rightarrow> u32 \<Rightarrow> u32 \<Rightarrow> mem" where
  "GetHostMacAddressFromArpPacket m p HostMacAddress = memcpy 6 m HostMacAddress (p + 22)"

section \<open>Packets to send\<close>

definition SetEthernetIPHeader :: "u32 \<Rightarrow> u32 \<Rightarrow> u32 \<Rightarrow> mem \<Rightarrow> mem" where
  "SetEthernetIPHeader p srcMAC destMAC m =
     (let m = memcpy 6 m p destMAC; m = memcpy 6 m (p + 6) srcMAC in put16 m (p + 12) PROT_IP)"

definition SetEthernetARPHeader :: "u32 \<Rightarrow> u32 \<Rightarrow> u32 \<Rightarrow> mem \<Rightarrow> mem" where
  "SetEthernetARPHeader p srcMAC destMAC m =
     (let m = memcpy 6 m p destMAC; m = memcpy 6 m (p + 6) srcMAC in put16 m (p + 12) PROT_ARP)"

definition SetArpRequestHeader :: "u32 \<Rightarrow> u32 \<Rightarrow> u32 \<Rightarrow> u32 \<Rightarrow> mem \<Rightarrow> mem" where
  "SetArpRequestHeader p srcMAC srcIP hostIP m =
     (let m = put16 m (p + 14) 1;
          m = put16 m (p + 16) PROT_IP;
          m = m(p + 18 := 6);
          m = m(p + 19 := 4);
          m = put16 m (p + 20) ARPOP_REQUEST;
          m = memcpy 6 m (p + 22) srcMAC;
          m = memset 6 m (p + 32) 0;
          m = st32 m (p + 28) srcIP
      in st32 m (p + 38) hostIP)"

text \<open>
  The IP header at \<open>q\<close>, for the protocol number \<open>prot\<close>: \<open>SetIPHeaderByUDP\<close> and
  \<open>SetIPHeaderByICMP\<close> differ only in it. The identification is a \<open>short\<close>.
\<close>

definition set_ip_header :: "u8 \<Rightarrow> u32 \<Rightarrow> u32 \<Rightarrow> u32 \<Rightarrow> u16 \<Rightarrow> 'h ez \<Rightarrow> 'h ez" where
  "set_ip_header prot q destIP srcIP PacketSize e =
     (let m = e_mem e;
          m = (if PacketSize AND 1 \<noteq> 0 then m(q + 20 + ucast PacketSize := 0) else m);
          m = m(q := 0x45);
          m = m(q + 1 := 0);
          m = put16 m (q + 2) (IP_SIZE + ucast PacketSize);
          m = st16 m (q + 4) (ucast (SWAP16_int (scast (IP_ID e))));
          m = put16 m (q + 6) 0;
          m = m(q + 8 := 64);
          m = m(q + 9 := prot);
          m = st16 m (q + 10) 0;
          m = st32 m (q + 12) srcIP;
          m = st32 m (q + 16) destIP;
          m = st16 m (q + 10) (ucast (NOT (IPChecksum m q 10)))
      in e\<lparr>e_mem := m, IP_ID := IP_ID e + 1\<rparr>)"

definition SetIPHeaderByUDP :: "u32 \<Rightarrow> u32 \<Rightarrow> u32 \<Rightarrow> u16 \<Rightarrow> 'h ez \<Rightarrow> 'h ez" where
  "SetIPHeaderByUDP q destIP srcIP PacketSize e = set_ip_header IPPROTO_UDP q destIP srcIP PacketSize e"

definition SetIPHeaderByICMP :: "u32 \<Rightarrow> u32 \<Rightarrow> u32 \<Rightarrow> u16 \<Rightarrow> 'h ez \<Rightarrow> 'h ez" where
  "SetIPHeaderByICMP q destIP srcIP PacketSize e = set_ip_header IPPROTO_ICMP q destIP srcIP PacketSize e"

definition SetUdpHeader :: "u32 \<Rightarrow> u16 \<Rightarrow> u16 \<Rightarrow> u16 \<Rightarrow> mem \<Rightarrow> mem" where
  "SetUdpHeader u descPort srcPort PacketSize m =
     (let m = put16 m (u + 2) (ucast descPort);
          m = put16 m u (ucast srcPort);
          m = put16 m (u + 4) (UDP_SIZE + ucast PacketSize)
      in st16 m (u + 6) 0)"

text \<open>The macro \<open>SWAP16\<close> evaluates its argument twice, so the time is read twice.\<close>

definition SetBootpHeader :: "'h bus \<Rightarrow> u32 \<Rightarrow> u32 \<Rightarrow> 'h ez \<Rightarrow> 'h ez" where
  "SetBootpHeader b p srcMAC e =
     (let e = with_mem (\<lambda>m. m(p := 1, p + 1 := 1, p + 2 := 6, p + 3 := 0)) e;
          (now1, e) = TimerGetTime b e;
          (now2, e) = TimerGetTime b e;
          secs = push_bit 8 ((now1 div TICKS_PER_SECOND) AND 0xFF) OR drop_bit 8 (now2 div TICKS_PER_SECOND);
          e = with_mem (\<lambda>m. st16 m (p + 8) (ucast secs)) e;
          e = with_mem (\<lambda>m. memcpy 16 m (p + 28) srcMAC) e;
          e = e\<lparr>BootpID := BootpID e + 1\<rparr>
      in with_mem (\<lambda>m. st32 m (p + 4) (BootpID e)) e)"

text \<open>
  Appends a string to the TFTP packet whose size so far is \<open>sz\<close> (the two bytes of the opcode
  included): the new memory and size.
\<close>

definition add_str :: "u32 \<Rightarrow> u32 \<Rightarrow> mem \<times> u32 \<Rightarrow> (mem \<times> u32) option" where
  "add_str p s = (\<lambda>(m, sz). do {
     m \<leftarrow> strcpy m (p + 44 + sz - 2) s;
     n \<leftarrow> strlen m s;
     Some (m, sz + (n + 1)) })"

text \<open>\<open>SetTFTP_RRQPacket\<close>: file name, mode and two options; the literals are objects.\<close>

definition SetTFTP_RRQPacket :: "u32 \<Rightarrow> u32 \<Rightarrow> 'h ez \<Rightarrow> (u32 \<times> 'h ez) option" where
  "SetTFTP_RRQPacket p filename e = do {
     let m = put16 (e_mem e) (p + 42) TFTP_RRQ;
     r \<leftarrow> add_str p filename (m, 2);
     r \<leftarrow> add_str p (obj e ''octet'') r;
     r \<leftarrow> add_str p (obj e ''timeout'') r;
     r \<leftarrow> add_str p (obj e ''120'') r;
     r \<leftarrow> add_str p (obj e ''tsize'') r;
     (m, sz) \<leftarrow> add_str p (obj e ''0'') r;
     Some (sz, e\<lparr>e_mem := m\<rparr>) }"

definition SetTFTP_ACKDATAPacket :: "u32 \<Rightarrow> u16 \<Rightarrow> 'h ez \<Rightarrow> u32 \<times> 'h ez" where
  "SetTFTP_ACKDATAPacket p BlockNumber e =
     (4, with_mem (\<lambda>m. put16 (put16 m (p + 42) TFTP_ACK) (p + 44) (ucast BlockNumber)) e)"

definition SetTFTP_ErrorPacket :: "u32 \<Rightarrow> int \<Rightarrow> 'h ez \<Rightarrow> (u32 \<times> 'h ez) option" where
  "SetTFTP_ErrorPacket p errornum e =
     (let m = put16 (e_mem e) (p + 42) TFTP_ERROR;
          m = st16 m (p + 44) (ucast (SWAP16_int (word_of_int errornum)));
          str = (if errornum = 2 then obj e ''File has bad magic''
                 else if errornum = 3 then obj e ''File too large'' else 0)
      in if str \<noteq> 0 then do {
           m \<leftarrow> strcpy m (p + 46) str;
           n \<leftarrow> strlen m str;
           Some (4 + (n + 1), e\<lparr>e_mem := m\<rparr>) }
         else Some (4, e\<lparr>e_mem := m\<rparr>))"

section \<open>The header checksum\<close>

text \<open>Folding the carries of a sum into its low half, as a number.\<close>

definition fold16 :: "nat \<Rightarrow> nat" where
  "fold16 x = x mod 65536 + x div 65536"

lemma fold16_mod: "fold16 x mod 65535 = x mod 65535"
proof -
  have "x = fold16 x + x div 65536 * 65535" unfolding fold16_def using div_mult_mod_eq [of x 65536] by linarith
  then have "x mod 65535 = (fold16 x + x div 65536 * 65535) mod 65535" by (rule arg_cong)
  then show ?thesis by (metis mod_mult_self1)
qed

lemma half_word_bound: "unat w \<le> 65535" for w :: u16
proof -
  have "unat w < 2 ^ LENGTH(16)" by (rule unsigned_less)
  then show ?thesis by simp
qed

lemma fold16_twice_less: "x < 2 ^ 32 \<Longrightarrow> fold16 (fold16 x) < 65536"
proof -
  assume "x < 2 ^ 32"
  then have "x div 65536 < 65536" by (simp add: div_less_iff_less_mult)
  moreover have "x mod 65536 < 65536" by simp
  ultimately have y: "fold16 x \<le> 131070" unfolding fold16_def by linarith
  show ?thesis
  proof (cases "fold16 x < 65536")
    case True
    then show ?thesis by (simp add: fold16_def [of "fold16 x"])
  next
    case False
    with y have "fold16 x div 65536 = 1" "fold16 x mod 65536 = fold16 x - 65536"
      by (simp_all add: div_nat_eqI mod_nat_eqI)
    with y show ?thesis unfolding fold16_def [of "fold16 x"] by linarith
  qed
qed

lemma unat_fold16: "unat x < 2 ^ 32 \<Longrightarrow> fold16 (unat x) < 2 ^ 32 \<Longrightarrow>
  unat ((x AND 0xFFFF) + drop_bit 16 x) = fold16 (unat x)" for x :: u32
proof -
  assume "fold16 (unat x) < 2 ^ 32"
  moreover have "unat (x AND 0xFFFF) = unat x mod 65536"
  proof -
    have "x AND 0xFFFF = take_bit 16 x" by (simp add: take_bit_eq_mask mask_eq_exp_minus_1)
    then have "unat (x AND 0xFFFF) = take_bit 16 (unat x)" by (simp add: unsigned_take_bit_eq)
    then show ?thesis by (simp add: take_bit_eq_mod)
  qed
  moreover have "unat (drop_bit 16 x) = unat x div 65536"
    unfolding unat_drop_bit_eq by (simp add: drop_bit_eq_div)
  ultimately show ?thesis by (simp add: unat_word_ariths fold16_def)
qed

text \<open>The sum of \<open>n\<close> half words as a number.\<close>

primrec half_sum :: "nat \<Rightarrow> mem \<Rightarrow> u32 \<Rightarrow> nat" where
  "half_sum 0 m p = 0"
| "half_sum (Suc n) m p = unat (ld16 m p) + half_sum n m (p + 2)"

lemma half_sum_bound: "half_sum n m p \<le> n * 65535"
proof (induction n arbitrary: p)
  case (Suc n)
  have "unat (ld16 m p) \<le> 65535" by (rule half_word_bound)
  with Suc.IH [of "p + 2"] show ?case by simp
qed simp

lemma unat_sum16: "unat acc + n * 65535 < 2 ^ 32 \<Longrightarrow> unat (sum16 n m p acc) = unat acc + half_sum n m p"
proof (induction n arbitrary: p acc)
  case (Suc n)
  have l: "unat (ld16 m p) \<le> 65535" by (rule half_word_bound)
  have u: "unat (ucast (ld16 m p) :: u32) = unat (ld16 m p)"
    using half_word_bound [of "ld16 m p"] by (simp add: unsigned_ucast_eq take_bit_nat_eq_self)
  have "unat (acc + ucast (ld16 m p)) = unat acc + unat (ld16 m p)"
    using Suc.prems l by (simp add: unat_word_ariths u)
  with Suc.IH [of "acc + ucast (ld16 m p)" "p + 2"] Suc.prems l show ?case by simp
qed simp

lemma unat_IPChecksum:
  assumes "n \<le> 65536"
  shows "unat (IPChecksum m p n) = fold16 (fold16 (half_sum n m p))"
proof -
  have s: "unat (sum16 n m p 0) = half_sum n m p"
    using unat_sum16 [of 0 n m p] assms by simp
  have lt: "half_sum n m p < 2 ^ 32" using half_sum_bound [of n m p] assms by simp
  have f1: "fold16 x < 2 ^ 32" if "x < 2 ^ 32" for x
  proof -
    have "x mod 65536 < 65536" "x div 65536 < 65536" using that by (simp_all add: div_less_iff_less_mult)
    then show ?thesis unfolding fold16_def by simp
  qed
  let ?x = "sum16 n m p 0"
  let ?y = "(?x AND 0xFFFF) + drop_bit 16 ?x"
  let ?z = "(?y AND 0xFFFF) + drop_bit 16 ?y"
  have y: "unat ?y = fold16 (half_sum n m p)" using unat_fold16 [of ?x] s lt f1 by simp
  have z: "unat ?z = fold16 (fold16 (half_sum n m p))" using unat_fold16 [of ?y] y lt f1 by simp
  have "?z AND 0xFFFF = ?z"
  proof -
    have "?z AND 0xFFFF = take_bit 16 ?z" by (simp add: take_bit_eq_mask mask_eq_exp_minus_1)
    moreover have "unat ?z < 2 ^ 16" using z fold16_twice_less [OF lt] by simp
    ultimately show ?thesis by (simp add: unsigned_take_bit_eq take_bit_nat_eq_self word_unat_eq_iff unsigned_take_bit_eq)
  qed
  with z show ?thesis by (simp add: IPChecksum_def Let_def)
qed

lemma and_even_mask: "unat (x AND 0xFFFE) = 2 * (unat x div 2 mod 32768)" for x :: u32
proof -
  have "x AND 0xFFFE = push_bit 1 (take_bit 15 (drop_bit 1 x))"
  proof -
    have e: "(0xFFFE :: u32) = push_bit 1 (mask 15)" by (simp add: mask_eq_exp_minus_1)
    show ?thesis unfolding e
      by (rule bit_word_eqI, unfold bit_and_iff bit_push_bit_iff bit_take_bit_iff bit_drop_bit_eq bit_mask_iff) auto
  qed
  moreover have "unat (take_bit 15 (drop_bit 1 x)) = unat x div 2 mod 32768"
    unfolding unsigned_take_bit_eq unat_drop_bit_eq by (simp add: take_bit_eq_mod drop_bit_eq_div)
  ultimately show ?thesis by (simp add: push_bit_eq_mult unat_word_ariths)
qed

text \<open>The test accepts exactly the sums divisible by 65535.\<close>

lemma IPChksumOK_iff:
  assumes "n \<le> 65536"
  shows "IPChksumOK m p n \<longleftrightarrow> 65535 dvd half_sum n m p"
proof -
  let ?c = "unat (IPChecksum m p n)"
  have lt: "half_sum n m p < 2 ^ 32" using half_sum_bound [of n m p] assms by simp
  have c: "?c = fold16 (fold16 (half_sum n m p))" by (rule unat_IPChecksum [OF assms])
  have c16: "?c < 65536" using c fold16_twice_less [OF lt] by simp
  have "?c mod 65535 = half_sum n m p mod 65535" by (simp add: c fold16_mod)
  moreover have "?c mod 65535 = 0 \<longleftrightarrow> ?c = 0 \<or> ?c = 65535" using c16 by (cases "?c = 65535") auto
  moreover have "IPChksumOK m p n \<longleftrightarrow> ?c = 0 \<or> ?c = 65535"
  proof -
    have "unat (IPChecksum m p n + 1) = ?c + 1" using c16 by (simp add: unat_word_ariths)
    then have "unat ((IPChecksum m p n + 1) AND 0xFFFE) = 2 * ((?c + 1) div 2 mod 32768)"
      by (simp only: and_even_mask)
    then have "IPChksumOK m p n \<longleftrightarrow> (?c + 1) div 2 mod 32768 = 0"
      unfolding IPChksumOK_def unat_eq_0 [symmetric] by simp
    also have "\<dots> \<longleftrightarrow> ?c = 0 \<or> ?c = 65535"
    proof (cases "?c = 65535")
      case False
      with c16 have "(?c + 1) div 2 < 32768" by simp
      moreover have "(?c + 1) div 2 = 0 \<longleftrightarrow> ?c = 0" by (simp add: div_eq_0_iff)
      ultimately show ?thesis using False by simp
    qed simp
    finally show ?thesis .
  qed
  ultimately show ?thesis by (simp add: dvd_eq_mod_eq_0)
qed

text \<open>A half word of the sum is replaced by its value, the others stay.\<close>

lemma ld16_other: "a \<noteq> b \<Longrightarrow> a + 1 \<noteq> b \<Longrightarrow> ld16 (m(b := v)) a = ld16 m a"
  by (simp add: ld16_def)

lemma ld16_st16_same: "ld16 (st16 m a v) a = v"
proof -
  have "ucast (ucast v :: u8) OR push_bit 8 (ucast (ucast (drop_bit 8 v) :: u8)) = v" for v :: u16
    by (rule bit_word_eqI) (auto simp: bit_or_iff bit_push_bit_iff bit_ucast_iff bit_drop_bit_eq not_le)
  then show ?thesis by (simp add: ld16_def st16_def)
qed

lemma half_sum_10:
  "half_sum 10 m q = unat (ld16 m q) + unat (ld16 m (q + 2)) + unat (ld16 m (q + 4)) + unat (ld16 m (q + 6)) +
    unat (ld16 m (q + 8)) + unat (ld16 m (q + 10)) + unat (ld16 m (q + 12)) + unat (ld16 m (q + 14)) +
    unat (ld16 m (q + 16)) + unat (ld16 m (q + 18))"
  by (simp add: numeral_eq_Suc add.assoc)

lemma unat_ucast_not: "unat c < 65536 \<Longrightarrow> unat (ucast (NOT c) :: u16) = 65535 - unat c" for c :: u32
proof -
  assume "unat c < 65536"
  then have u: "unat (ucast c :: u16) = unat c" by (simp add: unsigned_ucast_eq take_bit_nat_eq_self)
  have "ucast (NOT c) = NOT (ucast c :: u16)"
    by (rule bit_word_eqI) (simp add: bit_ucast_iff bit_not_iff bit_imp_le_length)
  also have "\<dots> = - 1 - ucast c" by (simp add: not_eq_complement)
  also have "unat (- 1 - (ucast c :: u16)) = unat (- 1 :: u16) - unat (ucast c :: u16)"
    by (rule unat_sub) simp
  finally show ?thesis by (simp add: u unsigned_minus_1_eq_mask mask_eq_exp_minus_1)
qed

text \<open>Storing the complement of the checksum where the sum had a zero makes the sum divisible by 65535.\<close>

lemma checksum_stored:
  assumes "ld16 m (q + 10) = 0"
  shows "IPChksumOK (st16 m (q + 10) (ucast (NOT (IPChecksum m q 10)))) q 10"
proof -
  let ?c = "IPChecksum m q 10"
  let ?v = "ucast (NOT ?c) :: u16"
  have lt: "half_sum 10 m q < 2 ^ 32" using half_sum_bound [of 10 m q] by simp
  have c: "unat ?c = fold16 (fold16 (half_sum 10 m q))" by (rule unat_IPChecksum) simp
  have c16: "unat ?c < 65536" using c fold16_twice_less [OF lt] by simp
  have v: "unat ?v = 65535 - unat ?c" using c16 by (rule unat_ucast_not)
  have o: "ld16 (st16 m (q + 10) ?v) (q + k) = ld16 m (q + k)" if "k \<in> {0, 2, 4, 6, 8, 12, 14, 16, 18}" for k
    using that by (auto simp: st16_def ld16_def)
  have "half_sum 10 (st16 m (q + 10) ?v) q = half_sum 10 m q + (65535 - unat ?c)"
    using o [of 0] o [of 2] o [of 4] o [of 6] o [of 8] o [of 12] o [of 14] o [of 16] o [of 18] assms
    by (simp add: half_sum_10 ld16_st16_same v)
  moreover have "unat ?c mod 65535 = half_sum 10 m q mod 65535" by (simp add: c fold16_mod)
  then have "(half_sum 10 m q + (65535 - unat ?c)) mod 65535 = (unat ?c + (65535 - unat ?c)) mod 65535"
    by (metis mod_add_left_eq)
  ultimately show ?thesis using c16 by (simp add: IPChksumOK_iff dvd_eq_mod_eq_0)
qed

lemma set_ip_header_ok:
  "ip_header_ok (e_mem (set_ip_header prot (p + 14) destIP srcIP ps e)) p destIP"
proof -
  define q where "q = p + 14"
  define m1 where "m1 = (if ps AND 1 \<noteq> 0 then (e_mem e)(q + 20 + ucast ps := 0) else e_mem e)"
  define m2 where "m2 = st16 (put16 (m1(q := 0x45, q + 1 := 0)) (q + 2) (IP_SIZE + ucast ps)) (q + 4)
    (ucast (SWAP16_int (scast (IP_ID e))))"
  define m3 where "m3 = st32 (st32 (st16 ((put16 m2 (q + 6) 0)(q + 8 := 64, q + 9 := prot)) (q + 10) 0) (q + 12) srcIP) (q + 16) destIP"
  let ?m = "st16 m3 (q + 10) (ucast (NOT (IPChecksum m3 q 10)))"
  have m: "e_mem (set_ip_header prot q destIP srcIP ps e) = ?m"
    by (simp add: set_ip_header_def m1_def m2_def m3_def Let_def)
  have "ld16 m3 (q + 10) = 0"
    by (simp add: m3_def ld16_def st32_def st16_def)
  then have "IPChksumOK ?m q 10" by (rule checksum_stored)
  moreover have "?m q = 0x45"
    by (simp add: m2_def m3_def st16_def st32_def put16_def)
  moreover have "ld16 ?m (q + 6) = 0"
    by (simp add: m3_def ld16_def st16_def st32_def put16_def SWAP16_def)
  moreover have "ld32 ?m (q + 16) = destIP"
  proof -
    have "ld32 ?m (q + 16) = ld32 m3 (q + 16)"
      by (rule ld32_cong) (auto simp: word_bytes_def st16_def)
    then show ?thesis by (simp add: m3_def ld32_st32_same)
  qed
  moreover have "p + 20 = q + 6" "p + 30 = q + 16" by (simp_all add: q_def)
  ultimately show ?thesis
    unfolding q_def [symmetric] m ip_header_ok_def \<open>p + 20 = q + 6\<close> \<open>p + 30 = q + 16\<close> by simp
qed

text \<open>
  C34: an IP header the boot loader builds, for UDP or for ICMP, passes the checks a receiver of the
  boot loader's own kind makes on it: version, no fragment, header checksum, and its destination.
\<close>

theorem ip_header_accepted:
  "ip_header_ok (e_mem (SetIPHeaderByUDP (p + 14) destIP srcIP ps e)) p destIP \<and>
   ip_header_ok (e_mem (SetIPHeaderByICMP (p + 14) destIP srcIP ps e)) p destIP"
  by (simp add: SetIPHeaderByUDP_def SetIPHeaderByICMP_def set_ip_header_ok)

end
