(* ===== verification/Boot_Ether.thy ===== *)
theory Boot_Ether
  imports Boot_Net
begin

text \<open>
  The Ethernet controller (\<open>cs8900.c\<close>) and the commands on top of it: ARP and ping
  (\<open>arp_cmd.c\<close>). The controller's registers are 16 bits wide; C's \<open>BOOL\<close> is \<open>bool\<close>.
\<close>

section \<open>The controller\<close>

definition CS8900_BASE :: u32 where "CS8900_BASE = 0x00400300"
definition CS8900_RTX_DATA :: u32 where "CS8900_RTX_DATA = CS8900_BASE"
definition CS8900_TXCMD :: u32 where "CS8900_TXCMD = CS8900_BASE + 4"
definition CS8900_TXLEN :: u32 where "CS8900_TXLEN = CS8900_BASE + 6"
definition CS8900_ISQ :: u32 where "CS8900_ISQ = CS8900_BASE + 8"
definition CS8900_PPPTR :: u32 where "CS8900_PPPTR = CS8900_BASE + 10"
definition CS8900_PPDATA :: u32 where "CS8900_PPDATA = CS8900_BASE + 12"

definition PP_LineCTL :: u16 where "PP_LineCTL = 0x0112"
definition PP_LineST :: u16 where "PP_LineST = 0x0134"
definition PP_BusST :: u16 where "PP_BusST = 0x0138"
definition PP_LAF :: u16 where "PP_LAF = 0x0150"
definition PP_IA :: u16 where "PP_IA = 0x0158"
definition SERIAL_RX_ON :: u16 where "SERIAL_RX_ON = 0x40"
definition SERIAL_TX_ON :: u16 where "SERIAL_TX_ON = 0x80"
definition TX_AFTER_ALL :: u16 where "TX_AFTER_ALL = 0xC0"
definition READY_FOR_TX_NOW :: u16 where "READY_FOR_TX_NOW = 0x0100"
definition ISQ_RX_MISS_EVENT :: u16 where "ISQ_RX_MISS_EVENT = 0x10"
definition ISQ_RECEIVER_EVENT :: u16 where "ISQ_RECEIVER_EVENT = 0x04"
definition RX_OK :: u16 where "RX_OK = 0x0100"
definition LINK_OK :: u16 where "LINK_OK = 0x0080"
definition CS8900_DECTECT_MASK :: u32 where "CS8900_DECTECT_MASK = 0x3000"
definition CHECK_CHIP_ID_HIGH :: u16 where "CHECK_CHIP_ID_HIGH = 0x0E63"

definition rd16 :: "'h bus \<Rightarrow> u32 \<Rightarrow> 'h ez \<Rightarrow> u16 \<times> 'h ez" where
  "rd16 b r e = (let (v, e) = rd b r e in (ucast v, e))"

definition wr16 :: "'h bus \<Rightarrow> u32 \<Rightarrow> u16 \<Rightarrow> 'h ez \<Rightarrow> 'h ez" where
  "wr16 b r v e = wr b r (ucast v) e"

definition CS8900_GetMacAddress :: "'h ez \<Rightarrow> u32" where
  "CS8900_GetMacAddress e = cfg_at O_Local_MacAddress e"

definition CS8900_WriteToPPR :: "'h bus \<Rightarrow> u16 \<Rightarrow> u16 \<Rightarrow> 'h ez \<Rightarrow> 'h ez" where
  "CS8900_WriteToPPR b addr v e = wr16 b CS8900_PPDATA v (wr16 b CS8900_PPPTR addr e)"

definition CS8900_ReadFromPPR :: "'h bus \<Rightarrow> u16 \<Rightarrow> 'h ez \<Rightarrow> u16 \<times> 'h ez" where
  "CS8900_ReadFromPPR b addr e = rd16 b CS8900_PPDATA (wr16 b CS8900_PPPTR addr e)"

text \<open>Waits until the controller takes a packet; gives up when the 32-bit count comes back to 0.\<close>

partial_function (option) tx_wait :: "'h bus \<Rightarrow> u32 \<Rightarrow> 'h ez \<Rightarrow> (bool \<times> 'h ez) option" where
  "tx_wait b tick e =
     (let (v, e) = CS8900_ReadFromPPR b PP_BusST e in
      if v AND READY_FOR_TX_NOW \<noteq> 0 then Some (True, e)
      else (let tick = tick + 1 in
            if tick = 0 then Some (False, say '' Error TX BIT'' [] e) else tx_wait b tick e))"

primrec tx_words :: "nat \<Rightarrow> 'h bus \<Rightarrow> u32 \<Rightarrow> 'h ez \<Rightarrow> 'h ez" where
  "tx_words 0 b s e = e"
| "tx_words (Suc n) b s e = tx_words n b (s + 2) (wr16 b CS8900_RTX_DATA (ld16 (e_mem e) s) e)"

definition CS8900_Transmit :: "'h bus \<Rightarrow> u32 \<Rightarrow> u32 \<Rightarrow> 'h ez \<Rightarrow> (bool \<times> 'h ez) option" where
  "CS8900_Transmit b txPktBuf len e = do {
     let e = wr16 b CS8900_PPPTR PP_LineCTL e;
     let (v, e) = rd16 b CS8900_PPDATA e;
     let e = wr16 b CS8900_PPDATA (v OR SERIAL_TX_ON) e;
     let e = wr16 b CS8900_TXCMD TX_AFTER_ALL e;
     let e = wr16 b CS8900_TXLEN (ucast len) e;
     (ready, e) \<leftarrow> tx_wait b 0 e;
     if ready then Some (True, tx_words ((unat len + 1) div 2) b txPktBuf e) else Some (False, e) }"

primrec rx_words :: "nat \<Rightarrow> 'h bus \<Rightarrow> u32 \<Rightarrow> 'h ez \<Rightarrow> 'h ez" where
  "rx_words 0 b s e = e"
| "rx_words (Suc n) b s e =
     (let (v, e) = rd16 b CS8900_RTX_DATA e in rx_words n b (s + 2) (with_mem (\<lambda>m. st16 m s v) e))"

text \<open>\<open>CS8900_Resive\<close> does not look at the size of the buffer. The length is a \<open>short\<close>.\<close>

definition CS8900_Resive :: "'h bus \<Rightarrow> u32 \<Rightarrow> 'h ez \<Rightarrow> int \<times> 'h ez" where
  "CS8900_Resive b rxPktBuf e =
     (let (isq, e) = rd16 b CS8900_ISQ e in
      if isq AND ISQ_RX_MISS_EVENT \<noteq> 0 then (0, say ''Miss RX'' [] e)
      else if isq AND ISQ_RECEIVER_EVENT \<noteq> 0 then
        (let (status, e) = rd16 b CS8900_RTX_DATA e;
             (l, e) = rd16 b CS8900_RTX_DATA e;
             len = sint l;
             e = rx_words (nat (cdiv len 2 + crem len 2)) b rxPktBuf e
         in if status AND RX_OK \<noteq> 0 then (len, e) else (0, e))
      else (0, e))"

definition CS8900_CheckLink :: "'h bus \<Rightarrow> 'h ez \<Rightarrow> bool \<times> 'h ez" where
  "CS8900_CheckLink b e = (let (v, e) = CS8900_ReadFromPPR b PP_LineST e in (v AND LINK_OK \<noteq> 0, e))"

text \<open>The registers \<open>CS8900_Init\<close> sets, in order, up to the address filter.\<close>

definition cs8900_setup :: "(u16 \<times> u16) list" where
  "cs8900_setup =
     [(PP_LineCTL, 0), (0x0022, 0x0004), (0x0024, 0x0003), (0x0102, 0x1100), (0x0104, 0x0F00), (0x0106, 0x0FC0),
      (0x0108, 0x00C0), (0x010A, 0), (0x0116, 0x9000), (0x0118, 0), (0x0144, 0x00C0),
      (PP_LAF, 0xFFFF), (PP_LAF + 2, 0xFFFF), (PP_LAF + 4, 0xFFFF), (PP_LAF + 6, 0xFFFF)]"

definition CS8900_Init :: "'h bus \<Rightarrow> 'h ez \<Rightarrow> bool \<times> 'h ez" where
  "CS8900_Init b e =
     (let e = say ''CS8900 Init............................'' [] e;
          e = say ''  Mac Address  : '' [] e;
          e = say ''[%02X %02X %02X %02X %02X %02X]'' (map (\<lambda>i. ucast (cfg8 (O_Local_MacAddress + i) e)) [0, 1, 2, 3, 4, 5]) e;
          e = wr b (CS8900_BASE + 1) 0 e;
          (id, e) = rd16 b CS8900_PPPTR e;
          det = scast id AND CS8900_DECTECT_MASK;
          e = say ''  Detect value : [%04X:%04X]'' [CS8900_DECTECT_MASK, det] e
      in if det \<noteq> CS8900_DECTECT_MASK then (False, say ''  Can't access to Memory of CS8900A.'' [] e)
         else
           (let (lo, e) = CS8900_ReadFromPPR b 2 e;
                (hi, e) = CS8900_ReadFromPPR b 0 e;
                hi = ucast (SWAP16 (ucast hi)); lo = ucast (SWAP16 (ucast lo)) :: u16;
                e = say ''  Chip ID      : [%04X:%04X]'' [ucast hi, ucast lo] e
            in if hi \<noteq> CHECK_CHIP_ID_HIGH then (False, say ''  Ethernet Chip is not CS8900A. Are you use CS8900A.'' [] e)
               else
                 (let e = fold (\<lambda>(r, v). CS8900_WriteToPPR b r v) cs8900_setup e;
                      mac = (\<lambda>lp e. CS8900_WriteToPPR b (PP_IA + 2 * of_nat lp)
                               (ld16 (e_mem e) (cfg_at (O_Local_MacAddress + 2 * of_nat lp) e)) e);
                      e = mac 2 (mac 1 (mac 0 e))
                  in (True, CS8900_WriteToPPR b PP_LineCTL (SERIAL_RX_ON OR SERIAL_TX_ON) e))))"

definition CS8900_SwReset :: "'h bus \<Rightarrow> 'h ez \<Rightarrow> 'h ez" where
  "CS8900_SwReset b e = snd (CS8900_Init b e)"

section \<open>Addresses\<close>

definition GetHostMacAddress :: "'h ez \<Rightarrow> u32" where
  "GetHostMacAddress e = cfg_at O_Host_MacAddress e"

definition GetLocalIP :: "'h ez \<Rightarrow> u32" where
  "GetLocalIP e = cfg32 O_Local_IP e"

definition GetHostIP :: "'h ez \<Rightarrow> u32" where
  "GetHostIP e = cfg32 O_Host_IP e"

section \<open>ARP\<close>

text \<open>The packet and the broadcast address are local objects.\<close>

definition SendArpPacket :: "'h bus \<Rightarrow> 'h ez \<Rightarrow> 'h ez option" where
  "SendArpPacket b e = do {
     let bc = obj e ''BroadcastMAC'';
     let p = obj e ''ARP_Packet'';
     let e = with_mem (\<lambda>m. write_bytes m bc (replicate 6 0xFF)) e;
     let e = with_mem (\<lambda>m. memset 42 m p 0) e;
     let e = with_mem (SetArpRequestHeader p (CS8900_GetMacAddress e) (GetLocalIP e) (GetHostIP e)) e;
     let e = with_mem (SetEthernetARPHeader p (CS8900_GetMacAddress e) bc) e;
     (_, e) \<leftarrow> CS8900_Transmit b p ARP_PACKET_SIZE e;
     Some e }"

definition ARPReply :: "u32 \<Rightarrow> u32 \<Rightarrow> 'h ez \<Rightarrow> bool \<times> 'h ez" where
  "ARPReply p len e =
     (if CheckARPRxPacket (e_mem e) p len (GetHostIP e) (GetLocalIP e) then
        (let e = with_mem (\<lambda>m. GetHostMacAddressFromArpPacket m p (GetHostMacAddress e)) e;
             e = say ''HOST MAC : [ '' [] (say ''ARP PACKET Resive'' [] e);
             e = fold (\<lambda>i e. say ''%02X '' [ucast (e_mem e (GetHostMacAddress e + i))] e) [0, 1, 2, 3, 4, 5] e
         in (True, say '']'' [] e))
      else (False, say ''ARP PACKET Error'' [] e))"

text \<open>
  One poll of the controller: the frame length as a \<open>Word16\<close>, the frame in \<open>RxBuff\<close>.
\<close>

definition receive :: "'h bus \<Rightarrow> 'h ez \<Rightarrow> u32 \<times> 'h ez" where
  "receive b e = (let (n, e) = CS8900_Resive b (obj e ''RxBuff'') e in (ucast (word_of_int n :: u16), e))"

partial_function (option) arp_wait :: "'h bus \<Rightarrow> 'h ez \<Rightarrow> (bool \<times> 'h ez) option" where
  "arp_wait b e =
     (let (t, e) = TimeOverflow b 0 e in
      if t \<noteq> 0 then Some (False, e)
      else
        (let (n, e) = receive b e; p = obj e ''RxBuff'' in
         if n \<noteq> 0 \<and> GetProtocolFromRxPacket (e_mem e) p = PROT_ARP then
           (let (ok, e) = ARPReply p n e in
            if ok then Some (True, FreeTimer b 0 e) else arp_wait b e)
         else arp_wait b e))"

primrec arp_tries :: "nat \<Rightarrow> 'h bus \<Rightarrow> 'h ez \<Rightarrow> (bool \<times> 'h ez) option" where
  "arp_tries 0 b e = Some (False, FreeTimer b 0 e)"
| "arp_tries (Suc n) b e = do {
     let e = with_mem (\<lambda>m. memset 1500 m (obj e ''RxBuff'') 0) e;
     e \<leftarrow> SendArpPacket b (say ''Send ARP Packet '' [] e);
     (ok, e) \<leftarrow> arp_wait b (ReloadTimer b 0 1000 e);
     if ok then Some (True, e) else arp_tries n b e }"

definition ARPProcess :: "'h bus \<Rightarrow> 'h ez \<Rightarrow> (bool \<times> 'h ez) option" where
  "ARPProcess b e = arp_tries 10 b e"

definition AutoRebuildNetworkInfo :: "'h bus \<Rightarrow> 'h ez \<Rightarrow> (bool \<times> 'h ez) option" where
  "AutoRebuildNetworkInfo b e =
     (if GetLocalIP e = 0 \<or> GetLocalIP e = 0xFFFFFFFF \<or> GetHostIP e = 0 \<or> GetHostIP e = 0xFFFFFFFF
      then Some (False, say ''- Invalid [LOCAL IP] or [HOST IP], Type [SET] command'' [] e)
      else ARPProcess b e)"

text \<open>The command \<open>ARP\<close>; \<open>TRUE\<close> is -1.\<close>

definition Arp :: "'h bus \<Rightarrow> 'h ez \<Rightarrow> (int \<times> 'h ez) option" where
  "Arp b e =
     (let (link, e) = CS8900_CheckLink b e in
      if \<not> link then Some (-1, say ''Ethernet Link failed. Check line.'' [] e)
      else do {
        let e = with_mem (\<lambda>m. memset 8 m (GetHostMacAddress e) 0) e;
        (_, e) \<leftarrow> ARPProcess b e;
        Some (-1, e) })"

section \<open>Ping\<close>

text \<open>\<open>icmp_cksum\<close> is stored swapped, at an odd offset (the code field takes two bytes).\<close>

definition SendEchoPacket :: "'h bus \<Rightarrow> 'h ez \<Rightarrow> 'h ez option" where
  "SendEchoPacket b e = do {
     let p = obj e ''ECHO_Packet'';
     let e = with_mem (\<lambda>m. memset 74 m p 0) e;
     let e = with_mem (\<lambda>m. m(p + 34 := 8)) e;
     let e = with_mem (\<lambda>m. st16 (st16 m (p + 35) 0) (p + 37) 0) e;
     let e = with_mem (\<lambda>m. put16 m (p + 39) 8988) e;
     let e = with_mem (\<lambda>m. m(p + 41 := ucast (ICMP_SEQ e))) (e\<lparr>ICMP_SEQ := ICMP_SEQ e + 1\<rparr>);
     let e = with_mem (\<lambda>m. put16 m (p + 37) (ucast (GetCheckSumICMP m (p + 34) 40))) e;
     let e = SetIPHeaderByICMP (p + 14) (GetHostIP e) (GetLocalIP e) (ucast ICMP_SIZE) e;
     let e = with_mem (SetEthernetIPHeader p (CS8900_GetMacAddress e) (GetHostMacAddress e)) e;
     (_, e) \<leftarrow> CS8900_Transmit b p ECHO_PACKET_SIZE e;
     Some e }"

definition ECHOHandler :: "u32 \<Rightarrow> u32 \<Rightarrow> 'h ez \<Rightarrow> bool" where
  "ECHOHandler p len e \<longleftrightarrow> CheckECHORxPacket (e_mem e) p len (GetLocalIP e)"

partial_function (option) echo_wait :: "'h bus \<Rightarrow> 'h ez \<Rightarrow> (bool \<times> 'h ez) option" where
  "echo_wait b e =
     (let (t, e) = TimeOverflow b 0 e in
      if t \<noteq> 0 then Some (False, e)
      else
        (let (n, e) = receive b e; p = obj e ''RxBuff'' in
         if n \<noteq> 0 \<and> GetProtocolFromRxPacket (e_mem e) p = PROT_IP \<and> ECHOHandler p n e
         then Some (True, FreeTimer b 0 (say ''PING TEST GOOD'' [] e))
         else echo_wait b e))"

primrec echo_tries :: "nat \<Rightarrow> 'h bus \<Rightarrow> 'h ez \<Rightarrow> (bool \<times> 'h ez) option" where
  "echo_tries 0 b e = Some (False, say ''PING TEST FAIL'' [] (FreeTimer b 0 e))"
| "echo_tries (Suc n) b e = do {
     let e = with_mem (\<lambda>m. memset 1500 m (obj e ''RxBuff'') 0) e;
     e \<leftarrow> SendEchoPacket b (say ''Send Echo Packet '' [] e);
     (ok, e) \<leftarrow> echo_wait b (ReloadTimer b 0 1000 e);
     if ok then Some (True, e) else echo_tries n b e }"

definition EChoProcess :: "'h bus \<Rightarrow> 'h ez \<Rightarrow> (bool \<times> 'h ez) option" where
  "EChoProcess b e = echo_tries 10 b e"

text \<open>The command \<open>PING\<close>.\<close>

definition Ping :: "'h bus \<Rightarrow> u32 list \<Rightarrow> 'h ez \<Rightarrow> (int \<times> 'h ez) option" where
  "Ping b argv e =
     (if length argv < 2 then Some (-1, say ''Error argument count'' [] e)
      else do {
        (str, e) \<leftarrow> Cfg_parse_args (argv ! 1) e;
        if length str \<noteq> 4 then Some (-1, say ''Error IP Address'' [] e)
        else do {
          TargetIP \<leftarrow> parse_ip (e_mem e) str;
          let OldHostIP = GetHostIP e;
          let e = set_cfg32 O_Host_IP TargetIP e;
          let (link, e) = CS8900_CheckLink b e;
          if \<not> link then Some (-1, say ''Ethernet Link failed. Check Line.'' [] e)
          else do {
            (ok, e) \<leftarrow> AutoRebuildNetworkInfo b e;
            if \<not> ok then Some (0, e)
            else do {
              (_, e) \<leftarrow> EChoProcess b e;
              Some (-1, set_cfg32 O_Host_IP OldHostIP e) } } } })"

end
