(* ===== verification/Boot_Nand.thy ===== *)
theory Boot_Nand
  imports Boot_Config
begin

text \<open>
  The NAND flash, its bad-block map and its partitions: \<open>nand.c\<close>. The delay loop
  \<open>NAND_AddressSetupWait\<close> is so many turns in which time passes for the chip; the dummy reads that frame an access are kept.
\<close>

section \<open>Registers and constants\<close>

definition NAND_BASE :: u32 where "NAND_BASE = 0x04000000"
definition NAND_DATA :: "'h ez \<Rightarrow> u32" where "NAND_DATA e = nBaseAddress (Nand1 e)"
definition NAND_CMD :: "'h ez \<Rightarrow> u32" where "NAND_CMD e = nBaseAddress (Nand1 e) + 0x100"
definition NAND_ADDR :: "'h ez \<Rightarrow> u32" where "NAND_ADDR e = nBaseAddress (Nand1 e) + 0x200"
definition NAND_ACCESS_END :: "'h ez \<Rightarrow> u32" where "NAND_ACCESS_END e = nBaseAddress (Nand1 e) + 0x300"

definition NAND_CMD_READ_ID :: u32 where "NAND_CMD_READ_ID = 0x90"
definition NAND_CMD_READ_STATE :: u32 where "NAND_CMD_READ_STATE = 0x70"
definition NAND_CMD_ERASE_SETUP :: u32 where "NAND_CMD_ERASE_SETUP = 0x60"
definition NAND_CMD_ERASE_RUN :: u32 where "NAND_CMD_ERASE_RUN = 0xD0"
definition NAND_CMD_WRITE_START :: u32 where "NAND_CMD_WRITE_START = 0x80"
definition NAND_CMD_WRITE_RUN :: u32 where "NAND_CMD_WRITE_RUN = 0x10"
definition NAND_CMD_READ_A :: u32 where "NAND_CMD_READ_A = 0x00"
definition NAND_CMD_READ_C :: u32 where "NAND_CMD_READ_C = 0x50"
definition NAND_STATUS_FAIL :: u8 where "NAND_STATUS_FAIL = 0x01"
definition NAND_STATUS_BUSY :: u8 where "NAND_STATUS_BUSY = 0x40"
definition NAND_STATUS_PROTECTED :: u8 where "NAND_STATUS_PROTECTED = 0x80"

definition BLK_CNT_1M :: int where "BLK_CNT_1M = 64"
definition NAND_PARTITON_REST_SIZE :: int where "NAND_PARTITON_REST_SIZE = -1"
definition NAND_PARTITON_END :: int where "NAND_PARTITON_END = -1"
definition PARTITION_NUM_KERNEL :: int where "PARTITION_NUM_KERNEL = 0"
definition PARTITION_NUM_RAMDISK :: int where "PARTITION_NUM_RAMDISK = 1"
definition PARTITION_NUM_APPIMAGE :: int where "PARTITION_NUM_APPIMAGE = 2"

definition good_mark :: u8 where "good_mark = 79"
definition bad_mark :: u8 where "bad_mark = 88"

section \<open>Access\<close>

definition set_nand :: "(nand_info \<Rightarrow> nand_info) \<Rightarrow> 'h ez \<Rightarrow> 'h ez" where
  "set_nand f e = e\<lparr>Nand1 := f (Nand1 e)\<rparr>"

text \<open>A partition through \<open>pPartition\<close>.\<close>

definition partition_of :: "int \<Rightarrow> 'h ez \<Rightarrow> nand_par option" where
  "partition_of n e = (if nPartition (Nand1 e) \<and> in_array n (Nand1Partition e) then Some (Nand1Partition e ! nat n) else None)"

definition dummy_read :: "'h bus \<Rightarrow> u32 \<Rightarrow> 'h ez \<Rightarrow> 'h ez" where
  "dummy_read b r e = snd (rd b r e)"

text \<open>The bytes of a page or block address; the third only for the large chips.\<close>

definition send_row :: "'h bus \<Rightarrow> u32 \<Rightarrow> 'h ez \<Rightarrow> 'h ez" where
  "send_row b addr e =
     (let e = wr b (NAND_ADDR e) (addr AND 0xFF) e;
          e = wr b (NAND_ADDR e) (drop_bit 8 addr AND 0xFF) e
      in if nTotalSize (Nand1 e) \<ge> 64 * 1024 * 1024 then wr b (NAND_ADDR e) (drop_bit 16 addr AND 0xFF) e else e)"

definition nand_byte :: "'h bus \<Rightarrow> 'h ez \<Rightarrow> u8 \<times> 'h ez" where
  "nand_byte b e = (let (v, e) = rd b (NAND_DATA e) e in (ucast v, e))"

definition NAND_WAIT_COUNT :: nat where "NAND_WAIT_COUNT = 250"

definition NAND_AddressSetupWait :: "'h bus \<Rightarrow> 'h ez \<Rightarrow> 'h ez" where
  "NAND_AddressSetupWait b e = pause b NAND_WAIT_COUNT e"

text \<open>Asks for the status until the busy bit is set.\<close>

partial_function (option) nand_status :: "'h bus \<Rightarrow> 'h ez \<Rightarrow> (u8 \<times> 'h ez) option" where
  "nand_status b e =
     (let (s, e) = nand_byte b (wr b (NAND_CMD e) NAND_CMD_READ_STATE e)
      in if s AND NAND_STATUS_BUSY \<noteq> 0 then Some (s, e) else nand_status b e)"

section \<open>Partitions and bad blocks\<close>

definition NAND_Par_Fixup :: "'h ez \<Rightarrow> 'h ez" where
  "NAND_Par_Fixup e =
     (let n = (\<lambda>i. uint (NandPar i e)) in
      e\<lparr>Nand1Partition := (Nand1Partition e)
          [0 := par 0 (n 0 * BLK_CNT_1M), 1 := par (n 0 * BLK_CNT_1M) (n 1 * BLK_CNT_1M),
           2 := par ((n 0 + n 1) * BLK_CNT_1M) (n 2 * BLK_CNT_1M)]\<rparr>)"

definition USED_BOOT_BLOCK_COUNT :: "'h ez \<Rightarrow> int" where
  "USED_BOOT_BLOCK_COUNT e = BlockCount (Nand1Partition e ! 0) + BlockCount (Nand1Partition e ! 1)"

definition NAND_CheckBadBlock :: "'h bus \<Rightarrow> int \<Rightarrow> 'h ez \<Rightarrow> (bool \<times> 'h ez) option" where
  "NAND_CheckBadBlock b BlockNumber e =
     (let BlockAddr = push_bit 5 (word_of_int BlockNumber);
          e = dummy_read b (NAND_DATA e) e;
          e = wr b (NAND_CMD e) NAND_CMD_READ_C e;
          e = wr b (NAND_ADDR e) 0x05 e;
          e = send_row b BlockAddr e;
          e = NAND_AddressSetupWait b e;
          (State, e) = nand_byte b e;
          e = dummy_read b (NAND_ACCESS_END e) e
      in if \<not> in_array BlockNumber (nBadBlock (Nand1 e)) then None
         else if State \<noteq> 0xFF
         then Some (False, set_nand (\<lambda>d. d\<lparr>nBadBlock := (nBadBlock d)[nat BlockNumber := bad_mark]\<rparr>) e)
         else Some (True, set_nand (\<lambda>d. d\<lparr>nBadBlock := (nBadBlock d)[nat BlockNumber := good_mark]\<rparr>) e))"

text \<open>Checks the blocks \<open>i\<close>, \<open>i + 1\<close>, ..., \<open>n\<close> of them, and counts the bad ones.\<close>

primrec scan_blocks :: "nat \<Rightarrow> int \<Rightarrow> 'h bus \<Rightarrow> 'h ez \<Rightarrow> 'h ez option" where
  "scan_blocks 0 i b e = Some e"
| "scan_blocks (Suc n) i b e = do {
     (ok, e) \<leftarrow> NAND_CheckBadBlock b i e;
     scan_blocks n (i + 1) b
       (if ok then e else set_nand (\<lambda>d. d\<lparr>nBadBlockCount := nBadBlockCount d + 1\<rparr>) e) }"

text \<open>
  Fills the table of virtual blocks, from block \<open>i\<close> on; \<open>rep\<close> is \<open>ReplaceBlock\<close>, \<open>vi\<close> is
  \<open>VirIndex\<close>, \<open>scan\<close> is \<open>ScanBlock\<close>.
\<close>

primrec fill_virtual :: "nat \<Rightarrow> int \<Rightarrow> int \<Rightarrow> int \<Rightarrow> int \<Rightarrow> nand_info \<Rightarrow> nand_info option" where
  "fill_virtual 0 i rep vi scan d = Some d"
| "fill_virtual (Suc n) i rep vi scan d =
     (if nBadBlock d ! nat i = bad_mark then fill_virtual n (i + 1) (rep + 1) vi scan d
      else if \<not> in_array vi (nVirBlock d) then None
      else if rep < scan then
        fill_virtual n (i + 1) (rep + 1) (vi + 1) scan (d\<lparr>nVirBlock := (nVirBlock d)[nat vi := word_of_int rep]\<rparr>)
      else fill_virtual n (i + 1) rep (vi + 1) scan (d\<lparr>nVirBlock := (nVirBlock d)[nat vi := word_of_int (scan - 1)]\<rparr>))"

definition NAND_ScanBadBlock :: "'h bus \<Rightarrow> 'h ez \<Rightarrow> (int \<times> 'h ez) option" where
  "NAND_ScanBadBlock b e = do {
     let ScanBlock = USED_BOOT_BLOCK_COUNT e;
     let e = set_nand (\<lambda>d. d\<lparr>nBadBlockCount := 0\<rparr>) e;
     e \<leftarrow> scan_blocks (nat ScanBlock) 0 b e;
     d \<leftarrow> fill_virtual (nat ScanBlock) 0 0 0 ScanBlock (Nand1 e);
     Some (nBadBlockCount d, e\<lparr>Nand1 := d\<rparr>) }"

section \<open>Blocks and pages\<close>

definition NAND_EraseBlock :: "'h bus \<Rightarrow> int \<Rightarrow> 'h ez \<Rightarrow> (bool \<times> 'h ez) option" where
  "NAND_EraseBlock b BlockNumber e = do {
     let BlockAddr = push_bit 5 (word_of_int BlockNumber);
     let e = dummy_read b (NAND_DATA e) e;
     let e = wr b (NAND_CMD e) NAND_CMD_ERASE_SETUP e;
     let e = send_row b BlockAddr e;
     let e = NAND_AddressSetupWait b e;
     let e = wr b (NAND_CMD e) NAND_CMD_ERASE_RUN e;
     (State, e) \<leftarrow> nand_status b e;
     let e = dummy_read b (NAND_ACCESS_END e) e;
     if State AND NAND_STATUS_FAIL \<noteq> 0 then do {
       let e = say ''NAND Erase Block [%d] Fail'' [word_of_int BlockNumber] e;
       Some (False, if State AND NAND_STATUS_PROTECTED = 0 then say ''NAND Device Lock'' [] e else e) }
     else Some (True, e) }"

primrec read_page_bytes :: "nat \<Rightarrow> 'h bus \<Rightarrow> u32 \<Rightarrow> 'h ez \<Rightarrow> 'h ez" where
  "read_page_bytes 0 b p e = e"
| "read_page_bytes (Suc n) b p e =
     (let (v, e) = nand_byte b e in read_page_bytes n b (p + 1) (with_mem (\<lambda>m. m(p := v)) e))"

definition NAND_ReadPage :: "'h bus \<Rightarrow> int \<Rightarrow> u32 \<Rightarrow> 'h ez \<Rightarrow> 'h ez" where
  "NAND_ReadPage b PageNumber pBuf e =
     (let e = dummy_read b (NAND_DATA e) e;
          e = wr b (NAND_CMD e) NAND_CMD_READ_A e;
          e = wr b (NAND_ADDR e) 0 e;
          e = send_row b (word_of_int PageNumber) e;
          e = NAND_AddressSetupWait b e;
          e = read_page_bytes 512 b pBuf e
      in dummy_read b (NAND_ACCESS_END e) e)"

primrec write_page_bytes :: "nat \<Rightarrow> 'h bus \<Rightarrow> u32 \<Rightarrow> 'h ez \<Rightarrow> 'h ez" where
  "write_page_bytes 0 b p e = e"
| "write_page_bytes (Suc n) b p e = write_page_bytes n b (p + 1) (wr b (NAND_DATA e) (ucast (e_mem e p)) e)"

definition NAND_WritePage :: "'h bus \<Rightarrow> int \<Rightarrow> u32 \<Rightarrow> 'h ez \<Rightarrow> (bool \<times> 'h ez) option" where
  "NAND_WritePage b PageNumber pBuf e = do {
     let e = dummy_read b (NAND_DATA e) e;
     let e = wr b (NAND_CMD e) NAND_CMD_READ_A e;
     let e = wr b (NAND_CMD e) NAND_CMD_WRITE_START e;
     let e = wr b (NAND_ADDR e) 0 e;
     let e = send_row b (word_of_int PageNumber) e;
     let e = NAND_AddressSetupWait b e;
     let e = write_page_bytes 512 b pBuf e;
     let e = wr b (NAND_CMD e) NAND_CMD_WRITE_RUN e;
     (State, e) \<leftarrow> nand_status b e;
     let e = dummy_read b (NAND_ACCESS_END e) e;
     if State AND NAND_STATUS_FAIL = 0 then Some (True, e)
     else do {
       let e = say ''NAND Write  Fail'' [] e;
       Some (False, if State AND NAND_STATUS_PROTECTED = 0 then say ''NAND Device Lock'' [] e else e) } }"

section \<open>Sectors\<close>

definition NAND_GetPageFromSector :: "int \<Rightarrow> int \<Rightarrow> 'h ez \<Rightarrow> int option" where
  "NAND_GetPageFromSector PartitionNumber SectorNumber e =
     (if PartitionNumber \<ge> nPartitionNR (Nand1 e) then Some (-1)
      else do {
        P \<leftarrow> partition_of PartitionNumber e;
        let RealBlock = BaseBlock P + cdiv SectorNumber 32;
        if \<not> in_array RealBlock (nVirBlock (Nand1 e)) then None
        else do {
          let VirBlock = uint (nVirBlock (Nand1 e) ! nat RealBlock);
          if VirBlock = 0xFFFF then Some (-1) else Some (VirBlock * 32 + crem SectorNumber 32) } })"

text \<open>The page of a sector, if it lies in the partition: \<open>None\<close> inside is the refusal.\<close>

definition sector_page :: "int \<Rightarrow> int \<Rightarrow> 'h ez \<Rightarrow> int option option" where
  "sector_page PartitionNumber SectorNumber e = do {
     PageNumber \<leftarrow> NAND_GetPageFromSector PartitionNumber SectorNumber e;
     if PageNumber < 0 then Some None
     else do {
       P \<leftarrow> partition_of PartitionNumber e;
       let BlockNumber = cdiv PageNumber 32;
       if BaseBlock P > BlockNumber then Some None
       else if BaseBlock P + BlockCount P \<le> BlockNumber then Some None
       else Some (Some PageNumber) } }"

definition NAND_WriteSector :: "'h bus \<Rightarrow> int \<Rightarrow> int \<Rightarrow> u32 \<Rightarrow> 'h ez \<Rightarrow> (bool \<times> 'h ez) option" where
  "NAND_WriteSector b PartitionNumber SectorNumber pBuf e = do {
     r \<leftarrow> sector_page PartitionNumber SectorNumber e;
     case r of None \<Rightarrow> Some (False, e) | Some PageNumber \<Rightarrow> NAND_WritePage b PageNumber pBuf e }"

definition NAND_ReadSector :: "'h bus \<Rightarrow> int \<Rightarrow> int \<Rightarrow> u32 \<Rightarrow> 'h ez \<Rightarrow> (bool \<times> 'h ez) option" where
  "NAND_ReadSector b PartitionNumber SectorNumber pBuf e = do {
     r \<leftarrow> sector_page PartitionNumber SectorNumber e;
     case r of None \<Rightarrow> Some (False, e) | Some PageNumber \<Rightarrow> Some (True, NAND_ReadPage b PageNumber pBuf e) }"

section \<open>Detection\<close>

text \<open>The Samsung chips: total size and the message.\<close>

definition nand_chip :: "u8 \<Rightarrow> u8 \<Rightarrow> (u32 \<times> u32 \<times> string) option" where
  "nand_chip MakerID SizeID =
     (if MakerID \<noteq> 0xEC then None
      else if SizeID = 0x73 then Some (0x73, 16 * 1024 * 1024, ''  Detect SAMSUNG [%02x:%02x] 16MByte'')
      else if SizeID = 0x75 then Some (0x75, 32 * 1024 * 1024, ''  Detect SAMSUNG [%02x:%02x] 32MByte'')
      else if SizeID = 0x76 then Some (0x76, 64 * 1024 * 1024, ''  Detect SAMSUNG [%02x:%02x] 64MByte'')
      else if SizeID = 0x79 then Some (0x79, 128 * 1024 * 1024, ''  Detect SAMSUNG [%02x:%02x] 128MByte'')
      else None)"

text \<open>Counts the partitions from entry \<open>i\<close> on; one with the rest of the chip as its size ends the table.\<close>

primrec count_partitions :: "nat \<Rightarrow> nat \<Rightarrow> int \<Rightarrow> int \<Rightarrow> nand_par list \<Rightarrow> int \<times> nand_par list" where
  "count_partitions 0 i rest nr ps = (nr, ps)"
| "count_partitions (Suc n) i rest nr ps =
     (if BaseBlock (ps ! i) = NAND_PARTITON_END then (nr, ps)
      else if BlockCount (ps ! i) = NAND_PARTITON_REST_SIZE then (nr + 1, ps[i := (ps ! i)\<lparr>BlockCount := rest\<rparr>])
      else count_partitions n (i + 1) (wrap32 (rest - BlockCount (ps ! i))) (nr + 1) ps)"

definition NAND_DETECT :: "'h bus \<Rightarrow> u32 \<Rightarrow> 'h ez \<Rightarrow> (bool \<times> 'h ez) option" where
  "NAND_DETECT b BaseAddress e = do {
     let e = say ''NAND Chip Check .......................'' [] e;
     let e = set_nand (\<lambda>d. d\<lparr>nBaseAddress := BaseAddress\<rparr>) e;
     let e = dummy_read b (NAND_DATA e) e;
     let e = wr b (NAND_CMD e) NAND_CMD_READ_ID e;
     let e = wr b (NAND_ADDR e) 0 e;
     let (MakerID, e) = nand_byte b e;
     let (SizeID, e) = nand_byte b e;
     let e = dummy_read b (NAND_ACCESS_END e) e;
     let e = set_nand (\<lambda>d. d\<lparr>nType := 0\<rparr>) e;
     case nand_chip MakerID SizeID of
       None \<Rightarrow> Some (False, say ''  Unknown Type'' [] e)
     | Some (ty, tsize, msg) \<Rightarrow> do {
         let e = set_nand (\<lambda>d. d\<lparr>nType := ty, nTotalSize := tsize, nEraseSize := 16 * 1024\<rparr>) e;
         let e = say msg [ucast MakerID, ucast SizeID] e;
         let e = set_nand (\<lambda>d. d\<lparr>nPartition := True, nPartitionNR := 0\<rparr>) e;
         let e = say ''  BAD BLOCK SCAN ->'' [] e;
         (bad, e) \<leftarrow> NAND_ScanBadBlock b e;
         let e = say ''  Kernel, Ramdisk Bad Block [%d]'' [word_of_int bad] e;
         let rest = sint (nTotalSize (Nand1 e) div nEraseSize (Nand1 e));
         let (nr, ps) = count_partitions 8 0 rest 0 (Nand1Partition e);
         Some (True, (set_nand (\<lambda>d. d\<lparr>nPartitionNR := nr\<rparr>) e)\<lparr>Nand1Partition := ps\<rparr>) } }"

definition NandFlash_Init :: "'h bus \<Rightarrow> 'h ez \<Rightarrow> (int \<times> 'h ez) option" where
  "NandFlash_Init b e = do { (_, e) \<leftarrow> NAND_DETECT b NAND_BASE (NAND_Par_Fixup e); Some (0, e) }"

section \<open>Whole partitions\<close>

text \<open>The progress bar; no caller passes 0 for \<open>max\<close>.\<close>

definition NandFlash_UpdateProgress :: "string \<Rightarrow> u32 \<Rightarrow> u32 \<Rightarrow> 'h ez \<Rightarrow> 'h ez" where
  "NandFlash_UpdateProgress title cur maxv e =
     (let pos = (progress_pos e + 1) AND 3;
          e = e\<lparr>progress_pos := pos\<rparr>;
          percent = (cur * 100) div maxv;
          i = ((percent * 50) + 50) div 100;
          e = say (title @ '': |%s%s'') [obj e ''bar'' + (64 - (i + 1)), obj e ''spaces'' + (127 - (50 - i + 1))] e;
          e = say ''%c'' [if percent = 100 then 124 else [92, 124, 47, 45] ! unat pos] e;
          e = say '' %4d%%'' [percent] e
      in if percent = 100 then say ''%s'' [obj e ''spaces'' + 47] e else e)"

text \<open>Erases \<open>n\<close> blocks from \<open>From\<close> on; \<open>loop\<close> counts them.\<close>

primrec erase_partition_loop :: "nat \<Rightarrow> int \<Rightarrow> int \<Rightarrow> int \<Rightarrow> bool \<Rightarrow> 'h bus \<Rightarrow> 'h ez \<Rightarrow> 'h ez option" where
  "erase_partition_loop 0 loop From MaxCount NoEraseBadBlock b e = Some e"
| "erase_partition_loop (Suc n) loop From MaxCount NoEraseBadBlock b e = do {
     let e = NandFlash_UpdateProgress ''    Erasing'' (word_of_int (loop + 1)) (word_of_int MaxCount) e;
     e \<leftarrow> (if NoEraseBadBlock then
             (if \<not> in_array From (nBadBlock (Nand1 e)) then None
              else if nBadBlock (Nand1 e) ! nat From \<noteq> bad_mark then do { (_, e) \<leftarrow> NAND_EraseBlock b From e; Some e }
              else Some e)
           else do { (_, e) \<leftarrow> NAND_EraseBlock b From e; Some e });
     erase_partition_loop n (loop + 1) (From + 1) MaxCount NoEraseBadBlock b e }"

definition Nand_ErasePartition :: "'h bus \<Rightarrow> int \<Rightarrow> bool \<Rightarrow> 'h ez \<Rightarrow> (bool \<times> 'h ez) option" where
  "Nand_ErasePartition b pnb NoEraseBadBlock e = do {
     P \<leftarrow> partition_of pnb e;
     e \<leftarrow> erase_partition_loop (nat (BlockCount P)) 0 (BaseBlock P) (BlockCount P) NoEraseBadBlock b e;
     Some (True, say ''    Erase : OK'' [] (NandFlash_UpdateProgress ''    Erasing'' 100 100 e)) }"

definition USE_PARTITION_MAX :: int where "USE_PARTITION_MAX = 3"

text \<open>Number of 512-byte pages of a size.\<close>

definition pages_of :: "int \<Rightarrow> int" where
  "pages_of sz = cdiv (wrap32 (sz + 511)) 512"

primrec program_pages :: "nat \<Rightarrow> int \<Rightarrow> int \<Rightarrow> u32 \<Rightarrow> int \<Rightarrow> 'h bus \<Rightarrow> 'h ez \<Rightarrow> 'h ez option" where
  "program_pages 0 page page_cnt pbuf pnb b e = Some e"
| "program_pages (Suc n) page page_cnt pbuf pnb b e = do {
     let e = (if crem page 128 = 0 then NandFlash_UpdateProgress ''    Writing'' (word_of_int (page + 1)) (word_of_int page_cnt) e else e);
     (_, e) \<leftarrow> NAND_WriteSector b pnb (page + 1) pbuf e;
     program_pages n (page + 1) page_cnt (pbuf + 512) pnb b e }"

definition Nand_ProgramPartition :: "'h bus \<Rightarrow> int \<Rightarrow> u32 \<Rightarrow> int \<Rightarrow> 'h ez \<Rightarrow> (int \<times> 'h ez) option" where
  "Nand_ProgramPartition b pnb src sz e =
     (if 0 > pnb \<or> pnb > USE_PARTITION_MAX then Some (-1, e)
      else do {
        let page_buff = obj e ''page_buff'';
        let e = with_mem (\<lambda>m. st32 m page_buff (word_of_int sz)) e;
        (_, e) \<leftarrow> NAND_WriteSector b pnb 0 page_buff e;
        e \<leftarrow> program_pages (nat (pages_of sz)) 0 (pages_of sz) src pnb b e;
        Some (sz, say ''    Write : OK'' [] (NandFlash_UpdateProgress ''    Writing'' 100 100 e)) })"

text \<open>The first of \<open>n\<close> words that differs, as the two addresses.\<close>

primrec diff_word :: "nat \<Rightarrow> mem \<Rightarrow> u32 \<Rightarrow> u32 \<Rightarrow> (u32 \<times> u32) option" where
  "diff_word 0 m a c = None"
| "diff_word (Suc n) m a c = (if ld32 m a \<noteq> ld32 m c then Some (a, c) else diff_word n m (a + 4) (c + 4))"

primrec verify_pages :: "nat \<Rightarrow> int \<Rightarrow> int \<Rightarrow> u32 \<Rightarrow> int \<Rightarrow> 'h bus \<Rightarrow> 'h ez \<Rightarrow> (bool \<times> 'h ez) option" where
  "verify_pages 0 page page_cnt cmp_src pnb b e =
     Some (True, say ''    Verify: OK'' [] (NandFlash_UpdateProgress ''    Verifing'' 100 100 e))"
| "verify_pages (Suc n) page page_cnt cmp_src pnb b e = do {
     let pbuf = obj e ''verify_pbuf'';
     let e = (if crem page 128 = 0 then NandFlash_UpdateProgress ''    Verifing'' (word_of_int (page + 1)) (word_of_int page_cnt) e else e);
     (_, e) \<leftarrow> NAND_ReadSector b pnb (page + 1) pbuf e;
     case diff_word 128 (e_mem e) cmp_src pbuf of
       Some (a, c) \<Rightarrow> Some (False, say ''Verify Error page-%d: %08x/%08x'' [word_of_int page, ld32 (e_mem e) a, ld32 (e_mem e) c] e)
     | None \<Rightarrow> verify_pages n (page + 1) page_cnt (cmp_src + 512) pnb b e }"

definition Nand_VerifyPartition :: "'h bus \<Rightarrow> int \<Rightarrow> u32 \<Rightarrow> int \<Rightarrow> 'h ez \<Rightarrow> (bool \<times> 'h ez) option" where
  "Nand_VerifyPartition b pnb src sz e = verify_pages (nat (pages_of sz)) 0 (pages_of sz) src pnb b e"

primrec read_pages :: "nat \<Rightarrow> int \<Rightarrow> u32 \<Rightarrow> int \<Rightarrow> 'h bus \<Rightarrow> 'h ez \<Rightarrow> 'h ez option" where
  "read_pages 0 page pbuf pnb b e = Some e"
| "read_pages (Suc n) page pbuf pnb b e = do {
     (_, e) \<leftarrow> NAND_ReadSector b pnb (page + 1) pbuf e;
     read_pages n (page + 1) (pbuf + 512) pnb b e }"

definition Nand_ReadPartition :: "'h bus \<Rightarrow> int \<Rightarrow> u32 \<Rightarrow> int \<Rightarrow> 'h ez \<Rightarrow> (int \<times> 'h ez) option" where
  "Nand_ReadPartition b pnb dst sz e = do {
     let page_buff = obj e ''page_buff'';
     (_, e) \<leftarrow> NAND_ReadSector b pnb 0 page_buff e;
     let stored = sint (ld32 (e_mem e) page_buff);
     let sz = (if sz > stored then stored else sz);
     P \<leftarrow> partition_of pnb e;
     let page_cnt = min (pages_of sz) (wrap32 (BlockCount P * 32));
     e \<leftarrow> read_pages (nat page_cnt) 0 dst pnb b e;
     Some (sz, e) }"

section \<open>Kernel and ramdisk images\<close>

text \<open>Erase, program, verify: the size, or -1 at the first step that fails.\<close>

definition copy_to_nand :: "'h bus \<Rightarrow> int \<Rightarrow> u32 \<Rightarrow> int \<Rightarrow> 'h ez \<Rightarrow> (int \<times> 'h ez) option" where
  "copy_to_nand b pnb src sz e = do {
     (ok, e) \<leftarrow> Nand_ErasePartition b pnb True e;
     if \<not> ok then Some (-1, e)
     else do {
       (n, e) \<leftarrow> Nand_ProgramPartition b pnb src sz e;
       if sz \<noteq> n then Some (-1, e)
       else do {
         (ok, e) \<leftarrow> Nand_VerifyPartition b pnb src sz e;
         if \<not> ok then Some (-1, e) else Some (sz, e) } } }"

definition CopyTo_NandFlash_Kernel :: "'h bus \<Rightarrow> u32 \<Rightarrow> int \<Rightarrow> 'h ez \<Rightarrow> (int \<times> 'h ez) option" where
  "CopyTo_NandFlash_Kernel b src sz e = copy_to_nand b PARTITION_NUM_KERNEL src sz e"

definition CopyTo_NandFlash_Ramdisk :: "'h bus \<Rightarrow> u32 \<Rightarrow> int \<Rightarrow> 'h ez \<Rightarrow> (int \<times> 'h ez) option" where
  "CopyTo_NandFlash_Ramdisk b src sz e = copy_to_nand b PARTITION_NUM_RAMDISK src sz e"

definition CopyTo_SDRAM_Kernel :: "'h bus \<Rightarrow> u32 \<Rightarrow> 'h ez \<Rightarrow> (int \<times> 'h ez) option" where
  "CopyTo_SDRAM_Kernel b dst e = do {
     P \<leftarrow> partition_of PARTITION_NUM_KERNEL e;
     let readcnt = wrap32 ((BlockCount P - 4) * 32 * 512);
     (_, e) \<leftarrow> Nand_ReadPartition b PARTITION_NUM_KERNEL dst readcnt e;
     Some (readcnt, e) }"

definition CopyTo_SDRAM_Ramdisk :: "'h bus \<Rightarrow> u32 \<Rightarrow> 'h ez \<Rightarrow> (int \<times> 'h ez) option" where
  "CopyTo_SDRAM_Ramdisk b dst e = do {
     P \<leftarrow> partition_of PARTITION_NUM_RAMDISK e;
     let readcnt = wrap32 ((BlockCount P - 12) * 32 * 512);
     (_, e) \<leftarrow> Nand_ReadPartition b PARTITION_NUM_RAMDISK dst readcnt e;
     Some (readcnt, e) }"

section \<open>The table of virtual blocks\<close>

lemma nand_frame [simp]:
  "Nand1 (wr b r v e) = Nand1 e" "Nand1Partition (wr b r v e) = Nand1Partition e"
  "Nand1 (dummy_read b r e) = Nand1 e" "Nand1Partition (dummy_read b r e) = Nand1Partition e"
  "Nand1 (set_nand f e) = f (Nand1 e)" "Nand1Partition (set_nand f e) = Nand1Partition e"
  "Nand1 (send_row b a e) = Nand1 e" "Nand1Partition (send_row b a e) = Nand1Partition e"
  "Nand1 (NAND_AddressSetupWait b e) = Nand1 e" "Nand1Partition (NAND_AddressSetupWait b e) = Nand1Partition e"
  by (simp_all add: wr_def dummy_read_def rd_def set_nand_def send_row_def NAND_AddressSetupWait_def Let_def split: prod.splits)

lemma nand_byte_frame [simp]:
  "Nand1 (snd (nand_byte b e)) = Nand1 e" "Nand1Partition (snd (nand_byte b e)) = Nand1Partition e"
  by (simp_all add: nand_byte_def rd_def split: prod.splits)

text \<open>One probe marks its block good or bad and leaves the rest of the NAND data alone.\<close>

lemma check_bad_block:
  assumes "i < length (nBadBlock (Nand1 e))"
  shows "\<exists>ok e'. NAND_CheckBadBlock b (int i) e = Some (ok, e') \<and>
    Nand1 e' = (Nand1 e)\<lparr>nBadBlock := (nBadBlock (Nand1 e))[i := if ok then good_mark else bad_mark]\<rparr> \<and>
    Nand1Partition e' = Nand1Partition e"
proof -
  have "in_array (int i) (nBadBlock (Nand1 e))" using assms by (simp add: in_array_def)
  then show ?thesis
    unfolding NAND_CheckBadBlock_def Let_def case_prod_beta by simp blast
qed

text \<open>The scan of the blocks from \<open>i\<close> on: the marks \<open>ms\<close> are stored, the bad ones counted.\<close>

lemma scan_blocks_marks:
  assumes "i + n \<le> length (nBadBlock (Nand1 e))"
  shows "\<exists>ms e'. scan_blocks n (int i) b e = Some e' \<and> length ms = n \<and> set ms \<subseteq> {good_mark, bad_mark} \<and>
    Nand1 e' = (Nand1 e)\<lparr>nBadBlock := take i (nBadBlock (Nand1 e)) @ ms @ drop (i + n) (nBadBlock (Nand1 e)),
      nBadBlockCount := nBadBlockCount (Nand1 e) + int (length (filter (\<lambda>x. x = bad_mark) ms))\<rparr> \<and>
    Nand1Partition e' = Nand1Partition e"
  using assms
proof (induction n arbitrary: i e)
  case 0
  then show ?case by (intro exI [of _ "[]"] exI [of _ e]) simp
next
  case (Suc n)
  let ?B = "nBadBlock (Nand1 e)"
  obtain ok e1 where c: "NAND_CheckBadBlock b (int i) e = Some (ok, e1)"
    and n1: "Nand1 e1 = (Nand1 e)\<lparr>nBadBlock := ?B[i := if ok then good_mark else bad_mark]\<rparr>"
    and p1: "Nand1Partition e1 = Nand1Partition e"
    using check_bad_block [of i e b] Suc.prems by auto
  define e2 where "e2 = (if ok then e1 else set_nand (\<lambda>d. d\<lparr>nBadBlockCount := nBadBlockCount d + 1\<rparr>) e1)"
  have B2: "nBadBlock (Nand1 e2) = ?B[i := if ok then good_mark else bad_mark]" by (simp add: e2_def n1)
  with Suc.prems obtain ms e' where s: "scan_blocks n (int (Suc i)) b e2 = Some e'" "length ms = n"
      "set ms \<subseteq> {good_mark, bad_mark}"
    and n': "Nand1 e' = (Nand1 e2)\<lparr>nBadBlock := take (Suc i) (nBadBlock (Nand1 e2)) @ ms @ drop (Suc i + n) (nBadBlock (Nand1 e2)),
      nBadBlockCount := nBadBlockCount (Nand1 e2) + int (length (filter (\<lambda>x. x = bad_mark) ms))\<rparr>"
    and p': "Nand1Partition e' = Nand1Partition e2"
    using Suc.IH [of "Suc i" e2] by auto
  let ?m = "if ok then good_mark else bad_mark"
  show ?case
  proof (intro exI conjI)
    show "scan_blocks (Suc n) (int i) b e = Some e'"
      using c s(1) by (simp add: e2_def add.commute)
    show "length (?m # ms) = Suc n" "set (?m # ms) \<subseteq> {good_mark, bad_mark}" using s(2,3) by auto
    show "Nand1Partition e' = Nand1Partition e" by (simp add: p' e2_def p1)
    show "Nand1 e' = (Nand1 e)\<lparr>nBadBlock := take i ?B @ (?m # ms) @ drop (i + Suc n) ?B,
      nBadBlockCount := nBadBlockCount (Nand1 e) + int (length (filter (\<lambda>x. x = bad_mark) (?m # ms)))\<rparr>"
      using Suc.prems by (simp add: n' B2 take_Suc_conv_app_nth) (simp add: e2_def n1 good_mark_def bad_mark_def)
  qed
qed

text \<open>The blocks without a bad mark, in order, go to the next free entries of the table.\<close>

definition good_blocks :: "u8 list \<Rightarrow> nat \<Rightarrow> nat \<Rightarrow> nat list" where
  "good_blocks B i n = filter (\<lambda>k. B ! k \<noteq> bad_mark) [i..<i + n]"

lemma good_blocks_simps:
  "good_blocks B i 0 = []"
  "good_blocks B i (Suc n) = (if B ! i \<noteq> bad_mark then [i] else []) @ good_blocks B (Suc i) n"
proof -
  have "[i..<i + Suc n] = i # [Suc i..<Suc i + n]" by (subst upt_conv_Cons) simp_all
  then show "good_blocks B i (Suc n) = (if B ! i \<noteq> bad_mark then [i] else []) @ good_blocks B (Suc i) n"
    unfolding good_blocks_def by simp
qed (simp add: good_blocks_def)

lemma length_good_blocks: "length (good_blocks B i n) \<le> n"
  unfolding good_blocks_def by (rule order_trans [OF length_filter_le]) simp

lemma fill_virtual_good:
  assumes "i + n \<le> scan" and "v + n \<le> length (nVirBlock d)"
  shows "fill_virtual n (int i) (int i) (int v) (int scan) d =
    Some (d\<lparr>nVirBlock := take v (nVirBlock d) @ map of_nat (good_blocks (nBadBlock d) i n) @
      drop (v + length (good_blocks (nBadBlock d) i n)) (nVirBlock d)\<rparr>)"
  using assms
proof (induction n arbitrary: i v d)
  case 0
  then show ?case by (simp add: good_blocks_simps)
next
  case (Suc n)
  note IH = Suc.IH [of "Suc i"]
  show ?case
  proof (cases "nBadBlock d ! i = bad_mark")
    case True
    with IH [of v d] Suc.prems show ?thesis by (simp add: good_blocks_simps add.commute)
  next
    case False
    have "in_array (int v) (nVirBlock d)" using Suc.prems by (simp add: in_array_def)
    with False IH [of "Suc v" "d\<lparr>nVirBlock := (nVirBlock d)[v := of_nat i]\<rparr>"] Suc.prems show ?thesis
      by (simp add: good_blocks_simps add.commute take_Suc_conv_app_nth)
  qed
qed

text \<open>
  The bad block scan on any bus: it returns, marks every block it probes good or bad as it found it, returns the number of bad
  ones, and the table of virtual blocks then lists the good blocks in order, its other entries as they
  were. What it finds on a chip is the matter of \<open>Boot_Nand_Store\<close>.
\<close>

lemma nand_scan_maps_good_blocks:
  assumes "USED_BOOT_BLOCK_COUNT e = int scan"
    and "scan \<le> length (nBadBlock (Nand1 e))" and "scan \<le> length (nVirBlock (Nand1 e))"
  shows "\<exists>e'. NAND_ScanBadBlock b e =
      Some (int (scan - length (good_blocks (nBadBlock (Nand1 e')) 0 scan)), e') \<and>
    (\<forall>k < scan. nBadBlock (Nand1 e') ! k \<in> {good_mark, bad_mark}) \<and>
    nVirBlock (Nand1 e') = map of_nat (good_blocks (nBadBlock (Nand1 e')) 0 scan) @
      drop (length (good_blocks (nBadBlock (Nand1 e')) 0 scan)) (nVirBlock (Nand1 e))"
proof -
  let ?e = "set_nand (\<lambda>d. d\<lparr>nBadBlockCount := 0\<rparr>) e"
  obtain ms e1 where s: "scan_blocks scan (int 0) b ?e = Some e1" "length ms = scan" "set ms \<subseteq> {good_mark, bad_mark}"
    and n1: "Nand1 e1 = (Nand1 ?e)\<lparr>nBadBlock := take 0 (nBadBlock (Nand1 ?e)) @ ms @ drop (0 + scan) (nBadBlock (Nand1 ?e)),
      nBadBlockCount := nBadBlockCount (Nand1 ?e) + int (length (filter (\<lambda>x. x = bad_mark) ms))\<rparr>"
    using scan_blocks_marks [of 0 scan ?e b] assms(2) by auto
  let ?B = "nBadBlock (Nand1 e1)"
  let ?G = "good_blocks ?B 0 scan"
  have B: "k < scan \<Longrightarrow> ?B ! k = ms ! k" for k using s(2) by (simp add: n1 nth_append)
  have "?G = filter (\<lambda>k. ms ! k \<noteq> bad_mark) [0..<scan]"
    unfolding good_blocks_def by (rule filter_cong) (use B in auto)
  then have "length ?G = length (filter (\<lambda>x. x \<noteq> bad_mark) ms)"
    using s(2) by (simp add: length_filter_conv_card) (metis (no_types, lifting) atLeastLessThan_iff le0 nth_upt add_0 length_upt diff_zero)
  moreover have "length (filter (\<lambda>x. x = bad_mark) ms) + length (filter (\<lambda>x. x \<noteq> bad_mark) ms) = scan"
    using s(2) sum_length_filter_compl [of "\<lambda>x. x = bad_mark" ms] by simp
  ultimately have cnt: "nBadBlockCount (Nand1 e1) = int (scan - length ?G)" by (simp add: n1)
  have "fill_virtual scan (int 0) (int 0) (int 0) (int scan) (Nand1 e1) =
      Some ((Nand1 e1)\<lparr>nVirBlock := take 0 (nVirBlock (Nand1 e1)) @ map of_nat ?G @ drop (0 + length ?G) (nVirBlock (Nand1 e1))\<rparr>)"
    by (rule fill_virtual_good) (use assms(3) n1 in simp_all)
  then have "NAND_ScanBadBlock b e = Some (int (scan - length ?G), e1\<lparr>Nand1 := (Nand1 e1)\<lparr>nVirBlock :=
      map of_nat ?G @ drop (length ?G) (nVirBlock (Nand1 e))\<rparr>\<rparr>)"
    using s(1) cnt by (simp add: NAND_ScanBadBlock_def assms(1)) (simp add: n1)
  then show ?thesis
    using B s(2,3) by (auto intro!: exI dest: nth_mem)
qed

text \<open>Where the table lists good blocks, a sector is a page of the block listed for it, if the partition has that block.\<close>

lemma sector_page_eq:
  assumes "nVirBlock (Nand1 e) = map of_nat G @ R" and "\<And>g. g \<in> set G \<Longrightarrow> g < 65535"
    and "partition_of p e = Some P" and "p < nPartitionNR (Nand1 e)"
    and "0 \<le> BaseBlock P" and "0 \<le> s" and "nat (BaseBlock P + s div 32) < length G"
  shows "sector_page p s e =
    (let g = int (G ! nat (BaseBlock P + s div 32)) in
     Some (if BaseBlock P \<le> g \<and> g < BaseBlock P + BlockCount P then Some (g * 32 + s mod 32) else None))"
proof -
  let ?r = "nat (BaseBlock P + s div 32)"
  have r: "0 \<le> BaseBlock P + s div 32" using assms(5,6) by simp
  have g: "G ! ?r < 65535" using assms(2,7) by simp
  have d: "cdiv s 32 = s div 32" "crem s 32 = s mod 32" using assms(6) by simp_all
  have V: "uint (nVirBlock (Nand1 e) ! ?r) = int (G ! ?r)"
    using assms(1,7) g by (simp add: nth_append uint_nat unat_of_nat take_bit_nat_eq_self)
  have "in_array (BaseBlock P + s div 32) (nVirBlock (Nand1 e))"
    using r assms(1,7) by (simp add: in_array_def)
  then have "NAND_GetPageFromSector p s e = Some (int (G ! ?r) * 32 + s mod 32)"
    using assms(3,4) g V by (simp add: NAND_GetPageFromSector_def d Let_def)
  moreover have "cdiv (int (G ! ?r) * 32 + s mod 32) 32 = int (G ! ?r)"
    by simp
  ultimately show ?thesis
    using assms(3) by (simp add: sector_page_def Let_def not_less)
qed

text \<open>
  With the table of virtual blocks as the scan leaves it, a sector whose virtual block the table lists is a
  page of a good block inside its partition or refused, and different such sectors of a partition are
  different pages. (The entries behind the good blocks are as they were, see \<open>fill_virtual_good\<close>: sectors there share block 0.)
\<close>

lemma nand_sectors_separate:
  assumes "nVirBlock (Nand1 e) = map of_nat (good_blocks B 0 scan) @ R" and "scan \<le> 8192"
    and "partition_of p e = Some P" and "p < nPartitionNR (Nand1 e)" and "0 \<le> BaseBlock P"
    and "0 \<le> s" and "nat (BaseBlock P + s div 32) < length (good_blocks B 0 scan)"
    and "0 \<le> t" and "nat (BaseBlock P + t div 32) < length (good_blocks B 0 scan)"
    and "sector_page p s e = Some (Some pg)"
  shows "B ! nat (pg div 32) \<noteq> bad_mark \<and> BaseBlock P \<le> pg div 32 \<and> pg div 32 < BaseBlock P + BlockCount P \<and>
    (sector_page p t e = Some (Some pg) \<longrightarrow> s = t)"
proof -
  let ?G = "good_blocks B 0 scan"
  have G: "distinct ?G" "g \<in> set ?G \<Longrightarrow> g < scan \<and> B ! g \<noteq> bad_mark" for g
    by (auto simp: good_blocks_def)
  have small: "g \<in> set ?G \<Longrightarrow> g < 65535" for g using G(2) [of g] assms(2) by simp
  note page = sector_page_eq [OF assms(1) small assms(3,4,5)]
  have in_part: "pg = int (?G ! nat (BaseBlock P + u div 32)) * 32 + u mod 32 \<and>
      BaseBlock P \<le> pg div 32 \<and> pg div 32 < BaseBlock P + BlockCount P \<and> nat (pg div 32) \<in> set ?G"
    if "0 \<le> u" "nat (BaseBlock P + u div 32) < length ?G" "sector_page p u e = Some (Some pg)" for u
    using page [OF _ that(1,2)] that by (auto simp: Let_def split: if_splits)
  have "s = t" if t: "sector_page p t e = Some (Some pg)"
  proof -
    have "?G ! nat (BaseBlock P + s div 32) = ?G ! nat (BaseBlock P + t div 32) \<and> s mod 32 = t mod 32"
      using in_part [OF assms(6,7,10)] in_part [OF assms(8,9) t]
      by (metis add.commute mod_div_trivial mod_mod_trivial mod_mult_self1 nonzero_mult_div_cancel_right
          of_nat_eq_iff div_mult_self1 zero_neq_numeral add_0_right)
    then have "nat (BaseBlock P + s div 32) = nat (BaseBlock P + t div 32)" "s mod 32 = t mod 32"
      using G(1) assms(7,9) by (simp_all add: nth_eq_iff_index_eq)
    moreover have "0 \<le> BaseBlock P + s div 32" "0 \<le> BaseBlock P + t div 32" using assms(5,6,8) by simp_all
    ultimately have "s div 32 = t div 32" using eq_nat_nat_iff by fastforce
    then show ?thesis using \<open>s mod 32 = t mod 32\<close> by (metis div_mult_mod_eq)
  qed
  then show ?thesis using in_part [OF assms(6,7,10)] G(2) by auto
qed

end
