(* ===== verification/Boot_Tftp.thy ===== *)
theory Boot_Tftp
  imports Boot_Ether Boot_Nand
begin

text \<open>
  Loading over the network: \<open>tftp_cmd.c\<close>. The packets are the local objects \<open>TxBuff\<close>,
  \<open>RxBuff\<close> and \<open>arp_pk\<close>; a file name is the address of a string.
\<close>

definition DEFAULT_RAM_WORK_START :: u32 where "DEFAULT_RAM_WORK_START = 0xA1000000"
definition DEFAULT_RAM_KERNEL_START :: u32 where "DEFAULT_RAM_KERNEL_START = 0xA0008000"
definition DEFAULT_RAM_RAMDISK_START :: u32 where "DEFAULT_RAM_RAMDISK_START = 0xA0800000"

section \<open>Packets\<close>

definition SendTFTPPacket :: "'h bus \<Rightarrow> u32 \<Rightarrow> u16 \<Rightarrow> u32 \<Rightarrow> 'h ez \<Rightarrow> 'h ez option" where
  "SendTFTPPacket b p HostPortNumber tftpsize e = do {
     let e = with_mem (SetUdpHeader (p + 34) HostPortNumber TFTP_PORT_CLIENT (ucast tftpsize)) e;
     let e = SetIPHeaderByUDP (p + 14) (GetHostIP e) (GetLocalIP e) (ucast (UDP_SIZE + tftpsize)) e;
     let e = with_mem (SetEthernetIPHeader p (CS8900_GetMacAddress e) (GetHostMacAddress e)) e;
     (_, e) \<leftarrow> CS8900_Transmit b p (ETH_SIZE + IP_SIZE + UDP_SIZE + tftpsize) e;
     Some e }"

datatype tftp_state = TFTP_NONE | TFTP_STATE_DATA_OK | TFTP_STATE_FAILURE | TFTP_STATE_END

text \<open>The option acknowledgement is printed up to its fourth zero character, 64 characters at most.\<close>

primrec say_options :: "nat \<Rightarrow> nat \<Rightarrow> u32 \<Rightarrow> 'h ez \<Rightarrow> 'h ez" where
  "say_options 0 opcnt p e = e"
| "say_options (Suc n) opcnt p e =
     (if e_mem e p = 0 then
        (let opcnt = opcnt + 1 in if opcnt = 4 then e else say_options n opcnt (p + 1) (say '' '' [] e))
      else say_options n opcnt (p + 1) (say ''%c'' [ucast (e_mem e p)] e))"

text \<open>A data block: its number, and the destination of its data.\<close>

definition block_number :: "mem \<Rightarrow> u32 \<Rightarrow> u16" where
  "block_number m p = ucast (net16 m (p + 44))"

definition block_dest :: "u32 \<Rightarrow> u16 \<Rightarrow> u32" where
  "block_dest LoadAddr n = LoadAddr + (ucast n - 1) * 512"

definition TftpResiveHandler :: "u32 \<Rightarrow> u32 \<Rightarrow> u32 \<Rightarrow> 'h ez \<Rightarrow> tftp_state \<times> 'h ez" where
  "TftpResiveHandler p len LoadAddr e =
     (let DataSize = len - TFTP_PACKET_SIZE - 2;
          Opcode = net16 (e_mem e) (p + 42)
      in if Opcode = TFTP_ERROR then
           (TFTP_STATE_FAILURE, say ''TFTP Error : [ %d ] %s '' [net16 (e_mem e) (p + 44), p + 46] e)
         else if Opcode = TFTP_DATA then
           (let n = block_number (e_mem e) p in
            if n = 0 then (TFTP_STATE_FAILURE, say ''TFTP Error : Block Number Zero'' [] e)
            else
              (let e = (if TFTPLastBlockNumber e < n then
                          (let e = e\<lparr>TFTPLastBlockNumber := n\<rparr>;
                               e = with_mem (\<lambda>m. memcpy (unat DataSize) m (block_dest LoadAddr n) (p + 46)) e
                           in e\<lparr>TFTPResiveTotalSize := TFTPResiveTotalSize e + DataSize\<rparr>)
                        else e)
               in (if sint DataSize < 512 then TFTP_STATE_END else TFTP_STATE_DATA_OK, e)))
         else if Opcode = TFTP_OACK then
           (TFTP_STATE_DATA_OK, say '']'' [] (say_options 64 0 (p + 44) (say ''OPTION ['' [] e)))
         else (TFTP_NONE, e))"

text \<open>The answer to an ARP request that arrives during the transfer.\<close>

definition answer_arp :: "'h bus \<Rightarrow> u32 \<Rightarrow> 'h ez \<Rightarrow> 'h ez option" where
  "answer_arp b p e = do {
     let q = obj e ''arp_pk'';
     let local_ip = GetLocalIP e;
     let host_ip = GetHostIP e;
     let e = with_mem (\<lambda>m. memset 42 m q 0) e;
     let e = with_mem (\<lambda>m. put16 (put16 m (q + 14) 1) (q + 16) PROT_IP) e;
     let e = with_mem (\<lambda>m. m(q + 18 := 6, q + 19 := 4)) e;
     let e = with_mem (\<lambda>m. put16 (put16 m (q + 20) ARPOP_REPLY) (q + 14) 1) e;
     let e = with_mem (\<lambda>m. memcpy 6 m (q + 22) (CS8900_GetMacAddress e)) e;
     let e = with_mem (\<lambda>m. memcpy 6 m (q + 32) (p + 22)) e;
     let e = with_mem (\<lambda>m. st32 (st32 m (q + 28) local_ip) (q + 38) host_ip) e;
     let e = with_mem (\<lambda>m. memcpy 6 m q (p + 22)) e;
     let e = with_mem (\<lambda>m. memcpy 6 m (q + 6) (CS8900_GetMacAddress e)) e;
     let e = with_mem (\<lambda>m. put16 m (q + 12) PROT_ARP) e;
     (_, e) \<leftarrow> CS8900_Transmit b q ARP_PACKET_SIZE e;
     Some e }"

text \<open>Acknowledges the last block.\<close>

definition send_ack :: "'h bus \<Rightarrow> 'h ez \<Rightarrow> 'h ez option" where
  "send_ack b e = do {
     let p = obj e ''TxBuff'';
     let (n, e) = SetTFTP_ACKDATAPacket p (TFTPLastBlockNumber e) e;
     SendTFTPPacket b p (TFTPHostPortNumber e) n e }"

section \<open>The transfer\<close>

text \<open>
  One poll that brought a frame of \<open>n\<close> bytes: \<open>Inl r\<close> ends the transfer, \<open>Inr True\<close> is a
  \<open>continue\<close>, \<open>Inr False\<close> goes on to the test of the time.
\<close>

definition tftp_frame :: "'h bus \<Rightarrow> u32 \<Rightarrow> u32 \<Rightarrow> u32 \<Rightarrow> 'h ez \<Rightarrow> ((bool + bool) \<times> 'h ez) option" where
  "tftp_frame b n mLocalIP LoadAddr e = do {
     let p = obj e ''RxBuff'';
     let Protocol = GetProtocolFromRxPacket (e_mem e) p;
     if Protocol = PROT_ARP then do {
       e \<leftarrow> (if net16 (e_mem e) (p + 20) = ARPOP_REQUEST then answer_arp b p e else Some e);
       Some (Inr True, e) }
     else if Protocol \<noteq> PROT_IP then Some (Inr True, e)
     else if \<not> CheckTftpRxPacket (e_mem e) p n mLocalIP then Some (Inr False, e)
     else do {
       let e = e\<lparr>TFTPHostPortNumber := GetHostPortNumberFromTftpPacket (e_mem e) p\<rparr>;
       let (st, e) = TftpResiveHandler p n LoadAddr e;
       if st = TFTP_STATE_FAILURE then Some (Inr False, say ''FAILURE BREAK'' [] e)
       else if st = TFTP_STATE_DATA_OK then do {
         e \<leftarrow> send_ack b e;
         let e = (if TFTPLastBlockNumber e mod 10 = 0 then say ''Size:%d KB'' [TFTPResiveTotalSize e div 1024] e else e);
         Some (Inr True, ReloadTimer b 0 5000 e) }
       else if st = TFTP_STATE_END then do {
         e \<leftarrow> send_ack b e;
         Some (Inl True, FreeTimer b 0 (say ''ALL DATA RESIVE OK [ %d bytes ]'' [TFTPResiveTotalSize e] e)) }
       else Some (Inr False, e) } }"

partial_function (option) tftp_loop :: "'h bus \<Rightarrow> u32 \<Rightarrow> u32 \<Rightarrow> 'h ez \<Rightarrow> (bool \<times> 'h ez) option" where
  "tftp_loop b mLocalIP LoadAddr e = do {
     let (n, e) = receive b e;
     (r, e) \<leftarrow> (if n \<noteq> 0 then tftp_frame b n mLocalIP LoadAddr e else Some (Inr False, e));
     case r of
       Inl ok \<Rightarrow> Some (ok, e)
     | Inr again \<Rightarrow>
         (if again then tftp_loop b mLocalIP LoadAddr e
          else
            (let (t, e) = TimeOverflow b 0 e in
             if t \<noteq> 0 then Some (False, FreeTimer b 0 (say ''Time Overflow'' [] e))
             else tftp_loop b mLocalIP LoadAddr e)) }"

text \<open>An address as it is printed, through \<open>SWAP32\<close>.\<close>

definition say_ip :: "string \<Rightarrow> u32 \<Rightarrow> 'h ez \<Rightarrow> 'h ez" where
  "say_ip what ip e =
     (let a = SWAP32 ip in
      say (what @ '' IP : [%d.%d.%d.%d]'')
        [drop_bit 24 a AND 0xFF, drop_bit 16 a AND 0xFF, drop_bit 8 a AND 0xFF, a AND 0xFF] e)"

definition TftpProcess :: "'h bus \<Rightarrow> u32 \<Rightarrow> u32 \<Rightarrow> u32 \<Rightarrow> u32 \<Rightarrow> 'h ez \<Rightarrow> (bool \<times> 'h ez) option" where
  "TftpProcess b mHostIP mLocalIP LoadAddr FileName e = do {
     (ok, e) \<leftarrow> AutoRebuildNetworkInfo b e;
     if \<not> ok then Some (False, say ''- Fail Network Infomation'' [] e)
     else do {
       let e = say_ip ''LOCAL'' mLocalIP (say_ip ''HOST '' mHostIP e);
       let e = say ''Resive Address  : %04X-%04X'' [drop_bit 16 LoadAddr AND 0xFFFF, LoadAddr AND 0xFFFF] e;
       let e = say ''TFTP Request Send'' [] e;
       let p = obj e ''TxBuff'';
       let e = with_mem (\<lambda>m. memset 1500 m p 0) e;
       (n, e) \<leftarrow> SetTFTP_RRQPacket p FileName e;
       e \<leftarrow> SendTFTPPacket b p TFTP_PORT_HOST n e;
       let e = e\<lparr>TFTPLastBlockNumber := 0, TFTPResiveTotalSize := 0\<rparr>;
       tftp_loop b mLocalIP LoadAddr (ReloadTimer b 0 5000 e) } }"

section \<open>Commands\<close>

definition load_file :: "'h bus \<Rightarrow> u32 \<Rightarrow> 'h ez \<Rightarrow> (bool \<times> 'h ez) option" where
  "load_file b FileName e = TftpProcess b (GetHostIP e) (GetLocalIP e) DEFAULT_RAM_WORK_START FileName e"

text \<open>Copies what was received from the work area.\<close>

definition take_received :: "u32 \<Rightarrow> 'h ez \<Rightarrow> 'h ez" where
  "take_received dest e = with_mem (\<lambda>m. memcpy (unat (TFTPResiveTotalSize e)) m dest DEFAULT_RAM_WORK_START) e"

text \<open>\<open>argv[0][1]\<close> tells flash (F) from memory.\<close>

definition to_flash :: "u32 list \<Rightarrow> 'h ez \<Rightarrow> bool" where
  "to_flash argv e \<longleftrightarrow> e_mem e (argv ! 0 + 1) = 70"

definition Tftp :: "'h bus \<Rightarrow> u32 list \<Rightarrow> 'h ez \<Rightarrow> (int \<times> 'h ez) option" where
  "Tftp b argv e =
     (let e = say ''tftp Command'' [] e in
      if length argv < 3 then Some (-1, say ''Argument Count Error!'' [] e)
      else do {
        (To, _) \<leftarrow> strtoul (e_mem e) (argv ! 1) 0;
        (ok, e) \<leftarrow> load_file b (argv ! 2) e;
        Some (0, if \<not> ok then e else if to_flash argv e then say ''(not done yet)'' [] e else take_received To e) })"

text \<open>The file name: the directory of the configuration and the name at \<open>off\<close>.\<close>

definition file_name :: "u32 \<Rightarrow> 'h ez \<Rightarrow> 'h ez option" where
  "file_name off e = do {
     let f = obj e ''FileName'';
     e \<leftarrow> with_mem_opt (\<lambda>m. strcpy m f (cfg_at O_TFTP_Directory e)) e;
     e \<leftarrow> with_mem_opt (\<lambda>m. strcat m f (cfg_at off e)) e;
     Some (say ''Receive %s'' [f] e) }"

definition Tftp_FlashBoot :: "'h bus \<Rightarrow> 'h ez \<Rightarrow> (int \<times> 'h ez) option" where
  "Tftp_FlashBoot b e = do {
     e \<leftarrow> file_name O_TFTP_LoaderFileName e;
     (ok, e) \<leftarrow> load_file b (obj e ''FileName'') e;
     if ok then do {
       (_, e) \<leftarrow> CopyTo_BootFlashEx b DEFAULT_FLASH_BOOT DEFAULT_RAM_WORK_START (sint (TFTPResiveTotalSize e)) True e;
       Some (0, e) }
     else Some (0, e) }"

definition Tftp_Kernel :: "'h bus \<Rightarrow> u32 list \<Rightarrow> 'h ez \<Rightarrow> (int \<times> 'h ez) option" where
  "Tftp_Kernel b argv e = do {
     e \<leftarrow> file_name O_TFTP_zImageFileName e;
     (ok, e) \<leftarrow> load_file b (obj e ''FileName'') e;
     if \<not> ok then Some (0, e)
     else if to_flash argv e then do {
       (_, e) \<leftarrow> CopyTo_NandFlash_Kernel b DEFAULT_RAM_WORK_START (sint (TFTPResiveTotalSize e)) e;
       Some (0, e) }
     else Some (0, take_received DEFAULT_RAM_KERNEL_START e) }"

definition Tftp_RamDisk :: "'h bus \<Rightarrow> u32 list \<Rightarrow> 'h ez \<Rightarrow> (int \<times> 'h ez) option" where
  "Tftp_RamDisk b argv e = do {
     e \<leftarrow> file_name O_TFTP_RamDiskFileName e;
     (ok, e) \<leftarrow> load_file b (obj e ''FileName'') e;
     if \<not> ok then Some (0, e)
     else if to_flash argv e then do {
       (_, e) \<leftarrow> CopyTo_NandFlash_Ramdisk b DEFAULT_RAM_WORK_START (sint (TFTPResiveTotalSize e)) e;
       Some (0, e) }
     else Some (0, take_received DEFAULT_RAM_RAMDISK_START e) }"

section \<open>Receiving a content\<close>

lemma swap_bytes:
  "ucast (SWAP16 (ucast (ucast (ucast (drop_bit 8 n) :: u8) OR push_bit 8 (ucast (ucast n :: u8)) :: u16))) = n" for n :: u16
proof -
  have ff: "(0xFF :: u32) = mask 8" by (simp add: mask_eq_exp_minus_1)
  show ?thesis
    unfolding SWAP16_def ff
    by (rule bit_word_eqI)
      (auto simp: bit_or_iff bit_and_iff bit_push_bit_iff bit_drop_bit_eq bit_ucast_iff bit_mask_iff bit_imp_le_length
        not_le not_less dest: bit_imp_le_length)
qed

text \<open>
  A data frame as the server sends it: any 42 header bytes, the operation code, the block number,
  the data. The \<open>n\<close>-th block of a file has 512 bytes, the last one fewer.
\<close>

definition data_frame :: "u8 list \<Rightarrow> u16 \<Rightarrow> u8 list \<Rightarrow> u8 list" where
  "data_frame hdr n d = hdr @ [0, 3, ucast (drop_bit 8 n), ucast n] @ d"

definition file_block :: "u8 list \<Rightarrow> nat \<Rightarrow> u8 list" where
  "file_block content n = take 512 (drop (512 * (n - 1)) content)"

definition last_block :: "u8 list \<Rightarrow> nat" where
  "last_block content = length content div 512 + 1"

text \<open>The frame arrives in the buffer \<open>p\<close> and is handled.\<close>

definition receive_block :: "u32 \<Rightarrow> u32 \<Rightarrow> u8 list \<Rightarrow> u8 list \<times> nat \<Rightarrow> 'h ez \<Rightarrow> tftp_state \<times> 'h ez" where
  "receive_block p LoadAddr content f e =
     (let fr = data_frame (fst f) (of_nat (snd f)) (file_block content (snd f)) in
      TftpResiveHandler p (of_nat (length fr)) LoadAddr (with_mem (\<lambda>m. write_bytes m p fr) e))"

primrec receive_blocks :: "u32 \<Rightarrow> u32 \<Rightarrow> u8 list \<Rightarrow> (u8 list \<times> nat) list \<Rightarrow> 'h ez \<Rightarrow> tftp_state list \<times> 'h ez" where
  "receive_blocks p LoadAddr content [] e = ([], e)"
| "receive_blocks p LoadAddr content (f # fs) e =
     (let (st, e) = receive_block p LoadAddr content f e; (sts, e) = receive_blocks p LoadAddr content fs e in (st # sts, e))"

text \<open>Block numbers in step: the next one, or one that was sent before, whatever was lost or sent twice.\<close>

primrec in_step :: "nat \<Rightarrow> nat list \<Rightarrow> bool" where
  "in_step k [] \<longleftrightarrow> True"
| "in_step k (n # ns) \<longleftrightarrow> 1 \<le> n \<and> n \<le> k + 1 \<and> in_step (max k n) ns"

definition received :: "u32 \<Rightarrow> u8 list \<Rightarrow> nat \<Rightarrow> 'h ez \<Rightarrow> bool" where
  "received LoadAddr content k e \<longleftrightarrow> k \<le> last_block content \<and>
     TFTPLastBlockNumber e = of_nat k \<and>
     TFTPResiveTotalSize e = of_nat (min (512 * k) (length content)) \<and>
     read_bytes (e_mem e) LoadAddr (min (512 * k) (length content)) = take (512 * k) content"

lemma length_file_block: "length (file_block content n) = min 512 (length content - 512 * (n - 1))"
  by (simp add: file_block_def)

lemma file_block_short: "1 \<le> n \<Longrightarrow> n \<le> last_block content \<Longrightarrow> length (file_block content n) < 512 \<longleftrightarrow> n = last_block content"
  unfolding length_file_block last_block_def by (auto simp: min_def; arith)

lemma take_block: "take (512 * Suc k) content = take (512 * k) content @ file_block content (Suc k)"
proof -
  have "512 * Suc k = 512 * k + 512" by simp
  then show ?thesis by (simp only: List.take_add file_block_def diff_Suc_1)
qed

lemma frame_fields:
  fixes m :: mem and p :: u32 and n :: u16
  assumes "length hdr = 42" "length d \<le> 512"
  defines "m' \<equiv> write_bytes m p (data_frame hdr n d)"
  shows "net16 m' (p + 42) = TFTP_DATA" and "block_number m' p = n"
    and "read_bytes m' (p + 46) (length d) = d"
proof -
  have len: "length (data_frame hdr n d) \<le> 2 ^ 32" using assms by (simp add: data_frame_def)
  have nth: "m' (p + of_nat i) = data_frame hdr n d ! i" if "i < 46 + length d" for i
    unfolding m'_def by (rule write_bytes_nth) (use that assms len in \<open>simp_all add: data_frame_def\<close>)
  have b: "m' (p + 42) = 0" "m' (p + 43) = 3" "m' (p + 44) = ucast (drop_bit 8 n)" "m' (p + 45) = ucast n"
    using nth [of 42] nth [of 43] nth [of 44] nth [of 45] assms(1) by (simp_all add: data_frame_def nth_append)
  show "net16 m' (p + 42) = TFTP_DATA"
    using b by (simp add: net16_def ld16_def add.assoc SWAP16_def TFTP_DATA_def)
  show "block_number m' p = n"
    using b by (simp add: block_number_def net16_def ld16_def add.assoc swap_bytes)
  show "read_bytes m' (p + 46) (length d) = d"
  proof (rule nth_equalityI)
    fix i assume "i < length (read_bytes m' (p + 46) (length d))"
    then have i: "i < length d" by simp
    have "m' (p + 46 + of_nat i) = data_frame hdr n d ! (46 + i)"
      using nth [of "46 + i"] i by (simp add: add.assoc)
    also have "\<dots> = d ! i" using assms(1) by (simp add: data_frame_def nth_append)
    finally show "read_bytes m' (p + 46) (length d) ! i = d ! i" using i by (simp add: nth_read_bytes)
  qed simp
qed


lemma handle_block:
  assumes hdr: "length hdr = 42" and n: "1 \<le> n" "n \<le> k + 1" "n \<le> last_block content"
    and size: "length content < 65535 * 512" and ap: "apart p 558 L (length content)"
    and inv: "received L content k e"
  shows "\<exists>e'. receive_block p L content (hdr, n) e =
      (if n = last_block content then TFTP_STATE_END else TFTP_STATE_DATA_OK, e') \<and> received L content (max k n) e'"
proof -
  let ?d = "file_block content n"
  let ?fr = "data_frame hdr (of_nat n) ?d"
  let ?m = "write_bytes (e_mem e) p ?fr"
  have lb: "last_block content < 65536" using size unfolding last_block_def by linarith
  have d512: "length ?d \<le> 512" by (simp add: length_file_block)
  note ff = frame_fields [OF hdr d512, where m = "e_mem e" and p = p and n = "of_nat n"]
  have lenfr: "length ?fr = 46 + length ?d" using hdr by (simp add: data_frame_def)
  have ds: "of_nat (length ?fr) - TFTP_PACKET_SIZE - 2 = (of_nat (length ?d) :: u32)"
    by (simp add: lenfr TFTP_PACKET_SIZE_def)
  have un: "unat (of_nat (length ?d) :: u32) = length ?d" "sint (of_nat (length ?d) :: u32) = int (length ?d)"
    using d512 by (simp_all add: unat_of_nat signed_of_nat signed_take_bit_int_eq_self_iff)
  have keep: "read_bytes ?m L j = read_bytes (e_mem e) L j" if "j \<le> length content" for j
  proof (rule read_bytes_cong)
    fix i assume "i < j"
    show "?m (L + of_nat i) = e_mem e (L + of_nat i)"
    proof (rule write_bytes_other)
      fix x assume "x < length ?fr"
      then have "x < 558" using d512 by (simp add: lenfr)
      then show "p + of_nat x \<noteq> L + of_nat i" using apart_neq [OF ap, of x i] \<open>i < j\<close> that by simp
    qed
  qed
  have n0: "(of_nat n :: u16) \<noteq> 0" "TFTPLastBlockNumber e < of_nat n \<longleftrightarrow> k < n"
    using n lb inv by (simp_all add: received_def word_of_nat_eq_0_iff word_less_nat_alt unat_of_nat nat_dvd_not_less)
  have st: "int (length ?d) < 512 \<longleftrightarrow> n = last_block content"
    using file_block_short [OF n(1,3)] by simp
  show ?thesis
  proof (cases "k < n")
    case False
    then have "max k n = k" by simp
    with False inv show ?thesis
      unfolding receive_block_def TftpResiveHandler_def Let_def fst_conv snd_conv ds
      using n0 ff st un keep
      by (auto simp: received_def TFTP_ERROR_def TFTP_DATA_def with_mem_def)
  next
    case True
    with n have nk: "n = Suc k" by simp
    then have mx: "max k n = Suc k" by simp
    have k: "512 * k \<le> length content" using n nk by (simp add: last_block_def)
    have total: "min (512 * Suc k) (length content) = 512 * k + length ?d"
      using k unfolding nk length_file_block by simp
    have "ucast (of_nat n :: u16) = (of_nat n :: u32)"
      using n lb by (intro word_unat_eq_iff [THEN iffD2]) (simp add: unsigned_ucast_eq unat_of_nat take_bit_nat_eq_self)
    then have dest: "block_dest L (of_nat n) = L + of_nat (512 * k)"
      by (simp add: block_dest_def nk mult.commute)
    have fit: "512 * k + length ?d \<le> length content" using k by (simp add: nk length_file_block)
    have len: "length content \<le> 2 ^ 32" using ap by (simp add: apart_def)
    have dis: "L + of_nat (512 * k) + of_nat i \<noteq> p + 46 + of_nat j" if "i < length ?d" "j < length ?d" for i j
      using apart_neq [OF ap, of "46 + j" "512 * k + i"] that fit d512 by (simp add: add.assoc)
    have copy: "memcpy (length ?d) ?m (L + of_nat (512 * k)) (p + 46) = write_bytes ?m (L + of_nat (512 * k)) ?d"
      using memcpy_ascending [of "length ?d" "L + of_nat (512 * k)" "p + 46" ?m] dis ff(3) by simp
    have "read_bytes (write_bytes ?m (L + of_nat (512 * k)) ?d) L (512 * k + length ?d) = read_bytes ?m L (512 * k) @ ?d"
      by (rule read_write_append) (use fit len in simp)
    also have "\<dots> = take (512 * Suc k) content"
      using inv k keep [of "512 * k"] unfolding take_block nk by (simp add: received_def min_def)
    finally have mem: "read_bytes (write_bytes ?m (L + of_nat (512 * k)) ?d) L (512 * k + length ?d) = take (512 * Suc k) content" .
    have tot: "TFTPResiveTotalSize e = of_nat (512 * k)" using inv k by (simp add: received_def min_def)
    let ?e = "with_mem (\<lambda>_. write_bytes ?m (L + of_nat (512 * k)) ?d) e\<lparr>TFTPLastBlockNumber := of_nat n,
      TFTPResiveTotalSize := of_nat (512 * k) + of_nat (length ?d)\<rparr>"
    have "received L content (Suc k) ?e"
      unfolding received_def total using n nk mem by simp
    moreover have "receive_block p L content (hdr, n) e =
        (if n = last_block content then TFTP_STATE_END else TFTP_STATE_DATA_OK, ?e)"
      unfolding receive_block_def TftpResiveHandler_def Let_def fst_conv snd_conv ds
      using n0 ff(1,2) st un True tot copy dest
      by (simp add: TFTP_ERROR_def TFTP_DATA_def with_mem_def)
    ultimately show ?thesis unfolding mx by blast
  qed
qed


lemma receive_blocks_received:
  assumes "in_step k (map snd fs)" "\<forall>f\<in>set fs. length (fst f) = 42 \<and> snd f \<le> last_block content"
    and "length content < 65535 * 512" "apart p 558 L (length content)" "received L content k e"
  shows "\<exists>e'. receive_blocks p L content fs e =
      (map (\<lambda>f. if snd f = last_block content then TFTP_STATE_END else TFTP_STATE_DATA_OK) fs, e') \<and>
      received L content (foldl max k (map snd fs)) e'"
  using assms
proof (induction fs arbitrary: k e)
  case (Cons f fs)
  obtain hdr n where f: "f = (hdr, n)" by (cases f)
  have "length hdr = 42" "1 \<le> n" "n \<le> k + 1" "n \<le> last_block content" using Cons.prems(1,2) by (simp_all add: f)
  from handle_block [OF this Cons.prems(3-5)] obtain e1 where
    e1: "receive_block p L content f e = (if n = last_block content then TFTP_STATE_END else TFTP_STATE_DATA_OK, e1)"
      "received L content (max k n) e1" unfolding f by blast
  have "in_step (max k n) (map snd fs)" "\<forall>f\<in>set fs. length (fst f) = 42 \<and> snd f \<le> last_block content"
    using Cons.prems(1,2) by (simp_all add: f)
  from Cons.IH [OF this Cons.prems(3,4) e1(2)] show ?case using e1(1) by (auto simp: f)
qed simp

lemma foldl_max_bound: "\<lbrakk>k \<le> b; \<forall>n\<in>set ns. n \<le> b\<rbrakk> \<Longrightarrow> foldl max k ns \<le> (b :: nat)"
  by (induction ns arbitrary: k) auto

lemma foldl_max_ge: "k \<le> foldl max k ns \<and> (\<forall>n\<in>set ns. n \<le> foldl max k (ns :: nat list))"
proof (induction ns arbitrary: k)
  case (Cons n ns)
  from Cons [of "max k n"] show ?case by auto
qed simp

text \<open>
  C33: a file received in lockstep (every block the next one or one sent before, so lost
  acknowledgements and frames sent twice are covered) is reassembled: each block is answered as
  data, the last one as the end, and once the last block has arrived the memory at the load
  address holds the content and the total is its length.
\<close>

theorem tftp_reassembles_file:
  assumes "in_step 0 (map snd fs)" and "\<forall>f\<in>set fs. length (fst f) = 42 \<and> snd f \<le> last_block content"
    and "last_block content \<in> set (map snd fs)" and "length content < 65535 * 512" and "apart p 558 L (length content)"
    and "TFTPLastBlockNumber e = 0" and "TFTPResiveTotalSize e = 0"
  shows "\<exists>e'. receive_blocks p L content fs e =
      (map (\<lambda>f. if snd f = last_block content then TFTP_STATE_END else TFTP_STATE_DATA_OK) fs, e') \<and>
    read_bytes (e_mem e') L (length content) = content \<and> TFTPResiveTotalSize e' = of_nat (length content)"
proof -
  let ?k = "foldl max 0 (map snd fs)"
  have "received L content 0 e" using assms by (simp add: received_def last_block_def)
  from receive_blocks_received [OF assms(1,2,4,5) this] obtain e' where
    e': "receive_blocks p L content fs e =
      (map (\<lambda>f. if snd f = last_block content then TFTP_STATE_END else TFTP_STATE_DATA_OK) fs, e')"
      "received L content ?k e'" by blast
  have "?k = last_block content"
    using foldl_max_bound [of 0 "last_block content" "map snd fs"] foldl_max_ge [of 0 "map snd fs"] assms(2,3)
    by (auto intro!: antisym)
  moreover have "length content \<le> 512 * last_block content" using div_mult_mod_eq [of "length content" 512] mod_less_divisor [of 512 "length content", simplified]
    unfolding last_block_def distrib_left by linarith
  ultimately have "read_bytes (e_mem e') L (length content) = content" "TFTPResiveTotalSize e' = of_nat (length content)"
    using e'(2) by (simp_all add: received_def min_def split: if_splits)
  with e'(1) show ?thesis by blast
qed

text \<open>A file of 600 bytes whose first block is sent twice, once more after its end.\<close>

theorem tftp_reassembles_file_witness:
  "\<exists>e'. receive_blocks 0x1000 0xA1000000 (replicate 512 7 @ replicate 88 9)
      (map (Pair (replicate 42 0)) [1, 1, 2, 1]) (ez_at (\<lambda>_. 0) () (\<lambda>_. 0)) =
      ([TFTP_STATE_DATA_OK, TFTP_STATE_DATA_OK, TFTP_STATE_END, TFTP_STATE_DATA_OK], e') \<and>
    read_bytes (e_mem e') 0xA1000000 600 = replicate 512 7 @ replicate 88 9 \<and> TFTPResiveTotalSize e' = 600"
proof -
  let ?content = "replicate 512 7 @ replicate 88 9 :: u8 list"
  have l: "length ?content = 600" "last_block ?content = 2" by (simp_all add: last_block_def)
  show ?thesis
    using tftp_reassembles_file [where fs = "map (Pair (replicate 42 0)) [1, 1, 2, 1]" and content = "?content" and p = "0x1000"
        and L = "0xA1000000" and e = "ez_at (\<lambda>_. 0) () (\<lambda>_. 0)"]
    by (simp add: l apart_def ez_at_def)
qed

end
