(* ===== verification/Crc.thy ===== *)
theory Crc
  imports Prelude
begin

text \<open>
  The checksums of the ZMODEM receiver: the two tables of \<open>zmodem.c\<close> and the steps that use them,
  and the shift registers they stand for.
\<close>

section \<open>The tables\<close>

definition crctab :: "u16 list" where
  "crctab =
    [0, 0x1021, 0x2042, 0x3063, 0x4084, 0x50a5, 0x60c6, 0x70e7,
     0x8108, 0x9129, 0xa14a, 0xb16b, 0xc18c, 0xd1ad, 0xe1ce, 0xf1ef,
     0x1231, 0x0210, 0x3273, 0x2252, 0x52b5, 0x4294, 0x72f7, 0x62d6,
     0x9339, 0x8318, 0xb37b, 0xa35a, 0xd3bd, 0xc39c, 0xf3ff, 0xe3de,
     0x2462, 0x3443, 0x0420, 0x1401, 0x64e6, 0x74c7, 0x44a4, 0x5485,
     0xa56a, 0xb54b, 0x8528, 0x9509, 0xe5ee, 0xf5cf, 0xc5ac, 0xd58d,
     0x3653, 0x2672, 0x1611, 0x0630, 0x76d7, 0x66f6, 0x5695, 0x46b4,
     0xb75b, 0xa77a, 0x9719, 0x8738, 0xf7df, 0xe7fe, 0xd79d, 0xc7bc,
     0x48c4, 0x58e5, 0x6886, 0x78a7, 0x0840, 0x1861, 0x2802, 0x3823,
     0xc9cc, 0xd9ed, 0xe98e, 0xf9af, 0x8948, 0x9969, 0xa90a, 0xb92b,
     0x5af5, 0x4ad4, 0x7ab7, 0x6a96, 0x1a71, 0x0a50, 0x3a33, 0x2a12,
     0xdbfd, 0xcbdc, 0xfbbf, 0xeb9e, 0x9b79, 0x8b58, 0xbb3b, 0xab1a,
     0x6ca6, 0x7c87, 0x4ce4, 0x5cc5, 0x2c22, 0x3c03, 0x0c60, 0x1c41,
     0xedae, 0xfd8f, 0xcdec, 0xddcd, 0xad2a, 0xbd0b, 0x8d68, 0x9d49,
     0x7e97, 0x6eb6, 0x5ed5, 0x4ef4, 0x3e13, 0x2e32, 0x1e51, 0x0e70,
     0xff9f, 0xefbe, 0xdfdd, 0xcffc, 0xbf1b, 0xaf3a, 0x9f59, 0x8f78,
     0x9188, 0x81a9, 0xb1ca, 0xa1eb, 0xd10c, 0xc12d, 0xf14e, 0xe16f,
     0x1080, 0x00a1, 0x30c2, 0x20e3, 0x5004, 0x4025, 0x7046, 0x6067,
     0x83b9, 0x9398, 0xa3fb, 0xb3da, 0xc33d, 0xd31c, 0xe37f, 0xf35e,
     0x02b1, 0x1290, 0x22f3, 0x32d2, 0x4235, 0x5214, 0x6277, 0x7256,
     0xb5ea, 0xa5cb, 0x95a8, 0x8589, 0xf56e, 0xe54f, 0xd52c, 0xc50d,
     0x34e2, 0x24c3, 0x14a0, 0x0481, 0x7466, 0x6447, 0x5424, 0x4405,
     0xa7db, 0xb7fa, 0x8799, 0x97b8, 0xe75f, 0xf77e, 0xc71d, 0xd73c,
     0x26d3, 0x36f2, 0x0691, 0x16b0, 0x6657, 0x7676, 0x4615, 0x5634,
     0xd94c, 0xc96d, 0xf90e, 0xe92f, 0x99c8, 0x89e9, 0xb98a, 0xa9ab,
     0x5844, 0x4865, 0x7806, 0x6827, 0x18c0, 0x08e1, 0x3882, 0x28a3,
     0xcb7d, 0xdb5c, 0xeb3f, 0xfb1e, 0x8bf9, 0x9bd8, 0xabbb, 0xbb9a,
     0x4a75, 0x5a54, 0x6a37, 0x7a16, 0x0af1, 0x1ad0, 0x2ab3, 0x3a92,
     0xfd2e, 0xed0f, 0xdd6c, 0xcd4d, 0xbdaa, 0xad8b, 0x9de8, 0x8dc9,
     0x7c26, 0x6c07, 0x5c64, 0x4c45, 0x3ca2, 0x2c83, 0x1ce0, 0x0cc1,
     0xef1f, 0xff3e, 0xcf5d, 0xdf7c, 0xaf9b, 0xbfba, 0x8fd9, 0x9ff8,
     0x6e17, 0x7e36, 0x4e55, 0x5e74, 0x2e93, 0x3eb2, 0x0ed1, 0x1ef0]"

definition cr3tab :: "u32 list" where
  "cr3tab =
    [0, 0x77073096, 0xee0e612c, 0x990951ba, 0x076dc419, 0x706af48f, 0xe963a535, 0x9e6495a3,
     0x0edb8832, 0x79dcb8a4, 0xe0d5e91e, 0x97d2d988, 0x09b64c2b, 0x7eb17cbd, 0xe7b82d07, 0x90bf1d91,
     0x1db71064, 0x6ab020f2, 0xf3b97148, 0x84be41de, 0x1adad47d, 0x6ddde4eb, 0xf4d4b551, 0x83d385c7,
     0x136c9856, 0x646ba8c0, 0xfd62f97a, 0x8a65c9ec, 0x14015c4f, 0x63066cd9, 0xfa0f3d63, 0x8d080df5,
     0x3b6e20c8, 0x4c69105e, 0xd56041e4, 0xa2677172, 0x3c03e4d1, 0x4b04d447, 0xd20d85fd, 0xa50ab56b,
     0x35b5a8fa, 0x42b2986c, 0xdbbbc9d6, 0xacbcf940, 0x32d86ce3, 0x45df5c75, 0xdcd60dcf, 0xabd13d59,
     0x26d930ac, 0x51de003a, 0xc8d75180, 0xbfd06116, 0x21b4f4b5, 0x56b3c423, 0xcfba9599, 0xb8bda50f,
     0x2802b89e, 0x5f058808, 0xc60cd9b2, 0xb10be924, 0x2f6f7c87, 0x58684c11, 0xc1611dab, 0xb6662d3d,
     0x76dc4190, 0x01db7106, 0x98d220bc, 0xefd5102a, 0x71b18589, 0x06b6b51f, 0x9fbfe4a5, 0xe8b8d433,
     0x7807c9a2, 0x0f00f934, 0x9609a88e, 0xe10e9818, 0x7f6a0dbb, 0x086d3d2d, 0x91646c97, 0xe6635c01,
     0x6b6b51f4, 0x1c6c6162, 0x856530d8, 0xf262004e, 0x6c0695ed, 0x1b01a57b, 0x8208f4c1, 0xf50fc457,
     0x65b0d9c6, 0x12b7e950, 0x8bbeb8ea, 0xfcb9887c, 0x62dd1ddf, 0x15da2d49, 0x8cd37cf3, 0xfbd44c65,
     0x4db26158, 0x3ab551ce, 0xa3bc0074, 0xd4bb30e2, 0x4adfa541, 0x3dd895d7, 0xa4d1c46d, 0xd3d6f4fb,
     0x4369e96a, 0x346ed9fc, 0xad678846, 0xda60b8d0, 0x44042d73, 0x33031de5, 0xaa0a4c5f, 0xdd0d7cc9,
     0x5005713c, 0x270241aa, 0xbe0b1010, 0xc90c2086, 0x5768b525, 0x206f85b3, 0xb966d409, 0xce61e49f,
     0x5edef90e, 0x29d9c998, 0xb0d09822, 0xc7d7a8b4, 0x59b33d17, 0x2eb40d81, 0xb7bd5c3b, 0xc0ba6cad,
     0xedb88320, 0x9abfb3b6, 0x03b6e20c, 0x74b1d29a, 0xead54739, 0x9dd277af, 0x04db2615, 0x73dc1683,
     0xe3630b12, 0x94643b84, 0x0d6d6a3e, 0x7a6a5aa8, 0xe40ecf0b, 0x9309ff9d, 0x0a00ae27, 0x7d079eb1,
     0xf00f9344, 0x8708a3d2, 0x1e01f268, 0x6906c2fe, 0xf762575d, 0x806567cb, 0x196c3671, 0x6e6b06e7,
     0xfed41b76, 0x89d32be0, 0x10da7a5a, 0x67dd4acc, 0xf9b9df6f, 0x8ebeeff9, 0x17b7be43, 0x60b08ed5,
     0xd6d6a3e8, 0xa1d1937e, 0x38d8c2c4, 0x4fdff252, 0xd1bb67f1, 0xa6bc5767, 0x3fb506dd, 0x48b2364b,
     0xd80d2bda, 0xaf0a1b4c, 0x36034af6, 0x41047a60, 0xdf60efc3, 0xa867df55, 0x316e8eef, 0x4669be79,
     0xcb61b38c, 0xbc66831a, 0x256fd2a0, 0x5268e236, 0xcc0c7795, 0xbb0b4703, 0x220216b9, 0x5505262f,
     0xc5ba3bbe, 0xb2bd0b28, 0x2bb45a92, 0x5cb36a04, 0xc2d7ffa7, 0xb5d0cf31, 0x2cd99e8b, 0x5bdeae1d,
     0x9b64c2b0, 0xec63f226, 0x756aa39c, 0x026d930a, 0x9c0906a9, 0xeb0e363f, 0x72076785, 0x05005713,
     0x95bf4a82, 0xe2b87a14, 0x7bb12bae, 0x0cb61b38, 0x92d28e9b, 0xe5d5be0d, 0x7cdcefb7, 0x0bdbdf21,
     0x86d3d2d4, 0xf1d4e242, 0x68ddb3f8, 0x1fda836e, 0x81be16cd, 0xf6b9265b, 0x6fb077e1, 0x18b74777,
     0x88085ae6, 0xff0f6a70, 0x66063bca, 0x11010b5c, 0x8f659eff, 0xf862ae69, 0x616bffd3, 0x166ccf45,
     0xa00ae278, 0xd70dd2ee, 0x4e048354, 0x3903b3c2, 0xa7672661, 0xd06016f7, 0x4969474d, 0x3e6e77db,
     0xaed16a4a, 0xd9d65adc, 0x40df0b66, 0x37d83bf0, 0xa9bcae53, 0xdebb9ec5, 0x47b2cf7f, 0x30b5ffe9,
     0xbdbdf21c, 0xcabac28a, 0x53b39330, 0x24b4a3a6, 0xbad03605, 0xcdd70693, 0x54de5729, 0x23d967bf,
     0xb3667a2e, 0xc4614ab8, 0x5d681b02, 0x2a6f2b94, 0xb40bbe37, 0xc30c8ea1, 0x5a05df1b, 0x2d02ef8d]"

text \<open>\<open>updcrc(cp, crc)\<close> and \<open>UPDC32(b, c)\<close>.\<close>

definition updcrc :: "u16 \<Rightarrow> u16 \<Rightarrow> u16" where
  "updcrc cp crc = crctab ! unat (drop_bit 8 crc AND 255) XOR push_bit 8 crc XOR cp"

definition UPDC32 :: "u32 \<Rightarrow> u32 \<Rightarrow> u32" where
  "UPDC32 b c = cr3tab ! unat ((c XOR b) AND 0xFF) XOR (drop_bit 8 c AND 0x00FFFFFF)"

section \<open>The tables are linear\<close>

text \<open>
  The table over a basis: entry \<open>i\<close> is the exclusive or of the basis elements at the bits of \<open>i\<close>.
\<close>

definition xor_table :: "'a :: len word list \<Rightarrow> 'a word list" where
  "xor_table bs = foldl (\<lambda>T b. T @ map (\<lambda>x. x XOR b) T) [0] bs"

definition basis16 :: "u16 list" where
  "basis16 = [0x1021, 0x2042, 0x4084, 0x8108, 0x1231, 0x2462, 0x48C4, 0x9188]"

definition basis32 :: "u32 list" where
  "basis32 = [0x77073096, 0xEE0E612C, 0x076DC419, 0x0EDB8832, 0x1DB71064, 0x3B6E20C8, 0x76DC4190, 0xEDB88320]"

lemma crctab_linear: "crctab = xor_table basis16"
  by (simp add: xor_table_def basis16_def crctab_def)

lemma cr3tab_linear: "cr3tab = xor_table basis32"
  by (simp add: xor_table_def basis32_def cr3tab_def)

lemma xor_table_snoc: "xor_table (bs @ [b]) = xor_table bs @ map (\<lambda>x. x XOR b) (xor_table bs)"
  by (simp add: xor_table_def)

lemma length_xor_table [simp]: "length (xor_table bs) = 2 ^ length bs"
  by (induction bs rule: rev_induct) (simp_all add: xor_table_snoc, simp add: xor_table_def)

text \<open>A linear function of an index word agrees with the table over its values at the powers of two.\<close>

lemma xor_table_nth:
  fixes F :: "'b :: len word \<Rightarrow> 'a :: len word"
  assumes lin: "\<And>x y. F (x XOR y) = F x XOR F y" and "bs = map (\<lambda>k. F (push_bit k 1)) [0..<n]"
    and "unat w < 2 ^ n" and "n \<le> LENGTH('b)"
  shows "xor_table bs ! unat w = F w"
  using assms(2-4)
proof (induction n arbitrary: bs w)
  case 0
  have "F 0 = 0" using lin [of 0 0] by simp
  moreover have "w = 0" using "0.prems"(2) by (simp add: unat_eq_0)
  ultimately show ?case using "0.prems"(1) by (simp add: xor_table_def)
next
  case (Suc n)
  let ?bs = "map (\<lambda>k. F (push_bit k 1)) [0..<n]"
  have T: "xor_table bs = xor_table ?bs @ map (\<lambda>x. x XOR F (push_bit n 1)) (xor_table ?bs)"
    unfolding Suc.prems(1) using xor_table_snoc [of ?bs "F (push_bit n 1)"] by simp
  show ?case
  proof (cases "unat w < 2 ^ n")
    case True
    with Suc.IH [OF refl True] Suc.prems(3) T show ?thesis by (simp add: nth_append)
  next
    case False
    define v where "v = w XOR push_bit n 1"
    have n: "n < LENGTH('b)" using Suc.prems(3) by simp
    have low: "take_bit (Suc n) (unat w) = unat w" using Suc.prems(2) by (simp add: take_bit_nat_eq_self)
    have split: "unat w = 2 ^ n * of_bool (bit (unat w) n) + take_bit n (unat w)"
      using low take_bit_Suc_from_most [of n "unat w"] by (simp add: ac_simps)
    have top: "bit (unat w) n"
    proof (rule ccontr)
      assume "\<not> bit (unat w) n"
      with split have "unat w = take_bit n (unat w)" by simp
      then show False using False take_bit_nat_less_exp [of n "unat w"] by simp
    qed
    have sing: "bit w m \<longleftrightarrow> m < Suc n \<and> bit w m" for m
      using low [THEN arg_cong, where f = "\<lambda>x. bit x m"] by (simp add: bit_take_bit_iff bit_unsigned_iff)
    have "v = take_bit n w"
    proof (rule bit_word_eqI)
      fix m assume "m < LENGTH('b)"
      then show "bit v m = bit (take_bit n w) m"
        using sing [of m] top
        by (auto simp: v_def bit_xor_iff bit_push_bit_iff bit_take_bit_iff bit_1_iff bit_unsigned_iff
          less_Suc_eq simp del: push_bit_of_1)
    qed
    then have uv: "unat v = take_bit n (unat w)" by (simp add: unsigned_take_bit_eq)
    have wv: "unat w = 2 ^ n + unat v" and v: "unat v < 2 ^ n"
      using split top uv by simp_all
    have "xor_table bs ! unat w = xor_table ?bs ! unat v XOR F (push_bit n 1)"
      using wv v by (simp add: T nth_append)
    also have "xor_table ?bs ! unat v = F v" by (rule Suc.IH) (use v n in simp_all)
    also have "F v XOR F (push_bit n 1) = F w" unfolding v_def lin [symmetric] by (simp add: xor.assoc)
    finally show ?thesis .
  qed
qed


text \<open>So two linear functions that agree at the powers of two agree.\<close>

lemma linear_eqI:
  fixes F G :: "'b :: len word \<Rightarrow> 'a :: len word"
  assumes "\<And>x y. F (x XOR y) = F x XOR F y" and "\<And>x y. G (x XOR y) = G x XOR G y"
    and "map (\<lambda>k. F (push_bit k 1)) [0..<n] = map (\<lambda>k. G (push_bit k 1)) [0..<n]"
    and "unat w < 2 ^ n" and "n \<le> LENGTH('b)"
  shows "F w = G w"
proof -
  have "F w = xor_table (map (\<lambda>k. F (push_bit k 1)) [0..<n]) ! unat w"
    by (rule xor_table_nth [OF assms(1) refl assms(4,5), symmetric])
  also have "\<dots> = xor_table (map (\<lambda>k. G (push_bit k 1)) [0..<n]) ! unat w" unfolding assms(3) ..
  also have "\<dots> = G w" by (rule xor_table_nth [OF assms(2) refl assms(4,5)])
  finally show ?thesis .
qed

section \<open>The shift registers\<close>

text \<open>
  CRC-16 with polynomial \<open>0x1021\<close>, most significant bit first, the message bits entering at the low
  end; CRC-32 with the reversed polynomial \<open>0xEDB88320\<close>, least significant bit first.
\<close>

definition crc16_bit :: "u16 \<Rightarrow> bool \<Rightarrow> u16" where
  "crc16_bit c x = push_bit 1 c XOR (if bit c 15 then 0x1021 else 0) XOR of_bool x"

definition crc16_byte :: "u16 \<Rightarrow> u16 \<Rightarrow> u16" where
  "crc16_byte cp c = foldl (\<lambda>c k. crc16_bit c (bit cp k)) c [7, 6, 5, 4, 3, 2, 1, 0]"

definition crc32_bit :: "u32 \<Rightarrow> u32" where
  "crc32_bit c = drop_bit 1 c XOR (if bit c 0 then 0xEDB88320 else 0)"

definition crc32_byte :: "u32 \<Rightarrow> u32 \<Rightarrow> u32" where
  "crc32_byte b c = (crc32_bit ^^ 8) (c XOR b)"

lemma if_xor: "(if p \<noteq> q then k else 0) = (if p then k else 0) XOR (if q then k else (0 :: 'a :: len word))"
  by simp

lemma of_bool_xor: "of_bool (p \<noteq> q) = of_bool p XOR (of_bool q :: 'a :: len word)"
  by simp

lemma crc16_bit_linear: "crc16_bit (a XOR b) (x \<noteq> y) = crc16_bit a x XOR crc16_bit b y"
  unfolding crc16_bit_def bit_xor_iff if_xor of_bool_xor push_bit_xor by (simp only: ac_simps)

lemma crc16_byte_linear: "crc16_byte (p XOR q) (a XOR b) = crc16_byte p a XOR crc16_byte q b"
  unfolding crc16_byte_def bit_xor_iff foldl.simps crc16_bit_linear ..

lemma crc32_bit_linear: "crc32_bit (a XOR b) = crc32_bit a XOR crc32_bit b"
  unfolding crc32_bit_def bit_xor_iff if_xor drop_bit_xor by (simp only: ac_simps)

lemma crc32_bits_linear: "(crc32_bit ^^ n) (a XOR b) = (crc32_bit ^^ n) a XOR (crc32_bit ^^ n) b"
  by (induction n) (simp_all add: crc32_bit_linear)

lemma funpow_8: "(f ^^ 8) x = f (f (f (f (f (f (f (f x)))))))"
  by (simp add: numeral_eq_Suc)

lemma upt_8: "[0..<8] = [0, 1, 2, 3, 4, 5, 6, 7]"
  by (simp add: upt_rec)

lemma basis32_crc: "basis32 = map (\<lambda>k. (crc32_bit ^^ 8) (push_bit k 1)) [0..<8]"
  unfolding funpow_8 upt_8 list.map by (simp add: basis32_def crc32_bit_def)

lemma basis16_crc: "basis16 = map (\<lambda>k. crc16_byte 0 (push_bit 8 (push_bit k 1))) [0..<8]"
  unfolding upt_8 list.map by (simp add: basis16_def crc16_byte_def crc16_bit_def)

text \<open>The whole word, byte and register, is a linear function, so it is enough to look at the powers of two.\<close>

lemma upt_16: "[0..<16] = [0, 1, 2, 3, 4, 5, 6, 7, 8, 9, 10, 11, 12, 13, 14, 15]"
  by (simp add: upt_rec)

lemma upt_32: "[0..<32] = [0, 1, 2, 3, 4, 5, 6, 7, 8, 9, 10, 11, 12, 13, 14, 15,
    16, 17, 18, 19, 20, 21, 22, 23, 24, 25, 26, 27, 28, 29, 30, 31]"
  by (simp add: upt_rec)

lemma crctab_nth: "unat w < 256 \<Longrightarrow> crctab ! unat w = crc16_byte 0 (push_bit 8 w)" for w :: u16
  unfolding crctab_linear
  by (rule xor_table_nth [where n = 8, OF _ basis16_crc])
    (simp_all add: push_bit_xor crc16_byte_linear [of 0 0, simplified])

lemma cr3tab_nth: "unat w < 256 \<Longrightarrow> cr3tab ! unat w = (crc32_bit ^^ 8) w" for w :: u32
  unfolding cr3tab_linear
  by (rule xor_table_nth [where n = 8, OF crc32_bits_linear basis32_crc]) simp_all

lemma byte_mask: "unat (w AND 255) < 256" for w :: "'a :: len word"
proof -
  have "w AND 255 = take_bit 8 w" by (simp add: take_bit_eq_mask mask_eq_exp_minus_1)
  then have "unat (w AND 255) = take_bit 8 (unat w)" by (simp add: unsigned_take_bit_eq)
  then show ?thesis using take_bit_nat_less_exp [of 8 "unat w"] by simp
qed

lemma crc16_0_linear: "crc16_byte 0 (a XOR b) = crc16_byte 0 a XOR crc16_byte 0 b"
  using crc16_byte_linear [of 0 0 a b] by simp

lemma xor_swap: "(a XOR b) XOR (c XOR d) = (a XOR c) XOR (b XOR d)" for a :: "'a :: len word"
  by (simp only: ac_simps)

lemma crc16_hi_linear:
  "crc16_byte 0 (push_bit 8 (drop_bit 8 (a XOR b) AND 255)) XOR push_bit 8 (a XOR b) =
   (crc16_byte 0 (push_bit 8 (drop_bit 8 a AND 255)) XOR push_bit 8 a) XOR
   (crc16_byte 0 (push_bit 8 (drop_bit 8 b AND 255)) XOR push_bit 8 b)"
  unfolding drop_bit_xor push_bit_xor bit.conj_xor_distrib2 crc16_0_linear by (rule xor_swap)

lemma crc16_low: "unat cp < 256 \<Longrightarrow> crc16_byte cp 0 = cp"
proof (rule linear_eqI [where n = 8 and F = "\<lambda>p. crc16_byte p 0" and G = id, unfolded id_apply])
  show "crc16_byte (x XOR y) 0 = crc16_byte x 0 XOR crc16_byte y 0" for x y
    using crc16_byte_linear [of x y 0 0] by simp
  show "map (\<lambda>k. crc16_byte (push_bit k 1) 0) [0..<8] = map (\<lambda>k. push_bit k 1) [0..<8]"
    unfolding upt_8 list.map by (simp add: crc16_byte_def crc16_bit_def)
qed simp_all

lemma crc16_shift: "crc16_byte 0 c = crc16_byte 0 (push_bit 8 (drop_bit 8 c AND 255)) XOR push_bit 8 c"
proof (rule linear_eqI [where n = 16, OF crc16_0_linear crc16_hi_linear])
  show "map (\<lambda>k. crc16_byte 0 (push_bit k 1)) [0..<16] =
    map (\<lambda>k. crc16_byte 0 (push_bit 8 (drop_bit 8 (push_bit k 1) AND 255)) XOR push_bit 8 (push_bit k 1)) [0..<16]"
    unfolding upt_16 list.map by (simp add: crc16_byte_def crc16_bit_def)
  show "unat c < 2 ^ 16" using unsigned_less [of c] by simp
qed simp

lemma crc32_hi_linear:
  "(crc32_bit ^^ 8) ((a XOR b) AND 255) XOR drop_bit 8 (a XOR b) =
   ((crc32_bit ^^ 8) (a AND 255) XOR drop_bit 8 a) XOR ((crc32_bit ^^ 8) (b AND 255) XOR drop_bit 8 b)"
  unfolding drop_bit_xor bit.conj_xor_distrib2 crc32_bits_linear by (rule xor_swap)

lemma crc32_shift: "(crc32_bit ^^ 8) c = (crc32_bit ^^ 8) (c AND 255) XOR drop_bit 8 c"
proof (rule linear_eqI [where n = 32, OF crc32_bits_linear crc32_hi_linear])
  show "map (\<lambda>k. (crc32_bit ^^ 8) (push_bit k 1)) [0..<32] =
    map (\<lambda>k. (crc32_bit ^^ 8) (push_bit k 1 AND 255) XOR drop_bit 8 (push_bit k 1)) [0..<32]"
    unfolding funpow_8 upt_32 list.map by (simp add: crc32_bit_def)
  show "unat c < 2 ^ 32" using unsigned_less [of c] by simp
qed simp

text \<open>
  C23: one step of the receiver's CRC-16 by table (\<open>updcrc\<close> with the 256 entries of \<open>crctab\<close>) is eight
  steps of the shift register with polynomial \<open>x\<^sup>1\<^sup>6 + x\<^sup>1\<^sup>2 + x\<^sup>5 + 1\<close>, for every byte and every register.
\<close>

theorem crc16_table_ok:
  assumes "unat cp < 256"
  shows "updcrc cp crc = crc16_byte cp crc"
proof -
  have "updcrc cp crc = crc16_byte 0 (push_bit 8 (drop_bit 8 crc AND 255)) XOR push_bit 8 crc XOR cp"
    unfolding updcrc_def by (simp only: crctab_nth byte_mask)
  also have "\<dots> = crc16_byte 0 crc XOR crc16_byte cp 0"
    by (simp only: crc16_shift [of crc] crc16_low [OF assms] xor.assoc)
  finally show ?thesis using crc16_byte_linear [of 0 cp crc 0] by simp
qed

theorem crc16_table_ok_witness: "updcrc 0x5A 0xBEEF = crc16_byte 0x5A 0xBEEF"
  by (rule crc16_table_ok) simp

text \<open>
  One step of the CRC-32 by table (\<open>UPDC32\<close> with \<open>cr3tab\<close>) is eight steps of the reflected shift
  register with polynomial \<open>0xEDB88320\<close> on the register exclusive-ored with the byte.
\<close>

lemma crc32_table_ok:
  assumes "unat b < 256"
  shows "UPDC32 b crc = crc32_byte b crc"
proof -
  have b: "drop_bit 8 b = 0"
    by (subst unat_eq_0 [symmetric], unfold unat_drop_bit_eq) (use assms in \<open>simp add: drop_bit_eq_div\<close>)
  have m: "drop_bit 8 crc AND 0x00FFFFFF = drop_bit 8 crc"
  proof -
    have "(0x00FFFFFF :: u32) = mask 24" by (simp add: mask_eq_exp_minus_1)
    then have "drop_bit 8 crc AND 0x00FFFFFF = take_bit 24 (drop_bit 8 crc)" by (simp add: take_bit_eq_mask)
    then show ?thesis by (simp add: take_bit_drop_bit take_bit_word_eq_self)
  qed
  have "UPDC32 b crc = (crc32_bit ^^ 8) ((crc XOR b) AND 255) XOR drop_bit 8 crc"
    unfolding UPDC32_def m by (simp only: cr3tab_nth byte_mask)
  also have "drop_bit 8 crc = drop_bit 8 (crc XOR b)" by (simp add: drop_bit_xor b)
  finally show ?thesis unfolding crc32_byte_def crc32_shift [of "crc XOR b", symmetric] .
qed

theorem crc32_table_ok_witness: "UPDC32 0x5A 0xDEADBEEF = crc32_byte 0x5A 0xDEADBEEF"
  by (rule crc32_table_ok) simp

text \<open>A header sent with its checksum leaves the receiver's register at 0.\<close>

lemma updcrc_xor: "updcrc cp c = updcrc 0 c XOR cp"
  by (simp add: updcrc_def xor.assoc)

lemma updcrc_0: "updcrc 0 c = crc16_byte 0 c"
  using crc16_shift [of c] unfolding updcrc_def by (simp only: crctab_nth byte_mask xor.right_neutral)

lemma updcrc_0_linear: "updcrc 0 (a XOR b) = updcrc 0 a XOR updcrc 0 b"
  by (simp add: updcrc_0 crc16_0_linear)

lemma updcrc_0_byte: "updcrc 0 (drop_bit 8 s) = push_bit 8 (drop_bit 8 s)"
proof -
  have "drop_bit 8 (drop_bit 8 s) = (0 :: u16)"
    by (rule bit_word_eqI) (simp add: bit_drop_bit_eq bit_imp_le_length)
  then show ?thesis by (simp add: updcrc_def crctab_def)
qed

lemma split_bytes: "push_bit 8 (drop_bit 8 s) XOR (s AND 255) = s" for s :: u16
proof -
  have m: "s AND 255 = take_bit 8 s" by (simp add: take_bit_eq_mask mask_eq_exp_minus_1)
  show ?thesis unfolding m
    by (rule bit_word_eqI) (auto simp: bit_xor_iff bit_push_bit_iff bit_drop_bit_eq bit_take_bit_iff)
qed

lemma updcrc_sum_cancels:
  assumes "s = updcrc 0 (updcrc 0 c)"
  shows "updcrc (s AND 255) (updcrc (drop_bit 8 s) c) = 0"
proof -
  have "updcrc (s AND 255) (updcrc (drop_bit 8 s) c)
      = updcrc 0 (updcrc 0 c XOR drop_bit 8 s) XOR (s AND 255)"
    unfolding updcrc_xor [of "s AND 255"] updcrc_xor [of "drop_bit 8 s"] ..
  also have "\<dots> = s XOR (push_bit 8 (drop_bit 8 s) XOR (s AND 255))"
    unfolding updcrc_0_linear updcrc_0_byte by (simp only: assms [symmetric] xor.assoc)
  finally show ?thesis unfolding split_bytes by simp
qed

end
