(* ===== verification/Boot_Zmodem.thy ===== *)
theory Boot_Zmodem
  imports Boot_Console Crc
begin

text \<open>
  The ZMODEM receiver: \<open>zmodem.c\<close>. A character read from the line is an \<open>int\<close> as in the code,
  negative for an error. The static arrays \<open>Txhdr\<close>, \<open>Rxhdr\<close>, \<open>secbuf\<close>, \<open>Attn\<close> and
  \<open>name_static\<close>, and the local arrays and string literals, are objects of the memory.
\<close>

section \<open>Constants\<close>

definition ZPAD :: int where "ZPAD = 42"
definition ZDLE :: int where "ZDLE = 0x18"
definition ZBIN :: int where "ZBIN = 65"
definition ZHEX :: int where "ZHEX = 66"
definition ZBIN32 :: int where "ZBIN32 = 67"

definition ZRQINIT :: int where "ZRQINIT = 0"
definition ZRINIT :: int where "ZRINIT = 1"
definition ZSINIT :: int where "ZSINIT = 2"
definition ZACK :: int where "ZACK = 3"
definition ZFILE :: int where "ZFILE = 4"
definition ZSKIP :: int where "ZSKIP = 5"
definition ZNAK :: int where "ZNAK = 6"
definition ZFIN :: int where "ZFIN = 8"
definition ZRPOS :: int where "ZRPOS = 9"
definition ZDATA :: int where "ZDATA = 10"
definition ZEOF :: int where "ZEOF = 11"
definition ZCOMPL :: int where "ZCOMPL = 15"
definition ZCAN :: int where "ZCAN = 16"
definition ZFREECNT :: int where "ZFREECNT = 17"
definition ZCOMMAND :: int where "ZCOMMAND = 18"

definition ZCRCE :: int where "ZCRCE = 104"
definition ZCRCG :: int where "ZCRCG = 105"
definition ZCRCQ :: int where "ZCRCQ = 106"
definition ZCRCW :: int where "ZCRCW = 107"
definition ZRUB0 :: int where "ZRUB0 = 108"
definition ZRUB1 :: int where "ZRUB1 = 109"

definition GOTOR :: int where "GOTOR = 0x100"
definition GOTCRCE :: int where "GOTCRCE = ZCRCE OR GOTOR"
definition GOTCRCG :: int where "GOTCRCG = ZCRCG OR GOTOR"
definition GOTCRCQ :: int where "GOTCRCQ = ZCRCQ OR GOTOR"
definition GOTCRCW :: int where "GOTCRCW = ZCRCW OR GOTOR"
definition GOTCAN :: int where "GOTCAN = GOTOR OR 0x18"

definition RCDO :: int where "RCDO = -3"
definition TIMEOUT :: int where "TIMEOUT = -2"
definition ERROR :: int where "ERROR = -1"
definition XON :: int where "XON = 0x11"
definition XOFF :: int where "XOFF = 0x13"
definition CAN :: int where "CAN = 0x18"

definition Zrwindow :: u32 where "Zrwindow = 1400"
definition DEFBYTL :: u32 where "DEFBYTL = 2000000000"
definition UNIXFILE :: u16 where "UNIXFILE = 0xF000"
definition MAX_BLOCK :: nat where "MAX_BLOCK = 8192"
definition ZATTNLEN :: nat where "ZATTNLEN = 32"

definition CANFDX :: u8 where "CANFDX = 1"
definition CANBRK :: u8 where "CANBRK = 4"
definition CANFC32 :: u8 where "CANFC32 = 0x20"
definition TESCCTL :: u8 where "TESCCTL = 0x40"
definition ZCBIN :: u8 where "ZCBIN = 1"
definition ZF1_ZMSKNOLOC :: u8 where "ZF1_ZMSKNOLOC = 0x80"

definition with_zm :: "(zm_globals \<Rightarrow> zm_globals) \<Rightarrow> 'h ez \<Rightarrow> 'h ez" where
  "with_zm f e = e\<lparr>Zm := f (Zm e)\<rparr>"

section \<open>Sending headers\<close>

text \<open>\<open>stohdr\<close>: a position into \<open>Txhdr\<close>, low byte first.\<close>

definition stohdr :: "u32 \<Rightarrow> 'h ez \<Rightarrow> 'h ez" where
  "stohdr pos e =
     (let p = obj e ''Txhdr'' in
      with_mem (\<lambda>m. m(p := ucast pos, p + 1 := ucast (drop_bit 8 pos), p + 2 := ucast (drop_bit 16 pos),
        p + 3 := ucast (drop_bit 24 pos))) e)"

definition digits :: "u8 list" where
  "digits = [48, 49, 50, 51, 52, 53, 54, 55, 56, 57, 97, 98, 99, 100, 101, 102]"

definition zputhex :: "u32 \<Rightarrow> u32 \<Rightarrow> mem \<Rightarrow> mem" where
  "zputhex c pos m = m(pos := digits ! unat (drop_bit 4 (c AND 0xF0)), pos + 1 := digits ! unat (c AND 0x0F))"

primrec zshhdr_pos :: "nat \<Rightarrow> u32 \<Rightarrow> u32 \<Rightarrow> u16 \<Rightarrow> mem \<Rightarrow> u16 \<times> mem" where
  "zshhdr_pos 0 hdr s crc m = (crc, m)"
| "zshhdr_pos (Suc n) hdr s crc m =
     zshhdr_pos n (hdr + 1) (s + 2) (updcrc (ucast (m hdr)) crc) (zputhex (ucast (m hdr)) s m)"

text \<open>The text of a hex header in the local array at \<open>s\<close>, and its length.\<close>

definition hex_header :: "int \<Rightarrow> u32 \<Rightarrow> u32 \<Rightarrow> mem \<Rightarrow> nat \<times> mem" where
  "hex_header ty hdr s m =
     (let t = of_int (ty AND 0x7F) :: u32;
          m = m(s := of_int ZPAD, s + 1 := of_int ZPAD, s + 2 := of_int ZDLE, s + 3 := of_int ZHEX);
          m = zputhex t (s + 4) m;
          (crc, m) = zshhdr_pos 4 hdr (s + 6) (updcrc (ucast t) 0) m;
          crc = updcrc 0 (updcrc 0 crc);
          m = zputhex (ucast (drop_bit 8 crc)) (s + 14) m;
          m = zputhex (ucast crc) (s + 16) m;
          m = m(s + 18 := 0x0D, s + 19 := 0x8A)
      in if ty \<noteq> ZFIN \<and> ty \<noteq> ZACK then (21, m(s + 20 := 0x11)) else (20, m))"

definition zshhdr :: "'h bus \<Rightarrow> int \<Rightarrow> u32 \<Rightarrow> 'h ez \<Rightarrow> 'h ez option" where
  "zshhdr b ty hdr e =
     (let s = obj e ''s'';
          e = with_zm (\<lambda>z. z\<lparr>Crc32t := 0\<rparr>) e;
          (len, m) = hex_header ty hdr s (e_mem e)
      in SerialOutStr b s len (e\<lparr>e_mem := m\<rparr>))"

section \<open>Reading characters\<close>

text \<open>\<open>READLINE_PF(timeout)\<close>: the time is not used.\<close>

definition READLINE_PF :: "'h bus \<Rightarrow> 'h ez \<Rightarrow> (int \<times> 'h ez) option" where
  "READLINE_PF b e = do { (c, e) \<leftarrow> getc b e; Some (uint c, e) }"

definition esc_ctl :: "int \<Rightarrow> 'h ez \<Rightarrow> bool" where
  "esc_ctl c e \<longleftrightarrow> Zctlesc (Zm e) \<noteq> 0 \<and> c AND 0x60 = 0"

definition flow_char :: "int \<Rightarrow> bool" where
  "flow_char c \<longleftrightarrow> c = XON \<or> c = XON OR 0x80 \<or> c = XOFF \<or> c = XOFF OR 0x80"

partial_function (option) noxrd7 :: "'h bus \<Rightarrow> 'h ez \<Rightarrow> (int \<times> 'h ez) option" where
  "noxrd7 b e = do {
     (c, e) \<leftarrow> READLINE_PF b e;
     if c < 0 then Some (c, e)
     else
       (let c = c AND 0x7F in
        if c = XON \<or> c = XOFF then noxrd7 b e
        else if c = 13 \<or> c = 10 \<or> c = ZDLE then Some (c, e)
        else if esc_ctl c e then noxrd7 b e
        else Some (c, e)) }"

text \<open>After a \<open>ZDLE\<close> (label \<open>again2\<close>): up to four cancels, then the escaped character.\<close>

definition next_if_can :: "'h bus \<Rightarrow> int \<Rightarrow> 'h ez \<Rightarrow> (int \<times> 'h ez) option" where
  "next_if_can b c e = (if c = CAN then READLINE_PF b e else Some (c, e))"

partial_function (option) zdl_escape :: "'h bus \<Rightarrow> 'h ez \<Rightarrow> (int \<times> 'h ez) option" where
  "zdl_escape b e = do {
     (c, e) \<leftarrow> READLINE_PF b e;
     (c, e) \<leftarrow> next_if_can b c e;
     (c, e) \<leftarrow> next_if_can b c e;
     (c, e) \<leftarrow> next_if_can b c e;
     if c < 0 then Some (c, e)
     else if c = CAN then Some (GOTCAN, e)
     else if c = ZCRCE \<or> c = ZCRCG \<or> c = ZCRCQ \<or> c = ZCRCW then Some (c OR GOTOR, e)
     else if c = ZRUB0 then Some (0x7F, e)
     else if c = ZRUB1 then Some (0xFF, e)
     else if flow_char c then zdl_escape b e
     else if esc_ctl c e then zdl_escape b e
     else if c AND 0x60 = 0x40 then Some (c XOR 0x40, e)
     else Some (ERROR, e) }"

partial_function (option) zdlread2 :: "'h bus \<Rightarrow> int \<Rightarrow> 'h ez \<Rightarrow> (int \<times> 'h ez) option" where
  "zdlread2 b c e =
     (if c = ZDLE then zdl_escape b e
      else if flow_char c \<or> esc_ctl c e then do {
        (c, e) \<leftarrow> READLINE_PF b e;
        if c AND 0x60 \<noteq> 0 then Some (c, e) else zdlread2 b c e }
      else Some (c, e))"

definition zdlread :: "'h bus \<Rightarrow> 'h ez \<Rightarrow> (int \<times> 'h ez) option" where
  "zdlread b e = do {
     (c, e) \<leftarrow> READLINE_PF b e;
     if c AND 0x60 \<noteq> 0 then Some (c, e) else zdlread2 b c e }"

text \<open>Two lower case hex digits as a byte.\<close>

definition hex_nibble :: "int \<Rightarrow> int" where
  "hex_nibble c = (let n = c - 48 in if n > 9 then n - 39 else n)"

definition zgeth1 :: "'h bus \<Rightarrow> 'h ez \<Rightarrow> (int \<times> 'h ez) option" where
  "zgeth1 b e = do {
     (c, e) \<leftarrow> noxrd7 b e;
     if c < 0 then Some (c, e)
     else
       let n = hex_nibble c in
       if n AND NOT 0xF \<noteq> 0 then Some (ERROR, e)
       else do {
         (c, e) \<leftarrow> noxrd7 b e;
         if c < 0 then Some (c, e)
         else
           let c = hex_nibble c in
           if c AND NOT 0xF \<noteq> 0 then Some (ERROR, e) else Some (c + push_bit 4 n, e) } }"

section \<open>Receiving headers\<close>

text \<open>
  A reader gives \<open>Inr c\<close> for a byte and \<open>Inl c\<close> for a code that ends the reading: \<open>zdlread\<close>
  tested with \<open>& ~0377\<close>, \<open>zgethex\<close> tested with \<open>< 0\<close>.
\<close>

type_synonym 'h reader = "'h ez \<Rightarrow> ((int + int) \<times> 'h ez) option"

definition zdl8 :: "'h bus \<Rightarrow> 'h reader" where
  "zdl8 b e = do { (c, e) \<leftarrow> zdlread b e; Some (if c AND NOT 0xFF \<noteq> 0 then Inl c else Inr c, e) }"

definition zgh8 :: "'h bus \<Rightarrow> 'h reader" where
  "zgh8 b e = do { (c, e) \<leftarrow> zgeth1 b e; Some (if c < 0 then Inl c else Inr c, e) }"

text \<open>\<open>n\<close> bytes into the header at \<open>hdr\<close>, and \<open>n\<close> bytes of a checksum; the code that ended it, if any.\<close>

primrec hdr_bytes :: "'h reader \<Rightarrow> (int \<Rightarrow> 'c \<Rightarrow> 'c) \<Rightarrow> nat \<Rightarrow> u32 \<Rightarrow> 'c \<Rightarrow> 'h ez \<Rightarrow> (int option \<times> 'c \<times> 'h ez) option" where
  "hdr_bytes rdr upd 0 hdr crc e = Some (None, crc, e)"
| "hdr_bytes rdr upd (Suc n) hdr crc e = do {
     (x, e) \<leftarrow> rdr e;
     case x of
       Inl c \<Rightarrow> Some (Some c, crc, e)
     | Inr c \<Rightarrow> hdr_bytes rdr upd n (hdr + 1) (upd c crc) (with_mem (\<lambda>m. m(hdr := of_int c)) e) }"

primrec crc_bytes :: "'h reader \<Rightarrow> (int \<Rightarrow> 'c \<Rightarrow> 'c) \<Rightarrow> nat \<Rightarrow> 'c \<Rightarrow> 'h ez \<Rightarrow> (int option \<times> 'c \<times> 'h ez) option" where
  "crc_bytes rdr upd 0 crc e = Some (None, crc, e)"
| "crc_bytes rdr upd (Suc n) crc e = do {
     (x, e) \<leftarrow> rdr e;
     case x of
       Inl c \<Rightarrow> Some (Some c, crc, e)
     | Inr c \<Rightarrow> crc_bytes rdr upd n (upd c crc) e }"

definition crc16_upd :: "int \<Rightarrow> u16 \<Rightarrow> u16" where "crc16_upd c crc = updcrc (of_int c) crc"
definition crc32_upd :: "int \<Rightarrow> u32 \<Rightarrow> u32" where "crc32_upd c crc = UPDC32 (of_int c) crc"

text \<open>The three header formats: type, four position bytes, checksum. \<open>None\<close> is a header whose checksum is right.\<close>

definition header :: "'h reader \<Rightarrow> (int \<Rightarrow> 'c \<Rightarrow> 'c) \<Rightarrow> 'c \<Rightarrow> nat \<Rightarrow> 'c \<Rightarrow> u32 \<Rightarrow> 'h ez \<Rightarrow> (int option \<times> 'h ez) option" where
  "header rdr upd init k good hdr e = do {
     (x, e) \<leftarrow> rdr e;
     case x of
       Inl c \<Rightarrow> Some (Some c, e)
     | Inr c \<Rightarrow> do {
         let e = with_zm (\<lambda>z. z\<lparr>Rxtype := c\<rparr>) e;
         (r, crc, e) \<leftarrow> hdr_bytes rdr upd 4 hdr (upd c init) e;
         case r of
           Some c \<Rightarrow> Some (Some c, e)
         | None \<Rightarrow> do {
             (r, crc, e) \<leftarrow> crc_bytes rdr upd k crc e;
             case r of
               Some c \<Rightarrow> Some (Some c, e)
             | None \<Rightarrow> Some (if crc \<noteq> good then Some ERROR else None, e) } } }"

definition got_header :: "'h ez \<Rightarrow> (int \<times> 'h ez) option" where
  "got_header e = (let e = with_zm (\<lambda>z. z\<lparr>zmodem_requested := True\<rparr>) e in Some (Rxtype (Zm e), e))"

definition zrbhdr :: "'h bus \<Rightarrow> u32 \<Rightarrow> 'h ez \<Rightarrow> (int \<times> 'h ez) option" where
  "zrbhdr b hdr e = do {
     (r, e) \<leftarrow> header (zdl8 b) crc16_upd 0 2 0 hdr e;
     case r of Some c \<Rightarrow> Some (c, e) | None \<Rightarrow> got_header e }"

definition zrbhdr32 :: "'h bus \<Rightarrow> u32 \<Rightarrow> 'h ez \<Rightarrow> (int \<times> 'h ez) option" where
  "zrbhdr32 b hdr e = do {
     (r, e) \<leftarrow> header (zdl8 b) crc32_upd 0xFFFFFFFF 4 0xDEBB20E3 hdr e;
     case r of Some c \<Rightarrow> Some (c, e) | None \<Rightarrow> got_header e }"

text \<open>After a hex header a carriage return and the character after it are thrown away.\<close>

definition zrhhdr :: "'h bus \<Rightarrow> u32 \<Rightarrow> 'h ez \<Rightarrow> (int \<times> 'h ez) option" where
  "zrhhdr b hdr e = do {
     (r, e) \<leftarrow> header (zgh8 b) crc16_upd 0 2 0 hdr e;
     case r of
       Some c \<Rightarrow> Some (c, e)
     | None \<Rightarrow> do {
         (c, e) \<leftarrow> READLINE_PF b e;
         (_, e) \<leftarrow> (if c = 0x8D \<or> c = 0x0D then READLINE_PF b e else Some (c, e));
         got_header e } }"

section \<open>Finding a header\<close>

text \<open>
  The labels of \<open>zgethdr\<close>: \<open>startover\<close>, \<open>again\<close>, \<open>gotcan\<close>, \<open>agn2\<close> and \<open>splat\<close>, with the values of
  \<open>cancount\<close> and \<open>max_garbage\<close> there. A step gives \<open>Inl\<close> the result or \<open>Inr\<close> where to go on. The
  position of the header is not asked for by any caller (\<open>Rxpos\<close> is null).
\<close>

datatype zg_label = Zg_startover | Zg_again | Zg_gotcan | Zg_agn2 | Zg_splat

type_synonym zg_at = "zg_label \<times> int \<times> u32"

definition fifi :: "int \<Rightarrow> 'h ez \<Rightarrow> ((int + zg_at) \<times> 'h ez) option" where
  "fifi c e = Some (Inl (if c = GOTCAN then ZCAN else c), e)"

definition goto :: "zg_label \<Rightarrow> int \<Rightarrow> u32 \<Rightarrow> 'h ez \<Rightarrow> ((int + zg_at) \<times> 'h ez) option" where
  "goto l cancount garbage e = Some (Inr (l, cancount, garbage), e)"

text \<open>The frame after \<open>ZPAD ZDLE\<close>.\<close>

definition zg_frame :: "'h bus \<Rightarrow> u32 \<Rightarrow> int \<Rightarrow> u32 \<Rightarrow> 'h ez \<Rightarrow> ((int + zg_at) \<times> 'h ez) option" where
  "zg_frame b hdr cancount garbage e = do {
     (c, e) \<leftarrow> noxrd7 b e;
     if c = RCDO \<or> c = TIMEOUT then fifi c e
     else if c = ZBIN then do {
       (c, e) \<leftarrow> zrbhdr b hdr (with_zm (\<lambda>z. z\<lparr>Rxframeind := ZBIN, Crc32 := 0\<rparr>) e); fifi c e }
     else if c = ZBIN32 then do {
       (c, e) \<leftarrow> zrbhdr32 b hdr (with_zm (\<lambda>z. z\<lparr>Rxframeind := ZBIN32, Crc32 := ZBIN32\<rparr>) e); fifi c e }
     else if c = ZHEX then do {
       (c, e) \<leftarrow> zrhhdr b hdr (with_zm (\<lambda>z. z\<lparr>Rxframeind := ZHEX, Crc32 := 0\<rparr>) e); fifi c e }
     else if c = CAN then goto Zg_gotcan cancount garbage e
     else goto Zg_agn2 cancount garbage e }"

fun zg_step :: "'h bus \<Rightarrow> u32 \<Rightarrow> zg_label \<Rightarrow> int \<Rightarrow> u32 \<Rightarrow> 'h ez \<Rightarrow> ((int + zg_at) \<times> 'h ez) option" where
  "zg_step b hdr Zg_startover cancount garbage e = goto Zg_again 5 garbage e"
| "zg_step b hdr Zg_again cancount garbage e = do {
     (c, e) \<leftarrow> READLINE_PF b e;
     if c = RCDO \<or> c = TIMEOUT then fifi c e
     else if c = CAN then goto Zg_gotcan cancount garbage e
     else if c = ZPAD OR 0x80 \<or> c = ZPAD then goto Zg_splat 5 garbage e
     else goto Zg_agn2 cancount garbage e }"
| "zg_step b hdr Zg_gotcan cancount garbage e =
     (if cancount - 1 \<le> 0 then fifi ZCAN e
      else do {
        (c, e) \<leftarrow> READLINE_PF b e;
        if c = TIMEOUT then goto Zg_again (cancount - 1) garbage e
        else if c = ZCRCW then fifi ERROR e
        else if c = RCDO then fifi c e
        else if c = CAN then
          if cancount - 2 \<le> 0 then fifi ZCAN e else goto Zg_again (cancount - 2) garbage e
        else goto Zg_agn2 (cancount - 1) garbage e })"
| "zg_step b hdr Zg_agn2 cancount garbage e =
     (if garbage - 1 = 0 then Some (Inl ERROR, e) else goto Zg_startover cancount (garbage - 1) e)"
| "zg_step b hdr Zg_splat cancount garbage e = do {
     (c, e) \<leftarrow> noxrd7 b e;
     if c = ZPAD then goto Zg_splat cancount garbage e
     else if c = RCDO \<or> c = TIMEOUT then fifi c e
     else if c \<noteq> ZDLE then goto Zg_agn2 cancount garbage e
     else zg_frame b hdr cancount garbage e }"

partial_function (option) zgethdr_loop :: "'h bus \<Rightarrow> u32 \<Rightarrow> zg_at \<Rightarrow> 'h ez \<Rightarrow> (int \<times> 'h ez) option" where
  "zgethdr_loop b hdr at e = do {
     (r, e) \<leftarrow> zg_step b hdr (fst at) (fst (snd at)) (snd (snd at)) e;
     case r of Inl c \<Rightarrow> Some (c, e) | Inr at \<Rightarrow> zgethdr_loop b hdr at e }"

definition zgethdr :: "'h bus \<Rightarrow> u32 \<Rightarrow> 'h ez \<Rightarrow> (int \<times> 'h ez) option" where
  "zgethdr b hdr e =
     (let e = with_zm (\<lambda>z. z\<lparr>Rxframeind := 0, Rxtype := 0\<rparr>) e in
      zgethdr_loop b hdr (Zg_startover, 5, Zrwindow + ZModem_Baudrate (Zm e)) e)"

section \<open>Receiving data\<close>

text \<open>
  The code at \<open>crcfoo\<close>: a code \<open>c\<close> that is not a byte ends the data. After a frame end the checksum
  follows, and a frame end inside it starts over. The result is the code and the number of bytes
  received, which stays 0 on an error.
\<close>

definition frame_end :: "int \<Rightarrow> bool" where
  "frame_end c \<longleftrightarrow> c = GOTCRCE \<or> c = GOTCRCG \<or> c = GOTCRCQ \<or> c = GOTCRCW"

partial_function (option) crcfoo :: "'h reader \<Rightarrow> (int \<Rightarrow> 'c \<Rightarrow> 'c) \<Rightarrow> nat \<Rightarrow> 'c \<Rightarrow> nat \<Rightarrow> int \<Rightarrow> 'c \<Rightarrow> 'h ez \<Rightarrow> (int \<times> nat \<times> 'h ez) option" where
  "crcfoo rdr upd k good cnt c crc e =
     (if frame_end c then do {
        (r, crc, e) \<leftarrow> crc_bytes rdr upd k (upd (c AND 0xFF) crc) e;
        case r of
          Some c' \<Rightarrow> crcfoo rdr upd k good cnt c' crc e
        | None \<Rightarrow> if crc \<noteq> good then Some (ERROR, 0, e) else Some (c, cnt, e) }
      else Some (if c = GOTCAN then ZCAN else c, 0, e))"

text \<open>\<open>left\<close> is the number of rounds \<open>while (buf <= end)\<close> still has, \<open>cnt\<close> of them are done.\<close>

primrec data_loop :: "'h reader \<Rightarrow> (int \<Rightarrow> 'c \<Rightarrow> 'c) \<Rightarrow> nat \<Rightarrow> 'c \<Rightarrow> nat \<Rightarrow> nat \<Rightarrow> u32 \<Rightarrow> 'c \<Rightarrow> 'h ez \<Rightarrow> (int \<times> nat \<times> 'h ez) option" where
  "data_loop rdr upd k good 0 cnt buf crc e = Some (ERROR, 0, e)"
| "data_loop rdr upd k good (Suc left) cnt buf crc e = do {
     (x, e) \<leftarrow> rdr e;
     case x of
       Inl c \<Rightarrow> crcfoo rdr upd k good cnt c crc e
     | Inr c \<Rightarrow> data_loop rdr upd k good left (cnt + 1) (buf + 1) (upd c crc) (with_mem (\<lambda>m. m(buf := of_int c)) e) }"

definition zrdat32 :: "'h bus \<Rightarrow> u32 \<Rightarrow> nat \<Rightarrow> 'h ez \<Rightarrow> (int \<times> nat \<times> 'h ez) option" where
  "zrdat32 b buf n e = data_loop (zdl8 b) crc32_upd 4 0xDEBB20E3 (n + 1) 0 buf 0xFFFFFFFF e"

definition zrdata :: "'h bus \<Rightarrow> u32 \<Rightarrow> nat \<Rightarrow> 'h ez \<Rightarrow> (int \<times> nat \<times> 'h ez) option" where
  "zrdata b buf n e =
     (if Rxframeind (Zm e) = ZBIN32 then zrdat32 b buf n e
      else data_loop (zdl8 b) crc16_upd 2 0 (n + 1) 0 buf 0 e)"

section \<open>The session\<close>

definition getfree :: u32 where "getfree = 0xFFFFFFFF"

definition serial_trygetchar :: "'h bus \<Rightarrow> 'h ez \<Rightarrow> int \<times> 'h ez" where
  "serial_trygetchar b e =
     (let (ready, e) = SerialIsReadyChar b e in
      if ready then (let (c, e) = SerialIsGetChar b e in (uint c, e)) else (-1, e))"

partial_function (option) purgeline :: "'h bus \<Rightarrow> 'h ez \<Rightarrow> 'h ez option" where
  "purgeline b e = (let (c, e) = serial_trygetchar b e in if c \<noteq> -1 then purgeline b e else Some e)"

primrec bibi_loop :: "'h bus \<Rightarrow> nat \<Rightarrow> 'h ez \<Rightarrow> 'h ez option" where
  "bibi_loop b 0 e = Some e"
| "bibi_loop b (Suc n) e = do {
     e \<leftarrow> purgeline b e;
     e \<leftarrow> zshhdr b ZFIN (obj e ''Txhdr'') e;
     (c, e) \<leftarrow> READLINE_PF b e;
     if c = 79 then do { (_, e) \<leftarrow> READLINE_PF b e; Some e }
     else if c = RCDO then Some e
     else bibi_loop b n e }"

definition ackbibi :: "'h bus \<Rightarrow> 'h ez \<Rightarrow> 'h ez option" where
  "ackbibi b e = bibi_loop b 3 (stohdr 0 e)"

section \<open>The start of a session\<close>

text \<open>The frames \<open>tryz\<close> tells apart. \<open>Inl c\<close> returns \<open>c\<close>, \<open>Inr again\<close> goes to \<open>again\<close> or to the next round.\<close>

definition try_file :: "'h bus \<Rightarrow> 'h ez \<Rightarrow> ((int + bool) \<times> 'h ez) option" where
  "try_file b e = do {
     let h = obj e ''Rxhdr'';
     let e = with_zm (\<lambda>z. z\<lparr>zconv := if e_mem e (h + 3) = 0 then ZCBIN else e_mem e (h + 3)\<rparr>) e;
     let e = (if e_mem e (h + 2) AND ZF1_ZMSKNOLOC \<noteq> 0 then
                with_zm (\<lambda>z. z\<lparr>skip_if_not_found := True\<rparr>) (with_mem (\<lambda>m. m(h + 2 := m (h + 2) AND NOT ZF1_ZMSKNOLOC)) e)
              else e);
     let e = with_zm (\<lambda>z. z\<lparr>zmanag := e_mem e (h + 2), ztrans := e_mem e (h + 1), tryzhdrtype := ZRINIT\<rparr>) e;
     (c, _, e) \<leftarrow> zrdata b (obj e ''secbuf'') MAX_BLOCK e;
     if c = GOTCRCW then Some (Inl ZFILE, e)
     else do { e \<leftarrow> zshhdr b ZNAK (obj e ''Txhdr'') e; Some (Inr True, e) } }"

definition try_sinit :: "'h bus \<Rightarrow> 'h ez \<Rightarrow> ((int + bool) \<times> 'h ez) option" where
  "try_sinit b e = do {
     let f = TESCCTL AND e_mem e (obj e ''Rxhdr'' + 3);
     let e = with_zm (\<lambda>z. z\<lparr>Zctlesc := Zctlesc z OR ucast f\<rparr>) e;
     (c, _, e) \<leftarrow> zrdata b (obj e ''Attn'') ZATTNLEN e;
     e \<leftarrow> (if c = GOTCRCW then (let e = stohdr 1 e in zshhdr b ZACK (obj e ''Txhdr'') e)
           else zshhdr b ZNAK (obj e ''Txhdr'') e);
     Some (Inr True, e) }"

definition try_command :: "'h bus \<Rightarrow> 'h ez \<Rightarrow> ((int + bool) \<times> 'h ez) option" where
  "try_command b e = do {
     (c, _, e) \<leftarrow> zrdata b (obj e ''secbuf'') MAX_BLOCK e;
     if c = GOTCRCW then do { e \<leftarrow> zshhdr b ZCOMPL (obj e ''Txhdr'') e; Some (Inl ZCOMPL, e) }
     else do { e \<leftarrow> zshhdr b ZNAK (obj e ''Txhdr'') e; Some (Inr True, e) } }"

definition try_frame :: "'h bus \<Rightarrow> int \<Rightarrow> 'h ez \<Rightarrow> ((int + bool) \<times> 'h ez) option" where
  "try_frame b c e =
     (if c = ZFILE then try_file b e
      else if c = ZSINIT then try_sinit b e
      else if c = ZFREECNT then do {
        let e = stohdr getfree e;
        e \<leftarrow> zshhdr b ZACK (obj e ''Txhdr'') e;
        Some (Inr True, e) }
      else if c = ZCOMMAND then try_command b e
      else if c = ZCOMPL then Some (Inr True, e)
      else if c = ZFIN then do { e \<leftarrow> ackbibi b e; Some (Inl ZCOMPL, e) }
      else if c = ZRINIT \<or> c = ZCAN then Some (Inl ERROR, e)
      else Some (Inr False, e))"

text \<open>The invitation sent at the start of a round.\<close>

definition try_invite :: "'h bus \<Rightarrow> 'h ez \<Rightarrow> 'h ez option" where
  "try_invite b e = do {
     let e = stohdr 0 e;
     let h = obj e ''Txhdr'';
     let e = with_mem (\<lambda>m. m(h + 3 := CANFC32 OR CANFDX OR CANBRK)) e;
     let e = (if Zctlesc (Zm e) \<noteq> 0 then with_mem (\<lambda>m. m(h + 3 := m (h + 3) OR TESCCTL)) e else e);
     e \<leftarrow> zshhdr b (tryzhdrtype (Zm e)) h e;
     Some (if tryzhdrtype (Zm e) = ZSKIP then with_zm (\<lambda>z. z\<lparr>tryzhdrtype := ZRINIT\<rparr>) e else e) }"

text \<open>\<open>again\<close> says that the round goes on at the label \<open>again\<close>; \<open>zq\<close> counts the \<open>ZRQINIT\<close> frames.\<close>

partial_function (option) tryz_loop :: "'h bus \<Rightarrow> bool \<Rightarrow> int \<Rightarrow> int \<Rightarrow> 'h ez \<Rightarrow> (int \<times> 'h ez) option" where
  "tryz_loop b again n zq e =
     (if \<not> again \<and> \<not> (n - 1 + zq \<ge> 0 \<and> zq < 10) then Some (0, e)
      else do {
        let n = (if again then n else n - 1);
        e \<leftarrow> (if again then Some e else try_invite b e);
        (c, e) \<leftarrow> zgethdr b (obj e ''Rxhdr'') e;
        if c = ZRQINIT then tryz_loop b False n (zq + 1) e
        else do {
          (r, e) \<leftarrow> try_frame b c e;
          case r of Inl c \<Rightarrow> Some (c, e) | Inr again \<Rightarrow> tryz_loop b again n zq e } })"

definition tryz :: "'h bus \<Rightarrow> 'h ez \<Rightarrow> (int \<times> 'h ez) option" where
  "tryz b e = tryz_loop b False (if zmodem_requested (Zm e) then 15 else 5) 0 e"

section \<open>Receiving a file\<close>

text \<open>\<open>struct zm_fileinfo\<close>; \<open>modtime\<close> and \<open>bytes_total\<close> are 32 bits wide, \<open>mode\<close> is 16.\<close>

record zm_fileinfo =
  zi_fname :: u32
  zi_addr :: u32
  zi_modtime :: u32
  zi_mode :: u16
  zi_bytes_total :: u32
  zi_bytes_received :: u32
  zi_bytes_skipped :: u32
  zi_seek_adr :: u32
  zi_eof_seen :: bool

definition procheader :: "u32 \<Rightarrow> zm_fileinfo \<Rightarrow> 'h ez \<Rightarrow> (zm_fileinfo \<times> 'h ez) option" where
  "procheader name zi e = do {
     let ns = obj e ''name_static'';
     e \<leftarrow> with_mem_opt (\<lambda>m. strcpy m ns name) e;
     let zi = (if zi_fname zi = 0 then zi\<lparr>zi_fname := ns\<rparr> else zi);
     let zi = zi\<lparr>zi_bytes_total := DEFBYTL, zi_mode := 0, zi_eof_seen := False, zi_modtime := 0\<rparr>;
     len \<leftarrow> strlen (e_mem e) name;
     let nameend = name + 1 + len;
     (zi, e) \<leftarrow>
       (if e_mem e nameend \<noteq> 0 then do {
          (m, _) \<leftarrow> sscanf (e_mem e) nameend (obj e ''%ld%lo%o'')
                     (\<lambda>i. [obj e ''bytes_total'', obj e ''modtime'', obj e ''mode''] ! i);
          let e = e\<lparr>e_mem := m\<rparr>;
          Some (zi\<lparr>zi_modtime := ld32 m (obj e ''modtime''), zi_bytes_total := ld32 m (obj e ''bytes_total''),
                   zi_mode := ucast (ld32 m (obj e ''mode''))\<rparr>, e) }
        else Some (zi, e));
     Some (zi\<lparr>zi_seek_adr := zi_addr zi, zi_bytes_received := zi_bytes_skipped zi\<rparr>, e) }"

definition rclhdr :: "u32 \<Rightarrow> mem \<Rightarrow> u32" where
  "rclhdr h m =
     (let l = ucast (m (h + 3)) :: u32;
          l = push_bit 8 l OR ucast (m (h + 2));
          l = push_bit 8 l OR ucast (m (h + 1))
      in push_bit 8 l OR ucast (m h))"

text \<open>
  \<open>zmputs\<close>; the two characters it looks for are the string literal \<open>meta\<close> (octal 335, 336). At one of
  them it moves nothing but a local pointer.
\<close>

partial_function (option) zmputs :: "'h bus \<Rightarrow> u32 \<Rightarrow> 'h ez \<Rightarrow> 'h ez option" where
  "zmputs b s e =
     (if s = 0 \<or> e_mem e s = 0 then Some e
      else do {
        p \<leftarrow> strpbrk (e_mem e) s (obj e ''meta'');
        if p = 0 then do { n \<leftarrow> strlen (e_mem e) s; SerialOutStr b s (unat n) e }
        else if p \<noteq> s then do { e \<leftarrow> SerialOutStr b s (unat (p - s)) e; zmputs b p e }
        else zmputs b s e })"

primrec putsec_loop :: "u32 \<Rightarrow> nat \<Rightarrow> u32 \<Rightarrow> mem \<Rightarrow> u32 \<times> mem" where
  "putsec_loop buf 0 seek m = (seek, m)"
| "putsec_loop buf (Suc n) seek m = putsec_loop (buf + 1) n (seek + 1) (m(seek := m buf))"

definition putsec :: "zm_fileinfo \<Rightarrow> u32 \<Rightarrow> nat \<Rightarrow> 'h ez \<Rightarrow> zm_fileinfo \<times> 'h ez" where
  "putsec zi buf n e =
     (let (seek, m) = putsec_loop buf n (zi_seek_adr zi) (e_mem e) in
      (zi\<lparr>zi_seek_adr := seek\<rparr>, e\<lparr>e_mem := m\<rparr>))"

text \<open>The labels of \<open>rzfile\<close>: the head of the loop, \<open>nxthdr\<close> and \<open>moredata\<close>, with the retries \<open>n\<close> left there.\<close>

datatype rz_label = Rz_loop | Rz_nxthdr | Rz_moredata

type_synonym rz_at = "rz_label \<times> int \<times> zm_fileinfo"

text \<open>A failed try: \<open>if (--n < 0) return ERROR\<close>, the attention string if \<open>attn\<close>, and the head of the loop.\<close>

definition rz_retry :: "'h bus \<Rightarrow> bool \<Rightarrow> int \<Rightarrow> zm_fileinfo \<Rightarrow> 'h ez \<Rightarrow> ((int + rz_at) \<times> 'h ez) option" where
  "rz_retry b attn n zi e =
     (if n - 1 < 0 then Some (Inl ERROR, e)
      else do {
        e \<leftarrow> (if attn then zmputs b (obj e ''Attn'') e else Some e);
        Some (Inr (Rz_loop, n - 1, zi), e) })"

text \<open>A name frame instead of data, or a negative acknowledgement: reads what follows it.\<close>

definition rz_skip_data :: "'h bus \<Rightarrow> int \<Rightarrow> zm_fileinfo \<Rightarrow> 'h ez \<Rightarrow> ((int + rz_at) \<times> 'h ez) option" where
  "rz_skip_data b n zi e = do {
     (_, _, e) \<leftarrow> zrdata b (obj e ''secbuf'') MAX_BLOCK e;
     Some (Inr (Rz_loop, n, zi), e) }"

definition rz_header :: "'h bus \<Rightarrow> int \<Rightarrow> zm_fileinfo \<Rightarrow> 'h ez \<Rightarrow> ((int + rz_at) \<times> 'h ez) option" where
  "rz_header b n zi e = do {
     let h = obj e ''Rxhdr'';
     (c, e) \<leftarrow> zgethdr b h e;
     if c = ZNAK \<or> c = TIMEOUT then
       if n - 1 < 0 then Some (Inl ERROR, e) else rz_skip_data b (n - 1) zi e
     else if c = ZFILE then rz_skip_data b n zi e
     else if c = ZEOF then
       if rclhdr h (e_mem e) \<noteq> zi_bytes_received zi then Some (Inr (Rz_nxthdr, n, zi), e) else Some (Inl c, e)
     else if c = ERROR then rz_retry b True n zi e
     else if c = ZSKIP then Some (Inl c, e)
     else if c = ZDATA then
       if rclhdr h (e_mem e) \<noteq> zi_bytes_received zi then rz_retry b True n zi e
       else Some (Inr (Rz_moredata, n, zi), e)
     else Some (Inl ERROR, e) }"

text \<open>A good subpacket of \<open>k\<close> bytes is stored; \<open>reply\<close> is the acknowledgement it asks for.\<close>

definition rz_accept :: "'h bus \<Rightarrow> nat \<Rightarrow> int option \<Rightarrow> rz_label \<Rightarrow> zm_fileinfo \<Rightarrow> 'h ez \<Rightarrow> ((int + rz_at) \<times> 'h ez) option" where
  "rz_accept b k reply l zi e = do {
     let (zi, e) = putsec zi (obj e ''secbuf'') k e;
     let zi = zi\<lparr>zi_bytes_received := zi_bytes_received zi + of_nat k\<rparr>;
     e \<leftarrow> (case reply of
             None \<Rightarrow> Some e
           | Some ty \<Rightarrow> (let e = stohdr (zi_bytes_received zi) e in zshhdr b ty (obj e ''Txhdr'') e));
     Some (Inr (l, 20, zi), e) }"

definition rz_data :: "'h bus \<Rightarrow> int \<Rightarrow> zm_fileinfo \<Rightarrow> 'h ez \<Rightarrow> ((int + rz_at) \<times> 'h ez) option" where
  "rz_data b n zi e = do {
     (c, k, e) \<leftarrow> zrdata b (obj e ''secbuf'') MAX_BLOCK e;
     if c = ZCAN then Some (Inl ERROR, e)
     else if c = ERROR then rz_retry b True n zi e
     else if c = TIMEOUT then rz_retry b False n zi e
     else if c = GOTCRCW then rz_accept b k (Some (ZACK OR 0x80)) Rz_nxthdr zi e
     else if c = GOTCRCQ then rz_accept b k (Some ZACK) Rz_moredata zi e
     else if c = GOTCRCG then rz_accept b k None Rz_moredata zi e
     else if c = GOTCRCE then rz_accept b k None Rz_nxthdr zi e
     else Some (Inr (Rz_loop, n, zi), e) }"

fun rz_step :: "'h bus \<Rightarrow> rz_label \<Rightarrow> int \<Rightarrow> zm_fileinfo \<Rightarrow> 'h ez \<Rightarrow> ((int + rz_at) \<times> 'h ez) option" where
  "rz_step b Rz_loop n zi e = do {
     let e = stohdr (zi_bytes_received zi) e;
     e \<leftarrow> zshhdr b ZRPOS (obj e ''Txhdr'') e;
     Some (Inr (Rz_nxthdr, n, zi), e) }"
| "rz_step b Rz_nxthdr n zi e = rz_header b n zi e"
| "rz_step b Rz_moredata n zi e = rz_data b n zi e"

text \<open>A step that ends leaves the file information as it was before it.\<close>

partial_function (option) rz_run :: "'h bus \<Rightarrow> rz_at \<Rightarrow> 'h ez \<Rightarrow> (int \<times> zm_fileinfo \<times> 'h ez) option" where
  "rz_run b at e = do {
     (r, e) \<leftarrow> rz_step b (fst at) (fst (snd at)) (snd (snd at)) e;
     case r of Inl c \<Rightarrow> Some (c, snd (snd at), e) | Inr at \<Rightarrow> rz_run b at e }"

text \<open>\<open>procheader\<close> never fails, so the branch that skips the file is never taken.\<close>

definition rzfile :: "'h bus \<Rightarrow> zm_fileinfo \<Rightarrow> 'h ez \<Rightarrow> (int \<times> zm_fileinfo \<times> 'h ez) option" where
  "rzfile b zi e = do {
     (zi, e) \<leftarrow> procheader (obj e ''secbuf'') (zi\<lparr>zi_eof_seen := False\<rparr>) e;
     rz_run b (Rz_loop, 20, zi) e }"

partial_function (option) rzfiles :: "'h bus \<Rightarrow> zm_fileinfo \<Rightarrow> 'h ez \<Rightarrow> (int \<times> zm_fileinfo \<times> 'h ez) option" where
  "rzfiles b zi e = do {
     (c, zi, e) \<leftarrow> rzfile b zi e;
     if c = ZEOF \<or> c = ZSKIP then do {
       (t, e) \<leftarrow> tryz b e;
       if t = ZCOMPL then Some (0, zi, e)
       else if t = ZFILE then rzfiles b zi e
       else Some (ERROR, zi, e) }
     else Some (c, zi, e) }"

text \<open>Ten cancels and ten backspaces, the text of \<open>canistr\<close>.\<close>

primrec out_bytes :: "'h bus \<Rightarrow> u8 list \<Rightarrow> 'h ez \<Rightarrow> 'h ez option" where
  "out_bytes b [] e = Some e"
| "out_bytes b (c # cs) e = do { e \<leftarrow> SerialOutChar b c e; out_bytes b cs e }"

definition canit :: "'h bus \<Rightarrow> 'h ez \<Rightarrow> 'h ez option" where
  "canit b e = do {
     e \<leftarrow> purgeline b e;
     out_bytes b (replicate 10 24 @ replicate 10 8) e }"

definition rz_failed :: "'h bus \<Rightarrow> 'h ez \<Rightarrow> (int \<times> 'h ez) option" where
  "rz_failed b e = do { e \<leftarrow> canit b e; Some (ERROR, e) }"

text \<open>\<open>rz\<close>: the result is the size the sender announced.\<close>

definition rz :: "'h bus \<Rightarrow> u32 \<Rightarrow> u32 \<Rightarrow> 'h ez \<Rightarrow> (int \<times> 'h ez) option" where
  "rz b name addr e = do {
     let zi = \<lparr>zi_fname = name, zi_addr = addr, zi_modtime = 0, zi_mode = 0, zi_bytes_total = 0,
       zi_bytes_received = 0, zi_bytes_skipped = 0, zi_seek_adr = 0, zi_eof_seen = False\<rparr>;
     (c, e) \<leftarrow> tryz b e;
     if c = 0 \<or> c = ERROR then rz_failed b e
     else if c = ZCOMPL then Some (sint (zi_bytes_total zi), e)
     else do {
       (c, zi, e) \<leftarrow> rzfiles b zi e;
       if c \<noteq> 0 then rz_failed b e else Some (sint (zi_bytes_total zi), e) } }"

section \<open>The text of a hex header\<close>

text \<open>Two hex digits for a byte, the register after a list of bytes, and the header as a list.\<close>

definition hex2 :: "u8 \<Rightarrow> u8 list" where
  "hex2 c = [digits ! (unat c div 16), digits ! (unat c mod 16)]"

definition crc16_of :: "u8 list \<Rightarrow> u16 \<Rightarrow> u16" where
  "crc16_of = fold (\<lambda>c. updcrc (ucast c))"

definition hex_text :: "u8 \<Rightarrow> u8 list \<Rightarrow> u8 list" where
  "hex_text t d =
     (let s = updcrc 0 (updcrc 0 (crc16_of (t # d) 0)) in
      [42, 42, 24, 66] @ concat (map hex2 (t # d @ [ucast (drop_bit 8 s), ucast s])) @ [13, 0x8A])"

lemma zputhex_bytes: "zputhex c pos m = write_bytes m pos (hex2 (ucast c))"
proof -
  have h: "unat (drop_bit 4 (c AND 0xF0)) = unat (ucast c :: u8) div 16"
  proof -
    have f0: "(0xF0 :: u32) = push_bit 4 (mask 4)" by (simp add: mask_eq_exp_minus_1)
    have "drop_bit 4 (c AND 0xF0) = take_bit 4 (drop_bit 4 c)"
      unfolding f0 by (rule bit_word_eqI) (auto simp: bit_and_iff bit_drop_bit_eq bit_push_bit_iff bit_mask_iff bit_take_bit_iff)
    then have "unat (drop_bit 4 (c AND 0xF0)) = unat c div 16 mod 16"
      by (simp only: unsigned_take_bit_eq unat_drop_bit_eq) (simp add: take_bit_eq_mod drop_bit_eq_div)
    also have "\<dots> = unat c mod 256 div 16" using mod_mult2_eq [of "unat c" 16 16] div_mult_mod_eq by simp
    finally show ?thesis by (simp add: unsigned_ucast_eq take_bit_eq_mod)
  qed
  have l: "unat (c AND 0x0F) = unat (ucast c :: u8) mod 16"
  proof -
    have "c AND 0x0F = take_bit 4 c" by (simp add: take_bit_eq_mask mask_eq_exp_minus_1)
    then have "unat (c AND 0x0F) = take_bit 4 (unat c)" by (simp only: unsigned_take_bit_eq)
    then have "unat (c AND 0x0F) = unat c mod 16" by (simp add: take_bit_eq_mod)
    also have "\<dots> = unat c mod 256 mod 16" by (simp add: mod_mod_cancel)
    finally show ?thesis by (simp add: unsigned_ucast_eq take_bit_eq_mod)
  qed
  show ?thesis unfolding zputhex_def h l hex2_def by simp
qed

lemma length_hex2 [simp]: "length (hex2 c) = 2"
  by (simp add: hex2_def)

lemma length_hex2s [simp]: "length (concat (map hex2 ds)) = 2 * length ds"
  by (induction ds) simp_all

lemma zshhdr_pos_bytes:
  assumes "\<And>i j. i < n \<Longrightarrow> j < 2 * n \<Longrightarrow> s + of_nat j \<noteq> hdr + of_nat i"
  shows "zshhdr_pos n hdr s crc m =
    (crc16_of (read_bytes m hdr n) crc, write_bytes m s (concat (map hex2 (read_bytes m hdr n))))"
  using assms
proof (induction n arbitrary: hdr s crc m)
  case (Suc n)
  let ?m = "write_bytes m s (hex2 (m hdr))"
  have d: "s + 2 + of_nat j \<noteq> hdr + 1 + of_nat i" if "i < n" "j < 2 * n" for i j
    using Suc.prems [of "Suc i" "j + 2"] that by (simp add: ac_simps)
  have "read_bytes ?m (hdr + 1) n = read_bytes m (hdr + 1) n"
  proof (rule nth_equalityI)
    fix i assume "i < length (read_bytes ?m (hdr + 1) n)"
    then have "?m (hdr + 1 + of_nat i) = m (hdr + 1 + of_nat i)"
      using Suc.prems [of "Suc i" 0] Suc.prems [of "Suc i" 1] by (simp add: hex2_def ac_simps)
    with \<open>i < _\<close> show "read_bytes ?m (hdr + 1) n ! i = read_bytes m (hdr + 1) n ! i" by (simp add: nth_read_bytes)
  qed simp
  moreover have "ucast (ucast (m hdr) :: u32) = m hdr" by (rule bit_word_eqI) (simp add: bit_ucast_iff)
  ultimately show ?case
    using Suc.IH [OF d, of "updcrc (ucast (m hdr)) crc" ?m]
    by (simp add: zputhex_bytes crc16_of_def write_bytes_append)
qed (simp add: crc16_of_def)

lemma hex_header_bytes:
  assumes ap: "\<And>i j. i < 4 \<Longrightarrow> j < 21 \<Longrightarrow> s + of_nat j \<noteq> hdr + of_nat i"
  shows "\<exists>l. hex_header ty hdr s m = (20 + length l, write_bytes m s (hex_text (of_int (ty AND 0x7F)) (read_bytes m hdr 4) @ l))
    \<and> (l = [] \<or> l = [0x11])"
proof -
  let ?t = "of_int (ty AND 0x7F) :: u8"
  let ?p = "[42, 42, 24, 66] @ hex2 ?t"
  let ?m = "write_bytes m s ?p"
  let ?d = "read_bytes m hdr 4"
  have b7: "bit (ty AND 0x7F) n \<longleftrightarrow> n < 7 \<and> bit ty n" for n
  proof -
    have f: "(0x7F :: int) = mask 7" by (simp add: mask_eq_exp_minus_1)
    show ?thesis unfolding f by (auto simp: bit_and_iff bit_mask_iff)
  qed
  have u: "ucast (of_int (ty AND 0x7F) :: u32) = ?t"
    by (rule bit_word_eqI) (simp add: bit_ucast_iff bit_word_of_int_iff)
  have pre: "zputhex (of_int (ty AND 0x7F)) (s + 4)
      (m(s := of_int ZPAD, s + 1 := of_int ZPAD, s + 2 := of_int ZDLE, s + 3 := of_int ZHEX)) = ?m"
    by (simp add: zputhex_bytes u ZPAD_def ZDLE_def ZHEX_def add.assoc)
  have dm: "read_bytes ?m hdr 4 = ?d"
  proof (rule nth_equalityI)
    fix i assume "i < length (read_bytes ?m hdr 4)"
    then have "?m (hdr + of_nat i) = m (hdr + of_nat i)" using ap [of i] by (intro write_bytes_other) simp
    with \<open>i < _\<close> show "read_bytes ?m hdr 4 ! i = ?d ! i" by (simp add: nth_read_bytes)
  qed simp
  let ?c = "crc16_of ?d (updcrc (ucast ?t) 0)"
  let ?s = "updcrc 0 (updcrc 0 ?c)"
  have pos: "zshhdr_pos 4 hdr (s + 6) (updcrc (ucast ?t) 0) ?m =
      (?c, write_bytes ?m (s + 6) (concat (map hex2 ?d)))"
  proof (subst zshhdr_pos_bytes)
    show "s + 6 + of_nat j \<noteq> hdr + of_nat i" if "i < 4" "j < 2 * 4" for i j
      using ap [of i "j + 6"] that by (simp add: ac_simps)
  qed (simp only: dm)
  have t: "updcrc (ucast (of_int (ty AND 0x7F) :: u32)) 0 = updcrc (ucast ?t) 0"
    by (rule arg_cong [where f = "\<lambda>x. updcrc x 0"], rule bit_word_eqI) (auto simp: bit_ucast_iff bit_word_of_int_iff b7)
  have sd: "ucast (ucast (drop_bit 8 ?s) :: u32) = (ucast (drop_bit 8 ?s) :: u8)" "ucast (ucast ?s :: u32) = (ucast ?s :: u8)"
    by (rule bit_word_eqI; simp add: bit_ucast_iff)+
  have s: "?s = updcrc 0 (updcrc 0 (crc16_of (?t # ?d) 0))" by (simp add: crc16_of_def)
  let ?l = "if ty \<noteq> ZFIN \<and> ty \<noteq> ZACK then [0x11] else [] :: u8 list"
  have "hex_header ty hdr s m = (20 + length ?l, write_bytes m s (hex_text ?t ?d @ ?l))"
    unfolding hex_header_def Let_def pre t pos case_prod_conv
    unfolding hex_text_def Let_def s [symmetric]
    by (simp add: zputhex_bytes sd write_bytes_append add.assoc)
  then show ?thesis by (intro exI [of _ ?l]) simp
qed


section \<open>Reading a hex header\<close>

text \<open>The line delivers the characters \<open>cs\<close>; afterwards only the line and its error flag have changed.\<close>

definition line :: "'h bus \<Rightarrow> u8 list \<Rightarrow> 'h ez \<Rightarrow> bool" where
  "line b cs e \<longleftrightarrow> typed b (UART e) cs (e_dev e)"

definition same :: "'h ez \<Rightarrow> 'h ez \<Rightarrow> bool" where
  "same e e' \<longleftrightarrow> UART e' = UART e \<and> e_mem e' = e_mem e \<and> Zm e' = Zm e"

lemma same_trans: "same e e1 \<Longrightarrow> same e1 e2 \<Longrightarrow> same e e2"
  by (simp add: same_def)

lemma READLINE_line: "line b (c # cs) e \<Longrightarrow> \<exists>e'. READLINE_PF b e = Some (uint c, e') \<and> same e e' \<and> line b cs e'"
  using getc_typed [of b "UART e" c cs "e_dev e" e] by (auto simp: line_def same_def READLINE_PF_def)

text \<open>A character that is neither a control character of the line nor has its top bit set.\<close>

definition plain :: "u8 \<Rightarrow> bool" where
  "plain c \<longleftrightarrow> c = 24 \<or> (32 \<le> uint c \<and> uint c < 128 \<and> uint c AND 0x60 \<noteq> 0)"

lemma noxrd7_line:
  assumes "line b (c # cs) e" and "plain c"
  shows "\<exists>e'. noxrd7 b e = Some (uint c, e') \<and> same e e' \<and> line b cs e'"
proof -
  from READLINE_line [OF assms(1)] obtain e' where e': "READLINE_PF b e = Some (uint c, e')" "same e e'" "line b cs e'" by blast
  have m: "(0x7F :: int) = mask 7" by (simp add: mask_eq_exp_minus_1)
  have "uint c AND 0x7F = uint c"
    using assms(2) unfolding m take_bit_eq_mask [symmetric] by (auto simp: plain_def take_bit_int_eq_self_iff)
  with e' show ?thesis using assms(2)
    by (subst noxrd7.simps) (auto simp: plain_def XON_def XOFF_def ZDLE_def esc_ctl_def)
qed

lemma digits_16:
  "\<forall>n\<in>set [0..<16]. plain (digits ! n) \<and> hex_nibble (uint (digits ! n)) = int n \<and> int n AND - 16 = 0"
  by code_simp

lemma digit_nibble:
  "n < 16 \<Longrightarrow> plain (digits ! n)" "n < 16 \<Longrightarrow> hex_nibble (uint (digits ! n)) = int n" "n < 16 \<Longrightarrow> int n AND - 16 = 0"
  using digits_16 [unfolded set_upt, THEN bspec, of n] by simp_all

lemma zgeth1_line:
  assumes "line b (hex2 c @ cs) e"
  shows "\<exists>e'. zgeth1 b e = Some (uint c, e') \<and> same e e' \<and> line b cs e'"
proof -
  let ?h = "unat c div 16" and ?l = "unat c mod 16"
  have h: "?h < 16" "?l < 16" using unsigned_less [where 'a = nat, of c] by (simp_all add: less_mult_imp_div_less)
  from noxrd7_line [of b "digits ! ?h" "digits ! ?l # cs" e] assms digit_nibble(1) [OF h(1)] obtain e1 where
    e1: "noxrd7 b e = Some (uint (digits ! ?h), e1)" "same e e1" "line b (digits ! ?l # cs) e1" by (auto simp: hex2_def)
  from noxrd7_line [OF e1(3) digit_nibble(1) [OF h(2)]] obtain e2 where
    e2: "noxrd7 b e1 = Some (uint (digits ! ?l), e2)" "same e1 e2" "line b cs e2" by blast
  have p: "\<not> uint d < 0" for d :: u8 by simp
  have "int ?l + push_bit 4 (int ?h) = uint c"
    by (simp add: push_bit_eq_mult uint_nat [symmetric] zmod_int zdiv_int)
  then have "zgeth1 b e = Some (uint c, e2)"
    unfolding zgeth1_def by (simp add: e1(1) e2(1) digit_nibble(2,3) [OF h(1)] digit_nibble(2,3) [OF h(2)] Let_def)
  with e1 e2 same_trans show ?thesis by blast
qed

lemma crc16_upd_uint: "crc16_upd (uint c) crc = updcrc (ucast c) crc" for c :: u8
  by (simp add: crc16_upd_def)

lemma zgh8_line: "line b (hex2 c @ cs) e \<Longrightarrow> \<exists>e'. zgh8 b e = Some (Inr (uint c), e') \<and> same e e' \<and> line b cs e'"
  using zgeth1_line [of b c cs e] by (auto simp: zgh8_def)

lemma hdr_bytes_line:
  assumes "line b (concat (map hex2 ds) @ cs) e"
  shows "\<exists>e'. hdr_bytes (zgh8 b) crc16_upd (length ds) hdr crc e = Some (None, crc16_of ds crc, e') \<and>
    UART e' = UART e \<and> Zm e' = Zm e \<and> e_mem e' = write_bytes (e_mem e) hdr ds \<and> line b cs e'"
  using assms
proof (induction ds arbitrary: hdr crc e)
  case Nil
  then show ?case by (simp add: crc16_of_def)
next
  case (Cons d ds)
  from zgh8_line [of b d "concat (map hex2 ds) @ cs" e] Cons.prems obtain e1 where
    e1: "zgh8 b e = Some (Inr (uint d), e1)" "same e e1" "line b (concat (map hex2 ds) @ cs) e1" by auto
  let ?e = "e1\<lparr>e_mem := (e_mem e)(hdr := d)\<rparr>"
  have w: "with_mem (\<lambda>m. m(hdr := d)) e1 = ?e" using e1(2) by (simp add: with_mem_def same_def)
  have "line b (concat (map hex2 ds) @ cs) ?e" using e1(3) by (simp add: line_def)
  from Cons.IH [OF this, of "hdr + 1" "updcrc (ucast d) crc"] e1(1,2) show ?case
    by (auto simp: w [unfolded fun_upd_def] crc16_upd_uint crc16_of_def same_def fun_upd_def)
qed

lemma crc_bytes_line:
  assumes "line b (concat (map hex2 ds) @ cs) e"
  shows "\<exists>e'. crc_bytes (zgh8 b) crc16_upd (length ds) crc e = Some (None, crc16_of ds crc, e') \<and> same e e' \<and> line b cs e'"
  using assms
proof (induction ds arbitrary: crc e)
  case Nil
  then show ?case by (simp add: crc16_of_def same_def)
next
  case (Cons d ds)
  from zgh8_line [of b d "concat (map hex2 ds) @ cs" e] Cons.prems obtain e1 where
    e1: "zgh8 b e = Some (Inr (uint d), e1)" "same e e1" "line b (concat (map hex2 ds) @ cs) e1" by auto
  from Cons.IH [OF e1(3), of "updcrc (ucast d) crc"] e1(1,2) show ?case
    by (auto simp: crc16_upd_uint crc16_of_def dest: same_trans)
qed


lemma header_sum:
  defines "s \<equiv> \<lambda>c. updcrc 0 (updcrc 0 c)"
  shows "crc16_of [ucast (drop_bit 8 (s c)), ucast (s c)] c = 0"
proof -
  have hi: "ucast (ucast (drop_bit 8 (s c)) :: u8) = drop_bit 8 (s c)"
    by (rule bit_word_eqI) (auto simp: bit_ucast_iff bit_drop_bit_eq dest: bit_imp_le_length)
  have lo: "ucast (ucast (s c) :: u8) = s c AND 255"
  proof -
    have ff: "(255 :: u16) = mask 8" by (simp add: mask_eq_exp_minus_1)
    show ?thesis unfolding ff by (rule bit_word_eqI) (auto simp: bit_ucast_iff bit_and_iff bit_mask_iff)
  qed
  show ?thesis
    using updcrc_sum_cancels [of "s c" c] by (simp add: crc16_of_def hi lo) (simp add: s_def)
qed

lemma zrhhdr_text:
  assumes "line b (drop 4 (hex_text t d) @ cs) e" and "length d = 4"
  shows "\<exists>e'. zrhhdr b hdr e = Some (uint t, e') \<and> e_mem e' = write_bytes (e_mem e) hdr d"
proof -
  let ?s = "updcrc 0 (updcrc 0 (crc16_of (t # d) 0))"
  let ?ck = "[ucast (drop_bit 8 ?s), ucast ?s] :: u8 list"
  have tx: "drop 4 (hex_text t d) @ cs = hex2 t @ concat (map hex2 d) @ concat (map hex2 ?ck) @ [13, 0x8A] @ cs"
    by (simp add: hex_text_def Let_def)
  from zgh8_line assms(1) [unfolded tx] obtain e1 where
    e1: "zgh8 b e = Some (Inr (uint t), e1)" "same e e1"
      "line b (concat (map hex2 d) @ concat (map hex2 ?ck) @ [13, 0x8A] @ cs) e1" by blast
  let ?e1 = "with_zm (\<lambda>z. z\<lparr>Rxtype := uint t\<rparr>) e1"
  have "line b (concat (map hex2 d) @ concat (map hex2 ?ck) @ [13, 0x8A] @ cs) ?e1"
    using e1(3) by (simp add: line_def with_zm_def)
  from hdr_bytes_line [OF this, of hdr "updcrc (ucast t) 0"] obtain e2 where
    e2: "hdr_bytes (zgh8 b) crc16_upd 4 hdr (updcrc (ucast t) 0) ?e1 = Some (None, crc16_of (t # d) 0, e2)"
      "Zm e2 = Zm ?e1" "e_mem e2 = write_bytes (e_mem e) hdr d" "line b (concat (map hex2 ?ck) @ [13, 0x8A] @ cs) e2"
    using e1(2) by (auto simp: assms(2) crc16_of_def same_def with_zm_def)
  have l: "length ?ck = 2" by simp
  from crc_bytes_line [OF e2(4), of "crc16_of (t # d) 0", unfolded header_sum l] obtain e3 where
    e3: "crc_bytes (zgh8 b) crc16_upd 2 (crc16_of (t # d) 0) e2 = Some (None, 0, e3)" "same e2 e3"
      "line b ([13, 0x8A] @ cs) e3"
    by blast
  from READLINE_line [of b 13 "0x8A # cs" e3] e3(3) obtain e4 where
    e4: "READLINE_PF b e3 = Some (13, e4)" "same e3 e4" "line b (0x8A # cs) e4" by auto
  from READLINE_line [OF e4(3)] obtain e5 where
    e5: "READLINE_PF b e4 = Some (uint (0x8A :: u8), e5)" "same e4 e5" by blast
  have "header (zgh8 b) crc16_upd 0 2 0 hdr e = Some (None, e3)"
    by (simp add: header_def e1(1) e2(1) e3(1) crc16_upd_uint)
  then have "zrhhdr b hdr e = got_header e5"
    by (simp add: zrhhdr_def e4(1) e5(1))
  then show ?thesis
    using e2(2,3) e3(2) e4(2) e5(2) by (simp add: got_header_def with_zm_def same_def)
qed


lemma zgethdr_text:
  assumes "line b (hex_text t d @ cs) e" and "length d = 4" and "uint t < 128"
  shows "\<exists>e'. zgethdr b hdr e = Some (uint t, e') \<and> e_mem e' = write_bytes (e_mem e) hdr d"
proof -
  let ?r = "drop 4 (hex_text t d) @ cs"
  have tx: "hex_text t d @ cs = 42 # 42 # 24 # 66 # ?r" by (simp add: hex_text_def Let_def)
  define e0 where "e0 = with_zm (\<lambda>z. z\<lparr>Rxframeind := 0, Rxtype := 0\<rparr>) e"
  define g where "g = Zrwindow + ZModem_Baudrate (Zm e0)"
  have "line b (42 # 42 # 24 # 66 # ?r) e0" using assms(1) unfolding tx by (simp add: line_def e0_def with_zm_def)
  from READLINE_line [OF this] obtain e1 where
    e1: "READLINE_PF b e0 = Some (42, e1)" "same e0 e1" "line b (42 # 24 # 66 # ?r) e1" by auto
  from noxrd7_line [OF e1(3)] obtain e2 where
    e2: "noxrd7 b e1 = Some (42, e2)" "same e1 e2" "line b (24 # 66 # ?r) e2" by (auto simp: plain_def)
  from noxrd7_line [OF e2(3)] obtain e3 where
    e3: "noxrd7 b e2 = Some (24, e3)" "same e2 e3" "line b (66 # ?r) e3" by (auto simp: plain_def)
  from noxrd7_line [OF e3(3)] obtain e4 where
    e4: "noxrd7 b e3 = Some (66, e4)" "same e3 e4" "line b ?r e4" by (auto simp: plain_def)
  let ?e4 = "with_zm (\<lambda>z. z\<lparr>Rxframeind := ZHEX, Crc32 := 0\<rparr>) e4"
  have "line b ?r ?e4" using e4(3) by (simp add: line_def with_zm_def)
  from zrhhdr_text [OF this assms(2)] obtain e5 where
    e5: "zrhhdr b hdr ?e4 = Some (uint t, e5)" "e_mem e5 = write_bytes (e_mem ?e4) hdr d" by blast
  have f: "fifi (uint t) e5 = Some (Inl (uint t), e5)"
    using assms(3) by (auto simp: fifi_def GOTCAN_def GOTOR_def)
  have frame: "zg_frame b hdr 5 g e3 = Some (Inl (uint t), e5)"
    by (simp add: zg_frame_def e4(1) e5(1) f RCDO_def TIMEOUT_def ZBIN_def ZBIN32_def ZHEX_def [symmetric])
      (simp add: ZHEX_def)
  have "zgethdr b hdr e = Some (uint t, e5)"
    unfolding zgethdr_def Let_def e0_def [symmetric] g_def [symmetric]
    by (subst zgethdr_loop.simps, simp add: goto_def, subst zgethdr_loop.simps,
        simp add: e1(1) goto_def RCDO_def TIMEOUT_def CAN_def ZPAD_def, subst zgethdr_loop.simps,
        simp add: e2(1) goto_def ZPAD_def, subst zgethdr_loop.simps,
        simp add: e3(1) goto_def ZPAD_def RCDO_def TIMEOUT_def ZDLE_def frame)
  moreover have "e_mem e5 = write_bytes (e_mem e) hdr d"
    using e5(2) e1(2) e2(2) e3(2) e4(2) by (simp add: same_def with_zm_def e0_def)
  ultimately show ?thesis by blast
qed

lemma SerialOutStr_ready:
  assumes "tx_ready b (UART e)"
  shows "SerialOutStr b s n e = Some (e\<lparr>e_dev := send b (UART e) (read_bytes (e_mem e) s n) (e_dev e)\<rparr>)"
  using assms
proof (induction n arbitrary: s e)
  case (Suc n)
  then show ?case by (simp add: SerialOutChar_ready) (simp add: send_def)
qed (simp add: send_def)

text \<open>
  C30: a hex header survives the line. What \<open>zshhdr\<close> sends through a transmitter that is ready is a
  text from which \<open>zgethdr\<close>, on whatever line delivers it, gets the same type back and stores the same
  four position bytes: the framing, the hex digits and the checksum of the two routines agree.
\<close>

theorem hex_header_roundtrip:
  assumes "tx_ready b (UART e)" and "apart (obj e ''s'') 21 hdr 4" and "0 \<le> ty" and "ty < 128"
  shows "\<exists>cs e'. zshhdr b ty hdr e = Some e' \<and> e_dev e' = send b (UART e) cs (e_dev e) \<and>
    (\<forall>b2 e2 hdr2. typed b2 (UART e2) cs (e_dev e2) \<longrightarrow>
      (\<exists>e3. zgethdr b2 hdr2 e2 = Some (ty, e3) \<and> read_bytes (e_mem e3) hdr2 4 = read_bytes (e_mem e) hdr 4))"
proof -
  let ?s = "obj e ''s''" and ?d = "read_bytes (e_mem e) hdr 4" and ?t = "of_int ty :: u8"
  have m7: "ty AND 0x7F = ty"
  proof -
    have m: "(0x7F :: int) = mask 7" by (simp add: mask_eq_exp_minus_1)
    show ?thesis unfolding m take_bit_eq_mask [symmetric] using assms(3,4) by (simp add: take_bit_int_eq_self_iff)
  qed
  have t: "uint ?t = ty" using assms(3,4) by (simp add: unsigned_of_int take_bit_int_eq_self_iff)
  from hex_header_bytes [of ?s hdr ty "e_mem e"] apart_neq [OF assms(2)] obtain l where
    l: "hex_header ty hdr ?s (e_mem e) = (20 + length l, write_bytes (e_mem e) ?s (hex_text ?t ?d @ l))"
      "l = [] \<or> l = [0x11]" unfolding m7 by auto
  let ?cs = "hex_text ?t ?d @ l"
  have len: "length ?cs = 20 + length l" by (simp add: hex_text_def Let_def)
  have "read_bytes (write_bytes (e_mem e) ?s ?cs) ?s (20 + length l) = ?cs"
    by (rule nth_equalityI) (use len l(2) in \<open>auto simp: nth_read_bytes write_bytes_nth\<close>)
  then have "\<exists>e'. zshhdr b ty hdr e = Some e' \<and> e_dev e' = send b (UART e) ?cs (e_dev e)"
    using assms(1) by (simp add: zshhdr_def Let_def with_zm_def l(1) SerialOutStr_ready)
  moreover have "\<exists>e3. zgethdr b2 hdr2 e2 = Some (ty, e3) \<and> read_bytes (e_mem e3) hdr2 4 = ?d"
    if "typed b2 (UART e2) ?cs (e_dev e2)" for b2 e2 hdr2
  proof -
    have "line b2 ?cs e2" using that by (simp add: line_def)
    from zgethdr_text [OF this, of hdr2] t assms(4) obtain e3 where
      e3: "zgethdr b2 hdr2 e2 = Some (ty, e3)" "e_mem e3 = write_bytes (e_mem e2) hdr2 ?d" by auto
    moreover have "read_bytes (e_mem e3) hdr2 4 = ?d" unfolding e3(2)
      by (rule nth_equalityI) (simp_all add: nth_read_bytes write_bytes_nth)
    ultimately show ?thesis by blast
  qed
  ultimately show ?thesis by blast
qed


lemma script_exists: "\<exists>h. typed script_bus u cs h"
proof (induction cs)
  case (Cons c cs)
  then obtain h where "typed script_bus u cs h" by blast
  moreover obtain rs ws where "h = (rs, ws)" by (cases h)
  ultimately have "typed script_bus u (ucast (ucast c :: u32) # cs) (1 # 0 # ucast c # rs, ws)"
    by (intro script_typed) (simp_all add: LSR_DR_def)
  moreover have "ucast (ucast c :: u32) = c" by (rule bit_word_eqI) (simp add: bit_ucast_iff)
  ultimately show ?case by auto
qed (auto intro: typed_nil)

theorem hex_header_roundtrip_witness:
  "\<exists>cs e' h e3. zshhdr tty_bus 1 0x200 (ez_at ((\<lambda>_. 0)(0x200 := 1, 0x201 := 2, 0x202 := 3, 0x203 := 4)) [] (\<lambda>_. 0x100)) = Some e' \<and>
     e_dev e' = send tty_bus 0x40700000 cs [] \<and> typed script_bus 0x40700000 cs h \<and>
     zgethdr script_bus 0x300 (ez_at (\<lambda>_. 0) h (\<lambda>_. 0)) = Some (1, e3) \<and> read_bytes (e_mem e3) 0x300 4 = [1, 2, 3, 4]"
proof -
  let ?e = "ez_at ((\<lambda>_. 0)(0x200 := 1, 0x201 := 2, 0x202 := 3, 0x203 := 4)) [] (\<lambda>_. 0x100) :: u32 list ez"
  have r: "tx_ready tty_bus (UART ?e)" by (simp add: tx_ready_def tty_bus_def LSR_TDRQ_def)
  have a: "apart (obj ?e ''s'') 21 0x200 4" by (simp add: apart_def ez_at_def)
  have d: "read_bytes (e_mem ?e) 0x200 4 = [1, 2, 3, 4]"
  proof -
    have four: "(4 :: nat) = Suc (Suc (Suc (Suc 0)))" by simp
    show ?thesis unfolding four by (simp add: ez_at_def)
  qed
  have "\<exists>cs e'. zshhdr tty_bus 1 0x200 ?e = Some e' \<and> e_dev e' = send tty_bus (UART ?e) cs (e_dev ?e) \<and>
      (\<forall>b2 (e2 :: script ez) hdr2. typed b2 (UART e2) cs (e_dev e2) \<longrightarrow>
        (\<exists>e3. zgethdr b2 hdr2 e2 = Some (1, e3) \<and> read_bytes (e_mem e3) hdr2 4 = read_bytes (e_mem ?e) 0x200 4))"
    by (rule hex_header_roundtrip [OF r a]) simp_all
  then obtain cs e' where
    cs: "zshhdr tty_bus 1 0x200 ?e = Some e'" "e_dev e' = send tty_bus (UART ?e) cs (e_dev ?e)"
      "\<And>b2 (e2 :: script ez) hdr2. typed b2 (UART e2) cs (e_dev e2) \<Longrightarrow>
        \<exists>e3. zgethdr b2 hdr2 e2 = Some (1, e3) \<and> read_bytes (e_mem e3) hdr2 4 = read_bytes (e_mem ?e) 0x200 4"
    by blast
  obtain h where h: "typed script_bus 0x40700000 cs h" using script_exists by blast
  let ?e2 = "ez_at (\<lambda>_. 0) h (\<lambda>_. 0)"
  have u: "UART ?e2 = 0x40700000" "e_dev ?e2 = h" "UART ?e = 0x40700000" "e_dev ?e = []" by (simp_all add: ez_at_def)
  from cs(3) [of script_bus ?e2 "0x300"] h obtain e3 where
    "zgethdr script_bus 0x300 ?e2 = Some (1, e3)" "read_bytes (e_mem e3) 0x300 4 = [1, 2, 3, 4]"
    unfolding u d by blast
  with cs(1,2) h show ?thesis unfolding u by blast
qed

section \<open>What receiving data may write\<close>

abbreviation kept :: "mem \<Rightarrow> ('a \<times> 'h ez) option \<Rightarrow> bool" where
  "kept m \<equiv> ensures (\<lambda>e. e_mem e = m)"

lemma getc_wait_mem: "getc_wait b e = Some e' \<Longrightarrow> e_mem e' = e_mem e"
proof (erule getc_wait.raw_induct [where P = "\<lambda>b e e'. e_mem e' = e_mem e", rotated])
  fix f :: "'a bus \<Rightarrow> 'a ez \<Rightarrow> 'a ez option" and b e e'
  assume IH: "\<And>b e y. f b e = Some y \<Longrightarrow> e_mem y = e_mem e"
    and eq: "(let (ready, e) = SerialIsReadyChar b e in if ready then Some e else f b e) = Some e'"
  have "e_mem (snd (SerialIsReadyChar b e)) = e_mem e"
    by (simp add: SerialIsReadyChar_def rd_def Let_def case_prod_beta)
  with eq IH [of b "snd (SerialIsReadyChar b e)" e'] show "e_mem e' = e_mem e"
    by (simp add: Let_def case_prod_beta split: if_splits)
qed

lemma kept_READLINE [ensures_rules]: "e_mem e = m \<Longrightarrow> kept m (READLINE_PF b e)"
  unfolding ensures_def READLINE_PF_def getc_def SerialIsGetChar_def rd_def Let_def case_prod_beta bind_eq_Some_conv
  by (auto dest: getc_wait_mem)

lemma kept_next_if_can [ensures_rules]: "e_mem e = m \<Longrightarrow> kept m (next_if_can b c e)"
  unfolding next_if_can_def by (intro ensures_rules)

lemma kept_zdl_escape [ensures_rules]: "e_mem e = m \<Longrightarrow> kept m (zdl_escape b e)"
proof (hypsubst, rule ensures_option, erule zdl_escape.raw_induct [where P = "\<lambda>b e r. kept (e_mem e) (Some r)", rotated], goal_cases)
  case (1 _ f b e r)
  have "e_mem e = m \<Longrightarrow> kept m (f b e)" for b e m using 1(2) by (auto intro: ensures_option)
  then show ?case unfolding 1(3) [symmetric] by (intro ensures_rules; simp)
qed

lemma kept_zdlread2 [ensures_rules]: "e_mem e = m \<Longrightarrow> kept m (zdlread2 b c e)"
proof (hypsubst, rule ensures_option, erule zdlread2.raw_induct [where P = "\<lambda>b c e r. kept (e_mem e) (Some r)", rotated], goal_cases)
  case (1 _ f b c e r)
  have "e_mem e = m \<Longrightarrow> kept m (f b c e)" for b c e m using 1(2) by (auto intro: ensures_option)
  then show ?case unfolding 1(3) [symmetric] by (intro ensures_rules; simp)
qed

lemma kept_zdl8 [ensures_rules]: "e_mem e = m \<Longrightarrow> kept m (zdl8 b e)"
  unfolding zdl8_def zdlread_def by (intro ensures_rules; simp)

lemma kept_crc_bytes:
  "e_mem e = m \<Longrightarrow> crc_bytes (zdl8 b) upd k crc e = Some (r, crc', e') \<Longrightarrow> e_mem e' = m"
proof (induction k arbitrary: crc e)
  case (Suc k)
  from Suc.prems(2) obtain x e1 where x: "zdl8 b e = Some (x, e1)"
    "(case x of Inl c \<Rightarrow> Some (Some c, crc, e1) | Inr c \<Rightarrow> crc_bytes (zdl8 b) upd k (upd c crc) e1) = Some (r, crc', e')"
    by (auto simp: bind_eq_Some_conv)
  with ensuresD [OF kept_zdl8 [OF Suc.prems(1)]] Suc.IH [of e1] show ?case by (auto split: sum.splits)
qed simp

text \<open>The end of the data: the count is the one it was given, or 0 after anything but a frame end.\<close>

definition data_end :: "nat \<Rightarrow> mem \<Rightarrow> int \<times> nat \<times> 'h ez \<Rightarrow> bool" where
  "data_end cnt m r \<longleftrightarrow> (case r of (c, k, e') \<Rightarrow> (frame_end c \<and> k = cnt \<or> \<not> frame_end c \<and> k = 0) \<and> e_mem e' = m)"

lemma frame_end_codes [simp]: "\<not> frame_end ERROR" "\<not> frame_end ZCAN" "\<not> frame_end GOTCAN"
  by (simp_all add: frame_end_def GOTCRCE_def GOTCRCG_def GOTCRCQ_def GOTCRCW_def GOTOR_def ZCRCE_def ZCRCG_def
      ZCRCQ_def ZCRCW_def ERROR_def ZCAN_def GOTCAN_def)

lemma crcfoo_end:
  assumes "crcfoo (zdl8 b) upd n good cnt c crc e = Some r"
  shows "data_end cnt (e_mem e) r"
proof -
  have "rdr = zdl8 b \<longrightarrow> data_end cnt (e_mem e) r" if "crcfoo rdr upd n good cnt c crc e = Some r"
    for rdr :: "'a reader" and upd n good cnt c crc e r
    using that
  proof (rule crcfoo.raw_induct [where P = "\<lambda>rdr upd n good cnt c crc e r. rdr = zdl8 b \<longrightarrow> data_end cnt (e_mem e) r", rotated], goal_cases)
    case (1 f rdr upd n good cnt c crc e r)
    show ?case
    proof
      assume rdr: "rdr = zdl8 b"
      show "data_end cnt (e_mem e) r"
      proof (cases "frame_end c")
        case True
        with 1(2) obtain x crc' e1 where x: "crc_bytes (zdl8 b) upd n (upd (c AND 0xFF) crc) e = Some (x, crc', e1)"
          "(case x of None \<Rightarrow> if crc' \<noteq> good then Some (ERROR, 0, e1) else Some (c, cnt, e1)
            | Some c' \<Rightarrow> f rdr upd n good cnt c' crc' e1) = Some r"
          unfolding rdr by (auto simp: bind_eq_Some_conv)
        have "e_mem e1 = e_mem e" using kept_crc_bytes [OF refl x(1)] .
        with x(2) 1(1) [of rdr upd n good cnt _ crc' e1 r] rdr True show ?thesis
          by (auto simp: data_end_def split: option.splits if_splits)
      next
        case False
        with 1(2) show ?thesis by (cases "c = GOTCAN") (auto simp: data_end_def)
      qed
    qed
  qed
  from this [OF assms] show ?thesis by simp
qed

lemma data_loop_writes:
  assumes "data_loop (zdl8 b) upd k good left cnt (buf + of_nat cnt) crc e = Some (c, n, e')"
  shows "(frame_end c \<and> n < cnt + left \<or> \<not> frame_end c \<and> n = 0) \<and>
    (\<forall>x. (\<forall>i < cnt + left. x \<noteq> buf + of_nat i) \<longrightarrow> e_mem e' x = e_mem e x)"
  using assms
proof (induction left arbitrary: cnt crc e)
  case (Suc left)
  from Suc.prems obtain x e1 where x: "zdl8 b e = Some (x, e1)"
    "(case x of Inl c \<Rightarrow> crcfoo (zdl8 b) upd k good cnt c crc e1
      | Inr c \<Rightarrow> data_loop (zdl8 b) upd k good left (cnt + 1) (buf + of_nat cnt + 1) (upd c crc)
          (with_mem (\<lambda>m. m(buf + of_nat cnt := of_int c)) e1)) = Some (c, n, e')"
    by (auto simp: bind_eq_Some_conv)
  have m: "e_mem e1 = e_mem e" by (rule ensuresD [OF kept_zdl8 [OF refl] x(1)])
  show ?case
  proof (cases x)
    case (Inl c')
    with x(2) crcfoo_end [of b upd k good cnt c' crc e1] m show ?thesis by (auto simp: data_end_def)
  next
    case (Inr c')
    have s: "buf + of_nat cnt + 1 = buf + of_nat (cnt + 1)" by simp
    show ?thesis using x(2) Suc.IH [of "cnt + 1"] m unfolding Inr sum.case s by (fastforce simp del: of_nat_Suc of_nat_add)
  qed
qed simp

text \<open>
  C31: however long a subpacket a sender makes and whatever it contains, \<open>zrdata\<close> writes at most the
  \<open>length + 1\<close> bytes its buffers have, and reports at most \<open>length\<close> bytes received; it reports any only
  when a frame end and a good checksum followed them.
\<close>

theorem zrdata_stays_in_buffer:
  assumes "zrdata b buf n e = Some (c, k, e')"
  shows "k \<le> n \<and> (k \<noteq> 0 \<longrightarrow> frame_end c) \<and> (\<forall>x. (\<forall>i \<le> n. x \<noteq> buf + of_nat i) \<longrightarrow> e_mem e' x = e_mem e x)"
proof -
  have "(frame_end c \<and> k < 0 + (n + 1) \<or> \<not> frame_end c \<and> k = 0) \<and>
      (\<forall>x. (\<forall>i < 0 + (n + 1). x \<noteq> buf + of_nat i) \<longrightarrow> e_mem e' x = e_mem e x)"
  proof (cases "Rxframeind (Zm e) = ZBIN32")
    case True
    then show ?thesis using assms by (intro data_loop_writes) (simp add: zrdata_def zrdat32_def del: data_loop.simps)
  next
    case False
    then show ?thesis using assms by (intro data_loop_writes) (simp add: zrdata_def del: data_loop.simps)
  qed
  then show ?thesis by (auto simp: less_Suc_eq_le)
qed


text \<open>The sender sends U without end into a buffer of 2 bytes: 2 are taken, then the subpacket is given up.\<close>

theorem zrdata_stays_in_buffer_witness:
  "\<exists>e'. zrdata script_bus 0x100 1 (ez_at (\<lambda>_. 7) ([1, 0, 85, 1, 0, 85, 1, 0, 85], []) (\<lambda>_. 0)) = Some (ERROR, 0, e')
    \<and> e_mem e' 0x102 = 7"
proof -
  let ?e = "ez_at (\<lambda>_. 7) ([1, 0, 85, 1, 0, 85, 1, 0, 85], []) (\<lambda>_. 0) :: script ez"
  have read: "zdl8 script_bus e = Some (Inr 85, e\<lparr>e_dev := (rs, ws), SerialErrorFlag := 0\<rparr>)"
    if "e_dev e = (1 # 0 # 85 # rs, ws)" for e :: "script ez" and rs ws
    using that by (simp add: zdl8_def zdlread_def READLINE_PF_def getc_def getc_wait.simps SerialIsReadyChar_def
      SerialIsGetChar_def rd_def script_bus_def LSR_DR_def)
  have "\<exists>e'. zrdata script_bus 0x100 1 ?e = Some (ERROR, 0, e')"
    unfolding zrdata_def by (simp add: read ez_at_def with_mem_def ZBIN32_def)
  then obtain e' where e': "zrdata script_bus 0x100 1 ?e = Some (ERROR, 0, e')" by blast
  have "\<forall>i \<le> (1 :: nat). (0x102 :: u32) \<noteq> 0x100 + of_nat i" by (simp add: le_Suc_eq)
  with zrdata_stays_in_buffer [OF e'] have "e_mem e' 0x102 = e_mem ?e 0x102" by blast
  with e' show ?thesis by (simp add: ez_at_def)
qed

section \<open>The attention string\<close>

text \<open>At one of the two characters it looks for, \<open>zmputs\<close> comes back to itself with nothing changed.\<close>

lemma zmputs_stuck:
  assumes "s \<noteq> 0" and "e_mem e s \<noteq> 0" and "strpbrk (e_mem e) s (obj e ''meta'') = Some s"
  shows "zmputs b s e = None"
proof (rule ccontr)
  assume "zmputs b s e \<noteq> None"
  then obtain y where "zmputs b s e = Some y" by blast
  then have "\<not> (b = b \<and> s = s \<and> e = e)"
  proof (rule zmputs.raw_induct [where P = "\<lambda>b' s' e' y. \<not> (b' = b \<and> s' = s \<and> e' = e)", rotated], goal_cases)
    case (1 f b' s' e' y)
    show ?case
    proof
      assume "b' = b \<and> s' = s \<and> e' = e"
      with 1 assms show False by (auto simp: bind_eq_Some_conv)
    qed
  qed
  then show False by simp
qed

text \<open>
  C32: \<open>zmputs\<close> returns exactly for the strings that hold neither of the characters octal 335 and 336,
  and then it has sent the string. With one of them, which the protocol uses for a break and a pause,
  it sends what stands before it and never returns.
\<close>

theorem zmputs_returns_iff:
  assumes "tx_ready b (UART e)" and "cstr (e_mem e) s cs" and "cstr (e_mem e) (obj e ''meta'') [0xDD, 0xDE]"
    and "s \<noteq> 0" and "unat s + length cs < 2 ^ 32"
  shows "zmputs b s e = (if set cs \<inter> {0xDD, 0xDE} = {} then Some (e\<lparr>e_dev := send b (UART e) cs (e_dev e)\<rparr>) else None)"
proof (cases "set cs \<inter> {0xDD, 0xDE} = {}")
  case True
  have p: "strpbrk (e_mem e) s (obj e ''meta'') = Some 0" using strpbrk_cstr [OF assms(2,3)] True by simp
  have l: "unat (of_nat (length cs) :: u32) = length cs" using assms(5) by (simp add: unat_of_nat take_bit_nat_eq_self)
  have r: "read_bytes (e_mem e) s (length cs) = cs" using read_cstr [OF assms(2), of "length cs"] by simp
  show ?thesis
  proof (cases "cs = []")
    case True
    with assms show ?thesis by (simp add: zmputs.simps send_def)
  next
    case False
    then have "e_mem e s \<noteq> 0" using assms(2) by (cases cs) simp_all
    with assms(1,4) True p l show ?thesis
      by (subst zmputs.simps) (simp add: strlen_cstr [OF assms(2)] SerialOutStr_ready r)
  qed
next
  case False
  let ?k = "length (takeWhile (\<lambda>c. c \<notin> {0xDD, 0xDE}) cs)"
  let ?ds = "dropWhile (\<lambda>c. c \<notin> {0xDD, 0xDE}) cs"
  let ?p = "s + of_nat ?k"
  have cs: "cs = takeWhile (\<lambda>c. c \<notin> {0xDD, 0xDE}) cs @ ?ds" by simp
  have p: "strpbrk (e_mem e) s (obj e ''meta'') = Some ?p"
    using strpbrk_cstr [OF assms(2,3)] False by (simp only: list.set if_False)
  have ds: "?ds \<noteq> []" using False by auto
  then have hd: "hd ?ds \<in> {0xDD, 0xDE}" using hd_dropWhile [OF ds] by simp
  have c: "cstr (e_mem e) ?p ?ds" using assms(2) using cstr_append by (metis cs)
  have k: "?k < length cs" using ds by (metis cs length_append length_greater_0_conv less_add_same_cancel1)
  have up: "unat ?p = unat s + ?k" by (rule unat_plus_small) (use k assms(5) in simp)
  then have p0: "?p \<noteq> 0" using assms(4) by (metis add_is_0 unat_0 unat_eq_zero)
  have stuck: "zmputs b ?p e' = None" if "e_mem e' = e_mem e" "e_addr e' = e_addr e" for e'
  proof (rule zmputs_stuck [OF p0])
    have "cstr (e_mem e') (obj e' ''meta'') [0xDD, 0xDE]" "cstr (e_mem e') ?p ?ds" using that assms(3) c by simp_all
    from strpbrk_cstr [OF this(2,1)] ds hd show "strpbrk (e_mem e') ?p (obj e' ''meta'') = Some ?p"
      by (cases ?ds) auto
    show "e_mem e' ?p \<noteq> 0" using \<open>cstr (e_mem e') ?p ?ds\<close> ds by (cases ?ds) auto
  qed
  have s0: "e_mem e s \<noteq> 0" using assms(2) k by (cases cs) auto
  show ?thesis
  proof (cases "?k = 0")
    case True
    with stuck [of e] False show ?thesis by simp
  next
    case k0: False
    then have "?p \<noteq> s" using up by auto
    with s0 p p0 assms(1,4) stuck have "zmputs b s e = None"
      by (subst zmputs.simps) (simp add: SerialOutStr_ready)
    with False show ?thesis by simp
  qed
qed


theorem zmputs_returns_iff_witness:
  "(\<exists>e'. zmputs tty_bus 0x100 (ez_at ((\<lambda>_. 0)(0x100 := 65, 0x200 := 0xDD, 0x201 := 0xDE)) [] (\<lambda>_. 0x200)) = Some e' \<and> e_dev e' = [65]) \<and>
   zmputs tty_bus 0x100 (ez_at ((\<lambda>_. 0)(0x100 := 65, 0x101 := 0xDE, 0x200 := 0xDD, 0x201 := 0xDE)) [] (\<lambda>_. 0x200)) = None"
proof
  let ?e = "ez_at ((\<lambda>_. 0)(0x100 := 65, 0x200 := 0xDD, 0x201 := 0xDE)) [] (\<lambda>_. 0x200) :: u32 list ez"
  have r: "tx_ready tty_bus u" for u by (simp add: tx_ready_def tty_bus_def LSR_TDRQ_def)
  have "zmputs tty_bus 0x100 ?e = Some (?e\<lparr>e_dev := send tty_bus (UART ?e) [65] []\<rparr>)"
    by (subst zmputs_returns_iff [OF r, where cs = "[65]"]) (simp_all add: ez_at_def)
  then show "\<exists>e'. zmputs tty_bus 0x100 ?e = Some e' \<and> e_dev e' = [65]" by (simp add: send_def tty_bus_def)
  show "zmputs tty_bus 0x100 (ez_at ((\<lambda>_. 0)(0x100 := 65, 0x101 := 0xDE, 0x200 := 0xDD, 0x201 := 0xDE)) [] (\<lambda>_. 0x200)) = None"
    by (subst zmputs_returns_iff [OF r, where cs = "[65, 0xDE]"]) (simp_all add: ez_at_def)
qed

end
