(* ===== verification/Boot_Help.thy ===== *)
theory Boot_Help
  imports Boot_Config
begin

text \<open>
  The help command: \<open>help.c\<close>. A text is its lines; each of the names it is compared with is a
  string literal, an object by that name.
\<close>

definition text_lines :: "string list \<Rightarrow> string" where
  "text_lines ls = concat (map (\<lambda>l. l @ [NL]) ls)"

definition HelpList :: "'h ez \<Rightarrow> 'h ez" where
  "HelpList e = say (text_lines
    ['''',
    ''  Memory dump        : MD, MWB, MWW, MWL'',
    ''  Download by ZModem : ZFB, ZFK, ZFR, ZMK, ZMR, ZF, ZM'',
    ''  Download by TFTP   : TFB, TFK, TFR, TMK, TMR, TF, TM'',
    ''  Copy               : MFK, MFR, FMK, FMR'',
    ''  Erase Partition    : NEK, NER, NEA'',
    ''  Network            : ARP, PING'',
    ''  System             : RST, GK, GO'',
    ''  Confiruation       : SET'',
    '''',
    ''  More Help          : HELP [cmd]'']) [] e"

definition HELP_TABLE :: "string list list" where
  "HELP_TABLE =
   [[''RST   * Software Reset''],
    [''GK    * Jump Kernel'', ''      * Has been copyed the Kernel to SDRAM''],
    [''GO [ADDR]  * Jump Address'', ''           * Has been copyed the ADDR to SDRAM'', ''           * ex) GO 0xA1200000''],
    [''SET   * Set the EZBOOT Configuration value'', ''      * must be set for Networking''],
    [''MD [ADDR] [COUNT]'', ''      * Memory or Register Dump'', ''      * ex) MD 0xA0F00000 32''],
    [''MWB [ADDR] [db] * Write to Memory, Byte-Size'', ''                * ex) MWB 0xA1200000 0x12''],
    [''MWW [ADDR] [dw] * Write to Memory, Word-Size'', ''                * ex) MWW 0xA1200000 0x1234''],
    [''MWL [ADDR] [dl] * Write to Memory or Register, DWord-Size'', ''                * ex) MWB 0xA1200000 0x12345678''],
    [''ZFB   * Download to FLASH on [fixed Boot-Loader Address] -- ZModem''],
    [''ZFK   * Download to FLASH on [fixed Kernel Address] -- ZModem''],
    [''ZFR   * Download to FLASH on [fixed Ramdisk Address] -- ZModem''],
    [''ZMK   * Download to SDRAM on [fixed Kernel Address] -- ZModem''],
    [''ZMR   * Download to SDRAM on [fixed Ramdisk Address] -- ZModem''],
    [''ZF [FLASH-ADDR]  * Download on [FLASH-ADDR] -- ZModem''],
    [''ZM [SDRAM-ADDR]  * Download on [SDRAM-ADDR] -- ZModem''],
    [''TFB   * Download to [fixed Boot-Loader FLASH-Address] -- TFTP'', ''      * must be set Local-IP, Host-IP, ezboot-name'', ''      * and active TFTP server on Linux-Host''],
    [''TFK   * Download to [fixed Kernel FLASH-Address] -- TFTP'', ''      * must be set Local-IP, Host-IP, Kernel-name'', ''      * and active TFTP server on Linux-Host''],
    [''TFR   * Download to [fixed Ramdisk FLASH-Address] -- TFTP'', ''      * must be set Local-IP, Host-IP, Ramdisk-name'', ''      * and active TFTP server on Linux-Host''],
    [''TMK   * Download to [fixed Kernel SDRAM-Address] -- TFTP'', ''      * must be set Local-IP, Host-IP, Kernel-name'', ''      * and active TFTP server on Linux-Host''],
    [''TMR   * Download to [fixed Ramdisk SDRAM-Address] -- TFTP'', ''      * must be set Local-IP, Host-IP, Ramdisk-name'', ''      * and active TFTP server on Linux-Host''],
    [''TF [FLASH-ADDR] [File]'', ''      * Download to [FLASH-ADDR] to [File]  -- TFTP'', ''      * must be set Local-IP, Host-IP, Ramdisk-name'', ''      * and active TFTP server on Linux-Host'', ''      * ex) TF 0x40000, test.img''],
    [''TM [SDRAM-ADDR] [File]'', ''      * Download to [SDRAM-ADDR] to [File]  -- TFTP'', ''      * must be set Local-IP, Host-IP, Ramdisk-name'', ''      * and active TFTP server on Linux-Host'', ''      * ex) TM 0xA1200000, test.img''],
    [''MFK   * Copy from SDRAM to FLASH by Kernel-Address'', ''      * and then type command GK''],
    [''MFR   * Copy from SDRAM to FLASH by Ramdisk-Address'', ''      * and then type command MFK, GK''],
    [''MF [SDRAM-ADDR] [FLASH-ADDR] [COUNT]'', ''      * Copy from [SDRAM-ADDR] to [FLASH-ADDR]'', ''      * ex) MF 0xA1200000 0x40000 0x100''],
    [''FMK   * Copy from FLASH to SDRAM by Kernel-Address'', ''      * used when save to FLASH''],
    [''FMR   * Copy from FLASH to SDRAM by Ramdisk-Address'', ''      * used when save to FLASH''],
    [''FM [FLASH-ADDR] [SDRAM-ADDR] [COUNT]'', ''      * Copy from [FLASH-ADDR] to [SDRAM-ADDR]'', ''      * ex) FM 0x40000 0xA1200000 0x100''],
    [''NEK   * Erase NAND-FLASH Kernel partition''],
    [''NER   * Erase NAND-FLASH Ramdisk partition''],
    [''NEA   * Erase NAND-FLASH Application partition''],
    [''ARP   * Get Host Mac Address from Host''],
    [''PING [IP] * Send Echo Protocol to [IP]'', ''          * PING 192.168.10.20'']]"

text \<open>The names \<open>HelpItem\<close> compares with, in the order of the table.\<close>

definition help_names :: "string list" where
  "help_names =
   [''RST'', ''GK'', ''GO'', ''SET'', ''MD'', ''MWB'', ''MWW'', ''MWL'', ''ZFB'', ''ZFK'', ''ZFR'', ''ZMK'', ''ZMR'', ''ZF'', ''ZM'', ''TFB'', ''TFK'', ''TFR'', ''TMK'', ''TMR'', ''TF'', ''TM'', ''MFK'', ''MFR'', ''MF'', ''FMK'', ''FMR'', ''FM '', ''NEK'', ''NER'', ''NEA'', ''ARP'', ''PING'']"

partial_function (option) upper_loop :: "u32 \<Rightarrow> mem \<Rightarrow> mem option" where
  "upper_loop p m =
     (if m p = 0 then Some m else upper_loop (p + 1) (if 0x60 < m p then m(p := m p - 0x20) else m))"

text \<open>The index of the first name equal to the string at \<open>p\<close>.\<close>

primrec find_name :: "string list \<Rightarrow> u32 \<Rightarrow> 'h ez \<Rightarrow> nat option option" where
  "find_name [] p e = Some None"
| "find_name (n # ns) p e = do {
     r \<leftarrow> strcmp (e_mem e) (obj e n) p;
     if r = 0 then Some (Some 0)
     else do { i \<leftarrow> find_name ns p e; Some (map_option Suc i) } }"

definition HelpItem :: "u32 \<Rightarrow> 'h ez \<Rightarrow> 'h ez option" where
  "HelpItem helpcmd e = do {
     e \<leftarrow> with_mem_opt (upper_loop helpcmd) e;
     i \<leftarrow> find_name help_names helpcmd e;
     case i of
       None \<Rightarrow> Some e
     | Some i \<Rightarrow> Some (say (text_lines (HELP_TABLE ! i)) [] (say [NL] [] e)) }"

definition Help :: "u32 list \<Rightarrow> 'h ez \<Rightarrow> (int \<times> 'h ez) option" where
  "Help argv e =
     (if length argv = 1 then Some (0, HelpList e)
      else do { e \<leftarrow> HelpItem (argv ! 1) e; Some (0, e) })"

end
