(* ===== verification/Boot_Shell.thy ===== *)
theory Boot_Shell
  imports Boot_Tftp Boot_Zmodem Boot_Help
begin

text \<open>
  The commands of \<open>ram_cmd.c\<close>, \<open>go_cmd.c\<close>, \<open>flash_cmd.c\<close> and \<open>zmodem_cmd.c\<close>, and the shell of
  \<open>main.c\<close>. A command's \<open>argc\<close> is the length of its \<open>argv\<close>. A jump to code that is not part of the
  program ends the model: it is an outcome with the address and the arguments. Addresses the user
  gives are taken as memory, not as registers.
\<close>

section \<open>Memory commands\<close>

definition dump_char :: "u8 \<Rightarrow> 'h ez \<Rightarrow> 'h ez" where
  "dump_char c e = (if c < 32 then say ''.'' [] e else if c > 126 then say ''.'' [] e else say ''%c'' [ucast c] e)"

text \<open>One line of 16 bytes, in four groups, and as characters.\<close>

definition dump_line :: "u32 \<Rightarrow> 'h ez \<Rightarrow> 'h ez" where
  "dump_line p e =
     (let e = say ''%04X-%04X :'' [drop_bit 16 p AND 0xFFFF, p AND 0xFFFF] e;
          e = fold (\<lambda>lp2 e.
                say '' '' [] (fold (\<lambda>lp3 e. say ''%02X'' [ucast (e_mem e (p + lp2 * 4 + lp3)) AND 0xFF] e) [0, 1, 2, 3] e))
                [0, 1, 2, 3] e;
          e = say ''  '' [] e;
          e = fold (\<lambda>lp3 e. dump_char (e_mem e (p + lp3)) e)
                [0, 1, 2, 3, 4, 5, 6, 7, 8, 9, 10, 11, 12, 13, 14, 15] e
      in say [NL] [] e)"

primrec dump_loop :: "nat \<Rightarrow> u32 \<Rightarrow> 'h ez \<Rightarrow> u32 \<times> 'h ez" where
  "dump_loop 0 p e = (p, e)"
| "dump_loop (Suc n) p e = dump_loop n (p + 16) (dump_line p e)"

text \<open>\<open>lp1\<close> goes from 0 up to \<open>size * 4\<close> in steps of 16.\<close>

definition MemoryHexDump :: "u32 \<Rightarrow> int \<Rightarrow> 'h ez \<Rightarrow> 'h ez" where
  "MemoryHexDump address sz e =
     (let (p, e) = dump_loop (nat ((wrap32 (sz * 4) + 15) div 16)) address e in e\<lparr>LastRamDumpAddress := p\<rparr>)"

definition RamDump :: "u32 list \<Rightarrow> 'h ez \<Rightarrow> (int \<times> 'h ez) option" where
  "RamDump argv e =
     (if length argv = 1 then Some (0, MemoryHexDump (LastRamDumpAddress e) 16 e)
      else if length argv = 2 then do {
        (a, _) \<leftarrow> strtoul (e_mem e) (argv ! 1) 0;
        Some (0, MemoryHexDump a 16 (e\<lparr>LastRamDumpAddress := a\<rparr>)) }
      else if length argv = 3 then do {
        (a, _) \<leftarrow> strtoul (e_mem e) (argv ! 1) 0;
        (n, _) \<leftarrow> strtoul (e_mem e) (argv ! 2) 0;
        let sz = (if sint n < 0 then wrap32 (- sint n) else sint n);
        Some (0, MemoryHexDump a sz (e\<lparr>LastRamDumpAddress := a\<rparr>)) }
      else Some (-1, say ''Argument Count Error!'' [] e))"

text \<open>The values of the arguments, one after the other, from \<open>p\<close> on: bytes, half words or words.\<close>

primrec write_args :: "u32 \<Rightarrow> (mem \<Rightarrow> u32 \<Rightarrow> u32 \<Rightarrow> mem) \<Rightarrow> u32 list \<Rightarrow> u32 \<Rightarrow> 'h ez \<Rightarrow> 'h ez option" where
  "write_args width store [] p e = Some e"
| "write_args width store (a # as) p e = do {
     (v, _) \<leftarrow> strtoul (e_mem e) a 0;
     write_args width store as (p + width) (with_mem (\<lambda>m. store m p v) e) }"

definition ram_write :: "u32 \<Rightarrow> (mem \<Rightarrow> u32 \<Rightarrow> u32 \<Rightarrow> mem) \<Rightarrow> u32 list \<Rightarrow> 'h ez \<Rightarrow> (int \<times> 'h ez) option" where
  "ram_write width store argv e =
     (if length argv < 3 then Some (-1, say ''Argument Count Error!'' [] e)
      else do {
        (p, _) \<leftarrow> strtoul (e_mem e) (argv ! 1) 0;
        e \<leftarrow> write_args width store (drop 2 argv) p e;
        Some (0, e) })"

definition RamWriteChar :: "u32 list \<Rightarrow> 'h ez \<Rightarrow> (int \<times> 'h ez) option" where
  "RamWriteChar argv e = ram_write 1 (\<lambda>m p v. m(p := ucast v)) argv e"

definition RamWriteWord :: "u32 list \<Rightarrow> 'h ez \<Rightarrow> (int \<times> 'h ez) option" where
  "RamWriteWord argv e = ram_write 2 (\<lambda>m p v. st16 m p (ucast v)) argv e"

definition RamWriteLong :: "u32 list \<Rightarrow> 'h ez \<Rightarrow> (int \<times> 'h ez) option" where
  "RamWriteLong argv e = ram_write 4 st32 argv e"

section \<open>Starting code\<close>

datatype 'h outcome = Back "'h ez" | Jump u32 "u32 list" "'h ez"

definition DEFAULT_RAM_KERNEL_ZERO_PAGE :: u32 where "DEFAULT_RAM_KERNEL_ZERO_PAGE = 0xA0000000"

definition GoKernelSingle :: "'h ez \<Rightarrow> 'h outcome option" where
  "GoKernelSingle e = do {
     let kcmd = obj e ''kcmd'';
     let e = with_mem (\<lambda>m. memset 2048 m kcmd 0) e;
     (_, e) \<leftarrow> GetKCmdStr kcmd e;
     let e = say ''Starting kernel [MARCH %d]...'' [cfg32 O_Kernel_ArchNumber e] e;
     let e = with_mem (\<lambda>m. memcpy 2048 m DEFAULT_RAM_KERNEL_ZERO_PAGE kcmd) e;
     Some (Jump DEFAULT_RAM_KERNEL_START [0, cfg32 O_Kernel_ArchNumber e] e) }"

definition GoKernel :: "'h bus \<Rightarrow> 'h ez \<Rightarrow> 'h outcome option" where
  "GoKernel b e =
     GoKernelSingle
       (if cfg8 O_Watchdog e \<noteq> 0 then SetWatchdog b (uint (cfg8 O_Watchdog e) * 1000) e else e)"

text \<open>With \<open>argc = 1\<close> the test lets \<open>argv[1]\<close> be read, an entry \<open>parse_args\<close> has not set.\<close>

definition GoFunction :: "(nat \<Rightarrow> u32) \<Rightarrow> u32 list \<Rightarrow> 'h ez \<Rightarrow> 'h outcome option" where
  "GoFunction stale argv e =
     (if length argv < 1 then Some (Back e)
      else do {
        (a, _) \<leftarrow> strtoul (e_mem e) (if length argv < 2 then stale 1 else argv ! 1) 0;
        Some (Jump a [] e) })"

section \<open>NAND commands\<close>

definition CopyImage :: "'h bus \<Rightarrow> 'h ez \<Rightarrow> 'h ez option" where
  "CopyImage b e = do {
     (_, e) \<leftarrow> CopyTo_SDRAM_Kernel b DEFAULT_RAM_KERNEL_START (say ''Copy Kernel Image .....'' [] e);
     if cfg8 O_UseRamdisk e = 89 \<or> cfg8 O_UseRamdisk e = 121 then do {
       (_, e) \<leftarrow> CopyTo_SDRAM_Ramdisk b DEFAULT_RAM_RAMDISK_START (say ''Copy Ramdisk Image .....'' [] e);
       Some e }
     else Some e }"

definition ErasePartiotion :: "'h bus \<Rightarrow> u32 list \<Rightarrow> 'h ez \<Rightarrow> (int \<times> 'h ez) option" where
  "ErasePartiotion b argv e =
     (let ee = \<not> (length argv \<ge> 2 \<and> toupper (e_mem e (argv ! 1)) = 69);
          c = e_mem e (argv ! 0 + 2)
      in if c = 75 then do { (_, e) \<leftarrow> Nand_ErasePartition b PARTITION_NUM_KERNEL ee e; Some (0, e) }
         else if c = 82 then do { (_, e) \<leftarrow> Nand_ErasePartition b PARTITION_NUM_RAMDISK ee e; Some (0, e) }
         else if c = 65 then do { (_, e) \<leftarrow> Nand_ErasePartition b PARTITION_NUM_APPIMAGE False e; Some (0, e) }
         else Some (-1, e))"

section \<open>ZMODEM commands\<close>

text \<open>Receives into the work area; the file name \<open>test.txt\<close> is a literal.\<close>

definition zm_receive :: "'h bus \<Rightarrow> 'h ez \<Rightarrow> (int \<times> 'h ez) option" where
  "zm_receive b e = do {
     (sz, e) \<leftarrow> rz b (obj e ''test.txt'') DEFAULT_RAM_WORK_START e;
     Some (sz, if sz < 0 then say ''ZModem Resive Error!'' [] e
               else say ''ZModem Resive Size %d'' [word_of_int sz] e) }"

text \<open>\<open>memcpy\<close> with an \<open>int\<close> as its size.\<close>

definition copy_work :: "u32 \<Rightarrow> int \<Rightarrow> 'h ez \<Rightarrow> 'h ez" where
  "copy_work dest sz e = with_mem (\<lambda>m. memcpy (unat (word_of_int sz :: u32)) m dest DEFAULT_RAM_WORK_START) e"

definition ZModem_Memory :: "'h bus \<Rightarrow> u32 list \<Rightarrow> 'h ez \<Rightarrow> (int \<times> 'h ez) option" where
  "ZModem_Memory b argv e =
     (if length argv \<noteq> 2 then Some (-1, say ''Argument Count Error!'' [] e)
      else do {
        (sz, e) \<leftarrow> zm_receive b e;
        (To, _) \<leftarrow> strtoul (e_mem e) (argv ! 1) 0;
        Some (0, if to_flash argv e then say ''(not done yet)'' [] e else copy_work To sz e) })"

definition ZModem_FlashBoot :: "'h bus \<Rightarrow> 'h ez \<Rightarrow> (int \<times> 'h ez) option" where
  "ZModem_FlashBoot b e = do {
     (sz, e) \<leftarrow> zm_receive b e;
     if sz < 0 then Some (-1, e)
     else do {
       (_, e) \<leftarrow> CopyTo_BootFlashEx b DEFAULT_FLASH_BOOT DEFAULT_RAM_WORK_START ((sz + 1) AND (DEFAULT_BOOT_SIZE - 2)) True e;
       Some (0, e) } }"

definition ZModem_Kernel :: "'h bus \<Rightarrow> u32 list \<Rightarrow> 'h ez \<Rightarrow> (int \<times> 'h ez) option" where
  "ZModem_Kernel b argv e = do {
     (sz, e) \<leftarrow> zm_receive b e;
     if sz < 0 then Some (-1, e)
     else if to_flash argv e then do {
       (_, e) \<leftarrow> CopyTo_NandFlash_Kernel b DEFAULT_RAM_WORK_START sz e; Some (0, e) }
     else Some (0, copy_work DEFAULT_RAM_KERNEL_START sz e) }"

definition ZModem_RamDisk :: "'h bus \<Rightarrow> u32 list \<Rightarrow> 'h ez \<Rightarrow> (int \<times> 'h ez) option" where
  "ZModem_RamDisk b argv e = do {
     (sz, e) \<leftarrow> zm_receive b e;
     if sz < 0 then Some (-1, e)
     else if to_flash argv e then do {
       (_, e) \<leftarrow> CopyTo_NandFlash_Ramdisk b DEFAULT_RAM_WORK_START sz e; Some (0, e) }
     else Some (0, copy_work DEFAULT_RAM_RAMDISK_START sz e) }"

section \<open>The command table\<close>

datatype command = C_Help | C_Soft_Reset | C_TestFunction | C_Arp | C_Ping | C_GoKernel | C_GoFunction
  | C_RamDump | C_RamWriteChar | C_RamWriteWord | C_RamWriteLong | C_ErasePartiotion
  | C_ZModem_Kernel | C_ZModem_RamDisk | C_ZModem_FlashBoot | C_ZModem_Memory
  | C_Tftp_Kernel | C_Tftp_RamDisk | C_Tftp_FlashBoot | C_Tftp | C_ModifyCfg

definition Cmds :: "(string \<times> command) list" where
  "Cmds = [
     (''HELP'', C_Help), (''?'', C_Help),
     (''RST'', C_Soft_Reset), (''TST'', C_TestFunction),
     (''ARP'', C_Arp), (''PING'', C_Ping),
     (''GK'', C_GoKernel), (''GO'', C_GoFunction),
     (''MD'', C_RamDump), (''MWB'', C_RamWriteChar), (''MWW'', C_RamWriteWord), (''MWL'', C_RamWriteLong),
     (''NEK'', C_ErasePartiotion), (''NER'', C_ErasePartiotion), (''NEA'', C_ErasePartiotion),
     (''ZMK'', C_ZModem_Kernel), (''ZFK'', C_ZModem_Kernel), (''ZMR'', C_ZModem_RamDisk), (''ZFR'', C_ZModem_RamDisk),
     (''ZFB'', C_ZModem_FlashBoot), (''ZM'', C_ZModem_Memory), (''ZF'', C_ZModem_Memory),
     (''TMK'', C_Tftp_Kernel), (''TFK'', C_Tftp_Kernel), (''TMR'', C_Tftp_RamDisk), (''TFR'', C_Tftp_RamDisk),
     (''TFB'', C_Tftp_FlashBoot), (''TM'', C_Tftp), (''TF'', C_Tftp),
     (''SET'', C_ModifyCfg)]"

definition Soft_Reset :: "'h bus \<Rightarrow> 'h ez \<Rightarrow> int \<times> 'h ez" where
  "Soft_Reset b e = (0, SetWatchdog b 10 (say ''System Soft Reset.......'' [] e))"

text \<open>The shell does not use the result of a command.\<close>

definition ended :: "(int \<times> 'h ez) option \<Rightarrow> 'h outcome option" where
  "ended r = map_option (\<lambda>(_, e). Back e) r"

fun run_command :: "'h bus \<Rightarrow> (nat \<Rightarrow> u32) \<Rightarrow> command \<Rightarrow> u32 list \<Rightarrow> 'h ez \<Rightarrow> 'h outcome option" where
  "run_command b stale C_Help argv e = ended (Help argv e)"
| "run_command b stale C_Soft_Reset argv e = ended (Some (Soft_Reset b e))"
| "run_command b stale C_TestFunction argv e = Some (Back e)"
| "run_command b stale C_Arp argv e = ended (Arp b e)"
| "run_command b stale C_Ping argv e = ended (Ping b argv e)"
| "run_command b stale C_GoKernel argv e = GoKernel b e"
| "run_command b stale C_GoFunction argv e = GoFunction stale argv e"
| "run_command b stale C_RamDump argv e = ended (RamDump argv e)"
| "run_command b stale C_RamWriteChar argv e = ended (RamWriteChar argv e)"
| "run_command b stale C_RamWriteWord argv e = ended (RamWriteWord argv e)"
| "run_command b stale C_RamWriteLong argv e = ended (RamWriteLong argv e)"
| "run_command b stale C_ErasePartiotion argv e = ended (ErasePartiotion b argv e)"
| "run_command b stale C_ZModem_Kernel argv e = ended (ZModem_Kernel b argv e)"
| "run_command b stale C_ZModem_RamDisk argv e = ended (ZModem_RamDisk b argv e)"
| "run_command b stale C_ZModem_FlashBoot argv e = ended (ZModem_FlashBoot b e)"
| "run_command b stale C_ZModem_Memory argv e = ended (ZModem_Memory b argv e)"
| "run_command b stale C_Tftp_Kernel argv e = ended (Tftp_Kernel b argv e)"
| "run_command b stale C_Tftp_RamDisk argv e = ended (Tftp_RamDisk b argv e)"
| "run_command b stale C_Tftp_FlashBoot argv e = ended (Tftp_FlashBoot b e)"
| "run_command b stale C_Tftp argv e = ended (Tftp b argv e)"
| "run_command b stale C_ModifyCfg argv e = ended (ModifyCfg b e)"

text \<open>The first command whose name is the string at \<open>p\<close>; \<open>CmdStr\<close> is an object by its name.\<close>

primrec find_command :: "(string \<times> command) list \<Rightarrow> u32 \<Rightarrow> 'h ez \<Rightarrow> command option option" where
  "find_command [] p e = Some None"
| "find_command (nc # cs) p e = do {
     r \<leftarrow> strcmp (e_mem e) p (obj e (fst nc));
     if r = 0 then Some (Some (snd nc)) else find_command cs p e }"

section \<open>The shell\<close>

text \<open>\<open>parse_args\<close>; \<open>delim\<close> holds blank, form feed, line feed, carriage return and the tabs.\<close>

definition parse_args :: "u32 \<Rightarrow> 'h ez \<Rightarrow> (u32 list \<times> 'h ez) option" where
  "parse_args cmdline e = tokens cmdline (obj e ''delim'') e"

text \<open>One line: \<open>stale\<close> is what \<open>argv\<close> holds beyond the tokens.\<close>

definition shell_line :: "'h bus \<Rightarrow> (nat \<Rightarrow> u32) \<Rightarrow> 'h ez \<Rightarrow> 'h outcome option" where
  "shell_line b stale e = do {
     (argv, e) \<leftarrow> parse_args (obj e ''ReadBuffer'') e;
     if argv = [] then Some (Back e)
     else do {
       e \<leftarrow> with_mem_opt (\<lambda>m. UpperStr m (argv ! 0)) e;
       c \<leftarrow> find_command Cmds (argv ! 0) e;
       case c of
         None \<Rightarrow> Some (Back e)
       | Some c \<Rightarrow> do {
           r \<leftarrow> run_command b stale c argv e;
           case r of Back e \<Rightarrow> Some (Back (say [NL] [] e)) | Jump a args e \<Rightarrow> Some (Jump a args e) } } }"

definition read_line :: "'h bus \<Rightarrow> 'h ez \<Rightarrow> 'h ez option" where
  "read_line b e = do {
     let e = say ''EZBOOT>'' [] e;
     let buf = obj e ''ReadBuffer'';
     let e = with_mem (\<lambda>m. memset 1024 m buf 0) e;
     (_, e) \<leftarrow> gets_his b buf e;
     Some (say [NL] [] e) }"

partial_function (option) shell_loop :: "'h bus \<Rightarrow> (nat \<Rightarrow> u32) \<Rightarrow> 'h ez \<Rightarrow> 'h outcome option" where
  "shell_loop b stale e = do {
     e \<leftarrow> read_line b e;
     r \<leftarrow> shell_line b stale e;
     case r of Back e \<Rightarrow> shell_loop b stale e | Jump a args e \<Rightarrow> Some (Jump a args e) }"

definition set_leds :: "'h bus \<Rightarrow> bool list \<Rightarrow> 'h ez \<Rightarrow> 'h ez" where
  "set_leds b on e = fold (\<lambda>i. GPIO_SetLED b (int i) (on ! i)) [0, 1, 2, 3] e"

definition LedBlink :: "'h bus \<Rightarrow> 'h ez \<Rightarrow> 'h ez option" where
  "LedBlink b e = do {
     let delay = (if cfg32 O_AutoBootWaitTime e \<ge> 2 then 250 else 50);
     e \<leftarrow> msleep b delay (set_leds b [True, False, True, False] e);
     e \<leftarrow> msleep b delay (set_leds b [False, True, False, True] e);
     Some (set_leds b [False, False, False, False] e) }"

definition BAUD_115200 :: u32 where "BAUD_115200 = 8"

text \<open>The initialisation, up to the choice between booting and the prompt.\<close>

definition boot_init :: "'h bus \<Rightarrow> 'h ez \<Rightarrow> 'h ez option" where
  "boot_init b e = do {
     e \<leftarrow> TimerInit b (LoadConfig b e);
     let e = SerialInit b (cfg32 O_SeriaNumber e) BAUD_115200 e;
     let e = with_zm (\<lambda>z. z\<lparr>ZModem_Baudrate := 115200\<rparr>) e;
     let e = say [NL, NL] [] e;
     let e = say ''WELCOME EZBOOT.X5 V1.8...................for PXA255'' [] e;
     let e = say ''Program by You Young-chang, fooji (FALinux Co.,Ltd)'' [] e;
     let e = say ''Last Modify %s'' [obj e ''__DATE__''] e;
     e \<leftarrow> LedBlink b e;
     let (_, e) = BootFlash_Init b e;
     let e = say [NL] [] e;
     (_, e) \<leftarrow> NandFlash_Init b e;
     let e = say [NL] [] e;
     let (_, e) = CS8900_Init b e;
     Some (say [NL] [] e) }"

text \<open>The boot menu key stops the automatic boot; without it the images are copied and the kernel starts.\<close>

definition autoboot :: "'h bus \<Rightarrow> 'h ez \<Rightarrow> 'h outcome option" where
  "autoboot b e = do {
     let e = say ''Quickly Autoboot [ENTER] / '' [] e;
     let key = cfg8 O_BootMenuKey e;
     let e = (if key = 32 then say ''Goto BOOT-MENU press [space bar]'' [] e
              else say ''Goto BOOT-MENU press [%c]'' [ucast key] e);
     (r, e) \<leftarrow> getc_timed b key (wrap32 (sint (cfg32 O_AutoBootWaitTime e) * 1000)) e;
     if r \<noteq> 0 then do { e \<leftarrow> CopyImage b (say [NL] [] e); GoKernel b e }
     else Some (Back e) }"

definition ez_main :: "'h bus \<Rightarrow> (nat \<Rightarrow> u32) \<Rightarrow> 'h ez \<Rightarrow> 'h outcome option" where
  "ez_main b stale e = do {
     let start_option = ld32 (e_mem e) DEFAULT_RAM_KERNEL_ZERO_PAGE;
     e \<leftarrow> boot_init b e;
     r \<leftarrow> (if start_option = 0 then autoboot b e
           else if start_option = 1 then do { e \<leftarrow> SelfCopy_BootLoader b e; Some (Back e) }
           else Some (Back e));
     case r of
       Jump a args e \<Rightarrow> Some (Jump a args e)
     | Back e \<Rightarrow> shell_loop b stale (say [NL, NL] [] e) }"

end
