(* ===== verification/Boot_Words.thy ===== *)
theory Boot_Words
  imports Boot_Shell
begin

text \<open>
  Lines of text: how \<open>strtok\<close>, \<open>parse_args\<close> and \<open>Cfg_parse_args\<close> cut a line into words, what an address the user
  types becomes, and which command a line of the shell runs.
\<close>

section \<open>The words of a line\<close>

text \<open>The specification: the longest pieces without a delimiter.\<close>

function words :: "u8 set \<Rightarrow> u8 list \<Rightarrow> u8 list list" where
  "words D [] = []"
| "words D (c # cs) = (if c \<in> D then words D cs
     else takeWhile (\<lambda>x. x \<notin> D) (c # cs) # words D (dropWhile (\<lambda>x. x \<notin> D) (c # cs)))"
  by pat_completeness auto

termination
  by (relation "measure (\<lambda>(D, cs). length cs)") (auto simp: le_imp_less_Suc length_dropWhile_le)

lemma words_skip: "words D cs = words D (dropWhile (\<lambda>x. x \<in> D) cs)"
  by (induction cs) auto

lemma words_drop: "words D (drop 1 (dropWhile (\<lambda>x. x \<notin> D) cs)) = words D (dropWhile (\<lambda>x. x \<notin> D) cs)"
proof (cases "dropWhile (\<lambda>x. x \<notin> D) cs")
  case (Cons d q)
  then have "d \<in> D" by (metis dropWhile_eq_Cons_conv)
  with Cons show ?thesis by simp
next
  case Nil
  show ?thesis unfolding Nil by simp
qed

lemma words_next:
  assumes "dropWhile (\<lambda>x. x \<in> D) cs = r" and "r \<noteq> []"
  shows "words D cs = takeWhile (\<lambda>x. x \<notin> D) r # words D (drop 1 (dropWhile (\<lambda>x. x \<notin> D) r))"
proof -
  obtain c q where r: "r = c # q" using assms(2) by (cases r) auto
  then have "c \<notin> D" using assms(1) by (metis dropWhile_eq_Cons_conv)
  then have "words D r = takeWhile (\<lambda>x. x \<notin> D) r # words D (dropWhile (\<lambda>x. x \<notin> D) r)" unfolding r by simp
  moreover have "words D cs = words D r" using words_skip [of D cs] assms(1) by simp
  ultimately show ?thesis unfolding words_drop by simp
qed

lemma words_none: "dropWhile (\<lambda>x. x \<in> D) cs = [] \<Longrightarrow> words D cs = []"
  by (metis words.simps(1) words_skip)

section \<open>One call of strtok\<close>

lemma strspn_loop_cstr:
  assumes "cstr m q ds"
  shows "cstr m p cs \<Longrightarrow> strspn_loop m p q n = Some (n + of_nat (length (takeWhile (\<lambda>c. c \<in> set ds) cs)))"
proof (induction cs arbitrary: p n)
  case (Cons c cs)
  then show ?case using in_set_loop_cstr [OF assms] by (subst strspn_loop.simps) (auto simp: add.assoc)
qed (simp add: strspn_loop.simps)

lemma cstr_first: "cstr m p cs \<Longrightarrow> (m p = 0) = (cs = [])"
  by (cases cs) auto

lemma offset_pos: "p \<noteq> 0 \<Longrightarrow> unat p + n < 2 ^ 32 \<Longrightarrow> p + of_nat n \<noteq> (0 :: u32)"
  by (metis add_eq_0_iff_both_eq_0 unat_eq_zero unat_plus_small)

lemma cstr_cut:
  "cstr m p (xs @ ys) \<Longrightarrow> (\<And>i. i < length xs \<Longrightarrow> m' (p + of_nat i) = m (p + of_nat i)) \<Longrightarrow>
    m' (p + of_nat (length xs)) = 0 \<Longrightarrow> cstr m' p xs"
proof (induction xs arbitrary: p)
  case (Cons x xs)
  have "m' (p + 1 + of_nat i) = m (p + 1 + of_nat i)" if "i < length xs" for i
    using Cons.prems(2) [of "Suc i"] that by (simp add: add.assoc)
  with Cons.IH [of "p + 1"] Cons.prems(1,3) Cons.prems(2) [of 0] show ?case by (simp add: add.assoc)
qed simp

text \<open>On the string at \<open>p\<close>: nothing but delimiters, the last word, or a word, its end and the place to go on.\<close>

lemma strtok_cstr:
  assumes "cstr m p cs" and "cstr m q ds" and "p \<noteq> 0" and "unat p + length cs < 2 ^ 32"
    and "(if s \<noteq> 0 then s else sp) = p"
    and cs: "cs = pre @ w @ rest" "pre = takeWhile (\<lambda>x. x \<in> set ds) cs" "w = takeWhile (\<lambda>x. x \<notin> set ds) (w @ rest)"
  shows "strtok m sp s q =
    (if w @ rest = [] then Some (0, 0, m)
     else if rest = [] then Some (p + of_nat (length pre), 0, m)
     else Some (p + of_nat (length pre), p + of_nat (length pre + length w + 1), m(p + of_nat (length pre + length w) := 0)))"
proof -
  let ?t = "p + of_nat (length pre) :: u32" let ?e = "?t + of_nat (length w)"
  have len: "unat p + (length pre + length w) < 2 ^ 32" using assms(4) cs(1) by simp
  have r: "cstr m ?t (w @ rest)" using cstr_append [of m p pre "w @ rest"] assms(1) cs(1) by simp
  have n: "strspn m p q = Some (of_nat (length pre))" using strspn_loop_cstr [OF assms(2,1), of 0] cs(2) by (simp add: strspn_def)
  have rest: "rest = dropWhile (\<lambda>x. x \<notin> set ds) (w @ rest)"
    using cs(3) takeWhile_dropWhile_id [of "\<lambda>x. x \<notin> set ds" "w @ rest"] by (metis same_append_eq)
  have "(set (w @ rest) \<inter> set ds = {}) = (rest = [])" using rest by (metis disjoint_iff dropWhile_eq_Nil_conv)
  then have b: "strpbrk m ?t q = Some (if rest = [] then 0 else ?e)"
    using strpbrk_cstr [OF r assms(2)] cs(3) by simp
  have e: "?e \<noteq> 0" using offset_pos [OF assms(3) len] by (simp add: add.assoc)
  have re: "cstr m ?e rest" using cstr_append [OF r] .
  have s: "strtok m sp s q = (do { n \<leftarrow> strspn m p q; let sbegin = p + n;
      if m sbegin = 0 then Some (0, 0, m) else do { send \<leftarrow> strpbrk m sbegin q;
        if send \<noteq> 0 \<and> m send \<noteq> 0 then Some (sbegin, send + 1, m(send := 0)) else Some (sbegin, send, m) } })"
    unfolding strtok_def assms(5) Let_def using assms(3) by simp
  consider "w @ rest = []" | "w @ rest \<noteq> []" "rest = []" | "w @ rest \<noteq> []" "rest \<noteq> []" by blast
  then show ?thesis
  proof cases
    case 1
    then show ?thesis unfolding s n using cstr_first [OF r] by simp
  next
    case 2
    then show ?thesis unfolding s n using cstr_first [OF r] by (simp add: b)
  next
    case 3
    then have "m ?t \<noteq> 0" "m ?e \<noteq> 0" using cstr_first [OF r] cstr_first [OF re] by auto
    with 3 e show ?thesis unfolding s n by (simp add: b add.assoc)
  qed
qed

section \<open>A line and its words\<close>

text \<open>The words \<open>ws\<close>, terminated, one after the other in the \<open>n\<close> characters and the terminator at \<open>p\<close>.\<close>

fun words_at :: "mem \<Rightarrow> u32 \<Rightarrow> nat \<Rightarrow> u32 list \<Rightarrow> u8 list list \<Rightarrow> bool" where
  "words_at m p n [] [] \<longleftrightarrow> True"
| "words_at m p n (t # ts) (w # ws) \<longleftrightarrow>
     (\<exists>k. t = p + of_nat k \<and> k + length w \<le> n \<and> cstr m t w \<and>
       (ts = [] \<and> ws = [] \<or>
        k + length w < n \<and> words_at m (p + of_nat (k + length w + 1)) (n - (k + length w + 1)) ts ws))"
| "words_at m p n _ _ \<longleftrightarrow> False"

lemma words_at_strings: "words_at m p n ts ws \<Longrightarrow> list_all2 (cstr m) ts ws"
  by (induction m p n ts ws rule: words_at.induct) auto

lemma words_at_cong:
  "words_at m p n ts ws \<Longrightarrow> (\<And>j. j \<le> n \<Longrightarrow> m' (p + of_nat j) = m (p + of_nat j)) \<Longrightarrow> words_at m' p n ts ws"
proof (induction m p n ts ws rule: words_at.induct)
  case (2 m p n t ts w ws)
  from 2(2) obtain k where k: "t = p + of_nat k" "k + length w \<le> n" "cstr m t w"
    "ts = [] \<and> ws = [] \<or> k + length w < n \<and> words_at m (p + of_nat (k + length w + 1)) (n - (k + length w + 1)) ts ws" by auto
  have "cstr m' t w" using k(3)
  proof (rule cstr_cong)
    show "m' (t + of_nat i) = m (t + of_nat i)" if "i \<le> length w" for i
      using 2(3) [of "k + i"] k(1,2) that by (simp add: add.assoc)
  qed
  moreover have "words_at m' (p + of_nat (k + length w + 1)) (n - (k + length w + 1)) ts ws"
    if "k + length w < n" "words_at m (p + of_nat (k + length w + 1)) (n - (k + length w + 1)) ts ws"
  proof (rule 2(1) [OF that(2)])
    show "m' (p + of_nat (k + length w + 1) + of_nat j) = m (p + of_nat (k + length w + 1) + of_nat j)"
      if "j \<le> n - (k + length w + 1)" for j
      using 2(3) [of "k + length w + 1 + j"] that \<open>k + length w < n\<close> by (simp add: add.assoc)
  qed
  ultimately show ?case using k unfolding words_at.simps by blast
qed auto

text \<open>The delimiters are not stored in the line.\<close>

definition off_line :: "u32 \<Rightarrow> nat \<Rightarrow> u32 \<Rightarrow> nat \<Rightarrow> bool" where
  "off_line p n q k \<longleftrightarrow> (\<forall>i \<le> k. \<forall>j \<le> n. q + of_nat i \<noteq> p + of_nat j)"

lemma off_line_later: "off_line p n q k \<Longrightarrow> j + n' \<le> n \<Longrightarrow> off_line (p + of_nat j) n' q k"
  unfolding off_line_def
proof (intro allI impI)
  fix i l
  assume a: "\<forall>i \<le> k. \<forall>j \<le> n. q + of_nat i \<noteq> p + of_nat j" and "j + n' \<le> n" "i \<le> k" "l \<le> n'"
  then have "q + of_nat i \<noteq> p + of_nat (j + l)" by (intro a [rule_format]) simp_all
  then show "q + of_nat i \<noteq> p + of_nat j + of_nat l" by (simp add: add.assoc)
qed

lemma off_line_beyond:
  assumes "unat p + n < unat q" and "unat q + k < 2 ^ 32"
  shows "off_line p n q k"
  unfolding off_line_def
proof (intro allI impI)
  fix i j assume "i \<le> k" "j \<le> n"
  then have "unat (q + of_nat i) = unat q + i" "unat (p + of_nat j) = unat p + j"
    using assms by (simp_all add: unat_plus_small)
  with assms(1) \<open>j \<le> n\<close> show "q + of_nat i \<noteq> p + of_nat j" by (metis add_leD1 add_le_mono1 le_add1 le_trans linorder_not_less nat_add_left_cancel_le)
qed

lemma offsets_differ:
  assumes "i < j" and "unat p + j < 2 ^ 32"
  shows "p + of_nat i \<noteq> p + (of_nat j :: u32)"
proof -
  have "unat (p + of_nat i) = unat p + i" "unat (p + of_nat j) = unat p + j"
    using assms by (simp_all add: unat_plus_small)
  with assms(1) show ?thesis by (metis nat_add_left_cancel_less less_irrefl)
qed

lemma token_loop_words:
  assumes "cstr m p cs" and "cstr m q ds" and "p \<noteq> 0" and "unat p + length cs < 2 ^ 32"
    and "(if s \<noteq> 0 then s else sp) = p" and "off_line p (length cs) q (length ds)"
  shows "\<exists>toks m'. token_loop m sp s q = Some (toks, 0, m') \<and>
    words_at m' p (length cs) toks (words (set ds) cs) \<and>
    (\<forall>a. (\<forall>j < length cs. a \<noteq> p + of_nat j) \<longrightarrow> m' a = m a)"
  using assms
proof (induction cs arbitrary: m p s sp rule: length_induct)
  case (1 cs)
  note IH = 1(1) and pre = 1(2-)
  let ?P = "\<lambda>c. c \<in> set ds"
  define u where "u = takeWhile ?P cs"
  define r where "r = dropWhile ?P cs"
  define w where "w = takeWhile (\<lambda>x. x \<notin> set ds) r"
  define rest where "rest = dropWhile (\<lambda>x. x \<notin> set ds) r"
  have split: "cs = u @ w @ rest" "r = w @ rest" unfolding w_def rest_def u_def r_def by simp_all
  note st = strtok_cstr [OF pre(1-5) split(1) u_def w_def [unfolded split(2)]]
  note cs = cstr_append [OF pre(1) [unfolded split(1)]]
  show ?case
  proof (cases "r = []")
    case True
    then have "words (set ds) cs = []" unfolding r_def by (rule words_none)
    with True split(2) show ?thesis by (subst token_loop.simps) (simp add: st)
  next
    case False
    have W: "words (set ds) cs = w # words (set ds) (drop 1 rest)"
      unfolding w_def rest_def by (rule words_next [OF _ False]) (simp add: r_def)
    have t0: "p + of_nat (length u) \<noteq> 0" using pre(3,4) split(1) by (intro offset_pos) auto
    show ?thesis
    proof (cases rest)
      case Nil
      have "token_loop m 0 0 q = Some ([], 0, m)" by (subst token_loop.simps) (simp add: strtok_def)
      moreover have "words_at m p (length cs) [p + of_nat (length u)] [w]"
        using cs split(1) Nil by auto
      ultimately show ?thesis using W Nil False split(2) t0 by (subst token_loop.simps) (simp add: st)
    next
      case (Cons d cs')
      let ?k = "length u + length w"
      let ?m = "m(p + of_nat ?k := 0)" and ?p = "p + of_nat (?k + 1)"
      have len: "length cs = ?k + 1 + length cs'" unfolding split(1) Cons by simp
      have up: "?m (p + of_nat j) = m (p + of_nat j)" if "j \<noteq> ?k" "j \<le> length cs" for j
        using offsets_differ [of j ?k p] offsets_differ [of ?k j p] pre(4) len that by (auto simp: nat_neq_iff)
      have "cstr m (p + of_nat (?k + 1)) cs'"
        using cstr_append [of m p "u @ w @ [d]" cs'] pre(1) split(1) Cons by (simp add: add.assoc)
      then have c': "cstr ?m ?p cs'"
      proof (rule cstr_cong)
        show "?m (?p + of_nat i) = m (?p + of_nat i)" if "i \<le> length cs'" for i
          using up [of "?k + 1 + i"] that len by (simp add: add.assoc)
      qed
      have "cstr ?m q ds" using pre(2)
      proof (rule cstr_cong)
        show "?m (q + of_nat i) = m (q + of_nat i)" if "i \<le> length ds" for i
          using pre(6) that len unfolding off_line_def by (metis fun_upd_other le_add1 add.assoc)
      qed
      moreover have "?p \<noteq> 0" using pre(3,4) len by (intro offset_pos) auto
      moreover have "unat ?p + length cs' < 2 ^ 32" using pre(4) len by (subst unat_plus_small) auto
      moreover have "off_line ?p (length cs') q (length ds)" using pre(6) by (rule off_line_later) (use len in simp)
      ultimately obtain toks m' where m': "token_loop ?m ?p 0 q = Some (toks, 0, m')"
        "words_at m' ?p (length cs') toks (words (set ds) cs')"
        "\<And>a. (\<forall>j < length cs'. a \<noteq> ?p + of_nat j) \<Longrightarrow> m' a = ?m a"
        using IH [rule_format, of cs' ?m ?p 0 ?p] c' len by auto
      have fr: "m' (p + of_nat j) = ?m (p + of_nat j)" if "j \<le> ?k" for j
      proof (rule m'(3), intro allI impI)
        fix i assume "i < length cs'"
        then show "p + of_nat j \<noteq> ?p + of_nat i"
          using offsets_differ [of j "?k + 1 + i" p] pre(4) len that by (simp add: add.assoc)
      qed
      show ?thesis
      proof (intro exI conjI allI impI)
        show "token_loop m sp s q = Some ((p + of_nat (length u)) # toks, 0, m')"
          using Cons False split(2) t0 m'(1) by (subst token_loop.simps) (simp add: st)
        have "m' (p + of_nat (length u) + of_nat i) = m (p + of_nat (length u) + of_nat i)" if "i < length w" for i
          using fr [of "length u + i"] up [of "length u + i"] len that by (simp add: add.assoc)
        moreover have "m' (p + of_nat (length u) + of_nat (length w)) = 0" using fr [of ?k] by (simp add: add.assoc)
        ultimately have "cstr m' (p + of_nat (length u)) w" using cstr_cut [OF cs] by blast
        then show "words_at m' p (length cs) ((p + of_nat (length u)) # toks) (words (set ds) cs)"
          unfolding W Cons using m'(2) len by auto
      next
        fix a assume a: "\<forall>j < length cs. a \<noteq> p + of_nat j"
        have "\<forall>j < length cs'. a \<noteq> ?p + of_nat j"
        proof (intro allI impI)
          fix j assume "j < length cs'"
          then have "a \<noteq> p + of_nat (?k + 1 + j)" using len by (intro a [rule_format]) simp
          then show "a \<noteq> ?p + of_nat j" by (simp add: add.assoc)
        qed
        then have "m' a = ?m a" by (rule m'(3))
        moreover have "a \<noteq> p + of_nat ?k" by (intro a [rule_format]) (simp add: len)
        ultimately show "m' a = m a" by simp
      qed
    qed
  qed
qed

lemma tokens_words:
  assumes "cstr (e_mem e) p cs" and "cstr (e_mem e) (obj e D) ds" and "p \<noteq> 0" and "unat p + length cs < 2 ^ 32"
    and "off_line p (length cs) (obj e D) (length ds)"
  shows "\<exists>argv m. words_at m p (length cs) argv (words (set ds) cs) \<and>
    (\<forall>a. (\<forall>j < length cs. a \<noteq> p + of_nat j) \<longrightarrow> m a = e_mem e a) \<and>
    tokens p (obj e D) e = (if length (words (set ds) cs) \<le> 128 then Some (argv, e\<lparr>e_mem := m, strtok_ptr := 0\<rparr>) else None)"
proof -
  obtain argv m where a: "token_loop (e_mem e) (strtok_ptr e) p (obj e D) = Some (argv, 0, m)"
    "words_at m p (length cs) argv (words (set ds) cs)"
    "\<forall>a. (\<forall>j < length cs. a \<noteq> p + of_nat j) \<longrightarrow> m a = e_mem e a"
    using token_loop_words [OF assms(1,2,3,4) _ assms(5), of p "strtok_ptr e"] assms(3) by auto
  moreover have "length argv = length (words (set ds) cs)"
    using words_at_strings [OF a(2)] by (rule list_all2_lengthD)
  ultimately show ?thesis by (intro exI [of _ argv] exI [of _ m]) (simp add: tokens_def)
qed

text \<open>
  C26: \<open>parse_args\<close> splits a line into its words, the longest pieces without a delimiter: the entries of
  \<open>argv\<close> are these words in order, each terminated, all inside the line, and nothing but the line is
  written; a line of more than 128 words runs over the array of 128 entries the shell gives it.
\<close>
theorem line_is_split_into_words:
  assumes "cstr (e_mem e) p cs" and "cstr (e_mem e) (obj e ''delim'') ds" and "p \<noteq> 0" and "unat p + length cs < 2 ^ 32"
    and "off_line p (length cs) (obj e ''delim'') (length ds)"
  shows "\<exists>argv m. words_at m p (length cs) argv (words (set ds) cs) \<and>
    (\<forall>a. (\<forall>j < length cs. a \<noteq> p + of_nat j) \<longrightarrow> m a = e_mem e a) \<and>
    parse_args p e = (if length (words (set ds) cs) \<le> 128 then Some (argv, e\<lparr>e_mem := m, strtok_ptr := 0\<rparr>) else None)"
  unfolding parse_args_def by (rule tokens_words [OF assms])

text \<open>The line \<open>' md 20 '\<close> and the delimiters of the shell.\<close>

theorem line_is_split_into_words_witness:
  "\<exists>t u e'. parse_args 0x100 (ez_at ((\<lambda>_. 0)(0x100 := 32, 0x101 := 109, 0x102 := 100, 0x103 := 32, 0x104 := 50, 0x105 := 48,
      0x106 := 32, 0x200 := 32, 0x201 := 12, 0x202 := 10, 0x203 := 13, 0x204 := 9, 0x205 := 11)) () (\<lambda>_. 0x200)) = Some ([t, u], e')
    \<and> cstr (e_mem e') t [109, 100] \<and> cstr (e_mem e') u [50, 48]"
proof -
  let ?m = "(\<lambda>_. 0)(0x100 := 32, 0x101 := 109, 0x102 := 100, 0x103 := 32, 0x104 := 50, 0x105 := 48,
      0x106 := 32, 0x200 := 32, 0x201 := 12, 0x202 := 10, 0x203 := 13, 0x204 := 9, 0x205 := 11) :: mem"
  let ?e = "ez_at ?m () (\<lambda>_. 0x200)" let ?cs = "[32, 109, 100, 32, 50, 48, 32] :: u8 list" let ?ds = "[32, 12, 10, 13, 9, 11] :: u8 list"
  have c: "cstr (e_mem ?e) 0x100 ?cs" "cstr (e_mem ?e) (obj ?e ''delim'') ?ds" by (simp_all add: ez_at_def)
  have o: "off_line 0x100 (length ?cs) (obj ?e ''delim'') (length ?ds)" by (rule off_line_beyond) (simp_all add: ez_at_def)
  have w: "words (set ?ds) ?cs = [[109, 100], [50, 48]]" by simp
  obtain argv m where a: "words_at m 0x100 (length ?cs) argv [[109, 100], [50, 48]]"
    "parse_args 0x100 ?e = Some (argv, ?e\<lparr>e_mem := m, strtok_ptr := 0\<rparr>)"
    using line_is_split_into_words [OF c _ _ o, unfolded w] by auto
  from words_at_strings [OF a(1)] obtain t u where "argv = [t, u]" "cstr m t [109, 100]" "cstr m u [50, 48]"
    by (auto simp: list_all2_Cons2)
  with a(2) show ?thesis by auto
qed

section \<open>An address the user types\<close>

definition dec_text :: "nat list \<Rightarrow> u8 list" where
  "dec_text ds = map (\<lambda>d. 48 + of_nat d) ds"

lemma dec_char:
  assumes "d < 10"
  defines "c \<equiv> 48 + of_nat d :: u8"
  shows "c \<noteq> 0 \<and> 48 \<le> c \<and> c \<le> 57 \<and> c AND 15 = of_nat d"
proof -
  have "d \<in> {0, 1, 2, 3, 4, 5, 6, 7, 8, 9}" using assms(1) by auto
  then show ?thesis unfolding c_def by auto
qed

lemma str_to_byte_dec:
  "cstr m p (dec_text ds) \<Longrightarrow> \<forall>d \<in> set ds. d < 10 \<Longrightarrow>
    str_to_byte_loop m p False (of_nat v) = Some (of_nat (foldl (\<lambda>v d. v * 10 + d) v ds))"
proof (induction ds arbitrary: p v)
  case Nil
  then show ?case by (simp add: dec_text_def str_to_byte_loop.simps)
next
  case (Cons d ds)
  let ?c = "48 + of_nat d :: u8"
  have c: "m p = ?c" "cstr m (p + 1) (dec_text ds)" using Cons.prems(1) by (simp_all add: dec_text_def)
  have d: "?c \<noteq> 0" "48 \<le> ?c" "?c \<le> 57" "?c AND 15 = of_nat d" using dec_char [of d] Cons.prems(2) by auto
  have "str_to_byte_loop m p False (of_nat v) = str_to_byte_loop m (p + 1) False (of_nat (v * 10 + d))"
    by (subst str_to_byte_loop.simps) (simp add: c(1) d Let_def mult.commute)
  with Cons.IH [OF c(2), of "v * 10 + d"] Cons.prems(2) show ?case by simp
qed

lemma StrToByte_dec:
  "cstr m p (dec_text ds) \<Longrightarrow> \<forall>d \<in> set ds. d < 10 \<Longrightarrow> StrToByte m p False = Some (of_nat (digits_value 10 ds))"
  using str_to_byte_dec [of m p ds 0] by (simp add: StrToByte_def digits_value_def)

lemma byte_bits: "bit (a :: u8) (n + k) \<Longrightarrow> n + k < 8" "bit (a :: u8) n \<Longrightarrow> n < 8"
  using bit_imp_le_length [of a "n + k"] bit_imp_le_length [of a n] by simp_all

lemma bytes_of_ip:
  "ip_bytes (push_bit 24 (ucast a3) OR push_bit 16 (ucast a2) OR push_bit 8 (ucast a1) OR ucast (a0 :: u8)) =
    [ucast a0, ucast (a1 :: u8), ucast (a2 :: u8), ucast (a3 :: u8)]"
proof -
  let ?v = "push_bit 24 (ucast a3) OR push_bit 16 (ucast a2) OR push_bit 8 (ucast a1) OR ucast a0 :: u32"
  have ff: "(0xFF :: u32) = mask 8" by (simp add: mask_eq_exp_minus_1)
  have "?v AND 0xFF = ucast a0" "drop_bit 8 ?v AND 0xFF = ucast a1" "drop_bit 16 ?v AND 0xFF = ucast a2"
    "drop_bit 24 ?v AND 0xFF = ucast a3"
    unfolding ff by (rule bit_word_eqI; auto simp: bit_simps dest: byte_bits)+
  then show ?thesis unfolding ip_bytes_def by simp
qed

lemma byte_of_nat: "(ucast (of_nat n :: u8) :: u32) = of_nat (n mod 256)"
proof -
  have "(ucast (of_nat n :: u8) :: u32) = of_nat (unat (of_nat n :: u8))" by simp
  then show ?thesis by (simp only: unat_of_nat) simp
qed

lemma getc_wait_addr: "getc_wait b e = Some e' \<Longrightarrow> e_addr e' = e_addr e"
proof (erule getc_wait.raw_induct [where P = "\<lambda>b e e'. e_addr e' = e_addr e", rotated], goal_cases)
  case (1 f b e e')
  note IH = 1(1) and eq = 1(2)
  have "e_addr (snd (SerialIsReadyChar b e)) = e_addr e"
    by (simp add: SerialIsReadyChar_def rd_def Let_def case_prod_beta)
  with eq IH [of b "snd (SerialIsReadyChar b e)" e'] show ?case
    by (simp add: Let_def case_prod_beta split: if_splits)
qed

lemma getc_addr: "getc b e = Some (c, e') \<Longrightarrow> e_addr e' = e_addr e"
  by (auto simp: getc_def SerialIsGetChar_def rd_def bind_eq_Some_conv dest!: getc_wait_addr split: prod.splits)

lemma gets_loop_addr: "gets_loop b s n e = Some r \<Longrightarrow> e_addr (snd r) = e_addr e"
proof (erule gets_loop.raw_induct [where P = "\<lambda>b s n e r. e_addr (snd r) = e_addr e", rotated], goal_cases)
  case (1 f b s n e r)
  from 1(2) obtain c e1 where g: "getc b e = Some (c, e1)" by (auto simp: bind_eq_Some_conv)
  with 1(2) show ?case using getc_addr [OF g] by (auto split: if_splits dest: 1(1))
qed

lemma gets_addr: "gets b s e = Some (n, e') \<Longrightarrow> e_addr e' = e_addr e"
  using gets_loop_addr [of b s 0 e] by (simp add: gets_def)

text \<open>
  C25: Typing an address: when the line the user leaves has four decimal words, the address shows them, each
  modulo 256, in this order, whatever the backspaces and delimiters between; only the line buffer
  and the four bytes of the address change. A number above 255 is not refused.
\<close>
theorem typed_address_is_stored:
  assumes "typed b (UART e) (cs @ [13]) (e_dev e)" and "13 \<notin> set cs" and "0 \<notin> set cs"
    and "cstr (e_mem e) (obj e ''delim_'') ds" and "obj e ''GetIPAddress.rbuff'' \<noteq> 0"
    and "unat (obj e ''GetIPAddress.rbuff'') + length cs < 2 ^ 32"
    and "off_line (obj e ''GetIPAddress.rbuff'') (length cs) (obj e ''delim_'') (length ds)"
    and "words (set ds) (edit cs) = map dec_text [n0, n1, n2, n3]"
    and "\<forall>n \<in> {n0, n1, n2, n3}. \<forall>d \<in> set n. d < 10" and "length cs < 128"
  shows "\<exists>e'. GetIPAddress b msg ip e = Some e'
    \<and> ip_bytes (ld32 (e_mem e') ip) = map (\<lambda>n. of_nat (digits_value 10 n mod 256)) [n0, n1, n2, n3]
    \<and> (\<forall>a. (\<forall>j \<le> length cs. a \<noteq> obj e ''GetIPAddress.rbuff'' + of_nat j) \<longrightarrow> a \<notin> word_bytes ip \<longrightarrow> e_mem e' a = e_mem e a)"
proof -
  let ?p = "obj e ''GetIPAddress.rbuff''" let ?W = "map dec_text [n0, n1, n2, n3]"
  define e0 where "e0 = say ''     Newvalue : '' [] (say msg (ip_bytes (ld32 (e_mem e) ip)) (say [NL] [] e))"
  have e0: "e_mem e0 = e_mem e" "e_dev e0 = e_dev e" "e_addr e0 = e_addr e" "UART e0 = UART e" by (simp_all add: e0_def)
  obtain e1 where e1: "gets b ?p e0 = Some (int (length (edit cs)), e1)" "cstr (e_mem e1) ?p (edit cs)"
    and f1: "\<And>x. \<forall>i \<le> length cs. x \<noteq> ?p + of_nat i \<Longrightarrow> e_mem e1 x = e_mem e x"
    using gets_typed [of b e0 cs ?p] assms(1-3,6) e0 by auto
  have a1: "e_addr e1 = e_addr e" using gets_addr [OF e1(1)] e0 by simp
  have len: "length (edit cs) \<le> length cs" using edit_length [of "[]" cs] by (simp add: edit_def)
  have "cstr (e_mem e1) (obj e1 ''delim_'') ds" unfolding a1 using assms(4)
  proof (rule cstr_cong)
    show "e_mem e1 (obj e ''delim_'' + of_nat i) = e_mem e (obj e ''delim_'' + of_nat i)" if "i \<le> length ds" for i
      using assms(7) that unfolding off_line_def by (intro f1) blast
  qed
  moreover have "off_line ?p (length (edit cs)) (obj e1 ''delim_'') (length ds)"
    using off_line_later [OF assms(7), of 0 "length (edit cs)"] len a1 by simp
  ultimately obtain argv m where m: "words_at m ?p (length (edit cs)) argv ?W"
    "\<And>a. \<forall>j < length (edit cs). a \<noteq> ?p + of_nat j \<Longrightarrow> m a = e_mem e1 a"
    "Cfg_parse_args ?p e1 = Some (argv, e1\<lparr>e_mem := m, strtok_ptr := 0\<rparr>)"
    using tokens_words [OF e1(2), of "''delim_''" ds] assms(5,6,8) len unfolding Cfg_parse_args_def by auto
  obtain t0 t1 t2 t3 where argv: "argv = [t0, t1, t2, t3]" and
    t: "cstr m t0 (dec_text n0)" "cstr m t1 (dec_text n1)" "cstr m t2 (dec_text n2)" "cstr m t3 (dec_text n3)"
    using words_at_strings [OF m(1)] by (auto simp: list_all2_Cons2)
  define v :: u32 where "v = push_bit 24 (ucast (of_nat (digits_value 10 n3) :: u8)) OR push_bit 16 (ucast (of_nat (digits_value 10 n2) :: u8))
    OR push_bit 8 (ucast (of_nat (digits_value 10 n1) :: u8)) OR ucast (of_nat (digits_value 10 n0) :: u8)"
  let ?e = "with_mem (\<lambda>m. st32 m ip v) (e1\<lparr>e_mem := m, strtok_ptr := 0\<rparr>)"
  have "parse_ip m argv = Some v"
    using assms(9) by (simp add: parse_ip_def argv StrToByte_dec [OF t(1)] StrToByte_dec [OF t(2)] StrToByte_dec [OF t(3)]
      StrToByte_dec [OF t(4)] v_def numeral_2_eq_2 numeral_3_eq_3)
  then have "GetIPAddress b msg ip e = Some ?e"
    using e1(1) m(3) argv a1 by (simp add: GetIPAddress_def ask_def e0_def [symmetric] Let_def e0)
  moreover have "ip_bytes (ld32 (e_mem ?e) ip) = map (\<lambda>n. of_nat (digits_value 10 n mod 256)) [n0, n1, n2, n3]"
    using bytes_of_ip [of "of_nat (digits_value 10 n3)"] by (simp add: ld32_st32_same v_def del: byte_of_nat) (simp add: byte_of_nat)
  moreover have "e_mem ?e a = e_mem e a" if "\<forall>j \<le> length cs. a \<noteq> ?p + of_nat j" "a \<notin> word_bytes ip" for a
    using f1 [OF that(1)] m(2) [of a] that len by (simp add: st32_other)
  ultimately show ?thesis by blast
qed

text \<open>Types \<open>1.2.9\<close>, backspace, \<open>3:300\<close> and return: the address 1.2.3.44.\<close>

theorem typed_address_is_stored_witness:
  "\<exists>e'. GetIPAddress script_bus [] 0x300 (ez_at ((\<lambda>_. 0)(0x200 := 32, 0x201 := 46, 0x202 := 58, 0x203 := 10))
      ([1, 0, 49, 1, 0, 46, 1, 0, 50, 1, 0, 46, 1, 0, 57, 1, 0, 8, 1, 0, 51, 1, 0, 58, 1, 0, 51, 1, 0, 48, 1, 0, 48, 1, 0, 13], [])
      (\<lambda>n. if n = ''delim_'' then 0x200 else 0x100)) = Some e'
    \<and> ip_bytes (ld32 (e_mem e') 0x300) = [1, 2, 3, 44]"
proof -
  let ?e = "ez_at ((\<lambda>_. 0)(0x200 := 32, 0x201 := 46, 0x202 := 58, 0x203 := 10))
      ([1, 0, 49, 1, 0, 46, 1, 0, 50, 1, 0, 46, 1, 0, 57, 1, 0, 8, 1, 0, 51, 1, 0, 58, 1, 0, 51, 1, 0, 48, 1, 0, 48, 1, 0, 13], [])
      (\<lambda>n. if n = ''delim_'' then 0x200 else 0x100) :: script ez"
  let ?cs = "[49, 46, 50, 46, 57, 8, 51, 58, 51, 48, 48] :: u8 list" let ?ds = "[32, 46, 58, 10] :: u8 list"
  have "typed script_bus (UART ?e) (map ucast [49 :: u32, 46, 50, 46, 57, 8, 51, 58, 51, 48, 48, 13]) (e_dev ?e)"
    unfolding ez_at_def ez.simps list.map by (intro script_typed typed_nil) (simp_all add: LSR_DR_def)
  then have t: "typed script_bus (UART ?e) (?cs @ [13]) (e_dev ?e)" by simp
  have c: "cstr (e_mem ?e) (obj ?e ''delim_'') ?ds" by (simp add: ez_at_def)
  have o: "off_line (obj ?e ''GetIPAddress.rbuff'') (length ?cs) (obj ?e ''delim_'') (length ?ds)"
    by (rule off_line_beyond) (simp_all add: ez_at_def)
  have w: "words (set ?ds) (edit ?cs) = map dec_text [[1], [2], [3], [3, 0, 0]]" by (simp add: edit_def edit_step_def dec_text_def)
  have p: "obj ?e ''GetIPAddress.rbuff'' \<noteq> 0" "unat (obj ?e ''GetIPAddress.rbuff'') + length ?cs < 2 ^ 32" by (simp_all add: ez_at_def)
  from typed_address_is_stored [OF t _ _ c p o w, of "[]" "0x300"] obtain e' where "GetIPAddress script_bus [] 0x300 ?e = Some e'"
    "ip_bytes (ld32 (e_mem e') 0x300) = map (\<lambda>n. of_nat (digits_value 10 n mod 256)) [[1], [2], [3], [3, 0, 0]]" by auto
  then show ?thesis by (auto simp: digits_value_def)
qed

section \<open>The command of a line\<close>

lemma toupper_nonzero: "c \<noteq> 0 \<Longrightarrow> toupper c \<noteq> 0"
proof -
  have "\<not> islower 32" by code_simp
  then show "c \<noteq> 0 \<Longrightarrow> toupper c \<noteq> 0" unfolding toupper_def by (metis eq_iff_diff_eq_0)
qed

lemma UpperStr_cstr:
  "cstr m p w \<Longrightarrow> unat p + length w < 2 ^ 32 \<Longrightarrow>
    \<exists>m'. UpperStr m p = Some m' \<and> cstr m' p (map toupper w) \<and> (\<forall>a. (\<forall>i < length w. a \<noteq> p + of_nat i) \<longrightarrow> m' a = m a)"
proof (induction w arbitrary: m p)
  case Nil
  then show ?case by (subst UpperStr.simps) simp
next
  case (Cons c w)
  let ?m = "m(p := toupper c)"
  have d: "p \<noteq> p + 1 + of_nat i" if "i \<le> length w" for i
    using offsets_differ [of 0 "Suc i" p] Cons.prems(2) that by (simp add: add.assoc)
  have "cstr m (p + 1) w" using Cons.prems(1) by simp
  then have "cstr ?m (p + 1) w" by (rule cstr_cong) (use d in force)
  moreover have "unat (p + 1) + length w < 2 ^ 32" using Cons.prems(2) unat_plus_small [of p 1] by simp
  ultimately obtain m' where m': "UpperStr ?m (p + 1) = Some m'" "cstr m' (p + 1) (map toupper w)"
    "\<And>a. \<forall>i < length w. a \<noteq> p + 1 + of_nat i \<Longrightarrow> m' a = ?m a" using Cons.IH by blast
  have "m' p = ?m p" by (rule m'(3)) (use d in simp)
  then have "cstr m' p (map toupper (c # w))" using m'(2) Cons.prems(1) toupper_nonzero by simp
  moreover have "UpperStr m p = Some m'" using m'(1) Cons.prems(1) by (subst UpperStr.simps) simp
  moreover have "m' a = m a" if "\<forall>i < length (c # w). a \<noteq> p + of_nat i" for a
  proof -
    have "a \<noteq> p + 1 + of_nat i" if "i < length w" for i
      using \<open>\<forall>i < length (c # w). a \<noteq> p + of_nat i\<close> [rule_format, of "Suc i"] that by (simp add: add.assoc)
    then have "m' a = ?m a" by (intro m'(3)) simp
    moreover have "a \<noteq> p" using that [rule_format, of 0] by simp
    ultimately show ?thesis by simp
  qed
  ultimately show ?case by blast
qed

text \<open>The command of a name.\<close>

definition command_of :: "u8 list \<Rightarrow> command option" where
  "command_of w = map_of (map (\<lambda>(n, c). (ascii n, c)) Cmds) w"

lemma find_command_names:
  assumes "cstr (e_mem e) p w"
  shows "\<forall>nc \<in> set cs. cstr (e_mem e) (obj e (fst nc)) (ascii (fst nc)) \<Longrightarrow>
    find_command cs p e = Some (map_of (map (\<lambda>(n, c). (ascii n, c)) cs) w)"
proof (induction cs)
  case (Cons nc cs)
  then obtain r where "strcmp (e_mem e) p (obj e (fst nc)) = Some r" "(r = 0) = (w = ascii (fst nc))"
    using strcmp_cstr [OF assms] by (metis list.set_intros(1))
  with Cons show ?case by (cases nc) auto
qed simp

text \<open>A state in which the command line is \<open>cs\<close>, and the delimiters and the names of the commands are not in it.\<close>

definition shell_ready :: "'h ez \<Rightarrow> u8 list \<Rightarrow> u8 list \<Rightarrow> bool" where
  "shell_ready e cs ds \<longleftrightarrow>
     cstr (e_mem e) (obj e ''ReadBuffer'') cs \<and> obj e ''ReadBuffer'' \<noteq> 0 \<and>
     unat (obj e ''ReadBuffer'') + length cs < 2 ^ 32 \<and> length cs < 1024 \<and>
     cstr (e_mem e) (obj e ''delim'') ds \<and> off_line (obj e ''ReadBuffer'') (length cs) (obj e ''delim'') (length ds) \<and>
     (\<forall>nc \<in> set Cmds. cstr (e_mem e) (obj e (fst nc)) (ascii (fst nc)) \<and>
        off_line (obj e ''ReadBuffer'') (length cs) (obj e (fst nc)) (length (fst nc)))"

lemma UpperStr_first:
  assumes "words_at m p n (t # ts) (w # ws)" and "unat p + n < 2 ^ 32"
  shows "\<exists>m'. UpperStr m t = Some m' \<and> words_at m' p n (t # ts) (map toupper w # ws) \<and>
    (\<forall>a. (\<forall>j < n. a \<noteq> p + of_nat j) \<longrightarrow> m' a = m a)"
proof -
  from assms(1) obtain k where k: "t = p + of_nat k" "k + length w \<le> n" "cstr m t w"
    "ts = [] \<and> ws = [] \<or> k + length w < n \<and> words_at m (p + of_nat (k + length w + 1)) (n - (k + length w + 1)) ts ws" by auto
  have "unat t + length w < 2 ^ 32" using assms(2) k(1,2) by (simp add: unat_plus_small)
  from UpperStr_cstr [OF k(3) this] obtain m' where m': "UpperStr m t = Some m'" "cstr m' t (map toupper w)"
    "\<And>a. \<forall>i < length w. a \<noteq> t + of_nat i \<Longrightarrow> m' a = m a" by blast
  have rest: "words_at m' (p + of_nat (k + length w + 1)) (n - (k + length w + 1)) ts ws"
    if "k + length w < n" "words_at m (p + of_nat (k + length w + 1)) (n - (k + length w + 1)) ts ws"
    using that(2)
  proof (rule words_at_cong, intro m'(3) allI impI)
    fix j i assume "j \<le> n - (k + length w + 1)" "i < length w"
    then have "p + of_nat (k + length w + 1 + j) \<noteq> p + of_nat (k + i)"
      using assms(2) that(1) by (intro not_sym [OF offsets_differ]) simp_all
    then show "p + of_nat (k + length w + 1) + of_nat j \<noteq> t + of_nat i" using k(1) by (simp add: add.assoc)
  qed
  have "words_at m' p n (t # ts) (map toupper w # ws)"
    unfolding words_at.simps length_map using k(1,2,4) m'(2) rest by blast
  moreover have "m' a = m a" if "\<forall>j < n. a \<noteq> p + of_nat j" for a
  proof (rule m'(3), intro allI impI)
    fix i assume "i < length w"
    then show "a \<noteq> t + of_nat i" using that [rule_format, of "k + i"] k(1,2) by (simp add: add.assoc)
  qed
  ultimately show ?thesis using m'(1) by blast
qed

text \<open>
  C24: A line of the shell runs the command whose name is its first word, upper or lower case, and gives it the
  words of the line as its arguments, the first in upper case. A line without words and a line whose
  first word names no command do nothing but the cutting; a command that returns is followed by a new line.
\<close>
theorem shell_runs_named_command:
  assumes "shell_ready e cs ds" and "length (words (set ds) cs) \<le> 128"
  shows "\<exists>argv m. (let e' = e\<lparr>e_mem := m, strtok_ptr := 0\<rparr> in
    words_at m (obj e ''ReadBuffer'') (length cs) argv
      (case words (set ds) cs of [] \<Rightarrow> [] | w # ws \<Rightarrow> map toupper w # ws) \<and>
    (\<forall>a. (\<forall>j < length cs. a \<noteq> obj e ''ReadBuffer'' + of_nat j) \<longrightarrow> m a = e_mem e a) \<and>
    shell_line b stale e = (case words (set ds) cs of [] \<Rightarrow> Some (Back e')
      | w # ws \<Rightarrow> (case command_of (map toupper w) of None \<Rightarrow> Some (Back e')
        | Some c \<Rightarrow> (case run_command b stale c argv e' of None \<Rightarrow> None
          | Some (Back e) \<Rightarrow> Some (Back (say [NL] [] e)) | Some (Jump a args e) \<Rightarrow> Some (Jump a args e)))))"
proof -
  let ?p = "obj e ''ReadBuffer''" let ?W = "words (set ds) cs"
  have r: "cstr (e_mem e) ?p cs" "?p \<noteq> 0" "unat ?p + length cs < 2 ^ 32" "cstr (e_mem e) (obj e ''delim'') ds"
    "off_line ?p (length cs) (obj e ''delim'') (length ds)"
    and names: "\<And>nc. nc \<in> set Cmds \<Longrightarrow> cstr (e_mem e) (obj e (fst nc)) (ascii (fst nc)) \<and>
        off_line ?p (length cs) (obj e (fst nc)) (length (fst nc))"
    using assms(1) unfolding shell_ready_def by blast+
  obtain argv m where a: "words_at m ?p (length cs) argv ?W"
    "\<And>a. \<forall>j < length cs. a \<noteq> ?p + of_nat j \<Longrightarrow> m a = e_mem e a"
    "parse_args ?p e = Some (argv, e\<lparr>e_mem := m, strtok_ptr := 0\<rparr>)"
    using tokens_words [OF r(1,4,2,3,5)] assms(2) unfolding parse_args_def by auto
  show ?thesis
  proof (cases ?W)
    case Nil
    then have "argv = []" using a(1) by (cases argv) simp_all
    with Nil a show ?thesis by (intro exI [of _ argv] exI [of _ m]) (simp add: shell_line_def)
  next
    case (Cons w ws)
    then obtain t ts where argv: "argv = t # ts" using a(1) by (cases argv) simp_all
    obtain m' where m': "UpperStr m t = Some m'" "words_at m' ?p (length cs) argv (map toupper w # ws)"
      "\<And>a. \<forall>j < length cs. a \<noteq> ?p + of_nat j \<Longrightarrow> m' a = m a"
      using UpperStr_first [OF a(1) [unfolded Cons argv] r(3)] unfolding argv by blast
    let ?e = "e\<lparr>e_mem := m', strtok_ptr := 0\<rparr>"
    have "cstr m' (obj e (fst nc)) (ascii (fst nc))" if "nc \<in> set Cmds" for nc
    proof (rule cstr_cong [OF names [OF that, THEN conjunct1]])
      fix i assume i: "i \<le> length (ascii (fst nc))"
      have "\<forall>j < length cs. obj e (fst nc) + of_nat i \<noteq> ?p + of_nat j"
        using names [OF that] i unfolding off_line_def ascii_def by simp
      then show "m' (obj e (fst nc) + of_nat i) = e_mem e (obj e (fst nc) + of_nat i)" using m'(3) a(2) by simp
    qed
    then have f: "find_command Cmds t ?e = Some (command_of (map toupper w))"
      unfolding command_of_def using m'(2) argv by (intro find_command_names) auto
    have order: "e\<lparr>strtok_ptr := 0, e_mem := m'\<rparr> = ?e" by simp
    have "shell_line b stale e = (do { c \<leftarrow> find_command Cmds t ?e; case c of None \<Rightarrow> Some (Back ?e)
       | Some c \<Rightarrow> do { r \<leftarrow> run_command b stale c argv ?e;
           case r of Back e \<Rightarrow> Some (Back (say [NL] [] e)) | Jump a args e \<Rightarrow> Some (Jump a args e) } })"
      unfolding shell_line_def a(3) argv by (simp add: with_mem_opt_def m'(1) order)
    then have "shell_line b stale e = (case command_of (map toupper w) of None \<Rightarrow> Some (Back ?e)
        | Some c \<Rightarrow> (case run_command b stale c argv ?e of None \<Rightarrow> None
          | Some (Back e) \<Rightarrow> Some (Back (say [NL] [] e)) | Some (Jump a args e) \<Rightarrow> Some (Jump a args e)))"
      unfolding f by (auto split: option.splits outcome.splits)
    with Cons m' a(2) show ?thesis by (intro exI [of _ argv] exI [of _ m']) (simp add: Let_def)
  qed
qed

text \<open>The line \<open>' tst x'\<close>; the names of the commands are 16 bytes apart.\<close>

definition shell_addr :: "string \<Rightarrow> u32" where
  "shell_addr n = (if n = ''ReadBuffer'' then 0x100 else if n = ''delim'' then 0x200
     else 0x10000 + 16 * of_nat (length (takeWhile (\<lambda>nc. fst nc \<noteq> n) Cmds)))"

definition shell_mem :: mem where
  "shell_mem a =
     (let (n, k) =
        (if a < 0x200 then ([32, 116, 115, 116, 32, 120], unat (a - 0x100))
         else if a < 0x10000 then ([32, 12, 10, 13, 9, 11], unat (a - 0x200))
         else (let i = unat (a - 0x10000) in (ascii (fst (Cmds ! (i div 16))), i mod 16)))
      in if k < length n then n ! k else 0)"

lemma shell_mem_line: "cstr shell_mem 0x100 [32, 116, 115, 116, 32, 120]" "cstr shell_mem 0x200 [32, 12, 10, 13, 9, 11]"
  by (simp_all add: shell_mem_def)

lemma Cmds_names:
  "list_all (\<lambda>nc. length (fst nc) < 16 \<and> 0 \<notin> set (ascii (fst nc)) \<and> fst nc \<noteq> ''ReadBuffer'' \<and> fst nc \<noteq> ''delim'') Cmds"
  "length Cmds = 30"
  by (simp_all add: Cmds_def ascii_def)

lemma shell_mem_names:
  assumes "nc \<in> set Cmds"
  shows "cstr shell_mem (shell_addr (fst nc)) (ascii (fst nc)) \<and>
    0x200 < unat (shell_addr (fst nc)) \<and> unat (shell_addr (fst nc)) < 0x20000"
proof -
  let ?P = "\<lambda>c. fst c \<noteq> fst nc" let ?i = "length (takeWhile ?P Cmds)" let ?p = "shell_addr (fst nc)"
  have n: "length (fst nc) < 16" "0 \<notin> set (ascii (fst nc))" "fst nc \<noteq> ''ReadBuffer''" "fst nc \<noteq> ''delim''"
    using Cmds_names(1) assms by (auto simp: list_all_iff)
  have "takeWhile ?P Cmds \<noteq> Cmds" using assms by (auto simp: takeWhile_eq_all_conv)
  then have "?i < length Cmds" using length_takeWhile_le [of ?P Cmds] by (metis le_neq_implies_less takeWhile_eq_take take_all order_refl)
  then have i: "?i < 30" "fst (Cmds ! ?i) = fst nc" using nth_length_takeWhile [of ?P Cmds] Cmds_names(2) by auto
  have p: "?p = 0x10000 + of_nat (16 * ?i)" using n(3,4) by (simp add: shell_addr_def)
  have u: "unat (?p + of_nat k) = 0x10000 + 16 * ?i + k" if "k < 16" for k
    unfolding p add.assoc of_nat_add [symmetric] by (subst unat_plus_small) (use i(1) that in simp_all)
  have m: "shell_mem (?p + of_nat k) = (if k < length (fst nc) then ascii (fst nc) ! k else 0)" if "k < 16" for k
  proof -
    have "?p + of_nat k - 0x10000 = of_nat (16 * ?i + k)" unfolding p by simp
    then have d: "unat (?p + of_nat k - 0x10000) = 16 * ?i + k" using i(1) that by (simp only: unat_of_nat) simp
    have "\<not> ?p + of_nat k < 0x200" "\<not> ?p + of_nat k < 0x10000" using u [OF that] by (simp_all add: word_less_nat_alt)
    then show ?thesis using that by (simp add: shell_mem_def d i(2) ascii_def)
  qed
  have "cstr shell_mem ?p (ascii (fst nc))"
    unfolding cstr_nth
  proof (intro conjI allI impI)
    have l: "length (ascii (fst nc)) = length (fst nc)" by (simp add: ascii_def)
    show "shell_mem (?p + of_nat (length (ascii (fst nc)))) = 0" using m n(1) l by simp
    fix i assume "i < length (ascii (fst nc))"
    then show "shell_mem (?p + of_nat i) = ascii (fst nc) ! i" "ascii (fst nc) ! i \<noteq> 0"
      using m n(1,2) l by (simp, metis nth_mem)
  qed
  moreover have "0x200 < unat ?p" "unat ?p < 0x20000" using u [of 0] i(1) by simp_all
  ultimately show ?thesis by blast
qed

theorem shell_runs_named_command_witness:
  "\<exists>e'. shell_line script_bus (\<lambda>_. 0) (ez_at shell_mem ([], []) shell_addr) = Some (Back e') \<and> e_out e' = [([NL], [])]"
proof -
  let ?e = "ez_at shell_mem ([], []) shell_addr :: script ez"
  let ?cs = "[32, 116, 115, 116, 32, 120] :: u8 list" let ?ds = "[32, 12, 10, 13, 9, 11] :: u8 list"
  have a: "e_mem ?e = shell_mem" "e_addr ?e = shell_addr" "shell_addr ''ReadBuffer'' = 0x100" "shell_addr ''delim'' = 0x200"
    by (simp_all add: ez_at_def shell_addr_def)
  have "off_line 0x100 (length ?cs) (shell_addr (fst nc)) (length (fst nc))" if "nc \<in> set Cmds" for nc
    using shell_mem_names [OF that] Cmds_names(1) that by (intro off_line_beyond) (auto simp: list_all_iff)
  moreover have "off_line 0x100 (length ?cs) 0x200 (length ?ds)" by (rule off_line_beyond) simp_all
  ultimately have r: "shell_ready ?e ?cs ?ds"
    using shell_mem_line shell_mem_names unfolding shell_ready_def a by auto
  have w: "words (set ?ds) ?cs = [[116, 115, 116], [120]]" by simp
  have t: "command_of [toupper 116, toupper 115, toupper 116] = Some C_TestFunction" by code_simp
  have o: "e_out ?e = []" by (simp add: ez_at_def)
  from shell_runs_named_command [OF r, unfolded w, of script_bus "\<lambda>_. 0"] show ?thesis
    by (auto simp: Let_def t say_def o)
qed

end
