(* ===== verification/Boot_Store.thy ===== *)
theory Boot_Store
  imports Boot_Config
begin

text \<open>
  The boot flash as a whole: the routines of \<open>Boot_Flash\<close> and \<open>Boot_Config\<close> on a chip that behaves
  as its data sheet says. The chip is a parameter, so its behaviour is the predicate \<open>nor_chip\<close>
  on the bus: reading an idle chip, the command sequences for programming and erasing, how both go on while time passes (at bus
  accesses and in the turns of a delay loop), and the status bits until they are done.

  The loader asks more of the board than the data sheet gives. While a half-word is programmed, bit 7 of the status is the
  complement of a data bit, and \<open>FB29LVx_GetStatus\<close> takes it for a suspended erase; so the delay loop \<open>FB29LVx_Wait\<close> has to
  outlast the programming of a half-word: \<open>wait_covers\<close>. And the status is looked at at address 0, whatever block is worked on, so
  once the chip is idle it is the word stored there: \<open>status_clear\<close> says that this word does not look like a failure.

  The lemmas follow the code from the status up to \<open>CopyTo_BootFlashEx\<close>, \<open>SaveConfig\<close> and \<open>LoadConfig\<close>; the last section
  is a chip that satisfies the predicates and is busy after every command.
\<close>

section \<open>The chip\<close>

text \<open>
  What the data sheet speaks of: the bytes of the array (those that will be there, while an operation is under way), how much longer the
  operation can take, whether it is programming, else erasing, and that no command is begun and not finished.
\<close>

record 'h chip =
  cells :: "'h \<Rightarrow> mem"
  busy :: "'h \<Rightarrow> nat"
  programming :: "'h \<Rightarrow> bool"
  fresh :: "'h \<Rightarrow> bool"

text \<open>The cycles of a command, with \<open>k\<close> turns of a delay loop between them.\<close>

primrec cmd_writes :: "'h bus \<Rightarrow> nat \<Rightarrow> (u32 \<times> u32) list \<Rightarrow> 'h \<Rightarrow> 'h" where
  "cmd_writes b k [] h = h"
| "cmd_writes b k (w # ws) h =
     (let h = bus_wr b (fst w) (snd w) h in if ws = [] then h else cmd_writes b k ws ((bus_idle b ^^ k) h))"

definition program_cmd :: "u32 \<Rightarrow> u16 \<Rightarrow> (u32 \<times> u32) list" where
  "program_cmd a d = [(0xAAA, 0xAA), (0x554, 0x55), (0xAAA, 0xA0), (a, ucast d)]"

definition erase_cmd :: "u32 \<Rightarrow> (u32 \<times> u32) list" where
  "erase_cmd a = [(0xAAA, 0xAA), (0x554, 0x55), (0xAAA, 0x80), (0xAAA, 0xAA), (0x554, 0x55), (a, 0x30)]"

definition fill_ff :: "u32 set \<Rightarrow> mem \<Rightarrow> mem" where
  "fill_ff X m = (\<lambda>x. if x \<in> X then 0xFF else m x)"

definition block_bytes :: "int list \<Rightarrow> nat \<Rightarrow> u32 \<Rightarrow> nat \<Rightarrow> u32 set" where
  "block_bytes tab n sz i = {x. tab ! i \<le> uint x \<and> uint x < block_end tab n sz i}"

text \<open>Nothing happens to the array, and an operation goes on or ends.\<close>

definition at_rest :: "'h chip \<Rightarrow> 'h \<Rightarrow> 'h \<Rightarrow> bool" where
  "at_rest c h h' \<longleftrightarrow> cells c h' = cells c h \<and> busy c h' \<le> busy c h \<and>
     (0 < busy c h' \<longrightarrow> programming c h' = programming c h) \<and> fresh c h' = fresh c h"

definition idle :: "'h chip \<Rightarrow> 'h \<Rightarrow> bool" where
  "idle c h \<longleftrightarrow> busy c h = 0 \<and> fresh c h"

text \<open>
  In order: reading an idle chip; a program command clears bits, an erase command sets those of a block, and each may leave the
  chip busy; a reset does nothing to an idle chip; reading a busy one gives the status, in which bit 5 is clear as long as
  the operation takes no longer than it may, bit 7 is clear while erasing and anything while programming, and bit 6 or bit 2 toggles until the operation is
  done; time passes in a delay loop; accesses to other devices are no commands.
\<close>

definition nor_chip :: "'h bus \<Rightarrow> 'h chip \<Rightarrow> int list \<Rightarrow> nat \<Rightarrow> u32 \<Rightarrow> bool" where
  "nor_chip b c tab n sz \<longleftrightarrow>
     (\<forall>h a. idle c h \<longrightarrow> a < sz \<longrightarrow>
        fst (bus_rd b a h) = ld32 (cells c h) a \<and> at_rest c h (snd (bus_rd b a h))) \<and>
     (\<forall>h a d k. idle c h \<longrightarrow> a < sz \<longrightarrow> even (unat a) \<longrightarrow>
        cells c (cmd_writes b k (program_cmd a d) h) = st16 (cells c h) a (ld16 (cells c h) a AND d) \<and>
        fresh c (cmd_writes b k (program_cmd a d) h)) \<and>
     (\<forall>h i k. idle c h \<longrightarrow> i < n \<longrightarrow>
        cells c (cmd_writes b k (erase_cmd (word_of_int (tab ! i))) h) = fill_ff (block_bytes tab n sz i) (cells c h) \<and>
        fresh c (cmd_writes b k (erase_cmd (word_of_int (tab ! i))) h) \<and>
        (0 < busy c (cmd_writes b k (erase_cmd (word_of_int (tab ! i))) h) \<longrightarrow>
           \<not> programming c (cmd_writes b k (erase_cmd (word_of_int (tab ! i))) h))) \<and>
     (\<forall>h. idle c h \<longrightarrow> at_rest c h (bus_wr b 0 0xF0 h)) \<and>
     (\<forall>h. 0 < busy c h \<longrightarrow> ucast (fst (bus_rd b 0 h)) AND (0x20 :: u16) = 0 \<and>
        (\<not> programming c h \<longrightarrow> ucast (fst (bus_rd b 0 h)) AND (0x80 :: u16) = 0) \<and>
        at_rest c h (snd (bus_rd b 0 h)) \<and> busy c (snd (bus_rd b 0 h)) < busy c h \<and>
        (0 < busy c (snd (bus_rd b 0 h)) \<longrightarrow>
           (ucast (fst (bus_rd b 0 h)) XOR ucast (fst (bus_rd b 0 (snd (bus_rd b 0 h))))) AND (0x44 :: u16) \<noteq> 0)) \<and>
     (\<forall>h. at_rest c h (bus_idle b h) \<and> (0 < busy c h \<longrightarrow> busy c (bus_idle b h) < busy c h)) \<and>
     (\<forall>h a v. 0x40000000 \<le> a \<longrightarrow> at_rest c h (bus_wr b a v h) \<and> at_rest c h (snd (bus_rd b a h)))"

text \<open>A half-word is programmed before the delay loop is over.\<close>

definition wait_covers :: "'h bus \<Rightarrow> 'h chip \<Rightarrow> u32 \<Rightarrow> bool" where
  "wait_covers b c sz \<longleftrightarrow> (\<forall>h a d k. idle c h \<longrightarrow> a < sz \<longrightarrow> even (unat a) \<longrightarrow>
     busy c (cmd_writes b k (program_cmd a d) h) \<le> WAIT_LOOP_COUNT)"

text \<open>The OS timer comes to its end: its status is seen, or is nearer.\<close>

definition timer_runs :: "'h bus \<Rightarrow> ('h \<Rightarrow> nat) \<Rightarrow> bool" where
  "timer_runs b w \<longleftrightarrow> (\<forall>h. fst (bus_rd b OSSR h) AND 1 \<noteq> 0 \<or> w (snd (bus_rd b OSSR h)) < w h)"

lemma at_rest_trans: "at_rest c h h1 \<Longrightarrow> at_rest c h1 h2 \<Longrightarrow> at_rest c h h2"
  by (auto simp: at_rest_def)

lemma at_rest_refl [simp]: "at_rest c h h"
  by (simp add: at_rest_def)

lemma idle_rest: "at_rest c h h' \<Longrightarrow> idle c h \<Longrightarrow> idle c h'"
  by (simp add: at_rest_def idle_def)

lemma rest_cells: "at_rest c h h' \<Longrightarrow> cells c h' = cells c h"
  by (simp add: at_rest_def)

lemma chip_idle: "nor_chip b c tab n sz \<Longrightarrow> at_rest c h ((bus_idle b ^^ k) h) \<and> busy c ((bus_idle b ^^ k) h) \<le> busy c h - k"
proof (induction k)
  case (Suc k)
  let ?h = "(bus_idle b ^^ k) h"
  have "at_rest c ?h (bus_idle b ?h) \<and> (0 < busy c ?h \<longrightarrow> busy c (bus_idle b ?h) < busy c ?h)"
    using Suc.prems unfolding nor_chip_def by blast
  with Suc at_rest_trans [of c h ?h] show ?case by (auto simp: at_rest_def)
qed simp

lemma chip_read: "nor_chip b c tab n sz \<Longrightarrow> idle c h \<Longrightarrow> a < sz \<Longrightarrow>
    \<exists>h'. bus_rd b a h = (ld32 (cells c h) a, h') \<and> cells c h' = cells c h \<and> idle c h'"
  unfolding nor_chip_def at_rest_def idle_def by (metis le_zero_eq prod.collapse)

lemma chip_program: "nor_chip b c tab n sz \<Longrightarrow> wait_covers b c sz \<Longrightarrow> idle c h \<Longrightarrow> a < sz \<Longrightarrow> even (unat a) \<Longrightarrow>
    idle c ((bus_idle b ^^ WAIT_LOOP_COUNT) (cmd_writes b k (program_cmd a d) h)) \<and>
    cells c ((bus_idle b ^^ WAIT_LOOP_COUNT) (cmd_writes b k (program_cmd a d) h)) = st16 (cells c h) a (ld16 (cells c h) a AND d)"
proof -
  assume a: "nor_chip b c tab n sz" "wait_covers b c sz" "idle c h" "a < sz" "even (unat a)"
  let ?h = "cmd_writes b k (program_cmd a d) h"
  have "busy c ?h \<le> WAIT_LOOP_COUNT" "fresh c ?h" using a(1-5) unfolding wait_covers_def nor_chip_def by blast+
  moreover have "cells c ?h = st16 (cells c h) a (ld16 (cells c h) a AND d)" using a(1,3-5) unfolding nor_chip_def by blast
  ultimately show ?thesis using chip_idle [OF a(1), of ?h WAIT_LOOP_COUNT] by (simp add: at_rest_def idle_def)
qed

text \<open>Idle or erasing.\<close>

definition erasing :: "'h chip \<Rightarrow> 'h \<Rightarrow> bool" where
  "erasing c h \<longleftrightarrow> fresh c h \<and> (0 < busy c h \<longrightarrow> \<not> programming c h)"

lemma erasing_rest: "at_rest c h h' \<Longrightarrow> erasing c h \<Longrightarrow> erasing c h'"
  by (auto simp: at_rest_def erasing_def)

lemma erasing_idle: "erasing c h \<Longrightarrow> (busy c h = 0) = idle c h" "idle c h \<Longrightarrow> erasing c h"
  by (auto simp: erasing_def idle_def)

lemma chip_erase: "nor_chip b c tab n sz \<Longrightarrow> idle c h \<Longrightarrow> i < n \<Longrightarrow>
    cells c (cmd_writes b k (erase_cmd (word_of_int (tab ! i))) h) = fill_ff (block_bytes tab n sz i) (cells c h) \<and>
    erasing c (cmd_writes b k (erase_cmd (word_of_int (tab ! i))) h)"
  unfolding nor_chip_def erasing_def by blast

lemma chip_reset: "nor_chip b c tab n sz \<Longrightarrow> idle c h \<Longrightarrow>
    cells c (bus_wr b 0 0xF0 h) = cells c h \<and> idle c (bus_wr b 0 0xF0 h)"
  unfolding nor_chip_def at_rest_def idle_def by simp

lemma status_bits:
  "(v AND 0xA0 = 0) = ((v :: u16) AND 0x20 = 0 \<and> v AND 0x80 = 0)"
proof -
  have "v AND 0xA0 = (v AND 0x20) OR (v AND 0x80)" by (simp only: bit.conj_disj_distrib [symmetric]) simp
  then show ?thesis by (simp only: or_eq_0_iff)
qed

lemma chip_status: "nor_chip b c tab n sz \<Longrightarrow> 0 < busy c h \<Longrightarrow> erasing c h \<Longrightarrow> bus_rd b 0 h = (v, h') \<Longrightarrow>
    ucast v AND (0xA0 :: u16) = 0 \<and> cells c h' = cells c h \<and> busy c h' < busy c h \<and> erasing c h' \<and>
    (0 < busy c h' \<longrightarrow> (ucast v XOR ucast (fst (bus_rd b 0 h'))) AND (0x44 :: u16) \<noteq> 0)"
proof -
  assume a: "nor_chip b c tab n sz" "0 < busy c h" "erasing c h" "bus_rd b 0 h = (v, h')"
  from a(1) have "0 < busy c h \<longrightarrow> ucast (fst (bus_rd b 0 h)) AND (0x20 :: u16) = 0 \<and>
        (\<not> programming c h \<longrightarrow> ucast (fst (bus_rd b 0 h)) AND (0x80 :: u16) = 0) \<and>
        at_rest c h (snd (bus_rd b 0 h)) \<and> busy c (snd (bus_rd b 0 h)) < busy c h \<and>
        (0 < busy c (snd (bus_rd b 0 h)) \<longrightarrow>
           (ucast (fst (bus_rd b 0 h)) XOR ucast (fst (bus_rd b 0 (snd (bus_rd b 0 h))))) AND (0x44 :: u16) \<noteq> 0)"
    unfolding nor_chip_def by blast
  with a(2-4) show ?thesis using erasing_rest [of c h h'] unfolding status_bits by (simp add: erasing_def at_rest_def)
qed

lemma chip_elsewhere: "nor_chip b c tab n sz \<Longrightarrow> 0x40000000 \<le> a \<Longrightarrow>
    at_rest c h (bus_wr b a v h) \<and> at_rest c h (snd (bus_rd b a h))"
  unfolding nor_chip_def by blast

section \<open>The loader's state\<close>

text \<open>All but the devices, the console and the progress bar.\<close>

definition same_ram :: "'h ez \<Rightarrow> 'h ez \<Rightarrow> bool" where
  "same_ram e e' \<longleftrightarrow> e_mem e' = e_mem e \<and> e_addr e' = e_addr e \<and> FlashSize (Nor e') = FlashSize (Nor e) \<and>
     nor_BlockCount (Nor e') = nor_BlockCount (Nor e) \<and> pBlockAddr (Nor e') = pBlockAddr (Nor e)"

lemma same_ram_trans: "same_ram e e1 \<Longrightarrow> same_ram e1 e2 \<Longrightarrow> same_ram e e2"
  by (simp add: same_ram_def)

lemma same_ram_refl [simp]: "same_ram e e"
  by (simp add: same_ram_def)

lemma same_ram_ops [simp]:
  "same_ram e (wr b a v e)" "same_ram e (snd (rd b a e))" "same_ram e (modify_reg b a f e)" "same_ram e (say t l e)"
  "same_ram e (Flash_UpdateProgress t cur m e)" "e_dev (Flash_UpdateProgress t cur m e) = e_dev e"
  by (simp_all add: same_ram_def wr_def rd_def modify_reg_def say_def Flash_UpdateProgress_def Let_def case_prod_beta)

section \<open>Waiting and status\<close>

lemma wait_overflow_ends:
  assumes "nor_chip b c tab n sz" and "timer_runs b w"
  shows "\<exists>e'. wait_overflow b 0 e = Some e' \<and> same_ram e e' \<and> at_rest c (e_dev e) (e_dev e')"
proof (induction "w (e_dev e)" arbitrary: e rule: less_induct)
  case less
  obtain v h where r: "bus_rd b OSSR (e_dev e) = (v, h)" by fastforce
  have t: "TimeOverflow b 0 e = (v AND 1, e\<lparr>e_dev := h\<rparr>)"
    by (simp add: TimeOverflow_def rd_def r timer_bit_def)
  have k: "at_rest c (e_dev e) h" "same_ram e (e\<lparr>e_dev := h\<rparr>)"
    using chip_elsewhere [OF assms(1), of OSSR "e_dev e"] r by (simp_all add: OSSR_def same_ram_def)
  show ?case
  proof (cases "v AND 1 = 0")
    case True
    then have "w h < w (e_dev e)" using assms(2) r unfolding timer_runs_def by (metis fst_conv snd_conv)
    then obtain e' where "wait_overflow b 0 (e\<lparr>e_dev := h\<rparr>) = Some e' \<and> same_ram (e\<lparr>e_dev := h\<rparr>) e' \<and> at_rest c h (e_dev e')"
      using less [of "e\<lparr>e_dev := h\<rparr>"] by auto
    with k t True show ?thesis
      by (subst wait_overflow.simps) (auto intro: same_ram_trans at_rest_trans)
  next
    case False
    with k t show ?thesis by (subst wait_overflow.simps) simp
  qed
qed

lemma at_rest_ops:
  assumes "nor_chip b c tab n sz" and "0x40000000 \<le> a" and "at_rest c h h0"
  shows "at_rest c h (bus_wr b a v h0)" and "at_rest c h (snd (bus_rd b a h0))" and "at_rest c h (reg_modify b a f h0)"
proof -
  show r: "at_rest c h (snd (bus_rd b a h0))" and "at_rest c h (bus_wr b a v h0)"
    using chip_elsewhere [OF assms(1,2)] assms(3) by (auto intro: at_rest_trans)
  show "at_rest c h (reg_modify b a f h0)"
    using chip_elsewhere [OF assms(1,2)] r by (auto simp: reg_modify_def case_prod_beta intro: at_rest_trans)
qed

lemma msleep_ends:
  assumes "nor_chip b c tab n sz" and "timer_runs b w"
  shows "\<exists>e'. msleep b ms e = Some e' \<and> same_ram e e' \<and> at_rest c (e_dev e) (e_dev e')"
proof -
  define e0 where "e0 = ReloadTimer b 0 ms e"
  have "at_rest c (e_dev e) (e_dev e0)" unfolding e0_def ReloadTimer_def Let_def case_prod_beta
    by (simp add: modify_reg_def rd_def OSMR_def case_prod_beta) (intro at_rest_ops [OF assms(1)]; simp add: timer_regs)
  moreover have "same_ram e e0" unfolding e0_def ReloadTimer_def Let_def case_prod_beta
    by (intro same_ram_trans [OF _ same_ram_ops(1)] same_ram_trans [OF _ same_ram_ops(2)] same_ram_trans [OF _ same_ram_ops(3)]) simp
  moreover obtain e1 where e1: "wait_overflow b 0 e0 = Some e1" "same_ram e0 e1" "at_rest c (e_dev e0) (e_dev e1)"
    using wait_overflow_ends [OF assms] by blast
  moreover have "at_rest c (e_dev e1) (e_dev (FreeTimer b 0 e1))" "same_ram e1 (FreeTimer b 0 e1)"
    using at_rest_ops(3) [OF assms(1)] by (simp_all add: FreeTimer_def modify_reg_def OIER_def) (simp add: same_ram_def)
  ultimately show ?thesis unfolding msleep_def by (auto simp: e0_def [symmetric] intro: same_ram_trans at_rest_trans)
qed

text \<open>The status is read from the array once the chip is idle, so its word at 0 must not look like a failure.\<close>

definition status_clear :: "mem \<Rightarrow> bool" where
  "status_clear m \<longleftrightarrow> ld16 m 0 AND 0xA0 = 0"

lemma low_ld32: "(ucast (ld32 m a) :: u16) = ld16 m a"
  unfolding ld32_def ld16_def
  by (rule bit_word_eqI) (auto simp: bit_simps)

text \<open>The status loop ends on a chip that is idle or erasing, idle; how it ends is open if the word at 0 looks like a failure.\<close>

lemma GetStatus_ends:
  assumes "nor_chip b c tab n sz" and "0 < sz"
  shows "erasing c (e_dev e) \<Longrightarrow> \<exists>r e'. FB29LVx_GetStatus b 0 e = Some (r, e') \<and> same_ram e e' \<and>
    cells c (e_dev e') = cells c (e_dev e) \<and> idle c (e_dev e') \<and>
    (status_clear (cells c (e_dev e)) \<longrightarrow> r = FB_READY) \<and> (idle c (e_dev e) \<longrightarrow> \<not> status_clear (cells c (e_dev e)) \<longrightarrow> r \<noteq> FB_READY)"
proof (induction "busy c (e_dev e)" arbitrary: e rule: less_induct)
  case less
  let ?m = "cells c (e_dev e)"
  obtain v h1 where r1: "bus_rd b 0 (e_dev e) = (v, h1)" by fastforce
  obtain x h2 where r2: "bus_rd b 0 h1 = (x, h2)" by fastforce
  let ?e2 = "e\<lparr>e_dev := h2\<rparr>"
  have s: "same_ram e ?e2" by (simp add: same_ram_def)
  have g: "FB29LVx_GetStatus b 0 e = (if ucast v AND (0xA0 :: u16) \<noteq> 0 then Some (if ucast v AND (0x20 :: u16) \<noteq> 0 then FB_TIMEOUT else FB_ERSUSP, ?e2)
      else if (ucast v XOR ucast x) AND (0x44 :: u16) = 0 then Some (FB_READY, ?e2) else FB29LVx_GetStatus b 0 ?e2)"
    by (subst FB29LVx_GetStatus.simps) (auto simp: FB29LVx_ReadMemoryShort_def rd_def r1 r2 status_bits)
  show ?case
  proof (cases "idle c (e_dev e)")
    case True
    with chip_read [OF assms(1) True assms(2)] r1 have 1: "v = ld32 ?m 0" "cells c h1 = ?m" "idle c h1" by auto
    with chip_read [OF assms(1) 1(3) assms(2)] r2 have "x = ld32 ?m 0" "cells c h2 = ?m" "idle c h2" by auto
    with 1 s g show ?thesis by (auto simp: low_ld32 status_clear_def)
  next
    case False
    then have "0 < busy c (e_dev e)" using erasing_idle(1) [OF less(2)] by simp
    with chip_status [OF assms(1) _ less(2) r1] have 1: "ucast v AND (0xA0 :: u16) = 0" "cells c h1 = ?m" "busy c h1 < busy c (e_dev e)" "erasing c h1"
      and tog: "0 < busy c h1 \<longrightarrow> (ucast v XOR ucast x) AND (0x44 :: u16) \<noteq> 0" using r2 by simp_all
    have 2: "cells c h2 = ?m \<and> busy c h2 \<le> busy c h1 \<and> erasing c h2"
    proof (cases "busy c h1 = 0")
      case True
      then have "idle c h1" using erasing_idle(1) [OF 1(4)] by simp
      with chip_read [OF assms(1) this assms(2)] r2 1(2) True have "cells c h2 = ?m" "idle c h2" by auto
      then show ?thesis by (simp add: idle_def erasing_def)
    next
      case False
      then show ?thesis using chip_status [OF assms(1) _ 1(4) r2] 1(2) by simp
    qed
    show ?thesis
    proof (cases "(ucast v XOR ucast x) AND (0x44 :: u16) = 0")
      case True
      then have "busy c h1 = 0" using tog by simp
      then have "idle c h2" using 2 erasing_idle(1) by (metis le_zero_eq)
      with True 1 2 g s False show ?thesis by simp
    next
      case F: False
      have "\<exists>r e'. FB29LVx_GetStatus b 0 ?e2 = Some (r, e') \<and> same_ram ?e2 e' \<and> cells c (e_dev e') = cells c (e_dev ?e2) \<and> idle c (e_dev e') \<and>
          (status_clear (cells c (e_dev ?e2)) \<longrightarrow> r = FB_READY) \<and> (idle c (e_dev ?e2) \<longrightarrow> \<not> status_clear (cells c (e_dev ?e2)) \<longrightarrow> r \<noteq> FB_READY)"
        by (rule less(1)) (use 1 2 in simp_all)
      with F g 1 s 2 False show ?thesis by (auto intro: same_ram_trans)
    qed
  qed
qed

lemma GetStatus_ready:
  assumes "nor_chip b c tab n sz" and "0 < sz" and "erasing c (e_dev e)" and "status_clear (cells c (e_dev e))"
  shows "\<exists>e'. FB29LVx_GetStatus b 0 e = Some (FB_READY, e') \<and> same_ram e e' \<and>
    cells c (e_dev e') = cells c (e_dev e) \<and> idle c (e_dev e')"
  using GetStatus_ends [OF assms(1-3)] assms(4) by blast

lemma Wait_rest:
  assumes "nor_chip b c tab n sz"
  shows "at_rest c (e_dev e) (e_dev (FB29LVx_Wait b e)) \<and> same_ram e (FB29LVx_Wait b e)"
  using chip_idle [OF assms] by (simp add: FB29LVx_Wait_def same_ram_def)

section \<open>Erasing\<close>

lemma reset_keeps:
  assumes "nor_chip b c tab n sz" and "idle c (e_dev e)"
  shows "same_ram e (FB29LVx_CMD_RESET b 0 e)" and "idle c (e_dev (FB29LVx_CMD_RESET b 0 e))"
    and "cells c (e_dev (FB29LVx_CMD_RESET b 0 e)) = cells c (e_dev e)"
proof -
  let ?e = "wr b 0 0xF0 e"
  have r: "FB29LVx_CMD_RESET b 0 e = FB29LVx_Wait b ?e" by (simp add: FB29LVx_CMD_RESET_def FB29LVx_WriteMemoryShort_def)
  have d: "e_dev ?e = bus_wr b 0 0xF0 (e_dev e)" by (simp add: wr_def)
  have w: "at_rest c (e_dev ?e) (e_dev (FB29LVx_Wait b ?e))" "same_ram ?e (FB29LVx_Wait b ?e)" using Wait_rest [OF assms(1)] by blast+
  show "same_ram e (FB29LVx_CMD_RESET b 0 e)" unfolding r by (rule same_ram_trans [OF same_ram_ops(1) w(2)])
  show "idle c (e_dev (FB29LVx_CMD_RESET b 0 e))"
    unfolding r by (rule idle_rest [OF w(1)]) (simp add: d chip_reset [OF assms])
  show "cells c (e_dev (FB29LVx_CMD_RESET b 0 e)) = cells c (e_dev e)"
    unfolding r rest_cells [OF w(1)] by (simp add: d chip_reset [OF assms])
qed

text \<open>What a sequence of writes with their delays is to the chip.\<close>

definition short_writes :: "'h bus \<Rightarrow> (u32 \<times> u32) list \<Rightarrow> 'h ez \<Rightarrow> 'h ez" where
  "short_writes b ws e = fold (\<lambda>w. FB29LVx_WriteMemoryShort b (fst w) (snd w)) ws e"

lemma short_writes_chip:
  assumes "\<forall>w \<in> set ws. snd w AND 0xFFFF = snd w" and "ws \<noteq> []"
  shows "e_dev (short_writes b ws e) = (bus_idle b ^^ WAIT_LOOP_COUNT) (cmd_writes b WAIT_LOOP_COUNT ws (e_dev e)) \<and> same_ram e (short_writes b ws e)"
  using assms
proof (induction ws arbitrary: e)
  case (Cons w ws)
  let ?e = "FB29LVx_WriteMemoryShort b (fst w) (snd w) e"
  have d: "e_dev ?e = (bus_idle b ^^ WAIT_LOOP_COUNT) (bus_wr b (fst w) (snd w) (e_dev e))" "same_ram e ?e"
    using Cons.prems(1) by (simp_all add: FB29LVx_WriteMemoryShort_def FB29LVx_Wait_def same_ram_def pause_def wr_def)
  show ?case
  proof (cases "ws = []")
    case False
    with Cons.IH [of ?e] Cons.prems d show ?thesis by (auto simp: short_writes_def Let_def intro: same_ram_trans)
  qed (use d in \<open>simp add: short_writes_def\<close>)
qed simp

text \<open>One try to erase a block: it is erased, whatever the loader makes of the status.\<close>

lemma erase_try:
  assumes "nor_chip b c tab n sz" and "timer_runs b w" and "0 < sz" and "idle c (e_dev e)" and "i < n"
  shows "\<exists>r e'. erase_tries (Suc k) b 0 (word_of_int (tab ! i)) e =
      (if r = FB_READY then Some (0, e') else erase_tries k b 0 (word_of_int (tab ! i)) e') \<and> same_ram e e' \<and> idle c (e_dev e') \<and>
    cells c (e_dev e') = fill_ff (block_bytes tab n sz i) (cells c (e_dev e)) \<and>
    (status_clear (fill_ff (block_bytes tab n sz i) (cells c (e_dev e))) \<longrightarrow> r = FB_READY)"
proof -
  let ?a = "word_of_int (tab ! i) :: u32" and ?m = "fill_ff (block_bytes tab n sz i) (cells c (e_dev e))"
  define e0 where "e0 = short_writes b (erase_cmd ?a) e"
  have d: "e_dev e0 = (bus_idle b ^^ WAIT_LOOP_COUNT) (cmd_writes b WAIT_LOOP_COUNT (erase_cmd ?a) (e_dev e))" and s0: "same_ram e e0"
    using short_writes_chip [of "erase_cmd ?a" b e] by (simp_all add: e0_def erase_cmd_def)
  have c0: "cells c (e_dev e0) = ?m" "erasing c (e_dev e0)"
    using chip_erase [OF assms(1,4,5), of WAIT_LOOP_COUNT] chip_idle [OF assms(1), of "cmd_writes b WAIT_LOOP_COUNT (erase_cmd ?a) (e_dev e)" WAIT_LOOP_COUNT]
      erasing_rest [of c "cmd_writes b WAIT_LOOP_COUNT (erase_cmd ?a) (e_dev e)"] unfolding d by (simp_all add: at_rest_def)
  obtain e1 where e1: "msleep b 100 e0 = Some e1" "same_ram e0 e1" "at_rest c (e_dev e0) (e_dev e1)"
    using msleep_ends [OF assms(1,2)] by blast
  then have c1: "cells c (e_dev e1) = ?m" using c0 by (simp add: at_rest_def)
  from GetStatus_ends [OF assms(1,3) erasing_rest [OF e1(3) c0(2)]] obtain r e2 where e2: "FB29LVx_GetStatus b 0 e1 = Some (r, e2)" "same_ram e1 e2"
    "cells c (e_dev e2) = ?m" "idle c (e_dev e2)" "status_clear ?m \<longrightarrow> r = FB_READY" unfolding c1 by blast
  have "erase_tries (Suc k) b 0 ?a e = (if r = FB_READY then Some (0, FB29LVx_CMD_RESET b 0 e2) else erase_tries k b 0 ?a (FB29LVx_CMD_RESET b 0 e2))"
  proof -
    have "FB29LVx_WriteMemoryShort b ?a 0x30 (FB29LVx_WriteMemoryShort b 0x554 0x55 (FB29LVx_WriteMemoryShort b 0xAAA 0xAA (FB29LVx_WriteMemoryShort b 0xAAA 0x80
        (FB29LVx_WriteMemoryShort b 0x554 0x55 (FB29LVx_WriteMemoryShort b 0xAAA 0xAA e))))) = e0" by (simp add: e0_def short_writes_def erase_cmd_def)
    then show ?thesis unfolding erase_tries.simps Let_def by (simp add: e1(1) e2(1))
  qed
  moreover have "same_ram e (FB29LVx_CMD_RESET b 0 e2)"
    using s0 e1(2) e2(2) reset_keeps(1) [OF assms(1) e2(4)] by (blast intro: same_ram_trans)
  ultimately show ?thesis using reset_keeps(2,3) [OF assms(1) e2(4)] e2(3,5) by (intro exI [of _ r] exI [of _ "FB29LVx_CMD_RESET b 0 e2"]) simp
qed

lemma EraseBlock_erases:
  assumes "nor_chip b c tab n sz" and "timer_runs b w" and "0 < sz" and "idle c (e_dev e)" and "i < n"
    and "status_clear (fill_ff (block_bytes tab n sz i) (cells c (e_dev e)))"
  shows "\<exists>e'. FB29LVx_EraseBlock b 0 (word_of_int (tab ! i)) e = Some (0, e') \<and> same_ram e e' \<and> idle c (e_dev e') \<and>
    cells c (e_dev e') = fill_ff (block_bytes tab n sz i) (cells c (e_dev e))"
proof -
  have n: "RETRY_COUNT = Suc 99" by (simp add: RETRY_COUNT_def)
  show ?thesis unfolding FB29LVx_EraseBlock_def n using erase_try [OF assms(1-5), of 99] assms(6) by auto
qed

text \<open>The bytes of the blocks \<open>idx\<close>, ..., \<open>k\<close> of them.\<close>

definition blocks_bytes :: "int list \<Rightarrow> nat \<Rightarrow> u32 \<Rightarrow> nat \<Rightarrow> nat \<Rightarrow> u32 set" where
  "blocks_bytes tab n sz idx k = (\<Union>i \<in> {idx..<idx + k}. block_bytes tab n sz i)"

lemma blocks_bytes_Suc:
  "blocks_bytes tab n sz idx (Suc k) = block_bytes tab n sz idx \<union> blocks_bytes tab n sz (Suc idx) k"
proof -
  have "{idx..<idx + Suc k} = insert idx {Suc idx..<Suc idx + k}" by auto
  then show ?thesis by (simp add: blocks_bytes_def)
qed

lemma fill_ff_Un: "fill_ff Y (fill_ff X m) = fill_ff (X \<union> Y) m"
  by (auto simp: fill_ff_def)

text \<open>Only block 0 holds the word the status is taken from.\<close>

lemma status_clear_fill: "0 \<notin> X \<Longrightarrow> 1 \<notin> X \<Longrightarrow> status_clear (fill_ff X m) = status_clear m"
  by (simp add: status_clear_def ld16_def fill_ff_def)

lemma first_word_elsewhere:
  assumes "block_table tab n sz" and "1 < tab ! 1" and "0 < i" and "i < n"
  shows "0 \<notin> block_bytes tab n sz i" and "1 \<notin> block_bytes tab n sz i"
  using block_table_mono [OF assms(1,4), of 1] assms by (auto simp: block_bytes_def)

lemma erase_blocks_erases:
  assumes "nor_chip b c tab n sz" and "timer_runs b w" and "0 < sz" and "block_table tab n sz" and "1 < tab ! 1"
  shows "idle c (e_dev e) \<Longrightarrow> status_clear (cells c (e_dev e)) \<Longrightarrow> pBlockAddr (Nor e) = tab \<Longrightarrow> 0 < idx \<Longrightarrow> idx + k \<le> n \<Longrightarrow>
    \<exists>e'. erase_blocks k (int idx) b 0 s t e = Some (0, e') \<and> same_ram e e' \<and> idle c (e_dev e') \<and>
      cells c (e_dev e') = fill_ff (blocks_bytes tab n sz idx k) (cells c (e_dev e))"
proof (induction k arbitrary: idx e)
  case 0
  then show ?case by (simp add: blocks_bytes_def fill_ff_def)
next
  case (Suc k)
  let ?X = "block_bytes tab n sz idx"
  obtain e0 where e0: "e0 = Flash_UpdateProgress ''    Erasing'' (word_of_int (int idx - s + 1)) (word_of_int (t - s + 1)) e" by blast
  have s0: "same_ram e e0" "e_dev e0 = e_dev e" by (simp_all add: e0)
  have i: "idx < n" using Suc.prems by simp
  have sc: "status_clear (fill_ff ?X (cells c (e_dev e)))"
    using status_clear_fill first_word_elsewhere [OF assms(4,5) Suc.prems(4) i] Suc.prems(2) by blast
  have p0: "pBlockAddr (Nor e0) = tab" using s0(1) Suc.prems(3) by (simp add: same_ram_def)
  obtain e1 where e1: "FB29LVx_EraseBlock b 0 (word_of_int (tab ! idx)) e0 = Some (0, e1)" "same_ram e0 e1"
    "idle c (e_dev e1)" "cells c (e_dev e1) = fill_ff ?X (cells c (e_dev e))"
    using EraseBlock_erases [OF assms(1-3), of e0 idx] i sc Suc.prems(1) s0(2) by auto
  obtain e2 where e2: "msleep b 1000 e1 = Some e2" "same_ram e1 e2" "at_rest c (e_dev e1) (e_dev e2)"
    using msleep_ends [OF assms(1,2)] by blast
  then have c2: "idle c (e_dev e2)" "cells c (e_dev e2) = fill_ff ?X (cells c (e_dev e))"
    using e1(3,4) idle_rest rest_cells by metis+
  have "pBlockAddr (Nor e2) = tab" using e1(2) e2(2) p0 by (simp add: same_ram_def)
  then obtain e3 where e3: "erase_blocks k (int (Suc idx)) b 0 s t e2 = Some (0, e3)" "same_ram e2 e3" "idle c (e_dev e3)"
    "cells c (e_dev e3) = fill_ff (blocks_bytes tab n sz (Suc idx) k) (cells c (e_dev e2))"
    using Suc.IH [of e2 "Suc idx"] c2 sc Suc.prems(5) by auto
  have "erase_blocks (Suc k) (int idx) b 0 s t e = Some (0, e3)"
    using e3(1) unfolding erase_blocks.simps Let_def e0 [symmetric] by (simp add: p0 e1(1) e2(1) add.commute)
  moreover have "same_ram e e3" using s0(1) e1(2) e2(2) e3(2) by (blast intro: same_ram_trans)
  ultimately show ?case using e3(3,4) c2(2) by (simp add: blocks_bytes_Suc fill_ff_Un)
qed

section \<open>Programming\<close>

lemma CMD_WRITE_cmd:
  "e_dev (FB29LVx_CMD_WRITE b 0 a d e) = (bus_idle b ^^ WAIT_LOOP_COUNT) (cmd_writes b WAIT_LOOP_COUNT (program_cmd a d) (e_dev e))"
  "same_ram e (FB29LVx_CMD_WRITE b 0 a d e)"
proof -
  have "take_bit 16 (ucast d :: u32) = ucast d"
    by (rule bit_word_eqI) (auto simp: bit_simps dest: bit_imp_le_length)
  then have d16: "(ucast d :: u32) AND 0xFFFF = ucast d" by (simp add: take_bit_eq_mask mask_eq_exp_minus_1)
  have "FB29LVx_CMD_WRITE b 0 a d e = short_writes b (program_cmd a d) e"
    by (simp add: FB29LVx_CMD_WRITE_def short_writes_def program_cmd_def)
  then show "e_dev (FB29LVx_CMD_WRITE b 0 a d e) = (bus_idle b ^^ WAIT_LOOP_COUNT) (cmd_writes b WAIT_LOOP_COUNT (program_cmd a d) (e_dev e))"
    "same_ram e (FB29LVx_CMD_WRITE b 0 a d e)"
    using short_writes_chip [of "program_cmd a d" b e] d16 by (simp_all add: program_cmd_def)
qed

lemma WriteWord_writes:
  assumes "nor_chip b c tab n sz" and "wait_covers b c sz" and "idle c (e_dev e)" and "a < sz" and "even (unat a)"
    and "status_clear (st16 (cells c (e_dev e)) a (ld16 (cells c (e_dev e)) a AND d))"
  shows "\<exists>e'. FB29LVx_WriteWord b 0 a d e = Some (0, e') \<and> same_ram e e' \<and> idle c (e_dev e') \<and>
    cells c (e_dev e') = st16 (cells c (e_dev e)) a (ld16 (cells c (e_dev e)) a AND d)"
proof -
  have n: "RETRY_COUNT = Suc 99" by (simp add: RETRY_COUNT_def)
  obtain e0 where e0: "e0 = FB29LVx_CMD_WRITE b 0 a d e" by blast
  note dev = CMD_WRITE_cmd(1) [of b a d e, folded e0] and s0 = CMD_WRITE_cmd(2) [of e b a d, folded e0]
  from chip_program [OF assms(1-5), of WAIT_LOOP_COUNT d] have c0: "idle c (e_dev e0)"
    "cells c (e_dev e0) = st16 (cells c (e_dev e)) a (ld16 (cells c (e_dev e)) a AND d)" by (simp_all add: dev)
  have "0 < sz" using assms(4) by (auto simp: word_gt_0)
  then obtain e1 where e1: "FB29LVx_GetStatus b 0 e0 = Some (FB_READY, e1)" "same_ram e0 e1"
    "cells c (e_dev e1) = cells c (e_dev e0)" "idle c (e_dev e1)"
    using GetStatus_ready [OF assms(1) _ erasing_idle(2) [OF c0(1)]] assms(6) c0 by auto
  have "FB29LVx_WriteWord b 0 a d e = Some (0, FB29LVx_Wait b e1)"
    unfolding FB29LVx_WriteWord_def n write_tries.simps Let_def e0 [symmetric] by (simp add: e1(1))
  moreover have "same_ram e (FB29LVx_Wait b e1)" using s0 e1(2) Wait_rest [OF assms(1), of e1] by (blast intro: same_ram_trans)
  moreover have "idle c (e_dev (FB29LVx_Wait b e1))" "cells c (e_dev (FB29LVx_Wait b e1)) = cells c (e_dev e0)"
    using Wait_rest [OF assms(1), of e1] e1(3,4) idle_rest rest_cells by metis+
  ultimately show ?thesis using c0(2) by auto
qed

lemma unat_lt: "unat (x :: u32) < 4294967296"
  using unsigned_less [of x] by simp

lemma uint_plus_small: "unat a + k < 2 ^ 32 \<Longrightarrow> uint (a + of_nat k :: u32) = uint a + int k"
  using arg_cong [OF unat_plus_small, of a k int] by simp

text \<open>A half-word of the image, and the image written into the array.\<close>

lemma erased_and:
  assumes "m a = 0xFF" and "m (a + 1) = 0xFF"
  shows "ld16 m a AND d = d"
proof -
  have "ld16 m a = 0xFFFF" by (simp add: ld16_def assms)
  moreover have "(0xFFFF :: u16) = -1" by simp
  ultimately show ?thesis by simp
qed

lemma st16_write_bytes: "st16 m a (ld16 r s) = write_bytes m a [r s, r (s + 1)]"
proof -
  have "(ucast (ld16 r s) :: u8) = r s" "(ucast (drop_bit 8 (ld16 r s)) :: u8) = r (s + 1)"
    unfolding ld16_def by (rule bit_word_eqI; auto simp: bit_simps dest: bit_imp_le_length)+
  then show ?thesis by (simp add: st16_def)
qed

lemma ld16_write_bytes: "a + 1 \<noteq> a \<Longrightarrow> ld16 (st16 m a d) a = d"
  unfolding ld16_def st16_def by (rule bit_word_eqI) (auto simp: bit_simps)

lemma read_bytes_two: "read_bytes m a (2 + k) = [m a, m (a + 1)] @ read_bytes m (a + 2) k"
proof -
  have "2 + k = Suc (Suc k)" by simp
  then show ?thesis by (simp only: read_bytes.simps) (simp add: add.assoc)
qed

lemma program_words_writes:
  assumes "nor_chip b c tab n sz" and "wait_covers b c sz"
  shows "idle c (e_dev e) \<Longrightarrow> status_clear (cells c (e_dev e)) \<Longrightarrow> even idx \<Longrightarrow> even (unat off) \<Longrightarrow> 1 < unat off \<Longrightarrow>
    unat off + idx + 2 * k \<le> unat sz \<Longrightarrow> (\<forall>j < 2 * k. cells c (e_dev e) (off + of_nat idx + of_nat j) = 0xFF) \<Longrightarrow>
    \<exists>e'. program_words k (int idx) b 0 off src len e = Some (0, e') \<and> same_ram e e' \<and> idle c (e_dev e') \<and>
      cells c (e_dev e') = write_bytes (cells c (e_dev e)) (off + of_nat idx) (read_bytes (e_mem e) (src + of_nat idx) (2 * k))"
proof (induction k arbitrary: idx e)
  case (Suc k)
  define e0 where "e0 = (if crem (int idx) 512 = 0 then Flash_UpdateProgress ''    Writing'' (word_of_int (int idx)) (word_of_int len) e else e)"
  have s0: "same_ram e e0" "e_dev e0 = e_dev e" by (simp_all add: e0_def)
  define a where "a = off + of_nat idx"
  define d where "d = ld16 (e_mem e0) (src + of_nat idx)"
  let ?m = "cells c (e_dev e)"
  let ?m1 = "write_bytes ?m a [e_mem e (src + of_nat idx), e_mem e (src + of_nat idx + 1)]"
  have lim: "unat off + idx + 2 + 2 * k \<le> unat sz" "unat sz < 2 ^ 32" using Suc.prems(6) unsigned_less [of sz] by simp_all
  have ua: "unat a = unat off + idx" unfolding a_def by (rule unat_plus_small) (use lim in simp)
  have a: "a < sz" "even (unat a)" "a \<noteq> 0" "a \<noteq> 1" "a + 1 \<noteq> 0" "a + 1 \<noteq> 1"
  proof -
    have u1: "unat (a + 1) = unat a + 1" using unat_plus_small [of a 1] ua lim by simp
    show "a < sz" "even (unat a)" using ua lim Suc.prems(3,4) by (simp_all add: word_less_nat_alt)
    show "a \<noteq> 0" "a \<noteq> 1" "a + 1 \<noteq> 0" "a + 1 \<noteq> 1" using ua u1 Suc.prems(5) by auto
  qed
  have ff: "?m a = 0xFF" "?m (a + 1) = 0xFF"
    using Suc.prems(7) [rule_format, of 0] Suc.prems(7) [rule_format, of 1] by (simp_all add: a_def)
  have st: "st16 ?m a (ld16 ?m a AND d) = ?m1"
    using s0(1) unfolding erased_and [of ?m a d, OF ff] by (simp add: d_def st16_write_bytes same_ram_def)
  have sc: "status_clear ?m1" using Suc.prems(2) a by (simp add: status_clear_def ld16_def)
  obtain e1 where e1: "FB29LVx_WriteWord b 0 a d e0 = Some (0, e1)" "same_ram e0 e1" "idle c (e_dev e1)"
    "cells c (e_dev e1) = ?m1"
    using WriteWord_writes [OF assms, of e0 a d] Suc.prems(1) a sc st s0(2) by auto
  obtain h where h: "bus_rd b a (e_dev e1) = (ld32 ?m1 a, h)" "cells c h = ?m1" "idle c h"
    using chip_read [OF assms(1) e1(3) a(1)] e1(4) by auto
  define e2 where "e2 = e1\<lparr>e_dev := h\<rparr>"
  obtain x where x: "x = ld32 ?m1 a" by blast
  have r: "rd b a e1 = (x, e2)" and s2: "same_ram e1 e2" by (simp_all add: rd_def h e2_def same_ram_def x)
  have v: "ucast x = d"
    unfolding x low_ld32 st [symmetric] erased_and [of ?m a d, OF ff] by (rule ld16_write_bytes) simp
  have mem: "e_mem e2 = e_mem e" using s0(1) e1(2) s2 by (simp add: same_ram_def)
  have rest: "\<forall>j < 2 * k. cells c (e_dev e2) (off + of_nat (idx + 2) + of_nat j) = 0xFF"
  proof (intro allI impI)
    fix j assume j: "j < 2 * k"
    have x: "off + of_nat (idx + 2) + of_nat j = a + of_nat (j + 2)" by (simp add: a_def)
    have "unat (a + of_nat (j + 2)) = unat a + (j + 2)" by (rule unat_plus_small) (use ua lim j in simp)
    moreover have "unat (a + 1) = unat a + 1" using unat_plus_small [of a 1] ua lim by simp
    ultimately have "unat (a + of_nat (j + 2)) \<noteq> unat a" "unat (a + of_nat (j + 2)) \<noteq> unat (a + 1)" by linarith+
    then have "a + of_nat (j + 2) \<noteq> a" "a + of_nat (j + 2) \<noteq> a + 1" by metis+
    moreover have "?m (a + of_nat (j + 2)) = 0xFF" using Suc.prems(7) [rule_format, of "j + 2"] j by (simp add: a_def)
    ultimately show "cells c (e_dev e2) (off + of_nat (idx + 2) + of_nat j) = 0xFF"
      unfolding x by (simp add: e2_def h)
  qed
  obtain e3 where e3: "program_words k (int (idx + 2)) b 0 off src len e2 = Some (0, e3)" "same_ram e2 e3" "idle c (e_dev e3)"
    "cells c (e_dev e3) = write_bytes ?m1 (off + of_nat (idx + 2)) (read_bytes (e_mem e2) (src + of_nat (idx + 2)) (2 * k))"
  proof -
    have "e_dev e2 = h" by (simp add: e2_def)
    then have c2: "cells c (e_dev e2) = ?m1" "idle c (e_dev e2)" using h(2,3) by (simp_all only:)
    have p: "even (idx + 2)" "unat off + (idx + 2) + 2 * k \<le> unat sz" "status_clear (cells c (e_dev e2))"
      using Suc.prems(3) lim sc unfolding c2 by simp_all
    from Suc.IH [OF c2(2) p(3,1) Suc.prems(4,5) p(2) rest] show ?thesis using that unfolding c2(1) by blast
  qed
  have "program_words (Suc k) (int idx) b 0 off src len e = Some (0, e3)"
    using e3(1) unfolding program_words.simps Let_def e0_def [symmetric]
    by (simp add: a_def [symmetric] d_def [symmetric] e1(1) r v add.commute)
  moreover have "same_ram e e3" using s0(1) e1(2) s2 e3(2) by (blast intro: same_ram_trans)
  moreover have "cells c (e_dev e3) = write_bytes ?m a (read_bytes (e_mem e) (src + of_nat idx) (2 * Suc k))"
    unfolding e3(4) mem by (simp add: read_bytes_two a_def add.assoc) (simp add: add.commute)
  ultimately show ?case using e3(3) by (simp add: a_def)
qed simp

lemma flash_verify_equal:
  assumes "nor_chip b c tab n sz"
  shows "idle c (e_dev e) \<Longrightarrow> unat dst + 2 * k \<le> unat sz \<Longrightarrow>
    (\<forall>j < 2 * k. cells c (e_dev e) (dst + of_nat j) = e_mem e (src + of_nat j)) \<Longrightarrow>
    \<exists>e'. flash_verify k b dst src e = (0, e') \<and> same_ram e e' \<and> idle c (e_dev e') \<and> cells c (e_dev e') = cells c (e_dev e)"
proof (induction k arbitrary: dst src e)
  case (Suc k)
  have lt: "dst < sz" "unat (dst + 2) = unat dst + 2"
    using Suc.prems(2) unat_plus_small [of dst 2] unat_lt [of sz] by (simp_all add: word_less_nat_alt)
  obtain h where h: "bus_rd b dst (e_dev e) = (ld32 (cells c (e_dev e)) dst, h)" "cells c h = cells c (e_dev e)" "idle c h"
    using chip_read [OF assms Suc.prems(1) lt(1)] by blast
  define e1 where "e1 = e\<lparr>e_dev := h\<rparr>"
  have e1: "cells c (e_dev e1) = cells c (e_dev e)" "idle c (e_dev e1)" "e_mem e1 = e_mem e" "same_ram e e1"
    using h by (simp_all add: e1_def same_ram_def)
  have eq: "ld16 (cells c (e_dev e)) dst = ld16 (e_mem e) src"
    using Suc.prems(3) [rule_format, of 0] Suc.prems(3) [rule_format, of 1] by (simp add: ld16_def)
  have r: "FB29LVx_ReadMemoryShort b dst e = (ld16 (e_mem e) src, e1)"
    by (simp add: FB29LVx_ReadMemoryShort_def rd_def h low_ld32 eq e1_def)
  have rest: "\<forall>j < 2 * k. cells c (e_dev e1) (dst + 2 + of_nat j) = e_mem e1 (src + 2 + of_nat j)"
  proof (intro allI impI)
    fix j assume "j < 2 * k"
    with Suc.prems(3) [rule_format, of "j + 2"] show "cells c (e_dev e1) (dst + 2 + of_nat j) = e_mem e1 (src + 2 + of_nat j)"
      by (simp add: e1 add.assoc)
  qed
  have "unat (dst + 2) + 2 * k \<le> unat sz" using lt Suc.prems(2) by simp
  from Suc.IH [OF e1(2) this rest] obtain e2 where
    e2: "flash_verify k b (dst + 2) (src + 2) e1 = (0, e2)" "same_ram e1 e2" "idle c (e_dev e2)"
    "cells c (e_dev e2) = cells c (e_dev e1)" by blast
  then show ?case using same_ram_trans [OF e1(4)] by (simp add: r e1)
qed simp

lemma blocks_cover:
  assumes "block_table tab n sz" and "i < n" and "j < n" and "tab ! i \<le> uint x" and "uint x < block_end tab n sz j" and "i \<le> j"
  shows "x \<in> blocks_bytes tab n sz i (j + 1 - i)"
  using assms(6,2-5)
proof (induction j rule: dec_induct)
  case base
  then show ?case by (simp add: blocks_bytes_def block_bytes_def)
next
  case (step m)
  have m: "m + 1 < n" using step.prems by simp
  show ?case
  proof (cases "uint x < block_end tab n sz m")
    case True
    then have "x \<in> blocks_bytes tab n sz i (m + 1 - i)" using step by simp
    then show ?thesis using step(1) unfolding blocks_bytes_def by (auto intro!: bexI)
  next
    case False
    then have "x \<in> block_bytes tab n sz (Suc m)" using m step.prems by (simp add: block_bytes_def block_end_def)
    then show ?thesis using step(1) unfolding blocks_bytes_def by force
  qed
qed

lemma second_block:
  assumes "chip_data pid = Some (n, sz, tab, m1, m2)"
  shows "1 < tab ! 1" and "1 < n"
proof -
  have "1 < FB29LV400T_block_addr ! 1" "1 < FB29LV400B_block_addr ! 1" "1 < FB29LV800T_block_addr ! 1"
    "1 < FB29LV800B_block_addr ! 1" "1 < FB29LV160T_block_addr ! 1" "1 < FB29LV160B_block_addr ! 1"
    by code_simp+
  then show "1 < tab ! 1" and "1 < n"
    using assms unfolding chip_data_def FB_400x_BLOCK_COUNT_def FB_800x_BLOCK_COUNT_def FB_160x_BLOCK_COUNT_def
    by (auto split: if_splits)
qed

text \<open>The blocks of an image that is not in the first block: those from \<open>s\<close> to \<open>t\<close>.\<close>

definition image_at :: "nor_info \<Rightarrow> u32 \<Rightarrow> nat \<Rightarrow> nat \<Rightarrow> nat \<Rightarrow> bool" where
  "image_at f off len s t \<longleftrightarrow> FB29LVx_GetBlockIndex f off = int s \<and> FB29LVx_GetBlockIndex f (off + of_nat len) = int t \<and>
     0 < s \<and> s \<le> t \<and> t < nat (nor_BlockCount f) \<and>
     (\<forall>j < len. off + of_nat j \<in> blocks_bytes (pBlockAddr f) (nat (nor_BlockCount f)) (FlashSize f) s (t + 1 - s))"

lemma image_blocks:
  fixes f :: nor_info
  defines "tab \<equiv> pBlockAddr f" and "n \<equiv> nat (nor_BlockCount f)" and "sz \<equiv> FlashSize f"
  assumes "chip_data pid = Some (nor_BlockCount f, FlashSize f, pBlockAddr f, m1, m2)"
    and "tab ! 1 \<le> int (unat off)" and "unat off + len < unat sz"
  shows "\<exists>s t. image_at f off len s t"
proof -
  have bt: "block_table tab n sz" unfolding tab_def n_def sz_def by (rule chip_tables [OF assms(4)])
  have small: "unat off + j < 2 ^ 32" if "j \<le> len" for j using that assms(6) unat_lt [of sz] by simp
  note uint_at = uint_plus_small [OF small]
  have lt: "off < sz" "off + of_nat len < sz" using assms(6) unat_plus_small [OF small, of len] by (simp_all add: word_less_nat_alt)
  from block_index_ok [OF assms(4)] lt obtain s t where
    s: "FB29LVx_GetBlockIndex f off = int s" "s < n" "tab ! s \<le> uint off" "uint off < block_end tab n sz s" and
    t: "FB29LVx_GetBlockIndex f (off + of_nat len) = int t" "t < n" "uint (off + of_nat len) < block_end tab n sz t"
    unfolding tab_def n_def sz_def by metis
  have n1: "1 < n" using second_block [OF assms(4)] by (simp add: n_def)
  have s0: "0 < s" using s(4) assms(5) n1 by (cases "s = 0") (simp_all add: block_end_def)
  have st: "s \<le> t"
  proof (rule ccontr)
    assume "\<not> s \<le> t"
    then have "tab ! (t + 1) \<le> tab ! s" "t + 1 \<noteq> n" using block_table_mono [OF bt s(2), of "t + 1"] s(2) by simp_all
    then show False using s(3) t(3) uint_at [of len] by (simp add: block_end_def)
  qed
  have "off + of_nat j \<in> blocks_bytes tab n sz s (t + 1 - s)" if "j < len" for j
    using blocks_cover [OF bt s(2) t(2) _ _ st, of "off + of_nat j"] s(3) t(3) uint_at [of j] uint_at [of len] that by simp
  then show ?thesis using s(1) t(1,2) s0 st unfolding image_at_def tab_def n_def sz_def by blast
qed

lemma ProgramEx_programs:
  fixes e :: "'h ez"
  defines "tab \<equiv> pBlockAddr (Nor e)" and "n \<equiv> nat (nor_BlockCount (Nor e))" and "sz \<equiv> FlashSize (Nor e)"
  assumes "nor_chip b c tab n sz" and "timer_runs b w" and "wait_covers b c sz"
    and "chip_data pid = Some (nor_BlockCount (Nor e), FlashSize (Nor e), pBlockAddr (Nor e), m1, m2)"
    and "idle c (e_dev e)" and "status_clear (cells c (e_dev e))"
    and "even (unat off)" and "tab ! 1 \<le> int (unat off)" and "unat off + 2 * k < unat sz" and "image_at (Nor e) off (2 * k) s t"
  shows "\<exists>e'. BootFlash_ProgramEx b 0 off src (int (2 * k)) True e = Some (int (2 * k), e') \<and> same_ram e e' \<and> idle c (e_dev e') \<and>
      cells c (e_dev e') = write_bytes (fill_ff (blocks_bytes tab n sz s (t + 1 - s)) (cells c (e_dev e))) off (read_bytes (e_mem e) src (2 * k))"
proof -
  have bt: "block_table tab n sz" unfolding tab_def n_def sz_def by (rule chip_tables [OF assms(7)])
  have b1: "1 < tab ! 1" using second_block [OF assms(7)] by (simp add: tab_def)
  let ?X = "blocks_bytes tab n sz s (t + 1 - s)"
  have at: "FB29LVx_GetBlockIndex (Nor e) off = int s" "FB29LVx_GetBlockIndex (Nor e) (off + of_nat (2 * k)) = int t"
    "0 < s" "s \<le> t" "s + (t + 1 - s) \<le> n" "\<forall>j < 2 * k. off + of_nat j \<in> ?X"
    using assms(13) unfolding image_at_def tab_def n_def sz_def by auto
  have sz0: "0 < sz" using assms(12) by (auto simp: word_gt_0)
  have pb: "pBlockAddr (Nor e) = tab" by (simp add: tab_def)
  obtain e1 where e1: "erase_blocks (t + 1 - s) (int s) b 0 (int s) (int t) e = Some (0, e1)" "same_ram e e1"
    "idle c (e_dev e1)" "cells c (e_dev e1) = fill_ff ?X (cells c (e_dev e))"
    using erase_blocks_erases [OF assms(4,5) sz0 bt b1 assms(8,9) pb at(3,5), of "int s" "int t"] by blast
  define e2 where "e2 = say ''    Erase : OK'' [] (Flash_UpdateProgress ''    Erasing'' 100 100 e1)"
  have e2: "same_ram e e2" "idle c (e_dev e2)" "cells c (e_dev e2) = fill_ff ?X (cells c (e_dev e))"
    using e1 same_ram_trans [OF same_ram_trans [OF e1(2) same_ram_ops(5)] same_ram_ops(4)] by (simp_all add: e2_def)
  have no: "0 \<notin> ?X" "1 \<notin> ?X"
    using first_word_elsewhere [OF bt b1] at(3,5) by (auto simp: blocks_bytes_def)
  have sc: "status_clear (cells c (e_dev e2))" using assms(9) status_clear_fill [OF no] by (simp add: e2)
  have ff: "\<forall>j < 2 * k. cells c (e_dev e2) (off + of_nat 0 + of_nat j) = 0xFF"
    using at(6) by (simp add: e2 fill_ff_def)
  have "int 1 < int (unat off)" using b1 assms(11) by linarith
  then have "1 < unat off" by (simp only: of_nat_less_iff)
  then obtain e3 where e3: "program_words k (int 0) b 0 off src (int (2 * k)) e2 = Some (0, e3)" "same_ram e2 e3" "idle c (e_dev e3)"
    "cells c (e_dev e3) = write_bytes (cells c (e_dev e2)) (off + of_nat 0) (read_bytes (e_mem e2) (src + of_nat 0) (2 * k))"
    using program_words_writes [OF assms(4,6) e2(2) sc _ assms(10) _ _ ff] assms(12) by auto
  define e4 where "e4 = FB29LVx_CMD_RESET b 0 (say ''    Write : OK'' [] (Flash_UpdateProgress ''    Writing'' 100 100 e3))"
  have e4: "same_ram e3 e4" "idle c (e_dev e4)" "cells c (e_dev e4) = cells c (e_dev e3)"
    using reset_keeps [OF assms(4), of "say ''    Write : OK'' [] (Flash_UpdateProgress ''    Writing'' 100 100 e3)"] e3(3)
      same_ram_trans [OF same_ram_trans [OF same_ram_ops(5) same_ram_ops(4)]] by (simp_all add: e4_def)
  have "nat (int t - int s + 1) = t + 1 - s" "nat ((int (2 * k) + 1) div 2) = k" using at(4) by simp_all
  then have "BootFlash_ProgramEx b 0 off src (int (2 * k)) True e = Some (int (2 * k), e4)"
    unfolding BootFlash_ProgramEx_def Let_def using at(1,2) e1(1) e3(1)
    by (simp add: e2_def [symmetric] e4_def)
  moreover have "same_ram e e4" using e2(1) e3(2) e4(1) by (blast intro: same_ram_trans)
  moreover have "e_mem e2 = e_mem e" using e2(1) by (simp add: same_ram_def)
  ultimately show ?thesis using e4(2,3) e3(4) e2(3) by (intro exI [of _ e4]) simp
qed

section \<open>Storing an image\<close>

lemma CopyTo_copies:
  fixes e :: "'h ez"
  defines "tab \<equiv> pBlockAddr (Nor e)" and "n \<equiv> nat (nor_BlockCount (Nor e))" and "sz \<equiv> FlashSize (Nor e)"
  assumes "nor_chip b c tab n sz" and "timer_runs b w" and "wait_covers b c sz"
    and "chip_data pid = Some (nor_BlockCount (Nor e), FlashSize (Nor e), pBlockAddr (Nor e), m1, m2)"
    and "idle c (e_dev e)" and "status_clear (cells c (e_dev e))"
    and "even (unat off)" and "tab ! 1 \<le> int (unat off)" and "unat off + 2 * k < unat sz" and "image_at (Nor e) off (2 * k) s t"
  shows "\<exists>e'. CopyTo_BootFlashEx b off src (int (2 * k)) True e = Some (0, e') \<and> same_ram e e' \<and> idle c (e_dev e') \<and>
      cells c (e_dev e') = write_bytes (fill_ff (blocks_bytes tab n sz s (t + 1 - s)) (cells c (e_dev e))) off (read_bytes (e_mem e) src (2 * k))"
proof -
  from ProgramEx_programs [OF assms(4-13) [unfolded tab_def n_def sz_def], of src] obtain e1 where
    p: "BootFlash_ProgramEx b 0 off src (int (2 * k)) True e = Some (int (2 * k), e1)" "same_ram e e1" "idle c (e_dev e1)"
    "cells c (e_dev e1) = write_bytes (fill_ff (blocks_bytes tab n sz s (t + 1 - s)) (cells c (e_dev e))) off (read_bytes (e_mem e) src (2 * k))"
    unfolding tab_def n_def sz_def by blast
  have m: "e_mem e1 = e_mem e" using p(2) by (simp add: same_ram_def)
  have "\<forall>j < 2 * k. cells c (e_dev e1) (off + of_nat j) = e_mem e1 (src + of_nat j)"
    using assms(12) unat_lt [of sz] by (simp add: p(4) m write_bytes_nth nth_read_bytes)
  then obtain e2 where e2: "flash_verify k b off src e1 = (0, e2)" "same_ram e1 e2" "idle c (e_dev e2)"
    "cells c (e_dev e2) = cells c (e_dev e1)"
    using flash_verify_equal [OF assms(4) p(3), of off k src] assms(12) by auto
  have "CopyTo_BootFlashEx b off src (int (2 * k)) True e = Some (0, e2)"
    using p(1) e2(1) by (simp add: CopyTo_BootFlashEx_def)
  then show ?thesis using p(2,4) e2(2-4) same_ram_trans [OF p(2) e2(2)] by auto
qed

lemma blocks_disjoint:
  assumes "block_table tab n sz" and "i < j" and "j < n" and "x \<in> block_bytes tab n sz i"
  shows "x \<notin> block_bytes tab n sz j"
  using block_table_mono [OF assms(1,3), of "i + 1"] assms(2-4) by (auto simp: block_bytes_def block_end_def)

lemma other_blocks:
  assumes "block_table tab n sz" and "i < n" and "x \<in> block_bytes tab n sz i" and "i < s \<or> t < i" and "t < n" and "s \<le> t"
  shows "x \<notin> blocks_bytes tab n sz s (t + 1 - s)"
proof
  assume "x \<in> blocks_bytes tab n sz s (t + 1 - s)"
  then obtain j where j: "s \<le> j" "j \<le> t" "x \<in> block_bytes tab n sz j" using assms(6) by (auto simp: blocks_bytes_def)
  show False
  proof (cases "i < j")
    case True
    then show False using blocks_disjoint [OF assms(1) True] assms(3,5) j by simp
  next
    case False
    then have "j < i" using assms(4) j by auto
    then show False using blocks_disjoint [OF assms(1) _ assms(2) j(3)] assms(3) by simp
  qed
qed

section \<open>Loading the configuration\<close>

lemma low_byte: "(ucast (ld32 m a) :: u8) = m a"
  unfolding ld32_def by (rule bit_word_eqI) (auto simp: bit_simps)

lemma copy_from_flash_copies:
  assumes "nor_chip b c tab n sz"
  shows "idle c (e_dev e) \<Longrightarrow> unat src + k \<le> unat sz \<Longrightarrow>
    e_mem (copy_from_flash k b dest src e) = write_bytes (e_mem e) dest (read_bytes (cells c (e_dev e)) src k)"
proof (induction k arbitrary: dest src e)
  case (Suc k)
  have lt: "src < sz" using Suc.prems(2) by (simp add: word_less_nat_alt)
  have src1: "unat (src + 1) + k \<le> unat sz" using Suc.prems(2) unat_plus_small [of src 1] unat_lt [of sz]
    by (cases "unat src + 1 < 2 ^ 32") simp_all
  obtain h where h: "bus_rd b src (e_dev e) = (ld32 (cells c (e_dev e)) src, h)" "cells c h = cells c (e_dev e)" "idle c h"
    using chip_read [OF assms Suc.prems(1) lt] by blast
  define e1 where "e1 = with_mem (\<lambda>m. m(dest := cells c (e_dev e) src)) (e\<lparr>e_dev := h\<rparr>)"
  have e1: "e_dev e1 = h" "e_mem e1 = (e_mem e)(dest := cells c (e_dev e) src)" by (simp_all add: e1_def) (simp add: fun_upd_def)
  have "copy_from_flash (Suc k) b dest src e = copy_from_flash k b (dest + 1) (src + 1) e1"
    by (simp add: rd_def h low_byte e1_def)
  then show ?case using Suc.IH [of e1 "src + 1" "dest + 1", OF _ src1] h(2,3) by (simp add: e1) (simp add: fun_upd_def)
qed simp

lemma LoadConfig_loads:
  assumes "nor_chip b c tab n sz" and "idle c (e_dev e)" and "0x20000 + CFG_SIZE \<le> unat sz"
  shows "e_mem (LoadConfig b e) = write_bytes (e_mem e) (obj e ''Cfg'')
     (if ld32 (cells c (e_dev e)) DEFAULT_BOOT_PARAM = CONFIG_MAGIC then read_bytes (cells c (e_dev e)) DEFAULT_BOOT_PARAM CFG_SIZE
      else Default_Cfg)"
proof -
  have u: "unat DEFAULT_BOOT_PARAM = 0x20000" by (simp add: DEFAULT_BOOT_PARAM_def)
  then have "DEFAULT_BOOT_PARAM < sz" using assms(3) by (simp add: word_less_nat_alt CFG_SIZE_def)
  then obtain h where h: "bus_rd b DEFAULT_BOOT_PARAM (e_dev e) = (ld32 (cells c (e_dev e)) DEFAULT_BOOT_PARAM, h)"
    "cells c h = cells c (e_dev e)" "idle c h" using chip_read [OF assms(1,2)] by blast
  have "e_mem (copy_from_flash CFG_SIZE b (obj e ''Cfg'') DEFAULT_BOOT_PARAM (e\<lparr>e_dev := h\<rparr>)) =
      write_bytes (e_mem e) (obj e ''Cfg'') (read_bytes (cells c (e_dev e)) DEFAULT_BOOT_PARAM CFG_SIZE)"
    using copy_from_flash_copies [OF assms(1), of "e\<lparr>e_dev := h\<rparr>"] assms(3) h(2,3) by (simp add: u)
  then show ?thesis by (simp add: LoadConfig_def rd_def h(1) Let_def)
qed

text \<open>On every known chip the configuration is inside the chip and not in its first block.\<close>

lemma config_inside:
  assumes "chip_data pid = Some (nor_BlockCount f, FlashSize f, pBlockAddr f, m1, m2)"
  shows "pBlockAddr f ! 1 \<le> int (unat DEFAULT_BOOT_PARAM)" and "unat DEFAULT_BOOT_PARAM + 560 < unat (FlashSize f)"
proof -
  have "FB29LV400T_block_addr ! 1 \<le> 0x20000 \<and> FB29LV400B_block_addr ! 1 \<le> 0x20000 \<and> FB29LV800T_block_addr ! 1 \<le> 0x20000 \<and>
    FB29LV800B_block_addr ! 1 \<le> 0x20000 \<and> FB29LV160T_block_addr ! 1 \<le> 0x20000 \<and> FB29LV160B_block_addr ! 1 \<le> 0x20000"
    by code_simp
  then show "pBlockAddr f ! 1 \<le> int (unat DEFAULT_BOOT_PARAM)" and "unat DEFAULT_BOOT_PARAM + 560 < unat (FlashSize f)"
    using assms unfolding chip_data_def DEFAULT_BOOT_PARAM_def by (auto split: if_splits)
qed

lemma flash_copy:
  assumes "nor_chip b c (pBlockAddr (Nor e)) (nat (nor_BlockCount (Nor e))) (FlashSize (Nor e))" and "timer_runs b w" and "wait_covers b c (FlashSize (Nor e))"
    and "chip_data pid = Some (nor_BlockCount (Nor e), FlashSize (Nor e), pBlockAddr (Nor e), m1, m2)"
    and "idle c (e_dev e)" and "status_clear (cells c (e_dev e))"
    and "even (unat off)" and "pBlockAddr (Nor e) ! 1 \<le> int (unat off)" and "unat off + 2 * k < unat (FlashSize (Nor e))"
  shows "\<exists>e'. CopyTo_BootFlashEx b off src (int (2 * k)) True e = Some (0, e') \<and> e_mem e' = e_mem e \<and>
      (\<forall>j < 2 * k. cells c (e_dev e') (off + of_nat j) = e_mem e (src + of_nat j)) \<and>
      (\<forall>i x. i < nat (nor_BlockCount (Nor e)) \<and> x \<in> block_bytes (pBlockAddr (Nor e)) (nat (nor_BlockCount (Nor e))) (FlashSize (Nor e)) i \<and>
         (int i < FB29LVx_GetBlockIndex (Nor e) off \<or> FB29LVx_GetBlockIndex (Nor e) (off + of_nat (2 * k)) < int i) \<longrightarrow>
         cells c (e_dev e') x = cells c (e_dev e) x)"
proof -
  from image_blocks [OF assms(4,8,9)] obtain s t where at: "image_at (Nor e) off (2 * k) s t" by blast
  let ?X = "blocks_bytes (pBlockAddr (Nor e)) (nat (nor_BlockCount (Nor e))) (FlashSize (Nor e)) s (t + 1 - s)"
  from CopyTo_copies [OF assms at, of src] obtain e' where e': "CopyTo_BootFlashEx b off src (int (2 * k)) True e = Some (0, e')"
    "same_ram e e'" "cells c (e_dev e') = write_bytes (fill_ff ?X (cells c (e_dev e))) off (read_bytes (e_mem e) src (2 * k))"
    by blast
  have "cells c (e_dev e') (off + of_nat j) = e_mem e (src + of_nat j)" if "j < 2 * k" for j
    using that assms(9) unat_lt [of "FlashSize (Nor e)"] by (simp add: e'(3) write_bytes_nth nth_read_bytes)
  moreover have "cells c (e_dev e') x = cells c (e_dev e) x" if "x \<notin> ?X" for x
  proof -
    have "off + of_nat j \<noteq> x" if "j < 2 * k" for j using at that \<open>x \<notin> ?X\<close> by (auto simp: image_at_def)
    then show ?thesis using that write_bytes_other [of "read_bytes (e_mem e) src (2 * k)" off x "fill_ff ?X (cells c (e_dev e))"]
      by (simp add: e'(3)) (simp add: fill_ff_def)
  qed
  then have "cells c (e_dev e') x = cells c (e_dev e) x"
    if "i < nat (nor_BlockCount (Nor e))" "x \<in> block_bytes (pBlockAddr (Nor e)) (nat (nor_BlockCount (Nor e))) (FlashSize (Nor e)) i"
      "int i < FB29LVx_GetBlockIndex (Nor e) off \<or> FB29LVx_GetBlockIndex (Nor e) (off + of_nat (2 * k)) < int i" for i x
    using other_blocks [OF chip_tables [OF assms(4)] that(1,2), of s t] that(3) at unfolding image_at_def by auto
  ultimately show ?thesis using e'(1,2) unfolding same_ram_def by blast
qed

section \<open>A status that never clears\<close>

text \<open>An erase is done whatever comes of it; it is taken for failed unless the status is looked at just when it ends.\<close>

lemma erase_tries_end:
  assumes "nor_chip b c tab n sz" and "timer_runs b w" and "0 < sz" and "i < n"
  shows "idle c (e_dev e) \<Longrightarrow>
    \<exists>r e'. erase_tries (Suc k) b 0 (word_of_int (tab ! i)) e = Some (r, e') \<and> (r = 0 \<or> r = -1) \<and> same_ram e e' \<and> idle c (e_dev e') \<and>
      cells c (e_dev e') = fill_ff (block_bytes tab n sz i) (cells c (e_dev e))"
proof (induction k arbitrary: e)
  case 0
  obtain r e1 where e1: "erase_tries (Suc 0) b 0 (word_of_int (tab ! i)) e =
      (if r = FB_READY then Some (0, e1) else erase_tries 0 b 0 (word_of_int (tab ! i)) e1)" "same_ram e e1" "idle c (e_dev e1)"
    "cells c (e_dev e1) = fill_ff (block_bytes tab n sz i) (cells c (e_dev e))"
    using erase_try [OF assms(1-3) 0 assms(4), of 0] by blast
  then show ?case using same_ram_trans [OF e1(2) same_ram_ops(4)] by (cases "r = FB_READY") simp_all
next
  case (Suc k)
  let ?X = "block_bytes tab n sz i"
  obtain r e1 where e1: "erase_tries (Suc (Suc k)) b 0 (word_of_int (tab ! i)) e =
      (if r = FB_READY then Some (0, e1) else erase_tries (Suc k) b 0 (word_of_int (tab ! i)) e1)" "same_ram e e1" "idle c (e_dev e1)"
    "cells c (e_dev e1) = fill_ff ?X (cells c (e_dev e))"
    using erase_try [OF assms(1-3) Suc.prems assms(4), of "Suc k"] by blast
  obtain r2 e2 where e2: "erase_tries (Suc k) b 0 (word_of_int (tab ! i)) e1 = Some (r2, e2)" "r2 = 0 \<or> r2 = -1" "same_ram e1 e2"
    "idle c (e_dev e2)" "cells c (e_dev e2) = fill_ff ?X (cells c (e_dev e1))" using Suc.IH [OF e1(3)] by blast
  have "fill_ff ?X (fill_ff ?X (cells c (e_dev e))) = fill_ff ?X (cells c (e_dev e))" by (simp add: fill_ff_Un)
  then show ?case using e1 e2 same_ram_trans [OF e1(2) e2(3)] by (cases "r = FB_READY") (simp_all del: erase_tries.simps)
qed

lemma write_tries_refused:
  assumes "nor_chip b c tab n sz" and "wait_covers b c sz" and "a < sz" and "even (unat a)" and "1 < unat a" and "unat a + 1 < 2 ^ 32"
  shows "idle c (e_dev e) \<Longrightarrow> \<not> status_clear (cells c (e_dev e)) \<Longrightarrow>
    \<exists>e'. write_tries k b 0 a d e = Some (-1, e') \<and> same_ram e e' \<and> idle c (e_dev e') \<and>
      (\<forall>x. x \<noteq> a \<and> x \<noteq> a + 1 \<longrightarrow> cells c (e_dev e') x = cells c (e_dev e) x)"
proof (induction k arbitrary: e)
  case (Suc k)
  obtain e0 where e0: "e0 = FB29LVx_CMD_WRITE b 0 a d e" by blast
  note dev = CMD_WRITE_cmd(1) [of b a d e, folded e0] and s0 = CMD_WRITE_cmd(2) [of e b a d, folded e0]
  from chip_program [OF assms(1,2) Suc.prems(1) assms(3,4), of WAIT_LOOP_COUNT d] have c0: "idle c (e_dev e0)"
    "cells c (e_dev e0) = st16 (cells c (e_dev e)) a (ld16 (cells c (e_dev e)) a AND d)" by (simp_all add: dev)
  have "unat (a + 1) = unat a + 1" using unat_plus_small [of a 1] assms(6) by simp
  then have "a \<noteq> 0" "a \<noteq> 1" "a + 1 \<noteq> 0" "a + 1 \<noteq> 1" using assms(5) by auto
  then have ns: "\<not> status_clear (cells c (e_dev e0))" using Suc.prems(2) by (simp add: c0 status_clear_def ld16_def st16_def)
  have sz0: "0 < sz" using assms(3) by (rule le_less_trans [OF word_zero_le])
  obtain st e1 where e1: "FB29LVx_GetStatus b 0 e0 = Some (st, e1)" "st \<noteq> FB_READY" "same_ram e0 e1"
    "cells c (e_dev e1) = cells c (e_dev e0)" "idle c (e_dev e1)"
    using GetStatus_ends [OF assms(1) sz0, of e0] c0(1) ns erasing_idle(2) [OF c0(1)] by auto
  define e2 where "e2 = FB29LVx_CMD_RESET b 0 e1"
  have e2: "same_ram e1 e2" "idle c (e_dev e2)" "cells c (e_dev e2) = cells c (e_dev e0)"
    using reset_keeps [OF assms(1) e1(5)] e1(4) by (simp_all add: e2_def)
  with ns obtain e3 where e3: "write_tries k b 0 a d e2 = Some (-1, e3)" "same_ram e2 e3" "idle c (e_dev e3)"
    "\<forall>x. x \<noteq> a \<and> x \<noteq> a + 1 \<longrightarrow> cells c (e_dev e3) x = cells c (e_dev e2) x"
    using Suc.IH [of e2] by auto
  have "write_tries (Suc k) b 0 a d e = Some (-1, e3)"
    using e1(2) e3(1) by (simp add: e0 [symmetric] e1(1) e2_def [symmetric] Let_def)
  moreover have "same_ram e e3" using s0 e1(3) e2(1) e3(2) by (blast intro: same_ram_trans)
  ultimately show ?case using e3(3,4) e2(3) c0(2) by (simp add: st16_def)
qed (simp add: say_def same_ram_def)

lemma flash_verify_differs:
  assumes "nor_chip b c tab n sz"
  shows "idle c (e_dev e) \<Longrightarrow> unat dst + 2 * k \<le> unat sz \<Longrightarrow> i < k \<Longrightarrow>
    ld16 (cells c (e_dev e)) (dst + of_nat (2 * i)) \<noteq> ld16 (e_mem e) (src + of_nat (2 * i)) \<Longrightarrow>
    \<exists>e'. flash_verify k b dst src e = (-1, e') \<and> same_ram e e' \<and> idle c (e_dev e') \<and> cells c (e_dev e') = cells c (e_dev e)"
proof (induction k arbitrary: dst src e i)
  case (Suc k)
  have lt: "dst < sz" "unat (dst + 2) = unat dst + 2"
    using Suc.prems(2) unat_plus_small [of dst 2] unat_lt [of sz] by (simp_all add: word_less_nat_alt)
  obtain h where h: "bus_rd b dst (e_dev e) = (ld32 (cells c (e_dev e)) dst, h)" "cells c h = cells c (e_dev e)" "idle c h"
    using chip_read [OF assms Suc.prems(1) lt(1)] by blast
  define e1 where "e1 = e\<lparr>e_dev := h\<rparr>"
  have e1: "cells c (e_dev e1) = cells c (e_dev e)" "idle c (e_dev e1)" "e_mem e1 = e_mem e" "same_ram e e1"
    using h by (simp_all add: e1_def same_ram_def)
  have r: "FB29LVx_ReadMemoryShort b dst e = (ld16 (cells c (e_dev e)) dst, e1)"
    by (simp add: FB29LVx_ReadMemoryShort_def rd_def h low_ld32 e1_def)
  show ?case
  proof (cases "ld16 (cells c (e_dev e)) dst = ld16 (e_mem e) src")
    case True
    with Suc.prems(4) have "i \<noteq> 0" by (intro notI) simp
    then obtain i' where i': "i = Suc i'" by (cases i) simp_all
    have "\<exists>e'. flash_verify k b (dst + 2) (src + 2) e1 = (-1, e') \<and> same_ram e1 e' \<and> idle c (e_dev e') \<and>
        cells c (e_dev e') = cells c (e_dev e1)"
      by (rule Suc.IH [of e1 "dst + 2" i' "src + 2"])
        (use Suc.prems lt i' in \<open>simp_all add: e1 add.assoc\<close>)
    then show ?thesis using True e1 by (auto simp: r intro: same_ram_trans)
  next
    case False
    obtain h2 where h2: "bus_rd b dst h = (ld32 (cells c (e_dev e)) dst, h2)" "cells c h2 = cells c (e_dev e)" "idle c h2"
      using chip_read [OF assms h(3) lt(1)] h(2) by auto
    then have "FB29LVx_ReadMemoryShort b dst e1 = (ld16 (cells c (e_dev e)) dst, e\<lparr>e_dev := h2\<rparr>)"
      by (simp add: FB29LVx_ReadMemoryShort_def rd_def low_ld32 e1_def)
    then show ?thesis using False h2(2,3) by (simp add: r) (simp add: e1(3) same_ram_def say_def)
  qed
qed simp

text \<open>The configuration's block, and a flash whose configuration is not one.\<close>

lemma config_block_end:
  assumes "chip_data pid = Some (nor_BlockCount f, FlashSize f, pBlockAddr f, m1, m2)"
  shows "\<exists>j. FB29LVx_GetBlockIndex f DEFAULT_BOOT_PARAM = int j \<and> 0 < j \<and> j < nat (nor_BlockCount f) \<and> pBlockAddr f ! j = 0x20000 \<and>
    block_end (pBlockAddr f) (nat (nor_BlockCount f)) (FlashSize f) j = 0x30000"
proof -
  obtain j where j: "FB29LVx_GetBlockIndex f DEFAULT_BOOT_PARAM = int j" "j < nat (nor_BlockCount f)" "pBlockAddr f ! j = 0x20000"
    using config_block [OF assms] by blast
  have bt: "block_table (pBlockAddr f) (nat (nor_BlockCount f)) (FlashSize f)" by (rule chip_tables [OF assms])
  have "j \<noteq> 0" using j(3) bt by (intro notI) (simp add: block_table_def)
  have ends: "block_end FB29LV400T_block_addr 11 0x80000 2 = 0x30000 \<and> block_end FB29LV400B_block_addr 11 0x80000 5 = 0x30000 \<and>
    block_end FB29LV800T_block_addr 19 0x100000 2 = 0x30000 \<and> block_end FB29LV800B_block_addr 19 0x100000 5 = 0x30000 \<and>
    block_end FB29LV160T_block_addr 35 0x200000 2 = 0x30000 \<and> block_end FB29LV160B_block_addr 35 0x200000 5 = 0x30000"
    by code_simp
  have "\<exists>i \<in> {2, 5}. 11 \<le> nor_BlockCount f \<and> pBlockAddr f ! i = 0x20000 \<and>
      block_end (pBlockAddr f) (nat (nor_BlockCount f)) (FlashSize f) i = 0x30000"
    using assms config_scan ends unfolding chip_data_def FB_400x_BLOCK_COUNT_def FB_800x_BLOCK_COUNT_def FB_160x_BLOCK_COUNT_def
    by (auto split: if_splits)
  then obtain i where "i \<in> {2, 5}" "11 \<le> nor_BlockCount f" and i: "pBlockAddr f ! i = 0x20000"
    "block_end (pBlockAddr f) (nat (nor_BlockCount f)) (FlashSize f) i = 0x30000" by blast
  then have lim: "i < nat (nor_BlockCount f)" by auto
  have "i = j"
  proof (rule ccontr)
    assume "i \<noteq> j"
    then consider "i < j" | "j < i" by linarith
    then show False
    proof cases
      case 1
      then show False using block_table_mono [OF bt j(2), of "i + 1"] i lim j by (simp add: block_end_def split: if_splits)
    next
      case 2
      then have "pBlockAddr f ! (j + 1) \<le> pBlockAddr f ! i" "j < nat (nor_BlockCount f) - 1"
        using block_table_mono [OF bt lim, of "j + 1"] lim by simp_all
      moreover from this(2) have "pBlockAddr f ! j < pBlockAddr f ! (j + 1)" using bt by (simp add: block_table_def)
      ultimately show False using i(1) j(3) by simp
    qed
  qed
  with i j \<open>j \<noteq> 0\<close> show ?thesis by auto
qed

definition config_gone :: "'h chip \<Rightarrow> 'h \<Rightarrow> bool" where
  "config_gone c h \<longleftrightarrow> idle c h \<and> \<not> status_clear (cells c h) \<and>
     cells c h (DEFAULT_BOOT_PARAM + 2) = 0xFF \<and> cells c h (DEFAULT_BOOT_PARAM + 3) = 0xFF"

lemma ld16_at_2: "ld16 m (a + 2) = ucast (m (a + 2)) OR push_bit 8 (ucast (m (a + 3)))"
proof -
  have "a + 2 + 1 = a + 3" by simp
  then show ?thesis by (simp only: ld16_def)
qed

lemma upper_half: "ld16 m (a + 2) = ucast (drop_bit 16 (ld32 m a))"
  unfolding ld32_def ld16_at_2 by (rule bit_word_eqI) (auto simp: bit_simps dest: bit_imp_le_length)

lemma config_gone_half: "config_gone c h \<Longrightarrow> ld16 (cells c h) (DEFAULT_BOOT_PARAM + 2) = 0xFFFF"
  by (simp add: config_gone_def ld16_at_2)

lemma verify_gone:
  assumes "nor_chip b c tab n sz" and "config_gone c (e_dev e)" and "0x20000 + CFG_SIZE \<le> unat sz"
    and "ld32 (e_mem e) (obj e ''Cfg'') = CONFIG_MAGIC"
  shows "\<exists>e'. flash_verify (nat (cdiv (int CFG_SIZE) 2)) b DEFAULT_BOOT_PARAM (obj e ''Cfg'') e = (-1, e') \<and> same_ram e e' \<and> config_gone c (e_dev e')"
proof -
  have m: "ld16 (e_mem e) (obj e ''Cfg'' + 2) = 0x8988" using assms(4) by (simp add: upper_half CONFIG_MAGIC_def)
  have "\<exists>e'. flash_verify 280 b DEFAULT_BOOT_PARAM (obj e ''Cfg'') e = (-1, e') \<and> same_ram e e' \<and> idle c (e_dev e') \<and> cells c (e_dev e') = cells c (e_dev e)"
    by (rule flash_verify_differs [OF assms(1), of e _ _ 1])
      (use assms(2,3) m config_gone_half [OF assms(2)] in \<open>simp_all add: config_gone_def DEFAULT_BOOT_PARAM_def CFG_SIZE_def\<close>)
  moreover have "nat (cdiv (int CFG_SIZE) 2) = 280" by (simp add: CFG_SIZE_def)
  ultimately show ?thesis using assms(2) by (auto simp: config_gone_def)
qed

lemma words_refused:
  assumes "nor_chip b c tab n sz" and "wait_covers b c sz" and "config_gone c (e_dev e)" and "0x20000 + CFG_SIZE \<le> unat sz"
  shows "\<exists>e'. program_words (nat ((int CFG_SIZE + 1) div 2)) 0 b 0 DEFAULT_BOOT_PARAM src (int CFG_SIZE) e = Some (-1, e') \<and> same_ram e e' \<and>
    config_gone c (e_dev e')"
proof -
  define e0 where "e0 = Flash_UpdateProgress ''    Writing'' 0 (word_of_int (int CFG_SIZE)) e"
  have e0: "same_ram e e0" "e_dev e0 = e_dev e" by (simp_all add: e0_def)
  have "DEFAULT_BOOT_PARAM < sz" using assms(4) by (simp add: word_less_nat_alt DEFAULT_BOOT_PARAM_def CFG_SIZE_def)
  then obtain e1 where e1: "write_tries RETRY_COUNT b 0 DEFAULT_BOOT_PARAM (ld16 (e_mem e0) src) e0 = Some (-1, e1)" "same_ram e0 e1"
    "idle c (e_dev e1)" "\<forall>x. x \<noteq> DEFAULT_BOOT_PARAM \<and> x \<noteq> DEFAULT_BOOT_PARAM + 1 \<longrightarrow> cells c (e_dev e1) x = cells c (e_dev e0) x"
    using write_tries_refused [OF assms(1,2), of DEFAULT_BOOT_PARAM e0 RETRY_COUNT "ld16 (e_mem e0) src"] assms(3) e0(2)
    by (auto simp: DEFAULT_BOOT_PARAM_def config_gone_def)
  then have g: "config_gone c (e_dev e1)"
    using assms(3) e0(2) by (auto simp: config_gone_def status_clear_def ld16_def DEFAULT_BOOT_PARAM_def)
  have k: "nat ((int CFG_SIZE + 1) div 2) = Suc 279" by (simp add: CFG_SIZE_def)
  have "program_words (nat ((int CFG_SIZE + 1) div 2)) 0 b 0 DEFAULT_BOOT_PARAM src (int CFG_SIZE) e = Some (-1, e1)"
    unfolding k program_words.simps Let_def using e1(1)
    by (simp add: FB29LVx_WriteWord_def crem_def e0_def [symmetric] del: of_int_of_nat_eq)
  then show ?thesis using same_ram_trans [OF e0(1) e1(2)] g by blast
qed

lemma write_refused:
  assumes "nor_chip b c tab n sz" and "wait_covers b c sz" and "config_gone c (e_dev e)" and "0x20000 + CFG_SIZE \<le> unat sz"
    and "0 \<le> FB29LVx_GetBlockIndex (Nor e) DEFAULT_BOOT_PARAM"
    and "0 \<le> FB29LVx_GetBlockIndex (Nor e) (DEFAULT_BOOT_PARAM + word_of_int (int CFG_SIZE))"
  shows "\<exists>e'. BootFlash_ProgramEx b 0 DEFAULT_BOOT_PARAM src (int CFG_SIZE) False e = Some (-1, e') \<and> same_ram e e' \<and>
    config_gone c (e_dev e')"
  using words_refused [OF assms(1-4), of src] assms(5,6) unfolding BootFlash_ProgramEx_def Let_def by auto

lemma save_tries_refused:
  assumes "nor_chip b c tab n sz" and "wait_covers b c sz" and "0x20000 + CFG_SIZE \<le> unat sz"
  shows "config_gone c (e_dev e) \<Longrightarrow> ld32 (e_mem e) (obj e ''Cfg'') = CONFIG_MAGIC \<Longrightarrow>
    0 \<le> FB29LVx_GetBlockIndex (Nor e) DEFAULT_BOOT_PARAM \<Longrightarrow>
    0 \<le> FB29LVx_GetBlockIndex (Nor e) (DEFAULT_BOOT_PARAM + word_of_int (int CFG_SIZE)) \<Longrightarrow>
    \<exists>e'. save_tries k b e = Some e' \<and> config_gone c (e_dev e')"
proof (induction k arbitrary: e)
  case (Suc k)
  from write_refused [OF assms(1,2) Suc.prems(1) assms(3) Suc.prems(3,4), of "obj e ''Cfg''"] obtain e1 where
    e1: "BootFlash_ProgramEx b 0 DEFAULT_BOOT_PARAM (obj e ''Cfg'') (int CFG_SIZE) False e = Some (-1, e1)" "same_ram e e1"
    "config_gone c (e_dev e1)" by blast
  have o: "obj e1 ''Cfg'' = obj e ''Cfg''" "e_mem e1 = e_mem e" using e1(2) by (simp_all add: same_ram_def)
  from verify_gone [OF assms(1) e1(3) assms(3)] o Suc.prems(2) obtain e2 where
    e2: "flash_verify (nat (cdiv (int CFG_SIZE) 2)) b DEFAULT_BOOT_PARAM (obj e ''Cfg'') e1 = (-1, e2)" "same_ram e1 e2"
    "config_gone c (e_dev e2)" by auto
  have r: "save_again b e = Some (-1, e2)" using e1(1) e2(1) by (simp add: save_again_def CopyTo_BootFlashEx_def del: cdiv_nonneg)
  have "same_ram e e2" by (rule same_ram_trans [OF e1(2) e2(2)])
  then have i: "FB29LVx_GetBlockIndex (Nor e2) x = FB29LVx_GetBlockIndex (Nor e) x" "e_mem e2 = e_mem e" "e_addr e2 = e_addr e" for x
    by (simp_all add: same_ram_def FB29LVx_GetBlockIndex_def)
  from Suc.IH [OF e2(3)] Suc.prems(2-4) obtain e' where "save_tries k b e2 = Some e' \<and> config_gone c (e_dev e')" by (auto simp: i)
  then show ?case by (simp add: r)
qed simp

text \<open>The first attempt to save: the block is erased; either that is taken for failed, or the first half-word is.\<close>

lemma first_save_refused:
  assumes "nor_chip b c (pBlockAddr (Nor e)) (nat (nor_BlockCount (Nor e))) (FlashSize (Nor e))" and "timer_runs b w"
    and "wait_covers b c (FlashSize (Nor e))"
    and "chip_data pid = Some (nor_BlockCount (Nor e), FlashSize (Nor e), pBlockAddr (Nor e), m1, m2)"
    and "idle c (e_dev e)" and "\<not> status_clear (cells c (e_dev e))"
  shows "0 \<le> FB29LVx_GetBlockIndex (Nor e) DEFAULT_BOOT_PARAM"
    and "0 \<le> FB29LVx_GetBlockIndex (Nor e) (DEFAULT_BOOT_PARAM + word_of_int (int CFG_SIZE))"
    and "\<exists>e'. BootFlash_ProgramEx b 0 DEFAULT_BOOT_PARAM src (int CFG_SIZE) True e = Some (-1, e') \<and> same_ram e e' \<and>
      config_gone c (e_dev e')"
proof -
  let ?f = "Nor e" and ?n = "nat (nor_BlockCount (Nor e))"
  note inside = config_inside [OF assms(4)]
  obtain j where j: "FB29LVx_GetBlockIndex ?f DEFAULT_BOOT_PARAM = int j" "0 < j" "j < ?n" "pBlockAddr ?f ! j = 0x20000"
    "block_end (pBlockAddr ?f) ?n (FlashSize ?f) j = 0x30000" using config_block_end [OF assms(4)] by blast
  have bt: "block_table (pBlockAddr ?f) ?n (FlashSize ?f)" by (rule chip_tables [OF assms(4)])
  have last: "DEFAULT_BOOT_PARAM + word_of_int (int CFG_SIZE) = 0x20230" by (simp add: DEFAULT_BOOT_PARAM_def CFG_SIZE_def)
  have room: "0x20000 + CFG_SIZE < unat (FlashSize ?f)" using inside(2) by (simp add: CFG_SIZE_def DEFAULT_BOOT_PARAM_def)
  then have "0x20230 < FlashSize ?f" by (simp add: word_less_nat_alt CFG_SIZE_def)
  then obtain t where t: "FB29LVx_GetBlockIndex ?f 0x20230 = int t" "t < ?n" "pBlockAddr ?f ! t \<le> 0x20230"
    "0x20230 < block_end (pBlockAddr ?f) ?n (FlashSize ?f) t" using block_index_ok [OF assms(4), of "0x20230"] by auto
  have "t = j"
  proof (rule ccontr)
    assume "t \<noteq> j"
    then consider "j < t" | "t < j" by linarith
    then show False
    proof cases
      case 1
      then show False using block_table_mono [OF bt t(2), of "j + 1"] t j(5) by (simp add: block_end_def split: if_splits)
    next
      case 2
      then show False using block_table_mono [OF bt j(3), of "t + 1"] t(4) j(3,4) by (simp add: block_end_def split: if_splits)
    qed
  qed
  then have t: "FB29LVx_GetBlockIndex ?f (DEFAULT_BOOT_PARAM + word_of_int (int CFG_SIZE)) = int j" unfolding last using t(1) by simp
  show "0 \<le> FB29LVx_GetBlockIndex ?f DEFAULT_BOOT_PARAM"
    and "0 \<le> FB29LVx_GetBlockIndex ?f (DEFAULT_BOOT_PARAM + word_of_int (int CFG_SIZE))"
    using j(1) t by (simp_all del: of_int_of_nat_eq)
  note no = first_word_elsewhere [OF bt second_block(1) [OF assms(4)] j(2,3)]
  have sz0: "0 < FlashSize ?f" using inside(2) by (auto simp: word_gt_0)
  let ?X = "block_bytes (pBlockAddr ?f) ?n (FlashSize ?f) j"
  define e0 where "e0 = Flash_UpdateProgress ''    Erasing'' (word_of_int (int j - int j + 1)) (word_of_int (int j - int j + 1)) e"
  have e0: "same_ram e e0" "e_dev e0 = e_dev e" by (simp_all add: e0_def)
  have retry: "RETRY_COUNT = Suc 99" by (simp add: RETRY_COUNT_def)
  obtain r e1 where e1: "FB29LVx_EraseBlock b 0 (word_of_int (pBlockAddr ?f ! j)) e0 = Some (r, e1)" "r = 0 \<or> r = -1" "same_ram e0 e1"
    "idle c (e_dev e1)" "cells c (e_dev e1) = fill_ff ?X (cells c (e_dev e))"
    using erase_tries_end [OF assms(1,2) sz0 j(3), of e0 99] assms(5) e0(2) unfolding FB29LVx_EraseBlock_def retry by auto
  have s1: "same_ram e e1" by (rule same_ram_trans [OF e0(1) e1(3)])
  have gone: "config_gone c h" if "idle c h" "cells c h = fill_ff ?X (cells c (e_dev e))" for h
    using that(1) assms(6) status_clear_fill [OF no] j(4,5)
    by (simp add: config_gone_def that(2)) (simp add: fill_ff_def block_bytes_def DEFAULT_BOOT_PARAM_def)
  have no_more: "erase_blocks 0 (int j + 1) b 0 (int j) (int j) = (\<lambda>e. Some (0, e))" by (rule ext) simp
  have blocks: "erase_blocks (nat (int j - int j + 1)) (int j) b 0 (int j) (int j) e =
      (if r < 0 then Some (-1, e1) else do { e \<leftarrow> msleep b 1000 e1; Some (0, e) })"
    using e1(1) e0(1) unfolding e0_def by (simp add: same_ram_def no_more)
  show "\<exists>e'. BootFlash_ProgramEx b 0 DEFAULT_BOOT_PARAM src (int CFG_SIZE) True e = Some (-1, e') \<and> same_ram e e' \<and> config_gone c (e_dev e')"
  proof (cases "r < 0")
    case True
    then have "BootFlash_ProgramEx b 0 DEFAULT_BOOT_PARAM src (int CFG_SIZE) True e = Some (-1, e1)"
      unfolding BootFlash_ProgramEx_def Let_def j(1) t blocks by simp
    then show ?thesis using s1 gone [OF e1(4,5)] by blast
  next
    case False
    obtain e2 where e2: "msleep b 1000 e1 = Some e2" "same_ram e1 e2" "at_rest c (e_dev e1) (e_dev e2)"
      using msleep_ends [OF assms(1,2)] by blast
    define e3 where "e3 = say ''    Erase : OK'' [] (Flash_UpdateProgress ''    Erasing'' 100 100 e2)"
    have e3: "same_ram e2 e3" "e_dev e3 = e_dev e2" using same_ram_trans [OF same_ram_ops(5) same_ram_ops(4)] by (simp_all add: e3_def)
    have "config_gone c (e_dev e3)" by (rule gone) (use e2(3) e1(4,5) e3(2) idle_rest rest_cells in metis)+
    then obtain e4 where e4: "program_words (nat ((int CFG_SIZE + 1) div 2)) 0 b 0 DEFAULT_BOOT_PARAM src (int CFG_SIZE) e3 = Some (-1, e4)"
      "same_ram e3 e4" "config_gone c (e_dev e4)" using words_refused [OF assms(1,3)] room by force
    have "BootFlash_ProgramEx b 0 DEFAULT_BOOT_PARAM src (int CFG_SIZE) True e = Some (-1, e4)"
      unfolding BootFlash_ProgramEx_def Let_def j(1) t blocks using False e2(1) e4(1) by (simp add: e3_def)
    then show ?thesis using s1 e2(2) e3(1) e4(2,3) by (blast intro: same_ram_trans)
  qed
qed

section \<open>Properties\<close>

text \<open>
  C36: Writing an image into the boot flash. Take a known chip that behaves as its data sheet says, busy for a while after every command; let the
  delay loop outlast the programming of a half-word (\<open>wait_covers\<close>, which the loader needs), the word at 0, from which the loader takes the status, have
  bits 5 and 7 clear (\<open>status_clear\<close>), and the image be of whole half-words at an even offset outside the first block and not reach the end of the chip. Then
  the image is written, verified, and there byte for byte afterwards; the loader's memory and every block but those from the image's
  first byte to the byte after its last are untouched.
\<close>
theorem flash_stores_image:
  assumes "nor_chip b c (pBlockAddr (Nor e)) (nat (nor_BlockCount (Nor e))) (FlashSize (Nor e))" and "timer_runs b w" and "wait_covers b c (FlashSize (Nor e))"
    and "chip_data pid = Some (nor_BlockCount (Nor e), FlashSize (Nor e), pBlockAddr (Nor e), m1, m2)"
    and "idle c (e_dev e)" and "status_clear (cells c (e_dev e))"
    and "even (unat off)" and "pBlockAddr (Nor e) ! 1 \<le> int (unat off)" and "unat off + 2 * k < unat (FlashSize (Nor e))"
  shows "\<exists>e'. CopyTo_BootFlashEx b off src (int (2 * k)) True e = Some (0, e') \<and> e_mem e' = e_mem e \<and>
      (\<forall>j < 2 * k. cells c (e_dev e') (off + of_nat j) = e_mem e (src + of_nat j)) \<and>
      (\<forall>i x. i < nat (nor_BlockCount (Nor e)) \<and> x \<in> block_bytes (pBlockAddr (Nor e)) (nat (nor_BlockCount (Nor e))) (FlashSize (Nor e)) i \<and>
         (int i < FB29LVx_GetBlockIndex (Nor e) off \<or> FB29LVx_GetBlockIndex (Nor e) (off + of_nat (2 * k)) < int i) \<longrightarrow>
         cells c (e_dev e') x = cells c (e_dev e) x)"
  by (rule flash_copy [OF assms])

text \<open>
  C37: The configuration survives. On the same terms (a chip as its data sheet describes it, a delay loop that outlasts the programming of a half-word,
  bits 5 and 7 of the word at 0 clear) and with its magic number in place, the configuration \<open>SaveConfig\<close> stores is what \<open>LoadConfig\<close> finds in any later
  state of the loader (after a reset with other memory contents, too), all 560 bytes, as long as the flash still holds what was saved.
\<close>
theorem config_survives:
  assumes "nor_chip b c (pBlockAddr (Nor e)) (nat (nor_BlockCount (Nor e))) (FlashSize (Nor e))" and "timer_runs b w" and "wait_covers b c (FlashSize (Nor e))"
    and "chip_data pid = Some (nor_BlockCount (Nor e), FlashSize (Nor e), pBlockAddr (Nor e), m1, m2)"
    and "idle c (e_dev e)" and "status_clear (cells c (e_dev e))"
    and "ld32 (e_mem e) (obj e ''Cfg'') = CONFIG_MAGIC"
  shows "\<exists>e'. SaveConfig b e = Some e' \<and> (\<forall>e2. cells c (e_dev e2) = cells c (e_dev e') \<and> idle c (e_dev e2) \<longrightarrow>
    read_bytes (e_mem (LoadConfig b e2)) (obj e2 ''Cfg'') CFG_SIZE = read_bytes (e_mem e) (obj e ''Cfg'') CFG_SIZE)"
proof -
  note inside = config_inside [OF assms(4)]
  have k: "2 * 280 = CFG_SIZE" "(560 :: nat) = 2 * 280" by (simp_all add: CFG_SIZE_def)
  have "even (unat DEFAULT_BOOT_PARAM)" by (simp add: DEFAULT_BOOT_PARAM_def)
  from flash_copy [OF assms(1-6) this inside(1) inside(2) [unfolded k(2)], of "obj e ''Cfg''"] obtain e' where
    e': "CopyTo_BootFlashEx b DEFAULT_BOOT_PARAM (obj e ''Cfg'') (int CFG_SIZE) True e = Some (0, e')"
    "\<forall>j < CFG_SIZE. cells c (e_dev e') (DEFAULT_BOOT_PARAM + of_nat j) = e_mem e (obj e ''Cfg'' + of_nat j)"
    unfolding k(1) by blast
  have s: "SaveConfig b e = Some e'" by (simp add: SaveConfig_def e'(1))
  have r: "read_bytes (cells c (e_dev e')) DEFAULT_BOOT_PARAM CFG_SIZE = read_bytes (e_mem e) (obj e ''Cfg'') CFG_SIZE"
    using e'(2) by (intro nth_equalityI) (simp_all add: nth_read_bytes)
  have m: "ld32 (cells c (e_dev e')) DEFAULT_BOOT_PARAM = CONFIG_MAGIC"
    using e'(2) [rule_format, of 0] e'(2) [rule_format, of 1] e'(2) [rule_format, of 2] e'(2) [rule_format, of 3] assms(7)
    by (simp add: ld32_def CFG_SIZE_def)
  have room: "0x20000 + CFG_SIZE \<le> unat (FlashSize (Nor e))" using inside(2) by (simp add: CFG_SIZE_def DEFAULT_BOOT_PARAM_def)
  have "read_bytes (e_mem (LoadConfig b e2)) (obj e2 ''Cfg'') CFG_SIZE = read_bytes (e_mem e) (obj e ''Cfg'') CFG_SIZE"
    if "cells c (e_dev e2) = cells c (e_dev e')" "idle c (e_dev e2)" for e2 :: "'a ez"
  proof -
    have "e_mem (LoadConfig b e2) = write_bytes (e_mem e2) (obj e2 ''Cfg'') (read_bytes (e_mem e) (obj e ''Cfg'') CFG_SIZE)"
      using LoadConfig_loads [OF assms(1) that(2) room] by (simp add: that(1) m r)
    then show ?thesis using read_write_append [of 0 "read_bytes (e_mem e) (obj e ''Cfg'') CFG_SIZE" "e_mem e2" "obj e2 ''Cfg''"]
      by (simp add: CFG_SIZE_def)
  qed
  with s show ?thesis by blast
qed

text \<open>
  C40: The configuration is lost when the word at 0 has bit 5 or 7 set, which the loader takes for a failed status, on a chip as its data sheet
  describes it, however long its erase takes, and with a delay loop that outlasts the programming of a half-word: \<open>SaveConfig\<close>, of a configuration with its magic number, erases the
  old one, takes every attempt to write the new one for failed, gives up, and the next \<open>LoadConfig\<close> falls back to the defaults.
\<close>
theorem config_lost:
  assumes "nor_chip b c (pBlockAddr (Nor e)) (nat (nor_BlockCount (Nor e))) (FlashSize (Nor e))" and "timer_runs b w"
    and "wait_covers b c (FlashSize (Nor e))"
    and "chip_data pid = Some (nor_BlockCount (Nor e), FlashSize (Nor e), pBlockAddr (Nor e), m1, m2)"
    and "idle c (e_dev e)" and "\<not> status_clear (cells c (e_dev e))"
    and "ld32 (e_mem e) (obj e ''Cfg'') = CONFIG_MAGIC"
  shows "\<exists>e'. SaveConfig b e = Some e' \<and> (\<forall>e2. cells c (e_dev e2) = cells c (e_dev e') \<and> idle c (e_dev e2) \<longrightarrow>
    e_mem (LoadConfig b e2) = write_bytes (e_mem e2) (obj e2 ''Cfg'') Default_Cfg)"
proof -
  note idx = first_save_refused(1,2) [OF assms(1-6)]
  have room: "0x20000 + CFG_SIZE \<le> unat (FlashSize (Nor e))"
    using config_inside(2) [OF assms(4)] by (simp add: CFG_SIZE_def DEFAULT_BOOT_PARAM_def)
  obtain e1 where p: "BootFlash_ProgramEx b 0 DEFAULT_BOOT_PARAM (obj e ''Cfg'') (int CFG_SIZE) True e = Some (-1, e1)"
    "same_ram e e1" "config_gone c (e_dev e1)" using first_save_refused(3) [OF assms(1-6)] by blast
  have o: "obj e1 ''Cfg'' = obj e ''Cfg''" "e_mem e1 = e_mem e" using p(2) by (simp_all add: same_ram_def)
  from verify_gone [OF assms(1) p(3) room] o assms(7) obtain e2 where
    e2: "flash_verify (nat (cdiv (int CFG_SIZE) 2)) b DEFAULT_BOOT_PARAM (obj e ''Cfg'') e1 = (-1, e2)" "same_ram e1 e2"
    "config_gone c (e_dev e2)" by auto
  have r: "CopyTo_BootFlashEx b DEFAULT_BOOT_PARAM (obj e ''Cfg'') (int CFG_SIZE) True e = Some (-1, e2)"
    using p e2(1) by (simp add: CopyTo_BootFlashEx_def del: cdiv_nonneg)
  have "same_ram e e2" by (rule same_ram_trans [OF p(2) e2(2)])
  then have i: "FB29LVx_GetBlockIndex (Nor e2) x = FB29LVx_GetBlockIndex (Nor e) x" "e_mem e2 = e_mem e" "e_addr e2 = e_addr e" for x
    by (simp_all add: same_ram_def FB29LVx_GetBlockIndex_def)
  from save_tries_refused [OF assms(1,3) room e2(3), of 10] assms(7) idx obtain e' where
    e': "save_tries 10 b e2 = Some e'" "config_gone c (e_dev e')" by (auto simp: i simp del: of_int_of_nat_eq)
  have "SaveConfig b e = Some e'" by (simp add: SaveConfig_def r e'(1))
  moreover have "ld32 (cells c (e_dev e')) DEFAULT_BOOT_PARAM \<noteq> CONFIG_MAGIC"
    using config_gone_half [OF e'(2)] by (auto simp: upper_half CONFIG_MAGIC_def)
  ultimately show ?thesis using LoadConfig_loads [OF assms(1) _ room] by auto
qed

section \<open>A chip\<close>

text \<open>
  A chip that keeps the array, the cycles of the command so far, the last first, how long it is still busy, and with what. An erase takes
  \<open>k\<close> units of time, programming a half-word 150; a turn of a delay loop and a reading of the status are one unit each.
\<close>

record flash_chip =
  array :: mem
  cycles :: "(u32 \<times> u32) list"
  left :: nat
  burning :: bool

definition erase_at :: "int list \<Rightarrow> nat \<Rightarrow> u32 \<Rightarrow> u32 \<Rightarrow> u32 set" where
  "erase_at tab n sz a = (\<Union>i \<in> {i. i < n \<and> word_of_int (tab ! i) = a}. block_bytes tab n sz i)"

definition chip_wr :: "nat \<Rightarrow> u32 \<Rightarrow> u32 \<Rightarrow> flash_chip \<Rightarrow> flash_chip" where
  "chip_wr k a v s =
     (if 0x40000000 \<le> a \<or> left s \<noteq> 0 \<or> cycles s = [] \<and> v = 0xF0 then s
      else if cycles s = [(0xAAA, 0xA0), (0x554, 0x55), (0xAAA, 0xAA)]
      then s\<lparr>array := st16 (array s) a (ld16 (array s) a AND ucast v), cycles := [], left := 150, burning := True\<rparr>
      else if cycles s = [(0x554, 0x55), (0xAAA, 0xAA), (0xAAA, 0x80), (0x554, 0x55), (0xAAA, 0xAA)]
      then s\<lparr>array := fill_ff (erase_at FB29LV400T_block_addr 11 0x80000 a) (array s), cycles := [], left := k, burning := False\<rparr>
      else s\<lparr>cycles := (a, v) # cycles s\<rparr>)"

definition chip_rd :: "u32 \<Rightarrow> flash_chip \<Rightarrow> u32 \<times> flash_chip" where
  "chip_rd a s =
     (if a = OSSR then (1, s)
      else if 0x40000000 \<le> a then (0, s)
      else if left s = 0 then (ld32 (array s) a, s)
      else ((if even (left s) then 0x40 else 0) OR (if burning s then 0x80 else 0), s\<lparr>left := left s - 1\<rparr>))"

definition chip_bus :: "nat \<Rightarrow> flash_chip bus" where
  "chip_bus k = \<lparr>bus_rd = chip_rd, bus_wr = chip_wr k, bus_idle = (\<lambda>s. s\<lparr>left := left s - 1\<rparr>)\<rparr>"

definition chip_400T :: "flash_chip chip" where
  "chip_400T = \<lparr>cells = array, busy = left, programming = burning, fresh = (\<lambda>s. cycles s = [])\<rparr>"

lemma block_word:
  assumes "block_table tab n sz" and "i < n"
  shows "uint (word_of_int (tab ! i) :: u32) = tab ! i" and "(word_of_int (tab ! i) :: u32) < sz"
proof -
  have "0 \<le> tab ! i" "tab ! i < uint sz"
    using block_table_nonneg [OF assms] block_table_mono [OF assms(1), of "n - 1" i] assms unfolding block_table_def by (blast, force)
  moreover have "uint sz < 2 ^ 32" using uint_lt2p [of sz] by simp
  ultimately show "uint (word_of_int (tab ! i) :: u32) = tab ! i" by (simp add: uint_word_of_int)
  with \<open>tab ! i < uint sz\<close> show "(word_of_int (tab ! i) :: u32) < sz" by (simp add: word_less_def)
qed

lemma erase_at_block:
  assumes "block_table tab n sz" and "i < n"
  shows "erase_at tab n sz (word_of_int (tab ! i)) = block_bytes tab n sz i"
proof -
  have less: "tab ! i < tab ! j" if "i < j" "j < n" for i j
  proof -
    have "tab ! i < tab ! (i + 1)" using assms(1) that by (simp add: block_table_def)
    then show ?thesis using block_table_mono [OF assms(1) that(2), of "i + 1"] that(1) by simp
  qed
  have "i' = i" if i': "i' < n" "(word_of_int (tab ! i') :: u32) = word_of_int (tab ! i)" for i'
  proof (rule ccontr)
    assume "i' \<noteq> i"
    then have "tab ! i' \<noteq> tab ! i" using less [of i i'] less [of i' i] i'(1) assms(2) by (metis less_irrefl nat_neq_iff)
    then show False using block_word(1) [OF assms] block_word(1) [OF assms(1) i'(1)] i'(2) by metis
  qed
  then have "{i'. i' < n \<and> (word_of_int (tab ! i') :: u32) = word_of_int (tab ! i)} = {i}" using assms(2) by auto
  then show ?thesis by (simp add: erase_at_def)
qed

lemmas chip_defs = chip_bus_def chip_400T_def chip_rd_def chip_wr_def

lemma chip_idles: "left s = 0 \<Longrightarrow> (bus_idle (chip_bus k) ^^ j) s = s"
  by (induction j) (simp_all add: chip_bus_def)

lemma chip_begins: "\<not> 0x40000000 \<le> a \<Longrightarrow> left s = 0 \<Longrightarrow> cycles s \<noteq> [] \<or> v \<noteq> 0xF0 \<Longrightarrow>
    cycles s \<noteq> [(0xAAA, 0xA0), (0x554, 0x55), (0xAAA, 0xAA)] \<Longrightarrow>
    cycles s \<noteq> [(0x554, 0x55), (0xAAA, 0xAA), (0xAAA, 0x80), (0x554, 0x55), (0xAAA, 0xAA)] \<Longrightarrow>
    chip_wr k a v s = s\<lparr>cycles := (a, v) # cycles s\<rparr>"
  by (auto simp: chip_wr_def)

lemma chip_acts: "\<not> 0x40000000 \<le> a \<Longrightarrow> left s = 0 \<Longrightarrow> cycles s = [(0xAAA, 0xA0), (0x554, 0x55), (0xAAA, 0xAA)] \<Longrightarrow>
    chip_wr k a (ucast (d :: u16)) s = s\<lparr>array := st16 (array s) a (ld16 (array s) a AND d), cycles := [], left := 150, burning := True\<rparr>"
  "\<not> 0x40000000 \<le> a \<Longrightarrow> left s = 0 \<Longrightarrow> cycles s = [(0x554, 0x55), (0xAAA, 0xAA), (0xAAA, 0x80), (0x554, 0x55), (0xAAA, 0xAA)] \<Longrightarrow>
    chip_wr k a v s = s\<lparr>array := fill_ff (erase_at FB29LV400T_block_addr 11 0x80000 a) (array s), cycles := [], left := k, burning := False\<rparr>"
proof -
  have "(ucast (ucast d :: u32) :: u16) = d" by (rule bit_word_eqI) (auto simp: bit_simps)
  then show "\<not> 0x40000000 \<le> a \<Longrightarrow> left s = 0 \<Longrightarrow> cycles s = [(0xAAA, 0xA0), (0x554, 0x55), (0xAAA, 0xAA)] \<Longrightarrow>
    chip_wr k a (ucast d) s = s\<lparr>array := st16 (array s) a (ld16 (array s) a AND d), cycles := [], left := 150, burning := True\<rparr>"
    by (simp only: chip_wr_def) simp
qed (simp add: chip_wr_def)

lemma chip_program_ok:
  assumes "\<not> 0x40000000 \<le> a" and "left s = 0" and "cycles s = []"
  shows "cmd_writes (chip_bus k) j (program_cmd a d) s =
    s\<lparr>array := st16 (array s) a (ld16 (array s) a AND d), cycles := [], left := 150, burning := True\<rparr>"
proof -
  have w: "bus_wr (chip_bus k) x v s = chip_wr k x v s" for x v s by (simp add: chip_bus_def)
  let ?s1 = "s\<lparr>cycles := [(0xAAA, 0xAA)]\<rparr>" and ?s2 = "s\<lparr>cycles := [(0x554, 0x55), (0xAAA, 0xAA)]\<rparr>"
  let ?s3 = "s\<lparr>cycles := [(0xAAA, 0xA0), (0x554, 0x55), (0xAAA, 0xAA)]\<rparr>"
  have "chip_wr k 0xAAA 0xAA s = ?s1" "chip_wr k 0x554 0x55 ?s1 = ?s2" "chip_wr k 0xAAA 0xA0 ?s2 = ?s3"
    using assms(2,3) by (simp_all add: chip_begins)
  moreover have "chip_wr k a (ucast d) ?s3 = s\<lparr>array := st16 (array s) a (ld16 (array s) a AND d), cycles := [], left := 150, burning := True\<rparr>"
    using assms(1,2) by (simp add: chip_acts(1))
  moreover have "(bus_idle (chip_bus k) ^^ j) (s\<lparr>cycles := x\<rparr>) = s\<lparr>cycles := x\<rparr>" for x using assms(2) by (simp add: chip_idles)
  ultimately show ?thesis by (simp only: program_cmd_def cmd_writes.simps w Let_def fst_conv snd_conv list.distinct refl if_True if_False)
qed

lemma chip_erase_ok: "\<not> 0x40000000 \<le> a \<Longrightarrow> left s = 0 \<Longrightarrow> cycles s = [] \<Longrightarrow>
    cmd_writes (chip_bus k) j (erase_cmd a) s =
      s\<lparr>array := fill_ff (erase_at FB29LV400T_block_addr 11 0x80000 a) (array s), cycles := [], left := k, burning := False\<rparr>"
proof -
  assume a: "\<not> 0x40000000 \<le> a" "left s = 0" "cycles s = []"
  have w: "bus_wr (chip_bus k) x v s = chip_wr k x v s" for x v s by (simp add: chip_bus_def)
  let ?s1 = "s\<lparr>cycles := [(0xAAA, 0xAA)]\<rparr>" and ?s2 = "s\<lparr>cycles := [(0x554, 0x55), (0xAAA, 0xAA)]\<rparr>"
  let ?s3 = "s\<lparr>cycles := [(0xAAA, 0x80), (0x554, 0x55), (0xAAA, 0xAA)]\<rparr>"
  let ?s4 = "s\<lparr>cycles := [(0xAAA, 0xAA), (0xAAA, 0x80), (0x554, 0x55), (0xAAA, 0xAA)]\<rparr>"
  let ?s5 = "s\<lparr>cycles := [(0x554, 0x55), (0xAAA, 0xAA), (0xAAA, 0x80), (0x554, 0x55), (0xAAA, 0xAA)]\<rparr>"
  have "chip_wr k 0xAAA 0xAA s = ?s1" "chip_wr k 0x554 0x55 ?s1 = ?s2" "chip_wr k 0xAAA 0x80 ?s2 = ?s3"
    "chip_wr k 0xAAA 0xAA ?s3 = ?s4" "chip_wr k 0x554 0x55 ?s4 = ?s5"
    using a(2,3) by (simp_all add: chip_begins)
  moreover have "chip_wr k a 0x30 ?s5 = s\<lparr>array := fill_ff (erase_at FB29LV400T_block_addr 11 0x80000 a) (array s), cycles := [], left := k, burning := False\<rparr>"
    using a(1,2) by (simp add: chip_acts(2))
  moreover have "(bus_idle (chip_bus k) ^^ j) (s\<lparr>cycles := x\<rparr>) = s\<lparr>cycles := x\<rparr>" for x using a(2) by (simp add: chip_idles)
  ultimately show ?thesis by (simp only: erase_cmd_def cmd_writes.simps w Let_def fst_conv snd_conv list.distinct refl if_True if_False)
qed

lemma chip_low: "a < 0x80000 \<Longrightarrow> \<not> 0x40000000 \<le> (a :: u32)"
  by (simp add: word_le_nat_alt word_less_nat_alt)

lemmas chip_block_low = block_word(2) [OF tables_ok(1), THEN chip_low]

lemma chip_bus_ok: "nor_chip (chip_bus k) chip_400T FB29LV400T_block_addr 11 0x80000" "timer_runs (chip_bus k) w"
  "wait_covers (chip_bus k) chip_400T 0x80000"
proof -
  let ?b = "chip_bus k" and ?c = chip_400T
  have idle: "left h = 0" "cycles h = []" if "idle ?c h" for h using that by (simp_all add: idle_def chip_400T_def)
  show "timer_runs ?b w" by (simp add: timer_runs_def chip_defs)
  have 1: "fst (bus_rd ?b a h) = ld32 (cells ?c h) a \<and> at_rest ?c h (snd (bus_rd ?b a h))"
    if "idle ?c h" "a < 0x80000" for h a
    using idle [OF that(1)] chip_low [OF that(2)] by (auto simp: chip_defs at_rest_def OSSR_def)
  have 2: "cells ?c (cmd_writes ?b j (program_cmd a d) h) = st16 (cells ?c h) a (ld16 (cells ?c h) a AND d) \<and>
      fresh ?c (cmd_writes ?b j (program_cmd a d) h)" if "idle ?c h" "a < 0x80000" for h a d j
    unfolding chip_program_ok [OF chip_low [OF that(2)] idle [OF that(1)]] by (simp add: chip_400T_def)
  have 3: "cells ?c (cmd_writes ?b j (erase_cmd (word_of_int (FB29LV400T_block_addr ! i))) h) =
      fill_ff (block_bytes FB29LV400T_block_addr 11 0x80000 i) (cells ?c h) \<and>
      fresh ?c (cmd_writes ?b j (erase_cmd (word_of_int (FB29LV400T_block_addr ! i))) h) \<and>
      (0 < busy ?c (cmd_writes ?b j (erase_cmd (word_of_int (FB29LV400T_block_addr ! i))) h) \<longrightarrow>
         \<not> programming ?c (cmd_writes ?b j (erase_cmd (word_of_int (FB29LV400T_block_addr ! i))) h))" if "idle ?c h" "i < 11" for h i j
    unfolding chip_erase_ok [OF chip_block_low [OF that(2)] idle [OF that(1)]]
    using that(2) by (simp add: chip_400T_def erase_at_block [OF tables_ok(1)])
  have 4: "at_rest ?c h (bus_wr ?b 0 0xF0 h)" if "idle ?c h" for h
    using idle [OF that] by (simp add: chip_defs at_rest_def)
  have 5: "ucast (fst (bus_rd ?b 0 h)) AND (0x20 :: u16) = 0 \<and>
      (\<not> programming ?c h \<longrightarrow> ucast (fst (bus_rd ?b 0 h)) AND (0x80 :: u16) = 0) \<and>
      at_rest ?c h (snd (bus_rd ?b 0 h)) \<and> busy ?c (snd (bus_rd ?b 0 h)) < busy ?c h \<and>
      (0 < busy ?c (snd (bus_rd ?b 0 h)) \<longrightarrow> (ucast (fst (bus_rd ?b 0 h)) XOR ucast (fst (bus_rd ?b 0 (snd (bus_rd ?b 0 h))))) AND (0x44 :: u16) \<noteq> 0)"
    if b: "0 < busy ?c h" for h
  proof -
    obtain j where "left h = Suc j" using b by (cases "left h") (simp_all add: chip_400T_def)
    then show ?thesis by (auto simp: chip_defs at_rest_def OSSR_def)
  qed
  have 6: "at_rest ?c h (bus_idle ?b h) \<and> (0 < busy ?c h \<longrightarrow> busy ?c (bus_idle ?b h) < busy ?c h)" for h
    by (simp add: chip_bus_def chip_400T_def at_rest_def)
  have 7: "at_rest ?c h (bus_wr ?b a v h) \<and> at_rest ?c h (snd (bus_rd ?b a h))" if "0x40000000 \<le> a" for h a v
    using that by (simp add: chip_defs at_rest_def)
  show "nor_chip ?b ?c FB29LV400T_block_addr 11 0x80000"
    unfolding nor_chip_def using 1 2 3 4 5 6 7 by blast
  show "wait_covers ?b ?c 0x80000" unfolding wait_covers_def
  proof (intro allI impI)
    fix h a d j assume "idle ?c h" "a < (0x80000 :: u32)"
    then show "busy ?c (cmd_writes ?b j (program_cmd a d) h) \<le> WAIT_LOOP_COUNT"
      using chip_program_ok [OF chip_low [of a] idle [of h], of k j d] by (simp add: chip_400T_def WAIT_LOOP_COUNT_def)
  qed
qed

definition nor_400T :: nor_info where
  "nor_400T = \<lparr>Flash_PID = 0x22B9, nor_BlockCount = 11, FlashSize = 0x80000, pBlockAddr = FB29LV400T_block_addr, nor_progress_pos = 0\<rparr>"

lemma nor_400T_simps [simp]:
  "nor_BlockCount nor_400T = 11" "FlashSize nor_400T = 0x80000" "pBlockAddr nor_400T = FB29LV400T_block_addr"
  by (simp_all add: nor_400T_def)

lemma chip_data_400T: "chip_data 0x22B9 = Some (nor_BlockCount nor_400T, FlashSize nor_400T, pBlockAddr nor_400T,
    ''  Detect %s29LV400 (TOP)Flash : %04X'', ''  SIZE 4M-BIT [512Kbyte]'')"
  by (simp add: chip_data_def FB_400x_BLOCK_COUNT_def)

text \<open>The loader with a memory and such a chip, idle, all of whose bytes are \<open>x\<close>.\<close>

definition flash_of :: "mem \<Rightarrow> flash_chip" where
  "flash_of m = \<lparr>array = m, cycles = [], left = 0, burning = False\<rparr>"

definition loader :: "mem \<Rightarrow> u8 \<Rightarrow> flash_chip ez" where
  "loader m x = (ez_at m (flash_of (\<lambda>_. x)) (\<lambda>_. 0xA0001000))\<lparr>Nor := nor_400T\<rparr>"

lemma loader_simps [simp]:
  "Nor (loader m x) = nor_400T" "e_mem (loader m x) = m" "e_dev (loader m x) = flash_of (\<lambda>_. x)" "obj (loader m x) n = 0xA0001000"
  "cells chip_400T h = array h" "array (flash_of y) = y" "idle chip_400T (flash_of y)"
  by (simp_all add: loader_def ez_at_def chip_400T_def idle_def flash_of_def)

lemma loader_chip:
  "nor_chip (chip_bus k) chip_400T (pBlockAddr (Nor (loader m x))) (nat (nor_BlockCount (Nor (loader m x)))) (FlashSize (Nor (loader m x)))"
  "wait_covers (chip_bus k) chip_400T (FlashSize (Nor (loader m x)))"
  "chip_data 0x22B9 = Some (nor_BlockCount (Nor (loader m x)), FlashSize (Nor (loader m x)), pBlockAddr (Nor (loader m x)),
    ''  Detect %s29LV400 (TOP)Flash : %04X'', ''  SIZE 4M-BIT [512Kbyte]'')"
  "idle chip_400T (e_dev (loader m x))"
  using chip_bus_ok(1,3) chip_data_400T by simp_all

theorem flash_stores_image_witness:
  "\<exists>e'. CopyTo_BootFlashEx (chip_bus 901) 0x40000 0xA0002000 4 True (loader (\<lambda>_. 7) 0) = Some (0, e') \<and>
    array (e_dev e') 0x40001 = 7 \<and> array (e_dev e') 0x10000 = 0"
proof -
  let ?e = "loader (\<lambda>_. 7) 0"
  have p: "status_clear (cells chip_400T (e_dev ?e))" "even (unat (0x40000 :: u32))" "unat (0x40000 :: u32) + 2 * 2 < unat (FlashSize (Nor ?e))"
    by (simp_all add: status_clear_def ld16_def)
  have tab: "pBlockAddr (Nor ?e) ! 1 \<le> int (unat (0x40000 :: u32))" by simp code_simp
  have b: "FB29LVx_GetBlockIndex nor_400T 0x40000 = 4" by code_simp
  have "FB29LV400T_block_addr ! 1 = 0x10000" "FB29LV400T_block_addr ! Suc (Suc 0) = 0x20000" by code_simp+
  then have x: "(0x10000 :: u32) \<in> block_bytes FB29LV400T_block_addr 11 0x80000 1"
    by (simp add: block_bytes_def block_end_def)
  from flash_stores_image [OF loader_chip(1) chip_bus_ok(2) loader_chip(2-4) p(1,2) tab p(3), of 901 "0xA0002000"] obtain e' where
    e': "CopyTo_BootFlashEx (chip_bus 901) 0x40000 0xA0002000 (int (2 * 2)) True ?e = Some (0, e')"
    "\<forall>j < 2 * 2. cells chip_400T (e_dev e') (0x40000 + of_nat j) = e_mem ?e (0xA0002000 + of_nat j)"
    "\<forall>i x. i < nat (nor_BlockCount (Nor ?e)) \<and> x \<in> block_bytes (pBlockAddr (Nor ?e)) (nat (nor_BlockCount (Nor ?e))) (FlashSize (Nor ?e)) i \<and>
       (int i < FB29LVx_GetBlockIndex (Nor ?e) 0x40000 \<or> FB29LVx_GetBlockIndex (Nor ?e) (0x40000 + of_nat (2 * 2)) < int i) \<longrightarrow>
       cells chip_400T (e_dev e') x = cells chip_400T (e_dev ?e) x" by blast
  have "array (e_dev e') 0x40001 = 7" using e'(2) [rule_format, of 1] by simp
  moreover have "array (e_dev e') 0x10000 = 0" using e'(3) [rule_format, of 1 "0x10000"] b x by simp
  ultimately show ?thesis using e'(1) by auto
qed

lemma magic_at: "ld32 (e_mem (loader (st32 m 0xA0001000 CONFIG_MAGIC) x)) (obj (loader (st32 m 0xA0001000 CONFIG_MAGIC) x) n) = CONFIG_MAGIC"
  by (simp add: ld32_st32_same)

theorem config_survives_witness:
  "\<exists>e'. SaveConfig (chip_bus 901) (loader (st32 (\<lambda>_. 7) 0xA0001000 CONFIG_MAGIC) 0) = Some e' \<and>
    read_bytes (e_mem (LoadConfig (chip_bus 901) ((loader (\<lambda>_. 0) 0)\<lparr>e_dev := flash_of (array (e_dev e'))\<rparr>))) 0xA0001000 CFG_SIZE =
      read_bytes (st32 (\<lambda>_. 7) 0xA0001000 CONFIG_MAGIC) 0xA0001000 CFG_SIZE"
proof -
  let ?e = "loader (st32 (\<lambda>_. 7) 0xA0001000 CONFIG_MAGIC) 0"
  have sc: "status_clear (cells chip_400T (e_dev ?e))" by (simp add: status_clear_def ld16_def)
  from config_survives [OF loader_chip(1) [of 901] chip_bus_ok(2) loader_chip(2-4) sc magic_at] obtain e' where
    e': "SaveConfig (chip_bus 901) ?e = Some e'" "\<And>e2. cells chip_400T (e_dev e2) = cells chip_400T (e_dev e') \<Longrightarrow> idle chip_400T (e_dev e2) \<Longrightarrow>
      read_bytes (e_mem (LoadConfig (chip_bus 901) e2)) (obj e2 ''Cfg'') CFG_SIZE = read_bytes (e_mem ?e) (obj ?e ''Cfg'') CFG_SIZE" by blast
  from e'(2) [of "(loader (\<lambda>_. 0) 0)\<lparr>e_dev := flash_of (array (e_dev e'))\<rparr>"] e'(1) show ?thesis
    by (auto simp: loader_def ez_at_def)
qed

theorem config_lost_witness:
  "\<exists>e'. SaveConfig (chip_bus 900) (loader (st32 (\<lambda>_. 7) 0xA0001000 CONFIG_MAGIC) 0xFF) = Some e' \<and>
    e_mem (LoadConfig (chip_bus 900) ((loader (\<lambda>_. 0) 0)\<lparr>e_dev := flash_of (array (e_dev e'))\<rparr>)) = write_bytes (\<lambda>_. 0) 0xA0001000 Default_Cfg"
proof -
  let ?e = "loader (st32 (\<lambda>_. 7) 0xA0001000 CONFIG_MAGIC) 0xFF"
  have sc: "\<not> status_clear (cells chip_400T (e_dev ?e))" by (simp add: status_clear_def ld16_def)
  from config_lost [OF loader_chip(1) [of 900] chip_bus_ok(2) loader_chip(2,3,4) sc magic_at] obtain e' where
    e': "SaveConfig (chip_bus 900) ?e = Some e'" "\<And>e2. cells chip_400T (e_dev e2) = cells chip_400T (e_dev e') \<Longrightarrow> idle chip_400T (e_dev e2) \<Longrightarrow>
      e_mem (LoadConfig (chip_bus 900) e2) = write_bytes (e_mem e2) (obj e2 ''Cfg'') Default_Cfg" by blast
  from e'(2) [of "(loader (\<lambda>_. 0) 0)\<lparr>e_dev := flash_of (array (e_dev e'))\<rparr>"] e'(1) show ?thesis
    by (auto simp: loader_def ez_at_def)
qed

end
