(* ===== verification/Boot_Nand_Store.thy ===== *)
theory Boot_Nand_Store
  imports Boot_Nand
begin

text \<open>
  The NAND flash as a whole: the routines of \<open>Boot_Nand\<close> on a chip that behaves as its data sheet says. The chip is
  not in the program; its commands, address cycles and status are the functions \<open>nand_cmd\<close>, \<open>nand_address\<close>, \<open>nand_put\<close>
  and \<open>nand_get\<close> on a state \<open>nand_state\<close>, and \<open>nand_at\<close> says of the bus that accesses to the four registers of
  \<open>NAND_BASE\<close> act on it and others do not, while in the turns of a delay loop time passes. Blocks may fail (\<open>works\<close>), and after an erase
  or a program the chip is busy for any time (\<open>polls\<close>). It also takes time to fetch a page into its register before it can be read
  (\<open>fetch\<close>), and there the driver does not ask for the status but relies on \<open>NAND_AddressSetupWait\<close>: that this delay is enough is a condition. The lemmas follow the code from a page up to \<open>copy_to_nand\<close>, \<open>Nand_ReadPartition\<close> and
  \<open>NandFlash_Init\<close>; the last section composes them and has a chip that satisfies the predicates.
\<close>

section \<open>The chip\<close>

text \<open>
  What is fixed: address cycles for a row, blocks of 32 pages, which blocks work, how long an operation on a page takes and how long
  fetching one, what is read before it is there, and the two bytes of the identification.
\<close>

record nand_part =
  row_cycles :: nat
  blocks :: nat
  works :: "nat \<Rightarrow> bool"
  polls :: "nat \<Rightarrow> nat"
  fetch :: nat
  noise :: u8
  maker :: u8
  size_id :: u8

text \<open>
  What changes: the pages with their spare area from byte 512 on, the last command, the half a read starts in, the address
  cycles and data accesses since the command, the page register, and the status.
\<close>

record nand_state =
  pages :: "nat \<Rightarrow> nat \<Rightarrow> u8"
  mode :: u8
  area :: nat
  addr :: "u8 list"
  moved :: nat
  reg :: "nat \<Rightarrow> u8"
  still_busy :: nat
  failed :: bool

text \<open>The page an address names, and the byte the next access is to.\<close>

primrec row_of :: "u8 list \<Rightarrow> nat" where
  "row_of [] = 0"
| "row_of (a # as) = unat a + 256 * row_of as"

definition the_row :: "nand_part \<Rightarrow> u8 list \<Rightarrow> nat" where
  "the_row p as = row_of as mod (32 * blocks p)"

definition the_column :: "nand_state \<Rightarrow> nat" where
  "the_column s = area s + unat (hd (addr s)) + moved s"

definition addressed :: "nand_part \<Rightarrow> nand_state \<Rightarrow> bool" where
  "addressed p s \<longleftrightarrow> length (addr s) = Suc (row_cycles p)"

text \<open>Programming only clears bits; erasing sets those of a block. Both take time, and fail where the block does not work.\<close>

definition program_page :: "nand_part \<Rightarrow> nand_state \<Rightarrow> nand_state" where
  "program_page p s =
     (let r = the_row p (tl (addr s)) in
      if works p (r div 32)
      then s\<lparr>pages := (pages s)(r := \<lambda>c. pages s r c AND reg s c), still_busy := polls p r, failed := False\<rparr>
      else s\<lparr>still_busy := polls p r, failed := True\<rparr>)"

definition erase_block :: "nand_part \<Rightarrow> nand_state \<Rightarrow> nand_state" where
  "erase_block p s =
     (let r = the_row p (addr s) in
      if works p (r div 32)
      then s\<lparr>pages := (\<lambda>q. if q div 32 = r div 32 then \<lambda>c. 0xFF else pages s q), still_busy := polls p r, failed := False\<rparr>
      else s\<lparr>still_busy := polls p r, failed := True\<rparr>)"

text \<open>A write to the command register (a busy chip takes the status command only), the address register and the data register, and a read.\<close>

definition nand_cmd :: "nand_part \<Rightarrow> u8 \<Rightarrow> nand_state \<Rightarrow> nand_state" where
  "nand_cmd p c s =
     (if c = 0x70 then s\<lparr>mode := c\<rparr>
      else if still_busy s \<noteq> 0 then s
      else if c = 0x00 \<or> c = 0x50 then s\<lparr>mode := c, area := (if c = 0 then 0 else 512), addr := [], moved := 0\<rparr>
      else if c = 0x80 then s\<lparr>mode := c, addr := [], moved := 0, reg := (\<lambda>_. 0xFF)\<rparr>
      else if c = 0x60 \<or> c = 0x90 then s\<lparr>mode := c, addr := [], moved := 0\<rparr>
      else if c = 0x10 \<and> mode s = 0x80 \<and> addressed p s then (program_page p s)\<lparr>mode := c\<rparr>
      else if c = 0xD0 \<and> mode s = 0x60 \<and> length (addr s) = row_cycles p then (erase_block p s)\<lparr>mode := c\<rparr>
      else s)"

definition nand_address :: "nand_part \<Rightarrow> u8 \<Rightarrow> nand_state \<Rightarrow> nand_state" where
  "nand_address p a s =
     (let s = s\<lparr>addr := addr s @ [a]\<rparr>
      in if (mode s = 0x00 \<or> mode s = 0x50) \<and> addressed p s then s\<lparr>still_busy := fetch p\<rparr> else s)"

definition nand_put :: "nand_part \<Rightarrow> u8 \<Rightarrow> nand_state \<Rightarrow> nand_state" where
  "nand_put p v s =
     (if mode s = 0x80 \<and> addressed p s then s\<lparr>reg := (reg s)(the_column s := v), moved := Suc (moved s)\<rparr> else s)"

definition nand_get :: "nand_part \<Rightarrow> nand_state \<Rightarrow> u8 \<times> nand_state" where
  "nand_get p s =
     (if mode s = 0x70 then
        (0x80 OR (if still_busy s = 0 then 0x40 else 0) OR (if failed s then 1 else 0), s\<lparr>still_busy := still_busy s - 1\<rparr>)
      else if (mode s = 0x00 \<or> mode s = 0x50) \<and> addressed p s then
        (if still_busy s = 0 then (pages s (the_row p (tl (addr s))) (the_column s), s\<lparr>moved := Suc (moved s)\<rparr>) else (noise p, s))
      else if mode s = 0x90 then (if moved s = 0 then maker p else size_id p, s\<lparr>moved := Suc (moved s)\<rparr>)
      else (0, s))"

text \<open>A turn of a delay loop.\<close>

definition nand_idle :: "nand_state \<Rightarrow> nand_state" where
  "nand_idle s = s\<lparr>still_busy := still_busy s - 1\<rparr>"

text \<open>Accesses to the registers of the chip act on it; no other access does.\<close>

definition nand_at :: "'h bus \<Rightarrow> nand_part \<Rightarrow> ('h \<Rightarrow> nand_state) \<Rightarrow> bool" where
  "nand_at b p st \<longleftrightarrow>
     (\<forall>h v. st (bus_wr b (NAND_BASE + 0x100) v h) = nand_cmd p (ucast v) (st h)) \<and>
     (\<forall>h v. st (bus_wr b (NAND_BASE + 0x200) v h) = nand_address p (ucast v) (st h)) \<and>
     (\<forall>h v. st (bus_wr b NAND_BASE v h) = nand_put p (ucast v) (st h)) \<and>
     (\<forall>h. ucast (fst (bus_rd b NAND_BASE h)) = fst (nand_get p (st h)) \<and>
        st (snd (bus_rd b NAND_BASE h)) = snd (nand_get p (st h))) \<and>
     (\<forall>h. st (snd (bus_rd b (NAND_BASE + 0x300) h)) = st h) \<and> (\<forall>h. st (bus_idle b h) = nand_idle (st h)) \<and>
     (\<forall>h a v. a < NAND_BASE \<or> NAND_BASE + 0x400 \<le> a \<longrightarrow> st (bus_wr b a v h) = st h \<and> st (snd (bus_rd b a h)) = st h)"

section \<open>The driver on the chip\<close>

text \<open>What the operations on pages and blocks leave as it is.\<close>

definition same_loader :: "'h ez \<Rightarrow> 'h ez \<Rightarrow> bool" where
  "same_loader e e' \<longleftrightarrow> e_addr e' = e_addr e \<and> Nand1 e' = Nand1 e \<and> Nand1Partition e' = Nand1Partition e"

lemma same_loader_trans: "same_loader e e1 \<Longrightarrow> same_loader e1 e2 \<Longrightarrow> same_loader e e2"
  by (simp add: same_loader_def)

lemma same_loader_ops [simp]:
  "same_loader e e" "same_loader e (wr b r v e)" "same_loader e (dummy_read b r e)" "same_loader e (say t l e)"
  "same_loader e (send_row b a e)" "same_loader e (with_mem f e)" "same_loader e (snd (nand_byte b e))" "same_loader e (NAND_AddressSetupWait b e)"
  by (simp_all add: same_loader_def NAND_AddressSetupWait_def wr_def dummy_read_def rd_def say_def send_row_def Let_def with_mem_def nand_byte_def split: prod.splits)

lemma same_loader_next:
  assumes "same_loader e e0"
  shows "same_loader e (wr b r v e0)" and "same_loader e (dummy_read b r e0)" and "same_loader e (say t l e0)"
    and "same_loader e (send_row b a e0)" and "same_loader e (with_mem f e0)"
    and "nand_byte b e0 = (w, e1) \<Longrightarrow> same_loader e e1"
    and "same_loader e (NAND_AddressSetupWait b e0)"
  using assms same_loader_trans [OF assms] same_loader_ops(7) [of e0 b] by simp_all

lemmas same_loader_intros = same_loader_next(1-5,7) same_loader_ops(1)

lemma mem_ops [simp]:
  "e_addr (dummy_read b r e) = e_addr e" "e_mem (dummy_read b r e) = e_mem e" "e_mem (send_row b a e) = e_mem e" "e_mem (snd (nand_byte b e)) = e_mem e"
  "e_mem (NAND_AddressSetupWait b e) = e_mem e"
  by (simp_all add: NAND_AddressSetupWait_def dummy_read_def rd_def send_row_def Let_def nand_byte_def split: prod.splits)

text \<open>The driver has found this chip, and its delay is enough for the chip.\<close>

definition fits :: "nand_part \<Rightarrow> 'h ez \<Rightarrow> bool" where
  "fits p e \<longleftrightarrow> nBaseAddress (Nand1 e) = NAND_BASE \<and> 0 < blocks p \<and> 32 * blocks p \<le> 256 ^ row_cycles p \<and>
     row_cycles p = (if nTotalSize (Nand1 e) \<ge> 64 * 1024 * 1024 then 3 else 2) \<and> fetch p \<le> NAND_WAIT_COUNT"

lemma fits_same: "same_loader e e' \<Longrightarrow> fits p e' = fits p e"
  by (simp add: fits_def same_loader_def)

lemma fits_cong: "nBaseAddress (Nand1 e') = nBaseAddress (Nand1 e) \<Longrightarrow> nTotalSize (Nand1 e') = nTotalSize (Nand1 e) \<Longrightarrow> fits p e' = fits p e"
  by (simp add: fits_def)

lemma fits_pages: "fits p e \<Longrightarrow> 32 * blocks p \<le> 2 ^ 24"
  by (auto simp: fits_def split: if_splits)

lemma chip_ops:
  assumes "nand_at b p st" and "nBaseAddress (Nand1 e) = NAND_BASE"
  shows "st (e_dev (wr b (NAND_CMD e) v e)) = nand_cmd p (ucast v) (st (e_dev e))"
    and "st (e_dev (wr b (NAND_ADDR e) v e)) = nand_address p (ucast v) (st (e_dev e))"
    and "st (e_dev (wr b (NAND_DATA e) v e)) = nand_put p (ucast v) (st (e_dev e))"
    and "st (e_dev (dummy_read b (NAND_DATA e) e)) = snd (nand_get p (st (e_dev e)))"
    and "st (e_dev (dummy_read b (NAND_ACCESS_END e) e)) = st (e_dev e)"
    and "fst (nand_byte b e) = fst (nand_get p (st (e_dev e)))"
    and "st (e_dev (snd (nand_byte b e))) = snd (nand_get p (st (e_dev e)))"
  using assms unfolding nand_at_def
  by (simp_all add: NAND_CMD_def NAND_ADDR_def NAND_DATA_def NAND_ACCESS_END_def dummy_read_def nand_byte_def rd_def case_prod_beta)

lemma wait_chip:
  assumes "nand_at b p st"
  shows "st (e_dev (NAND_AddressSetupWait b e)) = (st (e_dev e))\<lparr>still_busy := still_busy (st (e_dev e)) - NAND_WAIT_COUNT\<rparr>"
proof -
  have "st ((bus_idle b ^^ n) h) = (st h)\<lparr>still_busy := still_busy (st h) - n\<rparr>" for n h
  proof (induction n)
    case (Suc n)
    have "st (bus_idle b h') = nand_idle (st h')" for h' using assms unfolding nand_at_def by blast
    with Suc show ?case by (simp add: nand_idle_def)
  qed simp
  then show ?thesis by (simp add: NAND_AddressSetupWait_def)
qed

lemma low_unat: "unat (ucast (a :: u32) :: u8) = unat a mod 256"
  by (simp add: unsigned_ucast_eq take_bit_nat_def flip: unsigned_take_bit_eq)

lemma bytes_row2: "row_of [ucast a, ucast (drop_bit 8 (a :: u32))] = unat a mod 65536"
proof -
  have "unat a mod (256 * 256) = 256 * (unat a div 256 mod 256) + unat a mod 256" by (rule mod_mult2_eq)
  then show ?thesis by (simp add: low_unat drop_bit_eq_div unat_div)
qed

lemma bytes_row3: "row_of [ucast a, ucast (drop_bit 8 (a :: u32)), ucast (drop_bit 16 a)] = unat a mod 16777216"
proof -
  have "unat a mod (256 * 65536) = 256 * (unat a div 256 mod 65536) + unat a mod 256" by (rule mod_mult2_eq)
  moreover have "unat a div 256 mod (256 * 256) = 256 * (unat a div 256 div 256 mod 256) + unat a div 256 mod 256" by (rule mod_mult2_eq)
  ultimately show ?thesis by (simp add: low_unat drop_bit_eq_div unat_div div_mult2_eq [symmetric])
qed

lemma byte_and_ff: "(ucast (a AND 0xFF :: u32) :: u8) = ucast a"
proof -
  have ff: "(0xFF :: u32) = mask 8" by (simp add: mask_eq_exp_minus_1)
  show ?thesis unfolding ff by (rule bit_word_eqI) (auto simp: bit_simps)
qed

lemma byte_wide: "(ucast (ucast (c :: u8) :: u32) :: u8) = c"
  by (rule bit_word_eqI) (simp add: bit_ucast_iff)

lemma send_row_chip:
  assumes "nand_at b p st" and "fits p e" and "mode (st (e_dev e)) = 0 \<or> mode (st (e_dev e)) = 0x50 \<longrightarrow> length (addr (st (e_dev e))) = 1"
  shows "\<exists>as. st (e_dev (send_row b a e)) = (st (e_dev e))\<lparr>addr := addr (st (e_dev e)) @ as,
      still_busy := if mode (st (e_dev e)) = 0 \<or> mode (st (e_dev e)) = 0x50 then fetch p else still_busy (st (e_dev e))\<rparr> \<and>
    length as = row_cycles p \<and> (unat a < 32 * blocks p \<longrightarrow> the_row p as = unat a)"
proof -
  let ?as = "[ucast a, ucast (drop_bit 8 a)] @ (if nTotalSize (Nand1 e) \<ge> 64 * 1024 * 1024 then [ucast (drop_bit 16 a)] else [])"
  let ?s = "st (e_dev e)"
  have base: "nBaseAddress (Nand1 e) = NAND_BASE" using assms(2) by (simp add: fits_def)
  have 2: "length ?as = row_cycles p" using assms(2) by (simp add: fits_def)
  have 1: "st (e_dev (send_row b a e)) = ?s\<lparr>addr := addr ?s @ ?as, still_busy := if mode ?s = 0 \<or> mode ?s = 0x50 then fetch p else still_busy ?s\<rparr>"
    using assms(3) 2 unfolding send_row_def Let_def
    by (auto simp: chip_ops(2) [OF assms(1)] base nand_address_def addressed_def Let_def byte_and_ff simp del: wr_simps)
  have "row_of ?as = unat a" if "unat a < 32 * blocks p"
    using that assms(2) bytes_row2 [of a] bytes_row3 [of a] by (auto simp: fits_def simp del: row_of.simps)
  then have "unat a < 32 * blocks p \<longrightarrow> the_row p ?as = unat a" by (simp add: the_row_def)
  with 1 2 show ?thesis by blast
qed

section \<open>Pages and blocks\<close>

text \<open>Reading a page: the bytes come one after the other.\<close>

lemma read_page_bytes_chip:
  assumes "nand_at b p st" and "fits p e"
  shows "(mode (st (e_dev e)) = 0 \<or> mode (st (e_dev e)) = 0x50) \<Longrightarrow> addressed p (st (e_dev e)) \<and> still_busy (st (e_dev e)) = 0 \<Longrightarrow>
    same_loader e (read_page_bytes n b q e) \<and> pages (st (e_dev (read_page_bytes n b q e))) = pages (st (e_dev e)) \<and>
    still_busy (st (e_dev (read_page_bytes n b q e))) = still_busy (st (e_dev e)) \<and>
    e_mem (read_page_bytes n b q e) = write_bytes (e_mem e) q
      (map (\<lambda>i. pages (st (e_dev e)) (the_row p (tl (addr (st (e_dev e))))) (the_column (st (e_dev e)) + i)) [0..<n])"
  using assms(2)
proof (induction n arbitrary: q e)
  case 0
  then show ?case by simp
next
  case (Suc n)
  obtain v e1 where r: "nand_byte b e = (v, e1)" by fastforce
  have base: "nBaseAddress (Nand1 e) = NAND_BASE" using Suc.prems(3) by (simp add: fits_def)
  note g = chip_ops(6,7) [OF assms(1) base] 
  have v: "v = pages (st (e_dev e)) (the_row p (tl (addr (st (e_dev e))))) (the_column (st (e_dev e)))"
    and d: "st (e_dev e1) = (st (e_dev e))\<lparr>moved := Suc (moved (st (e_dev e)))\<rparr>"
    using g r Suc.prems(1,2) by (auto simp: nand_get_def)
  have s1: "same_loader e e1" "e_mem e1 = e_mem e" using same_loader_ops(7) [of e b] mem_ops(4) [of b e] r by simp_all
  let ?e2 = "with_mem (\<lambda>m. m(q := v)) e1"
  have s2: "same_loader e ?e2" using same_loader_trans [OF s1(1) same_loader_ops(6)] .
  have f2: "fits p ?e2" using fits_same [OF s2] Suc.prems(3) by simp
  have "addressed p (st (e_dev ?e2)) \<and> still_busy (st (e_dev ?e2)) = 0" using Suc.prems(2) by (simp add: d addressed_def)
  moreover have m2: "e_mem ?e2 = (e_mem e)(q := v)" by (simp only: with_mem_simps s1(2))
  moreover have "mode (st (e_dev ?e2)) = mode (st (e_dev e))" "pages (st (e_dev ?e2)) = pages (st (e_dev e))"
    "addr (st (e_dev ?e2)) = addr (st (e_dev e))" "still_busy (st (e_dev ?e2)) = still_busy (st (e_dev e))"
    "the_column (st (e_dev ?e2)) = Suc (the_column (st (e_dev e)))" by (simp_all add: d the_column_def)
  ultimately have IH: "same_loader ?e2 (read_page_bytes n b (q + 1) ?e2)"
    "pages (st (e_dev (read_page_bytes n b (q + 1) ?e2))) = pages (st (e_dev e))"
    "still_busy (st (e_dev (read_page_bytes n b (q + 1) ?e2))) = still_busy (st (e_dev e))"
    "e_mem (read_page_bytes n b (q + 1) ?e2) = write_bytes ((e_mem e)(q := v)) (q + 1)
      (map (\<lambda>i. pages (st (e_dev e)) (the_row p (tl (addr (st (e_dev e))))) (Suc (the_column (st (e_dev e))) + i)) [0..<n])"
    using Suc.IH [of ?e2 "q + 1"] Suc.prems(1) f2 by metis+
  have "[0..<Suc n] = 0 # map Suc [0..<n]" by (metis upt_conv_Cons map_Suc_upt zero_less_Suc)
  with IH same_loader_trans [OF s2 IH(1)] show ?case by (simp add: r v comp_def)
qed

lemma nand_get_frame:
  "pages (snd (nand_get p s)) = pages s" "still_busy s = 0 \<Longrightarrow> still_busy (snd (nand_get p s)) = 0"
  by (simp_all add: nand_get_def)

lemma regs_frame [simp]:
  "NAND_CMD (wr b r v e) = NAND_CMD e" "NAND_ADDR (wr b r v e) = NAND_ADDR e" "NAND_DATA (wr b r v e) = NAND_DATA e"
  "NAND_CMD (dummy_read b r e) = NAND_CMD e" "NAND_ADDR (dummy_read b r e) = NAND_ADDR e"
  "NAND_CMD (send_row b a e) = NAND_CMD e" "NAND_ADDR (send_row b a e) = NAND_ADDR e"
  "NAND_CMD (NAND_AddressSetupWait b e) = NAND_CMD e"
  by (simp_all add: NAND_CMD_def NAND_ADDR_def NAND_DATA_def)

text \<open>The address of a page after a read command, for the page itself (\<open>0x00\<close>) or its spare area (\<open>0x50\<close>).\<close>

lemma read_setup:
  fixes col :: u32
  assumes "nand_at b p st" and "fits p e" and "still_busy (st (e_dev e)) = 0" and "unat a < 32 * blocks p"
    and "c = 0 \<or> c = 0x50"
  defines "e' \<equiv> NAND_AddressSetupWait b (send_row b a (wr b (NAND_ADDR e) col (wr b (NAND_CMD e) c (dummy_read b (NAND_DATA e) e))))"
  shows "\<exists>as. st (e_dev e') = (st (e_dev (dummy_read b (NAND_DATA e) e)))\<lparr>mode := ucast c, area := (if c = 0 then 0 else 512),
      addr := ucast col # as, moved := 0\<rparr> \<and> length as = row_cycles p \<and> the_row p as = unat a" and "same_loader e e'" and "e_mem e' = e_mem e"
proof -
  define e1 where "e1 = dummy_read b (NAND_DATA e) e"
  have base: "nBaseAddress (Nand1 e) = NAND_BASE" using assms(2) by (simp add: fits_def)
  have s1: "still_busy (st (e_dev e1)) = 0" "NAND_CMD e = NAND_CMD e1" "nBaseAddress (Nand1 e1) = NAND_BASE" "NAND_ADDR e = NAND_ADDR e1"
    using assms(3) base by (simp_all add: e1_def chip_ops(4) [OF assms(1) base] nand_get_frame)
  define e2 where "e2 = wr b (NAND_CMD e1) c e1"
  have s2: "st (e_dev e2) = (st (e_dev e1))\<lparr>mode := ucast c, area := (if c = 0 then 0 else 512), addr := [], moved := 0\<rparr>"
    unfolding e2_def chip_ops(1) [OF assms(1) s1(3)] using assms(5) s1(1) by (auto simp: nand_cmd_def)
  have b2: "nBaseAddress (Nand1 e2) = NAND_BASE" by (simp add: e2_def s1)
  have rc: "row_cycles p \<noteq> 0" "fetch p \<le> NAND_WAIT_COUNT" using assms(2) by (auto simp: fits_def)
  define e3 where "e3 = wr b (NAND_ADDR e2) col e2"
  have s3: "st (e_dev e3) = (st (e_dev e2))\<lparr>addr := [ucast col]\<rparr>"
    unfolding e3_def chip_ops(2) [OF assms(1) b2] using rc by (simp add: nand_address_def s2 addressed_def Let_def)
  have l3: "same_loader e e3" unfolding e3_def e2_def e1_def by (intro same_loader_intros)
  have m3: "e_mem e3 = e_mem e" unfolding e3_def e2_def e1_def by simp
  define e4 where "e4 = send_row b a e3"
  have e': "e' = NAND_AddressSetupWait b e4" unfolding e'_def e4_def e3_def e2_def e1_def by simp
  have "mode (st (e_dev e3)) = 0 \<or> mode (st (e_dev e3)) = 0x50 \<longrightarrow> length (addr (st (e_dev e3))) = 1" by (simp add: s3)
  from send_row_chip [OF assms(1) _ this, of a] fits_same [OF l3] assms(2,4) obtain as where
    a4: "st (e_dev e4) = (st (e_dev e3))\<lparr>addr := addr (st (e_dev e3)) @ as,
      still_busy := if mode (st (e_dev e3)) = 0 \<or> mode (st (e_dev e3)) = 0x50 then fetch p else still_busy (st (e_dev e3))\<rparr>"
    and as: "length as = row_cycles p" "the_row p as = unat a"
    unfolding e4_def by blast
  have "st (e_dev e') = (st (e_dev e1))\<lparr>mode := ucast c, area := (if c = 0 then 0 else 512), addr := ucast col # as, moved := 0\<rparr>"
    unfolding e' wait_chip [OF assms(1)] a4 using assms(5) rc(2) s1(1) by (auto simp: s3 s2)
  with as show "\<exists>as. st (e_dev e') = (st (e_dev (dummy_read b (NAND_DATA e) e)))\<lparr>mode := ucast c, area := (if c = 0 then 0 else 512),
      addr := ucast col # as, moved := 0\<rparr> \<and> length as = row_cycles p \<and> the_row p as = unat a"
    unfolding e1_def by blast
  show "same_loader e e'" "e_mem e' = e_mem e"
    unfolding e' e4_def using l3 m3 by (auto intro: same_loader_intros)
qed

lemma ReadPage_chip:
  fixes q :: u32
  assumes "nand_at b p st" and "fits p e" and "still_busy (st (e_dev e)) = 0" and "pg < 32 * blocks p"
  defines "e' \<equiv> NAND_ReadPage b (int pg) q e"
  shows "same_loader e e'" and "pages (st (e_dev e')) = pages (st (e_dev e))" and "still_busy (st (e_dev e')) = 0"
    and "e_mem e' = write_bytes (e_mem e) q (map (pages (st (e_dev e)) pg) [0..<512])"
proof -
  have base: "nBaseAddress (Nand1 e) = NAND_BASE" using assms(2) by (simp add: fits_def)
  have u: "unat (word_of_int (int pg) :: u32) = pg" using fits_pages [OF assms(2)] assms(4) by (simp add: unat_of_nat)
  define e4 where "e4 = NAND_AddressSetupWait b (send_row b (word_of_int (int pg)) (wr b (NAND_ADDR e) 0 (wr b (NAND_CMD e) 0 (dummy_read b (NAND_DATA e) e))))"
  obtain as where a: "st (e_dev e4) = (st (e_dev (dummy_read b (NAND_DATA e) e)))\<lparr>mode := 0, area := 0, addr := 0 # as, moved := 0\<rparr>"
      "length as = row_cycles p" "the_row p as = pg"
    and l4: "same_loader e e4" "e_mem e4 = e_mem e"
    using read_setup [OF assms(1-3), of "word_of_int (int pg)" 0 0] assms(4) u unfolding e4_def by auto
  have s4: "pages (st (e_dev e4)) = pages (st (e_dev e))" "still_busy (st (e_dev e4)) = 0" "mode (st (e_dev e4)) = 0"
    "addressed p (st (e_dev e4))" "tl (addr (st (e_dev e4))) = as" "the_column (st (e_dev e4)) = 0"
    using a assms(3) by (simp_all add: chip_ops(4) [OF assms(1) base] nand_get_frame addressed_def the_column_def)
  define e5 where "e5 = read_page_bytes 512 b q e4"
  have l5: "same_loader e4 e5" "pages (st (e_dev e5)) = pages (st (e_dev e))" "still_busy (st (e_dev e5)) = 0"
    "e_mem e5 = write_bytes (e_mem e) q (map (pages (st (e_dev e)) pg) [0..<512])"
    using read_page_bytes_chip [OF assms(1), of e4 512 q] fits_same [OF l4(1)] assms(2) s4 a(3) l4(2) unfolding e5_def by simp_all
  have e': "e' = dummy_read b (NAND_ACCESS_END e5) e5"
    unfolding e'_def NAND_ReadPage_def Let_def NAND_CMD_READ_A_def e5_def e4_def by simp
  have b5: "nBaseAddress (Nand1 e5) = NAND_BASE" using l4(1) l5(1) base by (simp add: same_loader_def)
  show "same_loader e e'" unfolding e' using l4(1) l5(1) by (blast intro: same_loader_trans same_loader_ops(3))
  show "pages (st (e_dev e')) = pages (st (e_dev e))" "still_busy (st (e_dev e')) = 0"
    "e_mem e' = write_bytes (e_mem e) q (map (pages (st (e_dev e)) pg) [0..<512])"
    unfolding e' chip_ops(5) [OF assms(1) b5] using l5 by simp_all
qed

lemma nand_byte_mem: "nand_byte b e = (v, e') \<Longrightarrow> e_mem e' = e_mem e"
  by (metis mem_ops(4) snd_conv)

text \<open>The status is ready after as many readings as the chip is busy.\<close>

lemma status_chip:
  assumes "nand_at b p st"
  shows "nBaseAddress (Nand1 e) = NAND_BASE \<Longrightarrow> \<exists>e'. nand_status b e = Some (0xC0 OR (if failed (st (e_dev e)) then 1 else 0), e') \<and>
    same_loader e e' \<and> e_mem e' = e_mem e \<and> st (e_dev e') = (st (e_dev e))\<lparr>mode := 0x70, still_busy := 0\<rparr>"
proof (induction "still_busy (st (e_dev e))" arbitrary: e)
  case 0
  define e1 where "e1 = wr b (NAND_CMD e) NAND_CMD_READ_STATE e"
  have b1: "nBaseAddress (Nand1 e1) = NAND_BASE" using 0 by (simp add: e1_def)
  have s1: "st (e_dev e1) = (st (e_dev e))\<lparr>mode := 0x70\<rparr>"
    unfolding e1_def chip_ops(1) [OF assms 0(2)] by (simp add: nand_cmd_def NAND_CMD_READ_STATE_def)
  obtain v e2 where r: "nand_byte b e1 = (v, e2)" by fastforce
  have v: "v = 0xC0 OR (if failed (st (e_dev e)) then 1 else 0)" "st (e_dev e2) = (st (e_dev e))\<lparr>mode := 0x70, still_busy := 0\<rparr>"
    using chip_ops(6,7) [OF assms b1] 0(1) by (simp_all add: r s1 nand_get_def)
  have "nand_status b e = Some (v, e2)"
    by (subst nand_status.simps) (simp add: e1_def [symmetric] r v(1) NAND_STATUS_BUSY_def)
  moreover have "same_loader e e2"
    by (rule same_loader_next(6) [OF same_loader_next(1) [OF same_loader_ops(1)] r [unfolded e1_def]])
  moreover have "e_mem e2 = e_mem e" by (rule nand_byte_mem [OF r [unfolded e1_def], simplified])
  ultimately show ?case using v by blast
next
  case (Suc n)
  define e1 where "e1 = wr b (NAND_CMD e) NAND_CMD_READ_STATE e"
  have b1: "nBaseAddress (Nand1 e1) = NAND_BASE" using Suc by (simp add: e1_def)
  have s1: "st (e_dev e1) = (st (e_dev e))\<lparr>mode := 0x70\<rparr>"
    unfolding e1_def chip_ops(1) [OF assms Suc(3)] by (simp add: nand_cmd_def NAND_CMD_READ_STATE_def)
  obtain v e2 where r: "nand_byte b e1 = (v, e2)" by fastforce
  have v: "v = 0x80 OR (if failed (st (e_dev e)) then 1 else 0)" "st (e_dev e2) = (st (e_dev e))\<lparr>mode := 0x70, still_busy := n\<rparr>"
    using chip_ops(6,7) [OF assms b1] Suc(2) [symmetric] by (simp_all add: r s1 nand_get_def)
  have l: "same_loader e e2"
    by (rule same_loader_next(6) [OF same_loader_next(1) [OF same_loader_ops(1)] r [unfolded e1_def]])
  have m: "e_mem e2 = e_mem e" by (rule nand_byte_mem [OF r [unfolded e1_def], simplified])
  have "nand_status b e = nand_status b e2"
    by (subst nand_status.simps) (simp add: e1_def [symmetric] r v(1) NAND_STATUS_BUSY_def)
  moreover have "nBaseAddress (Nand1 e2) = NAND_BASE" using l Suc(3) by (simp add: same_loader_def)
  moreover have "n = still_busy (st (e_dev e2))" by (simp add: v(2))
  ultimately show ?case using Suc(1) [of e2] l m by (auto simp: v(2) intro: same_loader_trans)
qed

lemma write_page_bytes_chip:
  assumes "nand_at b p st"
  shows "nBaseAddress (Nand1 e) = NAND_BASE \<Longrightarrow> mode (st (e_dev e)) = 0x80 \<Longrightarrow> addressed p (st (e_dev e)) \<Longrightarrow>
    same_loader e (write_page_bytes n b q e) \<and> e_mem (write_page_bytes n b q e) = e_mem e \<and>
    (\<exists>k. st (e_dev (write_page_bytes n b q e)) = (st (e_dev e))\<lparr>moved := k,
      reg := (\<lambda>c. if the_column (st (e_dev e)) \<le> c \<and> c < the_column (st (e_dev e)) + n
        then e_mem e (q + of_nat (c - the_column (st (e_dev e)))) else reg (st (e_dev e)) c)\<rparr>)"
proof (induction n arbitrary: q e)
  case 0
  have "same_loader e e" by simp
  let ?f = "\<lambda>c. if the_column (st (e_dev e)) \<le> c \<and> c < the_column (st (e_dev e)) + 0
        then e_mem e (q + of_nat (c - the_column (st (e_dev e)))) else reg (st (e_dev e)) c"
  have "?f = reg (st (e_dev e))" by (intro ext) (metis add_0_right linorder_not_less)
  then have "st (e_dev e) = (st (e_dev e))\<lparr>moved := moved (st (e_dev e)), reg := ?f\<rparr>" by simp
  with \<open>same_loader e e\<close> show ?case unfolding write_page_bytes.simps by blast
next
  case (Suc n)
  let ?s = "st (e_dev e)"
  define e1 where "e1 = wr b (NAND_DATA e) (ucast (e_mem e q)) e"
  have m1: "e_mem e1 = e_mem e" "same_loader e e1" "nBaseAddress (Nand1 e1) = NAND_BASE" using Suc.prems(1) by (simp_all add: e1_def)
  have s1: "st (e_dev e1) = ?s\<lparr>reg := (reg ?s)(the_column ?s := e_mem e q), moved := Suc (moved ?s)\<rparr>"
    unfolding e1_def chip_ops(3) [OF assms Suc.prems(1)] using Suc.prems(2,3) by (simp add: nand_put_def byte_wide)
  have c1: "the_column (st (e_dev e1)) = Suc (the_column ?s)" "mode (st (e_dev e1)) = 0x80" "addressed p (st (e_dev e1))"
    using Suc.prems(2,3) by (simp_all add: s1 the_column_def addressed_def)
  obtain k where k: "same_loader e1 (write_page_bytes n b (q + 1) e1)" "e_mem (write_page_bytes n b (q + 1) e1) = e_mem e"
    "st (e_dev (write_page_bytes n b (q + 1) e1)) = (st (e_dev e1))\<lparr>moved := k,
      reg := (\<lambda>c. if Suc (the_column ?s) \<le> c \<and> c < Suc (the_column ?s) + n
        then e_mem e (q + 1 + of_nat (c - Suc (the_column ?s))) else reg (st (e_dev e1)) c)\<rparr>"
    using Suc.IH [OF m1(3) c1(2,3), of "q + 1"] unfolding m1(1) c1(1) by blast
  have "(\<lambda>c. if Suc (the_column ?s) \<le> c \<and> c < Suc (the_column ?s) + n
        then e_mem e (q + 1 + of_nat (c - Suc (the_column ?s))) else reg (st (e_dev e1)) c) =
      (\<lambda>c. if the_column ?s \<le> c \<and> c < the_column ?s + Suc n then e_mem e (q + of_nat (c - the_column ?s)) else reg ?s c)"
  proof
    fix c
    show "(if Suc (the_column ?s) \<le> c \<and> c < Suc (the_column ?s) + n
        then e_mem e (q + 1 + of_nat (c - Suc (the_column ?s))) else reg (st (e_dev e1)) c) =
      (if the_column ?s \<le> c \<and> c < the_column ?s + Suc n then e_mem e (q + of_nat (c - the_column ?s)) else reg ?s c)"
    proof (cases "Suc (the_column ?s) \<le> c")
      case True
      then have "c - the_column ?s = Suc (c - Suc (the_column ?s))" by simp
      then have "q + of_nat (c - the_column ?s) = q + 1 + of_nat (c - Suc (the_column ?s))" by (simp add: add.assoc)
      with True show ?thesis by (simp add: s1)
    next
      case False
      then show ?thesis by (auto simp: s1)
    qed
  qed
  then have "st (e_dev (write_page_bytes n b (q + 1) e1)) = ?s\<lparr>moved := k, reg := (\<lambda>c. if the_column ?s \<le> c \<and> c < the_column ?s + Suc n
      then e_mem e (q + of_nat (c - the_column ?s)) else reg ?s c)\<rparr>" unfolding k(3) by (simp add: s1)
  moreover have "write_page_bytes (Suc n) b q e = write_page_bytes n b (q + 1) e1" by (simp add: e1_def)
  ultimately show ?case using k(1,2) m1(2) by (auto intro: same_loader_trans)
qed

text \<open>Writing a page of a block that works: its bytes are and-ed with those of the page.\<close>

lemma WritePage_chip:
  fixes q :: u32
  assumes "nand_at b p st" and "fits p e" and "still_busy (st (e_dev e)) = 0" and "pg < 32 * blocks p" and "works p (pg div 32)"
  shows "\<exists>e'. NAND_WritePage b (int pg) q e = Some (True, e') \<and> same_loader e e' \<and> e_mem e' = e_mem e \<and>
    still_busy (st (e_dev e')) = 0 \<and>
    pages (st (e_dev e')) = (pages (st (e_dev e)))(pg := \<lambda>c. if c < 512
      then pages (st (e_dev e)) pg c AND e_mem e (q + of_nat c) else pages (st (e_dev e)) pg c)"
proof -
  let ?P = "pages (st (e_dev e))"
  have u: "unat (word_of_int (int pg) :: u32) = pg" using fits_pages [OF assms(2)] assms(4) by (simp add: unat_of_nat)
  define e1 where "e1 = dummy_read b (NAND_DATA e) e"
  have base: "nBaseAddress (Nand1 e) = NAND_BASE" using assms(2) by (simp add: fits_def)
  have s1: "pages (st (e_dev e1)) = ?P" "still_busy (st (e_dev e1)) = 0"
    using assms(3) by (simp_all add: e1_def chip_ops(4) [OF assms(1) base] nand_get_frame)
  have b1: "nBaseAddress (Nand1 e1) = NAND_BASE" using base by (simp add: e1_def)
  define e2 where "e2 = wr b (NAND_CMD e1) NAND_CMD_READ_A e1"
  have b2: "nBaseAddress (Nand1 e2) = NAND_BASE" using b1 by (simp add: e2_def)
  have s2: "st (e_dev e2) = (st (e_dev e1))\<lparr>mode := 0, area := 0, addr := [], moved := 0\<rparr>"
    unfolding e2_def chip_ops(1) [OF assms(1) b1] using s1(2) by (simp add: nand_cmd_def NAND_CMD_READ_A_def)
  define e3 where "e3 = wr b (NAND_CMD e2) NAND_CMD_WRITE_START e2"
  have b3: "nBaseAddress (Nand1 e3) = NAND_BASE" using b2 by (simp add: e3_def)
  have s3: "st (e_dev e3) = (st (e_dev e1))\<lparr>mode := 0x80, area := 0, addr := [], moved := 0, reg := (\<lambda>_. 0xFF)\<rparr>"
    unfolding e3_def chip_ops(1) [OF assms(1) b2] using s1(2) by (simp add: s2 nand_cmd_def NAND_CMD_WRITE_START_def)
  define e4 where "e4 = wr b (NAND_ADDR e3) 0 e3"
  have s4: "st (e_dev e4) = (st (e_dev e1))\<lparr>mode := 0x80, area := 0, addr := [0], moved := 0, reg := (\<lambda>_. 0xFF)\<rparr>"
    unfolding e4_def chip_ops(2) [OF assms(1) b3] by (simp add: s3 nand_address_def Let_def)
  have l4: "same_loader e e4" unfolding e4_def e3_def e2_def e1_def by (intro same_loader_intros)
  have m4: "e_mem e4 = e_mem e" unfolding e4_def e3_def e2_def e1_def by simp
  define e5 where "e5 = NAND_AddressSetupWait b (send_row b (word_of_int (int pg)) e4)"
  have md: "mode (st (e_dev e4)) = 0 \<or> mode (st (e_dev e4)) = 0x50 \<longrightarrow> length (addr (st (e_dev e4))) = 1" by (simp add: s4)
  have "unat (word_of_int (int pg) :: u32) < 32 * blocks p" unfolding u by (rule assms(4))
  with send_row_chip [OF assms(1) fits_same [OF l4, THEN iffD2, OF assms(2)] md, of "word_of_int (int pg)"]
  obtain as where a0: "st (e_dev (send_row b (word_of_int (int pg)) e4)) = (st (e_dev e4))\<lparr>addr := addr (st (e_dev e4)) @ as,
      still_busy := if mode (st (e_dev e4)) = 0 \<or> mode (st (e_dev e4)) = 0x50 then fetch p else still_busy (st (e_dev e4))\<rparr>"
    and as: "length as = row_cycles p" "the_row p as = pg" unfolding u by blast
  have a: "st (e_dev e5) = (st (e_dev e1))\<lparr>mode := 0x80, area := 0, addr := 0 # as, moved := 0, reg := (\<lambda>_. 0xFF)\<rparr>"
    unfolding e5_def wait_chip [OF assms(1)] a0 using s1(2) by (simp add: s4)
  have l5: "same_loader e e5" unfolding e5_def using l4 by (intro same_loader_next(4,7))
  have m5: "e_mem e5 = e_mem e" by (simp add: e5_def m4)
  have b5: "nBaseAddress (Nand1 e5) = NAND_BASE" using l5 base by (simp add: same_loader_def)
  define e6 where "e6 = write_page_bytes 512 b q e5"
  have c5: "mode (st (e_dev e5)) = 0x80" "addressed p (st (e_dev e5))" "the_column (st (e_dev e5)) = 0"
    by (simp_all add: a as addressed_def the_column_def)
  have r5: "reg (st (e_dev e5)) c = 0xFF" for c by (simp add: a)
  obtain k where w: "same_loader e5 e6" "e_mem e6 = e_mem e"
    "st (e_dev e6) = (st (e_dev e5))\<lparr>moved := k, reg := (\<lambda>c. if c < 512 then e_mem e (q + of_nat c) else 0xFF)\<rparr>"
    using write_page_bytes_chip [OF assms(1) b5 c5(1,2), of 512 q] unfolding e6_def c5(3) m5 r5 diff_zero by auto
  have l6: "same_loader e e6" using same_loader_trans [OF l5 w(1)] .
  have b6: "nBaseAddress (Nand1 e6) = NAND_BASE" using l6 base by (simp add: same_loader_def)
  define e7 where "e7 = wr b (NAND_CMD e6) NAND_CMD_WRITE_RUN e6"
  let ?new = "?P(pg := \<lambda>c. if c < 512 then ?P pg c AND e_mem e (q + of_nat c) else ?P pg c)"
  have "(\<lambda>c. ?P pg c AND (if c < 512 then e_mem e (q + of_nat c) else 0xFF)) =
      (\<lambda>c. if c < 512 then ?P pg c AND e_mem e (q + of_nat c) else ?P pg c)"
  proof
    have ff: "(0xFF :: u8) = - 1" by simp
    show "?P pg c AND (if c < 512 then e_mem e (q + of_nat c) else 0xFF) =
        (if c < 512 then ?P pg c AND e_mem e (q + of_nat c) else ?P pg c)" for c unfolding ff by simp
  qed
  then have s7: "pages (st (e_dev e7)) = ?new" "\<not> failed (st (e_dev e7))"
    unfolding e7_def chip_ops(1) [OF assms(1) b6] using s1 assms(5)
    by (simp_all add: w(3) a as nand_cmd_def NAND_CMD_WRITE_RUN_def addressed_def program_page_def)
  have l7: "same_loader e e7" unfolding e7_def using same_loader_trans [OF l6 same_loader_ops(2)] .
  have m7: "e_mem e7 = e_mem e" by (simp add: e7_def w(2))
  have b7: "nBaseAddress (Nand1 e7) = NAND_BASE" using l7 base by (simp add: same_loader_def)
  obtain e8 where e8: "nand_status b e7 = Some (0xC0, e8)" "same_loader e7 e8" "e_mem e8 = e_mem e"
    "st (e_dev e8) = (st (e_dev e7))\<lparr>mode := 0x70, still_busy := 0\<rparr>"
    using status_chip [OF assms(1) b7] s7(2) m7 by auto
  have l8: "same_loader e e8" using same_loader_trans [OF l7 e8(2)] .
  have b8: "nBaseAddress (Nand1 e8) = NAND_BASE" using l8 base by (simp add: same_loader_def)
  have "NAND_WritePage b (int pg) q e = Some (True, dummy_read b (NAND_ACCESS_END e8) e8)"
    unfolding NAND_WritePage_def Let_def e1_def [symmetric] e2_def [symmetric] e3_def [symmetric] e4_def [symmetric]
      e5_def [symmetric] e6_def [symmetric] e7_def [symmetric] e8(1) by (simp add: NAND_STATUS_FAIL_def)
  moreover have "same_loader e (dummy_read b (NAND_ACCESS_END e8) e8)" using same_loader_trans [OF l8 same_loader_ops(3)] .
  ultimately show ?thesis using e8(3,4) s7(1) by (auto simp: chip_ops(5) [OF assms(1) b8])
qed

lemma of_nat_shift5: "n < 2 ^ 27 \<Longrightarrow> unat (push_bit 5 (word_of_int (int n)) :: u32) = 32 * n"
proof -
  assume n: "n < 2 ^ 27"
  have "(push_bit 5 (word_of_int (int n)) :: u32) = of_nat (32 * n)" by (simp add: push_bit_eq_mult)
  with n show ?thesis by (simp add: unat_of_nat del: of_nat_mult)
qed

text \<open>Erasing a block that works.\<close>

lemma EraseBlock_chip:
  assumes "nand_at b p st" and "fits p e" and "still_busy (st (e_dev e)) = 0" and "k < blocks p" and "works p k"
  shows "\<exists>e'. NAND_EraseBlock b (int k) e = Some (True, e') \<and> same_loader e e' \<and> e_mem e' = e_mem e \<and>
    still_busy (st (e_dev e')) = 0 \<and>
    pages (st (e_dev e')) = (\<lambda>q. if q div 32 = k then \<lambda>c. 0xFF else pages (st (e_dev e)) q)"
proof -
  let ?P = "pages (st (e_dev e))" let ?a = "push_bit 5 (word_of_int (int k)) :: u32"
  have u: "unat ?a = 32 * k" using fits_pages [OF assms(2)] assms(4) by (intro of_nat_shift5) simp
  define e1 where "e1 = dummy_read b (NAND_DATA e) e"
  have base: "nBaseAddress (Nand1 e) = NAND_BASE" using assms(2) by (simp add: fits_def)
  have s1: "pages (st (e_dev e1)) = ?P" "still_busy (st (e_dev e1)) = 0"
    using assms(3) by (simp_all add: e1_def chip_ops(4) [OF assms(1) base] nand_get_frame)
  have b1: "nBaseAddress (Nand1 e1) = NAND_BASE" using base by (simp add: e1_def)
  define e2 where "e2 = wr b (NAND_CMD e1) NAND_CMD_ERASE_SETUP e1"
  have s2: "st (e_dev e2) = (st (e_dev e1))\<lparr>mode := 0x60, addr := [], moved := 0\<rparr>"
    unfolding e2_def chip_ops(1) [OF assms(1) b1] using s1(2) by (simp add: nand_cmd_def NAND_CMD_ERASE_SETUP_def)
  have l2: "same_loader e e2" unfolding e2_def e1_def by (intro same_loader_intros)
  define e3 where "e3 = NAND_AddressSetupWait b (send_row b ?a e2)"
  have md: "mode (st (e_dev e2)) = 0 \<or> mode (st (e_dev e2)) = 0x50 \<longrightarrow> length (addr (st (e_dev e2))) = 1" by (simp add: s2)
  have "unat ?a < 32 * blocks p" using u assms(4) by simp
  with send_row_chip [OF assms(1) fits_same [OF l2, THEN iffD2, OF assms(2)] md, of ?a]
  obtain as where a1: "st (e_dev (send_row b ?a e2)) = (st (e_dev e2))\<lparr>addr := addr (st (e_dev e2)) @ as,
      still_busy := if mode (st (e_dev e2)) = 0 \<or> mode (st (e_dev e2)) = 0x50 then fetch p else still_busy (st (e_dev e2))\<rparr>"
    and as: "length as = row_cycles p" "the_row p as = 32 * k" unfolding u by blast
  have a0: "st (e_dev e3) = (st (e_dev e2))\<lparr>addr := addr (st (e_dev e2)) @ as\<rparr>"
    unfolding e3_def wait_chip [OF assms(1)] a1 using s1(2) by (simp add: s2)
  have l3: "same_loader e e3" unfolding e3_def using l2 by (intro same_loader_next(4,7))
  have b3: "nBaseAddress (Nand1 e3) = NAND_BASE" using l3 base by (simp add: same_loader_def)
  define e4 where "e4 = wr b (NAND_CMD e3) NAND_CMD_ERASE_RUN e3"
  have s4: "pages (st (e_dev e4)) = (\<lambda>q. if q div 32 = k then \<lambda>c. 0xFF else ?P q)" "\<not> failed (st (e_dev e4))"
    unfolding e4_def chip_ops(1) [OF assms(1) b3] using s1 assms(5)
    by (simp_all add: a0 s2 as nand_cmd_def NAND_CMD_ERASE_RUN_def erase_block_def cong: if_cong)
  have l4: "same_loader e e4" unfolding e4_def using same_loader_trans [OF l3 same_loader_ops(2)] .
  have m4: "e_mem e4 = e_mem e" unfolding e4_def e3_def e2_def e1_def by simp
  have b4: "nBaseAddress (Nand1 e4) = NAND_BASE" using l4 base by (simp add: same_loader_def)
  obtain e5 where e5: "nand_status b e4 = Some (0xC0, e5)" "same_loader e4 e5" "e_mem e5 = e_mem e"
    "st (e_dev e5) = (st (e_dev e4))\<lparr>mode := 0x70, still_busy := 0\<rparr>"
    using status_chip [OF assms(1) b4] s4(2) m4 by auto
  have l5: "same_loader e e5" using same_loader_trans [OF l4 e5(2)] .
  have b5: "nBaseAddress (Nand1 e5) = NAND_BASE" using l5 base by (simp add: same_loader_def)
  have "NAND_EraseBlock b (int k) e = Some (True, dummy_read b (NAND_ACCESS_END e5) e5)"
    unfolding NAND_EraseBlock_def Let_def e1_def [symmetric] e2_def [symmetric] e3_def [symmetric] e4_def [symmetric]
      e5(1) by (simp add: NAND_STATUS_FAIL_def)
  moreover have "same_loader e (dummy_read b (NAND_ACCESS_END e5) e5)" using same_loader_trans [OF l5 same_loader_ops(3)] .
  ultimately show ?thesis using e5(3,4) s4(1) by (auto simp: chip_ops(5) [OF assms(1) b5])
qed

text \<open>The bad block mark is the sixth byte of the spare area of a block's first page.\<close>

definition marked :: "nand_state \<Rightarrow> nat \<Rightarrow> bool" where
  "marked s k \<longleftrightarrow> pages s (32 * k) 517 \<noteq> 0xFF"

lemma CheckBadBlock_chip:
  assumes "nand_at b p st" and "fits p e" and "still_busy (st (e_dev e)) = 0" and "k < blocks p"
    and "k < length (nBadBlock (Nand1 e))"
  shows "\<exists>e'. NAND_CheckBadBlock b (int k) e = Some (\<not> marked (st (e_dev e)) k, e') \<and>
    Nand1 e' = (Nand1 e)\<lparr>nBadBlock := (nBadBlock (Nand1 e))[k := if marked (st (e_dev e)) k then bad_mark else good_mark]\<rparr> \<and>
    Nand1Partition e' = Nand1Partition e \<and> e_addr e' = e_addr e \<and> e_mem e' = e_mem e \<and>
    still_busy (st (e_dev e')) = 0 \<and> pages (st (e_dev e')) = pages (st (e_dev e))"
proof -
  let ?a = "push_bit 5 (word_of_int (int k)) :: u32"
  have u: "unat ?a = 32 * k" using fits_pages [OF assms(2)] assms(4) by (intro of_nat_shift5) simp
  have ua: "unat ?a < 32 * blocks p" using u assms(4) by simp
  have base: "nBaseAddress (Nand1 e) = NAND_BASE" using assms(2) by (simp add: fits_def)
  define e4 where "e4 = NAND_AddressSetupWait b (send_row b ?a (wr b (NAND_ADDR e) 5 (wr b (NAND_CMD e) 0x50 (dummy_read b (NAND_DATA e) e))))"
  obtain as where a: "st (e_dev e4) = (st (e_dev (dummy_read b (NAND_DATA e) e)))\<lparr>mode := 0x50, area := 512, addr := 5 # as, moved := 0\<rparr>"
      "length as = row_cycles p" "the_row p as = 32 * k"
    and l4: "same_loader e e4" "e_mem e4 = e_mem e"
    using read_setup [OF assms(1-3) ua, where c = "0x50" and col = 5] u unfolding e4_def by auto
  have b4: "nBaseAddress (Nand1 e4) = NAND_BASE" using l4 base by (simp add: same_loader_def)
  have s4: "pages (st (e_dev e4)) = pages (st (e_dev e))" "still_busy (st (e_dev e4)) = 0"
    using a assms(3) by (simp_all add: chip_ops(4) [OF assms(1) base] nand_get_frame)
  obtain v e5 where r: "nand_byte b e4 = (v, e5)" by fastforce
  have v: "v = pages (st (e_dev e)) (32 * k) 517" "pages (st (e_dev e5)) = pages (st (e_dev e))" "still_busy (st (e_dev e5)) = 0"
    using chip_ops(6,7) [OF assms(1) b4] s4
    by (simp_all add: r a nand_get_def addressed_def the_column_def)
  have l5: "same_loader e e5" by (rule same_loader_next(6) [OF l4(1) r])
  have b5: "nBaseAddress (Nand1 e5) = NAND_BASE" using l5 base by (simp add: same_loader_def)
  define e6 where "e6 = dummy_read b (NAND_ACCESS_END e5) e5"
  have l6: "same_loader e e6" unfolding e6_def using same_loader_trans [OF l5 same_loader_ops(3)] .
  have n6: "Nand1 e6 = Nand1 e" "Nand1Partition e6 = Nand1Partition e" "e_addr e6 = e_addr e" "e_mem e6 = e_mem e"
    using l6 nand_byte_mem [OF r] l4(2) by (simp_all add: same_loader_def) (simp add: e6_def)
  have s6: "st (e_dev e6) = st (e_dev e5)" unfolding e6_def by (rule chip_ops(5) [OF assms(1) b5])
  have "in_array (int k) (nBadBlock (Nand1 e6))" using assms(5) n6 by (simp add: in_array_def)
  then have "NAND_CheckBadBlock b (int k) e = (if v \<noteq> 0xFF
         then Some (False, set_nand (\<lambda>d. d\<lparr>nBadBlock := (nBadBlock d)[k := bad_mark]\<rparr>) e6)
         else Some (True, set_nand (\<lambda>d. d\<lparr>nBadBlock := (nBadBlock d)[k := good_mark]\<rparr>) e6))"
    unfolding NAND_CheckBadBlock_def Let_def NAND_CMD_READ_C_def
    using r by (simp add: e4_def e6_def)
  then show ?thesis using v n6 s6 by (auto simp: set_nand_def marked_def)
qed

section \<open>Sectors\<close>

definition page_bytes :: "nand_state \<Rightarrow> nat \<Rightarrow> u8 list" where
  "page_bytes s q = map (pages s q) [0..<512]"

lemma page_bytes_same: "pages s' = pages s \<Longrightarrow> page_bytes s' = page_bytes s"
  by (simp add: page_bytes_def fun_eq_iff)

lemma length_page_bytes [simp]: "length (page_bytes s q) = 512"
  by (simp add: page_bytes_def)

text \<open>The first \<open>n\<close> sectors of a partition are the pages \<open>f 0\<close>, \<open>f 1\<close>, ..., different pages of blocks that work.\<close>

definition sectors :: "nand_part \<Rightarrow> 'h ez \<Rightarrow> int \<Rightarrow> (nat \<Rightarrow> nat) \<Rightarrow> nat \<Rightarrow> bool" where
  "sectors p e pnb f n \<longleftrightarrow> inj_on f {..<n} \<and>
     (\<forall>k < n. sector_page pnb (int k) e = Some (Some (int (f k))) \<and> f k < 32 * blocks p \<and> works p (f k div 32))"

lemma sector_page_same: "same_loader e e' \<Longrightarrow> sector_page pnb k e' = sector_page pnb k e"
proof -
  assume "same_loader e e'"
  then have e: "Nand1 e' = Nand1 e" "Nand1Partition e' = Nand1Partition e" by (simp_all add: same_loader_def)
  show ?thesis unfolding sector_page_def NAND_GetPageFromSector_def partition_of_def e by simp
qed

lemma partition_of_same: "same_loader e e' \<Longrightarrow> partition_of pnb e' = partition_of pnb e"
  unfolding partition_of_def same_loader_def by (elim conjE) (simp only:)

lemma sectors_same: "same_loader e e' \<Longrightarrow> sectors p e' pnb f n = sectors p e pnb f n"
  using sector_page_same [of e e'] by (simp add: sectors_def)

text \<open>What holds of the chip between two operations, and what they leave as it is.\<close>

definition ready :: "nand_part \<Rightarrow> ('h \<Rightarrow> nand_state) \<Rightarrow> 'h ez \<Rightarrow> bool" where
  "ready p st e \<longleftrightarrow> fits p e \<and> still_busy (st (e_dev e)) = 0"

lemma ready_next: "ready p st e \<Longrightarrow> same_loader e e' \<Longrightarrow> still_busy (st (e_dev e')) = 0 \<Longrightarrow> ready p st e'"
  using fits_same [of e e'] by (simp add: ready_def)

lemma WriteSector_chip:
  assumes "nand_at b p st" and "ready p st e" and "sectors p e pnb f n" and "k < n"
  shows "\<exists>e'. NAND_WriteSector b pnb (int k) q e = Some (True, e') \<and> same_loader e e' \<and> e_mem e' = e_mem e \<and> ready p st e' \<and>
    pages (st (e_dev e')) = (pages (st (e_dev e)))(f k := \<lambda>c. if c < 512
      then pages (st (e_dev e)) (f k) c AND e_mem e (q + of_nat c) else pages (st (e_dev e)) (f k) c)"
proof -
  have s: "sector_page pnb (int k) e = Some (Some (int (f k)))" "f k < 32 * blocks p" "works p (f k div 32)"
    using assms(3,4) by (simp_all add: sectors_def)
  from WritePage_chip [OF assms(1) _ _ s(2,3), of e q] assms(2) s(1) show ?thesis
    unfolding NAND_WriteSector_def ready_def by (auto simp: fits_same)
qed

lemma ReadSector_chip:
  assumes "nand_at b p st" and "ready p st e" and "sectors p e pnb f n" and "k < n"
  shows "\<exists>e'. NAND_ReadSector b pnb (int k) q e = Some (True, e') \<and> same_loader e e' \<and> ready p st e' \<and>
    pages (st (e_dev e')) = pages (st (e_dev e)) \<and> e_mem e' = write_bytes (e_mem e) q (page_bytes (st (e_dev e)) (f k))"
proof -
  have s: "sector_page pnb (int k) e = Some (Some (int (f k)))" "f k < 32 * blocks p"
    using assms(3,4) by (simp_all add: sectors_def)
  have r: "fits p e" "still_busy (st (e_dev e)) = 0" using assms(2) by (simp_all add: ready_def)
  note R = ReadPage_chip [OF assms(1) r s(2), of q]
  have "ready p st (NAND_ReadPage b (int (f k)) q e)" using assms(2) R(1,3) by (rule ready_next)
  with R s(1) show ?thesis
    unfolding NAND_ReadSector_def page_bytes_def by simp
qed

lemma UpdateProgress_frame [simp]:
  "e_dev (NandFlash_UpdateProgress t c m e) = e_dev e" "e_mem (NandFlash_UpdateProgress t c m e) = e_mem e"
  "same_loader e (NandFlash_UpdateProgress t c m e)"
  by (simp_all add: NandFlash_UpdateProgress_def Let_def same_loader_def say_def)

lemma read_bytes_append: "read_bytes m a (j + k) = read_bytes m a j @ read_bytes m (a + of_nat j) k"
  by (induction j arbitrary: a) (simp_all add: add.assoc)

text \<open>A page of blanks takes what is written.\<close>

definition blank :: "nand_state \<Rightarrow> nat \<Rightarrow> bool" where
  "blank s q \<longleftrightarrow> (\<forall>c < 512. pages s q c = 0xFF)"

lemma page_bytes_written:
  assumes "pages s' = (pages s)(q := \<lambda>c. if c < 512 then pages s q c AND m (a + of_nat c) else pages s q c)"
  shows "blank s q \<Longrightarrow> page_bytes s' q = read_bytes m a 512" and "q' \<noteq> q \<Longrightarrow> page_bytes s' q' = page_bytes s q'"
    and "q' \<noteq> q \<Longrightarrow> blank s' q' = blank s q'" and "512 \<le> c \<Longrightarrow> pages s' q' c = pages s q' c"
proof -
  show "page_bytes s' q = read_bytes m a 512" if "blank s q"
  proof (rule nth_equalityI)
    fix i assume "i < length (page_bytes s' q)"
    then have "i < 512" by simp
    moreover have "(0xFF :: u8) AND v = v" for v
    proof -
      have "(0xFF :: u8) = - 1" by simp
      then show ?thesis by (simp only:) simp
    qed
    ultimately show "page_bytes s' q ! i = read_bytes m a 512 ! i"
      using that by (simp add: page_bytes_def assms blank_def nth_read_bytes)
  qed simp
qed (simp_all add: page_bytes_def assms blank_def)

section \<open>Runs of pages\<close>

lemma program_pages_chip:
  assumes "nand_at b p st"
  shows "ready p st e \<Longrightarrow> sectors p e pnb f n \<Longrightarrow> k + m < n \<Longrightarrow> \<forall>j \<in> {k + 1..k + m}. blank (st (e_dev e)) (f j) \<Longrightarrow>
    \<exists>e'. program_pages m (int k) cnt q pnb b e = Some e' \<and> same_loader e e' \<and> e_mem e' = e_mem e \<and> ready p st e' \<and>
      concat (map (\<lambda>j. page_bytes (st (e_dev e')) (f j)) [k + 1..<k + 1 + m]) = read_bytes (e_mem e) q (512 * m) \<and>
      (\<forall>x. x \<notin> f ` {k + 1..k + m} \<longrightarrow> page_bytes (st (e_dev e')) x = page_bytes (st (e_dev e)) x \<and> blank (st (e_dev e')) x = blank (st (e_dev e)) x) \<and>
      (\<forall>x c. 512 \<le> c \<longrightarrow> pages (st (e_dev e')) x c = pages (st (e_dev e)) x c)"
proof (induction m arbitrary: k q e)
  case 0
  then show ?case by simp
next
  case (Suc m)
  obtain e0 where e0: "e0 = (if crem (int k) 128 = 0 then NandFlash_UpdateProgress ''    Writing'' (word_of_int (int k + 1)) (word_of_int cnt) e else e)"
    by blast
  have f0: "e_dev e0 = e_dev e" "e_mem e0 = e_mem e" "same_loader e e0" by (simp_all add: e0)
  have r0: "ready p st e0" using Suc.prems(1) f0(1,3) by (intro ready_next [OF Suc.prems(1)]) (simp_all add: ready_def)
  have n0: "sectors p e0 pnb f n" using Suc.prems(2) sectors_same [OF f0(3)] by simp
  let ?s = "st (e_dev e)"
  obtain e1 where e1: "NAND_WriteSector b pnb (int (k + 1)) q e0 = Some (True, e1)" "same_loader e0 e1" "e_mem e1 = e_mem e" "ready p st e1"
    "pages (st (e_dev e1)) = (pages ?s)(f (k + 1) := \<lambda>c. if c < 512
      then pages ?s (f (k + 1)) c AND e_mem e (q + of_nat c) else pages ?s (f (k + 1)) c)"
    using WriteSector_chip [OF assms r0 n0, of "k + 1" q] Suc.prems(3) unfolding f0(1,2) by auto
  note w = page_bytes_written [OF e1(5)]
  have l1: "same_loader e e1" using same_loader_trans [OF f0(3) e1(2)] .
  have n1: "sectors p e1 pnb f n" using Suc.prems(2) sectors_same [OF l1] by simp
  have inj: "f i \<noteq> f j" if "i < n" "j < n" "i \<noteq> j" for i j
    using Suc.prems(2) that by (auto simp: sectors_def inj_on_def)
  have lt: "k + 1 + m < n" using Suc.prems(3) by simp
  have bl: "\<forall>j \<in> {k + 1 + 1..k + 1 + m}. blank (st (e_dev e1)) (f j)"
    using Suc.prems(3,4) w(3) inj [of _ "k + 1"] by auto
  obtain e2 where e2: "program_pages m (int (k + 1)) cnt (q + 512) pnb b e1 = Some e2" "same_loader e1 e2" "e_mem e2 = e_mem e1" "ready p st e2"
    "concat (map (\<lambda>j. page_bytes (st (e_dev e2)) (f j)) [k + 1 + 1..<k + 1 + 1 + m]) = read_bytes (e_mem e1) (q + 512) (512 * m)"
    "\<forall>x. x \<notin> f ` {k + 1 + 1..k + 1 + m} \<longrightarrow> page_bytes (st (e_dev e2)) x = page_bytes (st (e_dev e1)) x \<and> blank (st (e_dev e2)) x = blank (st (e_dev e1)) x"
    "\<forall>x c. 512 \<le> c \<longrightarrow> pages (st (e_dev e2)) x c = pages (st (e_dev e1)) x c"
    using Suc.IH [OF e1(4) n1 lt bl, of "q + 512"] by blast
  have first: "page_bytes (st (e_dev e2)) (f (k + 1)) = read_bytes (e_mem e) q 512"
  proof -
    have "f (k + 1) \<noteq> f x" if "x \<in> {k + 1 + 1..k + 1 + m}" for x using inj [of "k + 1" x] Suc.prems(3) that by simp
    then have "f (k + 1) \<notin> f ` {k + 1 + 1..k + 1 + m}" by blast
    with e2(6) have "page_bytes (st (e_dev e2)) (f (k + 1)) = page_bytes (st (e_dev e1)) (f (k + 1))" by blast
    with w(1) Suc.prems(4) show ?thesis by auto
  qed
  have up: "[k + 1..<k + 1 + Suc m] = (k + 1) # [k + 1 + 1..<k + 1 + 1 + m]" by (simp add: upt_conv_Cons)
  have "read_bytes (e_mem e) q (512 * Suc m) = read_bytes (e_mem e) q 512 @ read_bytes (e_mem e) (q + 512) (512 * m)"
    using read_bytes_append [of "e_mem e" q 512 "512 * m"] by simp
  then have "concat (map (\<lambda>j. page_bytes (st (e_dev e2)) (f j)) [k + 1..<k + 1 + Suc m]) = read_bytes (e_mem e) q (512 * Suc m)"
    unfolding up using first e2(5) e1(3) by simp
  moreover have "program_pages (Suc m) (int k) cnt q pnb b e = Some e2"
    unfolding program_pages.simps Let_def e0 [symmetric] using e1(1) e2(1) by (simp add: add.commute)
  moreover have "page_bytes (st (e_dev e2)) x = page_bytes ?s x \<and> blank (st (e_dev e2)) x = blank ?s x" if "x \<notin> f ` {k + 1..k + Suc m}" for x
  proof -
    have x: "x \<noteq> f (k + 1)" "x \<notin> f ` {k + 1 + 1..k + 1 + m}" using that by auto
    from e2(6) [rule_format, OF x(2)] w(2,3) [OF x(1)] show ?thesis by simp
  qed
  ultimately show ?case using e2(3,4,7) e1(3) w(4) same_loader_trans [OF l1 e2(2)] by auto
qed

lemma read_pages_chip:
  assumes "nand_at b p st"
  shows "ready p st e \<Longrightarrow> sectors p e pnb f n \<Longrightarrow> k + m < n \<Longrightarrow>
    \<exists>e'. read_pages m (int k) q pnb b e = Some e' \<and> same_loader e e' \<and> ready p st e' \<and>
      pages (st (e_dev e')) = pages (st (e_dev e)) \<and>
      e_mem e' = write_bytes (e_mem e) q (concat (map (\<lambda>j. page_bytes (st (e_dev e)) (f j)) [k + 1..<k + 1 + m]))"
proof (induction m arbitrary: k q e)
  case 0
  then show ?case by simp
next
  case (Suc m)
  obtain e1 where e1: "NAND_ReadSector b pnb (int (k + 1)) q e = Some (True, e1)" "same_loader e e1" "ready p st e1"
    "pages (st (e_dev e1)) = pages (st (e_dev e))" "e_mem e1 = write_bytes (e_mem e) q (page_bytes (st (e_dev e)) (f (k + 1)))"
    using ReadSector_chip [OF assms Suc.prems(1,2), of "k + 1" q] Suc.prems(3) by auto
  have n1: "sectors p e1 pnb f n" using Suc.prems(2) sectors_same [OF e1(2)] by simp
  have lt: "k + 1 + m < n" using Suc.prems(3) by simp
  obtain e2 where e2: "read_pages m (int (k + 1)) (q + 512) pnb b e1 = Some e2" "same_loader e1 e2" "ready p st e2"
    "pages (st (e_dev e2)) = pages (st (e_dev e1))"
    "e_mem e2 = write_bytes (e_mem e1) (q + 512) (concat (map (\<lambda>j. page_bytes (st (e_dev e1)) (f j)) [k + 1 + 1..<k + 1 + 1 + m]))"
    using Suc.IH [OF e1(3) n1, of "k + 1" "q + 512"] lt by blast
  have up: "[k + 1..<k + 1 + Suc m] = (k + 1) # [k + 1 + 1..<k + 1 + 1 + m]" by (simp add: upt_conv_Cons)
  have "e_mem e2 = write_bytes (e_mem e) q (concat (map (\<lambda>j. page_bytes (st (e_dev e)) (f j)) [k + 1..<k + 1 + Suc m]))"
    unfolding up e2(5) e1(5) page_bytes_same [OF e1(4)] list.map concat.simps write_bytes_append by simp
  moreover have "read_pages (Suc m) (int k) q pnb b e = Some e2" using e1(1) e2(1) by (simp add: add.commute)
  ultimately show ?case using e2(3,4) e1(4) same_loader_trans [OF e1(2) e2(2)] by auto
qed

lemma diff_word_same: "(\<And>i. i < 4 * n \<Longrightarrow> m (a + of_nat i) = m (c + of_nat i)) \<Longrightarrow> diff_word n m a c = None"
proof (induction n arbitrary: a c)
  case (Suc n)
  have "m (a + of_nat i) = m (c + of_nat i)" if "i < 4" for i using Suc.prems that by simp
  from this [of 0] this [of 1] this [of 2] this [of 3] have "ld32 m a = ld32 m c" by (simp add: ld32_def)
  moreover have "diff_word n m (a + 4) (c + 4) = None"
  proof (rule Suc.IH)
    show "m (a + 4 + of_nat i) = m (c + 4 + of_nat i)" if "i < 4 * n" for i
      using Suc.prems [of "4 + i"] that by (simp add: add.assoc)
  qed
  ultimately show ?case by simp
qed simp

text \<open>The buffer \<open>verify_pbuf\<close> apart from the image.\<close>

lemma verify_pages_chip:
  assumes "nand_at b p st"
  shows "ready p st e \<Longrightarrow> sectors p e pnb f n \<Longrightarrow> k + m < n \<Longrightarrow>
    concat (map (\<lambda>j. page_bytes (st (e_dev e)) (f j)) [k + 1..<k + 1 + m]) = read_bytes (e_mem e) q (512 * m) \<Longrightarrow>
    0 < m \<longrightarrow> apart (obj e ''verify_pbuf'') 512 q (512 * m) \<Longrightarrow>
    \<exists>e'. verify_pages m (int k) cnt q pnb b e = Some (True, e') \<and> same_loader e e' \<and> ready p st e' \<and>
      pages (st (e_dev e')) = pages (st (e_dev e)) \<and>
      (\<forall>a. (\<forall>i < 512. a \<noteq> obj e ''verify_pbuf'' + of_nat i) \<longrightarrow> e_mem e' a = e_mem e a)"
proof (induction m arbitrary: k q e)
  case 0
  let ?e' = "say ''    Verify: OK'' [] (NandFlash_UpdateProgress ''    Verifing'' 100 100 e)"
  have "same_loader e ?e'" using UpdateProgress_frame(3) by (rule same_loader_next(3))
  moreover from this have "ready p st ?e'" using 0(1) by (intro ready_next [OF 0(1)]) (simp_all add: ready_def)
  ultimately show ?case by (intro exI [of _ ?e']) simp
next
  case (Suc m)
  let ?v = "obj e ''verify_pbuf''"
  obtain e0 where e0: "e0 = (if crem (int k) 128 = 0 then NandFlash_UpdateProgress ''    Verifing'' (word_of_int (int k + 1)) (word_of_int cnt) e else e)"
    by blast
  have f0: "e_dev e0 = e_dev e" "e_mem e0 = e_mem e" "same_loader e e0" by (simp_all add: e0)
  have r0: "ready p st e0" using Suc.prems(1) f0(1,3) by (intro ready_next [OF Suc.prems(1)]) (simp_all add: ready_def)
  have n0: "sectors p e0 pnb f n" using Suc.prems(2) sectors_same [OF f0(3)] by simp
  obtain e1 where e1: "NAND_ReadSector b pnb (int (k + 1)) ?v e0 = Some (True, e1)" "same_loader e0 e1" "ready p st e1"
    "pages (st (e_dev e1)) = pages (st (e_dev e))" "e_mem e1 = write_bytes (e_mem e) ?v (page_bytes (st (e_dev e)) (f (k + 1)))"
    using ReadSector_chip [OF assms r0 n0, of "k + 1" ?v] Suc.prems(3) unfolding f0(1,2) by auto
  have l1: "same_loader e e1" using same_loader_trans [OF f0(3) e1(2)] .
  have n1: "sectors p e1 pnb f n" using Suc.prems(2) sectors_same [OF l1] by simp
  have v0: "obj e0 ''verify_pbuf'' = ?v" using f0(3) by (simp add: same_loader_def)
  have v1: "obj e1 ''verify_pbuf'' = ?v" using l1 by (simp add: same_loader_def)
  have ap0: "apart ?v 512 q (512 * Suc m)" using Suc.prems(5) by simp
  then have ap: "unat ?v + 512 \<le> 2 ^ 32" "unat q + 512 * Suc m \<le> 2 ^ 32" by (simp_all add: apart_def)
  have up: "[k + 1..<k + 1 + Suc m] = (k + 1) # [k + 1 + 1..<k + 1 + 1 + m]" by (simp add: upt_conv_Cons)
  have "page_bytes (st (e_dev e)) (f (k + 1)) @ concat (map (\<lambda>j. page_bytes (st (e_dev e)) (f j)) [k + 1 + 1..<k + 1 + 1 + m]) =
      read_bytes (e_mem e) q 512 @ read_bytes (e_mem e) (q + 512) (512 * m)"
    using Suc.prems(4) read_bytes_append [of "e_mem e" q 512 "512 * m"] unfolding up by simp
  then have pg: "page_bytes (st (e_dev e)) (f (k + 1)) = read_bytes (e_mem e) q 512"
    "concat (map (\<lambda>j. page_bytes (st (e_dev e)) (f j)) [k + 1 + 1..<k + 1 + 1 + m]) = read_bytes (e_mem e) (q + 512) (512 * m)"
    by simp_all
  have src: "e_mem e1 (q + of_nat i) = e_mem e (q + of_nat i)" if "i < 512 * Suc m" for i
    unfolding e1(5) by (rule write_bytes_other) (use apart_neq [OF ap0 _ that] in simp)
  have "e_mem e1 (q + of_nat i) = e_mem e1 (?v + of_nat i)" if "i < 4 * 128" for i
  proof -
    have "page_bytes (st (e_dev e)) (f (k + 1)) ! i = e_mem e (q + of_nat i)" unfolding pg(1) using that by (simp add: nth_read_bytes)
    with src [of i] that write_bytes_nth [of i "page_bytes (st (e_dev e)) (f (k + 1))" "e_mem e" ?v] show ?thesis
      by (simp add: e1(5))
  qed
  then have d: "diff_word 128 (e_mem e1) q ?v = None" by (rule diff_word_same)
  have "read_bytes (e_mem e1) (q + 512) (512 * m) = read_bytes (e_mem e) (q + 512) (512 * m)"
  proof (rule read_bytes_cong)
    show "e_mem e1 (q + 512 + of_nat i) = e_mem e (q + 512 + of_nat i)" if "i < 512 * m" for i
      using src [of "512 + i"] that by (simp add: add.assoc)
  qed
  with pg(2) have c1: "concat (map (\<lambda>j. page_bytes (st (e_dev e1)) (f j)) [k + 1 + 1..<k + 1 + 1 + m]) = read_bytes (e_mem e1) (q + 512) (512 * m)"
    using page_bytes_same [OF e1(4)] by simp
  have ap1: "0 < m \<longrightarrow> apart (obj e1 ''verify_pbuf'') 512 (q + 512) (512 * m)"
    using ap0 ap unat_plus_small [of q 512] unfolding v1 apart_def by auto
  have lt: "k + 1 + m < n" using Suc.prems(3) by simp
  from Suc.IH [OF e1(3) n1 lt c1 ap1] obtain e2 where e2: "verify_pages m (int (k + 1)) cnt (q + 512) pnb b e1 = Some (True, e2)"
    "same_loader e1 e2" "ready p st e2" "pages (st (e_dev e2)) = pages (st (e_dev e1))"
    "\<And>a. \<forall>i < 512. a \<noteq> ?v + of_nat i \<Longrightarrow> e_mem e2 a = e_mem e1 a" unfolding v1 by blast
  have "verify_pages (Suc m) (int k) cnt q pnb b e = Some (True, e2)"
    unfolding verify_pages.simps Let_def e0 [symmetric] using e1(1) e2(1) d v0 by (simp add: add.commute)
  moreover have "e_mem e2 a = e_mem e a" if "\<forall>i < 512. a \<noteq> ?v + of_nat i" for a
  proof -
    have "e_mem e1 a = e_mem e a" unfolding e1(5) by (rule write_bytes_other) (use that in force)
    with e2(5) [OF that] show ?thesis by simp
  qed
  ultimately show ?case using e2(3,4) e1(4) same_loader_trans [OF l1 e2(2)] by auto
qed

section \<open>Partitions\<close>

text \<open>The blocks below \<open>n\<close> without a mark.\<close>

definition goods :: "nand_state \<Rightarrow> nat \<Rightarrow> nat list" where
  "goods s n = filter (\<lambda>k. \<not> marked s k) [0..<n]"

lemma marked_same: "(\<And>x c. 512 \<le> c \<Longrightarrow> pages s' x c = pages s x c) \<Longrightarrow> marked s' = marked s"
  by (auto simp: marked_def fun_eq_iff)

text \<open>
  After the start: the kernel partition of \<open>c0\<close> blocks and the ramdisk partition of \<open>c1\<close> behind it, their bad blocks known
  and the table of virtual blocks filled; the chip's blocks without a mark work.
\<close>

definition scanned :: "nand_part \<Rightarrow> nand_state \<Rightarrow> 'h ez \<Rightarrow> nat \<Rightarrow> nat \<Rightarrow> bool" where
  "scanned p s e c0 c1 \<longleftrightarrow>
     nPartition (Nand1 e) \<and> 2 \<le> nPartitionNR (Nand1 e) \<and> 2 \<le> length (Nand1Partition e) \<and>
     Nand1Partition e ! 0 = par 0 (int c0) \<and> Nand1Partition e ! 1 = par (int c0) (int c1) \<and>
     c0 + c1 \<le> blocks p \<and> c0 + c1 \<le> 8192 \<and> c0 + c1 \<le> length (nBadBlock (Nand1 e)) \<and>
     (\<forall>k < c0 + c1. (nBadBlock (Nand1 e) ! k = bad_mark) = marked s k) \<and>
     (\<exists>R. nVirBlock (Nand1 e) = map of_nat (goods s (c0 + c1)) @ R) \<and>
     (\<forall>k < c0 + c1. \<not> marked s k \<longrightarrow> works p k)"

lemma scanned_same: "same_loader e e' \<Longrightarrow> marked s' = marked s \<Longrightarrow> scanned p s' e' c0 c1 = scanned p s e c0 c1"
  by (simp add: scanned_def same_loader_def goods_def)

text \<open>The page of a sector of the partition that starts at block \<open>base\<close>.\<close>

definition page_at :: "nand_state \<Rightarrow> nat \<Rightarrow> nat \<Rightarrow> nat \<Rightarrow> nat" where
  "page_at s n base k = goods s n ! (base + k div 32) * 32 + k mod 32"

lemma page_at_block [simp]: "page_at s n base k div 32 = goods s n ! (base + k div 32)" "page_at s n base k mod 32 = k mod 32"
  by (simp_all add: page_at_def)

lemma goods_nth: "i < length (goods s n) \<Longrightarrow> goods s n ! i < n \<and> \<not> marked s (goods s n ! i)"
  using nth_mem [of i "goods s n"] by (simp add: goods_def)

lemma sectors_of_partition:
  assumes "scanned p s e c0 c1" and "partition_of pnb e = Some (par (int base) (int cnt))" and "pnb < 2"
    and "\<And>k. k < n \<Longrightarrow> base + k div 32 < length (goods s (c0 + c1))"
    and "\<And>k. k < n \<Longrightarrow> base \<le> goods s (c0 + c1) ! (base + k div 32) \<and> goods s (c0 + c1) ! (base + k div 32) < base + cnt"
  shows "sectors p e pnb (page_at s (c0 + c1) base) n"
  unfolding sectors_def
proof (intro conjI allI impI)
  let ?G = "goods s (c0 + c1)"
  obtain R where R: "nVirBlock (Nand1 e) = map of_nat ?G @ R" using assms(1) by (auto simp: scanned_def)
  have d: "distinct ?G" by (simp add: goods_def)
  have small: "g < 65535" if "g \<in> set ?G" for g using that assms(1) by (auto simp: goods_def scanned_def)
  show "inj_on (page_at s (c0 + c1) base) {..<n}"
  proof (rule inj_onI)
    fix x y assume "x \<in> {..<n}" "y \<in> {..<n}" and eq: "page_at s (c0 + c1) base x = page_at s (c0 + c1) base y"
    then have "?G ! (base + x div 32) = ?G ! (base + y div 32)" "x mod 32 = y mod 32"
      using page_at_block [of s "c0 + c1" base x] page_at_block [of s "c0 + c1" base y] by metis+
    with \<open>x \<in> {..<n}\<close> \<open>y \<in> {..<n}\<close> assms(4) have "x div 32 = y div 32" by (auto simp: nth_eq_iff_index_eq [OF d])
    with \<open>x mod 32 = y mod 32\<close> show "x = y" by (metis div_mult_mod_eq)
  qed
  fix k assume k: "k < n"
  have nr: "pnb < nPartitionNR (Nand1 e)" using assms(1,3) by (simp add: scanned_def)
  have i: "nat (int base + int k div 32) = base + k div 32" by (simp add: nat_add_distrib zdiv_int [symmetric])
  from sector_page_eq [OF R small assms(2) nr, of "int k"] assms(4,5) [OF k]
  show "sector_page pnb (int k) e = Some (Some (int (page_at s (c0 + c1) base k)))"
    unfolding page_at_def by (simp add: i Let_def zmod_int)
  have g: "?G ! (base + k div 32) < c0 + c1" "\<not> marked s (?G ! (base + k div 32))" using goods_nth [OF assms(4) [OF k]] by blast+
  then have "?G ! (base + k div 32) < blocks p" using assms(1) by (simp add: scanned_def)
  moreover have "k mod 32 < 32" by simp
  ultimately show "page_at s (c0 + c1) base k < 32 * blocks p" unfolding page_at_def by linarith
  show "works p (page_at s (c0 + c1) base k div 32)" using g assms(1) by (simp add: scanned_def)
qed

lemma erase_loop_chip:
  assumes "nand_at b p st"
  shows "ready p st e \<Longrightarrow> lo + n \<le> c0 + c1 \<Longrightarrow> scanned p (st (e_dev e)) e c0 c1 \<Longrightarrow>
    \<exists>e'. erase_partition_loop n loop (int lo) cnt True b e = Some e' \<and> same_loader e e' \<and> e_mem e' = e_mem e \<and> ready p st e' \<and>
      pages (st (e_dev e')) = (\<lambda>q. if lo \<le> q div 32 \<and> q div 32 < lo + n \<and> \<not> marked (st (e_dev e)) (q div 32)
        then \<lambda>c. 0xFF else pages (st (e_dev e)) q) \<and>
      marked (st (e_dev e')) = marked (st (e_dev e))"
proof (induction n arbitrary: lo loop e)
  case 0
  then show ?case by (auto simp: fun_eq_iff)
next
  case (Suc n)
  let ?s = "st (e_dev e)"
  obtain e0 where e0: "e0 = NandFlash_UpdateProgress ''    Erasing'' (word_of_int (loop + 1)) (word_of_int cnt) e" by blast
  have f0: "e_dev e0 = e_dev e" "e_mem e0 = e_mem e" "same_loader e e0" by (simp_all add: e0)
  have r0: "ready p st e0" using Suc.prems(1) f0(1,3) by (intro ready_next [OF Suc.prems(1)]) (simp_all add: ready_def)
  have n0: "nBadBlock (Nand1 e0) = nBadBlock (Nand1 e)" using f0(3) by (simp add: same_loader_def)
  have arr: "in_array (int lo) (nBadBlock (Nand1 e))" and mk: "(nBadBlock (Nand1 e) ! lo = bad_mark) = marked ?s lo"
    using Suc.prems(2,3) by (simp_all add: scanned_def in_array_def)
  have "\<exists>e1. (if nBadBlock (Nand1 e0) ! lo \<noteq> bad_mark then do { (_, e) \<leftarrow> NAND_EraseBlock b (int lo) e0; Some e } else Some e0) = Some e1 \<and>
      same_loader e e1 \<and> e_mem e1 = e_mem e \<and> ready p st e1 \<and>
      pages (st (e_dev e1)) = (\<lambda>q. if q div 32 = lo \<and> \<not> marked ?s lo then \<lambda>c. 0xFF else pages ?s q)"
  proof (cases "marked ?s lo")
    case True
    with mk n0 f0 r0 show ?thesis by simp
  next
    case False
    have w: "lo < blocks p" "works p lo" using Suc.prems(2,3) False by (simp_all add: scanned_def)
    have "fits p e0" "still_busy (st (e_dev e0)) = 0" using r0 by (simp_all add: ready_def)
    from EraseBlock_chip [OF assms this w] obtain e1 where e1: "NAND_EraseBlock b (int lo) e0 = Some (True, e1)" "same_loader e0 e1"
      "e_mem e1 = e_mem e" "still_busy (st (e_dev e1)) = 0" "pages (st (e_dev e1)) = (\<lambda>q. if q div 32 = lo then \<lambda>c. 0xFF else pages ?s q)"
      unfolding f0(1,2) by blast
    with mk n0 False same_loader_trans [OF f0(3) e1(2)] ready_next [OF r0 e1(2,4)] show ?thesis by (auto cong: if_cong)
  qed
  then obtain e1 where e1: "(if nBadBlock (Nand1 e0) ! lo \<noteq> bad_mark then do { (_, e) \<leftarrow> NAND_EraseBlock b (int lo) e0; Some e } else Some e0) = Some e1"
    "same_loader e e1" "e_mem e1 = e_mem e" "ready p st e1"
    "pages (st (e_dev e1)) = (\<lambda>q. if q div 32 = lo \<and> \<not> marked ?s lo then \<lambda>c. 0xFF else pages ?s q)" by blast
  have m1: "marked (st (e_dev e1)) = marked ?s" by (auto simp: marked_def fun_eq_iff e1(5))
  have s1: "scanned p (st (e_dev e1)) e1 c0 c1" using Suc.prems(3) scanned_same [OF e1(2) m1] by simp
  have le: "Suc lo + n \<le> c0 + c1" using Suc.prems(2) by simp
  obtain e2 where e2: "erase_partition_loop n (loop + 1) (int (Suc lo)) cnt True b e1 = Some e2" "same_loader e1 e2" "e_mem e2 = e_mem e1"
    "ready p st e2" "pages (st (e_dev e2)) = (\<lambda>q. if Suc lo \<le> q div 32 \<and> q div 32 < Suc lo + n \<and> \<not> marked ?s (q div 32)
        then \<lambda>c. 0xFF else pages (st (e_dev e1)) q)" "marked (st (e_dev e2)) = marked ?s"
    using Suc.IH [OF e1(4) le s1, of "loop + 1"] unfolding m1 by blast
  have "erase_partition_loop (Suc n) loop (int lo) cnt True b e = Some e2"
    unfolding erase_partition_loop.simps Let_def e0 [symmetric] using e1(1) e2(1) arr n0 by (simp add: add.commute)
  moreover have "pages (st (e_dev e2)) = (\<lambda>q. if lo \<le> q div 32 \<and> q div 32 < lo + Suc n \<and> \<not> marked ?s (q div 32)
        then \<lambda>c. 0xFF else pages ?s q)"
    unfolding e2(5) e1(5) by (auto simp: fun_eq_iff) (metis Suc_leI le_neq_implies_less)+
  ultimately show ?case using e2(3,4,6) e1(3) same_loader_trans [OF e1(2) e2(2)] by auto
qed

text \<open>The pages of an image; the page before them holds its size.\<close>

definition image_pages :: "nat \<Rightarrow> nat" where
  "image_pages sz = (sz + 511) div 512"

lemma image_pages_le: "sz \<le> 512 * image_pages sz" "512 * image_pages sz \<le> sz + 511"
  unfolding image_pages_def by linarith+

lemma pages_of_image: "sz < 2 ^ 31 - 511 \<Longrightarrow> pages_of (int sz) = int (image_pages sz)"
  by (simp add: pages_of_def image_pages_def zdiv_int)

lemma program_partition_chip:
  fixes src :: u32
  assumes "nand_at b p st" and "ready p st e" and "sectors p e pnb f n" and "0 \<le> pnb" and "pnb \<le> 3"
    and "sz < 2 ^ 31 - 511" and "image_pages sz < n" and "\<And>k. k \<le> image_pages sz \<Longrightarrow> blank (st (e_dev e)) (f k)"
  defines "m \<equiv> st32 (e_mem e) (obj e ''page_buff'') (of_nat sz)"
  shows "\<exists>e'. Nand_ProgramPartition b pnb src (int sz) e = Some (int sz, e') \<and> same_loader e e' \<and> ready p st e' \<and> e_mem e' = m \<and>
    page_bytes (st (e_dev e')) (f 0) = read_bytes m (obj e ''page_buff'') 512 \<and>
    concat (map (\<lambda>k. page_bytes (st (e_dev e')) (f k)) [1..<1 + image_pages sz]) = read_bytes m src (512 * image_pages sz) \<and>
    marked (st (e_dev e')) = marked (st (e_dev e)) \<and>
    (\<forall>x. x \<notin> f ` {..<n} \<longrightarrow> page_bytes (st (e_dev e')) x = page_bytes (st (e_dev e)) x)"
proof -
  let ?pb = "obj e ''page_buff''" let ?s = "st (e_dev e)" let ?n = "image_pages sz"
  define e0 where "e0 = with_mem (\<lambda>m. st32 m ?pb (word_of_int (int sz))) e"
  have f0: "e_dev e0 = e_dev e" "e_mem e0 = m" "same_loader e e0" by (simp_all add: e0_def m_def)
  have r0: "ready p st e0" using f0(1,3) assms(2) by (intro ready_next [OF assms(2)]) (simp_all add: ready_def)
  have n0: "sectors p e0 pnb f n" using assms(3) sectors_same [OF f0(3)] by simp
  have "0 < n" using assms(7) by simp
  from WriteSector_chip [OF assms(1) r0 n0 this, of ?pb] obtain e1 where e1: "NAND_WriteSector b pnb 0 ?pb e0 = Some (True, e1)" "same_loader e0 e1"
    "e_mem e1 = m" "ready p st e1" "pages (st (e_dev e1)) = (pages ?s)(f 0 := \<lambda>c. if c < 512
      then pages ?s (f 0) c AND m (?pb + of_nat c) else pages ?s (f 0) c)"
    unfolding f0(1,2) by auto
  note w = page_bytes_written [OF e1(5)]
  have l1: "same_loader e e1" using same_loader_trans [OF f0(3) e1(2)] .
  have n1: "sectors p e1 pnb f n" using assms(3) sectors_same [OF l1] by simp
  have inj: "f 0 \<noteq> f j" if "0 < j" "j < n" for j using assms(3) that by (auto simp: sectors_def inj_on_def)
  have bl: "\<forall>j \<in> {0 + 1..0 + ?n}. blank (st (e_dev e1)) (f j)"
  proof
    fix j assume "j \<in> {0 + 1..0 + ?n}"
    then have "0 < j" "j < n" "j \<le> ?n" using assms(7) by auto
    then show "blank (st (e_dev e1)) (f j)" using w(3) inj [of j] assms(8) by metis
  qed
  have lt: "0 + ?n < n" using assms(7) by simp
  from program_pages_chip [OF assms(1) e1(4) n1 lt bl, of "pages_of (int sz)" src] obtain e2 where
    e2: "program_pages ?n 0 (pages_of (int sz)) src pnb b e1 = Some e2" "same_loader e1 e2" "e_mem e2 = m" "ready p st e2"
      "concat (map (\<lambda>j. page_bytes (st (e_dev e2)) (f j)) [1..<1 + ?n]) = read_bytes m src (512 * ?n)"
      "\<forall>x. x \<notin> f ` {1..?n} \<longrightarrow> page_bytes (st (e_dev e2)) x = page_bytes (st (e_dev e1)) x \<and> blank (st (e_dev e2)) x = blank (st (e_dev e1)) x"
      "\<And>x c. 512 \<le> c \<Longrightarrow> pages (st (e_dev e2)) x c = pages (st (e_dev e1)) x c"
    unfolding e1(3) by auto
  have "f 0 \<notin> f ` {1..?n}"
  proof
    assume "f 0 \<in> f ` {1..?n}"
    then obtain j where "f 0 = f j" "0 < j" "j < n" using assms(7) by auto
    with inj show False by blast
  qed
  with e2(6) w(1) assms(8) [of 0] have h: "page_bytes (st (e_dev e2)) (f 0) = read_bytes m ?pb 512" by simp
  define e3 where "e3 = say ''    Write : OK'' [] (NandFlash_UpdateProgress ''    Writing'' 100 100 e2)"
  have f3: "e_dev e3 = e_dev e2" "e_mem e3 = m" by (simp_all add: e3_def e2(3))
  have l3: "same_loader e e3" unfolding e3_def
    using same_loader_trans [OF same_loader_trans [OF l1 e2(2)] same_loader_next(3) [OF UpdateProgress_frame(3)]] .
  have "Nand_ProgramPartition b pnb src (int sz) e = Some (int sz, e3)"
    unfolding Nand_ProgramPartition_def Let_def e0_def [symmetric] pages_of_image [OF assms(6)] e3_def
    using assms(4,5) e1(1) e2(1) by (simp add: USE_PARTITION_MAX_def pages_of_image [OF assms(6)])
  moreover have "ready p st e3" using e2(4) f3(1) fits_same [OF l3] assms(2) by (simp add: ready_def)
  moreover have "marked (st (e_dev e3)) = marked ?s" unfolding f3(1) by (rule marked_same) (simp add: e2(7) w(4))
  moreover have "page_bytes (st (e_dev e3)) x = page_bytes ?s x" if "x \<notin> f ` {..<n}" for x
  proof -
    have "x \<noteq> f 0" "x \<notin> f ` {1..?n}" using that assms(7) by auto
    with e2(6) w(2) show ?thesis unfolding f3(1) by simp
  qed
  ultimately show ?thesis using f3 l3 e2(5) h by auto
qed

lemma concat_pages_take:
  "k \<le> n \<Longrightarrow> concat (map (\<lambda>j. page_bytes s (f j)) [1..<1 + k]) = take (512 * k) (concat (map (\<lambda>j. page_bytes s (f j)) [1..<1 + n]))"
proof -
  assume "k \<le> n"
  then have up: "[1..<1 + n] = [1..<1 + k] @ [1 + k..<1 + n]" by (metis add_le_cancel_left le_add1 le_Suc_ex upt_add_eq_append)
  have len: "length (concat (map (\<lambda>j. page_bytes s (f j)) xs)) = 512 * length xs" for xs :: "nat list" by (induction xs) simp_all
  show ?thesis unfolding up map_append concat_append using len [of "[1..<1 + k]"] by simp
qed

lemma ld32_written: "length bs \<le> 2 ^ 32 \<Longrightarrow> 4 \<le> length bs \<Longrightarrow> bs = read_bytes m a (length bs) \<Longrightarrow> ld32 (write_bytes m' q bs) q = ld32 m a"
proof -
  assume l: "length bs \<le> 2 ^ 32" "4 \<le> length bs" and bs: "bs = read_bytes m a (length bs)"
  have "write_bytes m' q bs (q + of_nat i) = m (a + of_nat i)" if "i < 4" for i
    using write_bytes_nth [of i bs m' q] nth_read_bytes [of i "length bs" m a] that l bs by simp
  from this [of 0] this [of 1] this [of 2] this [of 3] show ?thesis by (simp add: ld32_def)
qed

lemma read_partition_chip:
  fixes dst :: u32
  assumes "nand_at b p st" and "ready p st e" and "sectors p e pnb f n" and "partition_of pnb e = Some (par base (int cnt))"
    and "cnt \<le> 8192" and "n \<le> 32 * cnt" and "sz < 2 ^ 31 - 511" and "image_pages sz < n"
    and "page_bytes (st (e_dev e)) (f 0) = read_bytes m0 a0 512" and "ld32 m0 a0 = of_nat sz"
    and "concat (map (\<lambda>k. page_bytes (st (e_dev e)) (f k)) [1..<1 + image_pages sz]) = data" and "limit < 2 ^ 31"
  defines "r \<equiv> min limit sz"
  shows "\<exists>e'. Nand_ReadPartition b pnb dst (int limit) e = Some (int r, e') \<and> same_loader e e' \<and> ready p st e' \<and>
    pages (st (e_dev e')) = pages (st (e_dev e)) \<and>
    e_mem e' = write_bytes (write_bytes (e_mem e) (obj e ''page_buff'') (read_bytes m0 a0 512)) dst (take (512 * image_pages r) data)"
proof -
  let ?pb = "obj e ''page_buff''" let ?n = "image_pages sz" let ?k = "image_pages r"
  have "0 < n" using assms(8) by simp
  from ReadSector_chip [OF assms(1-3) this, of ?pb] obtain e1 where e1: "NAND_ReadSector b pnb 0 ?pb e = Some (True, e1)" "same_loader e e1"
    "ready p st e1" "pages (st (e_dev e1)) = pages (st (e_dev e))" "e_mem e1 = write_bytes (e_mem e) ?pb (read_bytes m0 a0 512)"
    using assms(9) by auto
  have n1: "sectors p e1 pnb f n" using assms(3) sectors_same [OF e1(2)] by simp
  have "ld32 (e_mem e1) ?pb = of_nat sz" unfolding e1(5) using ld32_written [of "read_bytes m0 a0 512" m0 a0 "e_mem e" ?pb] assms(10) by simp
  then have st: "sint (ld32 (e_mem e1) ?pb) = int sz" using assms(7) by (simp add: signed_of_nat signed_take_bit_int_eq_self)
  have p1: "partition_of pnb e1 = Some (par base (int cnt))" using assms(4) partition_of_same [OF e1(2)] by simp
  have k: "?k \<le> ?n" "?k \<le> 32 * cnt" "r < 2 ^ 31 - 511" using assms(6,7,8) by (auto simp: r_def image_pages_def intro: div_le_mono)
  have pc: "min (pages_of (int r)) (wrap32 (int cnt * 32)) = int ?k"
    using assms(5) k by (simp add: pages_of_image)
  have lt: "0 + ?k < n" using k(1) assms(8) by simp
  from read_pages_chip [OF assms(1) e1(3) n1 lt, of dst] obtain e2 where e2: "read_pages ?k 0 dst pnb b e1 = Some e2" "same_loader e1 e2"
    "ready p st e2" "pages (st (e_dev e2)) = pages (st (e_dev e1))"
    "e_mem e2 = write_bytes (e_mem e1) dst (concat (map (\<lambda>j. page_bytes (st (e_dev e1)) (f j)) [1..<1 + ?k]))" by auto
  have "(if int limit > int sz then int sz else int limit) = int r" by (simp add: r_def)
  then have "Nand_ReadPartition b pnb dst (int limit) e = Some (int r, e2)"
    unfolding Nand_ReadPartition_def Let_def using e1(1) e2(1) st p1 pc by (cases "sz < limit") (simp_all add: r_def)
  moreover have "e_mem e2 = write_bytes (write_bytes (e_mem e) ?pb (read_bytes m0 a0 512)) dst (take (512 * ?k) data)"
    unfolding e2(5) e1(5) page_bytes_same [OF e1(4)] concat_pages_take [OF k(1)] assms(11) ..
  ultimately show ?thesis using e2(3,4) e1(4) same_loader_trans [OF e1(2) e2(2)] by auto
qed

text \<open>The whole of \<open>CopyTo_NandFlash_Kernel\<close> and its ramdisk twin.\<close>

lemma copy_to_nand_chip:
  fixes src :: u32
  assumes "nand_at b p st" and "ready p st e" and "scanned p (st (e_dev e)) e c0 c1"
    and "partition_of pnb e = Some (par (int base) (int cnt))" and "0 \<le> pnb" and "pnb < 2" and "base + cnt \<le> c0 + c1"
    and "\<And>k. k < n \<Longrightarrow> base + k div 32 < length (goods (st (e_dev e)) (c0 + c1))"
    and "\<And>k. k < n \<Longrightarrow> base \<le> goods (st (e_dev e)) (c0 + c1) ! (base + k div 32) \<and> goods (st (e_dev e)) (c0 + c1) ! (base + k div 32) < base + cnt"
    and "sz < 2 ^ 31 - 511" and "image_pages sz < n"
    and "0 < sz \<Longrightarrow> apart (obj e ''verify_pbuf'') 512 src (512 * image_pages sz)"
    and "0 < sz \<Longrightarrow> apart (obj e ''page_buff'') 4 src (512 * image_pages sz)"
  defines "f \<equiv> page_at (st (e_dev e)) (c0 + c1) base" and "m \<equiv> st32 (e_mem e) (obj e ''page_buff'') (of_nat sz)"
  shows "\<exists>e'. copy_to_nand b pnb src (int sz) e = Some (int sz, e') \<and> same_loader e e' \<and> ready p st e' \<and>
    marked (st (e_dev e')) = marked (st (e_dev e)) \<and>
    page_bytes (st (e_dev e')) (f 0) = read_bytes m (obj e ''page_buff'') 512 \<and>
    concat (map (\<lambda>k. page_bytes (st (e_dev e')) (f k)) [1..<1 + image_pages sz]) = read_bytes (e_mem e) src (512 * image_pages sz) \<and>
    (\<forall>x. \<not> (base \<le> x div 32 \<and> x div 32 < base + cnt) \<longrightarrow> page_bytes (st (e_dev e')) x = page_bytes (st (e_dev e)) x) \<and>
    (\<forall>a. (\<forall>i < 512. a \<noteq> obj e ''verify_pbuf'' + of_nat i) \<longrightarrow> e_mem e' a = m a)"
proof -
  let ?s = "st (e_dev e)" let ?G = "goods ?s (c0 + c1)" let ?n = "image_pages sz" let ?v = "obj e ''verify_pbuf''"
  have sec: "sectors p e pnb f n" unfolding f_def by (rule sectors_of_partition [OF assms(3,4,6,8,9)])
  obtain e1 where e1: "erase_partition_loop cnt 0 (int base) (int cnt) True b e = Some e1" "same_loader e e1" "e_mem e1 = e_mem e" "ready p st e1"
    "pages (st (e_dev e1)) = (\<lambda>q. if base \<le> q div 32 \<and> q div 32 < base + cnt \<and> \<not> marked ?s (q div 32) then \<lambda>c. 0xFF else pages ?s q)"
    "marked (st (e_dev e1)) = marked ?s"
    using erase_loop_chip [OF assms(1,2,7,3), of 0 "int cnt"] by blast
  define e2 where "e2 = say ''    Erase : OK'' [] (NandFlash_UpdateProgress ''    Erasing'' 100 100 e1)"
  have f2: "e_dev e2 = e_dev e1" "e_mem e2 = e_mem e" by (simp_all add: e2_def e1(3))
  have l2: "same_loader e e2" unfolding e2_def using same_loader_trans [OF e1(2) same_loader_next(3) [OF UpdateProgress_frame(3)]] .
  have er: "Nand_ErasePartition b pnb True e = Some (True, e2)"
    unfolding Nand_ErasePartition_def assms(4) e2_def by (simp add: e1(1))
  have r2: "ready p st e2" using e1(4) f2(1) fits_same [OF l2] assms(2) by (simp add: ready_def)
  have n2: "sectors p e2 pnb f n" using sec sectors_same [OF l2] by simp
  have bl: "blank (st (e_dev e2)) (f k)" if "k \<le> ?n" for k
  proof -
    have k: "k < n" using that assms(11) by simp
    have "f k div 32 = ?G ! (base + k div 32)" by (simp add: f_def)
    moreover have "\<not> marked ?s (?G ! (base + k div 32))" using goods_nth [OF assms(8) [OF k]] by blast
    ultimately show ?thesis using assms(9) [OF k] unfolding f2(1) blank_def e1(5) by simp
  qed
  have o2: "obj e2 x = obj e x" for x using l2 by (simp add: same_loader_def)
  have pn: "pnb \<le> 3" using assms(6) by simp
  obtain e3 where e3: "Nand_ProgramPartition b pnb src (int sz) e2 = Some (int sz, e3)" "same_loader e2 e3" "ready p st e3" "e_mem e3 = m"
    "page_bytes (st (e_dev e3)) (f 0) = read_bytes m (obj e ''page_buff'') 512"
    "concat (map (\<lambda>k. page_bytes (st (e_dev e3)) (f k)) [1..<1 + ?n]) = read_bytes m src (512 * ?n)"
    "marked (st (e_dev e3)) = marked (st (e_dev e2))" "\<And>x. x \<notin> f ` {..<n} \<Longrightarrow> page_bytes (st (e_dev e3)) x = page_bytes (st (e_dev e2)) x"
    using program_partition_chip [OF assms(1) r2 n2 assms(5) pn assms(10,11) bl, of src] unfolding f2(2) o2 m_def by blast
  have l3: "same_loader e e3" using same_loader_trans [OF l2 e3(2)] .
  have n3: "sectors p e3 pnb f n" using sec sectors_same [OF l3] by simp
  have o3: "obj e3 x = obj e x" for x using l3 by (simp add: same_loader_def)
  have img: "read_bytes m src (512 * ?n) = read_bytes (e_mem e) src (512 * ?n)"
  proof (rule read_bytes_cong)
    fix i assume i: "i < 512 * ?n"
    then have "0 < sz" using image_pages_le(2) [of sz] by (cases "sz = 0") (simp_all add: image_pages_def)
    note ap = apart_neq [OF assms(13) [OF this] _ i]
    have "src + of_nat i \<notin> word_bytes (obj e ''page_buff'')"
      using ap [of 0] ap [of 1] ap [of 2] ap [of 3] by (auto simp: word_bytes_def)
    then show "m (src + of_nat i) = e_mem e (src + of_nat i)" unfolding m_def by (rule st32_other)
  qed
  have ap3: "0 < ?n \<longrightarrow> apart (obj e3 ''verify_pbuf'') 512 src (512 * ?n)"
    using assms(12) unfolding o3 by (cases "sz = 0") (simp_all add: image_pages_def)
  have "0 + ?n < n" using assms(11) by simp
  from verify_pages_chip [OF assms(1) e3(3) n3 this _ ap3, of "pages_of (int sz)"] obtain e4 where
    e4: "verify_pages ?n 0 (pages_of (int sz)) src pnb b e3 = Some (True, e4)" "same_loader e3 e4" "ready p st e4"
      "pages (st (e_dev e4)) = pages (st (e_dev e3))" "\<And>a. \<forall>i < 512. a \<noteq> ?v + of_nat i \<Longrightarrow> e_mem e4 a = m a"
    using e3(4,6) unfolding o3 by auto
  have "Nand_VerifyPartition b pnb src (int sz) e3 = Some (True, e4)"
    unfolding Nand_VerifyPartition_def pages_of_image [OF assms(10)] using e4(1) by (simp add: pages_of_image [OF assms(10)])
  then have "copy_to_nand b pnb src (int sz) e = Some (int sz, e4)" unfolding copy_to_nand_def by (simp add: er e3(1))
  moreover have "marked (st (e_dev e4)) = marked ?s" using e3(7) e1(6) f2(1) by (simp add: marked_def e4(4) fun_eq_iff)
  moreover have "page_bytes (st (e_dev e4)) x = page_bytes ?s x" if x: "\<not> (base \<le> x div 32 \<and> x div 32 < base + cnt)" for x
  proof -
    have "x \<notin> f ` {..<n}" using x assms(9) unfolding f_def by auto
    then have "page_bytes (st (e_dev e4)) x = page_bytes (st (e_dev e2)) x" using e3(8) page_bytes_same [OF e4(4)] by simp
    also have "\<dots> = page_bytes ?s x" using x unfolding f2(1) page_bytes_def e1(5) by auto
    finally show ?thesis .
  qed
  ultimately show ?thesis using e3(5,6) e4(3,5) img same_loader_trans [OF l3 e4(2)]
    by (intro exI [of _ e4]) (simp add: page_bytes_same [OF e4(4)])
qed

section \<open>The start\<close>

lemma scan_blocks_chip:
  assumes "nand_at b p st"
  shows "ready p st e \<Longrightarrow> i + n \<le> blocks p \<Longrightarrow> i + n \<le> length (nBadBlock (Nand1 e)) \<Longrightarrow>
    \<exists>e' cnt. scan_blocks n (int i) b e = Some e' \<and> ready p st e' \<and> pages (st (e_dev e')) = pages (st (e_dev e)) \<and>
      Nand1 e' = (Nand1 e)\<lparr>nBadBlock := take i (nBadBlock (Nand1 e)) @
        map (\<lambda>k. if marked (st (e_dev e)) k then bad_mark else good_mark) [i..<i + n] @ drop (i + n) (nBadBlock (Nand1 e)),
        nBadBlockCount := cnt\<rparr> \<and>
      Nand1Partition e' = Nand1Partition e \<and> e_addr e' = e_addr e \<and> e_mem e' = e_mem e"
proof (induction n arbitrary: i e)
  case 0
  have "Nand1 e = (Nand1 e)\<lparr>nBadBlock := nBadBlock (Nand1 e), nBadBlockCount := nBadBlockCount (Nand1 e)\<rparr>" by simp
  with 0 show ?case by (intro exI [of _ e] exI [of _ "nBadBlockCount (Nand1 e)"]) simp
next
  case (Suc n)
  let ?B = "nBadBlock (Nand1 e)" let ?s = "st (e_dev e)" let ?mk = "\<lambda>k. if marked ?s k then bad_mark else good_mark"
  have f: "fits p e" "still_busy ?s = 0" using Suc.prems(1) by (simp_all add: ready_def)
  obtain e1 where e1: "NAND_CheckBadBlock b (int i) e = Some (\<not> marked ?s i, e1)" "Nand1 e1 = (Nand1 e)\<lparr>nBadBlock := ?B[i := ?mk i]\<rparr>"
    "Nand1Partition e1 = Nand1Partition e" "e_addr e1 = e_addr e" "e_mem e1 = e_mem e" "still_busy (st (e_dev e1)) = 0" "pages (st (e_dev e1)) = pages ?s"
    using CheckBadBlock_chip [OF assms f, of i] Suc.prems(2,3) by auto
  define e2 where "e2 = (if marked ?s i then set_nand (\<lambda>d. d\<lparr>nBadBlockCount := nBadBlockCount d + 1\<rparr>) e1 else e1)"
  have e2: "e_dev e2 = e_dev e1" "Nand1Partition e2 = Nand1Partition e" "e_addr e2 = e_addr e" "e_mem e2 = e_mem e"
    "nBadBlock (Nand1 e2) = ?B[i := ?mk i]" by (auto simp: e2_def set_nand_def e1)
  have n2: "\<exists>c. Nand1 e2 = (Nand1 e)\<lparr>nBadBlock := ?B[i := ?mk i], nBadBlockCount := c\<rparr>"
    by (rule exI [of _ "if marked ?s i then nBadBlockCount (Nand1 e) + 1 else nBadBlockCount (Nand1 e)"]) (simp add: e2_def set_nand_def e1)
  have r2: "ready p st e2" using f e2(1) n2 e1(6) by (auto simp: ready_def fits_def)
  have m2: "marked (st (e_dev e2)) = marked ?s" using e1(7) e2(1) by (simp add: marked_def fun_eq_iff)
  have le: "Suc i + n \<le> blocks p" "Suc i + n \<le> length (nBadBlock (Nand1 e2))" using Suc.prems(2,3) e2(5) by simp_all
  obtain e' cnt where e': "scan_blocks n (int (Suc i)) b e2 = Some e'" "ready p st e'" "pages (st (e_dev e')) = pages (st (e_dev e2))"
    "Nand1 e' = (Nand1 e2)\<lparr>nBadBlock := take (Suc i) (nBadBlock (Nand1 e2)) @ map ?mk [Suc i..<Suc i + n] @ drop (Suc i + n) (nBadBlock (Nand1 e2)),
      nBadBlockCount := cnt\<rparr>" "Nand1Partition e' = Nand1Partition e2" "e_addr e' = e_addr e2" "e_mem e' = e_mem e2"
    using Suc.IH [OF r2 le] unfolding m2 by blast
  have "scan_blocks (Suc n) (int i) b e = Some e'"
    using e1(1) e'(1) by (cases "marked ?s i") (simp_all add: e2_def add.commute)
  moreover have "take (Suc i) (?B[i := ?mk i]) @ map ?mk [Suc i..<Suc i + n] @ drop (Suc i + n) (?B[i := ?mk i]) =
      take i ?B @ map ?mk [i..<i + Suc n] @ drop (i + Suc n) ?B"
  proof -
    have "[i..<i + Suc n] = i # [Suc i..<Suc i + n]" by (simp add: upt_conv_Cons)
    moreover have "take (Suc i) (?B[i := ?mk i]) = take i ?B @ [?mk i]" using Suc.prems(3) by (simp add: take_Suc_conv_app_nth)
    ultimately show ?thesis by simp
  qed
  then have "Nand1 e' = (Nand1 e)\<lparr>nBadBlock := take i ?B @ map ?mk [i..<i + Suc n] @ drop (i + Suc n) ?B, nBadBlockCount := cnt\<rparr>"
    using n2 unfolding e'(4) e2(5) by auto
  ultimately show ?case using e'(2,3,5-7) e2(1-4) e1(7) by auto
qed

text \<open>The identification: the maker and the device byte.\<close>

lemma read_id_chip:
  assumes "nand_at b p st" and "nBaseAddress (Nand1 e) = NAND_BASE" and "still_busy (st (e_dev e)) = 0"
  defines "e4 \<equiv> wr b (NAND_ADDR (wr b (NAND_CMD (dummy_read b (NAND_DATA e) e)) NAND_CMD_READ_ID (dummy_read b (NAND_DATA e) e))) 0
    (wr b (NAND_CMD (dummy_read b (NAND_DATA e) e)) NAND_CMD_READ_ID (dummy_read b (NAND_DATA e) e))"
  shows "\<exists>e5 e6. nand_byte b e4 = (maker p, e5) \<and> nand_byte b e5 = (size_id p, e6) \<and>
    same_loader e (dummy_read b (NAND_ACCESS_END e6) e6) \<and> e_mem (dummy_read b (NAND_ACCESS_END e6) e6) = e_mem e \<and>
    pages (st (e_dev (dummy_read b (NAND_ACCESS_END e6) e6))) = pages (st (e_dev e)) \<and>
    still_busy (st (e_dev (dummy_read b (NAND_ACCESS_END e6) e6))) = 0"
proof -
  define e2 where "e2 = dummy_read b (NAND_DATA e) e"
  have s2: "pages (st (e_dev e2)) = pages (st (e_dev e))" "still_busy (st (e_dev e2)) = 0"
    using assms(3) by (simp_all add: e2_def chip_ops(4) [OF assms(1,2)] nand_get_frame)
  have b2: "nBaseAddress (Nand1 e2) = NAND_BASE" by (simp add: e2_def assms(2))
  define e3 where "e3 = wr b (NAND_CMD e2) NAND_CMD_READ_ID e2"
  have s3: "st (e_dev e3) = (st (e_dev e2))\<lparr>mode := 0x90, addr := [], moved := 0\<rparr>"
    unfolding e3_def chip_ops(1) [OF assms(1) b2] using s2(2) by (simp add: nand_cmd_def NAND_CMD_READ_ID_def)
  have b3: "nBaseAddress (Nand1 e3) = NAND_BASE" by (simp add: e3_def b2)
  have e4: "e4 = wr b (NAND_ADDR e3) 0 e3" by (simp only: e4_def e3_def e2_def)
  have s4: "st (e_dev e4) = (st (e_dev e2))\<lparr>mode := 0x90, addr := [0], moved := 0\<rparr>"
    unfolding e4 chip_ops(2) [OF assms(1) b3] by (simp add: nand_address_def s3 Let_def)
  have l4: "same_loader e e4" unfolding e4 e3_def e2_def by (intro same_loader_intros)
  have m4: "e_mem e4 = e_mem e" unfolding e4 e3_def e2_def by simp
  have b4: "nBaseAddress (Nand1 e4) = NAND_BASE" by (simp add: e4 b3)
  obtain v e5 where r5: "nand_byte b e4 = (v, e5)" by fastforce
  have v5: "v = maker p" "st (e_dev e5) = (st (e_dev e4))\<lparr>moved := Suc 0\<rparr>"
    using chip_ops(6,7) [OF assms(1) b4] by (simp_all add: r5 s4 nand_get_def)
  have l5: "same_loader e e5" by (rule same_loader_next(6) [OF l4 r5])
  have b5: "nBaseAddress (Nand1 e5) = NAND_BASE" using l5 assms(2) by (simp add: same_loader_def)
  obtain u e6 where r6: "nand_byte b e5 = (u, e6)" by fastforce
  have v6: "u = size_id p" "st (e_dev e6) = (st (e_dev e4))\<lparr>moved := Suc (Suc 0)\<rparr>"
    using chip_ops(6,7) [OF assms(1) b5] by (simp_all add: r6 v5(2) s4 nand_get_def)
  have l6: "same_loader e e6" by (rule same_loader_next(6) [OF l5 r6])
  have b6: "nBaseAddress (Nand1 e6) = NAND_BASE" using l6 assms(2) by (simp add: same_loader_def)
  let ?e7 = "dummy_read b (NAND_ACCESS_END e6) e6"
  have "same_loader e ?e7" using same_loader_next(2) [OF l6] .
  moreover have "e_mem ?e7 = e_mem e" using nand_byte_mem [OF r5] nand_byte_mem [OF r6] m4 by simp
  moreover have "pages (st (e_dev ?e7)) = pages (st (e_dev e))" "still_busy (st (e_dev ?e7)) = 0"
    unfolding chip_ops(5) [OF assms(1) b6] using s2 by (simp_all add: v6(2) s4)
  ultimately show ?thesis using r5 r6 v5(1) v6(1) by auto
qed

text \<open>The scan for bad blocks fills the table of the virtual blocks.\<close>

lemma ScanBadBlock_chip:
  assumes "nand_at b p st" and "ready p st e" and "USED_BOOT_BLOCK_COUNT e = int n" and "n \<le> blocks p" and "n \<le> 8192"
    and "length (nBadBlock (Nand1 e)) = 8192" and "length (nVirBlock (Nand1 e)) = 8192"
  defines "s \<equiv> st (e_dev e)"
  shows "\<exists>e' c. NAND_ScanBadBlock b e = Some (c, e') \<and> ready p st e' \<and> pages (st (e_dev e')) = pages s \<and>
    Nand1 e' = (Nand1 e)\<lparr>nBadBlock := map (\<lambda>k. if marked s k then bad_mark else good_mark) [0..<n] @ drop n (nBadBlock (Nand1 e)),
      nBadBlockCount := c, nVirBlock := map of_nat (goods s n) @ drop (length (goods s n)) (nVirBlock (Nand1 e))\<rparr> \<and>
    Nand1Partition e' = Nand1Partition e \<and> e_addr e' = e_addr e \<and> e_mem e' = e_mem e"
proof -
  let ?mk = "\<lambda>k. if marked s k then bad_mark else good_mark" let ?e0 = "set_nand (\<lambda>d. d\<lparr>nBadBlockCount := 0\<rparr>) e"
  have r0: "ready p st ?e0" using assms(2) fits_cong [of ?e0 e p] by (simp add: ready_def set_nand_def)
  have le: "0 + n \<le> blocks p" "0 + n \<le> length (nBadBlock (Nand1 ?e0))" using assms(4-6) by (simp_all add: set_nand_def)
  have m0: "st (e_dev ?e0) = s" by (simp add: set_nand_def s_def)
  obtain e1 c where e1: "scan_blocks n 0 b ?e0 = Some e1" "ready p st e1" "pages (st (e_dev e1)) = pages s"
    "Nand1 e1 = (Nand1 e)\<lparr>nBadBlock := map ?mk [0..<n] @ drop n (nBadBlock (Nand1 e)), nBadBlockCount := c\<rparr>"
    "Nand1Partition e1 = Nand1Partition e" "e_addr e1 = e_addr e" "e_mem e1 = e_mem e"
    using scan_blocks_chip [OF assms(1) r0 le] unfolding m0 by (auto simp: set_nand_def)
  have gb: "good_blocks (nBadBlock (Nand1 e1)) 0 n = goods s n"
    unfolding good_blocks_def goods_def by (rule filter_cong) (auto simp: e1(4) nth_append good_mark_def bad_mark_def)
  let ?d = "(Nand1 e1)\<lparr>nVirBlock := map of_nat (goods s n) @ drop (length (goods s n)) (nVirBlock (Nand1 e))\<rparr>"
  have "fill_virtual n (int 0) (int 0) (int 0) (int n) (Nand1 e1) = Some ?d"
    using fill_virtual_good [of 0 n n 0 "Nand1 e1"] assms(5,7) unfolding gb by (simp add: e1(4))
  then have "NAND_ScanBadBlock b e = Some (c, e1\<lparr>Nand1 := ?d\<rparr>)"
    using e1(1) unfolding NAND_ScanBadBlock_def assms(3) Let_def nat_int by simp (simp add: e1(4))
  moreover have "ready p st (e1\<lparr>Nand1 := ?d\<rparr>)" using e1(2) fits_cong [of "e1\<lparr>Nand1 := ?d\<rparr>" e1 p] by (simp add: ready_def)
  ultimately show ?thesis using e1 by auto
qed

text \<open>The chips the driver knows, which fetch a page while it waits.\<close>

definition known_chip :: "nand_part \<Rightarrow> bool" where
  "known_chip p \<longleftrightarrow> maker p = 0xEC \<and> (size_id p, row_cycles p, blocks p) \<in>
     {(0x73, 2, 1024), (0x75, 2, 2048), (0x76, 3, 4096), (0x79, 3, 8192)} \<and> fetch p \<le> NAND_WAIT_COUNT"

lemma count_three:
  assumes "length ps = 8" and "0 \<le> BaseBlock (ps ! 0)" "0 \<le> BlockCount (ps ! 0)" "0 \<le> BaseBlock (ps ! 1)" "0 \<le> BlockCount (ps ! 1)"
    and "0 \<le> BaseBlock (ps ! 2)" "0 \<le> BlockCount (ps ! 2)" and "BaseBlock (ps ! 3) = -1"
  shows "count_partitions 8 0 rest 0 ps = (3, ps)"
proof -
  have 8: "(8 :: nat) = Suc (Suc (Suc (Suc 4)))" by simp
  show ?thesis unfolding 8 count_partitions.simps using assms
    by (simp add: NAND_PARTITON_END_def NAND_PARTITON_REST_SIZE_def numeral_2_eq_2 numeral_3_eq_3)
qed

text \<open>
  At power-on: a chip that is not busy, the sizes of its kernel and its ramdisk partition in megabytes (64 blocks each) in the
  configuration, the tables of the driver as \<open>nand.c\<close> declares them. The blocks without a mark work.
\<close>

definition powered :: "nand_part \<Rightarrow> ('h \<Rightarrow> nand_state) \<Rightarrow> nat \<Rightarrow> nat \<Rightarrow> 'h ez \<Rightarrow> bool" where
  "powered p st c0 c1 e \<longleftrightarrow>
     still_busy (st (e_dev e)) = 0 \<and> c0 = 64 * unat (NandPar 0 e) \<and> c1 = 64 * unat (NandPar 1 e) \<and> c0 + c1 \<le> blocks p \<and>
     length (nBadBlock (Nand1 e)) = 8192 \<and> length (nVirBlock (Nand1 e)) = 8192 \<and>
     length (Nand1Partition e) = 8 \<and> BaseBlock (Nand1Partition e ! 3) = -1 \<and>
     (\<forall>k < c0 + c1. \<not> marked (st (e_dev e)) k \<longrightarrow> works p k)"

text \<open>\<open>NandFlash_Init\<close> finds the chip, its size, the partitions of the configuration and the bad blocks.\<close>

lemma NandFlash_Init_chip:
  fixes e :: "'h ez"
  assumes "nand_at b p st" and "known_chip p" and "powered p st c0 c1 e"
  shows "\<exists>e'. NandFlash_Init b e = Some (0, e') \<and> ready p st e' \<and> scanned p (st (e_dev e')) e' c0 c1 \<and>
    pages (st (e_dev e')) = pages (st (e_dev e)) \<and> e_mem e' = e_mem e \<and> e_addr e' = e_addr e"
proof -
  have pw: "still_busy (st (e_dev e)) = 0" "c0 = 64 * unat (NandPar 0 e)" "c1 = 64 * unat (NandPar 1 e)" "c0 + c1 \<le> blocks p"
    "length (nBadBlock (Nand1 e)) = 8192" "length (nVirBlock (Nand1 e)) = 8192" "length (Nand1Partition e) = 8"
    "BaseBlock (Nand1Partition e ! 3) = -1" "\<And>k. k < c0 + c1 \<Longrightarrow> \<not> marked (st (e_dev e)) k \<Longrightarrow> works p k"
    using assms(3) by (simp_all add: powered_def)
  let ?s = "st (e_dev e)" let ?mk = "\<lambda>k. if marked ?s k then bad_mark else good_mark" let ?n = "c0 + c1"
  define ps where "ps = (Nand1Partition e)[0 := par 0 (int c0), 1 := par (int c0) (int c1),
      2 := par (int c0 + int c1) (uint (NandPar 2 e) * 64)]"
  have fx: "NAND_Par_Fixup e = e\<lparr>Nand1Partition := ps\<rparr>"
    unfolding NAND_Par_Fixup_def Let_def ps_def pw(2,3) by (simp add: BLK_CNT_1M_def mult.commute distrib_right)
  define e1 where "e1 = set_nand (\<lambda>d. d\<lparr>nBaseAddress := NAND_BASE\<rparr>) (say ''NAND Chip Check .......................'' [] (NAND_Par_Fixup e))"
  have e1: "e_dev e1 = e_dev e" "e_mem e1 = e_mem e" "e_addr e1 = e_addr e" "Nand1Partition e1 = ps" "Nand1 e1 = (Nand1 e)\<lparr>nBaseAddress := NAND_BASE\<rparr>"
    by (simp_all add: e1_def fx set_nand_def say_def)
  have b1: "nBaseAddress (Nand1 e1) = NAND_BASE" by (simp add: e1)
  have e1d: "still_busy (st (e_dev e1)) = 0" using pw(1) by (simp add: e1(1))
  obtain e5 e6 where r: "nand_byte b (wr b (NAND_ADDR (wr b (NAND_CMD (dummy_read b (NAND_DATA e1) e1)) NAND_CMD_READ_ID (dummy_read b (NAND_DATA e1) e1))) 0
      (wr b (NAND_CMD (dummy_read b (NAND_DATA e1) e1)) NAND_CMD_READ_ID (dummy_read b (NAND_DATA e1) e1))) = (maker p, e5)"
    "nand_byte b e5 = (size_id p, e6)" and e7: "same_loader e1 (dummy_read b (NAND_ACCESS_END e6) e6)"
      "e_mem (dummy_read b (NAND_ACCESS_END e6) e6) = e_mem e" "pages (st (e_dev (dummy_read b (NAND_ACCESS_END e6) e6))) = pages ?s"
      "still_busy (st (e_dev (dummy_read b (NAND_ACCESS_END e6) e6))) = 0"
    using read_id_chip [OF assms(1) b1 e1d] unfolding e1(1,2) by blast
  define e7 where "e7 = dummy_read b (NAND_ACCESS_END e6) e6"
  note e7 = e7 [folded e7_def] and r = r [simplified]
  obtain ty tsize msg where ch: "nand_chip (maker p) (size_id p) = Some (ty, tsize, msg)"
    and geo: "row_cycles p = (if tsize \<ge> 64 * 1024 * 1024 then 3 else 2)" "0 < blocks p" "32 * blocks p \<le> 256 ^ row_cycles p" "blocks p \<le> 8192"
    and ft: "fetch p \<le> NAND_WAIT_COUNT" using assms(2) by (auto simp: known_chip_def nand_chip_def)
  define e8 where "e8 = say ''  BAD BLOCK SCAN ->'' [] (set_nand (\<lambda>d. d\<lparr>nPartition := True, nPartitionNR := 0\<rparr>)
      (say msg [ucast (maker p), ucast (size_id p)] (set_nand (\<lambda>d. d\<lparr>nType := ty, nTotalSize := tsize, nEraseSize := 16 * 1024\<rparr>) (set_nand (\<lambda>d. d\<lparr>nType := 0\<rparr>) e7))))"
  have e8: "e_dev e8 = e_dev e7" "e_mem e8 = e_mem e" "e_addr e8 = e_addr e" "Nand1Partition e8 = ps"
    "nBaseAddress (Nand1 e8) = NAND_BASE" "nTotalSize (Nand1 e8) = tsize" "nBadBlock (Nand1 e8) = nBadBlock (Nand1 e)"
    "nVirBlock (Nand1 e8) = nVirBlock (Nand1 e)" "nPartition (Nand1 e8)"
    using e1 e7(1,2) by (simp_all add: e8_def set_nand_def say_def same_loader_def)
  have r8: "ready p st e8" using e8(1,5,6) e7(4) geo ft by (simp add: ready_def fits_def)
  have ub: "USED_BOOT_BLOCK_COUNT e8 = int ?n" using pw(7) by (simp add: USED_BOOT_BLOCK_COUNT_def e8(4) ps_def)
  have len: "?n \<le> 8192" "length (nBadBlock (Nand1 e8)) = 8192" "length (nVirBlock (Nand1 e8)) = 8192" using pw(4-6) geo(4) e8(7,8) by simp_all
  have m8: "marked (st (e_dev e8)) = marked ?s" using e8(1) e7(3) by (simp add: marked_def fun_eq_iff)
  obtain e10 cnt where e10: "NAND_ScanBadBlock b e8 = Some (cnt, e10)" "ready p st e10" "pages (st (e_dev e10)) = pages ?s"
    "Nand1 e10 = (Nand1 e8)\<lparr>nBadBlock := map ?mk [0..<?n] @ drop ?n (nBadBlock (Nand1 e)), nBadBlockCount := cnt,
      nVirBlock := map of_nat (goods ?s ?n) @ drop (length (goods ?s ?n)) (nVirBlock (Nand1 e))\<rparr>"
    "Nand1Partition e10 = ps" "e_addr e10 = e_addr e" "e_mem e10 = e_mem e"
    using ScanBadBlock_chip [OF assms(1) r8 ub pw(4) len] e8 e7(3) unfolding m8 goods_def by auto
  note sc8 = e10(1) [unfolded e8_def, simplified]
  have ct: "count_partitions 8 0 rest 0 ps = (3, ps)" for rest
    by (rule count_three) (use pw(7,8) in \<open>simp_all add: ps_def\<close>)
  define e11 where "e11 = (set_nand (\<lambda>d. d\<lparr>nPartitionNR := 3\<rparr>) (say ''  Kernel, Ramdisk Bad Block [%d]'' [word_of_int cnt] e10))\<lparr>Nand1Partition := ps\<rparr>"
  have e11: "e_dev e11 = e_dev e10" "e_mem e11 = e_mem e" "e_addr e11 = e_addr e" "Nand1Partition e11 = ps" "Nand1 e11 = (Nand1 e10)\<lparr>nPartitionNR := 3\<rparr>"
    using e10 by (simp_all add: e11_def set_nand_def say_def)
  have "NAND_DETECT b NAND_BASE (NAND_Par_Fixup e) = Some (True, e11)"
    unfolding NAND_DETECT_def Let_def e1_def [symmetric]
    by (simp add: r e7_def [symmetric] ch sc8 del: nand_frame) (simp add: e10(5) ct e11_def set_nand_def say_def)
  then have init: "NandFlash_Init b e = Some (0, e11)" by (simp add: NandFlash_Init_def)
  have rdy: "ready p st e11" using e10(2) fits_cong [of e11 e10 p] e11(1,5) by (simp add: ready_def)
  have "marked (st (e_dev e11)) = marked ?s" using e11(1) e10(3) by (simp add: marked_def fun_eq_iff)
  moreover from this have "goods (st (e_dev e11)) = goods ?s" by (simp add: goods_def fun_eq_iff)
  then have "\<exists>R. nVirBlock (Nand1 e11) = map of_nat (goods (st (e_dev e11)) ?n) @ R" by (simp add: e11(5) e10(4))
  ultimately have "scanned p (st (e_dev e11)) e11 c0 c1"
    using pw(4,7,9) geo(4) e8(9) unfolding scanned_def
    by (auto simp: e11(4,5) e10(4) ps_def nth_append good_mark_def bad_mark_def pw(5))
  moreover have "NandFlash_Init b e = Some (0, e11)" "ready p st e11" using init rdy by blast+
  ultimately show ?thesis using e10(3) e11 by auto
qed

section \<open>Images\<close>

lemma goods_prefix: "n \<le> m \<Longrightarrow> \<exists>zs. goods s m = goods s n @ zs"
proof -
  assume "n \<le> m"
  then have "[0..<m] = [0..<n] @ [n..<m]" by (metis le_add_diff_inverse upt_add_eq_append zero_le)
  then show ?thesis by (simp add: goods_def)
qed

lemma length_goods: "length (goods s n) \<le> n"
  unfolding goods_def by (rule order_trans [OF length_filter_le]) simp

lemma goods_ge: "i < length (goods s n) \<Longrightarrow> i \<le> goods s n ! i"
proof (induction i)
  case (Suc i)
  have "sorted_wrt (<) (goods s n)" unfolding goods_def by (rule sorted_wrt_filter) (rule sorted_wrt_upt)
  then have "goods s n ! i < goods s n ! Suc i" using Suc.prems by (simp add: sorted_wrt_nth_less)
  with Suc show ?case by simp
qed simp

text \<open>
  The two partitions with images, and the sectors each has room for: a bad block of the kernel partition takes a block from both, as
  the virtual blocks of the ramdisk begin at the same number.
\<close>

definition image_part :: "nat \<Rightarrow> nat \<Rightarrow> int \<Rightarrow> nat \<Rightarrow> nat \<Rightarrow> bool" where
  "image_part c0 c1 pnb base cnt \<longleftrightarrow>
     pnb = PARTITION_NUM_KERNEL \<and> base = 0 \<and> cnt = c0 \<or> pnb = PARTITION_NUM_RAMDISK \<and> base = c0 \<and> cnt = c1"

definition room :: "nand_state \<Rightarrow> nat \<Rightarrow> nat \<Rightarrow> nat" where
  "room s base cnt = 32 * (length (goods s (base + cnt)) - base)"

lemma room_le: "room s base cnt \<le> 32 * cnt"
  using length_goods [of s "base + cnt"] by (simp add: room_def)

lemma room_cong: "marked s' = marked s \<Longrightarrow> room s' = room s"
  by (simp add: room_def goods_def fun_eq_iff)

lemma part_facts:
  assumes "image_part c0 c1 pnb base cnt"
  shows "scanned p s e c0 c1 \<Longrightarrow> partition_of pnb e = Some (par (int base) (int cnt))" and "0 \<le> pnb" and "pnb < 2"
    and "base + cnt \<le> c0 + c1" and "scanned p s e c0 c1 \<Longrightarrow> cnt \<le> 8192"
  using assms by (auto simp: image_part_def scanned_def partition_of_def PARTITION_NUM_KERNEL_def PARTITION_NUM_RAMDISK_def in_array_def)

lemma part_sectors:
  assumes "image_part c0 c1 pnb base cnt" and "k < room s base cnt"
  shows "base + k div 32 < length (goods s (c0 + c1))"
    and "base \<le> goods s (c0 + c1) ! (base + k div 32) \<and> goods s (c0 + c1) ! (base + k div 32) < base + cnt"
proof -
  obtain zs where g: "goods s (c0 + c1) = goods s (base + cnt) @ zs" using goods_prefix [OF part_facts(4) [OF assms(1)]] by blast
  have "k div 32 < length (goods s (base + cnt)) - base" using assms(2) by (simp add: room_def div_less_iff_less_mult mult.commute)
  then have i: "base + k div 32 < length (goods s (base + cnt))" by linarith
  then show "base + k div 32 < length (goods s (c0 + c1))" by (simp add: g)
  show "base \<le> goods s (c0 + c1) ! (base + k div 32) \<and> goods s (c0 + c1) ! (base + k div 32) < base + cnt"
    using goods_nth [OF i] goods_ge [OF i] by (simp add: g nth_append i)
qed

text \<open>An image of \<open>sz\<close> bytes in a partition: its size in the first sector, its bytes in the following ones.\<close>

definition image_in :: "nand_state \<Rightarrow> nat \<Rightarrow> nat \<Rightarrow> nat \<Rightarrow> u8 list \<Rightarrow> bool" where
  "image_in s n base sz img \<longleftrightarrow>
     (\<exists>m a. page_bytes s (page_at s n base 0) = read_bytes m a 512 \<and> ld32 m a = of_nat sz) \<and>
     concat (map (\<lambda>k. page_bytes s (page_at s n base k)) [1..<1 + image_pages sz]) = img"

lemma image_in_cong:
  assumes "image_in s (c0 + c1) base sz img" and "image_part c0 c1 pnb base cnt" and "image_pages sz < room s base cnt"
    and "marked s' = marked s" and "\<And>x. base \<le> x div 32 \<Longrightarrow> x div 32 < base + cnt \<Longrightarrow> page_bytes s' x = page_bytes s x"
  shows "image_in s' (c0 + c1) base sz img"
proof -
  have at: "page_at s' = page_at s" using assms(4) by (simp add: page_at_def goods_def fun_eq_iff)
  have pg: "page_bytes s' (page_at s (c0 + c1) base k) = page_bytes s (page_at s (c0 + c1) base k)" if "k \<le> image_pages sz" for k
    by (rule assms(5)) (use part_sectors(2) [OF assms(2), of k s] that assms(3) in simp_all)
  have "map (\<lambda>k. page_bytes s' (page_at s (c0 + c1) base k)) [1..<1 + image_pages sz] =
      map (\<lambda>k. page_bytes s (page_at s (c0 + c1) base k)) [1..<1 + image_pages sz]"
    by (rule map_cong [OF refl], rule pg) auto
  then show ?thesis using assms(1) pg [of 0] unfolding image_in_def at by (metis zero_le)
qed

lemma store_image:
  fixes src :: u32
  assumes "nand_at b p st" and "ready p st e" and "scanned p (st (e_dev e)) e c0 c1" and "image_part c0 c1 pnb base cnt"
    and "sz < 2 ^ 31 - 511" and "image_pages sz < room (st (e_dev e)) base cnt"
    and "apart (obj e ''verify_pbuf'') 512 src (512 * image_pages sz)" and "apart (obj e ''page_buff'') 4 src (512 * image_pages sz)"
  shows "\<exists>e'. copy_to_nand b pnb src (int sz) e = Some (int sz, e') \<and> same_loader e e' \<and> ready p st e' \<and>
    marked (st (e_dev e')) = marked (st (e_dev e)) \<and> scanned p (st (e_dev e')) e' c0 c1 \<and>
    image_in (st (e_dev e')) (c0 + c1) base sz (read_bytes (e_mem e) src (512 * image_pages sz)) \<and>
    (\<forall>x. \<not> (base \<le> x div 32 \<and> x div 32 < base + cnt) \<longrightarrow> page_bytes (st (e_dev e')) x = page_bytes (st (e_dev e)) x) \<and>
    (\<forall>a. (\<forall>i < 512. a \<noteq> obj e ''verify_pbuf'' + of_nat i) \<longrightarrow> a \<notin> word_bytes (obj e ''page_buff'') \<longrightarrow> e_mem e' a = e_mem e a)"
proof -
  let ?m = "st32 (e_mem e) (obj e ''page_buff'') (of_nat sz)" let ?f = "page_at (st (e_dev e)) (c0 + c1) base"
  note f = part_facts [OF assms(4)]
  obtain e' where e': "copy_to_nand b pnb src (int sz) e = Some (int sz, e')" "same_loader e e'" "ready p st e'"
    "marked (st (e_dev e')) = marked (st (e_dev e))" "page_bytes (st (e_dev e')) (?f 0) = read_bytes ?m (obj e ''page_buff'') 512"
    "concat (map (\<lambda>k. page_bytes (st (e_dev e')) (?f k)) [1..<1 + image_pages sz]) = read_bytes (e_mem e) src (512 * image_pages sz)"
    "\<forall>x. \<not> (base \<le> x div 32 \<and> x div 32 < base + cnt) \<longrightarrow> page_bytes (st (e_dev e')) x = page_bytes (st (e_dev e)) x"
    "\<forall>a. (\<forall>i < 512. a \<noteq> obj e ''verify_pbuf'' + of_nat i) \<longrightarrow> e_mem e' a = ?m a"
    using copy_to_nand_chip [OF assms(1-3) f(1) [OF assms(3)] f(2-4) part_sectors [OF assms(4)] assms(5,6,7,8)] by blast
  have at: "page_at (st (e_dev e')) = page_at (st (e_dev e))" using e'(4) by (simp add: page_at_def goods_def fun_eq_iff)
  have "image_in (st (e_dev e')) (c0 + c1) base sz (read_bytes (e_mem e) src (512 * image_pages sz))"
    unfolding image_in_def at using e'(5,6) ld32_st32_same by blast
  moreover have "scanned p (st (e_dev e')) e' c0 c1" using scanned_same [OF e'(2,4)] assms(3) by simp
  moreover have "?m a = e_mem e a" if "a \<notin> word_bytes (obj e ''page_buff'')" for a using that by (rule st32_other)
  ultimately show ?thesis using e'(1-4,7,8) by auto
qed

lemma load_image:
  fixes dst :: u32
  assumes "nand_at b p st" and "ready p st e" and "scanned p (st (e_dev e)) e c0 c1" and "image_part c0 c1 pnb base cnt"
    and "sz < 2 ^ 31 - 511" and "image_pages sz < room (st (e_dev e)) base cnt" and "image_in (st (e_dev e)) (c0 + c1) base sz img"
    and "limit < 2 ^ 31"
  shows "\<exists>e' h. Nand_ReadPartition b pnb dst (int limit) e = Some (int (min limit sz), e') \<and> same_loader e e' \<and> ready p st e' \<and>
    pages (st (e_dev e')) = pages (st (e_dev e)) \<and> length h = 512 \<and>
    e_mem e' = write_bytes (write_bytes (e_mem e) (obj e ''page_buff'') h) dst (take (512 * image_pages (min limit sz)) img)"
proof -
  let ?f = "page_at (st (e_dev e)) (c0 + c1) base"
  note f = part_facts [OF assms(4)]
  obtain m a where h: "page_bytes (st (e_dev e)) (?f 0) = read_bytes m a 512" "ld32 m a = of_nat sz"
    and img: "concat (map (\<lambda>k. page_bytes (st (e_dev e)) (?f k)) [1..<1 + image_pages sz]) = img"
    using assms(7) unfolding image_in_def by blast
  have sec: "sectors p e pnb ?f (room (st (e_dev e)) base cnt)"
    by (rule sectors_of_partition [OF assms(3) f(1) [OF assms(3)] f(3) part_sectors [OF assms(4)]])
  obtain e' where "Nand_ReadPartition b pnb dst (int limit) e = Some (int (min limit sz), e')" "same_loader e e'" "ready p st e'"
    "pages (st (e_dev e')) = pages (st (e_dev e))"
    "e_mem e' = write_bytes (write_bytes (e_mem e) (obj e ''page_buff'') (read_bytes m a 512)) dst (take (512 * image_pages (min limit sz)) img)"
    using read_partition_chip [OF assms(1,2) sec f(1) [OF assms(3)] f(5) [OF assms(3)] room_le assms(5,6) h img assms(8), of dst] by blast
  then show ?thesis by (intro exI [of _ e'] exI [of _ "read_bytes m a 512"]) simp
qed

text \<open>What the memory holds after an image was read: the image where it was to go, and nothing else has changed but the page buffer.\<close>

lemma loaded_image:
  fixes m :: mem and dst :: u32
  assumes "m' = write_bytes (write_bytes m pb h) dst (take (512 * image_pages r) img)" and "r \<le> length img" and "length img \<le> 2 ^ 32"
  shows "read_bytes m' dst r = take r img"
    and "length h = 512 \<Longrightarrow> apart pb 512 x k \<Longrightarrow> apart dst (512 * image_pages r) x k \<Longrightarrow> read_bytes m' x k = read_bytes m x k"
proof -
  let ?d = "take (512 * image_pages r) img"
  show "read_bytes m' dst r = take r img"
  proof (rule nth_equalityI)
    fix i assume "i < length (read_bytes m' dst r)"
    then have i: "i < r" "i < 512 * image_pages r" "i < length img" using image_pages_le(1) [of r] assms(2) by auto
    then have "m' (dst + of_nat i) = ?d ! i" unfolding assms(1) using assms(3) by (intro write_bytes_nth) auto
    with i show "read_bytes m' dst r ! i = take r img ! i" by (simp add: nth_read_bytes)
  qed (use assms(2) in simp)
  show "read_bytes m' x k = read_bytes m x k" if h: "length h = 512" and a: "apart pb 512 x k" "apart dst (512 * image_pages r) x k"
  proof (rule read_bytes_cong)
    fix i assume i: "i < k"
    have "m' (x + of_nat i) = write_bytes m pb h (x + of_nat i)" unfolding assms(1)
      by (rule write_bytes_other) (use apart_neq [OF a(2) _ i] in auto)
    also have "\<dots> = m (x + of_nat i)" by (rule write_bytes_other) (use apart_neq [OF a(1) _ i] h in auto)
    finally show "m' (x + of_nat i) = m (x + of_nat i)" .
  qed
qed

lemma length_image: "image_in s n base sz img \<Longrightarrow> length img = 512 * image_pages sz"
proof -
  have "length (concat (map (\<lambda>k. page_bytes s (f k)) xs)) = 512 * length xs" for f and xs :: "nat list" by (induction xs) simp_all
  then show "image_in s n base sz img \<Longrightarrow> length img = 512 * image_pages sz" unfolding image_in_def by auto
qed

text \<open>The bytes the loader copies at most: the partition without four or twelve blocks.\<close>

definition kernel_limit :: "nat \<Rightarrow> nat" where
  "kernel_limit c0 = (c0 - 4) * 16384"

definition ramdisk_limit :: "nat \<Rightarrow> nat" where
  "ramdisk_limit c1 = (c1 - 12) * 16384"

lemma wrap32_blocks: "k \<le> c \<Longrightarrow> c \<le> 8192 \<Longrightarrow> wrap32 ((int c - int k) * 32 * 512) = int ((c - k) * 16384)"
  by (simp add: of_nat_diff)

text \<open>An image in a partition is copied to memory by the two routines of the boot.\<close>

lemma CopyTo_SDRAM_chip:
  fixes dst :: u32
  assumes "nand_at b p st" and "ready p st e" and "scanned p (st (e_dev e)) e c0 c1" and "image_part c0 c1 pnb base cnt"
    and "sz < 2 ^ 31 - 511" and "image_pages sz < room (st (e_dev e)) base cnt" and "image_in (st (e_dev e)) (c0 + c1) base sz img"
    and "pnb = PARTITION_NUM_KERNEL \<and> 4 \<le> c0 \<and> copy = CopyTo_SDRAM_Kernel \<and> limit = kernel_limit c0 \<or>
      pnb = PARTITION_NUM_RAMDISK \<and> 12 \<le> c1 \<and> copy = CopyTo_SDRAM_Ramdisk \<and> limit = ramdisk_limit c1"
  defines "r \<equiv> min limit sz"
  shows "\<exists>e'. copy b dst e = Some (int limit, e') \<and> same_loader e e' \<and> ready p st e' \<and> pages (st (e_dev e')) = pages (st (e_dev e)) \<and>
    read_bytes (e_mem e') dst r = take r img \<and>
    (\<forall>x k. apart (obj e ''page_buff'') 512 x k \<longrightarrow> apart dst (512 * image_pages r) x k \<longrightarrow> read_bytes (e_mem e') x k = read_bytes (e_mem e) x k)"
proof -
  note f = part_facts [OF assms(4)]
  have c: "cnt \<le> 8192" using f(5) [OF assms(3)] .
  have lim: "limit < 2 ^ 31" using assms(4,8) c
    by (auto simp: kernel_limit_def ramdisk_limit_def image_part_def PARTITION_NUM_KERNEL_def PARTITION_NUM_RAMDISK_def)
  obtain e' h where e': "Nand_ReadPartition b pnb dst (int limit) e = Some (int r, e')" "same_loader e e'" "ready p st e'"
    "pages (st (e_dev e')) = pages (st (e_dev e))" "length h = 512"
    "e_mem e' = write_bytes (write_bytes (e_mem e) (obj e ''page_buff'') h) dst (take (512 * image_pages r) img)"
    using load_image [OF assms(1-7) lim, of dst] unfolding r_def by blast
  have w: "wrap32 ((int c0 - 4) * 32 * 512) = int (kernel_limit c0)" if "4 \<le> c0" "c0 \<le> 8192"
    using wrap32_blocks [OF that] by (simp add: kernel_limit_def)
  have w': "wrap32 ((int c1 - 12) * 32 * 512) = int (ramdisk_limit c1)" if "12 \<le> c1" "c1 \<le> 8192"
    using wrap32_blocks [OF that] by (simp add: ramdisk_limit_def)
  have "copy b dst e = Some (int limit, e')"
    using assms(4,8) c f(1) [OF assms(3)] e'(1) w w'
    by (auto simp: CopyTo_SDRAM_Kernel_def CopyTo_SDRAM_Ramdisk_def Let_def image_part_def PARTITION_NUM_KERNEL_def PARTITION_NUM_RAMDISK_def)
  moreover have l: "r \<le> length img" "length img \<le> 2 ^ 32"
    using length_image [OF assms(7)] image_pages_le [of sz] assms(5) by (simp_all add: r_def min_le_iff_disj)
  note loaded_image(1) [OF e'(6) l] loaded_image(2) [OF e'(6) l e'(5)]
  ultimately show ?thesis using e'(2-4) by blast
qed

section \<open>Across a reset\<close>

text \<open>Kernel and ramdisk are stored in one session of the loader.\<close>

lemma store_both:
  fixes ksrc rsrc :: u32
  assumes "nand_at b p st" and "known_chip p" and "powered p st c0 c1 e"
    and "ksz < 2 ^ 31 - 511" and "image_pages ksz < room (st (e_dev e)) 0 c0"
    and "rsz < 2 ^ 31 - 511" and "image_pages rsz < room (st (e_dev e)) c0 c1"
    and "apart (obj e ''verify_pbuf'') 512 ksrc (512 * image_pages ksz)" and "apart (obj e ''page_buff'') 4 ksrc (512 * image_pages ksz)"
    and "apart (obj e ''verify_pbuf'') 512 rsrc (512 * image_pages rsz)" and "apart (obj e ''page_buff'') 4 rsrc (512 * image_pages rsz)"
  shows "\<exists>e1 e2 e3. NandFlash_Init b e = Some (0, e1) \<and> CopyTo_NandFlash_Kernel b ksrc (int ksz) e1 = Some (int ksz, e2) \<and>
    CopyTo_NandFlash_Ramdisk b rsrc (int rsz) e2 = Some (int rsz, e3) \<and> marked (st (e_dev e3)) = marked (st (e_dev e)) \<and>
    image_in (st (e_dev e3)) (c0 + c1) 0 ksz (read_bytes (e_mem e) ksrc (512 * image_pages ksz)) \<and>
    image_in (st (e_dev e3)) (c0 + c1) c0 rsz (read_bytes (e_mem e) rsrc (512 * image_pages rsz))"
proof -
  let ?k = "read_bytes (e_mem e) ksrc (512 * image_pages ksz)" let ?r = "read_bytes (e_mem e) rsrc (512 * image_pages rsz)"
  have kp: "image_part c0 c1 PARTITION_NUM_KERNEL 0 c0" and rp: "image_part c0 c1 PARTITION_NUM_RAMDISK c0 c1" by (simp_all add: image_part_def)
  obtain e1 where e1: "NandFlash_Init b e = Some (0, e1)" "ready p st e1" "scanned p (st (e_dev e1)) e1 c0 c1"
    "pages (st (e_dev e1)) = pages (st (e_dev e))" "e_mem e1 = e_mem e" "e_addr e1 = e_addr e"
    using NandFlash_Init_chip [OF assms(1-3)] by blast
  have m1: "marked (st (e_dev e1)) = marked (st (e_dev e))" using e1(4) by (simp add: marked_def fun_eq_iff)
  obtain e2 where e2: "copy_to_nand b PARTITION_NUM_KERNEL ksrc (int ksz) e1 = Some (int ksz, e2)" "same_loader e1 e2" "ready p st e2"
    "marked (st (e_dev e2)) = marked (st (e_dev e1))" "scanned p (st (e_dev e2)) e2 c0 c1" "image_in (st (e_dev e2)) (c0 + c1) 0 ksz ?k"
    "\<And>a. \<forall>i < 512. a \<noteq> obj e ''verify_pbuf'' + of_nat i \<Longrightarrow> a \<notin> word_bytes (obj e ''page_buff'') \<Longrightarrow> e_mem e2 a = e_mem e a"
    using store_image [where src = ksrc, OF assms(1) e1(2,3) kp assms(4)] assms(5,8,9) unfolding room_cong [OF m1] e1(5,6) by blast
  have a2: "e_addr e2 = e_addr e" using e2(2) e1(6) by (simp add: same_loader_def)
  have m2: "marked (st (e_dev e2)) = marked (st (e_dev e))" using e2(4) m1 by simp
  have r: "read_bytes (e_mem e2) rsrc (512 * image_pages rsz) = ?r"
  proof (rule read_bytes_cong)
    fix i assume i: "i < 512 * image_pages rsz"
    have "rsrc + of_nat i \<notin> word_bytes (obj e ''page_buff'')" using apart_neq [OF assms(11) _ i, of 0] apart_neq [OF assms(11) _ i, of 1]
        apart_neq [OF assms(11) _ i, of 2] apart_neq [OF assms(11) _ i, of 3] by (auto simp: word_bytes_def)
    then show "e_mem e2 (rsrc + of_nat i) = e_mem e (rsrc + of_nat i)" using e2(7) apart_neq [OF assms(10) _ i] by metis
  qed
  obtain e3 where e3: "copy_to_nand b PARTITION_NUM_RAMDISK rsrc (int rsz) e2 = Some (int rsz, e3)"
    "marked (st (e_dev e3)) = marked (st (e_dev e2))" "image_in (st (e_dev e3)) (c0 + c1) c0 rsz ?r"
    "\<forall>x. \<not> (c0 \<le> x div 32 \<and> x div 32 < c0 + c1) \<longrightarrow> page_bytes (st (e_dev e3)) x = page_bytes (st (e_dev e2)) x"
    using store_image [where src = rsrc, OF assms(1) e2(3,5) rp assms(6)] assms(7,10,11) unfolding room_cong [OF m2] a2 r by blast
  have "image_pages ksz < room (st (e_dev e2)) 0 c0" using assms(5) room_cong [OF m2] by simp
  then have "image_in (st (e_dev e3)) (c0 + c1) 0 ksz ?k"
    by (rule image_in_cong [OF e2(6) kp _ e3(2)]) (use e3(4) in auto)
  then show ?thesis using e1(1) e2(1) e3(1,3) m2 e3(2) by (auto simp: CopyTo_NandFlash_Kernel_def CopyTo_NandFlash_Ramdisk_def)
qed

text \<open>
  C35: The images in the NAND flash survive a reset. On a chip of a known type as its data sheet describes it, which has a page fetched by the end of
  the driver's delay, and whatever blocks are marked bad (the others of the two partitions work), the loader that starts (\<open>NandFlash_Init\<close>) and is given a
  kernel and a ramdisk, neither in memory the driver's buffers occupy, for which the good blocks of their
  partitions have room (\<open>room\<close>) writes and verifies them, the second without harm to the first; after any later start on the same pages
  \<open>CopyTo_SDRAM_Kernel\<close> and \<open>CopyTo_SDRAM_Ramdisk\<close> copy them to memory, up to the sizes they copy: the partition less four and less
  twelve blocks. A longer image is accepted, verified, and cut off when it is started.
\<close>
theorem images_survive_reset:
  fixes ksrc rsrc kdst rdst :: u32
  assumes "nand_at b p st" and "known_chip p" and "powered p st c0 c1 e" and "0 < c0" and "0 < c1"
    and "ksz < 2 ^ 31 - 511" and "image_pages ksz < room (st (e_dev e)) 0 c0"
    and "rsz < 2 ^ 31 - 511" and "image_pages rsz < room (st (e_dev e)) c0 c1"
    and "apart (obj e ''verify_pbuf'') 512 ksrc (512 * image_pages ksz)" and "apart (obj e ''page_buff'') 4 ksrc (512 * image_pages ksz)"
    and "apart (obj e ''verify_pbuf'') 512 rsrc (512 * image_pages rsz)" and "apart (obj e ''page_buff'') 4 rsrc (512 * image_pages rsz)"
  shows "\<exists>e1 e2 e3. NandFlash_Init b e = Some (0, e1) \<and> CopyTo_NandFlash_Kernel b ksrc (int ksz) e1 = Some (int ksz, e2) \<and>
    CopyTo_NandFlash_Ramdisk b rsrc (int rsz) e2 = Some (int rsz, e3) \<and>
    (\<forall>r. powered p st c0 c1 r \<longrightarrow> pages (st (e_dev r)) = pages (st (e_dev e3)) \<longrightarrow>
      (\<exists>r1 r2 r3. NandFlash_Init b r = Some (0, r1) \<and>
        CopyTo_SDRAM_Kernel b kdst r1 = Some (int (kernel_limit c0), r2) \<and>
        read_bytes (e_mem r2) kdst (min (kernel_limit c0) ksz) = read_bytes (e_mem e) ksrc (min (kernel_limit c0) ksz) \<and>
        CopyTo_SDRAM_Ramdisk b rdst r1 = Some (int (ramdisk_limit c1), r3) \<and>
        read_bytes (e_mem r3) rdst (min (ramdisk_limit c1) rsz) = read_bytes (e_mem e) rsrc (min (ramdisk_limit c1) rsz)))"
proof -
  let ?k = "read_bytes (e_mem e) ksrc (512 * image_pages ksz)" let ?r = "read_bytes (e_mem e) rsrc (512 * image_pages rsz)"
  have kp: "image_part c0 c1 PARTITION_NUM_KERNEL 0 c0" and rp: "image_part c0 c1 PARTITION_NUM_RAMDISK c0 c1" by (simp_all add: image_part_def)
  have c: "4 \<le> c0" "12 \<le> c1" using assms(3-5) by (auto simp: powered_def)
  obtain e1 e2 e3 where w: "NandFlash_Init b e = Some (0, e1)" "CopyTo_NandFlash_Kernel b ksrc (int ksz) e1 = Some (int ksz, e2)"
    "CopyTo_NandFlash_Ramdisk b rsrc (int rsz) e2 = Some (int rsz, e3)" "marked (st (e_dev e3)) = marked (st (e_dev e))"
    "image_in (st (e_dev e3)) (c0 + c1) 0 ksz ?k" "image_in (st (e_dev e3)) (c0 + c1) c0 rsz ?r"
    using store_both [OF assms(1-3) assms(6-13)] by blast
  have tk: "take n (read_bytes m x k) = read_bytes m x n" if "n \<le> k" for n m x k
    using that read_bytes_append [of m x n "k - n"] by simp
  have later: "\<exists>r1 r2 r3. NandFlash_Init b r = Some (0, r1) \<and> CopyTo_SDRAM_Kernel b kdst r1 = Some (int (kernel_limit c0), r2) \<and>
      read_bytes (e_mem r2) kdst (min (kernel_limit c0) ksz) = read_bytes (e_mem e) ksrc (min (kernel_limit c0) ksz) \<and>
      CopyTo_SDRAM_Ramdisk b rdst r1 = Some (int (ramdisk_limit c1), r3) \<and>
      read_bytes (e_mem r3) rdst (min (ramdisk_limit c1) rsz) = read_bytes (e_mem e) rsrc (min (ramdisk_limit c1) rsz)"
    if r: "powered p st c0 c1 r" "pages (st (e_dev r)) = pages (st (e_dev e3))" for r
  proof -
    obtain r1 where r1: "NandFlash_Init b r = Some (0, r1)" "ready p st r1" "scanned p (st (e_dev r1)) r1 c0 c1"
      "pages (st (e_dev r1)) = pages (st (e_dev e3))" using NandFlash_Init_chip [OF assms(1,2) r(1)] r(2) by auto
    have m: "marked (st (e_dev r1)) = marked (st (e_dev e3))" using r1(4) by (simp add: marked_def fun_eq_iff)
    have rm: "image_pages ksz < room (st (e_dev r1)) 0 c0" "image_pages rsz < room (st (e_dev r1)) c0 c1"
      "image_pages ksz < room (st (e_dev e3)) 0 c0" "image_pages rsz < room (st (e_dev e3)) c0 c1"
      using assms(7,9) room_cong [OF m] room_cong [OF w(4)] by simp_all
    have i: "image_in (st (e_dev r1)) (c0 + c1) 0 ksz ?k" "image_in (st (e_dev r1)) (c0 + c1) c0 rsz ?r"
      using image_in_cong [OF w(5) kp rm(3) m] image_in_cong [OF w(6) rp rm(4) m] page_bytes_same [OF r1(4)] by simp_all
    have le: "min (kernel_limit c0) ksz \<le> 512 * image_pages ksz" "min (ramdisk_limit c1) rsz \<le> 512 * image_pages rsz"
      using image_pages_le(1) [of ksz] image_pages_le(1) [of rsz] by simp_all
    show ?thesis
      using r1(1) CopyTo_SDRAM_chip [OF assms(1) r1(2,3) kp assms(6) rm(1) i(1), of CopyTo_SDRAM_Kernel "kernel_limit c0" kdst] c
        CopyTo_SDRAM_chip [OF assms(1) r1(2,3) rp assms(8) rm(2) i(2), of CopyTo_SDRAM_Ramdisk "ramdisk_limit c1" rdst] tk le by auto
  qed
  with w(1-3) show ?thesis by blast
qed

text \<open>A good chip of 16 megabytes that is busy for three readings of its status after every operation, and images of 1000 and 700 bytes.\<close>

definition sheet_part :: nand_part where
  "sheet_part = \<lparr>row_cycles = 2, blocks = 1024, works = \<lambda>_. True, polls = \<lambda>_. 3, fetch = 150, noise = 0, maker = 0xEC, size_id = 0x73\<rparr>"

definition sheet_bus :: "nand_state bus" where
  "sheet_bus =
     \<lparr>bus_rd = (\<lambda>a s. if a = NAND_BASE then (ucast (fst (nand_get sheet_part s)), snd (nand_get sheet_part s)) else (0, s)),
      bus_wr = (\<lambda>a v s. if a = NAND_BASE + 0x100 then nand_cmd sheet_part (ucast v) s
        else if a = NAND_BASE + 0x200 then nand_address sheet_part (ucast v) s
        else if a = NAND_BASE then nand_put sheet_part (ucast v) s else s), bus_idle = nand_idle\<rparr>"

lemma sheet_bus_at: "nand_at sheet_bus sheet_part (\<lambda>s. s)"
  by (auto simp: nand_at_def sheet_bus_def byte_wide NAND_BASE_def)

definition sheet_loader :: "nand_state \<Rightarrow> nand_state ez" where
  "sheet_loader s = ez_at (st16 (st16 (\<lambda>_. 0x5A) (0x8000 + O_NandPar) 1) (0x8002 + O_NandPar) 3) s
     (\<lambda>x. if x = ''Cfg'' then 0x8000 else if x = ''page_buff'' then 0x9000 else 0x9800)"

lemma sheet_powered: "still_busy s = 0 \<Longrightarrow> powered sheet_part (\<lambda>s. s) 64 192 (sheet_loader s)"
  unfolding powered_def sheet_loader_def ez_at_def NandPar_def cfg_at_def
  by (simp add: sheet_part_def O_NandPar_def ld16_def st16_def)

lemma sheet_image:
  assumes "i = 0x10000 \<or> i = 0x20000" and "n \<le> 1000"
  shows "read_bytes (e_mem (sheet_loader s)) i n = replicate n 0x5A"
proof (rule nth_equalityI)
  fix k assume "k < length (read_bytes (e_mem (sheet_loader s)) i n)"
  then have k: "k < 1000" "k < n" using assms(2) by simp_all
  have "0x812C + of_nat j \<noteq> i + of_nat k" if "j < 4" for j
    by (rule apart_neq [OF _ that k(1)]) (use assms(1) in \<open>auto simp: apart_def\<close>)
  from this [of 0] this [of 1] this [of 2] this [of 3]
  have "e_mem (sheet_loader s) (i + of_nat k) = 0x5A" by (auto simp: sheet_loader_def ez_at_def st16_def O_NandPar_def)
  with k show "read_bytes (e_mem (sheet_loader s)) i n ! k = replicate n 0x5A ! k" by (simp add: nth_read_bytes)
qed simp

theorem images_survive_reset_witness:
  "let empty = \<lparr>pages = \<lambda>_ _. 0xFF, mode = 0, area = 0, addr = [], moved = 0, reg = \<lambda>_. 0, still_busy = 0, failed = False\<rparr>;
       e = sheet_loader empty in
   \<exists>e1 e2 e3 r1 r2 r3. NandFlash_Init sheet_bus e = Some (0, e1) \<and> CopyTo_NandFlash_Kernel sheet_bus 0x10000 1000 e1 = Some (1000, e2) \<and>
     CopyTo_NandFlash_Ramdisk sheet_bus 0x20000 700 e2 = Some (700, e3) \<and>
     NandFlash_Init sheet_bus (sheet_loader ((e_dev e3)\<lparr>still_busy := 0\<rparr>)) = Some (0, r1) \<and>
     CopyTo_SDRAM_Kernel sheet_bus 0x30000 r1 = Some (983040, r2) \<and> read_bytes (e_mem r2) 0x30000 1000 = replicate 1000 0x5A \<and>
     CopyTo_SDRAM_Ramdisk sheet_bus 0x40000 r1 = Some (2949120, r3) \<and> read_bytes (e_mem r3) 0x40000 700 = replicate 700 0x5A"
proof -
  define s :: nand_state where "s = \<lparr>pages = \<lambda>_ _. 0xFF, mode = 0, area = 0, addr = [], moved = 0, reg = \<lambda>_. 0, still_busy = 0, failed = False\<rparr>"
  let ?e = "sheet_loader s"
  have d: "e_dev (sheet_loader t) = t" for t by (simp add: sheet_loader_def ez_at_def)
  have "goods s n = [0..<n]" for n by (simp add: goods_def marked_def s_def)
  then have g: "room s 0 64 = 2048" "room s 64 192 = 6144" by (simp_all add: room_def)
  have o: "obj ?e ''verify_pbuf'' = 0x9800" "obj ?e ''page_buff'' = 0x9000" by (simp_all add: sheet_loader_def ez_at_def)
  have n: "image_pages 1000 = 2" "image_pages 700 = 2" by (simp_all add: image_pages_def)
  have lim: "kernel_limit 64 = 983040" "ramdisk_limit 192 = 2949120" by (simp_all add: kernel_limit_def ramdisk_limit_def)
  have "\<exists>e1 e2 e3. NandFlash_Init sheet_bus ?e = Some (0, e1) \<and> CopyTo_NandFlash_Kernel sheet_bus 0x10000 (int 1000) e1 = Some (int 1000, e2) \<and>
    CopyTo_NandFlash_Ramdisk sheet_bus 0x20000 (int 700) e2 = Some (int 700, e3) \<and>
    (\<forall>r. powered sheet_part (\<lambda>s. s) 64 192 r \<longrightarrow> pages (e_dev r) = pages (e_dev e3) \<longrightarrow>
      (\<exists>r1 r2 r3. NandFlash_Init sheet_bus r = Some (0, r1) \<and> CopyTo_SDRAM_Kernel sheet_bus 0x30000 r1 = Some (int (kernel_limit 64), r2) \<and>
        read_bytes (e_mem r2) 0x30000 (min (kernel_limit 64) 1000) = read_bytes (e_mem ?e) 0x10000 (min (kernel_limit 64) 1000) \<and>
        CopyTo_SDRAM_Ramdisk sheet_bus 0x40000 r1 = Some (int (ramdisk_limit 192), r3) \<and>
        read_bytes (e_mem r3) 0x40000 (min (ramdisk_limit 192) 700) = read_bytes (e_mem ?e) 0x20000 (min (ramdisk_limit 192) 700)))"
    by (rule images_survive_reset [OF sheet_bus_at _ sheet_powered])
      (simp_all add: known_chip_def NAND_WAIT_COUNT_def sheet_part_def s_def [symmetric] n g d o apart_def, simp add: s_def)
  then obtain e1 e2 e3 where 1: "NandFlash_Init sheet_bus ?e = Some (0, e1)" "CopyTo_NandFlash_Kernel sheet_bus 0x10000 1000 e1 = Some (1000, e2)"
      "CopyTo_NandFlash_Ramdisk sheet_bus 0x20000 700 e2 = Some (700, e3)"
    and 2: "\<And>r. powered sheet_part (\<lambda>s. s) 64 192 r \<Longrightarrow> pages (e_dev r) = pages (e_dev e3) \<Longrightarrow>
      \<exists>r1 r2 r3. NandFlash_Init sheet_bus r = Some (0, r1) \<and> CopyTo_SDRAM_Kernel sheet_bus 0x30000 r1 = Some (983040, r2) \<and>
        read_bytes (e_mem r2) 0x30000 1000 = replicate 1000 0x5A \<and>
        CopyTo_SDRAM_Ramdisk sheet_bus 0x40000 r1 = Some (2949120, r3) \<and> read_bytes (e_mem r3) 0x40000 700 = replicate 700 0x5A"
    unfolding lim by (auto simp: sheet_image)
  have "pages (e_dev (sheet_loader ((e_dev e3)\<lparr>still_busy := 0\<rparr>))) = pages (e_dev e3)" by (simp add: d)
  from 2 [OF sheet_powered this] 1 show ?thesis unfolding Let_def s_def [symmetric] by auto
qed

end
