(* ===== verification/Boot_Start.thy ===== *)
theory Boot_Start
  imports Boot_Shell Boot_Store Boot_Nand_Store
begin

text \<open>
  The whole boot: \<open>ez_main\<close> from power-on to the start of the kernel, composed of the start-up of every part of the
  loader, the wait for a key, and the images in the NAND flash. What is not the NAND flash leaves an idle one alone (\<open>beside\<close>).
\<close>

section \<open>Beside the NAND flash\<close>

definition beside :: "('h \<Rightarrow> nand_state) \<Rightarrow> 'h ez \<Rightarrow> 'h ez \<Rightarrow> bool" where
  "beside st e e' \<longleftrightarrow> still_busy (st (e_dev e)) = 0 \<and> st (e_dev e') = st (e_dev e) \<and> e_mem e' = e_mem e \<and> same_loader e e'"

definition outside :: "u32 \<Rightarrow> bool" where
  "outside a \<longleftrightarrow> a < NAND_BASE \<or> NAND_BASE + 0x400 \<le> a"

lemma beside_trans: "beside st e e1 \<Longrightarrow> beside st e1 e2 \<Longrightarrow> beside st e e2"
  by (auto simp: beside_def intro: same_loader_trans)

lemma beside_refl: "still_busy (st (e_dev e)) = 0 \<Longrightarrow> beside st e e"
  by (simp add: beside_def)

lemma beside_step:
  assumes "nand_at b p st" and "beside st e e0"
  shows "outside r \<Longrightarrow> beside st e (wr b r v e0)" and "outside r \<Longrightarrow> beside st e (snd (rd b r e0))"
    and "outside r \<Longrightarrow> beside st e (modify_reg b r f e0)"
proof -
  have o: "st (bus_wr b r v h) = st h" "st (snd (bus_rd b r h)) = st h" if "outside r" for r v h
    using assms(1) that unfolding nand_at_def outside_def by blast+
  have l: "same_loader e (wr b r v e0)" "same_loader e (snd (rd b r e0))" "same_loader e (modify_reg b r f e0)"
    using assms(2) by (auto simp: beside_def same_loader_def wr_def rd_def modify_reg_def case_prod_beta)
  show "outside r \<Longrightarrow> beside st e (wr b r v e0)" using o l assms(2) by (simp add: beside_def)
  show "outside r \<Longrightarrow> beside st e (snd (rd b r e0))" using o l assms(2) by (simp add: beside_def rd_def case_prod_beta)
  show "outside r \<Longrightarrow> beside st e (modify_reg b r f e0)"
    using o l assms(2) by (simp add: beside_def modify_reg_def reg_modify_def case_prod_beta)
qed

lemma beside_pure:
  assumes "beside st e e0"
  shows "beside st e (say t l e0)" and "beside st e (e0\<lparr>numOverflows := n\<rparr>)" and "beside st e (e0\<lparr>UART := u\<rparr>)"
    and "beside st e (e0\<lparr>Nor := f\<rparr>)" and "beside st e (with_zm z e0)"
  using assms by (auto simp: beside_def same_loader_def say_def with_zm_def)

lemma beside_wait: "nand_at b p st \<Longrightarrow> beside st e e0 \<Longrightarrow> beside st e (FB29LVx_Wait b e0)"
proof -
  assume a: "nand_at b p st" and s: "beside st e e0"
  have i: "st (bus_idle b h) = nand_idle (st h)" for h using a unfolding nand_at_def by blast
  have "still_busy (st h) = 0 \<Longrightarrow> st ((bus_idle b ^^ n) h) = st h" for n h by (induction n) (simp_all add: i nand_idle_def)
  with s show ?thesis by (auto simp: beside_def FB29LVx_Wait_def same_loader_def)
qed

lemma outside_high [simp]: "0x40000000 \<le> a \<Longrightarrow> outside a"
  by (simp add: outside_def NAND_BASE_def order_trans [of _ "0x40000000"])

lemma outside_gpio [simp]: "outside (GPDR x)" "outside (GAFR x)"
proof -
  have "unat (x AND 0x60) \<le> 0x60" using word_and_le1 [of x "0x60"] by (simp add: word_le_nat_alt)
  then have "unat (drop_bit 3 (x AND 0x60)) \<le> 12" unfolding unat_shift by simp
  then have "0x40E0000C \<le> GPDR x" by (simp add: GPDR_def word_le_nat_alt unat_word_ariths)
  then show "outside (GPDR x)" by (simp add: order_trans [of _ "0x40E0000C"])
  have "unat (x AND 0x70) \<le> 0x70" using word_and_le1 [of x "0x70"] by (simp add: word_le_nat_alt)
  then have "unat (drop_bit 2 (x AND 0x70)) \<le> 28" unfolding unat_shift by simp
  then have "0x40E00054 \<le> GAFR x" by (simp add: GAFR_def word_le_nat_alt unat_word_ariths)
  then show "outside (GAFR x)" by (simp add: order_trans [of _ "0x40E00054"])
qed

section \<open>Pins, serial line, flash chip and Ethernet chip\<close>

lemma gpio_beside:
  assumes "nand_at b p st" and "beside st e e0"
  shows "beside st e (set_GPIO_mode b md e0)"
  unfolding set_GPIO_mode_def Let_def case_prod_beta
  by (intro beside_step [OF assms(1)]) (auto intro: beside_step [OF assms(1) assms(2)])

lemma UART_frame [simp]:
  "UART (set_GPIO_mode b md e) = UART e" "UART (modify_reg b r f e) = UART e" "UART (snd (rd b r e)) = UART e"
  by (simp_all add: set_GPIO_mode_def Let_def modify_reg_def rd_def case_prod_beta wr_def)

definition uarts :: "u32 set" where
  "uarts = {FFUART, BTUART, STUART}"

lemma uart_outside: "u \<in> uarts \<Longrightarrow> outside u \<and> outside (u + 4) \<and> outside (u + 8) \<and> outside (u + 12) \<and> outside (u + 20)"
  by (auto simp: uarts_def FFUART_def BTUART_def STUART_def outside_def NAND_BASE_def)

lemma SerialInit_beside:
  assumes "nand_at b p st" and "beside st e e0"
  shows "beside st e (SerialInit b s v e0)" and "UART (SerialInit b s v e0) \<in> uarts"
proof -
  define e1 where "e1 = (if s = 0 then set_GPIO_mode b GPIO39_FFTXD_MD (set_GPIO_mode b GPIO34_FFRXD_MD
       (modify_reg b CKEN (\<lambda>v. v OR CKEN_FFUART) (e0\<lparr>UART := FFUART\<rparr>)))
     else if s = 1 then set_GPIO_mode b GPIO43_BTTXD_MD (set_GPIO_mode b GPIO42_BTRXD_MD
       (modify_reg b CKEN (\<lambda>v. v OR CKEN_BTUART) (e0\<lparr>UART := BTUART\<rparr>)))
     else set_GPIO_mode b GPIO47_STTXD_MD (set_GPIO_mode b GPIO46_STRXD_MD
       (modify_reg b CKEN (\<lambda>v. v OR CKEN_STUART) (e0\<lparr>UART := STUART\<rparr>))))"
  have ck: "outside CKEN" by (simp add: CKEN_def)
  have "beside st e e1" unfolding e1_def
    by (simp add: gpio_beside [OF assms(1)] beside_step(3) [OF assms(1) _ ck] beside_pure(3) [OF assms(2)])
  moreover have u: "UART e1 \<in> uarts" by (simp add: e1_def uarts_def)
  moreover have "SerialInit b s v e0 = (let e = e1; e = wr b (UART_IER e) 0 e; e = wr b (UART_FCR e) 7 e; e = wr b (UART_FCR e) 1 e;
      e = wr b (UART_LCR e) 0x83 e; e = wr b (UART_DATA e) v e; e = wr b (UART_IER e) 0 e; e = wr b (UART_LCR e) 3 e
      in wr b (UART_IER e) 0x40 e)" unfolding SerialInit_def Let_def e1_def ..
  ultimately show "beside st e (SerialInit b s v e0)" and "UART (SerialInit b s v e0) \<in> uarts"
    using uart_outside [OF u] by (simp_all add: UART_IER_def UART_FCR_def UART_LCR_def UART_DATA_def beside_step(1) [OF assms(1)])
qed

lemma UART_chips [simp]:
  "UART (FB29LVx_WriteMemoryShort b a d e) = UART e" "UART (snd (FB29LVx_ReadMemoryShort b a e)) = UART e"
  "UART (CS8900_WriteToPPR b r v e) = UART e" "UART (snd (CS8900_ReadFromPPR b r e)) = UART e" "UART (snd (rd16 b a e)) = UART e"
  "UART (fold (\<lambda>x. CS8900_WriteToPPR b (fst x) (snd x)) xs e) = UART e"
proof -
  show p: "UART (CS8900_WriteToPPR b r v e) = UART e" for r v e by (simp add: CS8900_WriteToPPR_def wr16_def)
  show "UART (fold (\<lambda>x. CS8900_WriteToPPR b (fst x) (snd x)) xs e) = UART e" by (induction xs arbitrary: e) (auto simp: p)
qed (simp_all add: FB29LVx_WriteMemoryShort_def FB29LVx_Wait_def FB29LVx_ReadMemoryShort_def CS8900_ReadFromPPR_def rd16_def wr16_def Let_def case_prod_beta)

lemma flash_write_beside:
  assumes "nand_at b p st" and "beside st e e0" and "outside a"
  shows "beside st e (FB29LVx_WriteMemoryShort b a d e0)" and "beside st e (snd (FB29LVx_ReadMemoryShort b a e0))"
  unfolding FB29LVx_WriteMemoryShort_def FB29LVx_ReadMemoryShort_def case_prod_beta Let_def
  using beside_step [OF assms(1,2)] assms(3) by (simp_all add: beside_wait [OF assms(1)])

lemma BootFlash_Init_beside:
  assumes "nand_at b p st" and "beside st e e0"
  shows "beside st e (snd (BootFlash_Init b e0)) \<and> UART (snd (BootFlash_Init b e0)) = UART e0"
proof -
  note w = flash_write_beside [OF assms(1)]
  have o: "outside 0" "outside 2" "outside 0xAAA" "outside 0x554" by (simp_all add: outside_def NAND_BASE_def)
  define e1 where "e1 = FB29LVx_CMD_READID_SETUP b 0 (FB29LVx_CMD_RESET b 0 (say ''Boot Flash Check ......................'' [] e0))"
  have e1: "beside st e e1" "UART e1 = UART e0" unfolding e1_def FB29LVx_CMD_READID_SETUP_def FB29LVx_CMD_RESET_def Let_def
    by (simp_all add: w beside_pure(1) [OF assms(2)] o)
  define e2 where "e2 = snd (FB29LVx_ReadMemoryShort b 0 e1)"
  have e2: "beside st e e2" "UART e2 = UART e0" unfolding e2_def by (simp_all add: w e1 o)
  define e3 where "e3 = FB29LVx_CMD_RESET b 0 (snd (FB29LVx_ReadMemoryShort b (0 + 2) e2))"
  have e3: "beside st e e3" "UART e3 = UART e0" unfolding e3_def FB29LVx_CMD_RESET_def by (simp_all add: w e2 o)
  show ?thesis
    unfolding BootFlash_Init_def FB29LVx_Detect_def Let_def case_prod_beta e1_def [symmetric] e2_def [symmetric] e3_def [symmetric]
    using e3 by (auto split: option.splits intro!: beside_pure)
qed

lemma ppr_beside:
  assumes "nand_at b p st" and "beside st e e0"
  shows "beside st e (CS8900_WriteToPPR b r v e0)" and "beside st e (snd (CS8900_ReadFromPPR b r e0))"
    and "beside st e (snd (rd16 b CS8900_PPPTR e0))" and "beside st e (wr b (CS8900_BASE + 1) w e0)"
    and "beside st e (fold (\<lambda>x. CS8900_WriteToPPR b (fst x) (snd x)) xs e0)"
proof -
  have o: "outside CS8900_PPPTR" "outside CS8900_PPDATA" "outside (CS8900_BASE + 1)"
    by (simp_all add: CS8900_PPPTR_def CS8900_PPDATA_def CS8900_BASE_def outside_def NAND_BASE_def)
  note s = beside_step [OF assms(1)]
  have p: "beside st e (CS8900_WriteToPPR b r v e1)" if "beside st e e1" for r v e1
    using that unfolding CS8900_WriteToPPR_def wr16_def by (simp add: s o)
  show "beside st e (CS8900_WriteToPPR b r v e0)" using assms(2) by (rule p)
  show "beside st e (fold (\<lambda>x. CS8900_WriteToPPR b (fst x) (snd x)) xs e0)" using assms(2) by (induction xs arbitrary: e0) (auto simp: p)
  show "beside st e (snd (CS8900_ReadFromPPR b r e0))" "beside st e (snd (rd16 b CS8900_PPPTR e0))" "beside st e (wr b (CS8900_BASE + 1) w e0)"
    unfolding CS8900_ReadFromPPR_def rd16_def wr16_def case_prod_beta Let_def by (simp_all add: s assms(2) o)
qed

lemma CS8900_Init_beside:
  assumes "nand_at b p st" and "beside st e e0"
  shows "beside st e (snd (CS8900_Init b e0)) \<and> UART (snd (CS8900_Init b e0)) = UART e0"
  unfolding CS8900_Init_def Let_def case_prod_beta
  using assms(2) by (simp add: beside_pure ppr_beside [OF assms(1)])

section \<open>Waiting\<close>

text \<open>The counter of the OS timer leaves 0, as it is set back by \<open>TimerInit\<close>.\<close>

definition counts :: "'h bus \<Rightarrow> ('h \<Rightarrow> nat) \<Rightarrow> bool" where
  "counts b w \<longleftrightarrow> (\<forall>h. fst (bus_rd b OSCR h) \<noteq> 0 \<or> w (snd (bus_rd b OSCR h)) < w h)"

lemma timer_outside [simp]:
  "outside OSCR" "outside OSSR" "outside OIER" "outside OSMR0" "outside OSMR1" "outside OSMR3" "outside OWER"
  by (simp_all add: OSCR_def OSSR_def OIER_def OSMR0_def OSMR1_def OSMR3_def OWER_def)

lemma TimerInit_beside:
  assumes "nand_at b p st" and "counts b w" and "beside st e e0"
  shows "\<exists>e'. TimerInit b e0 = Some e' \<and> beside st e e'"
proof -
  have "\<exists>v e'. wait_reg b OSCR (\<lambda>v. v \<noteq> 0) e1 = Some (v, e') \<and> beside st e e'" if "beside st e e1" for e1
    using that
  proof (induction "w (e_dev e1)" arbitrary: e1 rule: less_induct)
    case less
    obtain v e2 where r: "rd b OSCR e1 = (v, e2)" by fastforce
    have s: "beside st e e2" using beside_step(2) [OF assms(1) less.prems, of OSCR] r by simp
    have d: "fst (bus_rd b OSCR (e_dev e1)) = v" "snd (bus_rd b OSCR (e_dev e1)) = e_dev e2" using r by (auto simp: rd_def case_prod_beta)
    show ?case
    proof (cases "v = 0")
      case True
      then have "w (e_dev e2) < w (e_dev e1)" using assms(2) d unfolding counts_def by metis
      from less.hyps [OF this s] True r show ?thesis by (subst wait_reg.simps) simp
    next
      case False
      with r s show ?thesis by (subst wait_reg.simps) simp
    qed
  qed
  from this [of "wr b OIER 0 (wr b OSCR 0 e0)"] obtain v e1 where
    "wait_reg b OSCR (\<lambda>v. v \<noteq> 0) (wr b OIER 0 (wr b OSCR 0 e0)) = Some (v, e1)" "beside st e e1"
    using beside_step(1) [OF assms(1)] assms(3) by auto
  then show ?thesis unfolding TimerInit_def by (auto intro!: beside_pure beside_step [OF assms(1)])
qed

lemma wait_overflow_beside:
  assumes "nand_at b p st" and "timer_runs b w"
  shows "beside st e e0 \<Longrightarrow> \<exists>e'. wait_overflow b 0 e0 = Some e' \<and> beside st e e' \<and> UART e' = UART e0"
proof (induction "w (e_dev e0)" arbitrary: e0 rule: less_induct)
  case less
  obtain v e2 where r: "rd b OSSR e0 = (v, e2)" by fastforce
  have s: "beside st e e2" "UART e2 = UART e0" using beside_step(2) [OF assms(1) less.prems, of OSSR] UART_frame(3) [of b OSSR e0] r by simp_all
  have d: "fst (bus_rd b OSSR (e_dev e0)) = v" "snd (bus_rd b OSSR (e_dev e0)) = e_dev e2" using r by (auto simp: rd_def case_prod_beta)
  have t: "TimeOverflow b 0 e0 = (v AND 1, e2)" by (simp add: TimeOverflow_def r timer_bit_def)
  show ?case
  proof (cases "v AND 1 = 0")
    case True
    then have "w (e_dev e2) < w (e_dev e0)" using assms(2) d unfolding timer_runs_def by metis
    from less.hyps [OF this s(1)] True t s(2) show ?thesis by (subst wait_overflow.simps) auto
  next
    case False
    with t s show ?thesis by (subst wait_overflow.simps) simp
  qed
qed

lemma msleep_beside:
  assumes "nand_at b p st" and "timer_runs b w" and "beside st e e0"
  shows "\<exists>e'. msleep b ms e0 = Some e' \<and> beside st e e' \<and> UART e' = UART e0"
proof -
  have "beside st e (ReloadTimer b 0 ms e0)" "UART (ReloadTimer b 0 ms e0) = UART e0"
    unfolding ReloadTimer_def Let_def case_prod_beta by (simp_all add: OSMR_def beside_step [OF assms(1)] assms(3))
  then obtain e1 where "wait_overflow b 0 (ReloadTimer b 0 ms e0) = Some e1" "beside st e e1" "UART e1 = UART e0"
    using wait_overflow_beside [OF assms(1,2)] by metis
  then show ?thesis unfolding msleep_def FreeTimer_def by (auto intro!: beside_step [OF assms(1)])
qed

lemma leds_beside:
  assumes "nand_at b p st" and "beside st e e0"
  shows "beside st e (set_leds b on e0)" and "UART (set_leds b on e0) = UART e0"
proof -
  have o: "outside GPCR0" "outside GPSR0" by (simp_all add: GPCR0_def GPSR0_def)
  have l: "beside st e (GPIO_SetLED b i x e1) \<and> UART (GPIO_SetLED b i x e1) = UART e1" if "beside st e e1" for i x e1
    using that o by (simp add: GPIO_SetLED_def Let_def beside_step [OF assms(1)])
  show "beside st e (set_leds b on e0)" "UART (set_leds b on e0) = UART e0"
    unfolding set_leds_def using l assms(2) by simp_all
qed

lemma LedBlink_beside:
  assumes "nand_at b p st" and "timer_runs b w" and "beside st e e0"
  shows "\<exists>e'. LedBlink b e0 = Some e' \<and> beside st e e' \<and> UART e' = UART e0"
proof -
  let ?d = "if cfg32 O_AutoBootWaitTime e0 \<ge> 2 then 250 else 50 :: u32"
  obtain e1 where e1: "msleep b ?d (set_leds b [True, False, True, False] e0) = Some e1" "beside st e e1" "UART e1 = UART e0"
    using msleep_beside [OF assms(1,2) leds_beside(1) [OF assms(1,3)]] leds_beside(2) [OF assms(1,3)] by metis
  obtain e2 where e2: "msleep b ?d (set_leds b [False, True, False, True] e1) = Some e2" "beside st e e2" "UART e2 = UART e0"
    using msleep_beside [OF assms(1,2) leds_beside(1) [OF assms(1) e1(2)]] leds_beside(2) [OF assms(1) e1(2)] e1(3) by metis
  then show ?thesis using e1(1) leds_beside [OF assms(1) e2(2)] unfolding LedBlink_def Let_def by simp
qed

section \<open>The start-up\<close>

lemma read_outside: "nand_at b p st \<Longrightarrow> outside r \<Longrightarrow> rd b r e = (v, e1) \<Longrightarrow> st (e_dev e1) = st (e_dev e) \<and> same_loader e e1"
  unfolding nand_at_def outside_def by (auto simp: rd_def same_loader_def case_prod_beta)

lemma copy_from_flash_beside:
  assumes "nand_at b p st"
  shows "unat src + n \<le> 0x04000000 \<Longrightarrow> st (e_dev (copy_from_flash n b dst src e)) = st (e_dev e) \<and> same_loader e (copy_from_flash n b dst src e)"
proof (induction n arbitrary: dst src e)
  case (Suc n)
  obtain v e1 where r: "rd b src e = (v, e1)" by fastforce
  have "outside src" using Suc.prems by (simp add: outside_def NAND_BASE_def word_less_nat_alt)
  then have e1: "st (e_dev e1) = st (e_dev e)" "same_loader e e1"
    using read_outside [OF assms _ r] by blast+
  let ?e2 = "with_mem (\<lambda>m. m(dst := ucast v)) e1"
  have e2: "st (e_dev ?e2) = st (e_dev e)" "same_loader e ?e2" using e1 same_loader_next(6) [of e e1] same_loader_trans [OF e1(2) same_loader_ops(6)] by simp_all
  have "unat (src + 1) = unat src + 1" using Suc.prems by (simp add: unat_word_ariths)
  with Suc.IH [of "src + 1" "dst + 1" ?e2] Suc.prems e2 show ?case
    by (auto simp: r intro: same_loader_trans)
qed simp

lemma LoadConfig_beside:
  assumes "nand_at b p st"
  shows "st (e_dev (LoadConfig b e)) = st (e_dev e)" and "same_loader e (LoadConfig b e)"
proof -
  obtain v e1 where r: "rd b DEFAULT_BOOT_PARAM e = (v, e1)" by fastforce
  have "outside DEFAULT_BOOT_PARAM" by (simp add: outside_def NAND_BASE_def DEFAULT_BOOT_PARAM_def)
  then have e1: "st (e_dev e1) = st (e_dev e)" "same_loader e e1"
    using read_outside [OF assms _ r] by blast+
  have "unat DEFAULT_BOOT_PARAM + CFG_SIZE \<le> 0x04000000" by (simp add: DEFAULT_BOOT_PARAM_def CFG_SIZE_def)
  from copy_from_flash_beside [OF assms this, of "obj e1 ''Cfg''" e1] e1 r
  show "st (e_dev (LoadConfig b e)) = st (e_dev e)" "same_loader e (LoadConfig b e)"
    using same_loader_trans [OF e1(2) same_loader_ops(6)]
    by (auto simp: LoadConfig_def Let_def intro: same_loader_trans)
qed

lemma powered_beside: "beside st e e' \<Longrightarrow> powered p st c0 c1 e' = powered p st c0 c1 e"
  unfolding powered_def beside_def same_loader_def NandPar_def cfg_at_def by (elim conjE) (simp only:)

lemma UART_nand [simp]:
  "UART (dummy_read b r e) = UART e" "UART (send_row b a e) = UART e" "UART (set_nand f e) = UART e" "UART (snd (nand_byte b e)) = UART e"
  "UART (NAND_AddressSetupWait b e) = UART e"
  by (simp_all add: NAND_AddressSetupWait_def dummy_read_def rd_def send_row_def set_nand_def nand_byte_def Let_def case_prod_beta)

lemma CheckBadBlock_UART: "NAND_CheckBadBlock b i e = Some (ok, e') \<Longrightarrow> UART e' = UART e"
  unfolding NAND_CheckBadBlock_def Let_def case_prod_beta by (auto split: if_splits)

lemma scan_blocks_UART: "scan_blocks n i b e = Some e' \<Longrightarrow> UART e' = UART e"
proof (induction n arbitrary: i e)
  case (Suc n)
  then obtain ok e1 where c: "NAND_CheckBadBlock b i e = Some (ok, e1)" by (auto split: Option.bind_splits)
  from Suc.IH Suc.prems CheckBadBlock_UART [OF c] show ?case by (cases ok) (auto simp: c)
qed simp

lemma NandFlash_Init_UART: "NandFlash_Init b e = Some (r, e') \<Longrightarrow> UART e' = UART e"
proof -
  have p: "UART (NAND_Par_Fixup e) = UART e" by (simp add: NAND_Par_Fixup_def Let_def)
  have s: "UART e2 = UART e1" if "NAND_ScanBadBlock b e1 = Some (c, e2)" for e1 c e2
    using that scan_blocks_UART by (fastforce simp: NAND_ScanBadBlock_def Let_def split: Option.bind_splits)
  have "UART e2 = UART e1" if "NAND_DETECT b a e1 = Some (ok, e2)" for a e1 ok e2
    using that unfolding NAND_DETECT_def Let_def case_prod_beta
    by (auto split: option.splits Option.bind_splits dest!: s)
  then show "NandFlash_Init b e = Some (r, e') \<Longrightarrow> UART e' = UART e"
    using p by (auto simp: NandFlash_Init_def split: Option.bind_splits)
qed

text \<open>After \<open>boot_init\<close>: the configuration is loaded, the NAND flash found and scanned, and a serial line chosen.\<close>

lemma boot_init_ends:
  assumes "nand_at b p st" and "known_chip p" and "timer_runs b w" and "counts b v" and "powered p st c0 c1 (LoadConfig b e)"
  shows "\<exists>e'. boot_init b e = Some e' \<and> ready p st e' \<and> scanned p (st (e_dev e')) e' c0 c1 \<and> UART e' \<in> uarts \<and>
    pages (st (e_dev e')) = pages (st (e_dev e)) \<and> e_mem e' = e_mem (LoadConfig b e) \<and> e_addr e' = e_addr e"
proof -
  define e0 where "e0 = LoadConfig b e"
  have b0: "beside st e0 e0" by (rule beside_refl) (use assms(5) in \<open>simp add: powered_def e0_def\<close>)
  obtain e1 where e1: "TimerInit b e0 = Some e1" "beside st e0 e1" using TimerInit_beside [OF assms(1,4) b0] by blast
  define e2 where "e2 = SerialInit b (cfg32 O_SeriaNumber e1) BAUD_115200 e1"
  have e2: "beside st e0 e2" "UART e2 \<in> uarts" unfolding e2_def using SerialInit_beside [OF assms(1) e1(2)] by simp_all
  define e3 where "e3 = say ''Last Modify %s'' [obj (with_zm (\<lambda>z. z\<lparr>ZModem_Baudrate := 115200\<rparr>) e2) ''__DATE__''] (say ''Program by You Young-chang, fooji (FALinux Co.,Ltd)'' []
    (say ''WELCOME EZBOOT.X5 V1.8...................for PXA255'' [] (say [NL, NL] [] (with_zm (\<lambda>z. z\<lparr>ZModem_Baudrate := 115200\<rparr>) e2))))"
  have e3: "beside st e0 e3" "UART e3 \<in> uarts" unfolding e3_def using e2 by (simp_all add: beside_pure) (simp add: with_zm_def)
  obtain e4 where e4: "LedBlink b e3 = Some e4" "beside st e0 e4" "UART e4 = UART e3" using LedBlink_beside [OF assms(1,3) e3(1)] by blast
  define e5 where "e5 = say [NL] [] (snd (BootFlash_Init b e4))"
  have e5: "beside st e0 e5" "UART e5 = UART e3" unfolding e5_def using BootFlash_Init_beside [OF assms(1) e4(2)] e4(3) by (simp_all add: beside_pure)
  have p5: "powered p st c0 c1 e5" using powered_beside [OF e5(1)] assms(5) by (simp add: e0_def)
  obtain e6 where e6: "NandFlash_Init b e5 = Some (0, e6)" "ready p st e6" "scanned p (st (e_dev e6)) e6 c0 c1"
    "pages (st (e_dev e6)) = pages (st (e_dev e5))" "e_mem e6 = e_mem e5" "e_addr e6 = e_addr e5"
    using NandFlash_Init_chip [OF assms(1,2) p5] by blast
  have u6: "UART e6 = UART e5" by (rule NandFlash_Init_UART [OF e6(1)])
  have b6: "beside st e6 e6" by (rule beside_refl) (use e6(2) in \<open>simp add: ready_def\<close>)
  define e7 where "e7 = say [NL] [] (snd (CS8900_Init b (say [NL] [] e6)))"
  have e7: "beside st e6 e7" "UART e7 = UART e3" unfolding e7_def
    using CS8900_Init_beside [OF assms(1) beside_pure(1) [OF b6], of "[NL]" "[]"] u6 e5(2) by (simp_all add: beside_pure)
  have l7: "same_loader e6 e7" using e7(1) by (simp add: beside_def)
  have d7: "st (e_dev e7) = st (e_dev e6)" "e_mem e7 = e_mem e6" using e7(1) by (simp_all add: beside_def)
  have "boot_init b e = Some e7"
    unfolding boot_init_def using e1(1) e4(1) e6(1)
    by (simp add: e0_def [symmetric] e2_def [symmetric] e3_def [symmetric] Let_def case_prod_beta e5_def [symmetric] e7_def [symmetric])
  moreover have "ready p st e7" using e6(2) fits_same [OF l7] d7(1) by (simp add: ready_def)
  moreover have "scanned p (st (e_dev e7)) e7 c0 c1" using scanned_same [OF l7] e6(3) d7(1) by simp
  moreover have "pages (st (e_dev e7)) = pages (st (e_dev e))" "e_mem e7 = e_mem e0" "e_addr e7 = e_addr e"
    using d7 e6(4-6) e5(1) l7 LoadConfig_beside [OF assms(1), of e] by (simp_all add: beside_def same_loader_def e0_def)
  ultimately show ?thesis using e7(2) e3(2) by (auto simp: e0_def)
qed

section \<open>Nobody presses a key\<close>

text \<open>No character arrives at the serial line \<open>u\<close>, and looking for one does not set the timer back.\<close>

definition no_key :: "'h bus \<Rightarrow> u32 \<Rightarrow> ('h \<Rightarrow> nat) \<Rightarrow> bool" where
  "no_key b u w \<longleftrightarrow> (\<forall>h. fst (bus_rd b (u + 20) h) AND LSR_DR = 0 \<and> w (snd (bus_rd b (u + 20) h)) \<le> w h \<and>
     w (snd (bus_rd b OSSR h)) \<le> w h \<and> w (snd (bus_rd b OSCR h)) \<le> w h \<and>
     (\<forall>v. w (bus_wr b OSMR1 v h) \<le> w h) \<and> w (bus_wr b OSSR OSSR_M1 h) \<le> w h)"

lemma key_loop_ends:
  assumes "nand_at b p st" and "timer_runs b w" and "u \<in> uarts" and "no_key b u w"
  shows "beside st e e0 \<Longrightarrow> UART e0 = u \<Longrightarrow> \<exists>e'. key_loop b k e0 = Some (-1, e') \<and> beside st e e'"
proof (induction "w (e_dev e0)" arbitrary: e0 rule: less_induct)
  case less
  note step = beside_step [OF assms(1)]
  have n: "fst (bus_rd b (u + 20) h) AND LSR_DR = 0" "w (snd (bus_rd b (u + 20) h)) \<le> w h" "w (snd (bus_rd b OSSR h)) \<le> w h"
    "w (snd (bus_rd b OSCR h)) \<le> w h" "w (bus_wr b OSMR1 v h) \<le> w h" "w (bus_wr b OSSR OSSR_M1 h) \<le> w h" for h v
    using assms(4) unfolding no_key_def by blast+
  have o: "outside (u + 20)" using uart_outside [OF assms(3)] by simp
  obtain v1 e1 where r1: "rd b OSSR e0 = (v1, e1)" by fastforce
  have e1: "beside st e e1" "UART e1 = u" "fst (bus_rd b OSSR (e_dev e0)) = v1" "snd (bus_rd b OSSR (e_dev e0)) = e_dev e1"
    using step(2) [OF less.prems(1), of OSSR] UART_frame(3) [of b OSSR e0] less.prems(2) r1 by (auto simp: rd_def case_prod_beta)
  show ?case
  proof (cases "v1 AND OSSR_M0 = 0")
    case False
    then have "key_loop b k e0 = Some (-1, wr b OIER 0 e1)" by (subst key_loop.simps) (simp add: r1)
    then show ?thesis using step(1) [OF e1(1)] by auto
  next
    case True
    then have lt: "w (e_dev e1) < w (e_dev e0)" using assms(2) e1(3,4) unfolding timer_runs_def OSSR_M0_def by metis
    obtain v2 e2 where r2: "rd b (u + 20) e1 = (v2, e2)" by fastforce
    have e2: "beside st e e2" "UART e2 = u" "v2 AND LSR_DR = 0" "w (e_dev e2) \<le> w (e_dev e1)"
      using step(2) [OF e1(1) o] UART_frame(3) [of b "u + 20" e1] e1(2) r2 n(1,2) [of "e_dev e1"] by (auto simp: rd_def case_prod_beta)
    have rc: "SerialIsReadyChar b e1 = (False, e2)" by (simp add: SerialIsReadyChar_def UART_LSR_def e1(2) r2 e2(3))
    obtain v3 e3 where r3: "rd b OSSR e2 = (v3, e3)" by fastforce
    have e3: "beside st e e3" "UART e3 = u" "w (e_dev e3) \<le> w (e_dev e2)"
      using step(2) [OF e2(1), of OSSR] UART_frame(3) [of b OSSR e2] e2(2) r3 n(3) [of "e_dev e2"] by (auto simp: rd_def case_prod_beta)
    define e4 where "e4 = wr b OSSR OSSR_M1 e3"
    have e4: "beside st e e4" "UART e4 = u" "w (e_dev e4) \<le> w (e_dev e3)" unfolding e4_def using step(1) [OF e3(1), of OSSR] e3(2) n(6) by simp_all
    obtain now e5 where r5: "rd b OSCR e4 = (now, e5)" by fastforce
    have e5: "beside st e e5" "UART e5 = u" "w (e_dev e5) \<le> w (e_dev e4)"
      using step(2) [OF e4(1), of OSCR] UART_frame(3) [of b OSCR e4] e4(2) r5 n(4) [of "e_dev e4"] by (auto simp: rd_def case_prod_beta)
    define e6 where "e6 = (if v3 AND OSSR_M1 \<noteq> 0 then say ''.'' [] (wr b OSMR1 (now + halfsec) e5) else e3)"
    have e6: "beside st e e6" "UART e6 = u" "w (e_dev e6) \<le> w (e_dev e3)"
      using e3 e5 e4(3) n(5) [of "now + halfsec" "e_dev e5"] unfolding e6_def by (auto intro!: beside_pure step)
    have "key_loop b k e0 = key_loop b k e6"
      by (subst key_loop.simps) (simp add: r1 True rc r3 e4_def [symmetric] r5 e6_def cong: if_cong)
    moreover have "w (e_dev e6) < w (e_dev e0)" using lt e2(4) e3(3) e6(3) by simp
    ultimately show ?thesis using less.hyps [OF _ e6(1,2)] by simp
  qed
qed

lemma getc_timed_ends:
  assumes "nand_at b p st" and "timer_runs b w" and "UART e0 \<in> uarts" and "no_key b (UART e0) w" and "beside st e e0"
  shows "\<exists>e'. getc_timed b k ms e0 = Some (-1, e') \<and> beside st e e'"
proof (cases "ms = 0")
  case False
  note step = beside_step [OF assms(1)]
  define e1 where "e1 = wr b OSMR0 (fst (rd b OSCR e0) + TICKS_PER_SECOND div 1000 * word_of_int ms) (wr b OSSR (OSSR_M0 OR OSSR_M1) (snd (rd b OSCR e0)))"
  have e1: "beside st e e1" "UART e1 = UART e0" unfolding e1_def by (simp_all add: step assms(5))
  define e2 where "e2 = wr b OIER (OSSR_M0 OR OSSR_M1) (wr b OSMR1 (fst (rd b OSCR e1) + halfsec) (snd (rd b OSCR e1)))"
  have e2: "beside st e e2" "UART e2 = UART e0" unfolding e2_def by (simp_all add: step e1)
  have "getc_timed b k ms e0 = key_loop b k e2"
    unfolding getc_timed_def Let_def case_prod_beta e1_def [symmetric] e2_def [symmetric] using False by simp
  then show ?thesis using key_loop_ends [OF assms(1-4) e2] by simp
qed (use assms(5) in \<open>auto simp: getc_timed_def\<close>)

section \<open>The images in memory\<close>

definition uses_ramdisk :: "'h ez \<Rightarrow> bool" where
  "uses_ramdisk e \<longleftrightarrow> cfg8 O_UseRamdisk e = 89 \<or> cfg8 O_UseRamdisk e = 121"

text \<open>Memory has a place for the configuration, the page buffer and \<open>k\<close> and \<open>r\<close> bytes of kernel and ramdisk.\<close>

definition boot_layout :: "'h ez \<Rightarrow> nat \<Rightarrow> nat \<Rightarrow> bool" where
  "boot_layout e k r \<longleftrightarrow>
     apart (obj e ''page_buff'') 512 (obj e ''Cfg'') CFG_SIZE \<and> apart (obj e ''page_buff'') 512 DEFAULT_RAM_KERNEL_START k \<and>
     apart DEFAULT_RAM_KERNEL_START k (obj e ''Cfg'') CFG_SIZE \<and> apart DEFAULT_RAM_RAMDISK_START r (obj e ''Cfg'') CFG_SIZE \<and>
     apart DEFAULT_RAM_RAMDISK_START r DEFAULT_RAM_KERNEL_START k"

lemma same_config: "read_bytes (e_mem e') (obj e ''Cfg'') CFG_SIZE = read_bytes (e_mem e) (obj e ''Cfg'') CFG_SIZE \<Longrightarrow>
    e_addr e' = e_addr e \<Longrightarrow> uses_ramdisk e' = uses_ramdisk e"
proof -
  assume r: "read_bytes (e_mem e') (obj e ''Cfg'') CFG_SIZE = read_bytes (e_mem e) (obj e ''Cfg'') CFG_SIZE" and a: "e_addr e' = e_addr e"
  have "e_mem e' (obj e ''Cfg'' + of_nat 9) = e_mem e (obj e ''Cfg'' + of_nat 9)"
    using arg_cong [OF r, of "\<lambda>l. l ! 9"] nth_read_bytes [of 9 CFG_SIZE] by (simp add: CFG_SIZE_def)
  then show ?thesis by (simp add: uses_ramdisk_def cfg8_def cfg_at_def a O_UseRamdisk_def)
qed

lemma CopyTo_SDRAM_Kernel_chip:
  assumes "nand_at b p st" and "ready p st e" and "scanned p (st (e_dev e)) e c0 c1" and "4 \<le> c0"
    and "sz < 2 ^ 31 - 511" and "image_pages sz < room (st (e_dev e)) 0 c0" and "image_in (st (e_dev e)) (c0 + c1) 0 sz img"
  obtains e' where "CopyTo_SDRAM_Kernel b dst e = Some (int (kernel_limit c0), e')" and "same_loader e e'" and "ready p st e'"
    and "pages (st (e_dev e')) = pages (st (e_dev e))" and "read_bytes (e_mem e') dst (min (kernel_limit c0) sz) = take (min (kernel_limit c0) sz) img"
    and "\<And>x k. apart (obj e ''page_buff'') 512 x k \<Longrightarrow> apart dst (512 * image_pages (min (kernel_limit c0) sz)) x k \<Longrightarrow>
      read_bytes (e_mem e') x k = read_bytes (e_mem e) x k"
proof -
  have kp: "image_part c0 c1 PARTITION_NUM_KERNEL 0 c0" by (simp add: image_part_def)
  from CopyTo_SDRAM_chip [where copy = CopyTo_SDRAM_Kernel and limit = "kernel_limit c0" and dst = dst, OF assms(1-3) kp assms(5-7)] assms(4) that
  show ?thesis by simp blast
qed

lemma CopyTo_SDRAM_Ramdisk_chip:
  assumes "nand_at b p st" and "ready p st e" and "scanned p (st (e_dev e)) e c0 c1" and "12 \<le> c1"
    and "sz < 2 ^ 31 - 511" and "image_pages sz < room (st (e_dev e)) c0 c1" and "image_in (st (e_dev e)) (c0 + c1) c0 sz img"
  obtains e' where "CopyTo_SDRAM_Ramdisk b dst e = Some (int (ramdisk_limit c1), e')" and "same_loader e e'" and "ready p st e'"
    and "pages (st (e_dev e')) = pages (st (e_dev e))" and "read_bytes (e_mem e') dst (min (ramdisk_limit c1) sz) = take (min (ramdisk_limit c1) sz) img"
    and "\<And>x k. apart (obj e ''page_buff'') 512 x k \<Longrightarrow> apart dst (512 * image_pages (min (ramdisk_limit c1) sz)) x k \<Longrightarrow>
      read_bytes (e_mem e') x k = read_bytes (e_mem e) x k"
proof -
  have rp: "image_part c0 c1 PARTITION_NUM_RAMDISK c0 c1" by (simp add: image_part_def)
  from CopyTo_SDRAM_chip [where copy = CopyTo_SDRAM_Ramdisk and limit = "ramdisk_limit c1" and dst = dst, OF assms(1-3) rp assms(5-7)] assms(4) that
  show ?thesis by simp blast
qed

lemma CopyImage_loads:
  assumes "nand_at b p st" and "ready p st e" and "scanned p (st (e_dev e)) e c0 c1" and "4 \<le> c0" and "12 \<le> c1"
    and "ksz < 2 ^ 31 - 511" and "image_pages ksz < room (st (e_dev e)) 0 c0" and "image_in (st (e_dev e)) (c0 + c1) 0 ksz kimg"
    and "rsz < 2 ^ 31 - 511" and "image_pages rsz < room (st (e_dev e)) c0 c1" and "image_in (st (e_dev e)) (c0 + c1) c0 rsz rimg"
    and "boot_layout e (512 * image_pages (min (kernel_limit c0) ksz)) (512 * image_pages (min (ramdisk_limit c1) rsz))"
  shows "\<exists>e'. CopyImage b e = Some e' \<and> same_loader e e' \<and>
    read_bytes (e_mem e') (obj e ''Cfg'') CFG_SIZE = read_bytes (e_mem e) (obj e ''Cfg'') CFG_SIZE \<and>
    read_bytes (e_mem e') DEFAULT_RAM_KERNEL_START (min (kernel_limit c0) ksz) = take (kernel_limit c0) (take ksz kimg) \<and>
    (uses_ramdisk e \<longrightarrow> read_bytes (e_mem e') DEFAULT_RAM_RAMDISK_START (min (ramdisk_limit c1) rsz) = take (ramdisk_limit c1) (take rsz rimg))"
proof -
  let ?k = "min (kernel_limit c0) ksz" let ?r = "min (ramdisk_limit c1) rsz" let ?cfg = "\<lambda>e'. read_bytes (e_mem e') (obj e ''Cfg'') CFG_SIZE"
  have kp: "image_part c0 c1 PARTITION_NUM_KERNEL 0 c0" and rp: "image_part c0 c1 PARTITION_NUM_RAMDISK c0 c1" by (simp_all add: image_part_def)
  have lay: "apart (obj e ''page_buff'') 512 (obj e ''Cfg'') CFG_SIZE" "apart (obj e ''page_buff'') 512 DEFAULT_RAM_KERNEL_START ?k"
    "apart DEFAULT_RAM_KERNEL_START (512 * image_pages ?k) (obj e ''Cfg'') CFG_SIZE" "apart DEFAULT_RAM_RAMDISK_START (512 * image_pages ?r) (obj e ''Cfg'') CFG_SIZE"
    "apart DEFAULT_RAM_RAMDISK_START (512 * image_pages ?r) DEFAULT_RAM_KERNEL_START ?k"
    using assms(12) apart_less [OF _ image_pages_le(1) [of ?k]] unfolding boot_layout_def by blast+
  define e0 where "e0 = say ''Copy Kernel Image .....'' [] e"
  have e0: "e_dev e0 = e_dev e" "e_mem e0 = e_mem e" "same_loader e e0" "e_addr e0 = e_addr e" by (simp_all add: e0_def)
  have r0: "ready p st e0" "scanned p (st (e_dev e0)) e0 c0 c1" using assms(2,3) fits_same [OF e0(3)] scanned_same [OF e0(3)] e0(1) by (simp_all add: ready_def)
  have i0: "image_pages ksz < room (st (e_dev e0)) 0 c0" "image_in (st (e_dev e0)) (c0 + c1) 0 ksz kimg" using assms(7,8) by (simp_all add: e0(1))
  obtain e1 where e1: "CopyTo_SDRAM_Kernel b DEFAULT_RAM_KERNEL_START e0 = Some (int (kernel_limit c0), e1)" "same_loader e0 e1" "ready p st e1"
    "pages (st (e_dev e1)) = pages (st (e_dev e))" "read_bytes (e_mem e1) DEFAULT_RAM_KERNEL_START ?k = take ?k kimg"
    and o1: "\<And>x k. apart (obj e ''page_buff'') 512 x k \<Longrightarrow> apart DEFAULT_RAM_KERNEL_START (512 * image_pages ?k) x k \<Longrightarrow>
      read_bytes (e_mem e1) x k = read_bytes (e_mem e) x k"
    by (rule CopyTo_SDRAM_Kernel_chip [where dst = DEFAULT_RAM_KERNEL_START, OF assms(1) r0 assms(4,6) i0, unfolded e0(1,2,4)]) blast
  have c1: "?cfg e1 = ?cfg e" using o1 [OF lay(1,3)] .
  have l1: "same_loader e e1" using same_loader_trans [OF e0(3) e1(2)] .
  have u1: "uses_ramdisk e1 = uses_ramdisk e" using same_config [OF c1] l1 by (simp add: same_loader_def)
  have kt: "take (kernel_limit c0) (take ksz kimg) = take ?k kimg" "take (ramdisk_limit c1) (take rsz rimg) = take ?r rimg" by simp_all
  show ?thesis
  proof (cases "uses_ramdisk e")
    case False
    then have "CopyImage b e = Some e1" unfolding CopyImage_def e0_def [symmetric] using e1(1) u1 by (simp add: uses_ramdisk_def)
    with l1 e1(5) c1 False show ?thesis unfolding kt by blast
  next
    case True
    define e2 where "e2 = say ''Copy Ramdisk Image .....'' [] e1"
    have e2: "e_dev e2 = e_dev e1" "e_mem e2 = e_mem e1" "same_loader e e2" "e_addr e2 = e_addr e"
      using l1 same_loader_next(3) [OF l1] by (simp_all add: e2_def same_loader_def)
    have m: "marked (st (e_dev e2)) = marked (st (e_dev e))" using e1(4) e2(1) by (simp add: marked_def fun_eq_iff)
    have r2: "ready p st e2" "scanned p (st (e_dev e2)) e2 c0 c1" using assms(2,3) e1(3) fits_same [OF e2(3)] scanned_same [OF e2(3) m] e2(1)
      by (simp_all add: ready_def)
    have i2: "image_in (st (e_dev e2)) (c0 + c1) c0 rsz rimg"
      by (rule image_in_cong [OF assms(11) rp assms(10) m]) (simp add: page_bytes_def e2(1) e1(4))
    have rm: "image_pages rsz < room (st (e_dev e2)) c0 c1" using assms(10) room_cong [OF m] by simp
    obtain e3 where e3: "CopyTo_SDRAM_Ramdisk b DEFAULT_RAM_RAMDISK_START e2 = Some (int (ramdisk_limit c1), e3)" "same_loader e2 e3"
      "read_bytes (e_mem e3) DEFAULT_RAM_RAMDISK_START ?r = take ?r rimg"
      and o3: "\<And>x k. apart (obj e ''page_buff'') 512 x k \<Longrightarrow> apart DEFAULT_RAM_RAMDISK_START (512 * image_pages ?r) x k \<Longrightarrow>
        read_bytes (e_mem e3) x k = read_bytes (e_mem e2) x k"
      by (rule CopyTo_SDRAM_Ramdisk_chip [where dst = DEFAULT_RAM_RAMDISK_START, OF assms(1) r2 assms(5,9) rm i2, unfolded e2(4)]) blast
    note c3 = o3 [OF lay(1,4)] o3 [OF lay(2,5)]
    have "CopyImage b e = Some e3" unfolding CopyImage_def e0_def [symmetric] using e1(1) e3(1) u1 True
      by (simp add: uses_ramdisk_def e2_def [symmetric])
    moreover have "?cfg e3 = ?cfg e" "read_bytes (e_mem e3) DEFAULT_RAM_KERNEL_START ?k = take ?k kimg" using c3 c1 e1(5) unfolding e2(2) by simp_all
    ultimately show ?thesis using e3(3) same_loader_trans [OF e2(3) e3(2)] unfolding kt by blast
  qed
qed

section \<open>From power-on to the kernel\<close>

text \<open>\<open>GoKernel\<close> does not come back to the shell.\<close>

lemma GoKernel_jumps: "GoKernel b e = Some (Back e') \<Longrightarrow> False"
  by (auto simp: GoKernel_def GoKernelSingle_def Let_def split: Option.bind_splits)

text \<open>
  C28: An unattended boot starts the stored kernel. The board is powered on with no start option in memory and nobody types; the
  NAND flash, a known chip that behaves as its data sheet says and has a page fetched by the end of the driver's delay, holds a kernel and a
  ramdisk in their partitions, as the loader stores them (\<open>image_in\<close>); the timers run, and configuration, buffers and images do not overlap (\<open>boot_layout\<close>). Then \<open>ez_main\<close> is
  \<open>GoKernel\<close> on a state in which the kernel is at its start address, the ramdisk, if the configuration asks for it, at its own (both
  up to the size that is copied), and the configuration is the one that was loaded: the wait ends, the shell is not entered.
\<close>
theorem unattended_boot:
  assumes "nand_at b p st" and "known_chip p" and "timer_runs b w" and "counts b w'" and "\<forall>u \<in> uarts. no_key b u w"
    and "powered p st c0 c1 (LoadConfig b e)" and "0 < c0" and "0 < c1" and "ld32 (e_mem e) DEFAULT_RAM_KERNEL_ZERO_PAGE = 0"
    and "ksz < 2 ^ 31 - 511" and "image_pages ksz < room (st (e_dev e)) 0 c0" and "image_in (st (e_dev e)) (c0 + c1) 0 ksz kimg"
    and "rsz < 2 ^ 31 - 511" and "image_pages rsz < room (st (e_dev e)) c0 c1" and "image_in (st (e_dev e)) (c0 + c1) c0 rsz rimg"
    and "boot_layout e (512 * image_pages (min (kernel_limit c0) ksz)) (512 * image_pages (min (ramdisk_limit c1) rsz))"
  shows "\<exists>e'. ez_main b stale e = GoKernel b e' \<and> e_addr e' = e_addr e \<and>
    read_bytes (e_mem e') (obj e ''Cfg'') CFG_SIZE = read_bytes (e_mem (LoadConfig b e)) (obj e ''Cfg'') CFG_SIZE \<and>
    read_bytes (e_mem e') DEFAULT_RAM_KERNEL_START (min (kernel_limit c0) ksz) = take (kernel_limit c0) (take ksz kimg) \<and>
    (uses_ramdisk e' \<longrightarrow> read_bytes (e_mem e') DEFAULT_RAM_RAMDISK_START (min (ramdisk_limit c1) rsz) = take (ramdisk_limit c1) (take rsz rimg))"
proof -
  let ?s = "st (e_dev e)"
  have kp: "image_part c0 c1 PARTITION_NUM_KERNEL 0 c0" and rp: "image_part c0 c1 PARTITION_NUM_RAMDISK c0 c1" by (simp_all add: image_part_def)
  have c: "4 \<le> c0" "12 \<le> c1" using assms(6-8) by (auto simp: powered_def)
  obtain e1 where e1: "boot_init b e = Some e1" "ready p st e1" "scanned p (st (e_dev e1)) e1 c0 c1" "UART e1 \<in> uarts"
    "pages (st (e_dev e1)) = pages ?s" "e_mem e1 = e_mem (LoadConfig b e)" "e_addr e1 = e_addr e"
    using boot_init_ends [OF assms(1-4,6)] by blast
  define e2 where "e2 = (if cfg8 O_BootMenuKey e1 = 32 then say ''Goto BOOT-MENU press [space bar]'' [] (say ''Quickly Autoboot [ENTER] / '' [] e1)
    else say ''Goto BOOT-MENU press [%c]'' [ucast (cfg8 O_BootMenuKey e1)] (say ''Quickly Autoboot [ENTER] / '' [] e1))"
  have e2: "beside st e1 e2" "UART e2 = UART e1" unfolding e2_def using e1(2) by (auto simp: ready_def intro!: beside_pure beside_refl)
  have cfg: "cfg8 x (say t l e') = cfg8 x e'" "cfg32 x (say t l e') = cfg32 x e'" for x t l e'
    by (simp_all add: cfg8_def cfg32_def cfg_at_def)
  obtain e3 where e3: "getc_timed b (cfg8 O_BootMenuKey e1) (wrap32 (sint (cfg32 O_AutoBootWaitTime e1) * 1000)) e2 = Some (-1, e3)" "beside st e1 e3"
    using getc_timed_ends [OF assms(1,3) _ _ e2(1)] e1(4) e2(2) assms(5) by metis
  define e4 where "e4 = say [NL] [] e3"
  have e4: "beside st e1 e4" unfolding e4_def by (rule beside_pure(1) [OF e3(2)])
  then have l4: "same_loader e1 e4" "st (e_dev e4) = st (e_dev e1)" "e_mem e4 = e_mem e1" "e_addr e4 = e_addr e" using e1(7) by (simp_all add: beside_def same_loader_def)
  have m: "marked (st (e_dev e4)) = marked ?s" using e1(5) l4(2) by (simp add: marked_def fun_eq_iff)
  have r4: "ready p st e4" "scanned p (st (e_dev e4)) e4 c0 c1" using e1(2,3) fits_same [OF l4(1)] scanned_same [OF l4(1)] l4(2) by (simp_all add: ready_def)
  have rm: "image_pages ksz < room (st (e_dev e4)) 0 c0" "image_pages rsz < room (st (e_dev e4)) c0 c1" using assms(11,14) room_cong [OF m] by simp_all
  have im: "image_in (st (e_dev e4)) (c0 + c1) 0 ksz kimg" "image_in (st (e_dev e4)) (c0 + c1) c0 rsz rimg"
    using image_in_cong [OF assms(12) kp assms(11) m] image_in_cong [OF assms(15) rp assms(14) m] e1(5) l4(2) by (simp_all add: page_bytes_def)
  have lay: "boot_layout e4 (512 * image_pages (min (kernel_limit c0) ksz)) (512 * image_pages (min (ramdisk_limit c1) rsz))"
    using assms(16) by (simp add: boot_layout_def l4(4))
  obtain e5 where e5: "CopyImage b e4 = Some e5" "same_loader e4 e5"
    "read_bytes (e_mem e5) (obj e ''Cfg'') CFG_SIZE = read_bytes (e_mem e4) (obj e ''Cfg'') CFG_SIZE"
    "read_bytes (e_mem e5) DEFAULT_RAM_KERNEL_START (min (kernel_limit c0) ksz) = take (kernel_limit c0) (take ksz kimg)"
    "uses_ramdisk e4 \<longrightarrow> read_bytes (e_mem e5) DEFAULT_RAM_RAMDISK_START (min (ramdisk_limit c1) rsz) = take (ramdisk_limit c1) (take rsz rimg)"
    using CopyImage_loads [OF assms(1) r4 c assms(10) rm(1) im(1) assms(13) rm(2) im(2) lay] unfolding l4(4) by blast
  have u: "uses_ramdisk e5 = uses_ramdisk e4" using same_config [of e5 e4] e5(2,3) l4(4) by (simp add: same_loader_def)
  have "autoboot b e1 = GoKernel b e5"
    unfolding autoboot_def Let_def using e3(1) e5(1)
    by (cases "cfg8 O_BootMenuKey e1 = 32") (simp_all add: cfg e2_def e4_def)
  then have "ez_main b stale e = GoKernel b e5"
    unfolding ez_main_def Let_def using assms(9) e1(1) GoKernel_jumps [of b e5]
    by (cases "GoKernel b e5") (auto split: outcome.splits)
  moreover have "e_addr e5 = e_addr e" using e5(2) l4(4) by (simp add: same_loader_def)
  ultimately show ?thesis using e5(3-5) u l4(3) e1(6) by auto
qed

text \<open>
  A board with the good chip of 16 megabytes, timers that are done when looked at and no keyboard; an empty configuration block in the boot
  flash, so the defaults hold: one megabyte for the kernel, five for the ramdisk.
\<close>

definition board_bus :: "nand_state bus" where
  "board_bus =
     \<lparr>bus_rd = (\<lambda>a s. if a = NAND_BASE then (ucast (fst (nand_get sheet_part s)), snd (nand_get sheet_part s))
        else (if a = OSSR \<or> a = OSCR then 1 else 0, s)),
      bus_wr = (\<lambda>a v s. if a = NAND_BASE + 0x100 then nand_cmd sheet_part (ucast v) s
        else if a = NAND_BASE + 0x200 then nand_address sheet_part (ucast v) s
        else if a = NAND_BASE then nand_put sheet_part (ucast v) s else s), bus_idle = nand_idle\<rparr>"

lemma board_bus_ok:
  "nand_at board_bus sheet_part (\<lambda>s. s)" "timer_runs board_bus (\<lambda>_. 0)" "counts board_bus (\<lambda>_. 0)" "\<forall>u \<in> uarts. no_key board_bus u (\<lambda>_. 0)"
proof -
  show "nand_at board_bus sheet_part (\<lambda>s. s)" by (auto simp: nand_at_def board_bus_def byte_wide NAND_BASE_def)
  show "timer_runs board_bus (\<lambda>_. 0)" by (simp add: timer_runs_def board_bus_def OSSR_def NAND_BASE_def)
  show "counts board_bus (\<lambda>_. 0)" by (simp add: counts_def board_bus_def OSCR_def NAND_BASE_def)
  show "\<forall>u \<in> uarts. no_key board_bus u (\<lambda>_. 0)"
    by (simp add: uarts_def no_key_def board_bus_def OSSR_def OSCR_def NAND_BASE_def FFUART_def BTUART_def STUART_def)
qed

definition board :: "nand_state \<Rightarrow> nand_state ez" where
  "board s = ez_at (\<lambda>a. if 0xA0000000 \<le> a \<and> a < 0xA0000004 then 0 else 0x5A) s
     (\<lambda>x. if x = ''Cfg'' then 0xA1000000 else if x = ''page_buff'' then 0xA1001000 else 0xA1002000)"

lemma board_config: "LoadConfig board_bus (board s) = with_mem (\<lambda>m. write_bytes m 0xA1000000 Default_Cfg) (board s)"
  by (simp add: LoadConfig_def rd_def board_bus_def board_def ez_at_def DEFAULT_BOOT_PARAM_def NAND_BASE_def OSSR_def OSCR_def CONFIG_MAGIC_def)

lemma default_bytes: "length Default_Cfg = 560" "Default_Cfg ! 9 = 89" "Default_Cfg ! 300 = 1" "Default_Cfg ! 301 = 0"
  "Default_Cfg ! 302 = 5" "Default_Cfg ! 303 = 0"
  by code_simp+

lemma board_byte: "i < 560 \<Longrightarrow> e_mem (LoadConfig board_bus (board s)) (0xA1000000 + of_nat i) = Default_Cfg ! i"
  unfolding board_config with_mem_simps by (rule write_bytes_nth) (simp_all add: default_bytes)

lemma board_addr: "e_addr (LoadConfig board_bus (board s)) = e_addr (board s)" "e_dev (LoadConfig board_bus (board s)) = s" "e_dev (board s) = s"
  "obj (board s) ''Cfg'' = 0xA1000000" "obj (board s) ''page_buff'' = 0xA1001000" "obj (board s) ''verify_pbuf'' = 0xA1002000"
  by (simp_all add: board_config) (simp_all add: board_def ez_at_def)

lemma board_powered: "still_busy s = 0 \<Longrightarrow> powered sheet_part (\<lambda>s. s) 64 320 (LoadConfig board_bus (board s))"
proof -
  assume "still_busy s = 0"
  moreover have "NandPar 0 (LoadConfig board_bus (board s)) = 1" "NandPar 1 (LoadConfig board_bus (board s)) = 5"
    using board_byte [of 300 s] board_byte [of 301 s] board_byte [of 302 s] board_byte [of 303 s]
    by (simp_all add: NandPar_def cfg_at_def O_NandPar_def ld16_def default_bytes board_addr)
  moreover have "length (nBadBlock (Nand1 (LoadConfig board_bus (board s)))) = 8192 \<and> length (nVirBlock (Nand1 (LoadConfig board_bus (board s)))) = 8192 \<and>
      length (Nand1Partition (LoadConfig board_bus (board s))) = 8 \<and> BaseBlock (Nand1Partition (LoadConfig board_bus (board s)) ! 3) = -1"
    unfolding board_config by (simp add: board_def ez_at_def with_mem_def)
  ultimately show ?thesis by (simp add: powered_def board_addr sheet_part_def)
qed

lemma board_image: "k \<le> 1024 \<Longrightarrow> x = 0x10000 \<or> x = 0x20000 \<Longrightarrow> read_bytes (e_mem (LoadConfig board_bus (board s))) x k = replicate k 0x5A"
proof (rule nth_equalityI)
  fix i assume k: "k \<le> 1024" and x: "x = 0x10000 \<or> x = 0x20000" and "i < length (read_bytes (e_mem (LoadConfig board_bus (board s))) x k)"
  then have i: "i < k" "i < 1024" by simp_all
  have "0xA1000000 + of_nat j \<noteq> x + of_nat i" if "j < 560" for j
    by (rule apart_neq [OF _ that i(2)]) (use x in \<open>auto simp: apart_def\<close>)
  then have "e_mem (LoadConfig board_bus (board s)) (x + of_nat i) = e_mem (board s) (x + of_nat i)"
    unfolding board_config with_mem_simps by (intro write_bytes_other) (simp add: default_bytes)
  moreover have "x + of_nat i < 0xA0000000" using x i(2) by (auto simp: word_less_nat_alt unat_word_ariths unat_of_nat)
  then have "e_mem (board s) (x + of_nat i) = 0x5A" by (auto simp: board_def ez_at_def)
  ultimately show "read_bytes (e_mem (LoadConfig board_bus (board s))) x k ! i = replicate k 0x5A ! i" using i(1) by (simp add: nth_read_bytes)
qed simp

theorem unattended_boot_witness:
  "let empty = \<lparr>pages = \<lambda>_ _. 0xFF, mode = 0, area = 0, addr = [], moved = 0, reg = \<lambda>_. 0, still_busy = 0, failed = False\<rparr> in
   \<exists>e1 e2 e3 e'. NandFlash_Init board_bus (LoadConfig board_bus (board empty)) = Some (0, e1) \<and>
     CopyTo_NandFlash_Kernel board_bus 0x10000 1000 e1 = Some (1000, e2) \<and> CopyTo_NandFlash_Ramdisk board_bus 0x20000 700 e2 = Some (700, e3) \<and>
     ez_main board_bus (\<lambda>_. 0) (board ((e_dev e3)\<lparr>still_busy := 0\<rparr>)) = GoKernel board_bus e' \<and>
     read_bytes (e_mem e') DEFAULT_RAM_KERNEL_START 1000 = replicate 1000 0x5A \<and>
     read_bytes (e_mem e') DEFAULT_RAM_RAMDISK_START 700 = replicate 700 0x5A"
proof -
  define s :: nand_state where "s = \<lparr>pages = \<lambda>_ _. 0xFF, mode = 0, area = 0, addr = [], moved = 0, reg = \<lambda>_. 0, still_busy = 0, failed = False\<rparr>"
  let ?e = "LoadConfig board_bus (board s)"
  have "goods s n = [0..<n]" for n by (simp add: goods_def marked_def s_def)
  then have g: "room s 0 64 = 2048" "room s 64 320 = 10240" by (simp_all add: room_def)
  have n: "image_pages 1000 = 2" "image_pages 700 = 2" by (simp_all add: image_pages_def)
  have lim: "kernel_limit 64 = 983040" "ramdisk_limit 320 = 5046272" by (simp_all add: kernel_limit_def ramdisk_limit_def)
  have "\<exists>e1 e2 e3. NandFlash_Init board_bus ?e = Some (0, e1) \<and> CopyTo_NandFlash_Kernel board_bus 0x10000 (int 1000) e1 = Some (int 1000, e2) \<and>
    CopyTo_NandFlash_Ramdisk board_bus 0x20000 (int 700) e2 = Some (int 700, e3) \<and> marked (e_dev e3) = marked (e_dev ?e) \<and>
    image_in (e_dev e3) (64 + 320) 0 1000 (read_bytes (e_mem ?e) 0x10000 (512 * image_pages 1000)) \<and>
    image_in (e_dev e3) (64 + 320) 64 700 (read_bytes (e_mem ?e) 0x20000 (512 * image_pages 700))"
    by (rule store_both [OF board_bus_ok(1) _ board_powered])
      (simp_all add: known_chip_def NAND_WAIT_COUNT_def sheet_part_def n g board_addr apart_def, simp add: s_def)
  then obtain e1 e2 e3 where 1: "NandFlash_Init board_bus ?e = Some (0, e1)" "CopyTo_NandFlash_Kernel board_bus 0x10000 1000 e1 = Some (1000, e2)"
      "CopyTo_NandFlash_Ramdisk board_bus 0x20000 700 e2 = Some (700, e3)" "marked (e_dev e3) = marked s"
      "image_in (e_dev e3) (64 + 320) 0 1000 (replicate 1024 0x5A)" "image_in (e_dev e3) (64 + 320) 64 700 (replicate 1024 0x5A)"
    by (auto simp: board_image n board_addr)
  define t where "t = (e_dev e3)\<lparr>still_busy := 0\<rparr>"
  have m: "marked t = marked s" using 1(4) by (simp add: t_def marked_def fun_eq_iff)
  have i: "image_in t (64 + 320) 0 1000 (replicate 1024 0x5A)" "image_in t (64 + 320) 64 700 (replicate 1024 0x5A)"
    using 1(5,6) by (simp_all add: image_in_def page_bytes_def page_at_def goods_def marked_def t_def)
  have "ld32 (e_mem (board t)) DEFAULT_RAM_KERNEL_ZERO_PAGE = 0"
    by (simp add: board_def ez_at_def DEFAULT_RAM_KERNEL_ZERO_PAGE_def ld32_def)
  then have "\<exists>e'. ez_main board_bus (\<lambda>_. 0) (board t) = GoKernel board_bus e' \<and> e_addr e' = e_addr (board t) \<and>
    read_bytes (e_mem e') (obj (board t) ''Cfg'') CFG_SIZE = read_bytes (e_mem (LoadConfig board_bus (board t))) (obj (board t) ''Cfg'') CFG_SIZE \<and>
    read_bytes (e_mem e') DEFAULT_RAM_KERNEL_START (min (kernel_limit 64) 1000) = take (kernel_limit 64) (take 1000 (replicate 1024 0x5A)) \<and>
    (uses_ramdisk e' \<longrightarrow> read_bytes (e_mem e') DEFAULT_RAM_RAMDISK_START (min (ramdisk_limit 320) 700) = take (ramdisk_limit 320) (take 700 (replicate 1024 0x5A)))"
    by (intro unattended_boot [OF board_bus_ok(1) _ board_bus_ok(2-4) board_powered])
      (simp_all add: known_chip_def NAND_WAIT_COUNT_def sheet_part_def n g board_addr apart_def i [simplified] room_cong [OF m] lim boot_layout_def CFG_SIZE_def
        DEFAULT_RAM_KERNEL_START_def DEFAULT_RAM_RAMDISK_START_def, simp add: t_def)
  then obtain e' where 2: "ez_main board_bus (\<lambda>_. 0) (board t) = GoKernel board_bus e'" "e_addr e' = e_addr (board t)"
    "read_bytes (e_mem e') (obj (board t) ''Cfg'') CFG_SIZE = read_bytes (e_mem (LoadConfig board_bus (board t))) (obj (board t) ''Cfg'') CFG_SIZE"
    "read_bytes (e_mem e') DEFAULT_RAM_KERNEL_START 1000 = replicate 1000 0x5A"
    "uses_ramdisk e' \<longrightarrow> read_bytes (e_mem e') DEFAULT_RAM_RAMDISK_START 700 = replicate 700 0x5A"
    unfolding lim by auto
  have "uses_ramdisk (LoadConfig board_bus (board t))"
    using board_byte [of 9 t] by (simp add: uses_ramdisk_def cfg8_def cfg_at_def board_addr O_UseRamdisk_def default_bytes)
  then have "uses_ramdisk e'" using same_config [of e' "LoadConfig board_bus (board t)"] 2(2,3) by (simp add: board_addr)
  with 1(1-3) 2 show ?thesis unfolding Let_def s_def [symmetric] t_def by auto
qed

end
