(* ===== verification/Vsprintf_Plain.thy ===== *)
theory Vsprintf_Plain
  imports Vsprintf
begin

text \<open>
  What \<open>vsprintf\<close> makes of a plain format: text with \<open>%d\<close>, \<open>%u\<close> and \<open>%s\<close>, without flags, widths and precisions. The reference
  is \<open>rendered\<close>, which substitutes the texts of the arguments; the loop over the memory is shown to write exactly that.
\<close>

section \<open>The reference\<close>

fun plain_format :: "u8 list \<Rightarrow> bool" where
  "plain_format [] = True"
| "plain_format (c # cs) =
     (if c \<noteq> 37 then plain_format cs else case cs of [] \<Rightarrow> False | d # ds \<Rightarrow> d \<in> {100, 117, 115} \<and> plain_format ds)"

text \<open>The decimal digits of a word, the most significant first.\<close>

definition decimal :: "u32 \<Rightarrow> u8 list" where
  "decimal w = map (\<lambda>d. DIGITS_LOWER ! d) (rev (number_digits 10 (uint w)))"

text \<open>\<open>S k\<close> is the string the \<open>k\<close>-th argument points to, where that is a \<open>%s\<close>.\<close>

fun rendered :: "(nat \<Rightarrow> u32) \<Rightarrow> (nat \<Rightarrow> u8 list) \<Rightarrow> nat \<Rightarrow> u8 list \<Rightarrow> u8 list" where
  "rendered args S k [] = []"
| "rendered args S k (c # cs) =
     (if c \<noteq> 37 then c # rendered args S k cs
      else case cs of [] \<Rightarrow> [] | d # ds \<Rightarrow> (if d = 115 then S k else decimal (args k)) @ rendered args S (Suc k) ds)"

fun string_args :: "nat \<Rightarrow> u8 list \<Rightarrow> nat list" where
  "string_args k [] = []"
| "string_args k (c # cs) =
     (if c \<noteq> 37 then string_args k cs
      else case cs of [] \<Rightarrow> [] | d # ds \<Rightarrow> (if d = 115 then [k] else []) @ string_args (Suc k) ds)"

section \<open>One conversion\<close>

lemma isdigit_s [simp]: "\<not> isdigit 115"
  by (simp add: ctype_defs ctype_table_def nth_append)

lemma nlen_cstr: "cstr m p cs \<Longrightarrow> length cs \<le> n \<Longrightarrow> nlen_loop n m p = length cs"
proof (induction cs arbitrary: p n)
  case (Cons c cs)
  then show ?case by (cases n) simp_all
qed (metis cstr.simps(1) list.size(3) nat.exhaust nlen_loop.simps)

lemma number_decimal: "fl \<in> {0, F_SIGN} \<Longrightarrow> number m str (uint w) 10 (-1) (-1) fl = emit (decimal w) (m, str)"
  using number_chars_plain [of fl "uint w" 10] number_digits_length [of "uint w"] by (simp add: number_def decimal_def)

text \<open>The letter after the per cent sign is the whole conversion.\<close>

lemma vs_loop_percent:
  assumes "m fmt = 37" and "m (fmt + 1) = d" and "d \<in> {100, 117, 115}"
  shows "vs_loop buf args m str fmt k =
    (let (m', str', fmt', k') = convert buf args m str (fmt + 1) k 0 (-1) (-1) 0 in vs_loop buf args m' str' (fmt' + 1) k')"
proof -
  have "fmt_flags m fmt 0 = Some (0, fmt + 1)" using assms by (auto simp: fmt_flags.simps [of m fmt])
  moreover have "fmt_width m (fmt + 1) 0 args k = Some (-1, 0, fmt + 1, k)" using assms by (auto simp: fmt_width_def)
  moreover have "fmt_precision m (fmt + 1) args k = Some (-1, fmt + 1, k)" using assms by (auto simp: fmt_precision_def)
  moreover have "fmt_qualifier m (fmt + 1) = (0, fmt + 1)" using assms by (auto simp: fmt_qualifier_def)
  ultimately show ?thesis using assms(1) by (subst vs_loop.simps) simp
qed

lemma convert_decimal:
  assumes "m fmt = d" and "d = 100 \<or> d = 117"
  shows "convert buf args m str fmt k 0 (-1) (-1) 0 = (write_bytes m str (decimal (args k)), str + of_nat (length (decimal (args k))), fmt, k + 1)"
  using assms number_decimal [of 0 m str "args k"] number_decimal [of F_SIGN m str "args k"]
  by (auto simp: convert_def int_arg_def emit_def)

lemma convert_string:
  assumes "m fmt = 115" and "cstr m (args k) cs" and "args k \<noteq> 0" and "length cs \<le> 4294967295"
    and "\<And>i j. i < length cs \<Longrightarrow> j < length cs \<Longrightarrow> str + of_nat i \<noteq> args k + of_nat j"
  shows "convert buf args m str fmt k 0 (-1) (-1) 0 = (write_bytes m str cs, str + of_nat (length cs), fmt, k + 1)"
proof -
  have "strnlen m (args k) 4294967295 = length cs" using nlen_cstr [OF assms(2,4)] by (simp add: strnlen_def)
  moreover have "memcpy (length cs) m str (args k) = write_bytes m str cs"
    using memcpy_ascending [of "length cs" str "args k" m] assms(5) read_cstr [OF assms(2), of "length cs"] by simp
  moreover have "nat (- 1 - int (length cs)) = 0" by simp
  ultimately show ?thesis using assms(1,3) by (simp add: convert_def emit_def Let_def)
qed

section \<open>The whole format\<close>

lemma behind_output:
  assumes "apart buf (Suc n) q (Suc k)" and "length out \<le> n" and "j \<le> k"
  shows "write_bytes m buf out (q + of_nat j) = m (q + of_nat j)"
  by (rule write_bytes_other, rule apart_neq [OF assms(1)]) (use assms(2,3) in simp_all)

lemma format_char:
  assumes "cstr m f fs" and "apart buf (Suc n) f (Suc (length fs))" and "length out \<le> n"
  shows "j < length fs \<Longrightarrow> write_bytes m buf out (f + of_nat j) = fs ! j" and "write_bytes m buf out (f + of_nat (length fs)) = 0"
  using behind_output [OF assms(2,3)] assms(1) by (simp_all add: cstr_nth)

lemma output_next: "(write_bytes m buf out)(buf + of_nat (length out) := c) = write_bytes m buf (out @ [c])"
  by (simp add: write_bytes_append)

lemma vs_loop_renders:
  fixes args :: "nat \<Rightarrow> u32"
  assumes "cstr m f fs" and "apart buf (Suc n) f (Suc (length fs))"
  shows "fs = pre @ cs \<Longrightarrow> plain_format cs \<Longrightarrow> length out + length (rendered args S k cs) \<le> n \<Longrightarrow>
    (\<forall>j \<in> set (string_args k cs). cstr m (args j) (S j) \<and> args j \<noteq> 0 \<and> apart buf (Suc n) (args j) (Suc (length (S j)))) \<Longrightarrow>
    vs_loop buf args (write_bytes m buf out) (buf + of_nat (length out)) (f + of_nat (length pre)) k =
      Some (write_bytes m buf (out @ rendered args S k cs), buf + of_nat (length (out @ rendered args S k cs)))"
proof (induction args S k cs arbitrary: pre out rule: rendered.induct)
  case (1 args S k)
  have "write_bytes m buf out (f + of_nat (length fs)) = 0" using format_char(2) [OF assms] "1.prems" by simp
  with 1 show ?case by (subst vs_loop.simps) simp
next
  case (2 args S k c cs)
  let ?m = "write_bytes m buf out" let ?f = "f + of_nat (length pre)"
  have lo: "length out \<le> n" using "2.prems"(3) by simp
  have c: "?m ?f = c" using format_char(1) [OF assms lo, of "length pre"] "2.prems"(1) by simp
  have nz: "c \<noteq> 0" using assms(1) "2.prems"(1) by (auto simp: cstr_nth nth_append dest: spec [of _ "length pre"])
  show ?case
  proof (cases "c = 37")
    case False
    have "vs_loop buf args ?m (buf + of_nat (length out)) ?f k =
        vs_loop buf args (write_bytes m buf (out @ [c])) (buf + of_nat (length (out @ [c]))) (f + of_nat (length (pre @ [c]))) k"
      using c nz False by (subst vs_loop.simps) (simp add: output_next ac_simps)
    also have "\<dots> = Some (write_bytes m buf ((out @ [c]) @ rendered args S k cs), buf + of_nat (length ((out @ [c]) @ rendered args S k cs)))"
      by (rule "2.IH"(1)) (use False "2.prems" in auto)
    finally show ?thesis using False by simp
  next
    case True
    with "2.prems"(2) obtain d ds where d: "cs = d # ds" "d \<in> {100, 117, 115}" "plain_format ds" by (cases cs) auto
    have md: "?m (?f + 1) = d" using format_char(1) [OF assms lo, of "Suc (length pre)"] "2.prems"(1) d(1) by (simp add: nth_append ac_simps)
    define x where "x = (if d = 115 then S k else decimal (args k))"
    have r: "rendered args S k (c # cs) = x @ rendered args S (Suc k) ds" using True d(1) by (simp add: x_def)
    have "convert buf args ?m (buf + of_nat (length out)) (?f + 1) k 0 (-1) (-1) 0 =
      (write_bytes ?m (buf + of_nat (length out)) x, buf + of_nat (length out) + of_nat (length x), ?f + 1, k + 1)"
    proof (cases "d = 115")
      case False
      then show ?thesis using convert_decimal [of ?m "?f + 1" d] md d(2) by (simp add: x_def)
    next
      case s: True
      have k: "cstr m (args k) (S k)" "args k \<noteq> 0" "apart buf (Suc n) (args k) (Suc (length (S k)))" using "2.prems"(4) True d(1) s by auto
      have "cstr ?m (args k) (S k)" by (rule cstr_cong [OF k(1)]) (rule behind_output [OF k(3) lo])
      moreover have "length (S k) \<le> 4294967295" using k(3) by (simp add: apart_def)
      moreover have "buf + of_nat (length out) + of_nat i \<noteq> args k + of_nat j" if "i < length (S k)" "j < length (S k)" for i j
        using apart_neq [OF k(3), of "length out + i" j] that "2.prems"(3) r s by (simp add: x_def add.assoc)
      ultimately show ?thesis using convert_string [of ?m "?f + 1" args k "S k"] md s k(2) by (simp add: x_def)
    qed
    moreover have "?m ?f = 37" using c True by simp
    ultimately have "vs_loop buf args ?m (buf + of_nat (length out)) ?f k =
        vs_loop buf args (write_bytes m buf (out @ x)) (buf + of_nat (length (out @ x))) (f + of_nat (length (pre @ [c, d]))) (Suc k)"
      using vs_loop_percent [of ?m ?f d] md d(2) by (simp add: write_bytes_append ac_simps)
    also have "\<dots> = Some (write_bytes m buf ((out @ x) @ rendered args S (Suc k) ds), buf + of_nat (length ((out @ x) @ rendered args S (Suc k) ds)))"
      by (rule "2.IH"(2)) (use True d r "2.prems" in auto)
    finally show ?thesis unfolding r by simp
  qed
qed

lemma decimal_chars: "0 \<notin> set (decimal w)"
  using number_digits_less [of 10 _ "uint w"] digits_lower_char by (fastforce simp: decimal_def)

lemma rendered_chars:
  "plain_format cs \<Longrightarrow> 0 \<notin> set cs \<Longrightarrow> (\<forall>j \<in> set (string_args k cs). 0 \<notin> set (S j)) \<Longrightarrow> 0 \<notin> set (rendered args S k cs)"
  by (induction args S k cs rule: rendered.induct) (auto simp: decimal_chars split: list.splits if_splits)

lemma cstr_chars: "cstr m p cs \<Longrightarrow> 0 \<notin> set cs"
  by (induction cs arbitrary: p) auto

text \<open>
  \<open>vsprintf\<close> stores a plain format with every \<open>%d\<close> and \<open>%u\<close> replaced by the decimal digits of its argument
  (as an unsigned number, also for \<open>%d\<close>) and every \<open>%s\<close> by its string, terminated, returns the length of that text, and
  writes nothing else, provided that the text does not run into the format or a string.
\<close>

lemma plain_format_prints:
  assumes "cstr m f fs" and "plain_format fs" and "text = rendered args S 0 fs" and "apart buf (Suc (length text)) f (Suc (length fs))"
    and "\<forall>j \<in> set (string_args 0 fs). cstr m (args j) (S j) \<and> args j \<noteq> 0 \<and> apart buf (Suc (length text)) (args j) (Suc (length (S j)))"
  shows "vsprintf m buf f args = Some (write_bytes m buf (text @ [0]), of_nat (length text)) \<and>
    cstr (write_bytes m buf (text @ [0])) buf text"
proof -
  have "vs_loop buf args m buf f 0 = Some (write_bytes m buf text, buf + of_nat (length text))"
    using vs_loop_renders [OF assms(1,4), of "[]" fs "[]" args S 0] assms(2,3,5) by simp
  moreover have "0 \<notin> set text" unfolding assms(3)
    by (rule rendered_chars [OF assms(2) cstr_chars [OF assms(1)]]) (use assms(5) cstr_chars in blast)
  moreover have "length text < 2 ^ 32" using assms(4) by (simp add: apart_def)
  ultimately show ?thesis by (simp add: vsprintf_def output_next cstr_write_bytes)
qed

text \<open>The format \<open>=%d,%s\<close> with 42 and the string \<open>XY\<close>.\<close>

lemma plain_format_example:
  "\<exists>m' n. vsprintf (write_bytes (write_bytes (\<lambda>_. 0) 0x200 [61, 37, 100, 44, 37, 115, 0]) 0x300 [88, 89, 0]) 0x100 0x200 (\<lambda>k. if k = 0 then 42 else 0x300) = Some (m', n) \<and>
     n = 6 \<and> cstr m' 0x100 [61, 52, 50, 44, 88, 89]"
proof -
  let ?m = "write_bytes (write_bytes (\<lambda>_. 0) 0x200 [61, 37, 100, 44, 37, 115, 0]) 0x300 [88, 89, 0 :: u8]"
  let ?a = "\<lambda>k :: nat. if k = 0 then 42 else 0x300 :: u32"
  have "decimal 42 = [52, 50]" by (simp add: decimal_def number_digits_def dig_loop.simps digits_lower_nth)
  then have "[61, 52, 50, 44, 88, 89] = rendered ?a (\<lambda>_. [88, 89]) 0 [61, 37, 100, 44, 37, 115]" by simp
  from plain_format_prints [OF _ _ this, of ?m "0x200" "0x100"] show ?thesis by (simp add: apart_def)
qed

end
