(* ===== verification/Boot_Line.thy ===== *)
theory Boot_Line
  imports Boot_Shell Vsprintf_Plain
begin

text \<open>
  The kernel's command line: what \<open>GetKCmdStr\<close> (\<open>config.c\<close>) puts together from the configuration and where \<open>GoKernelSingle\<close>
  (\<open>go_cmd.c\<close>) leaves it.
\<close>

section \<open>Memory outside a block\<close>

definition spares :: "mem \<Rightarrow> mem \<Rightarrow> u32 \<Rightarrow> nat \<Rightarrow> bool" where
  "spares m m' p n \<longleftrightarrow> (\<forall>q k. apart p n q k \<longrightarrow> read_bytes m' q k = read_bytes m q k)"

lemma spares_write: "length bs \<le> n \<Longrightarrow> spares m (write_bytes m p bs) p n"
  unfolding spares_def
proof (intro allI impI read_bytes_cong)
  fix q k i assume l: "length bs \<le> n" and a: "apart p n q k" and i: "i < k"
  show "write_bytes m p bs (q + of_nat i) = m (q + of_nat i)"
    by (rule write_bytes_other) (rule apart_neq [OF a _ i], use l in simp)
qed

section \<open>The parts\<close>

lemma decimal_length: "unat w < 10 ^ Suc k \<Longrightarrow> length (decimal w) \<le> Suc k"
proof -
  assume "unat w < 10 ^ Suc k"
  then have "unat w div 10 < 10 ^ k" by (simp add: div_less_iff_less_mult mult.commute)
  moreover have "nat (uint w mod 2 ^ 32) = unat w" using uint_lt2p [of w] by (simp add: nat_uint_eq)
  ultimately show ?thesis using dig_loop_length [of "unat w div 10" k] by (simp add: decimal_def number_digits_def Let_def)
qed

definition ip_text :: "u32 \<Rightarrow> u8 list" where
  "ip_text ip = ascii ''ip0='' @ decimal (ip_bytes ip ! 0) @ ascii ''.'' @ decimal (ip_bytes ip ! 1) @ ascii ''.'' @
     decimal (ip_bytes ip ! 2) @ ascii ''.'' @ decimal (ip_bytes ip ! 3)"

definition nand_text :: "'h ez \<Rightarrow> u8 list" where
  "nand_text e = ascii ''nandparts='' @ decimal (ucast (NandPar 0 e)) @ ascii '','' @ decimal (ucast (NandPar 1 e)) @ ascii '','' @
     decimal (ucast (NandPar 2 e))"

lemma texts: "ascii ''ip0='' = [105, 112, 48, 61]" "ascii ''.'' = [46]" "ascii ''nandparts='' = [110, 97, 110, 100, 112, 97, 114, 116, 115, 61]"
  "ascii '','' = [44]" "ascii ''arch='' = [97, 114, 99, 104, 61]"
  "ascii ''ip0=%d.%d.%d.%d'' = [105, 112, 48, 61, 37, 100, 46, 37, 100, 46, 37, 100, 46, 37, 100]"
  "ascii ''nandparts=%d,%d,%d'' = [110, 97, 110, 100, 112, 97, 114, 116, 115, 61, 37, 100, 44, 37, 100, 44, 37, 100]"
  "ascii ''arch=%s'' = [97, 114, 99, 104, 61, 37, 115]" "ascii '' %s %s %s %s %s %s'' = [32, 37, 115, 32, 37, 115, 32, 37, 115, 32, 37, 115, 32, 37, 115, 32, 37, 115]"
  "ascii ''EZ-X5'' = [69, 90, 45, 88, 53]"
  by code_simp+

lemma ip_rendered: "rendered (\<lambda>k. ip_bytes ip ! k) S 0 (ascii ''ip0=%d.%d.%d.%d'') = ip_text ip"
  unfolding texts(1,2,6) ip_text_def numeral_2_eq_2 numeral_3_eq_3 by simp

lemma nand_rendered: "rendered (\<lambda>k. ucast (NandPar k e)) S 0 (ascii ''nandparts=%d,%d,%d'') = nand_text e"
  unfolding texts(3,4,7) nand_text_def numeral_2_eq_2 by simp

lemma arch_rendered: "rendered args S 0 (ascii ''arch=%s'') = ascii ''arch='' @ S 0"
  unfolding texts(5,8) by simp

lemma line_rendered: "rendered args (\<lambda>k. [s0, s1, s2, s3, s4, s5] ! k) 0 (ascii '' %s %s %s %s %s %s'') =
    [32] @ s0 @ [32] @ s1 @ [32] @ s2 @ [32] @ s3 @ [32] @ s4 @ [32] @ s5"
  unfolding texts(9) by simp

lemma text_lengths: "length (ip_text ip) \<le> 19" "length (nand_text e) \<le> 27"
proof -
  have "length (decimal (w AND 0xFF)) \<le> 3" for w
  proof -
    have "w AND 0xFF \<le> 0xFF" by (rule word_and_le1)
    then show ?thesis using decimal_length [of "w AND 0xFF" 2] by (simp add: word_le_nat_alt)
  qed
  then have "length (decimal (ip_bytes ip ! k)) \<le> 3" if "k < 4" for k
  proof -
    have "k \<in> {0, 1, 2, 3}" using that by auto
    then show ?thesis using \<open>\<And>w. length (decimal (w AND 0xFF)) \<le> 3\<close> by (auto simp: ip_bytes_def)
  qed
  from this [of 0] this [of 1] this [of 2] this [of 3] show "length (ip_text ip) \<le> 19" unfolding ip_text_def texts(1,2) by simp
  have "length (decimal (ucast (h :: u16))) \<le> 5" for h
  proof -
    have "unat h < 65536" using unsigned_less [of h] by simp
    moreover from this have "unat (ucast h :: u32) = unat h" by (simp add: unsigned_ucast_eq take_bit_nat_eq_self)
    ultimately show ?thesis using decimal_length [of "ucast h" 4] by simp
  qed
  from this [of "NandPar 0 e"] this [of "NandPar 1 e"] this [of "NandPar 2 e"] show "length (nand_text e) \<le> 27" unfolding nand_text_def texts(3,4) by simp
qed

section \<open>One \<open>sprintf\<close>\<close>

lemma sprintf_step:
  assumes "cstr m f fs" and "plain_format fs" and "rendered args S 0 fs = text" and "Suc (length text) \<le> n" and "apart buf n f (Suc (length fs))"
    and "\<forall>j \<in> set (string_args 0 fs). cstr m (args j) (S j) \<and> args j \<noteq> 0 \<and> apart buf n (args j) (Suc (length (S j)))"
  shows "\<exists>m' r. sprintf m buf f args = Some (m', r) \<and> cstr m' buf text \<and> spares m m' buf n \<and> spares m m' buf (Suc (length text))"
proof -
  have sub: "apart buf (Suc (length text)) q k" if "apart buf n q k" for q k using that assms(4) by (auto simp: apart_def)
  have "vsprintf m buf f args = Some (write_bytes m buf (text @ [0]), of_nat (length text)) \<and> cstr (write_bytes m buf (text @ [0])) buf text"
    by (rule plain_format_prints [OF assms(1,2) assms(3) [symmetric] sub [OF assms(5)]]) (use assms(6) sub in blast)
  moreover have "spares m (write_bytes m buf (text @ [0])) buf k" if "Suc (length text) \<le> k" for k using that by (intro spares_write) simp
  ultimately show ?thesis using assms(4) by (simp add: sprintf_def)
qed

lemma spares_read: "spares m m' p n \<Longrightarrow> apart p n q k \<Longrightarrow> read_bytes m' q k = read_bytes m q k"
  by (simp add: spares_def)

lemma spares_cstr: "spares m m' p n \<Longrightarrow> cstr m q cs \<Longrightarrow> apart p n q (Suc (length cs)) \<Longrightarrow> cstr m' q cs"
proof -
  assume a: "spares m m' p n" "cstr m q cs" "apart p n q (Suc (length cs))"
  from spares_read [OF a(1,3)] a(2) show ?thesis unfolding cstr_read by metis
qed

section \<open>The command line\<close>

text \<open>
  What must not overlap: the local arrays, the page the kernel looks at, the formats, the name of the board and the configuration. Nothing of it is
  at address 0.
\<close>

definition line_blocks :: "'h ez \<Rightarrow> (u32 \<times> nat) list" where
  "line_blocks e =
     [(obj e ''kcmd'', 2048), (DEFAULT_RAM_KERNEL_ZERO_PAGE, 2048), (obj e ''ip_cmd'', 32), (obj e ''nand_cmd'', 32), (obj e ''arch_cmd'', 32),
      (obj e ''fmt_ip0'', 16), (obj e ''fmt_nandparts'', 19), (obj e ''fmt_arch'', 8), (obj e ''fmt_kcmd'', 19),
      (obj e ''CMD_ARCH_NAME'', 6), (obj e ''Cfg'', CFG_SIZE)]"

definition line_layout :: "'h ez \<Rightarrow> bool" where
  "line_layout e \<longleftrightarrow> sorted_wrt (\<lambda>(p, n) (q, k). apart p n q k) (line_blocks e) \<and> (\<forall>(p, n) \<in> set (line_blocks e). p \<noteq> 0)"

text \<open>The constants of the program, and the three parts of the configured command line.\<close>

definition line_parts :: "'h ez \<Rightarrow> u8 list \<Rightarrow> u8 list \<Rightarrow> u8 list \<Rightarrow> bool" where
  "line_parts e s1 s2 s3 \<longleftrightarrow>
     cstr (e_mem e) (obj e ''fmt_ip0'') (ascii ''ip0=%d.%d.%d.%d'') \<and> cstr (e_mem e) (obj e ''fmt_nandparts'') (ascii ''nandparts=%d,%d,%d'') \<and>
     cstr (e_mem e) (obj e ''fmt_arch'') (ascii ''arch=%s'') \<and> cstr (e_mem e) (obj e ''fmt_kcmd'') (ascii '' %s %s %s %s %s %s'') \<and>
     cstr (e_mem e) (obj e ''CMD_ARCH_NAME'') (ascii ''EZ-X5'') \<and>
     cstr (e_mem e) (cfg_at O_cmd_A e) s1 \<and> cstr (e_mem e) (cfg_at O_cmd_B e) s2 \<and> cstr (e_mem e) (cfg_at O_cmd_C e) s3 \<and>
     length s1 < 80 \<and> length s2 < 80 \<and> length s3 < 80"

definition kernel_line :: "'h ez \<Rightarrow> u8 list \<Rightarrow> u8 list \<Rightarrow> u8 list \<Rightarrow> u8 list" where
  "kernel_line e s1 s2 s3 =
     [32] @ s1 @ [32] @ s2 @ [32] @ s3 @ [32] @ ip_text (cfg32 O_Local_IP e) @ [32] @ nand_text e @ [32] @ ascii ''arch='' @ ascii ''EZ-X5''"

lemma fmt_facts:
  "plain_format (ascii ''ip0=%d.%d.%d.%d'')" "plain_format (ascii ''nandparts=%d,%d,%d'')" "plain_format (ascii ''arch=%s'')"
  "plain_format (ascii '' %s %s %s %s %s %s'')"
  "string_args 0 (ascii ''ip0=%d.%d.%d.%d'') = []" "string_args 0 (ascii ''nandparts=%d,%d,%d'') = []" "string_args 0 (ascii ''arch=%s'') = [0]"
  "string_args 0 (ascii '' %s %s %s %s %s %s'') = [0, 1, 2, 3, 4, 5]"
  "length (ascii ''ip0=%d.%d.%d.%d'') = 15" "length (ascii ''nandparts=%d,%d,%d'') = 18" "length (ascii ''arch=%s'') = 7"
  "length (ascii '' %s %s %s %s %s %s'') = 18" "length (ascii ''arch='') = 5" "length (ascii ''EZ-X5'') = 5"
  by code_simp+

lemma field_same:
  assumes "read_bytes m' c n = read_bytes m c n"
  shows "k < n \<Longrightarrow> m' (c + of_nat k) = m (c + of_nat k)"
    and "k + 4 \<le> n \<Longrightarrow> ld32 m' (c + of_nat k) = ld32 m (c + of_nat k)" and "k + 2 \<le> n \<Longrightarrow> ld16 m' (c + of_nat k) = ld16 m (c + of_nat k)"
proof -
  show b: "m' (c + of_nat k) = m (c + of_nat k)" if "k < n" for k
    using that arg_cong [OF assms, of "\<lambda>l. l ! k"] by (simp add: nth_read_bytes)
  show "ld32 m' (c + of_nat k) = ld32 m (c + of_nat k)" if "k + 4 \<le> n"
    using b [of k] b [of "k + 1"] b [of "k + 2"] b [of "k + 3"] that by (simp add: ld32_def ac_simps)
  show "ld16 m' (c + of_nat k) = ld16 m (c + of_nat k)" if "k + 2 \<le> n"
    using b [of k] b [of "k + 1"] that by (simp add: ld16_def ac_simps)
qed

lemma config_same:
  assumes "read_bytes m (obj e ''Cfg'') CFG_SIZE = read_bytes (e_mem e) (obj e ''Cfg'') CFG_SIZE"
  shows "cfg32 O_Local_IP (e\<lparr>e_mem := m\<rparr>) = cfg32 O_Local_IP e" and "cfg32 O_Kernel_ArchNumber (e\<lparr>e_mem := m\<rparr>) = cfg32 O_Kernel_ArchNumber e"
    and "k < 3 \<Longrightarrow> NandPar k (e\<lparr>e_mem := m\<rparr>) = NandPar k e"
  using field_same(2) [OF assms, of 28] field_same(2) [OF assms, of 296] field_same(3) [OF assms, of "300 + 2 * k"]
  by (simp_all add: cfg32_def NandPar_def cfg_at_def O_Local_IP_def O_Kernel_ArchNumber_def O_NandPar_def CFG_SIZE_def)

lemma nand_text_same: "(\<And>k. k < 3 \<Longrightarrow> NandPar k e' = NandPar k e) \<Longrightarrow> nand_text e' = nand_text e"
  by (simp add: nand_text_def)

lemma field_cstr: "read_bytes m' c n = read_bytes m c n \<Longrightarrow> cstr m (c + of_nat k) s \<Longrightarrow> k + length s < n \<Longrightarrow> cstr m' (c + of_nat k) s"
proof (rule cstr_cong)
  fix i assume a: "read_bytes m' c n = read_bytes m c n" "k + length s < n" "i \<le> length s"
  then show "m' (c + of_nat k + of_nat i) = m (c + of_nat k + of_nat i)" using field_same(1) [OF a(1), of "k + i"] by (simp add: add.assoc)
qed

lemma field_nonzero: "apart p m c n \<Longrightarrow> k < n \<Longrightarrow> 0 < k \<Longrightarrow> c + of_nat k \<noteq> 0"
proof -
  assume a: "apart p m c n" "k < n" "0 < k"
  then have "unat (c + of_nat k) = unat c + k" by (intro unat_plus_small) (simp add: apart_def)
  with a(3) show ?thesis by auto
qed

lemma GetKCmdStr_line:
  assumes "line_layout e" and "line_parts e s1 s2 s3"
  obtains m r where "GetKCmdStr (obj e ''kcmd'') e = Some (r, e\<lparr>e_mem := m\<rparr>)"
    and "read_bytes m (obj e ''kcmd'') 12 = read_bytes (e_mem e) (cfg_at O_KCmd e) 12"
    and "cstr m (obj e ''kcmd'' + 12) (kernel_line e s1 s2 s3)"
    and "length (kernel_line e s1 s2 s3) < 2035"
    and "read_bytes m (obj e ''kcmd'' + of_nat (13 + length (kernel_line e s1 s2 s3))) (2035 - length (kernel_line e s1 s2 s3)) =
      read_bytes (e_mem e) (obj e ''kcmd'' + of_nat (13 + length (kernel_line e s1 s2 s3))) (2035 - length (kernel_line e s1 s2 s3))"
    and "\<And>q k. apart (obj e ''kcmd'') 2048 q k \<Longrightarrow> apart (obj e ''ip_cmd'') 32 q k \<Longrightarrow> apart (obj e ''nand_cmd'') 32 q k \<Longrightarrow>
      apart (obj e ''arch_cmd'') 32 q k \<Longrightarrow> read_bytes m q k = read_bytes (e_mem e) q k"
proof -
  let ?K = "obj e ''kcmd''" let ?C = "obj e ''Cfg''" let ?m0 = "e_mem e"
  let ?ip = "obj e ''ip_cmd''" let ?nd = "obj e ''nand_cmd''" let ?ar = "obj e ''arch_cmd''"
  note L = assms(1) [unfolded line_layout_def line_blocks_def, simplified]
  note P = assms(2) [unfolded line_parts_def]
  have nz: "?ip \<noteq> 0" "?nd \<noteq> 0" "?ar \<noteq> 0" "obj e ''CMD_ARCH_NAME'' \<noteq> 0" "cfg_at O_cmd_A e \<noteq> 0" "cfg_at O_cmd_B e \<noteq> 0" "cfg_at O_cmd_C e \<noteq> 0"
    using L field_nonzero [of ?K 2048 ?C CFG_SIZE 320] field_nonzero [of ?K 2048 ?C CFG_SIZE 400] field_nonzero [of ?K 2048 ?C CFG_SIZE 480]
    by (simp_all add: cfg_at_def O_cmd_A_def O_cmd_B_def O_cmd_C_def CFG_SIZE_def)
  define m1 where "m1 = memcpy 12 ?m0 ?K (cfg_at O_KCmd e)"
  have kc: "apart ?K 12 (cfg_at O_KCmd e) 12" unfolding cfg_at_def using apart_inside [of ?K 2048 ?C CFG_SIZE 12 308 12] L
    by (simp add: O_KCmd_def CFG_SIZE_def)
  have m1: "m1 = write_bytes ?m0 ?K (read_bytes ?m0 (cfg_at O_KCmd e) 12)"
    unfolding m1_def by (rule memcpy_ascending) (rule apart_neq [OF kc], auto)
  have k1: "spares ?m0 m1 ?K 2048" "spares ?m0 m1 ?K 12" unfolding m1 by (rule spares_write, simp)+
  have h1: "read_bytes m1 ?K 12 = read_bytes ?m0 (cfg_at O_KCmd e) 12"
    unfolding m1 using read_write_append [of 0 "read_bytes ?m0 (cfg_at O_KCmd e) 12" ?m0 ?K] by simp
  have c1: "read_bytes m1 ?C CFG_SIZE = read_bytes ?m0 ?C CFG_SIZE" using spares_read [OF k1(1)] L by blast
  let ?T1 = "ip_text (cfg32 O_Local_IP e)"
  have f1: "cstr m1 (obj e ''fmt_ip0'') (ascii ''ip0=%d.%d.%d.%d'')" using spares_cstr [OF k1(1)] P L by (simp add: fmt_facts)
  have l1: "Suc (length ?T1) \<le> 32" using text_lengths(1) [of "cfg32 O_Local_IP e"] by simp
  have a1: "apart ?ip 32 (obj e ''fmt_ip0'') (Suc (length (ascii ''ip0=%d.%d.%d.%d'')))" using L by (simp add: fmt_facts)
  obtain m2 r2 where s2: "sprintf m1 ?ip (obj e ''fmt_ip0'') (\<lambda>k. ip_bytes (cfg32 O_Local_IP e) ! k) = Some (m2, r2)" and t2: "cstr m2 ?ip ?T1" and k2: "spares m1 m2 ?ip 32"
    using sprintf_step [where S = "\<lambda>_. []", OF f1 fmt_facts(1) ip_rendered l1 a1] unfolding fmt_facts(5) by auto
  have c2: "read_bytes m2 ?C CFG_SIZE = read_bytes ?m0 ?C CFG_SIZE" using spares_read [OF k2, of ?C CFG_SIZE] c1 L by simp
  let ?T2 = "nand_text e"
  have n2: "nand_text (e\<lparr>e_mem := m2\<rparr>) = ?T2" by (rule nand_text_same) (rule config_same(3) [OF c2])
  have f2: "cstr m2 (obj e ''fmt_nandparts'') (ascii ''nandparts=%d,%d,%d'')"
    using spares_cstr [OF k2] spares_cstr [OF k1(1)] P L by (simp add: fmt_facts)
  have l2: "Suc (length ?T2) \<le> 32" using text_lengths(2) [of e] by simp
  have a2: "apart ?nd 32 (obj e ''fmt_nandparts'') (Suc (length (ascii ''nandparts=%d,%d,%d'')))" using L by (simp add: fmt_facts)
  obtain m3 r3 where s3: "sprintf m2 ?nd (obj e ''fmt_nandparts'') (\<lambda>k. ucast (NandPar k (e\<lparr>e_mem := m2\<rparr>))) = Some (m3, r3)"
    and t3: "cstr m3 ?nd ?T2" and k3: "spares m2 m3 ?nd 32"
    using sprintf_step [where S = "\<lambda>_. []", OF f2 fmt_facts(2) nand_rendered [of "e\<lparr>e_mem := m2\<rparr>", unfolded n2] l2 a2] unfolding fmt_facts(6) by auto
  let ?T3 = "ascii ''arch='' @ ascii ''EZ-X5''"
  have f3: "cstr m3 (obj e ''fmt_arch'') (ascii ''arch=%s'')" "cstr m3 (obj e ''CMD_ARCH_NAME'') (ascii ''EZ-X5'')"
    using spares_cstr [OF k3] spares_cstr [OF k2] spares_cstr [OF k1(1)] P L by (simp_all add: fmt_facts)
  have l3: "Suc (length ?T3) \<le> 32" by (simp add: fmt_facts)
  have a3: "apart ?ar 32 (obj e ''fmt_arch'') (Suc (length (ascii ''arch=%s'')))" "apart ?ar 32 (obj e ''CMD_ARCH_NAME'') (Suc (length (ascii ''EZ-X5'')))"
    using L by (simp_all add: fmt_facts)
  obtain m4 r4 where s4: "sprintf m3 ?ar (obj e ''fmt_arch'') (\<lambda>k. obj e ''CMD_ARCH_NAME'') = Some (m4, r4)"
    and t4: "cstr m4 ?ar ?T3" and k4: "spares m3 m4 ?ar 32"
    using sprintf_step [where S = "\<lambda>_. ascii ''EZ-X5''" and args = "\<lambda>_. obj e ''CMD_ARCH_NAME''", OF f3(1) fmt_facts(3) arch_rendered l3 a3(1)]
      f3(2) a3(2) nz unfolding fmt_facts(7) by auto
  have c4: "read_bytes m4 ?C CFG_SIZE = read_bytes ?m0 ?C CFG_SIZE"
    using spares_read [OF k4, of ?C CFG_SIZE] spares_read [OF k3, of ?C CFG_SIZE] c2 L by simp
  let ?A = "\<lambda>k :: nat. [cfg_at O_cmd_A e, cfg_at O_cmd_B e, cfg_at O_cmd_C e, ?ip, ?nd, ?ar] ! k"
  let ?S = "\<lambda>k :: nat. [s1, s2, s3, ?T1, ?T2, ?T3] ! k"
  let ?T = "kernel_line e s1 s2 s3"
  have cs: "cstr m4 (cfg_at O_cmd_A e) s1" "cstr m4 (cfg_at O_cmd_B e) s2" "cstr m4 (cfg_at O_cmd_C e) s3"
    using field_cstr [OF c4, of 320 s1] field_cstr [OF c4, of 400 s2] field_cstr [OF c4, of 480 s3] P
    by (simp_all add: cfg_at_def O_cmd_A_def O_cmd_B_def O_cmd_C_def CFG_SIZE_def)
  have ai: "apart ?nd 32 ?ip 32" "apart ?ar 32 ?ip 32" "apart ?ar 32 ?nd 32"
    using L unfolding apart_sym [of ?nd 32 ?ip] apart_sym [of ?ar 32 ?ip] apart_sym [of ?ar 32 ?nd] by blast+
  have ts: "cstr m4 ?ip ?T1" "cstr m4 ?nd ?T2"
    by (rule spares_cstr [OF k4 spares_cstr [OF k3 t2 apart_less [OF ai(1) l1]] apart_less [OF ai(2) l1]])
      (rule spares_cstr [OF k4 t3 apart_less [OF ai(3) l2]])
  have al: "apart (?K + 12) 2036 q k" if "apart ?K 2048 q k" for q k using apart_tail [OF that, of 12 2036] by simp
  have lens: "length s1 < 80" "length s2 < 80" "length s3 < 80" using P by simp_all
  have af: "apart (?K + 12) 2036 (cfg_at O_cmd_A e) (Suc (length s1))" "apart (?K + 12) 2036 (cfg_at O_cmd_B e) (Suc (length s2))"
    "apart (?K + 12) 2036 (cfg_at O_cmd_C e) (Suc (length s3))"
    using L lens apart_inside [OF al, of ?C CFG_SIZE 2036 320 "Suc (length s1)"] apart_inside [OF al, of ?C CFG_SIZE 2036 400 "Suc (length s2)"]
      apart_inside [OF al, of ?C CFG_SIZE 2036 480 "Suc (length s3)"]
    by (simp_all add: cfg_at_def O_cmd_A_def O_cmd_B_def O_cmd_C_def CFG_SIZE_def)
  have at: "apart (?K + 12) 2036 ?ip (Suc (length ?T1))" "apart (?K + 12) 2036 ?nd (Suc (length ?T2))" "apart (?K + 12) 2036 ?ar (Suc (length ?T3))"
    using L apart_less [OF al l1] apart_less [OF al l2] apart_less [OF al l3] by blast+
  have f4: "cstr m4 (obj e ''fmt_kcmd'') (ascii '' %s %s %s %s %s %s'')"
    using spares_cstr [OF k4] spares_cstr [OF k3] spares_cstr [OF k2] spares_cstr [OF k1(1)] P L by (simp add: fmt_facts)
  have l5: "length ?T < 2035" using lens l1 l2 by (simp add: kernel_line_def fmt_facts)
  then have l4: "Suc (length ?T) \<le> 2036" by simp
  have a4: "apart (?K + 12) 2036 (obj e ''fmt_kcmd'') (Suc (length (ascii '' %s %s %s %s %s %s'')))" using al L by (simp add: fmt_facts)
  have r4: "rendered ?A ?S 0 (ascii '' %s %s %s %s %s %s'') = ?T" unfolding line_rendered kernel_line_def ..
  have q4: "\<forall>j \<in> set (string_args 0 (ascii '' %s %s %s %s %s %s'')). cstr m4 (?A j) (?S j) \<and> ?A j \<noteq> 0 \<and> apart (?K + 12) 2036 (?A j) (Suc (length (?S j)))"
    unfolding fmt_facts(8) using cs ts t4 nz af at by simp
  obtain m5 r5 where s5: "sprintf m4 (?K + 12) (obj e ''fmt_kcmd'') ?A = Some (m5, r5)" and t5: "cstr m5 (?K + 12) ?T" and k5: "spares m4 m5 (?K + 12) 2036"
    and k6: "spares m4 m5 (?K + 12) (Suc (length ?T))"
    using sprintf_step [OF f4 fmt_facts(4) r4 l4 a4 q4] by blast
  have hk: "apart ?ip 32 ?K 2048" "apart ?nd 32 ?K 2048" "apart ?ar 32 ?K 2048"
    using L unfolding apart_sym [of ?ip 32 ?K] apart_sym [of ?nd 32 ?K] apart_sym [of ?ar 32 ?K] by blast+
  note hd = hk [THEN apart_less, of 12, simplified]
  have "apart ?K 2048 ?ip 32" using L by blast
  then have K: "unat (?K + 12) = unat ?K + 12" "unat ?K + 2048 \<le> 2 ^ 32" using unat_plus_small [of ?K 12] by (simp_all add: apart_def)
  have "read_bytes m5 ?K 12 = read_bytes m4 ?K 12"
    by (rule spares_read [OF k5]) (use K in \<open>simp add: apart_def\<close>)
  also have "\<dots> = read_bytes m1 ?K 12"
    using spares_read [OF k4, of ?K 12] spares_read [OF k3, of ?K 12] spares_read [OF k2, of ?K 12] hd by simp
  finally have h5: "read_bytes m5 ?K 12 = read_bytes ?m0 (cfg_at O_KCmd e) 12" using h1 by simp
  have same: "read_bytes m5 q k = read_bytes ?m0 q k" if "apart ?K 2048 q k" "apart ?ip 32 q k" "apart ?nd 32 q k" "apart ?ar 32 q k" for q k
    using spares_read [OF k5 al [OF that(1)]] spares_read [OF k4 that(4)] spares_read [OF k3 that(3)] spares_read [OF k2 that(2)] spares_read [OF k1(1) that(1)]
    by simp
  let ?t = "?K + of_nat (13 + length ?T)" let ?n = "2035 - length ?T"
  have ut: "unat ?t = unat ?K + (13 + length ?T)" by (rule unat_plus_small) (use K l5 in simp)
  have w: "apart (?K + 12) (Suc (length ?T)) ?t ?n" "apart ?K 12 ?t ?n" unfolding apart_def ut K(1) using K(2) l5 by simp_all
  have wi: "apart p 32 ?t ?n" if "apart p 32 ?K 2048" for p by (rule apart_inside [OF that]) (use l5 in simp_all)
  have t6: "read_bytes m5 ?t ?n = read_bytes ?m0 ?t ?n"
    unfolding spares_read [OF k6 w(1)] spares_read [OF k4 wi [OF hk(3)]] spares_read [OF k3 wi [OF hk(2)]] spares_read [OF k2 wi [OF hk(1)]]
    by (rule spares_read [OF k1(2) w(2)])
  have at_same: "cfg_at x (e\<lparr>e_mem := m\<rparr>) = cfg_at x e" for x m by (simp add: cfg_at_def)
  have "GetKCmdStr ?K e = Some (of_nat (length ?T) + 12, e\<lparr>e_mem := m5\<rparr>)"
    unfolding GetKCmdStr_def Let_def with_mem_def
    using s2 s3 s4 s5 strlen_cstr [OF t5] by (simp add: m1_def [symmetric] config_same(1) [OF c1] at_same)
  then show ?thesis using that [OF _ h5 t5 l5 t6 same] by blast
qed

section \<open>Where the kernel finds it\<close>

lemma line_layout_mem: "line_layout (e\<lparr>e_mem := m\<rparr>) = line_layout e" "line_layout (e\<lparr>e_dev := d\<rparr>) = line_layout e"
  by (simp_all add: line_layout_def line_blocks_def)

lemma line_parts_same:
  assumes "spares (e_mem e) m (obj e ''kcmd'') 2048" and "line_layout e" and "line_parts e s1 s2 s3"
  shows "line_parts (e\<lparr>e_mem := m\<rparr>) s1 s2 s3"
proof -
  let ?K = "obj e ''kcmd''" let ?C = "obj e ''Cfg''"
  note L = assms(2) [unfolded line_layout_def line_blocks_def, simplified]
  note P = assms(3) [unfolded line_parts_def]
  have c: "read_bytes m ?C CFG_SIZE = read_bytes (e_mem e) ?C CFG_SIZE" using spares_read [OF assms(1)] L by blast
  have "cstr m (cfg_at O_cmd_A e) s1" "cstr m (cfg_at O_cmd_B e) s2" "cstr m (cfg_at O_cmd_C e) s3"
    using field_cstr [OF c, of 320 s1] field_cstr [OF c, of 400 s2] field_cstr [OF c, of 480 s3] P
    by (simp_all add: cfg_at_def O_cmd_A_def O_cmd_B_def O_cmd_C_def CFG_SIZE_def)
  moreover have "cfg_at x (e\<lparr>e_mem := m\<rparr>) = cfg_at x e" for x by (simp add: cfg_at_def)
  ultimately show ?thesis using P L spares_cstr [OF assms(1)] by (simp add: line_parts_def fmt_facts)
qed

lemma read_zeroed: "i + k \<le> n \<Longrightarrow> n \<le> 2 ^ 32 \<Longrightarrow> read_bytes (write_bytes m a (replicate n 0)) (a + of_nat i) k = replicate k 0"
proof (rule nth_equalityI)
  fix j assume a: "i + k \<le> n" "n \<le> 2 ^ 32" "j < length (read_bytes (write_bytes m a (replicate n 0)) (a + of_nat i) k)"
  then show "read_bytes (write_bytes m a (replicate n 0)) (a + of_nat i) k ! j = replicate k 0 ! j"
    using write_bytes_nth [of "i + j" "replicate n 0" m a] by (simp add: nth_read_bytes add.assoc)
qed simp

definition kernel_page :: "'h ez \<Rightarrow> u8 list \<Rightarrow> u8 list \<Rightarrow> u8 list \<Rightarrow> u8 list" where
  "kernel_page e s1 s2 s3 =
     (let line = kernel_line e s1 s2 s3
      in read_bytes (e_mem e) (cfg_at O_KCmd e) 12 @ line @ replicate (2036 - length line) 0)"

lemma kernel_line_mem:
  assumes "read_bytes m (obj e ''Cfg'') CFG_SIZE = read_bytes (e_mem e) (obj e ''Cfg'') CFG_SIZE"
  shows "kernel_line (e\<lparr>e_mem := m\<rparr>) s1 s2 s3 = kernel_line e s1 s2 s3"
    and "read_bytes m (cfg_at O_KCmd e) 12 = read_bytes (e_mem e) (cfg_at O_KCmd e) 12"
proof -
  show "kernel_line (e\<lparr>e_mem := m\<rparr>) s1 s2 s3 = kernel_line e s1 s2 s3"
  proof -
    have "nand_text (e\<lparr>e_mem := m\<rparr>) = nand_text e" by (rule nand_text_same) (rule config_same(3) [OF assms])
    then show ?thesis unfolding kernel_line_def config_same(1) [OF assms] by simp
  qed
  show "read_bytes m (cfg_at O_KCmd e) 12 = read_bytes (e_mem e) (cfg_at O_KCmd e) 12"
  proof (rule read_bytes_cong)
    fix i :: nat assume "i < 12"
    then show "m (cfg_at O_KCmd e + of_nat i) = e_mem e (cfg_at O_KCmd e + of_nat i)"
      using field_same(1) [OF assms, of "308 + i"] by (simp add: cfg_at_def O_KCmd_def CFG_SIZE_def add.assoc)
  qed
qed

lemma GoKernelSingle_line:
  assumes "line_layout e" and "line_parts e s1 s2 s3"
  obtains e' where "GoKernelSingle e = Some (Jump DEFAULT_RAM_KERNEL_START [0, cfg32 O_Kernel_ArchNumber e] e')"
    and "read_bytes (e_mem e') DEFAULT_RAM_KERNEL_ZERO_PAGE 2048 = kernel_page e s1 s2 s3"
    and "\<And>q k. \<forall>(p, n) \<in> set (take 5 (line_blocks e)). apart p n q k \<Longrightarrow> read_bytes (e_mem e') q k = read_bytes (e_mem e) q k"
proof -
  let ?K = "obj e ''kcmd''" let ?Z = DEFAULT_RAM_KERNEL_ZERO_PAGE let ?l = "kernel_line e s1 s2 s3" let ?C = "obj e ''Cfg''"
  note L = assms(1) [unfolded line_layout_def line_blocks_def, simplified]
  define e0 where "e0 = with_mem (\<lambda>m. memset 2048 m ?K 0) e"
  have m0: "e_mem e0 = write_bytes (e_mem e) ?K (replicate 2048 0)" by (simp add: e0_def memset_write)
  have s0: "spares (e_mem e) (e_mem e0) ?K 2048" unfolding m0 by (rule spares_write) simp
  have o0: "obj e0 = obj e" by (simp add: e0_def fun_eq_iff)
  have l0: "line_layout e0" unfolding e0_def with_mem_def line_layout_mem by (rule assms(1))
  have p0: "line_parts e0 s1 s2 s3"
    using line_parts_same [OF s0 assms] by (simp add: e0_def with_mem_def)
  have C: "apart ?K 2048 ?C CFG_SIZE" "apart ?Z 2048 ?C CFG_SIZE" "apart ?K 2048 ?Z 2048" using L by blast+
  have k0: "kernel_line e0 s1 s2 s3 = ?l" "read_bytes (e_mem e0) (cfg_at O_KCmd e0) 12 = read_bytes (e_mem e) (cfg_at O_KCmd e) 12"
    using kernel_line_mem [OF spares_read [OF s0 C(1)]] by (simp_all add: e0_def with_mem_def cfg_at_def)
  obtain m r where g: "GetKCmdStr ?K e0 = Some (r, e0\<lparr>e_mem := m\<rparr>)" and h: "read_bytes m ?K 12 = read_bytes (e_mem e) (cfg_at O_KCmd e) 12"
    and t: "cstr m (?K + 12) ?l" and n: "length ?l < 2035"
    and z: "read_bytes m (?K + of_nat (13 + length ?l)) (2035 - length ?l) = read_bytes (e_mem e0) (?K + of_nat (13 + length ?l)) (2035 - length ?l)"
    and s: "\<And>q k. apart ?K 2048 q k \<Longrightarrow> apart (obj e ''ip_cmd'') 32 q k \<Longrightarrow> apart (obj e ''nand_cmd'') 32 q k \<Longrightarrow>
      apart (obj e ''arch_cmd'') 32 q k \<Longrightarrow> read_bytes m q k = read_bytes (e_mem e0) q k"
    by (rule GetKCmdStr_line [OF l0 p0, unfolded o0 k0]) blast
  have z0: "read_bytes m (?K + of_nat (13 + length ?l)) (2035 - length ?l) = replicate (2035 - length ?l) 0"
    unfolding z m0 by (rule read_zeroed) (use n in simp_all)
  have t0: "read_bytes m (?K + 12) (Suc (length ?l)) = ?l @ [0]" using t by (simp only: cstr_read)
  have a1: "?K + 12 + of_nat (Suc (length ?l)) = ?K + of_nat (13 + length ?l)" by simp
  have r1: "[0] @ replicate (2035 - length ?l) (0 :: u8) = replicate (2036 - length ?l) 0"
    using n by (simp flip: replicate_Suc add: Suc_diff_le)
  have page: "read_bytes m ?K (12 + (Suc (length ?l) + (2035 - length ?l))) = kernel_page e s1 s2 s3"
    unfolding read_split [of m ?K 12] read_split [of m "?K + 12"] of_nat_numeral t0 h a1 z0 kernel_page_def Let_def append_assoc r1 ..
  have n2: "12 + (Suc (length ?l) + (2035 - length ?l)) = 2048" using n by simp
  define e1 where "e1 = say ''Starting kernel [MARCH %d]...'' [cfg32 O_Kernel_ArchNumber (e0\<lparr>e_mem := m\<rparr>)] (e0\<lparr>e_mem := m\<rparr>)"
  have e1: "e_mem e1 = m" by (simp add: e1_def)
  have lm: "memcpy 2048 m ?Z ?K = write_bytes m ?Z (read_bytes m ?K 2048)"
  proof (rule memcpy_ascending)
    fix i j :: nat assume "i < j" "j < 2048"
    then show "?Z + of_nat i \<noteq> ?K + of_nat j" using apart_neq [OF C(3), of j i] by (metis less_trans)
  qed
  let ?e = "with_mem (\<lambda>m. memcpy 2048 m ?Z ?K) e1"
  have cm: "read_bytes m ?C CFG_SIZE = read_bytes (e_mem e) ?C CFG_SIZE"
    using s [of ?C CFG_SIZE] spares_read [OF s0 C(1)] L by simp
  have "read_bytes (e_mem ?e) ?C CFG_SIZE = read_bytes m ?C CFG_SIZE"
    unfolding with_mem_simps e1 lm by (rule spares_read [OF spares_write C(2)]) simp
  then have arch: "cfg32 O_Kernel_ArchNumber ?e = cfg32 O_Kernel_ArchNumber e"
    using config_same(2) [of "e_mem ?e" e] cm by (simp add: e1_def e0_def with_mem_def cfg32_def cfg_at_def)
  have "GoKernelSingle e = Some (Jump DEFAULT_RAM_KERNEL_START [0, cfg32 O_Kernel_ArchNumber e] ?e)"
    unfolding GoKernelSingle_def Let_def
    using g by (simp add: e0_def [symmetric] e1_def [symmetric] arch)
  moreover have "read_bytes (e_mem ?e) ?Z 2048 = kernel_page e s1 s2 s3"
    using read_write_append [of 0 "read_bytes m ?K 2048" m ?Z] page n2 by (simp add: e1 lm)
  moreover have "read_bytes (e_mem ?e) q k = read_bytes (e_mem e) q k" if "\<forall>(p, n) \<in> set (take 5 (line_blocks e)). apart p n q k" for q k
  proof -
    have a: "apart ?K 2048 q k" "apart ?Z 2048 q k" "apart (obj e ''ip_cmd'') 32 q k" "apart (obj e ''nand_cmd'') 32 q k" "apart (obj e ''arch_cmd'') 32 q k"
      using that by (simp_all add: line_blocks_def)
    have "read_bytes (e_mem ?e) q k = read_bytes m q k"
      unfolding with_mem_simps e1 lm by (rule spares_read [OF spares_write a(2)]) simp
    then show ?thesis using s [OF a(1,3-5)] spares_read [OF s0 a(1)] by simp
  qed
  ultimately show ?thesis by (rule that)
qed

lemma SetWatchdog_frame: "e_mem (SetWatchdog b k e) = e_mem e \<and> e_addr (SetWatchdog b k e) = e_addr e"
  by (simp add: SetWatchdog_def wr_def rd_def Let_def split: prod.split)

text \<open>
  C29: The kernel gets its command line. Where the buffers, the formats and the configuration do not overlap, \<open>GoKernel\<close> jumps to the kernel's start
  address with 0 and the machine number, and the 2048 bytes at the start of memory are exactly: the 12 bytes of the configured header; one
  line, of a space and the three configured parts, the address as \<open>ip0=\<close> and four numbers, the partitions as \<open>nandparts=\<close> and three numbers, and
  \<open>arch=EZ-X5\<close>, with spaces between; and zeros to the end. Memory beside the buffers and that page is as it was.
\<close>
theorem kernel_command_line:
  assumes "line_layout e" and "line_parts e s1 s2 s3"
  shows "\<exists>e'. GoKernel b e = Some (Jump DEFAULT_RAM_KERNEL_START [0, cfg32 O_Kernel_ArchNumber e] e') \<and>
    read_bytes (e_mem e') DEFAULT_RAM_KERNEL_ZERO_PAGE 2048 =
      (let line = [32] @ s1 @ [32] @ s2 @ [32] @ s3 @ [32] @ ip_text (cfg32 O_Local_IP e) @ [32] @ nand_text e @ [32] @ ascii ''arch='' @ ascii ''EZ-X5''
       in read_bytes (e_mem e) (cfg_at O_KCmd e) 12 @ line @ replicate (2036 - length line) 0) \<and>
    (\<forall>q k. (\<forall>(p, n) \<in> set (take 5 (line_blocks e)). apart p n q k) \<longrightarrow> read_bytes (e_mem e') q k = read_bytes (e_mem e) q k)"
proof -
  define e0 where "e0 = (if cfg8 O_Watchdog e \<noteq> 0 then SetWatchdog b (uint (cfg8 O_Watchdog e) * 1000) e else e)"
  have m: "e_mem e0 = e_mem e" "obj e0 = obj e" using SetWatchdog_frame [of b _ e] by (simp_all add: e0_def)
  then have 1: "line_blocks e0 = line_blocks e" "cfg_at x e0 = cfg_at x e" for x by (simp_all add: line_blocks_def cfg_at_def)
  then have 2: "line_layout e0" "line_parts e0 s1 s2 s3" using assms by (simp_all add: line_layout_def line_parts_def m)
  have 3: "kernel_line e0 s1 s2 s3 = kernel_line e s1 s2 s3" "cfg32 O_Kernel_ArchNumber e0 = cfg32 O_Kernel_ArchNumber e"
    by (simp_all add: kernel_line_def nand_text_def NandPar_def cfg32_def cfg_at_def m)
  then have 4: "kernel_page e0 s1 s2 s3 = kernel_page e s1 s2 s3" by (simp add: kernel_page_def m 1)
  obtain e' where "GoKernelSingle e0 = Some (Jump DEFAULT_RAM_KERNEL_START [0, cfg32 O_Kernel_ArchNumber e] e')"
    "read_bytes (e_mem e') DEFAULT_RAM_KERNEL_ZERO_PAGE 2048 = kernel_page e s1 s2 s3"
    "\<forall>q k. (\<forall>(p, n) \<in> set (take 5 (line_blocks e)). apart p n q k) \<longrightarrow> read_bytes (e_mem e') q k = read_bytes (e_mem e) q k"
    by (rule GoKernelSingle_line [OF 2, unfolded 1 3 4 m]) blast
  then show ?thesis unfolding GoKernel_def e0_def [symmetric] kernel_page_def kernel_line_def by blast
qed

text \<open>A board with the default configuration; nothing hangs on its bus.\<close>

definition line_table :: "u32 \<Rightarrow> u8 list" where
  "line_table a =
     (if a = 0x10000 then ascii ''ip0=%d.%d.%d.%d'' else if a = 0x10100 then ascii ''nandparts=%d,%d,%d'' else if a = 0x10200 then ascii ''arch=%s''
      else if a = 0x10300 then ascii '' %s %s %s %s %s %s'' else if a = 0x10400 then ascii ''EZ-X5'' else [])"

definition line_mem :: mem where
  "line_mem a =
     (if 0x20000 \<le> a \<and> a < 0x20230 then Default_Cfg ! unat (a - 0x20000)
      else (let l = line_table (a AND 0xFFFFFF00); i = unat (a AND 0xFF) in if i < length l then l ! i else 0))"

definition line_board :: "unit ez" where
  "line_board = ez_at line_mem ()
     (\<lambda>x. if x = ''fmt_ip0'' then 0x10000 else if x = ''fmt_nandparts'' then 0x10100 else if x = ''fmt_arch'' then 0x10200
       else if x = ''fmt_kcmd'' then 0x10300 else if x = ''CMD_ARCH_NAME'' then 0x10400 else if x = ''Cfg'' then 0x20000
       else if x = ''kcmd'' then 0x30000 else if x = ''ip_cmd'' then 0x31000 else if x = ''nand_cmd'' then 0x31100 else 0x31200)"

lemma line_board_at:
  "e_mem line_board = line_mem" "obj line_board ''fmt_ip0'' = 0x10000" "obj line_board ''fmt_nandparts'' = 0x10100" "obj line_board ''fmt_arch'' = 0x10200"
  "obj line_board ''fmt_kcmd'' = 0x10300" "obj line_board ''CMD_ARCH_NAME'' = 0x10400" "obj line_board ''Cfg'' = 0x20000" "obj line_board ''kcmd'' = 0x30000"
  "obj line_board ''ip_cmd'' = 0x31000" "obj line_board ''nand_cmd'' = 0x31100" "obj line_board ''arch_cmd'' = 0x31200"
  by (simp_all add: line_board_def ez_at_def)

lemma line_byte: "k < 560 \<Longrightarrow> line_mem (0x20000 + of_nat k) = Default_Cfg ! k"
proof -
  assume a: "k < 560"
  have u: "unat (0x20000 + of_nat k :: u32) = 0x20000 + k" by (rule unat_plus_small [of "0x20000", simplified]) (use a in simp)
  have "unat (of_nat k :: u32) = k" using a by (simp add: unsigned_of_nat take_bit_nat_eq_self)
  moreover have "(0x20000 :: u32) \<le> 0x20000 + of_nat k" "0x20000 + of_nat k < (0x20230 :: u32)" using a u by (simp_all add: word_le_nat_alt word_less_nat_alt)
  ultimately show ?thesis by (simp add: line_mem_def)
qed

lemma line_config: "k + n \<le> 560 \<Longrightarrow> read_bytes line_mem (0x20000 + of_nat k) n = take n (drop k Default_Cfg)"
proof (rule nth_equalityI)
  assume a: "k + n \<le> 560"
  have l: "length Default_Cfg = 560" by code_simp
  then show "length (read_bytes line_mem (0x20000 + of_nat k) n) = length (take n (drop k Default_Cfg))" using a by simp
  fix i assume "i < length (read_bytes line_mem (0x20000 + of_nat k) n)"
  then show "read_bytes line_mem (0x20000 + of_nat k) n ! i = take n (drop k Default_Cfg) ! i"
    using line_byte [of "k + i"] a l by (simp add: nth_read_bytes add.assoc)
qed

lemma default_parts:
  "take 12 (drop 308 Default_Cfg) = le32 CONFIG_CMD_MAGIC @ field 8 ''CMD=''"
  "take 49 (drop 320 Default_Cfg) = ascii ''initrd=0xa0800000,5M root=/dev/ram ramdisk=12288'' @ [0]"
  "take 22 (drop 400 Default_Cfg) = ascii ''console=ttyS02,115200'' @ [0]" "take 1 (drop 480 Default_Cfg) = [0]"
  "map (\<lambda>k. Default_Cfg ! k) [28, 29, 30, 31, 296, 297, 298, 299, 300, 301, 302, 303, 304, 305] = [192, 168, 10, 155, 47, 1, 0, 0, 1, 0, 5, 0, 58, 0]"
  by code_simp+

lemma line_formats:
  "cstr line_mem 0x10000 (ascii ''ip0=%d.%d.%d.%d'')" "cstr line_mem 0x10100 (ascii ''nandparts=%d,%d,%d'')" "cstr line_mem 0x10200 (ascii ''arch=%s'')"
  "cstr line_mem 0x10300 (ascii '' %s %s %s %s %s %s'')" "cstr line_mem 0x10400 (ascii ''EZ-X5'')"
  by code_simp+

lemma line_strings:
  "cstr line_mem 0x20140 (ascii ''initrd=0xa0800000,5M root=/dev/ram ramdisk=12288'')" "cstr line_mem 0x20190 (ascii ''console=ttyS02,115200'')"
  "cstr line_mem 0x201E0 []"
proof -
  have "0 \<notin> set (ascii ''initrd=0xa0800000,5M root=/dev/ram ramdisk=12288'')" "length (ascii ''initrd=0xa0800000,5M root=/dev/ram ramdisk=12288'') = 48"
    "0 \<notin> set (ascii ''console=ttyS02,115200'')" "length (ascii ''console=ttyS02,115200'') = 21" by code_simp+
  then show "cstr line_mem 0x20140 (ascii ''initrd=0xa0800000,5M root=/dev/ram ramdisk=12288'')" "cstr line_mem 0x20190 (ascii ''console=ttyS02,115200'')"
    "cstr line_mem 0x201E0 []"
    using line_config [of 320 49] line_config [of 400 22] line_config [of 480 1] unfolding default_parts cstr_read by simp_all
qed

lemma line_numbers:
  "cfg32 O_Local_IP line_board = 0x9B0AA8C0" "cfg32 O_Kernel_ArchNumber line_board = LINUX_MACH_TYPE"
  "NandPar 0 line_board = 1" "NandPar 1 line_board = 5" "NandPar 2 line_board = 58"
  using default_parts(5) line_byte [of 28] line_byte [of 29] line_byte [of 30] line_byte [of 31] line_byte [of 296] line_byte [of 297] line_byte [of 298]
    line_byte [of 299] line_byte [of 300] line_byte [of 301] line_byte [of 302] line_byte [of 303] line_byte [of 304] line_byte [of 305]
  by (simp_all add: cfg32_def NandPar_def O_Local_IP_def O_Kernel_ArchNumber_def O_NandPar_def cfg_at_def line_board_at ld32_def ld16_def LINUX_MACH_TYPE_def)

lemma line_board_layout: "line_layout line_board"
  by (simp add: line_layout_def line_blocks_def line_board_at apart_def CFG_SIZE_def DEFAULT_RAM_KERNEL_ZERO_PAGE_def)

theorem kernel_command_line_witness:
  "\<exists>e'. GoKernel \<lparr>bus_rd = \<lambda>a s. (0, s), bus_wr = \<lambda>a v s. s, bus_idle = \<lambda>s. s\<rparr> line_board = Some (Jump DEFAULT_RAM_KERNEL_START [0, LINUX_MACH_TYPE] e') \<and>
    read_bytes (e_mem e') DEFAULT_RAM_KERNEL_ZERO_PAGE 2048 = le32 CONFIG_CMD_MAGIC @ field 8 ''CMD='' @
      ascii '' initrd=0xa0800000,5M root=/dev/ram ramdisk=12288 console=ttyS02,115200  ip0=192.168.10.155 nandparts=1,5,58 arch=EZ-X5'' @ replicate 1917 0"
proof -
  let ?a = "ascii ''initrd=0xa0800000,5M root=/dev/ram ramdisk=12288''" and ?b = "ascii ''console=ttyS02,115200''"
  have l: "length ?a = 48" "length ?b = 21" by code_simp+
  then have p: "line_parts line_board ?a ?b []"
    using line_formats line_strings by (simp add: line_parts_def line_board_at cfg_at_def O_cmd_A_def O_cmd_B_def O_cmd_C_def)
  have t: "ip_text 0x9B0AA8C0 = ascii ''ip0=192.168.10.155''" "length (ascii ''ip0=192.168.10.155'') = 18" by code_simp+
  have "nand_text line_board = ascii ''nandparts='' @ decimal 1 @ ascii '','' @ decimal 5 @ ascii '','' @ decimal 58"
    unfolding nand_text_def line_numbers by simp
  also have "\<dots> = ascii ''nandparts=1,5,58''" by code_simp
  finally have n: "nand_text line_board = ascii ''nandparts=1,5,58''" .
  have whole: "[32] @ ?a @ [32] @ ?b @ [32] @ [] @ [32] @ ascii ''ip0=192.168.10.155'' @ [32] @ ascii ''nandparts=1,5,58'' @ [32] @ ascii ''arch='' @ ascii ''EZ-X5'' =
      ascii '' initrd=0xa0800000,5M root=/dev/ram ramdisk=12288 console=ttyS02,115200  ip0=192.168.10.155 nandparts=1,5,58 arch=EZ-X5''"
    and len: "length (ascii '' initrd=0xa0800000,5M root=/dev/ram ramdisk=12288 console=ttyS02,115200  ip0=192.168.10.155 nandparts=1,5,58 arch=EZ-X5'') = 119"
    by code_simp+
  have h: "read_bytes (e_mem line_board) (cfg_at O_KCmd line_board) 12 = le32 CONFIG_CMD_MAGIC @ field 8 ''CMD=''"
    using line_config [of 308 12] unfolding default_parts by (simp add: line_board_at cfg_at_def O_KCmd_def)
  show ?thesis
    using kernel_command_line [OF line_board_layout p, of "\<lparr>bus_rd = \<lambda>a s. (0, s), bus_wr = \<lambda>a v s. s, bus_idle = \<lambda>s. s\<rparr>"]
    unfolding Let_def line_numbers t(1) n whole h len by auto
qed

end
