(* ===== verification/Book_Driver.thy ===== *)
theory Book_Driver
  imports Kernel_User Boot_Timer
begin

text \<open>
  The kernel of \<open>source/chap16\<close>, the state of the kernel at the end of the book: it shares most of its
  code with \<open>navilnux/chap16_driver\<close> and adds a vector of interrupt routines, nine user tasks and
  a device driver. What differs is defined here and in \<open>Book_Kernel\<close>, with the suffix \<open>_b\<close>
  where the other kernel has the same name. This theory has the state, the pins and the driver
  of the board's button and lamps, \<open>my_drv.c\<close>.
\<close>

section \<open>The state\<close>

datatype irq_fn = Fn_gpio0_irq_handler

definition IRQNUM :: nat where "IRQNUM = 64"
definition IRQ8 :: nat where "IRQ8 = 8"
definition MYDRV :: int where "MYDRV = 0"
definition O_RDWR :: int where "O_RDWR = 2"

text \<open>
  The kernel's globals, the interrupt vector, the driver's variable and the devices. \<open>mydrv_fops_at\<close>
  and \<open>mydrv_name_at\<close> are where the linker put the structure \<open>mydrv_fops\<close> and the driver's name.
\<close>

record 'h book =
  krn :: kernel
  irq_vector :: "irq_fn option list"
  switch_pushed :: int
  bdev :: 'h
  mydrv_fops_at :: u32
  mydrv_name_at :: u32

type_synonym 'h bsys = "(u32 \<times> 'h book) fres"

definition ret_b :: "int \<Rightarrow> 'h book \<Rightarrow> 'h bsys" where
  "ret_b r s = Inr (word_of_int r, s)"

definition b_printf :: "string \<Rightarrow> u32 list \<Rightarrow> 'h book \<Rightarrow> 'h book" where
  "b_printf fmt args s = s\<lparr>krn := k_printf fmt args (krn s)\<rparr>"

text \<open>What only works on the kernel's globals.\<close>

definition in_kernel :: "(kernel \<Rightarrow> ('a \<times> kernel) fres) \<Rightarrow> 'h book \<Rightarrow> ('a \<times> 'h book) fres" where
  "in_kernel f s = fbind (f (krn s)) (\<lambda>(r, k). Inr (r, s\<lparr>krn := k\<rparr>))"

section \<open>The lamps\<close>

definition LED_OFF :: u32 where "LED_OFF = 0"
definition LED_ON :: u32 where "LED_ON = 1"

text \<open>The pin of lamp \<open>n\<close>; there are four. A lamp is on while its pin is low.\<close>

definition led_pin :: "int \<Rightarrow> u32 option" where
  "led_pin n = (if n = 0 then Some (GPIO_bit 2) else if n = 1 then Some (GPIO_bit 3)
     else if n = 2 then Some (GPIO_bit 4) else if n = 3 then Some (GPIO_bit 5) else None)"

definition GPIO_SetLED_b :: "'h bus \<Rightarrow> int \<Rightarrow> u32 \<Rightarrow> 'h \<Rightarrow> 'h" where
  "GPIO_SetLED_b b LedIndex v h = (case led_pin LedIndex of None \<Rightarrow> h
     | Some p \<Rightarrow> bus_wr b (if v \<noteq> 0 then GPCR0 else GPSR0) p h)"

section \<open>The driver\<close>

definition gpio0_irq_handler :: "'h book \<Rightarrow> int \<times> 'h book" where
  "gpio0_irq_handler s =
     (if switch_pushed s \<noteq> 0 then (-1, s)
      else (0, (b_printf (''Switch Push!! in Device Driver Layer'' @ [NL]) [] s)\<lparr>switch_pushed := 1\<rparr>))"

definition mydrv_open :: "int \<Rightarrow> int \<Rightarrow> 'h book \<Rightarrow> 'h bsys" where
  "mydrv_open drvnum mode s = ret_b 0 (s\<lparr>
     irq_vector := (irq_vector s)[IRQ8 := Some Fn_gpio0_irq_handler], switch_pushed := 0\<rparr>)"

definition mydrv_close :: "int \<Rightarrow> 'h book \<Rightarrow> 'h bsys" where
  "mydrv_close drvnum s = ret_b 0 s"

definition mydrv_read :: "int \<Rightarrow> u32 \<Rightarrow> int \<Rightarrow> 'h book \<Rightarrow> 'h bsys" where
  "mydrv_read drvnum buf sz s =
     (if switch_pushed s = 1 then
        ret_b 4 (s\<lparr>krn := (krn s)\<lparr>ram := st32 (ram (krn s)) buf (word_of_int (switch_pushed s))\<rparr>,
          switch_pushed := 0\<rparr>)
      else ret_b (-2) s)"

definition mydrv_write :: "'h bus \<Rightarrow> int \<Rightarrow> u32 \<Rightarrow> int \<Rightarrow> 'h book \<Rightarrow> 'h bsys" where
  "mydrv_write b drvnum buf sz s =
     (let n = sint (ld32 (ram (krn s)) buf); v = ld32 (ram (krn s)) (buf + 4)
      in ret_b 0 (s\<lparr>bdev := GPIO_SetLED_b b n v (bdev s)\<rparr>))"

record 'h fops_b =
  fo_open :: "int \<Rightarrow> int \<Rightarrow> 'h book \<Rightarrow> 'h bsys"
  fo_read :: "int \<Rightarrow> u32 \<Rightarrow> int \<Rightarrow> 'h book \<Rightarrow> 'h bsys"
  fo_write :: "int \<Rightarrow> u32 \<Rightarrow> int \<Rightarrow> 'h book \<Rightarrow> 'h bsys"
  fo_close :: "int \<Rightarrow> 'h book \<Rightarrow> 'h bsys"

definition mydrv_fops :: "'h bus \<Rightarrow> 'h fops_b" where
  "mydrv_fops b = \<lparr>fo_open = mydrv_open, fo_read = mydrv_read, fo_write = mydrv_write b,
     fo_close = mydrv_close\<rparr>"

definition mydrv_init :: "'h book \<Rightarrow> (int \<times> 'h book) fres" where
  "mydrv_init s =
     (if dm_register_drv (drvmng (krn s)) = None then Inl NullCall
      else fbind (drv_register_drv MYDRV (mydrv_name_at s) (mydrv_fops_at s) (drvmng (krn s)))
        (\<lambda>(r, dm). Inr (r, s\<lparr>krn := (krn s)\<lparr>drvmng := dm\<rparr>\<rparr>)))"

end
