(* ===== verification/Book_Kernel.thy ===== *)
theory Book_Kernel
  imports Book_Driver
begin

text \<open>
  The managers, calls, interrupts and start-up of the kernel of \<open>source/chap16\<close>, where they differ
  from \<open>navilnux/chap16_driver\<close>: \<open>navilnux_msg.c\<close> (mailboxes within their range, mutexes
  without an owner), \<open>navilnux_task.c\<close>, \<open>navilnux_drv.c\<close>, \<open>navilnux_sys.c\<close>, \<open>navilnux.c\<close>.
  The pool of stacks has sixty entries here; the code of \<open>navilnux_memory.c\<close> is the same.
\<close>

section \<open>Messages, semaphores, mutexes\<close>

definition MUTEXSTART_b :: int where "MUTEXSTART_b = 100"
definition MUTEXEND_b :: int where "MUTEXEND_b = 199"
definition SEMSTART_b :: int where "SEMSTART_b = 200"
definition SEMEND_b :: int where "SEMEND_b = 254"

lemmas msg_consts_b = msg_consts MUTEXSTART_b_def MUTEXEND_b_def SEMSTART_b_def SEMEND_b_def

definition msg_itc_send_b :: "int \<Rightarrow> u32 \<Rightarrow> msg_mng \<Rightarrow> int \<times> msg_mng" where
  "msg_itc_send_b itcnum d mg =
     (if itcnum > ITCEND \<or> itcnum < ITCSTART then (-1, mg)
      else (itcnum, set_msg_cell mg itcnum ((msg_cell mg itcnum)\<lparr>msg_data := d, msg_flag := 1\<rparr>)))"

definition msg_itc_get_b :: "int \<Rightarrow> msg_mng \<Rightarrow> int \<times> msg_mng \<times> u32 option" where
  "msg_itc_get_b itcnum mg =
     (if itcnum > ITCEND \<or> itcnum < ITCSTART then (-1, mg, None)
      else if msg_flag (msg_cell mg itcnum) = 0 then (-2, mg, None)
      else (0, set_msg_cell mg itcnum ((msg_cell mg itcnum)\<lparr>msg_flag := 0, msg_data := 0\<rparr>),
            Some (msg_data (msg_cell mg itcnum))))"

definition msg_mutex_wait_b :: "int \<Rightarrow> msg_mng \<Rightarrow> int \<times> msg_mng" where
  "msg_mutex_wait_b mutexnum mg =
     (let n = wrap32 (mutexnum + MUTEXSTART_b) in
      if n > MUTEXEND_b \<or> n < MUTEXSTART_b then (-1, mg)
      else if msg_flag (msg_cell mg n) = 0 then (0, set_msg_cell mg n ((msg_cell mg n)\<lparr>msg_flag := 1\<rparr>))
      else (-2, mg))"

definition msg_mutex_release_b :: "int \<Rightarrow> msg_mng \<Rightarrow> int \<times> msg_mng" where
  "msg_mutex_release_b mutexnum mg =
     (let n = wrap32 (mutexnum + MUTEXSTART_b) in
      if n > MUTEXEND_b \<or> n < MUTEXSTART_b then (-1, mg)
      else (0, set_msg_cell mg n ((msg_cell mg n)\<lparr>msg_flag := 0\<rparr>)))"

definition msg_sem_init_b :: "int \<Rightarrow> int \<Rightarrow> msg_mng \<Rightarrow> int \<times> msg_mng" where
  "msg_sem_init_b semnum v mg =
     (let n = wrap32 (semnum + SEMSTART_b) in
      if n > SEMEND_b \<or> n < SEMSTART_b then (-1, mg)
      else (0, set_msg_cell mg n ((msg_cell mg n)\<lparr>msg_flag := v\<rparr>)))"

definition msg_sem_p_b :: "int \<Rightarrow> msg_mng \<Rightarrow> int \<times> msg_mng" where
  "msg_sem_p_b semnum mg =
     (let n = wrap32 (semnum + SEMSTART_b) in
      if n > SEMEND_b \<or> n < SEMSTART_b then (-1, mg)
      else if msg_flag (msg_cell mg n) \<le> 0 then (-2, mg)
      else (0, set_msg_cell mg n
                 ((msg_cell mg n)\<lparr>msg_flag := wrap32 (msg_flag (msg_cell mg n) - 1)\<rparr>)))"

definition msg_sem_v_b :: "int \<Rightarrow> msg_mng \<Rightarrow> int \<times> msg_mng" where
  "msg_sem_v_b semnum mg =
     (let n = wrap32 (semnum + SEMSTART_b) in
      if n > SEMEND_b \<or> n < SEMSTART_b then (-1, mg)
      else (0, set_msg_cell mg n
                 ((msg_cell mg n)\<lparr>msg_flag := wrap32 (msg_flag (msg_cell mg n) + 1)\<rparr>)))"

section \<open>Tasks, stacks and the driver table\<close>

definition MAXMEMBLK_b :: nat where "MAXMEMBLK_b = 60"

definition mem_mng_zero_b :: mem_mng where
  "mem_mng_zero_b = mem_mng_zero\<lparr>free_mem_pool :=
     replicate MAXMEMBLK_b \<lparr>block_start_addr = 0, block_end_addr = 0, is_used = 0\<rparr>\<rparr>"

definition task_init_b :: "task_mng \<Rightarrow> task_mng" where
  "task_init_b tm = tm\<lparr>
     free_task_pool := map (\<lambda>t. \<lparr>context_spsr = 0, context_regs = replicate CONTEXTNUM 0, context_sp = 0,
       context_lr = 0, context_pc = 0, sleep_end_tick = 0\<rparr>) (free_task_pool tm),
     max_task_id := -1, tm_init := Some Fn_task_init, tm_create := Some Fn_task_create\<rparr>"

text \<open>The table is cleared, then the driver registers itself; the result is ignored.\<close>

definition drv_init_b :: "'h book \<Rightarrow> 'h book fres" where
  "drv_init_b s = fbind (mydrv_init (s\<lparr>krn := (krn s)\<lparr>drvmng := drv_init (drvmng (krn s))\<rparr>\<rparr>))
     (\<lambda>(r, s1). Inr s1)"

section \<open>The system calls\<close>

definition sys_mysyscall_b :: "u32 \<Rightarrow> u32 \<Rightarrow> u32 \<Rightarrow> kernel \<Rightarrow> sysret" where
  "sys_mysyscall_b a b c k = ret_int 333 (k_printf (''My Systemcall - %d , %d , %d'' @ [NL]) [a, b, c] k)"

definition sys_mysyscall4_b :: "u32 \<Rightarrow> u32 \<Rightarrow> u32 \<Rightarrow> u32 \<Rightarrow> kernel \<Rightarrow> sysret" where
  "sys_mysyscall4_b a b c d k =
     ret_int 3413 (k_printf (''My Systemcall4 - %d , %d , %d , %d'' @ [NL]) [a, b, c, d] k)"

definition sys_itcsend_b :: "int \<Rightarrow> u32 \<Rightarrow> kernel \<Rightarrow> sysret" where
  "sys_itcsend_b itcnum d k = lift_msg (mg_itc_send (msgmng k)) (msg_itc_send_b itcnum d) k"

definition sys_itcget_b :: "int \<Rightarrow> u32 \<Rightarrow> kernel \<Rightarrow> sysret" where
  "sys_itcget_b itcnum p k =
     (if mg_itc_get (msgmng k) = None then Inl NullCall
      else (let (r, mg, d) = msg_itc_get_b itcnum (msgmng k) in
        ret_int r (k\<lparr>msgmng := mg,
          ram := (case d of None \<Rightarrow> ram k | Some v \<Rightarrow> st32 (ram k) p v)\<rparr>)))"

definition sys_mutexwait_b :: "int \<Rightarrow> kernel \<Rightarrow> sysret" where
  "sys_mutexwait_b mutexnum k = lift_msg (mg_mutex_wait (msgmng k)) (msg_mutex_wait_b mutexnum) k"

definition sys_mutexrelease_b :: "int \<Rightarrow> kernel \<Rightarrow> sysret" where
  "sys_mutexrelease_b mutexnum k = lift_msg (mg_mutex_release (msgmng k)) (msg_mutex_release_b mutexnum) k"

definition sys_semp_b :: "int \<Rightarrow> kernel \<Rightarrow> sysret" where
  "sys_semp_b semnum k = lift_msg (mg_sem_p (msgmng k)) (msg_sem_p_b semnum) k"

definition sys_semv_b :: "int \<Rightarrow> kernel \<Rightarrow> sysret" where
  "sys_semv_b semnum k = lift_msg (mg_sem_v (msgmng k)) (msg_sem_v_b semnum) k"

text \<open>
  The structure slot \<open>drvnum\<close> points to. The only one there is is the button driver's; a null
  pointer and any other address are faults. Number 100 passes the check and is outside the table.
\<close>

definition fops_of :: "'h bus \<Rightarrow> int \<Rightarrow> 'h book \<Rightarrow> 'h fops_b fres" where
  "fops_of b drvnum s =
     (let p = navil_fops (free_drv_pool (drvmng (krn s)) ! nat drvnum) in
      if p = 0 then Inl NullCall else if p = mydrv_fops_at s then Inr (mydrv_fops b) else Inl OutOfBounds)"

definition drv_slot :: "int \<Rightarrow> 'h book \<Rightarrow> 'h bsys \<Rightarrow> 'h bsys" where
  "drv_slot drvnum s act =
     (if drvnum > DRVLIMIT \<or> drvnum < 0 then ret_b (-1) s
      else if \<not> in_array drvnum (free_drv_pool (drvmng (krn s))) then Inl OutOfBounds
      else act)"

definition sys_open_b :: "'h bus \<Rightarrow> int \<Rightarrow> int \<Rightarrow> 'h book \<Rightarrow> 'h bsys" where
  "sys_open_b b drvnum mode s = drv_slot drvnum s
     (if usecount (free_drv_pool (drvmng (krn s)) ! nat drvnum) < 0 then ret_b (-1) s
      else (let s1 = s\<lparr>krn := add_usecount drvnum 1 (krn s)\<rparr>
        in fbind (fops_of b drvnum s1) (\<lambda>f. fo_open f drvnum mode s1)))"

definition sys_close_b :: "'h bus \<Rightarrow> int \<Rightarrow> 'h book \<Rightarrow> 'h bsys" where
  "sys_close_b b drvnum s = drv_slot drvnum s
     (let s1 = s\<lparr>krn := add_usecount drvnum (-1) (krn s)\<rparr>
      in fbind (fops_of b drvnum s1) (\<lambda>f. fo_close f drvnum s1))"

definition sys_read_b :: "'h bus \<Rightarrow> int \<Rightarrow> u32 \<Rightarrow> int \<Rightarrow> 'h book \<Rightarrow> 'h bsys" where
  "sys_read_b b drvnum buf sz s = drv_slot drvnum s
     (fbind (fops_of b drvnum s) (\<lambda>f. fo_read f drvnum buf sz s))"

definition sys_write_b :: "'h bus \<Rightarrow> int \<Rightarrow> u32 \<Rightarrow> int \<Rightarrow> 'h book \<Rightarrow> 'h bsys" where
  "sys_write_b b drvnum buf sz s = drv_slot drvnum s
     (fbind (fops_of b drvnum s) (\<lambda>f. fo_write f drvnum buf sz s))"

text \<open>The numbers of this kernel's \<open>syscalltbl.h\<close>: the mutexes come before the semaphores.\<close>

definition syscall_numbers_b :: "(nat \<times> sys_fn) list" where
  "syscall_numbers_b = [(0, Sys_mysyscall), (1, Sys_mysyscall4), (2, Sys_itcsend), (3, Sys_itcget),
     (4, Sys_mutexwait), (5, Sys_mutexrelease), (6, Sys_semp), (7, Sys_semv), (8, Sys_malloc),
     (9, Sys_free), (10, Sys_open), (11, Sys_close), (12, Sys_read), (13, Sys_write)]"

definition syscall_init_b :: "kernel \<Rightarrow> kernel" where
  "syscall_init_b k = k\<lparr>syscallvec :=
     foldl (\<lambda>v (n, f). v[n := Some f]) (syscallvec k) syscall_numbers_b\<rparr>"

fun sys_call_b :: "'h bus \<Rightarrow> sys_fn \<Rightarrow> u32 \<Rightarrow> u32 \<Rightarrow> u32 \<Rightarrow> u32 \<Rightarrow> 'h book \<Rightarrow> 'h bsys" where
  "sys_call_b b Sys_mysyscall r0 r1 r2 r3 s = in_kernel (sys_mysyscall_b r0 r1 r2) s"
| "sys_call_b b Sys_mysyscall4 r0 r1 r2 r3 s = in_kernel (sys_mysyscall4_b r0 r1 r2 r3) s"
| "sys_call_b b Sys_itcsend r0 r1 r2 r3 s = in_kernel (sys_itcsend_b (sint r0) r1) s"
| "sys_call_b b Sys_itcget r0 r1 r2 r3 s = in_kernel (sys_itcget_b (sint r0) r1) s"
| "sys_call_b b Sys_semp r0 r1 r2 r3 s = in_kernel (sys_semp_b (sint r0)) s"
| "sys_call_b b Sys_semv r0 r1 r2 r3 s = in_kernel (sys_semv_b (sint r0)) s"
| "sys_call_b b Sys_mutexwait r0 r1 r2 r3 s = in_kernel (sys_mutexwait_b (sint r0)) s"
| "sys_call_b b Sys_mutexrelease r0 r1 r2 r3 s = in_kernel (sys_mutexrelease_b (sint r0)) s"
| "sys_call_b b Sys_malloc r0 r1 r2 r3 s = in_kernel (sys_malloc r0) s"
| "sys_call_b b Sys_free r0 r1 r2 r3 s = in_kernel (sys_free r0) s"
| "sys_call_b b Sys_open r0 r1 r2 r3 s = sys_open_b b (sint r0) (sint r1) s"
| "sys_call_b b Sys_close r0 r1 r2 r3 s = sys_close_b b (sint r0) s"
| "sys_call_b b Sys_read r0 r1 r2 r3 s = sys_read_b b (sint r0) r1 (sint r2) s"
| "sys_call_b b Sys_write r0 r1 r2 r3 s = sys_write_b b (sint r0) r1 (sint r2) s"

definition syscall_dispatch_b :: "'h bus \<Rightarrow> nat \<Rightarrow> u32 \<Rightarrow> u32 \<Rightarrow> u32 \<Rightarrow> u32 \<Rightarrow> 'h book \<Rightarrow> 'h bsys" where
  "syscall_dispatch_b b n r0 r1 r2 r3 s =
     (if length (syscallvec (krn s)) \<le> n then Inl OutOfBounds
      else case syscallvec (krn s) ! n of
             None \<Rightarrow> Inl NullCall
           | Some f \<Rightarrow> sys_call_b b f r0 r1 r2 r3 s)"

text \<open>\<open>navilnux_swiHandler\<close>: as in the other kernel, the scheduler's path stores \<open>r10\<close> overwritten.\<close>

definition swi_handler_b :: "'h bus \<Rightarrow> nat \<Rightarrow> ucontext \<Rightarrow> 'h book \<Rightarrow> (ucontext \<times> 'h book) fres" where
  "swi_handler_b b n uc s =
     (if n = SYS_CALLSCHED then
        in_kernel (\<lambda>k. fbind (save_context (uc\<lparr>u_regs := (u_regs uc)[10 := of_nat n]\<rparr>) k) (\<lambda>k1.
          fbind (scheduler k1) load_context)) s
      else
        fbind (syscall_dispatch_b b n (u_regs uc ! 0) (u_regs uc ! 1) (u_regs uc ! 2) (u_regs uc ! 3) s)
          (\<lambda>(r, s1). Inr (uc\<lparr>u_regs := (u_regs uc)[0 := r]\<rparr>, s1)))"

section \<open>Interrupts\<close>

definition GPDR0 :: u32 where "GPDR0 = 0x40E0000C"
definition GRER0 :: u32 where "GRER0 = 0x40E00030"
definition GFER0 :: u32 where "GFER0 = 0x40E0003C"
definition GEDR0 :: u32 where "GEDR0 = 0x40E00048"
definition GAFR0_L :: u32 where "GAFR0_L = 0x40E00054"

fun call_irq_fn :: "irq_fn \<Rightarrow> 'h book \<Rightarrow> int \<times> 'h book" where
  "call_irq_fn Fn_gpio0_irq_handler s = gpio0_irq_handler s"

text \<open>\<open>irqHandler\<close>: the timer's part, then the button's; the pending register is read for each.\<close>

definition irq_timer_b :: "'h bus \<Rightarrow> 'h book \<Rightarrow> 'h book fres" where
  "irq_timer_b b s =
     (let (icip, h1) = bus_rd b ICIP (bdev s) in
      if icip AND push_bit 27 1 \<noteq> 0 then
        (let h2 = bus_wr b OSSR OSSR_M1 h1;
             (oscr, h3) = bus_rd b OSCR h2;
             h4 = bus_wr b OSMR1 (oscr + 3686400) h3
         in fbind (scheduler ((krn s)\<lparr>navilnux_time_tick := navilnux_time_tick (krn s) + 1\<rparr>))
              (\<lambda>k. Inr (s\<lparr>krn := k, bdev := h4\<rparr>)))
      else Inr (s\<lparr>bdev := h1\<rparr>))"

definition irq_button_b :: "'h bus \<Rightarrow> 'h book \<Rightarrow> 'h book fres" where
  "irq_button_b b s =
     (let (icip, h1) = bus_rd b ICIP (bdev s) in
      if icip AND push_bit 8 1 \<noteq> 0 then
        (let s1 = s\<lparr>bdev := bus_wr b GEDR0 1 h1\<rparr> in
         if length (irq_vector s1) \<le> IRQ8 then Inl OutOfBounds
         else case irq_vector s1 ! IRQ8 of None \<Rightarrow> Inr s1 | Some f \<Rightarrow> Inr (snd (call_irq_fn f s1)))
      else Inr (s\<lparr>bdev := h1\<rparr>))"

definition irqHandler_b :: "'h bus \<Rightarrow> 'h book \<Rightarrow> 'h book fres" where
  "irqHandler_b b s = fbind (irq_timer_b b s) (irq_button_b b)"

definition irq_handler_b :: "'h bus \<Rightarrow> ucontext \<Rightarrow> 'h book \<Rightarrow> (ucontext \<times> 'h book) fres" where
  "irq_handler_b b uc s =
     fbind (save_context uc (krn s)) (\<lambda>k1.
     fbind (irqHandler_b b (s\<lparr>krn := k1\<rparr>)) (in_kernel load_context))"

section \<open>Start-up\<close>

definition os_timer_init_b :: "'h bus \<Rightarrow> 'h \<Rightarrow> 'h" where
  "os_timer_init_b b h =
     (let h = bus_wr b ICCR 1 h;
          h = reg_modify b ICMR (\<lambda>v. v OR push_bit 27 1) h;
          h = reg_modify b ICLR (\<lambda>v. v AND NOT (push_bit 27 1)) h;
          h = bus_wr b OSCR 0 h;
          (oscr, h) = bus_rd b OSCR h;
          h = bus_wr b OSMR1 (oscr + 3686400) h
      in bus_wr b OSSR OSSR_M1 h)"

definition gpio0_init :: "'h bus \<Rightarrow> 'h \<Rightarrow> 'h" where
  "gpio0_init b h =
     (let h = reg_modify b GPDR0 (\<lambda>v. v AND NOT (push_bit 0 1)) h;
          h = reg_modify b GAFR0_L (\<lambda>v. v AND NOT 3) h;
          h = reg_modify b GRER0 (\<lambda>v. v AND NOT (push_bit 0 1)) h;
          h = reg_modify b GFER0 (\<lambda>v. v OR push_bit 0 1) h;
          h = reg_modify b ICMR (\<lambda>v. v OR push_bit 8 1) h
      in reg_modify b ICLR (\<lambda>v. v AND NOT (push_bit 8 1)) h)"

definition navilnux_init_b :: "'h bus \<Rightarrow> 'h book \<Rightarrow> 'h book fres" where
  "navilnux_init_b b s =
     (let k0 = (krn s)\<lparr>navilnux_time_tick := 0\<rparr>;
          k1 = k0\<lparr>memmng := mem_init (memmng k0)\<rparr>;
          k2 = k1\<lparr>taskmng := task_init_b (taskmng k1)\<rparr>;
          k3 = k2\<lparr>msgmng := msg_init (msgmng k2)\<rparr>;
          k4 = syscall_init_b k3
      in fbind (drv_init_b (s\<lparr>krn := k4\<rparr>)) (\<lambda>s1.
         Inr (s1\<lparr>bdev := os_timer_start b (gpio0_init b (os_timer_init_b b (bdev s1))),
           irq_vector := map (\<lambda>_. None) (irq_vector s1)\<rparr>)))"

text \<open>\<open>navilnux_user\<close>: nine tasks, whose results are ignored, and a semaphore that admits two.\<close>

fun create_tasks :: "u32 list \<Rightarrow> kernel \<Rightarrow> kernel fres" where
  "create_tasks [] k = Inr k"
| "create_tasks (f # fs) k = fbind (k_task_create f k) (\<lambda>(r, k1). create_tasks fs k1)"

definition navilnux_user_b :: "u32 list \<Rightarrow> kernel \<Rightarrow> kernel fres" where
  "navilnux_user_b entries k = fbind (create_tasks entries k) (\<lambda>k1.
     if mg_sem_init (msgmng k1) = None then Inl NullCall
     else Inr (k1\<lparr>msgmng := snd (msg_sem_init_b 5 2 (msgmng k1))\<rparr>))"

fun print_tasks_b :: "free_task list \<Rightarrow> u32 \<Rightarrow> kernel \<Rightarrow> kernel" where
  "print_tasks_b [] i k = k"
| "print_tasks_b (t # ts) i k = print_tasks_b ts (i + 1)
     (k_printf (''TCB : TASK%d - init PC(%p) '' @ TAB # '' init SP(%p)'' @ [NL]) [i + 1, context_pc t, context_sp t] k)"

definition kernel_main_b :: "'h bus \<Rightarrow> u32 list \<Rightarrow> 'h book \<Rightarrow> (int \<times> 'h book) fres" where
  "kernel_main_b b entries s =
     fbind (navilnux_init_b b s) (\<lambda>s1.
     fbind (navilnux_user_b entries (krn s1)) (\<lambda>k1.
       let (r, k2) = sched_init k1 in
       if r < 0 then Inr (-1, s1\<lparr>krn := k_printf (''Kernel Pannic!'' @ [NL]) [] k2\<rparr>)
       else if nat (max_task_id (taskmng k2) + 1) > length (free_task_pool (taskmng k2)) then Inl OutOfBounds
       else Inr (0, s1\<lparr>krn :=
         print_tasks_b (take (nat (max_task_id (taskmng k2) + 1)) (free_task_pool (taskmng k2))) 0 k2\<rparr>)))"

text \<open>Memory before \<open>main\<close>: the static variables are zero.\<close>

definition book_zero :: "mem \<Rightarrow> u32 \<Rightarrow> u32 \<Rightarrow> u32 \<Rightarrow> u32 \<Rightarrow> 'h \<Rightarrow> 'h book" where
  "book_zero m pa da fo nm h = \<lparr>krn = (kernel_zero m pa da)\<lparr>memmng := mem_mng_zero_b\<rparr>,
     irq_vector = replicate IRQNUM None, switch_pushed = 0, bdev = h, mydrv_fops_at = fo, mydrv_name_at = nm\<rparr>"

end
