(* ===== verification/Book_Tasks.thy ===== *)
theory Book_Tasks
  imports Book_Kernel
begin

text \<open>
  The user library and the nine user tasks of \<open>source/chap16\<close> (\<open>navilnux_lib.S\<close>, \<open>navilnux_clib.c\<close>,
  \<open>navilnux_user.c\<close>), and the tasks running together. System calls are not interrupted, so
  tasks and interrupts interleave between the calls a task makes. A task is the list of the
  statements before its endless loop and the list of the statements in it; a blocking call of the library
  is one round of its own loop, repeated by staying at the statement.
\<close>

section \<open>The traps\<close>

definition trap_b :: "'h bus \<Rightarrow> nat \<Rightarrow> u32 \<Rightarrow> u32 \<Rightarrow> u32 \<Rightarrow> 'h book \<Rightarrow> (int \<times> 'h book) fres" where
  "trap_b b n r0 r1 r2 s = fbind (syscall_dispatch_b b n r0 r1 r2 0 s) (\<lambda>(r, s1). Inr (sint r, s1))"

definition lib_itc_send_b where "lib_itc_send_b b i d = trap_b b 2 (word_of_int i) d 0"
definition lib_itc_get_b where "lib_itc_get_b b i p = trap_b b 3 (word_of_int i) p 0"
definition lib_mutex_wait_b where "lib_mutex_wait_b b i = trap_b b 4 (word_of_int i) 0 0"
definition lib_mutex_release_b where "lib_mutex_release_b b i = trap_b b 5 (word_of_int i) 0 0"
definition lib_sem_p_b where "lib_sem_p_b b i = trap_b b 6 (word_of_int i) 0 0"
definition lib_sem_v_b where "lib_sem_v_b b i = trap_b b 7 (word_of_int i) 0 0"
definition navilnux_malloc_b where "navilnux_malloc_b b sz = syscall_dispatch_b b 8 sz 0 0 0"
definition navilnux_free_b where "navilnux_free_b b a = trap_b b 9 a 0 0"
definition lib_open_b where "lib_open_b b d mode = trap_b b 10 (word_of_int d) (word_of_int mode) 0"
definition lib_close_b where "lib_close_b b d = trap_b b 11 (word_of_int d) 0 0"
definition lib_read_b where "lib_read_b b d buf sz = trap_b b 12 (word_of_int d) buf (word_of_int sz)"
definition lib_write_b where "lib_write_b b d buf sz = trap_b b 13 (word_of_int d) buf (word_of_int sz)"

section \<open>The library calls\<close>

text \<open>How a round of \<open>while(1)\<close> ends: by a return, at the end of the body, or in \<open>call_scheduler\<close>.\<close>

datatype turn = Return int | Loop | Yield

type_synonym 'h round = "'h book \<Rightarrow> (turn \<times> 'h book) fres"

text \<open>A call that always returns.\<close>

definition plain_call :: "('h book \<Rightarrow> (int \<times> 'h book) fres) \<Rightarrow> 'h round" where
  "plain_call f s = fbind (f s) (\<lambda>(r, s1). Inr (Return r, s1))"

definition navilnux_itc_send_b where "navilnux_itc_send_b b i d = plain_call (lib_itc_send_b b i d)"
definition navilnux_mutex_release_b where "navilnux_mutex_release_b b i = plain_call (lib_mutex_release_b b i)"
definition navilnux_sem_v_b where "navilnux_sem_v_b b i = plain_call (lib_sem_v_b b i)"
definition navilnux_open_b where "navilnux_open_b b d mode = plain_call (lib_open_b b d mode)"
definition navilnux_close_b where "navilnux_close_b b d = plain_call (lib_close_b b d)"
definition navilnux_write_b where "navilnux_write_b b d buf sz = plain_call (lib_write_b b d buf sz)"

text \<open>\<open>p\<close> is the address of the local variable \<open>data\<close>.\<close>

definition navilnux_itc_get_b :: "'h bus \<Rightarrow> u32 \<Rightarrow> int \<Rightarrow> 'h round" where
  "navilnux_itc_get_b b p itcnum s =
     fbind (lib_itc_get_b b itcnum p s) (\<lambda>(ret_value, s1).
       Inr (if ret_value = 0 then Return (sint (ld32 (ram (krn s1)) p))
            else if ret_value = -1 then Return ret_value else Yield, s1))"

definition navilnux_mutex_wait_b :: "'h bus \<Rightarrow> int \<Rightarrow> 'h round" where
  "navilnux_mutex_wait_b b mutexnum s =
     fbind (lib_mutex_wait_b b mutexnum s) (\<lambda>(ret_value, s1).
       Inr (if ret_value = 0 then Return 0 else if ret_value = -1 then Return (-1) else Yield, s1))"

definition navilnux_sem_p_b :: "'h bus \<Rightarrow> int \<Rightarrow> 'h round" where
  "navilnux_sem_p_b b semnum s =
     fbind (lib_sem_p_b b semnum s) (\<lambda>(ret_value, s1).
       Inr (if ret_value = 0 then Return 0 else if ret_value = -1 then Return (-1) else Yield, s1))"

definition navilnux_read_b :: "'h bus \<Rightarrow> int \<Rightarrow> u32 \<Rightarrow> int \<Rightarrow> 'h round" where
  "navilnux_read_b b drvnum buf sz s =
     fbind (lib_read_b b drvnum buf sz s) (\<lambda>(ret_value, s1).
       Inr (if ret_value \<ge> 0 then Return ret_value else if ret_value = -1 then Return (-1) else Yield, s1))"

definition navilnux_sleep_b :: "u32 \<Rightarrow> 'h round" where
  "navilnux_sleep_b sec s =
     fbind (tcb_get (navilnux_current (krn s)) (krn s)) (\<lambda>tcb.
       if sleep_end_tick tcb = 0 then
         fbind (set_sleep_end (navilnux_time_tick (krn s) + sec) (krn s)) (\<lambda>k. Inr (Loop, s\<lparr>krn := k\<rparr>))
       else if sleep_end_tick tcb \<le> navilnux_time_tick (krn s) then
         fbind (set_sleep_end 0 (krn s)) (\<lambda>k. Inr (Return 0, s\<lparr>krn := k\<rparr>))
       else Inr (Yield, s))"

section \<open>The statements of a task\<close>

text \<open>
  The local variables of a task: \<open>a\<close>, \<open>b\<close>, \<open>c\<close> and the pointer it was last given. A variable
  the kernel stores into is in memory; \<open>v\<close> gives the addresses of a task's variables by name.
\<close>

record ulocals =
  va :: int
  vb :: int
  vc :: int
  vp :: u32

type_synonym 'h stmt = "ulocals \<Rightarrow> 'h book \<Rightarrow> (turn \<times> ulocals \<times> 'h book) fres"

text \<open>An assignment, a \<open>printf\<close>, a library call whose result goes into the variables, a conditional.\<close>

definition u_set :: "(ulocals \<Rightarrow> ulocals) \<Rightarrow> 'h stmt" where
  "u_set f l s = Inr (Return 0, f l, s)"

definition u_printf :: "string \<Rightarrow> (ulocals \<Rightarrow> mem \<Rightarrow> u32 list) \<Rightarrow> 'h stmt" where
  "u_printf fmt args l s = Inr (Return 0, l, b_printf fmt (args l (ram (krn s))) s)"

definition u_call :: "(ulocals \<Rightarrow> 'h round) \<Rightarrow> (int \<Rightarrow> ulocals \<Rightarrow> ulocals) \<Rightarrow> 'h stmt" where
  "u_call f g l s = fbind (f l s) (\<lambda>(t, s1).
     Inr (t, case t of Return r \<Rightarrow> g r l | _ \<Rightarrow> l, s1))"

definition u_if :: "(ulocals \<Rightarrow> bool) \<Rightarrow> 'h stmt \<Rightarrow> 'h stmt" where
  "u_if c f l s = (if c l then f l s else Inr (Return 0, l, s))"

text \<open>\<open>a = x; b = y; c = a + b\<close>; the addresses of the variables printed; \<open>navilnux_malloc\<close>.\<close>

definition u_init :: "int \<Rightarrow> int \<Rightarrow> 'h stmt" where
  "u_init x y = u_set (\<lambda>l. l\<lparr>va := x, vb := y, vc := wrap32 (x + y)\<rparr>)"

definition u_vars :: "string \<Rightarrow> (string \<Rightarrow> u32) \<Rightarrow> 'h stmt" where
  "u_vars name v = u_printf (name @ '' - a:%p'' @ TAB # ''b:%p'' @ TAB # ''c:%p'' @ [NL])
     (\<lambda>l m. [v ''a'', v ''b'', v ''c''])"

definition u_say :: "string \<Rightarrow> 'h stmt" where
  "u_say txt0 = u_printf (txt0 @ [NL]) (\<lambda>l m. [])"

definition u_malloc :: "'h bus \<Rightarrow> u32 \<Rightarrow> 'h stmt" where
  "u_malloc b sz l s = fbind (navilnux_malloc_b b sz s) (\<lambda>(p, s1). Inr (Return 0, l\<lparr>vp := p\<rparr>, s1))"

text \<open>\<open>led[0] = x; led[1] = y; navilnux_write(MYDRV, led, 8);\<close>\<close>

definition u_led :: "'h bus \<Rightarrow> u32 \<Rightarrow> (ulocals \<Rightarrow> int) \<Rightarrow> u32 \<Rightarrow> 'h stmt" where
  "u_led b led x y = u_call (\<lambda>l s. navilnux_write_b b MYDRV led 8
     (s\<lparr>krn := (krn s)\<lparr>ram := st32 (st32 (ram (krn s)) led (word_of_int (x l))) (led + 4) y\<rparr>\<rparr>)) (\<lambda>r l. l)"

definition u_sleep :: "u32 \<Rightarrow> 'h stmt" where
  "u_sleep sec = u_call (\<lambda>l. navilnux_sleep_b sec) (\<lambda>r l. l)"

section \<open>The tasks\<close>

record 'h utask =
  ut_start :: "'h stmt list"
  ut_loop :: "'h stmt list"

definition user_task_1 :: "'h bus \<Rightarrow> (string \<Rightarrow> u32) \<Rightarrow> 'h utask" where
  "user_task_1 b v = \<lparr>ut_start = [u_init 1 2,
       u_malloc b 2048, u_printf (''Dynamic mem alloc 2K - %p'' @ [NL]) (\<lambda>l m. [vp l]),
       u_malloc b 3072, u_printf (''Dynamic mem alloc 3K - %p'' @ [NL]) (\<lambda>l m. [vp l]),
       u_call (\<lambda>l. plain_call (navilnux_free_b b (vp l))) (\<lambda>r l. l),
       u_malloc b 4096, u_printf (''Dynamic mem alloc 4K - %p'' @ [NL]) (\<lambda>l m. [vp l]),
       u_malloc b 1024, u_printf (''Dynamic mem alloc 1K - %p'' @ [NL]) (\<lambda>l m. [vp l])],
     ut_loop = [u_vars ''TASK1'' v, u_sleep 1]\<rparr>"

definition user_task_2 :: "'h bus \<Rightarrow> (string \<Rightarrow> u32) \<Rightarrow> 'h utask" where
  "user_task_2 b v = \<lparr>ut_start = [u_init 1 2],
     ut_loop = [u_vars ''TASK2'' v,
       u_printf (''ITC Count is %d'' @ [NL]) (\<lambda>l m. [word_of_int (va l)]),
       u_if (\<lambda>l. va l = 3) (u_call (\<lambda>l. navilnux_itc_send_b b 2 342) (\<lambda>r l. l)),
       u_if (\<lambda>l. va l = 3) (\<lambda>l. u_printf (''ITC send!!!'' @ [NL]) (\<lambda>l m. []) (l\<lparr>va := 1\<rparr>)),
       u_set (\<lambda>l. l\<lparr>va := wrap32 (va l + 1)\<rparr>),
       u_sleep 1]\<rparr>"

definition user_task_3 :: "'h bus \<Rightarrow> (string \<Rightarrow> u32) \<Rightarrow> 'h utask" where
  "user_task_3 b v = \<lparr>ut_start = [u_init 1 2],
     ut_loop = [u_call (\<lambda>l. navilnux_itc_get_b b (v ''data'') 2) (\<lambda>r l. l\<lparr>vc := r\<rparr>),
       u_vars ''TASK3'' v,
       u_printf (''ITC get!!!! ---> %d'' @ [NL]) (\<lambda>l m. [word_of_int (vc l)]),
       u_sleep 1]\<rparr>"

definition user_task_4 :: "'h bus \<Rightarrow> (string \<Rightarrow> u32) \<Rightarrow> 'h utask" where
  "user_task_4 b v = \<lparr>ut_start = [u_init 1 2],
     ut_loop = [u_call (\<lambda>l. navilnux_mutex_wait_b b 3) (\<lambda>r l. l),
       u_say ''TASK4 enter critical section'', u_vars ''TASK4'' v, u_sleep 4,
       u_call (\<lambda>l. navilnux_mutex_release_b b 3) (\<lambda>r l. l),
       u_say ''TASK4 out critical section'', u_sleep 3]\<rparr>"

definition user_task_5 :: "'h bus \<Rightarrow> (string \<Rightarrow> u32) \<Rightarrow> 'h utask" where
  "user_task_5 b v = \<lparr>ut_start = [u_init 1 2],
     ut_loop = [u_call (\<lambda>l. navilnux_mutex_wait_b b 3) (\<lambda>r l. l),
       u_say ''TASK5 enter critical section'', u_vars ''TASK5'' v, u_sleep 2,
       u_call (\<lambda>l. navilnux_mutex_release_b b 3) (\<lambda>r l. l),
       u_say ''TASK5 out critical section'', u_sleep 4]\<rparr>"

definition user_task_6 :: "'h bus \<Rightarrow> (string \<Rightarrow> u32) \<Rightarrow> 'h utask" where
  "user_task_6 b v = \<lparr>ut_start = [u_init 1 2],
     ut_loop = [u_call (\<lambda>l. navilnux_sem_p_b b 5) (\<lambda>r l. l),
       u_say ''TASK6 enter critical section SEMAPHORE'', u_vars ''TASK6'' v, u_sleep 2,
       u_call (\<lambda>l. navilnux_sem_v_b b 5) (\<lambda>r l. l),
       u_say ''TASK6 out critical section SEMAPHORE'', u_sleep 4]\<rparr>"

definition user_task_7 :: "'h bus \<Rightarrow> (string \<Rightarrow> u32) \<Rightarrow> 'h utask" where
  "user_task_7 b v = \<lparr>ut_start = [u_init 1 2],
     ut_loop = [u_call (\<lambda>l. navilnux_sem_p_b b 5) (\<lambda>r l. l),
       u_say ''TASK7 enter critical section SEMAPHORE'', u_vars ''TASK7'' v, u_sleep 2,
       u_call (\<lambda>l. navilnux_sem_v_b b 5) (\<lambda>r l. l),
       u_say ''TASK7 out critical section SEMAPHORE'', u_sleep 4]\<rparr>"

definition user_task_8 :: "'h bus \<Rightarrow> (string \<Rightarrow> u32) \<Rightarrow> 'h utask" where
  "user_task_8 b v = \<lparr>ut_start = [u_init 1 2],
     ut_loop = [u_call (\<lambda>l. navilnux_sem_p_b b 5) (\<lambda>r l. l),
       u_say ''TASK8 enter critical section SEMAPHORE'', u_vars ''TASK8'' v, u_sleep 2,
       u_call (\<lambda>l. navilnux_sem_v_b b 5) (\<lambda>r l. l),
       u_say ''TASK8 out critical section SEMAPHORE'', u_sleep 4]\<rparr>"

text \<open>The array \<open>led\<close> starts as zeros and \<open>a\<close> is in memory: the driver stores into it.\<close>

definition user_task_9 :: "'h bus \<Rightarrow> (string \<Rightarrow> u32) \<Rightarrow> 'h utask" where
  "user_task_9 b v = \<lparr>ut_start = [
       \<lambda>l s. Inr (Return 0, l\<lparr>vb := 0, vc := 0\<rparr>, s\<lparr>krn := (krn s)\<lparr>ram :=
         st32 (st32 (st32 (ram (krn s)) (v ''led'') 0) (v ''led'' + 4) 0) (v ''a'') 0\<rparr>\<rparr>),
       u_call (\<lambda>l. navilnux_open_b b MYDRV O_RDWR) (\<lambda>r l. l)],
     ut_loop = [u_call (\<lambda>l. navilnux_read_b b MYDRV (v ''a'') 4) (\<lambda>r l. l),
       u_vars ''TASK9'' v,
       u_printf (''Device Driver Returned %d'' @ [NL]) (\<lambda>l m. [ld32 m (v ''a'')]),
       u_set (\<lambda>l. l\<lparr>vc := (if vb l = 0 then 3 else wrap32 (vb l - 1))\<rparr>),
       u_led b (v ''led'') vc LED_OFF,
       u_led b (v ''led'') vb LED_ON,
       u_set (\<lambda>l. let x = wrap32 (vb l + 1) in l\<lparr>vb := (if x = 4 then 0 else x)\<rparr>),
       u_sleep 5]\<rparr>"

section \<open>The tasks together\<close>

definition user_tasks :: "'h bus \<Rightarrow> (nat \<Rightarrow> string \<Rightarrow> u32) \<Rightarrow> 'h utask list" where
  "user_tasks b v = [user_task_1 b (v 1), user_task_2 b (v 2), user_task_3 b (v 3),
     user_task_4 b (v 4), user_task_5 b (v 5), user_task_6 b (v 6), user_task_7 b (v 7),
     user_task_8 b (v 8), user_task_9 b (v 9)]"

definition stmt_at :: "'h utask \<Rightarrow> nat \<Rightarrow> 'h stmt" where
  "stmt_at t n = (ut_start t @ ut_loop t) ! n"

definition next_pos :: "'h utask \<Rightarrow> nat \<Rightarrow> nat" where
  "next_pos t n = (if Suc n < length (ut_start t @ ut_loop t) then Suc n else length (ut_start t))"

text \<open>Each task's position and variables, and the rest of the machine.\<close>

type_synonym 'h ustate = "(nat \<times> ulocals) list \<times> 'h book"

text \<open>
  The running task does its statement: it goes on, stays in the round loop of a library call, or
  gives up the processor. An interrupt may come at any time, with one exception: the first one is the timer's. (The assembly
  around \<open>irqHandler\<close> ends by loading the context of \<open>navilnux_next\<close>, so a button pressed in the idle loop of \<open>main\<close> would start
  task 1 while \<open>navilnux_current\<close> is still the dummy; from the first timer interrupt on the two are the same.)
\<close>

inductive book_step :: "'h bus \<Rightarrow> (nat \<Rightarrow> string \<Rightarrow> u32) \<Rightarrow> 'h ustate \<Rightarrow> 'h ustate \<Rightarrow> bool" for b v where
  return: "navilnux_current (krn s) = PoolTCB (int i) \<Longrightarrow> i < length ts \<Longrightarrow> ts ! i = (n, l) \<Longrightarrow>
    stmt_at (user_tasks b v ! i) n l s = Inr (Return r, l', s') \<Longrightarrow>
    book_step b v (ts, s) (ts[i := (next_pos (user_tasks b v ! i) n, l')], s')"
| loop: "navilnux_current (krn s) = PoolTCB (int i) \<Longrightarrow> i < length ts \<Longrightarrow> ts ! i = (n, l) \<Longrightarrow>
    stmt_at (user_tasks b v ! i) n l s = Inr (Loop, l', s') \<Longrightarrow>
    book_step b v (ts, s) (ts[i := (n, l')], s')"
| yield: "navilnux_current (krn s) = PoolTCB (int i) \<Longrightarrow> i < length ts \<Longrightarrow> ts ! i = (n, l) \<Longrightarrow>
    stmt_at (user_tasks b v ! i) n l s = Inr (Yield, l', s') \<Longrightarrow> scheduler (krn s') = Inr k \<Longrightarrow>
    book_step b v (ts, s) (ts[i := (n, l')], s'\<lparr>krn := k\<rparr>)"
| irq: "irqHandler_b b s = Inr s' \<Longrightarrow> navilnux_current (krn s') \<noteq> DummyTCB \<Longrightarrow> book_step b v (ts, s) (ts, s')"

inductive_cases book_step_cases: "book_step b v (ts, s) (ts', s')"

text \<open>The states reached once \<open>main\<close> is in its idle loop with interrupts on.\<close>

inductive book_reach :: "'h bus \<Rightarrow> (nat \<Rightarrow> string \<Rightarrow> u32) \<Rightarrow> 'h ustate \<Rightarrow> bool" for b v where
  boot: "fo \<noteq> 0 \<Longrightarrow> length entries = 9 \<Longrightarrow> kernel_main_b b entries (book_zero m pa da fo nm h) = Inr (0, s) \<Longrightarrow>
    book_reach b v (replicate 9 (0, l0), s)"
| step: "book_reach b v st \<Longrightarrow> book_step b v st st' \<Longrightarrow> book_reach b v st'"

end
