(* ===== verification/Book_Run.thy ===== *)
theory Book_Run
  imports Book_Tasks
begin

text \<open>
  The kernel of \<open>source/chap16\<close> running its nine tasks: what the library calls do on a started kernel,
  the invariant of all interleavings of the tasks and the interrupts, and the properties that
  follow from it.
\<close>

section \<open>A kernel that has been started\<close>

definition book_ok :: "'h book \<Rightarrow> bool" where
  "book_ok s \<longleftrightarrow> (let k = krn s in
     sched_ok k \<and> ntasks k = 9 \<and>
     ((\<exists>i < 9. navilnux_current_index k = int i \<and> navilnux_current k = PoolTCB (int i)) \<or> (navilnux_current k = DummyTCB \<and> navilnux_current_index k = -1)) \<and>
     length (free_msg_pool (msgmng k)) = nat MAXMSG \<and>
     mg_itc_send (msgmng k) \<noteq> None \<and> mg_itc_get (msgmng k) \<noteq> None \<and> mg_sem_p (msgmng k) \<noteq> None \<and>
     mg_sem_v (msgmng k) \<noteq> None \<and> mg_mutex_wait (msgmng k) \<noteq> None \<and> mg_mutex_release (msgmng k) \<noteq> None \<and>
     mm_malloc (memmng k) \<noteq> None \<and> mm_free (memmng k) \<noteq> None \<and>
     syscallvec k = syscallvec (syscall_init_b (kernel_zero (\<lambda>_. 0) 0 0)) \<and>
     length (free_drv_pool (drvmng k)) = nat DRVLIMIT \<and>
     navil_fops (free_drv_pool (drvmng k) ! 0) = mydrv_fops_at s \<and> mydrv_fops_at s \<noteq> 0 \<and>
     length (irq_vector s) = IRQNUM \<and> (switch_pushed s = 0 \<or> switch_pushed s = 1))"

lemma vec_b: "n < 14 \<Longrightarrow> book_ok s \<Longrightarrow>
    \<not> length (syscallvec (krn s)) \<le> n \<and> syscallvec (krn s) ! n = Some (snd (syscall_numbers_b ! n))"
proof -
  assume n: "n < 14" and "book_ok s"
  then have "syscallvec (krn s) = syscallvec (syscall_init_b (kernel_zero (\<lambda>_. 0) 0 0))"
    by (simp add: book_ok_def Let_def)
  moreover have "syscallvec (syscall_init_b (kernel_zero (\<lambda>_. 0) 0 0)) =
      map (Some \<circ> snd) syscall_numbers_b @ replicate (SYSCALLNUM - 14) None"
    by (simp add: syscall_init_b_def kernel_zero_def SYSCALLNUM_def syscall_numbers_b_def numeral_eq_Suc)
  moreover have "length syscall_numbers_b = 14" by (simp add: syscall_numbers_b_def)
  ultimately show ?thesis using n by (simp add: nth_append)
qed

lemma trap_b_calls: "book_ok s \<Longrightarrow> n < 14 \<Longrightarrow> trap_b b n r0 r1 r2 s =
    fbind (sys_call_b b (snd (syscall_numbers_b ! n)) r0 r1 r2 0 s) (\<lambda>(r, s1). Inr (sint r, s1))"
  using vec_b [of n s] by (simp add: trap_b_def syscall_dispatch_b_def)

text \<open>A state with other messages, other memory.\<close>

definition with_msg :: "msg_mng \<Rightarrow> 'h book \<Rightarrow> 'h book" where
  "with_msg mg s = s\<lparr>krn := (krn s)\<lparr>msgmng := mg\<rparr>\<rparr>"

definition with_ram :: "mem \<Rightarrow> 'h book \<Rightarrow> 'h book" where
  "with_ram m s = s\<lparr>krn := (krn s)\<lparr>ram := m\<rparr>\<rparr>"

abbreviation cells :: "'h book \<Rightarrow> msg_mng" where "cells s \<equiv> msgmng (krn s)"

lemma mutex_calls:
  assumes "book_ok s"
  shows "lib_mutex_wait_b b 3 s = (if msg_flag (msg_cell (cells s) 103) = 0
      then Inr (0, with_msg (set_msg_cell (cells s) 103 ((msg_cell (cells s) 103)\<lparr>msg_flag := 1\<rparr>)) s)
      else Inr (-2, s))"
    and "lib_mutex_release_b b 3 s =
      Inr (0, with_msg (set_msg_cell (cells s) 103 ((msg_cell (cells s) 103)\<lparr>msg_flag := 0\<rparr>)) s)"
  using assms
  by (auto simp: lib_mutex_wait_b_def lib_mutex_release_b_def trap_b_calls syscall_numbers_b_def in_kernel_def
     sys_mutexwait_b_def sys_mutexrelease_b_def lift_msg_def msg_mutex_wait_b_def msg_mutex_release_b_def
     msg_consts_b ret_int_def with_msg_def book_ok_def Let_def)

lemma sem_calls:
  assumes "book_ok s"
  shows "lib_sem_p_b b 5 s = (if msg_flag (msg_cell (cells s) 205) \<le> 0 then Inr (-2, s)
      else Inr (0, with_msg (set_msg_cell (cells s) 205
        ((msg_cell (cells s) 205)\<lparr>msg_flag := wrap32 (msg_flag (msg_cell (cells s) 205) - 1)\<rparr>)) s))"
    and "lib_sem_v_b b 5 s = Inr (0, with_msg (set_msg_cell (cells s) 205
        ((msg_cell (cells s) 205)\<lparr>msg_flag := wrap32 (msg_flag (msg_cell (cells s) 205) + 1)\<rparr>)) s)"
  using assms
  by (auto simp: lib_sem_p_b_def lib_sem_v_b_def trap_b_calls syscall_numbers_b_def in_kernel_def
     sys_semp_b_def sys_semv_b_def lift_msg_def msg_sem_p_b_def msg_sem_v_b_def
     msg_consts_b ret_int_def with_msg_def book_ok_def Let_def)

lemma itc_calls:
  assumes "book_ok s"
  shows "lib_itc_send_b b 2 d s = Inr (2, with_msg (set_msg_cell (cells s) 2
        ((msg_cell (cells s) 2)\<lparr>msg_data := d, msg_flag := 1\<rparr>)) s)"
    and "lib_itc_get_b b 2 p s = (if msg_flag (msg_cell (cells s) 2) = 0 then Inr (-2, s)
      else Inr (0, with_ram (st32 (ram (krn s)) p (msg_data (msg_cell (cells s) 2)))
        (with_msg (set_msg_cell (cells s) 2 ((msg_cell (cells s) 2)\<lparr>msg_flag := 0, msg_data := 0\<rparr>)) s)))"
  using assms
  by (auto simp: lib_itc_send_b_def lib_itc_get_b_def trap_b_calls syscall_numbers_b_def in_kernel_def
     sys_itcsend_b_def sys_itcget_b_def lift_msg_def msg_itc_send_b_def msg_itc_get_b_def
     msg_consts_b ret_int_def with_msg_def with_ram_def book_ok_def Let_def)

lemma drv_calls:
  assumes "book_ok s"
  shows "lib_read_b b MYDRV buf 4 s = (if switch_pushed s = 1
      then Inr (4, (with_ram (st32 (ram (krn s)) buf 1) s)\<lparr>switch_pushed := 0\<rparr>) else Inr (-2, s))"
    and "lib_write_b b MYDRV buf 8 s = Inr (0, s\<lparr>bdev := GPIO_SetLED_b b (sint (ld32 (ram (krn s)) buf))
      (ld32 (ram (krn s)) (buf + 4)) (bdev s)\<rparr>)"
    and "lib_open_b b MYDRV O_RDWR s = (if usecount (free_drv_pool (drvmng (krn s)) ! 0) < 0 then Inr (-1, s)
      else Inr (0, s\<lparr>krn := add_usecount 0 1 (krn s), irq_vector := (irq_vector s)[IRQ8 := Some Fn_gpio0_irq_handler],
        switch_pushed := 0\<rparr>))"
  using assms
  by (auto simp: lib_read_b_def lib_write_b_def lib_open_b_def trap_b_calls syscall_numbers_b_def
     sys_read_b_def sys_write_b_def sys_open_b_def drv_slot_def MYDRV_def DRVLIMIT_def O_RDWR_def
     in_array_def fops_of_def mydrv_fops_def mydrv_read_def mydrv_write_def mydrv_open_def ret_b_def
     with_ram_def add_usecount_def book_ok_def Let_def)

section \<open>Statements that leave locks and heap alone\<close>

definition locks :: "'h book \<Rightarrow> int \<times> int" where
  "locks s = (msg_flag (msg_cell (cells s) 103), msg_flag (msg_cell (cells s) 205))"

definition untouched :: "'h book \<Rightarrow> 'h book \<Rightarrow> bool" where
  "untouched s s' \<longleftrightarrow> book_ok s' \<and> locks s' = locks s \<and> memmng (krn s') = memmng (krn s) \<and>
     (\<forall>a. STARTDYMEMADDR \<le> a \<longrightarrow> ram (krn s') a = ram (krn s) a)"

definition calm_round :: "'h round \<Rightarrow> bool" where
  "calm_round f \<longleftrightarrow> (\<forall>s. book_ok s \<longrightarrow> (\<exists>t s'. f s = Inr (t, s') \<and> untouched s s'))"

definition calm :: "'h stmt \<Rightarrow> bool" where
  "calm f \<longleftrightarrow> (\<forall>l s. book_ok s \<longrightarrow> (\<exists>t l' s'. f l s = Inr (t, l', s') \<and> untouched s s'))"

text \<open>Where the tasks' variables are: in the nine stacks, below the heap.\<close>

definition in_stacks :: "u32 \<Rightarrow> bool" where
  "in_stacks p \<longleftrightarrow> unat STARTUSRSTACKADDR \<le> unat p \<and> unat p + 8 \<le> unat (0xA0D00000 :: u32)"

named_theorems calm_rules

lemma with_simps [simp]:
  "ram (krn (with_msg mg s)) = ram (krn s)" "ram (krn (with_ram m s)) = m"
  "memmng (krn (with_msg mg s)) = memmng (krn s)" "cells (with_msg mg s) = mg" "cells (with_ram m s) = cells s"
  by (simp_all add: with_msg_def with_ram_def)

lemma untouched_refl: "book_ok s \<Longrightarrow> untouched s s"
  by (simp add: untouched_def)

lemma untouched_trans: "untouched s t \<Longrightarrow> untouched t u \<Longrightarrow> untouched s u"
  by (simp add: untouched_def)

lemma book_ok_simps [simp]:
  "book_ok (b_printf f a s) = book_ok s"
  "book_ok (with_ram m s) = book_ok s"
  "book_ok (s\<lparr>bdev := h\<rparr>) = book_ok s"
  "book_ok s \<Longrightarrow> x = 0 \<or> x = 1 \<Longrightarrow> book_ok (s\<lparr>switch_pushed := x\<rparr>)"
  "book_ok s \<Longrightarrow> book_ok (s\<lparr>irq_vector := (irq_vector s)[i := y]\<rparr>)"
  "book_ok s \<Longrightarrow> book_ok (s\<lparr>krn := add_usecount 0 d (krn s)\<rparr>)"
  by (auto simp: book_ok_def b_printf_def k_printf_def with_ram_def add_usecount_def sched_ok_def
    ntasks_def Let_def DRVLIMIT_def)

lemma book_ok_cell [simp]:
  "book_ok s \<Longrightarrow> book_ok (with_msg (set_msg_cell (cells s) i c) s)"
  by (simp add: book_ok_def with_msg_def set_msg_cell_def sched_ok_def ntasks_def Let_def)

lemma cell_set [simp]:
  "0 \<le> i \<Longrightarrow> 0 \<le> j \<Longrightarrow> i \<noteq> j \<Longrightarrow> msg_cell (set_msg_cell mg i c) j = msg_cell mg j"
  "book_ok s \<Longrightarrow> 0 \<le> i \<Longrightarrow> i < 255 \<Longrightarrow> msg_cell (set_msg_cell (cells s) i c) i = c"
  by (auto simp: set_msg_cell_def msg_cell_def book_ok_def Let_def MAXMSG_def)

lemma untouched_simps:
  assumes "book_ok s"
  shows "untouched s (b_printf f a s)" "untouched s (s\<lparr>bdev := h\<rparr>)"
    "x = 0 \<or> x = 1 \<Longrightarrow> untouched s (s\<lparr>switch_pushed := x\<rparr>)"
    "untouched s (s\<lparr>irq_vector := (irq_vector s)[i := y]\<rparr>)"
    "untouched s (s\<lparr>krn := add_usecount 0 d (krn s)\<rparr>)"
    "untouched s (with_msg (set_msg_cell (cells s) 2 c) s)"
  using assms
  by (auto simp: untouched_def locks_def)
    (simp_all add: b_printf_def k_printf_def add_usecount_def with_msg_def)

lemma st32_stack: "unat p + 4 \<le> 0xA0D00000 \<Longrightarrow> STARTDYMEMADDR \<le> a \<Longrightarrow> st32 m p x a = m a"
  by (rule st32_other) (use word_bytes_range [of p a] in \<open>fastforce simp: word_le_nat_alt\<close>)

lemma untouched_st32:
  "book_ok s \<Longrightarrow> unat p + 4 \<le> 0xA0D00000 \<Longrightarrow> untouched s (with_ram (st32 (ram (krn s)) p x) s)"
  by (simp add: untouched_def locks_def) (simp add: with_ram_def st32_stack)

lemma calm_set [calm_rules]: "calm (u_set f)"
  by (simp add: calm_def u_set_def untouched_refl)

lemma calm_printf [calm_rules]: "calm (u_printf f a)"
  by (simp add: calm_def u_printf_def untouched_simps)

lemma calm_if [calm_rules]: "calm f \<Longrightarrow> calm (u_if c f)"
  by (simp add: calm_def u_if_def untouched_refl)

lemma calm_then [calm_rules]: "calm f \<Longrightarrow> calm (\<lambda>l. f (g l))"
  by (simp add: calm_def)

lemma calm_call [calm_rules]: "(\<And>l. calm_round (f l)) \<Longrightarrow> calm (u_call f g)"
  unfolding calm_def u_call_def calm_round_def by (metis (no_types, lifting) case_prod_conv fbind_simps(2))

lemma calm_small [calm_rules]: "calm (u_init x y)" "calm (u_vars n v)" "calm (u_say t)"
  by (simp_all add: u_init_def u_vars_def u_say_def calm_rules)

lemma set_sleep_end_ok:
  assumes "book_ok s"
  shows "\<exists>tcb. tcb_get (navilnux_current (krn s)) (krn s) = Inr tcb"
    and "\<exists>k. set_sleep_end x (krn s) = Inr k \<and> untouched s (s\<lparr>krn := k\<rparr>)"
proof -
  let ?k = "krn s"
  from assms have ok: "sched_ok ?k" "ntasks ?k = 9" by (simp_all add: book_ok_def Let_def)
  from assms consider i where "i < 9" "navilnux_current_index ?k = int i" "navilnux_current ?k = PoolTCB (int i)" | "navilnux_current ?k = DummyTCB" "navilnux_current_index ?k = -1"
    unfolding book_ok_def Let_def by blast
  then have "(\<exists>tcb. tcb_get (navilnux_current ?k) ?k = Inr tcb) \<and>
    (\<exists>k. set_sleep_end x ?k = Inr k \<and> untouched s (s\<lparr>krn := k\<rparr>))"
  proof cases
    case 1
    then have "i < length (free_task_pool (taskmng ?k))" using ok ntasks_length by simp
    with 1 assms show ?thesis
      by (auto simp: set_sleep_end_def tcb_get_def tcb_put_def in_array_def untouched_def locks_def
        book_ok_def sched_ok_def ntasks_def Let_def)
  next
    case 2
    with assms show ?thesis
      by (auto simp: set_sleep_end_def tcb_get_def tcb_put_def untouched_def locks_def
        book_ok_def sched_ok_def ntasks_def Let_def)
  qed
  then show "\<exists>tcb. tcb_get (navilnux_current ?k) ?k = Inr tcb"
    "\<exists>k. set_sleep_end x ?k = Inr k \<and> untouched s (s\<lparr>krn := k\<rparr>)" by blast+
qed

lemma calm_sleep [calm_rules]: "calm_round (navilnux_sleep_b sec)"
  unfolding calm_round_def
proof (intro allI impI)
  fix s :: "'a book" assume ok: "book_ok s"
  from set_sleep_end_ok(1) [OF ok] obtain tcb where t: "tcb_get (navilnux_current (krn s)) (krn s) = Inr tcb" ..
  from set_sleep_end_ok(2) [OF ok] obtain k where
    k: "set_sleep_end (navilnux_time_tick (krn s) + sec) (krn s) = Inr k" "untouched s (s\<lparr>krn := k\<rparr>)" by blast
  from set_sleep_end_ok(2) [OF ok] obtain k' where
    k': "set_sleep_end 0 (krn s) = Inr k'" "untouched s (s\<lparr>krn := k'\<rparr>)" by blast
  show "\<exists>t s'. navilnux_sleep_b sec s = Inr (t, s') \<and> untouched s s'"
    using t k k' untouched_refl [OF ok] by (simp add: navilnux_sleep_b_def)
qed

lemma calm_u_sleep [calm_rules]: "calm (u_sleep sec)"
  by (simp add: u_sleep_def calm_rules)

lemma calm_itc [calm_rules]:
  "calm_round (navilnux_itc_send_b b 2 d)"
  "in_stacks p \<Longrightarrow> calm_round (navilnux_itc_get_b b p 2)"
proof -
  show "calm_round (navilnux_itc_send_b b 2 d)"
    by (simp add: calm_round_def navilnux_itc_send_b_def plain_call_def itc_calls untouched_simps)
  assume p: "in_stacks p"
  show "calm_round (navilnux_itc_get_b b p 2)" unfolding calm_round_def
  proof (intro allI impI)
    fix s :: "'a book" assume ok: "book_ok s"
    let ?s = "with_msg (set_msg_cell (cells s) 2 ((msg_cell (cells s) 2)\<lparr>msg_flag := 0, msg_data := 0\<rparr>)) s"
    have "untouched s (with_ram (st32 (ram (krn s)) p x) ?s)" for x
      using untouched_trans [OF untouched_simps(6) [OF ok] untouched_st32 [of ?s p x]] ok p
      by (simp add: in_stacks_def)
    with ok untouched_refl [OF ok] show "\<exists>t s'. navilnux_itc_get_b b p 2 s = Inr (t, s') \<and> untouched s s'"
      by (simp add: navilnux_itc_get_b_def itc_calls)
  qed
qed

lemma calm_driver [calm_rules]:
  "calm_round (navilnux_open_b b MYDRV O_RDWR)"
  "in_stacks p \<Longrightarrow> calm_round (navilnux_read_b b MYDRV p 4)"
  "in_stacks p \<Longrightarrow> calm (u_led b p x y)"
proof -
  show "calm_round (navilnux_open_b b MYDRV O_RDWR)" unfolding calm_round_def
  proof (intro allI impI)
    fix s :: "'a book" assume ok: "book_ok s"
    let ?s1 = "s\<lparr>krn := add_usecount 0 1 (krn s)\<rparr>"
    let ?s2 = "?s1\<lparr>irq_vector := (irq_vector ?s1)[IRQ8 := Some Fn_gpio0_irq_handler]\<rparr>"
    have ok1: "book_ok ?s1" using ok by simp
    have ok2: "book_ok ?s2" by (rule book_ok_simps(5) [OF ok1])
    have "untouched s (?s2\<lparr>switch_pushed := 0\<rparr>)"
      using untouched_trans [OF untouched_simps(5) [OF ok, of 1] untouched_simps(4) [OF ok1]]
        untouched_trans untouched_simps(3) [OF ok2, of 0] by blast
    with ok untouched_refl [OF ok] show "\<exists>t s'. navilnux_open_b b MYDRV O_RDWR s = Inr (t, s') \<and> untouched s s'"
      by (simp add: navilnux_open_b_def plain_call_def drv_calls)
  qed
next
  assume p: "in_stacks p"
  show "calm_round (navilnux_read_b b MYDRV p 4)" unfolding calm_round_def
  proof (intro allI impI)
    fix s :: "'a book" assume ok: "book_ok s"
    have "untouched s ((with_ram (st32 (ram (krn s)) p 1) s)\<lparr>switch_pushed := 0\<rparr>)"
      using untouched_trans [OF untouched_st32 [OF ok, of p 1] untouched_simps(3), of 0] ok p
      by (simp add: in_stacks_def)
    with ok untouched_refl [OF ok] show "\<exists>t s'. navilnux_read_b b MYDRV p 4 s = Inr (t, s') \<and> untouched s s'"
      by (simp add: navilnux_read_b_def drv_calls)
  qed
next
  assume p: "in_stacks p"
  show "calm (u_led b p x y)" unfolding calm_def
  proof (intro allI impI)
    fix l and s :: "'a book" assume ok: "book_ok s"
    let ?s1 = "with_ram (st32 (ram (krn s)) p (word_of_int (x l))) s"
    let ?s2 = "with_ram (st32 (ram (krn ?s1)) (p + 4) y) ?s1"
    from p have p4: "unat (p + 4) = unat p + 4" using unat_plus_small [of p 4] by (simp add: in_stacks_def)
    have u: "untouched s ?s1" "untouched ?s1 ?s2"
      using untouched_st32 [OF ok, of p] untouched_st32 [of ?s1 "p + 4" y] ok p p4
      by (simp_all add: in_stacks_def)
    have eq: "s\<lparr>krn := (krn s)\<lparr>ram := st32 (st32 (ram (krn s)) p (word_of_int (x l))) (p + 4) y\<rparr>\<rparr> = ?s2"
      by (simp add: with_ram_def)
    have "untouched s (?s2\<lparr>bdev := h\<rparr>)" for h
      using untouched_trans [OF untouched_trans [OF u] untouched_simps(2)] ok by simp
    with ok show "\<exists>t l' s'. u_led b p x y l s = Inr (t, l', s') \<and> untouched s s'"
      by (simp add: u_led_def u_call_def eq navilnux_write_b_def plain_call_def drv_calls)
  qed
qed

section \<open>The invariant of the running system\<close>

text \<open>The sections between taking and giving back a lock, statements 2 to 5 of tasks 4 to 8.\<close>

definition in_section :: "nat \<Rightarrow> bool" where
  "in_section n \<longleftrightarrow> 2 \<le> n \<and> n \<le> 5"

definition inside :: "(nat \<times> ulocals) list \<Rightarrow> nat \<Rightarrow> int" where
  "inside ts i = (if in_section (fst (ts ! i)) then 1 else 0)"

text \<open>The blocks of the heap while task 1 is at statement \<open>n\<close>.\<close>

definition heap_at :: "nat \<Rightarrow> block list" where
  "heap_at n = (if n \<le> 1 then [] else if n \<le> 3 then [(True, 2056)]
     else if n \<le> 5 then [(True, 2056), (True, 3080)] else if n = 6 then [(True, 2056), (False, 3080)]
     else if n \<le> 8 then [(True, 2056), (False, 3080), (True, 4104)]
     else [(True, 2056), (True, 3080), (True, 4104)])"

definition body_len :: "nat \<Rightarrow> nat" where
  "body_len i = [12, 7, 5, 8, 8, 8, 8, 8, 10] ! i"

definition start_len :: "nat \<Rightarrow> nat" where
  "start_len i = [10, 1, 1, 1, 1, 1, 1, 1, 2] ! i"

definition sys_ok :: "'h ustate \<Rightarrow> bool" where
  "sys_ok = (\<lambda>(ts, s). book_ok s \<and> length ts = 9 \<and> (\<forall>i < 9. fst (ts ! i) < body_len i) \<and>
     heap_wf (memmng (krn s)) (ram (krn s)) (heap_at (fst (ts ! 0))) \<and>
     (fst (ts ! 0) = 4 \<or> fst (ts ! 0) = 5 \<longrightarrow> vp (snd (ts ! 0)) = 0xA2C00810) \<and>
     msg_flag (msg_cell (cells s) 103) = inside ts 3 + inside ts 4 \<and>
     msg_flag (msg_cell (cells s) 103) \<le> 1 \<and>
     msg_flag (msg_cell (cells s) 205) = 2 - (inside ts 5 + inside ts 6 + inside ts 7) \<and>
     0 \<le> msg_flag (msg_cell (cells s) 205))"

lemma nine: "i < 9 \<Longrightarrow> i = 0 \<or> i = 1 \<or> i = 2 \<or> i = 3 \<or> i = 4 \<or> i = 5 \<or> i = 6 \<or> i = 7 \<or> i = (8 :: nat)"
  by auto

lemma eight: "i < 8 \<Longrightarrow> i = 0 \<or> i = 1 \<or> i = 2 \<or> i = 3 \<or> i = 4 \<or> i = 5 \<or> i = 6 \<or> i = (7 :: nat)"
  by auto

lemmas task_defs = user_task_1_def user_task_2_def user_task_3_def user_task_4_def user_task_5_def
  user_task_6_def user_task_7_def user_task_8_def user_task_9_def

lemma task_lengths: "i < 9 \<Longrightarrow> length (ut_start (user_tasks b v ! i)) = start_len i \<and>
    length (ut_start (user_tasks b v ! i)) + length (ut_loop (user_tasks b v ! i)) = body_len i"
  by (drule nine) (auto simp: user_tasks_def task_defs start_len_def body_len_def)

lemma next_pos_eq: "i < 9 \<Longrightarrow> next_pos (user_tasks b v ! i) n = (if Suc n < body_len i then Suc n else start_len i)"
  using task_lengths [of i b v] by (simp add: next_pos_def)

lemma start_less: "i < 9 \<Longrightarrow> start_len i < body_len i"
  by (drule nine) (auto simp: start_len_def body_len_def)

lemma heap_wf_cong:
  assumes "heap_wf mm m bs" and "\<forall>a. STARTDYMEMADDR \<le> a \<longrightarrow> m' a = m a"
  shows "heap_wf mm m' bs"
  using assms chain_cong [of STARTDYMEMADDR bs m m' "used_end mm"]
  by (auto simp: heap_wf_def word_le_nat_alt)

text \<open>Where a task is after a round of its statement.\<close>

definition after_round :: "'h utask \<Rightarrow> nat \<Rightarrow> turn \<Rightarrow> nat" where
  "after_round t n x = (case x of Return r \<Rightarrow> next_pos t n | _ \<Rightarrow> n)"

lemma after_round_less:
  "i < 9 \<Longrightarrow> n < body_len i \<Longrightarrow> after_round (user_tasks b v ! i) n x < body_len i"
  using start_less [of i] by (auto simp: after_round_def next_pos_eq split: turn.splits)

lemma inside_update:
  "j < length ts \<Longrightarrow> inside (ts[i := (n, l)]) j = (if i = j then (if in_section n then 1 else 0) else inside ts j)"
  by (simp add: inside_def)

lemma sys_ok_calm:
  assumes "sys_ok (ts, s)" and "i < 9" and "ts ! i = (n, l)" and "untouched s s'" and "n' < body_len i"
    and "3 \<le> i \<and> i \<le> 7 \<longrightarrow> in_section n' = in_section n"
    and "i = 0 \<longrightarrow> heap_at n' = heap_at n \<and> (n' = 4 \<or> n' = 5 \<longrightarrow> vp l' = 0xA2C00810)"
  shows "sys_ok (ts[i := (n', l')], s')"
proof -
  have len: "length ts = 9" using assms(1) by (simp add: sys_ok_def)
  have ins: "inside (ts[i := (n', l')]) j = inside ts j" if "3 \<le> j" "j \<le> 7" for j
  proof (cases "i = j")
    case True
    then show ?thesis using that assms(2,3,6) len by (simp add: inside_def)
  qed (simp add: inside_def)
  have h: "heap_wf (memmng (krn s')) (ram (krn s')) (heap_at (fst (ts ! 0)))"
    using heap_wf_cong assms(1,4) unfolding sys_ok_def untouched_def by auto
  show ?thesis using assms h ins
    by (auto simp: sys_ok_def untouched_def locks_def nth_list_update)
qed

definition stmt_ok :: "'h bus \<Rightarrow> (nat \<Rightarrow> string \<Rightarrow> u32) \<Rightarrow> nat \<Rightarrow> nat \<Rightarrow> bool" where
  "stmt_ok b v i n \<longleftrightarrow> (\<forall>ts s l. sys_ok (ts, s) \<longrightarrow> ts ! i = (n, l) \<longrightarrow>
     (\<exists>t l' s'. stmt_at (user_tasks b v ! i) n l s = Inr (t, l', s') \<and>
        sys_ok (ts[i := (after_round (user_tasks b v ! i) n t, l')], s')))"

lemma stmt_ok_calm:
  assumes "i < 9" and "n < body_len i" and "calm (stmt_at (user_tasks b v ! i) n)" and "i \<noteq> 0"
    and "3 \<le> i \<and> i \<le> 7 \<longrightarrow> in_section (next_pos (user_tasks b v ! i) n) = in_section n"
  shows "stmt_ok b v i n"
  unfolding stmt_ok_def
proof (intro allI impI)
  fix ts l and s :: "'a book" assume ok: "sys_ok (ts, s)" "ts ! i = (n, l)"
  then have "book_ok s" by (simp add: sys_ok_def)
  with assms(3) obtain t l' s' where f: "stmt_at (user_tasks b v ! i) n l s = Inr (t, l', s')" "untouched s s'"
    unfolding calm_def by blast
  have "sys_ok (ts[i := (after_round (user_tasks b v ! i) n t, l')], s')"
    by (rule sys_ok_calm [OF ok(1) assms(1) ok(2) f(2) after_round_less [OF assms(1,2)]])
      (use assms(4,5) in \<open>auto simp: after_round_def split: turn.splits\<close>)
  with f(1) show "\<exists>t l' s'. stmt_at (user_tasks b v ! i) n l s = Inr (t, l', s') \<and>
      sys_ok (ts[i := (after_round (user_tasks b v ! i) n t, l')], s')" by blast
qed


lemma sys_ok_cell:
  assumes "sys_ok (ts, s)" and "3 \<le> i" and "i \<le> 7" and "n' < 8"
    and "c = (msg_cell (cells s) j)\<lparr>msg_flag := f\<rparr>"
    and "if i \<le> 4 then j = 103 \<and> f = msg_flag (msg_cell (cells s) 103) - inside ts i + (if in_section n' then 1 else 0) \<and> f \<le> 1
      else j = 205 \<and> f = msg_flag (msg_cell (cells s) 205) + inside ts i - (if in_section n' then 1 else 0) \<and> 0 \<le> f"
  shows "sys_ok (ts[i := (n', l')], with_msg (set_msg_cell (cells s) j c) s)"
proof -
  have ok: "book_ok s" "length ts = 9" using assms(1) by (simp_all add: sys_ok_def)
  have b: "body_len i = 8" using assms(2,3) nine [of i] by (auto simp: body_len_def)
  have "i = 3 \<or> i = 4 \<or> i = 5 \<or> i = 6 \<or> i = 7" using assms(2,3) by auto
  then show ?thesis using assms(1,4-6) ok b
    by (elim disjE) (simp_all add: sys_ok_def inside_update nth_list_update)
qed

text \<open>The statements of tasks 4 to 8 that are not on a lock.\<close>

lemma stmt_lock_calm:
  assumes "3 \<le> i" and "i \<le> 7" and "n < 8" and "n \<noteq> 1" and "n \<noteq> 5"
  shows "stmt_ok b v i n"
proof (rule stmt_ok_calm)
  have i: "i = 3 \<or> i = 4 \<or> i = 5 \<or> i = 6 \<or> i = 7" using assms(1,2) by auto
  show "i < 9" "i \<noteq> 0" using assms(1,2) by auto
  have len: "body_len i = 8" "start_len i = 1" using i by (auto simp: body_len_def start_len_def)
  show "n < body_len i" using assms(3) len by simp
  have n: "n = 0 \<or> n = 2 \<or> n = 3 \<or> n = 4 \<or> n = 6 \<or> n = 7" using assms(3-5) by auto
  then show "calm (stmt_at (user_tasks b v ! i) n)" using i
    by (elim disjE) (simp_all add: stmt_at_def user_tasks_def task_defs calm_rules)
  show "3 \<le> i \<and> i \<le> 7 \<longrightarrow> in_section (next_pos (user_tasks b v ! i) n) = in_section n"
    using i n len by (auto simp: next_pos_eq in_section_def)
qed

lemma stmt_mutex_ok:
  assumes "i = 3 \<or> i = 4"
  shows "stmt_ok b v i 1" and "stmt_ok b v i 5"
proof -
  have i9: "i < 9" "3 \<le> i" "i \<le> 7" "i \<le> 4" "body_len i = 8" using assms by (auto simp: body_len_def)
  have s1: "stmt_at (user_tasks b v ! i) 1 = u_call (\<lambda>l. navilnux_mutex_wait_b b 3) (\<lambda>r l. l)"
    and s5: "stmt_at (user_tasks b v ! i) 5 = u_call (\<lambda>l. navilnux_mutex_release_b b 3) (\<lambda>r l. l)"
    using assms by (auto simp: stmt_at_def user_tasks_def task_defs)
  show "stmt_ok b v i 1" unfolding stmt_ok_def
  proof (intro allI impI)
    fix ts l and s :: "'a book" assume ok: "sys_ok (ts, s)" and ti: "ts ! i = (1, l)"
    then have b: "book_ok s" and len: "length ts = 9" by (simp_all add: sys_ok_def)
    have n0: "inside ts i = 0" using ti by (simp add: inside_def in_section_def)
    show "\<exists>t l' s'. stmt_at (user_tasks b v ! i) 1 l s = Inr (t, l', s') \<and>
        sys_ok (ts[i := (after_round (user_tasks b v ! i) 1 t, l')], s')"
    proof (cases "msg_flag (msg_cell (cells s) 103) = 0")
      case True
      let ?s = "with_msg (set_msg_cell (cells s) 103 ((msg_cell (cells s) 103)\<lparr>msg_flag := 1\<rparr>)) s"
      have "sys_ok (ts[i := (2, l)], ?s)"
        by (rule sys_ok_cell [OF ok i9(2,3) _ refl]) (use i9 n0 True in \<open>simp_all add: in_section_def\<close>)
      then show ?thesis using True b i9
        by (simp add: s1 [unfolded One_nat_def] u_call_def navilnux_mutex_wait_b_def mutex_calls after_round_def next_pos_eq numeral_2_eq_2)
    next
      case False
      have "ts[i := (1, l)] = ts" using ti by (metis list_update_id)
      then show ?thesis using False b ok
        by (simp add: s1 [unfolded One_nat_def] u_call_def navilnux_mutex_wait_b_def mutex_calls after_round_def)
    qed
  qed
  show "stmt_ok b v i 5" unfolding stmt_ok_def
  proof (intro allI impI)
    fix ts l and s :: "'a book" assume ok: "sys_ok (ts, s)" and ti: "ts ! i = (5, l)"
    then have b: "book_ok s" by (simp add: sys_ok_def)
    have n1: "inside ts i = 1" using ti by (simp add: inside_def in_section_def)
    have f: "msg_flag (msg_cell (cells s) 103) = 1"
      using ok assms n1 by (auto simp: sys_ok_def inside_def split: if_splits)
    have "sys_ok (ts[i := (6, l)], with_msg (set_msg_cell (cells s) 103 ((msg_cell (cells s) 103)\<lparr>msg_flag := 0\<rparr>)) s)"
      by (rule sys_ok_cell [OF ok i9(2,3) _ refl]) (use i9 n1 f in \<open>simp_all add: in_section_def\<close>)
    then show "\<exists>t l' s'. stmt_at (user_tasks b v ! i) 5 l s = Inr (t, l', s') \<and>
        sys_ok (ts[i := (after_round (user_tasks b v ! i) 5 t, l')], s')" using b i9
      by (simp add: s5 u_call_def navilnux_mutex_release_b_def plain_call_def mutex_calls after_round_def next_pos_eq)
  qed
qed

lemma stmt_sem_ok:
  assumes "i = 5 \<or> i = 6 \<or> i = 7"
  shows "stmt_ok b v i 1" and "stmt_ok b v i 5"
proof -
  have i9: "i < 9" "3 \<le> i" "i \<le> 7" "\<not> i \<le> 4" "body_len i = 8" using assms by (auto simp: body_len_def)
  have s1: "stmt_at (user_tasks b v ! i) 1 = u_call (\<lambda>l. navilnux_sem_p_b b 5) (\<lambda>r l. l)"
    and s5: "stmt_at (user_tasks b v ! i) 5 = u_call (\<lambda>l. navilnux_sem_v_b b 5) (\<lambda>r l. l)"
    using assms by (auto simp: stmt_at_def user_tasks_def task_defs)
  have range: "-1 \<le> msg_flag (msg_cell (cells s) 205) \<and> msg_flag (msg_cell (cells s) 205) \<le> 2"
    if "sys_ok (ts, s)" for ts and s :: "'a book"
    using that by (auto simp: sys_ok_def inside_def)
  show "stmt_ok b v i 1" unfolding stmt_ok_def
  proof (intro allI impI)
    fix ts l and s :: "'a book" assume ok: "sys_ok (ts, s)" and ti: "ts ! i = (1, l)"
    then have b: "book_ok s" by (simp add: sys_ok_def)
    have n0: "inside ts i = 0" using ti by (simp add: inside_def in_section_def)
    show "\<exists>t l' s'. stmt_at (user_tasks b v ! i) 1 l s = Inr (t, l', s') \<and>
        sys_ok (ts[i := (after_round (user_tasks b v ! i) 1 t, l')], s')"
    proof (cases "msg_flag (msg_cell (cells s) 205) \<le> 0")
      case False
      let ?f = "wrap32 (msg_flag (msg_cell (cells s) 205) - 1)"
      have "sys_ok (ts[i := (2, l)], with_msg (set_msg_cell (cells s) 205 ((msg_cell (cells s) 205)\<lparr>msg_flag := ?f\<rparr>)) s)"
        by (rule sys_ok_cell [OF ok i9(2,3) _ refl])
          (use i9 n0 False range [OF ok] in \<open>simp_all add: in_section_def wrap32_small\<close>)
      then show ?thesis using False b i9
        by (simp add: s1 [unfolded One_nat_def] u_call_def navilnux_sem_p_b_def sem_calls after_round_def next_pos_eq numeral_2_eq_2)
    next
      case True
      have "ts[i := (1, l)] = ts" using ti by (metis list_update_id)
      then show ?thesis using True b ok
        by (simp add: s1 [unfolded One_nat_def] u_call_def navilnux_sem_p_b_def sem_calls after_round_def)
    qed
  qed
  show "stmt_ok b v i 5" unfolding stmt_ok_def
  proof (intro allI impI)
    fix ts l and s :: "'a book" assume ok: "sys_ok (ts, s)" and ti: "ts ! i = (5, l)"
    then have b: "book_ok s" by (simp add: sys_ok_def)
    have n1: "inside ts i = 1" using ti by (simp add: inside_def in_section_def)
    let ?f = "wrap32 (msg_flag (msg_cell (cells s) 205) + 1)"
    have "sys_ok (ts[i := (6, l)], with_msg (set_msg_cell (cells s) 205 ((msg_cell (cells s) 205)\<lparr>msg_flag := ?f\<rparr>)) s)"
      by (rule sys_ok_cell [OF ok i9(2,3) _ refl])
        (use i9 n1 range [OF ok] in \<open>simp_all add: in_section_def wrap32_small\<close>)
    then show "\<exists>t l' s'. stmt_at (user_tasks b v ! i) 5 l s = Inr (t, l', s') \<and>
        sys_ok (ts[i := (after_round (user_tasks b v ! i) 5 t, l')], s')" using b i9
      by (simp add: s5 u_call_def navilnux_sem_v_b_def plain_call_def sem_calls after_round_def next_pos_eq)
  qed
qed


text \<open>The tasks' variables that the kernel stores into.\<close>

definition locals_ok :: "(nat \<Rightarrow> string \<Rightarrow> u32) \<Rightarrow> bool" where
  "locals_ok v \<longleftrightarrow> in_stacks (v 3 ''data'') \<and> in_stacks (v 9 ''a'') \<and> in_stacks (v 9 ''led'')"

lemma task_9_start:
  assumes "in_stacks p" and "in_stacks q"
  shows "calm (\<lambda>l s. Inr (Return 0, f l, s\<lparr>krn := (krn s)\<lparr>ram :=
         st32 (st32 (st32 (ram (krn s)) p 0) (p + 4) 0) q 0\<rparr>\<rparr>))"
  unfolding calm_def
proof (intro allI impI)
  fix l and s :: "'a book" assume ok: "book_ok s"
  let ?s1 = "with_ram (st32 (ram (krn s)) p 0) s"
  let ?s2 = "with_ram (st32 (ram (krn ?s1)) (p + 4) 0) ?s1"
  let ?s3 = "with_ram (st32 (ram (krn ?s2)) q 0) ?s2"
  have p4: "unat (p + 4) = unat p + 4" using assms(1) unat_plus_small [of p 4] by (simp add: in_stacks_def)
  have "untouched s ?s1" "untouched ?s1 ?s2" "untouched ?s2 ?s3"
    using untouched_st32 [OF ok, of p] untouched_st32 [of ?s1 "p + 4" 0] untouched_st32 [of ?s2 q 0] ok p4 assms
    by (simp_all add: in_stacks_def)
  then have "untouched s ?s3" using untouched_trans by blast
  moreover have "s\<lparr>krn := (krn s)\<lparr>ram := st32 (st32 (st32 (ram (krn s)) p 0) (p + 4) 0) q 0\<rparr>\<rparr> = ?s3"
    by (simp add: with_ram_def)
  ultimately show "\<exists>t l' s'. Inr (Return 0, f l, s\<lparr>krn := (krn s)\<lparr>ram :=
         st32 (st32 (st32 (ram (krn s)) p 0) (p + 4) 0) q 0\<rparr>\<rparr>) = (Inr (t, l', s') :: fault + _) \<and> untouched s s'"
    by auto
qed

lemma stmt_others_ok:
  assumes "locals_ok v" and "i = 1 \<or> i = 2 \<or> i = 8" and "n < body_len i"
  shows "stmt_ok b v i n"
proof (rule stmt_ok_calm)
  show i: "i < 9" "i \<noteq> 0" using assms(2) by auto
  have "\<forall>f \<in> set (ut_start (user_tasks b v ! i) @ ut_loop (user_tasks b v ! i)). calm f"
    using assms(1,2) by (auto simp: user_tasks_def task_defs locals_ok_def calm_rules intro!: task_9_start)
  then show "calm (stmt_at (user_tasks b v ! i) n)"
    using assms(3) task_lengths [OF i(1), of b v] unfolding stmt_at_def by (metis length_append nth_mem)
qed (use assms in auto)

lemma malloc_stmt:
  assumes "book_ok s" and "heap_wf (memmng (krn s)) (ram (krn s)) bs" and "req_ok sz"
    and "abs_malloc (unat sz + 8) bs = Some (cs, j)"
  shows "\<exists>s'. u_malloc b sz l s = Inr (Return 0, l\<lparr>vp := STARTDYMEMADDR + of_nat j + 8\<rparr>, s') \<and>
    book_ok s' \<and> locks s' = locks s \<and> heap_wf (memmng (krn s')) (ram (krn s')) cs"
proof -
  let ?k = "krn s"
  from malloc_refines_abs [OF assms(2,3)] assms(4) obtain mm m where
    a: "mem_malloc sz (memmng ?k) (ram ?k) = Some (STARTDYMEMADDR + of_nat j + 8, mm, m)" "heap_wf mm m cs"
    by auto
  have p: "mm_malloc (memmng ?k) \<noteq> None" using assms(1) by (simp add: book_ok_def Let_def)
  have mm: "mm_malloc mm = mm_malloc (memmng ?k)" "mm_free mm = mm_free (memmng ?k)"
    using mem_malloc_frame [OF a(1)] by auto
  let ?s = "s\<lparr>krn := ?k\<lparr>memmng := mm, ram := m\<rparr>\<rparr>"
  have "u_malloc b sz l s = Inr (Return 0, l\<lparr>vp := STARTDYMEMADDR + of_nat j + 8\<rparr>, ?s)"
    using a(1) p vec_b [of 8 s] assms(1)
    by (simp add: u_malloc_def navilnux_malloc_b_def syscall_dispatch_b_def syscall_numbers_b_def
      in_kernel_def sys_malloc_def)
  moreover have "book_ok ?s" using assms(1) mm
    by (simp add: book_ok_def sched_ok_def ntasks_def Let_def)
  ultimately show ?thesis using a(2) by (auto simp: locks_def)
qed

lemma free_stmt:
  assumes "book_ok s" and "heap_wf (memmng (krn s)) (ram (krn s)) (xs @ (True, n) # ys)"
    and "vp l = STARTDYMEMADDR + of_nat (sizes xs) + 8"
  shows "\<exists>s'. u_call (\<lambda>l. plain_call (navilnux_free_b b (vp l))) (\<lambda>r l. l) l s = Inr (Return 0, l, s') \<and>
    book_ok s' \<and> locks s' = locks s \<and> heap_wf (memmng (krn s')) (ram (krn s')) (xs @ (False, n) # ys)"
proof -
  from free_used_block [OF assms(2)] obtain m where
    f: "mem_free (STARTDYMEMADDR + of_nat (sizes xs) + 8) (ram (krn s)) = (0, m)"
    "heap_wf (memmng (krn s)) m (xs @ (False, n) # ys)" by (metis surj_pair fst_conv snd_conv)
  have p: "mm_free (memmng (krn s)) \<noteq> None" using assms(1) by (simp add: book_ok_def Let_def)
  have "navilnux_free_b b (vp l) s = Inr (0, with_ram m s)"
    using f(1) p assms(1,3) by (simp add: navilnux_free_b_def trap_b_calls syscall_numbers_b_def in_kernel_def
      sys_free_def ret_int_def with_ram_def)
  then show ?thesis using f(2) assms(1)
    by (simp add: u_call_def plain_call_def locks_def) (simp add: with_ram_def)
qed

lemma sys_ok_task_1:
  assumes "sys_ok (ts, s)" and "book_ok s'" and "locks s' = locks s" and "n' < 12"
    and "heap_wf (memmng (krn s')) (ram (krn s')) (heap_at n')"
    and "n' = 4 \<or> n' = 5 \<longrightarrow> vp l' = 0xA2C00810"
  shows "sys_ok (ts[0 := (n', l')], s')"
  using assms by (auto simp: sys_ok_def locks_def inside_update nth_list_update body_len_def)

lemma stmt_task_1_ok:
  assumes "n < 12"
  shows "stmt_ok b v 0 n"
  unfolding stmt_ok_def
proof (intro allI impI)
  fix ts l and s :: "'a book" assume ok: "sys_ok (ts, s)" and ti: "ts ! 0 = (n, l)"
  then have b: "book_ok s" and wf: "heap_wf (memmng (krn s)) (ram (krn s)) (heap_at n)"
    and vp: "n = 4 \<or> n = 5 \<longrightarrow> vp l = 0xA2C00810" by (auto simp: sys_ok_def)
  let ?f = "stmt_at (user_tasks b v ! 0) n"
  have at: "stmt_at (user_tasks b v ! 0) n = [u_init 1 2,
       u_malloc b 2048, u_printf (''Dynamic mem alloc 2K - %p'' @ [NL]) (\<lambda>l m. [vp l]),
       u_malloc b 3072, u_printf (''Dynamic mem alloc 3K - %p'' @ [NL]) (\<lambda>l m. [vp l]),
       u_call (\<lambda>l. plain_call (navilnux_free_b b (vp l))) (\<lambda>r l. l),
       u_malloc b 4096, u_printf (''Dynamic mem alloc 4K - %p'' @ [NL]) (\<lambda>l m. [vp l]),
       u_malloc b 1024, u_printf (''Dynamic mem alloc 1K - %p'' @ [NL]) (\<lambda>l m. [vp l]),
       u_vars ''TASK1'' (v 1), u_sleep 1] ! n"
    by (simp add: stmt_at_def user_tasks_def user_task_1_def)
  have calls: "n = 1 \<Longrightarrow> ?f = u_malloc b 2048" "n = 3 \<Longrightarrow> ?f = u_malloc b 3072" "n = 6 \<Longrightarrow> ?f = u_malloc b 4096"
    "n = 8 \<Longrightarrow> ?f = u_malloc b 1024" "n = 5 \<Longrightarrow> ?f = u_call (\<lambda>l. plain_call (navilnux_free_b b (vp l))) (\<lambda>r l. l)"
    unfolding at by simp_all
  have np: "next_pos (user_tasks b v ! 0) n = (if n < 11 then Suc n else 10)"
    by (simp add: next_pos_eq body_len_def start_len_def)
  have start: "STARTDYMEMADDR = 0xA2C00000" by (simp add: mem_consts)
  note rq = req_ok_def abs_malloc_def HEAP_BYTES_def heap_at_def start
  have alloc: "\<exists>s'. u_malloc b sz l s = Inr (Return 0, l\<lparr>vp := 0xA2C00000 + of_nat j + 8\<rparr>, s') \<and>
      sys_ok (ts[0 := (Suc n, l\<lparr>vp := 0xA2C00000 + of_nat j + 8\<rparr>)], s')"
    if "req_ok sz" "abs_malloc (unat sz + 8) (heap_at n) = Some (heap_at (Suc n), j)" "n < 11"
      "n = 3 \<longrightarrow> j = 2056" "n \<noteq> 4" for sz j
    using malloc_stmt [OF b wf that(1,2), of b l] sys_ok_task_1 [OF ok, of _ "Suc n" "l\<lparr>vp := 0xA2C00000 + of_nat j + 8\<rparr>"]
      that(3-5) by (auto simp: start)
  show "\<exists>t l' s'. ?f l s = Inr (t, l', s') \<and> sys_ok (ts[0 := (after_round (user_tasks b v ! 0) n t, l')], s')"
  proof (cases "n = 1 \<or> n = 3 \<or> n = 5 \<or> n = 6 \<or> n = 8")
    case False
    then have "n = 0 \<or> n = 2 \<or> n = 4 \<or> n = 7 \<or> n = 9 \<or> n = 10 \<or> n = 11" using assms by presburger
    moreover have "n = 4 \<longrightarrow> ?f l s = Inr (Return 0, l, b_printf (''Dynamic mem alloc 3K - %p'' @ [NL]) [vp l] s)"
      using at by (auto simp: u_printf_def)
    moreover have "calm ?f" using calculation(1) unfolding at by (elim disjE) (simp_all add: calm_rules)
    then obtain t l' s' where f: "?f l s = Inr (t, l', s')" "untouched s s'" using b unfolding calm_def by blast
    ultimately have "sys_ok (ts[0 := (after_round (user_tasks b v ! 0) n t, l')], s')"
      using vp assms by (intro sys_ok_calm [OF ok _ ti f(2)])
        (auto simp: after_round_def np heap_at_def body_len_def split: turn.splits)
    with f(1) show ?thesis by blast
  next
    case True
    consider "n = 1" | "n = 3" | "n = 6" | "n = 8" | "n = 5" using True by blast
    then show ?thesis
    proof cases
      case 5
      have "heap_wf (memmng (krn s)) (ram (krn s)) ([(True, 2056)] @ (True, 3080) # [])"
        using wf 5 by (simp add: heap_at_def)
      from free_stmt [OF b this, of l b] vp 5 obtain s' where
        "?f l s = Inr (Return 0, l, s')" "book_ok s'" "locks s' = locks s"
        "heap_wf (memmng (krn s')) (ram (krn s')) (heap_at 6)" unfolding calls(5) [OF 5] by (auto simp: start heap_at_def)
      then show ?thesis using sys_ok_task_1 [OF ok, of s' 6 l] 5 np by (auto simp: after_round_def)
    next
      case 1
      then show ?thesis using alloc [of 2048 0] np unfolding calls(1) [OF 1] by (auto simp: after_round_def rq)
    next
      case 2
      then show ?thesis using alloc [of 3072 2056] np unfolding calls(2) [OF 2] by (auto simp: after_round_def rq)
    next
      case 3
      then show ?thesis using alloc [of 4096 5136] np unfolding calls(3) [OF 3] by (auto simp: after_round_def rq)
    next
      case 4
      then show ?thesis using alloc [of 1024 2056] np unfolding calls(4) [OF 4] by (auto simp: after_round_def rq)
    qed
  qed
qed

lemma stmt_all_ok:
  assumes "locals_ok v" and "i < 9" and "n < body_len i"
  shows "stmt_ok b v i n"
proof -
  consider "i = 0" | "i = 1 \<or> i = 2 \<or> i = 8" | "i = 3 \<or> i = 4" | "i = 5 \<or> i = 6 \<or> i = 7"
    using nine [OF assms(2)] by blast
  then show ?thesis
  proof cases
    case 1
    with assms(3) show ?thesis by (simp add: stmt_task_1_ok body_len_def)
  next
    case 2
    with assms show ?thesis by (simp add: stmt_others_ok)
  next
    case 3
    with assms(3) have "n < 8" by (auto simp: body_len_def)
    with 3 stmt_mutex_ok [OF 3] stmt_lock_calm [of i n] show ?thesis by (cases "n = 1 \<or> n = 5") auto
  next
    case 4
    with assms(3) have "n < 8" by (auto simp: body_len_def)
    with 4 stmt_sem_ok [OF 4] stmt_lock_calm [of i n] show ?thesis by (cases "n = 1 \<or> n = 5") auto
  qed
qed

section \<open>Scheduling and interrupts\<close>

lemma book_ok_at_task:
  assumes "book_ok s" and "i < 9"
  shows "untouched s (s\<lparr>krn := at_task i (krn s)\<rparr>)"
  using assms by (auto simp: untouched_def locks_def book_ok_def at_task_def sched_ok_def ntasks_def Let_def)

lemma scheduler_ok:
  assumes "book_ok s"
  shows "\<exists>i < 9. scheduler (krn s) = Inr (at_task i (krn s))"
proof -
  let ?k = "krn s"
  from assms have ok: "sched_ok ?k" "ntasks ?k = 9" by (simp_all add: book_ok_def Let_def)
  from assms consider i where "i < 9" "navilnux_current_index ?k = int i" | "navilnux_current_index ?k = -1"
    unfolding book_ok_def Let_def by blast
  then show ?thesis
  proof cases
    case 1
    with scheduler_next [OF ok(1) 1(2)] ok(2) show ?thesis by (intro exI [of _ "Suc i mod 9"]) simp
  next
    case 2
    have "wrap32 (max_task_id (taskmng ?k) + 1) = 9" using ok by (simp add: sched_ok_def ntasks_def nat_eq_iff)
    with 2 show ?thesis by (intro exI [of _ 0]) (simp add: scheduler_def at_task_def Let_def)
  qed
qed

lemma irq_ok:
  assumes "book_ok s"
  shows "\<exists>s'. irqHandler_b b s = Inr s' \<and> untouched s s'"
proof -
  have timer: "\<exists>s1. irq_timer_b b s = Inr s1 \<and> untouched s s1"
  proof -
    obtain icip h1 where r: "bus_rd b ICIP (bdev s) = (icip, h1)" by fastforce
    obtain oscr h3 where o: "bus_rd b OSCR (bus_wr b OSSR OSSR_M1 h1) = (oscr, h3)" by fastforce
    let ?s = "s\<lparr>krn := (krn s)\<lparr>navilnux_time_tick := navilnux_time_tick (krn s) + 1\<rparr>\<rparr>"
    have t: "book_ok ?s" "untouched s ?s"
      using assms by (simp_all add: untouched_def locks_def book_ok_def sched_ok_def ntasks_def Let_def)
    from scheduler_ok [OF t(1)] obtain i where i: "i < 9" "scheduler (krn ?s) = Inr (at_task i (krn ?s))" by blast
    have u: "untouched ?s (?s\<lparr>krn := at_task i (krn ?s)\<rparr>)" by (rule book_ok_at_task [OF t(1) i(1)])
    then have "book_ok (?s\<lparr>krn := at_task i (krn ?s)\<rparr>)" by (simp add: untouched_def)
    from untouched_trans [OF t(2) untouched_trans [OF u untouched_simps(2) [OF this]]]
    have "untouched s (s\<lparr>krn := at_task i (krn ?s), bdev := h\<rparr>)" for h by simp
    then show ?thesis using r o i(2) untouched_simps(2) [OF assms, of h1]
      by (cases "icip AND push_bit 27 1 = 0") (simp_all add: irq_timer_b_def)
  qed
  then obtain s1 where s1: "irq_timer_b b s = Inr s1" "untouched s s1" by blast
  then have ok1: "book_ok s1" by (simp add: untouched_def)
  have "\<exists>s2. irq_button_b b s1 = Inr s2 \<and> untouched s1 s2"
  proof -
    obtain icip h1 where r: "bus_rd b ICIP (bdev s1) = (icip, h1)" by fastforce
    let ?s = "s1\<lparr>bdev := bus_wr b GEDR0 1 h1\<rparr>"
    have t: "book_ok ?s" "untouched s1 ?s" using ok1 by (simp_all add: untouched_simps)
    have g: "untouched ?s (snd (gpio0_irq_handler ?s))"
    proof (cases "switch_pushed ?s = 0")
      case True
      let ?p = "b_printf (''Switch Push!! in Device Driver Layer'' @ [NL]) [] ?s"
      have "book_ok ?p" using t(1) by simp
      then have "untouched ?p (?p\<lparr>switch_pushed := 1\<rparr>)" by (intro untouched_simps(3)) simp_all
      from untouched_trans [OF untouched_simps(1) [OF t(1)] this] True show ?thesis
        by (simp add: gpio0_irq_handler_def)
    qed (use untouched_refl [OF t(1)] in \<open>simp add: gpio0_irq_handler_def\<close>)
    have len: "\<not> length (irq_vector s1) \<le> IRQ8" using ok1 by (simp add: book_ok_def Let_def IRQNUM_def IRQ8_def)
    show ?thesis
    proof (cases "irq_vector s1 ! IRQ8")
      case None
      then show ?thesis using r t(2) len untouched_simps(2) [OF ok1, of h1] by (simp add: irq_button_b_def)
    next
      case (Some f)
      then have "call_irq_fn f ?s = gpio0_irq_handler ?s" by (cases f) simp
      then show ?thesis using Some r len untouched_trans [OF t(2) g] untouched_simps(2) [OF ok1, of h1]
        by (simp add: irq_button_b_def)
    qed
  qed
  with s1 show ?thesis using untouched_trans by (fastforce simp: irqHandler_b_def)
qed

lemma sys_ok_untouched: "sys_ok (ts, s) \<Longrightarrow> untouched s s' \<Longrightarrow> sys_ok (ts, s')"
  using heap_wf_cong by (auto simp: sys_ok_def untouched_def locks_def)

lemma book_step_form:
  assumes "book_step b v (ts, s) (ts', s')"
  obtains (task) i n l t l' s2 where "navilnux_current (krn s) = PoolTCB (int i)" "i < length ts" "ts ! i = (n, l)"
      "stmt_at (user_tasks b v ! i) n l s = Inr (t, l', s2)"
      "ts' = ts[i := (after_round (user_tasks b v ! i) n t, l')]"
      "if t = Yield then \<exists>k. scheduler (krn s2) = Inr k \<and> s' = s2\<lparr>krn := k\<rparr> else s' = s2"
    | (irq) "irqHandler_b b s = Inr s'" "navilnux_current (krn s') \<noteq> DummyTCB" "ts' = ts"
  using assms
proof (rule book_step_cases, goal_cases)
  case (1 i n l r l')
  then show ?case using task [of i n l "Return r" l' s'] by (simp add: after_round_def)
next
  case (2 i n l l')
  then show ?case using task [of i n l Loop l' s'] by (simp add: after_round_def)
next
  case (3 i n l l' s2 k)
  then show ?case using task [of i n l Yield l' s2] by (simp add: after_round_def)
next
  case 4
  then show ?case using irq by simp
qed

lemma book_step_ok:
  assumes "locals_ok v" and "book_step b v (ts, s) (ts', s')" and "sys_ok (ts, s)"
  shows "sys_ok (ts', s')"
proof -
  have len: "length ts = 9" and pos: "\<And>i. i < 9 \<Longrightarrow> fst (ts ! i) < body_len i" and bok: "book_ok s"
    using assms(3) by (auto simp: sys_ok_def)
  from assms(2) show ?thesis
  proof (cases rule: book_step_form)
    case (task i n l t l' s2)
    then have "n < body_len i" using pos [of i] len by simp
    with stmt_all_ok [OF assms(1), of i n b] assms(3) task len have y: "sys_ok (ts', s2)"
      unfolding stmt_ok_def by (metis Inr_inject prod.inject)
    show ?thesis
    proof (cases "t = Yield")
      case True
      have "book_ok s2" using y by (simp add: sys_ok_def)
      from scheduler_ok [OF this] book_ok_at_task [OF this] task(6) True have "untouched s2 s'" by force
      with y sys_ok_untouched show ?thesis by blast
    qed (use y task(6) in simp)
  next
    case irq
    with irq_ok [OF bok, of b] sys_ok_untouched [OF assms(3)] show ?thesis by auto
  qed
qed

end
