(* ===== verification/Book_System.thy ===== *)
theory Book_System
  imports Book_Run
begin

text \<open>
  The kernel of \<open>source/chap16\<close> from start-up on: the boot, the states the nine tasks reach, the
  lamps and the button, and the properties of the whole.
\<close>

section \<open>Start-up\<close>

lemma create_tasks_ready:
  assumes "tasks_ready fs (taskmng k) (memmng k)" and "tm_create (taskmng k) \<noteq> None"
    and "length fs + length gs \<le> nat MAXTASKNUM"
  shows "\<exists>tm p. create_tasks gs k = Inr (k\<lparr>taskmng := tm, memmng := (memmng k)\<lparr>free_mem_pool := p\<rparr>\<rparr>) \<and>
    tasks_ready (fs @ gs) tm ((memmng k)\<lparr>free_mem_pool := p\<rparr>) \<and>
    length p = length (free_mem_pool (memmng k)) \<and> (\<forall>i \<ge> MAXMEMBLK. p ! i = free_mem_pool (memmng k) ! i) \<and>
    tm_create tm = tm_create (taskmng k)"
  using assms
proof (induction gs arbitrary: fs k)
  case Nil
  then show ?case by (intro exI [of _ "taskmng k"] exI [of _ "free_mem_pool (memmng k)"]) simp
next
  case (Cons g gs)
  let ?tm = "task_set_up (length fs) g (taskmng k)" and ?mm = "stack_taken (length fs) (memmng k)"
  let ?k = "k\<lparr>taskmng := ?tm, memmng := ?mm\<rparr>"
  have c: "task_create g (taskmng k) (memmng k) = Inr (int (length fs), ?tm, ?mm)"
    and r: "tasks_ready (fs @ [g]) ?tm ?mm"
    using tasks_ready_create [OF Cons.prems(1), of g] Cons.prems(3) by simp_all
  have "tm_create ?tm \<noteq> None" using Cons.prems(2) by (simp add: task_set_up_def)
  with Cons.IH [of "fs @ [g]" ?k] r Cons.prems(3) obtain tm p where
    i: "create_tasks gs ?k = Inr (?k\<lparr>taskmng := tm, memmng := ?mm\<lparr>free_mem_pool := p\<rparr>\<rparr>)"
    "tasks_ready (fs @ g # gs) tm (?mm\<lparr>free_mem_pool := p\<rparr>)" "length p = length (free_mem_pool ?mm)"
    "\<forall>i \<ge> MAXMEMBLK. p ! i = free_mem_pool ?mm ! i" "tm_create tm = tm_create ?tm" by auto
  have "length fs < MAXMEMBLK" using Cons.prems(3) by (simp add: MAXTASKNUM_def MAXMEMBLK_def)
  with i(3-5) have l: "length p = length (free_mem_pool (memmng k))" "\<forall>i \<ge> MAXMEMBLK. p ! i = free_mem_pool (memmng k) ! i"
    "tm_create tm = tm_create (taskmng k)" by (auto simp: stack_taken_def task_set_up_def)
  have "k_task_create g k = Inr (int (length fs), ?k)" using c Cons.prems(2) by (simp add: k_task_create_def)
  moreover have "?mm\<lparr>free_mem_pool := p\<rparr> = (memmng k)\<lparr>free_mem_pool := p\<rparr>" by (simp add: stack_taken_def)
  ultimately show ?case using i(1,2) l by (intro exI [of _ tm] exI [of _ p]) simp
qed

lemma print_tasks_b_console: "\<exists>c. print_tasks_b ts i k = k\<lparr>console := c\<rparr>"
proof (induction ts arbitrary: i k)
  case Nil
  then show ?case by (auto intro: exI [of _ "console k"])
next
  case (Cons t ts)
  from Cons.IH [of "i + 1" "k_printf (''TCB : TASK%d - init PC(%p) '' @ TAB # '' init SP(%p)'' @ [NL])
      [i + 1, context_pc t, context_sp t] k"] show ?case by (auto simp: k_printf_def)
qed

definition booted_bus :: "'h bus \<Rightarrow> 'h \<Rightarrow> 'h" where
  "booted_bus b h = os_timer_start b (gpio0_init b (os_timer_init_b b h))"

lemma book_init:
  "\<exists>d. navilnux_init_b b (book_zero m pa da fo nm h) = Inr ((book_zero m pa da fo nm (booted_bus b h))\<lparr>krn :=
     (syscall_init_b (kernel_zero m pa da))\<lparr>memmng := mem_init mem_mng_zero_b,
        taskmng := task_init_b task_mng_zero, msgmng := msg_init msg_mng_zero, drvmng := d\<rparr>\<rparr>) \<and>
     length (free_drv_pool d) = nat DRVLIMIT \<and> navil_fops (free_drv_pool d ! 0) = fo \<and> usecount (free_drv_pool d ! 0) = 0 \<and>
     (\<forall>j. 0 < j \<and> j < 100 \<longrightarrow> free_drv_pool d ! j = \<lparr>navil_fops = 0, usecount = -1, drvname = 0\<rparr>)"
proof -
  have l: "length (free_drv_pool (drv_init drv_mng_zero)) = nat DRVLIMIT" by simp
  have u: "usecount (free_drv_pool (drv_init drv_mng_zero) ! nat MYDRV) < 0"
    using drv_init_slots [of drv_mng_zero 0] by (simp add: MYDRV_def DRVLIMIT_def)
  from drv_register_fresh [OF l _ _ u, where name = nm and f = fo and name' = 0 and f' = 0] obtain d where
    d: "drv_register_drv MYDRV nm fo (drv_init drv_mng_zero) = Inr (0, d)" "length (free_drv_pool d) = nat DRVLIMIT"
      "navil_fops (free_drv_pool d ! 0) = fo" "usecount (free_drv_pool d ! 0) = 0"
      "\<forall>j. j \<noteq> 0 \<longrightarrow> free_drv_pool d ! j = free_drv_pool (drv_init drv_mng_zero) ! j"
    by (auto simp: MYDRV_def DRVLIMIT_def)
  have free: "free_drv_pool d ! j = \<lparr>navil_fops = 0, usecount = -1, drvname = 0\<rparr>" if "0 < j" "j < 100" for j
    using d(5) that drv_init_slots [of drv_mng_zero "int j"] by (simp add: DRVLIMIT_def)
  have p: "dm_register_drv (drv_init drv_mng_zero) = Some Fn_drv_register_drv" by (simp add: drv_init_def)
  have "navilnux_init_b b (book_zero m pa da fo nm h) = Inr ((book_zero m pa da fo nm (booted_bus b h))\<lparr>krn :=
     (syscall_init_b (kernel_zero m pa da))\<lparr>memmng := mem_init mem_mng_zero_b,
        taskmng := task_init_b task_mng_zero, msgmng := msg_init msg_mng_zero, drvmng := d\<rparr>\<rparr>)"
    by (simp add: navilnux_init_b_def book_zero_def kernel_zero_def syscall_init_b_def Let_def drv_init_b_def
      mydrv_init_def p d(1) map_replicate_const booted_bus_def)
  with d free show ?thesis by blast
qed

lemma book_main:
  assumes "fo \<noteq> 0" and "length entries = 9"
  shows "\<exists>s. kernel_main_b b entries (book_zero m pa da fo nm h) = Inr (0, s) \<and> book_ok s \<and>
    tasks_ready entries (taskmng (krn s)) (memmng (krn s)) \<and> navilnux_current (krn s) = DummyTCB \<and>
    heap_wf (memmng (krn s)) (ram (krn s)) [] \<and> locks s = (0, 2) \<and>
    irq_vector s = replicate IRQNUM None \<and> usecount (free_drv_pool (drvmng (krn s)) ! 0) = 0 \<and> bdev s = booted_bus b h \<and>
    mydrv_fops_at s = fo \<and> navilnux_next (krn s) = PoolTCB 0 \<and>
    (\<forall>j. 0 < j \<and> j < 100 \<longrightarrow> free_drv_pool (drvmng (krn s)) ! j = \<lparr>navil_fops = 0, usecount = -1, drvname = 0\<rparr>)"
proof -
  from book_init [of b m pa da fo nm h] obtain d where
    i: "navilnux_init_b b (book_zero m pa da fo nm h) = Inr ((book_zero m pa da fo nm (booted_bus b h))\<lparr>krn :=
     (syscall_init_b (kernel_zero m pa da))\<lparr>memmng := mem_init mem_mng_zero_b,
        taskmng := task_init_b task_mng_zero, msgmng := msg_init msg_mng_zero, drvmng := d\<rparr>\<rparr>)"
    "length (free_drv_pool d) = nat DRVLIMIT" "navil_fops (free_drv_pool d ! 0) = fo" "usecount (free_drv_pool d ! 0) = 0"
    "\<forall>j. 0 < j \<and> j < 100 \<longrightarrow> free_drv_pool d ! j = \<lparr>navil_fops = 0, usecount = -1, drvname = 0\<rparr>"
    by blast
  let ?k = "(syscall_init_b (kernel_zero m pa da))\<lparr>memmng := mem_init mem_mng_zero_b,
        taskmng := task_init_b task_mng_zero, msgmng := msg_init msg_mng_zero, drvmng := d\<rparr>"
  have "length (free_mem_pool (mem_init mem_mng_zero_b)) = 60" "mm_alloc (mem_init mem_mng_zero_b) = Some Fn_mem_alloc"
    by (simp_all add: mem_init_def mem_mng_zero_b_def MAXMEMBLK_b_def)
  then have "tasks_ready [] (taskmng ?k) (memmng ?k)"
    using mem_init_blocks [of mem_mng_zero_b]
    by (simp add: tasks_ready_def task_init_b_def task_mng_zero_def MAXTASKNUM_def MAXMEMBLK_def mem_mng_zero_b_def MAXMEMBLK_b_def)
  moreover have "tm_create (taskmng ?k) \<noteq> None" by (simp add: task_init_b_def)
  ultimately obtain tm p where
    c: "create_tasks entries ?k = Inr (?k\<lparr>taskmng := tm, memmng := (memmng ?k)\<lparr>free_mem_pool := p\<rparr>\<rparr>)"
    "tasks_ready entries tm ((memmng ?k)\<lparr>free_mem_pool := p\<rparr>)"
    using create_tasks_ready [of "[]" ?k entries] assms(2) by (auto simp: MAXTASKNUM_def)
  let ?mg = "snd (msg_sem_init_b 5 2 (msg_init msg_mng_zero))"
  let ?k1 = "?k\<lparr>taskmng := tm, memmng := (memmng ?k)\<lparr>free_mem_pool := p\<rparr>, msgmng := ?mg\<rparr>"
  have u: "navilnux_user_b entries ?k = Inr ?k1"
    using c(1) by (simp add: navilnux_user_b_def msg_init_def)
  have mx: "max_task_id tm = 8" "length (free_task_pool tm) = 40" using c(2) assms(2)
    by (simp_all add: tasks_ready_def MAXTASKNUM_def)
  let ?k2 = "?k1\<lparr>navilnux_current := DummyTCB, navilnux_next := PoolTCB 0, navilnux_current_index := -1\<rparr>"
  have si: "sched_init ?k1 = (0, ?k2)" using mx by (simp add: sched_init_def)
  obtain con where con: "print_tasks_b (take 9 (free_task_pool tm)) 0 ?k2 = ?k2\<lparr>console := con\<rparr>"
    using print_tasks_b_console by blast
  let ?s = "(book_zero m pa da fo nm (booted_bus b h))\<lparr>krn := ?k2\<lparr>console := con\<rparr>\<rparr>"
  have "kernel_main_b b entries (book_zero m pa da fo nm h) = Inr (0, ?s)"
    using u si con mx by (simp add: kernel_main_b_def i(1))
  moreover have mg: "?mg = set_msg_cell (msg_init msg_mng_zero) 205 \<lparr>msg_data = 0, msg_flag = 2\<rparr>"
    by (simp add: msg_sem_init_b_def msg_consts_b msg_init_def msg_mng_zero_def msg_cell_def)
  moreover have "book_ok ?s" using mx i(2,3) assms(1) unfolding mg
    by (simp add: book_ok_def Let_def sched_ok_def ntasks_def MAXTASKNUM_def book_zero_def msg_init_def
      set_msg_cell_def msg_mng_zero_def MAXMSG_def mem_init_def syscall_init_b_def kernel_zero_def IRQNUM_def)
  moreover have "heap_wf (memmng (krn ?s)) (ram (krn ?s)) []"
    by (simp add: heap_wf_def mem_init_def)
  moreover have "locks ?s = (0, 2)" unfolding locks_def mg
    by (simp add: msg_init_def msg_mng_zero_def set_msg_cell_def msg_cell_def MAXMSG_def)
  ultimately show ?thesis using c(2) i(4,5) by (intro exI [of _ ?s]) (simp add: book_zero_def)
qed

lemma book_reach_ok:
  assumes "locals_ok v" and "book_reach b v st"
  shows "sys_ok st"
  using assms(2)
proof (induction rule: book_reach.induct)
  case (boot fo entries m pa da nm h s l0)
  from book_main [OF boot(1,2), of b m pa da nm h] boot(3) have
    "book_ok s" "heap_wf (memmng (krn s)) (ram (krn s)) []" "locks s = (0, 2)" by auto
  then show ?case by (auto simp: sys_ok_def locks_def inside_def in_section_def heap_at_def body_len_def dest: nine)
next
  case (step st st')
  then show ?case using book_step_ok [OF assms(1)] by (cases st, cases st') blast
qed

section \<open>Two users of the lamps' register\<close>

text \<open>Statements that do not touch a device.\<close>

definition off_bus :: "'h stmt \<Rightarrow> bool" where
  "off_bus f \<longleftrightarrow> (\<forall>l s t l' s'. book_ok s \<longrightarrow> f l s = Inr (t, l', s') \<longrightarrow> bdev s' = bdev s)"

definition off_bus_round :: "'h round \<Rightarrow> bool" where
  "off_bus_round f \<longleftrightarrow> (\<forall>s t s'. book_ok s \<longrightarrow> f s = Inr (t, s') \<longrightarrow> bdev s' = bdev s)"

named_theorems off_bus_rules

lemma bdev_simps [simp]:
  "bdev (with_msg mg s) = bdev s" "bdev (with_ram m s) = bdev s" "bdev (b_printf f a s) = bdev s"
  by (simp_all add: with_msg_def with_ram_def b_printf_def)

lemma in_kernel_bdev: "in_kernel f s = Inr (r, s') \<Longrightarrow> bdev s' = bdev s"
  by (cases "f (krn s)") (auto simp: in_kernel_def)

lemma off_bus_basic [off_bus_rules]:
  "off_bus (u_set f)" "off_bus (u_printf x a)" "off_bus (u_init i j)" "off_bus (u_vars n v)" "off_bus (u_say y)"
  "off_bus g \<Longrightarrow> off_bus (u_if c g)" "off_bus g \<Longrightarrow> off_bus (\<lambda>l. g (h l))"
  by (auto simp: off_bus_def u_set_def u_printf_def u_init_def u_vars_def u_say_def u_if_def)

lemma off_bus_call [off_bus_rules]: "(\<And>l. off_bus_round (f l)) \<Longrightarrow> off_bus (u_call f g)"
  unfolding off_bus_def off_bus_round_def u_call_def by (auto simp: fbind_Inr split: prod.splits)

lemma off_bus_sleep [off_bus_rules]: "off_bus (u_sleep sec)"
  unfolding u_sleep_def
  by (rule off_bus_call) (auto simp: off_bus_round_def navilnux_sleep_b_def fbind_Inr split: if_splits)

lemma off_bus_locks [off_bus_rules]:
  "off_bus_round (navilnux_mutex_wait_b b 3)" "off_bus_round (navilnux_mutex_release_b b 3)"
  "off_bus_round (navilnux_sem_p_b b 5)" "off_bus_round (navilnux_sem_v_b b 5)"
  "off_bus_round (navilnux_itc_send_b b 2 d)" "off_bus_round (navilnux_itc_get_b b p 2)"
  "off_bus_round (navilnux_open_b b MYDRV O_RDWR)" "off_bus_round (navilnux_read_b b MYDRV p 4)"
  by (auto simp: off_bus_round_def navilnux_mutex_wait_b_def navilnux_mutex_release_b_def navilnux_sem_p_b_def
    navilnux_sem_v_b_def navilnux_itc_send_b_def navilnux_itc_get_b_def navilnux_open_b_def navilnux_read_b_def
    plain_call_def mutex_calls sem_calls itc_calls drv_calls split: if_splits)

lemma off_bus_heap [off_bus_rules]:
  "off_bus (u_malloc b sz)" "off_bus_round (plain_call (navilnux_free_b b a))"
proof -
  have v: "syscallvec (krn s) ! 8 = Some Sys_malloc" if "book_ok s" for s :: "'a book"
    using vec_b [of 8 s] that by (simp add: syscall_numbers_b_def)
  show "off_bus (u_malloc b sz)"
    by (auto simp: off_bus_def u_malloc_def navilnux_malloc_b_def syscall_dispatch_b_def v fbind_Inr
      split: if_splits dest: in_kernel_bdev)
  show "off_bus_round (plain_call (navilnux_free_b b a))"
    by (auto simp: off_bus_round_def plain_call_def navilnux_free_b_def trap_b_calls syscall_numbers_b_def
      fbind_Inr dest: in_kernel_bdev)
qed

lemma off_bus_others:
  assumes "i < 8" and "n < body_len i"
  shows "off_bus (stmt_at (user_tasks b v ! i) n)"
proof -
  have "\<forall>f \<in> set (ut_start (user_tasks b v ! i) @ ut_loop (user_tasks b v ! i)). off_bus f"
    using eight [OF assms(1)] by (elim disjE) (simp_all add: user_tasks_def task_defs off_bus_rules)
  then show ?thesis
    using assms task_lengths [of i b v] unfolding stmt_at_def by (metis length_append less_SucI nth_mem numeral_nat(2) eval_nat_numeral(3))
qed

section \<open>The lamps\<close>

text \<open>
  What the output pins do, as the processor's manual says: a write to \<open>GPSR0\<close> sets and a write to
  \<open>GPCR0\<close> clears the pins whose bits are set in it; no other access changes them.
\<close>

definition pin_outputs :: "'h bus \<Rightarrow> ('h \<Rightarrow> u32) \<Rightarrow> bool" where
  "pin_outputs b pins \<longleftrightarrow> (\<forall>r h. pins (snd (bus_rd b r h)) = pins h) \<and>
     (\<forall>r x h. pins (bus_wr b r x h) = (if r = GPSR0 then pins h OR x else if r = GPCR0 then pins h AND NOT x else pins h))"

definition lit :: "u32 \<Rightarrow> int set" where
  "lit p = {n. 0 \<le> n \<and> n < 4 \<and> \<not> bit p (nat n + 2)}"

lemma set_led_lit:
  assumes "pin_outputs b pins" and "0 \<le> n" and "n < 4"
  shows "lit (pins (GPIO_SetLED_b b n LED_ON h)) = insert n (lit (pins h))"
    and "lit (pins (GPIO_SetLED_b b n LED_OFF h)) = lit (pins h) - {n}"
proof -
  define p :: u32 where "p = push_bit (nat n + 2) 1"
  have cases: "n = 0 \<or> n = 1 \<or> n = 2 \<or> n = 3" using assms(2,3) by auto
  then have pin: "led_pin n = Some p" by (elim disjE) (simp_all add: p_def led_pin_def GPIO_bit_def)
  have bp: "bit p (nat x + 2) = (x = n)" if "0 \<le> x" "x < 4" for x
    unfolding p_def bit_push_bit_iff using that assms(2,3) by (auto simp only: bit_1_iff possible_bit_word) auto
  have bn: "nat x + 2 < 32" if "x < 4" for x :: int using that by auto
  have r: "GPCR0 \<noteq> GPSR0" by (simp add: GPCR0_def GPSR0_def)
  have "pins (GPIO_SetLED_b b n LED_ON h) = pins h AND NOT p"
    "pins (GPIO_SetLED_b b n LED_OFF h) = pins h OR p"
    using assms(1) r by (simp_all add: GPIO_SetLED_b_def pin pin_outputs_def LED_ON_def LED_OFF_def)
  then show "lit (pins (GPIO_SetLED_b b n LED_ON h)) = insert n (lit (pins h))"
    "lit (pins (GPIO_SetLED_b b n LED_OFF h)) = lit (pins h) - {n}"
    using assms(2,3) bp bn by (auto simp only: lit_def bit_and_iff bit_or_iff bit_not_iff) auto
qed

lemma led_write:
  assumes "book_ok s" and "in_stacks p"
  shows "\<exists>s'. u_led b p x y l s = Inr (Return 0, l, s') \<and>
    bdev s' = GPIO_SetLED_b b (wrap32 (x l)) y (bdev s)"
proof -
  let ?s = "with_ram (st32 (st32 (ram (krn s)) p (word_of_int (x l))) (p + 4) y) s"
  have p4: "unat (p + 4) = unat p + 4" using assms(2) unat_plus_small [of p 4] by (simp add: in_stacks_def)
  then have "word_bytes p \<inter> word_bytes (p + 4) = {}" "word_bytes (p + 4) \<inter> word_bytes p = {}"
    using word_bytes_disjoint [of p "p + 4"] assms(2) by (simp_all add: in_stacks_def)
  then have r: "ld32 (ram (krn ?s)) p = word_of_int (x l)" "ld32 (ram (krn ?s)) (p + 4) = y"
    by (simp_all add: mem_simps)
  have "s\<lparr>krn := (krn s)\<lparr>ram := st32 (st32 (ram (krn s)) p (word_of_int (x l))) (p + 4) y\<rparr>\<rparr> = ?s"
    by (simp add: with_ram_def)
  then show ?thesis using r assms(1)
    by (simp add: u_led_def u_call_def navilnux_write_b_def plain_call_def drv_calls wrap32_sint_of_int del: with_simps(2))
qed

text \<open>Which lamps may be lit while task 9 is at a statement: the one before lamp \<open>b\<close>, none, lamp \<open>b\<close>.\<close>

definition lamps_at :: "nat \<Rightarrow> ulocals \<Rightarrow> int set \<Rightarrow> bool" where
  "lamps_at n l L \<longleftrightarrow> (if n = 0 then L = {} else 0 \<le> vb l \<and> vb l < 4 \<and>
     (if n \<le> 5 then L = (if vc l = (vb l + 2) mod 4 then {(vb l + 3) mod 4} else {})
      else if n = 6 then vc l = (vb l + 3) mod 4 \<and> L \<subseteq> {vc l}
      else vc l = (vb l + (if n = 9 then 2 else 3)) mod 4 \<and>
        L = (if n = 7 then {} else if n = 8 then {vb l} else {(vb l + 3) mod 4})))"

definition same_locals :: "'h stmt \<Rightarrow> bool" where
  "same_locals f \<longleftrightarrow> (\<forall>l s t l' s'. f l s = Inr (t, l', s') \<longrightarrow> l' = l)"

lemma same_locals_rules:
  "same_locals (u_printf x a)" "same_locals (u_vars n v)" "same_locals (u_sleep sec)"
  "same_locals (u_call f (\<lambda>r l. l))"
  by (auto simp: same_locals_def u_printf_def u_vars_def u_sleep_def u_call_def fbind_Inr split: turn.splits)

lemma lamps_step:
  assumes bus: "pin_outputs b pins" and loc: "in_stacks (v ''led'')" and ok: "book_ok s" and n: "n < 10"
    and st: "stmt_at (user_task_9 b v) n l s = Inr (t, l', s')" and la: "lamps_at n l (lit (pins (bdev s)))"
  shows "lamps_at (after_round (user_task_9 b v) n t) l' (lit (pins (bdev s')))"
proof -
  let ?f = "stmt_at (user_task_9 b v) n" and ?L = "lit (pins (bdev s))" and ?L' = "lit (pins (bdev s'))"
  have at: "?f = [\<lambda>l s. Inr (Return 0, l\<lparr>vb := 0, vc := 0\<rparr>, s\<lparr>krn := (krn s)\<lparr>ram :=
         st32 (st32 (st32 (ram (krn s)) (v ''led'') 0) (v ''led'' + 4) 0) (v ''a'') 0\<rparr>\<rparr>),
       u_call (\<lambda>l. navilnux_open_b b MYDRV O_RDWR) (\<lambda>r l. l),
       u_call (\<lambda>l. navilnux_read_b b MYDRV (v ''a'') 4) (\<lambda>r l. l), u_vars ''TASK9'' v,
       u_printf (''Device Driver Returned %d'' @ [NL]) (\<lambda>l m. [ld32 m (v ''a'')]),
       u_set (\<lambda>l. l\<lparr>vc := (if vb l = 0 then 3 else wrap32 (vb l - 1))\<rparr>),
       u_led b (v ''led'') vc LED_OFF, u_led b (v ''led'') vb LED_ON,
       u_set (\<lambda>l. let x = wrap32 (vb l + 1) in l\<lparr>vb := (if x = 4 then 0 else x)\<rparr>), u_sleep 5] ! n"
    by (simp add: stmt_at_def user_task_9_def)
  have np: "next_pos (user_task_9 b v) n = (if n < 9 then Suc n else 2)"
    using n by (simp add: next_pos_def user_task_9_def)
  have "n = 0 \<or> (n = 1 \<or> n = 2 \<or> n = 3 \<or> n = 4 \<or> n = 9) \<or> n = 5 \<or> n = 6 \<or> n = 7 \<or> n = 8"
    using n by presburger
  then consider "n = 0" | "n = 1 \<or> n = 2 \<or> n = 3 \<or> n = 4 \<or> n = 9" | "n = 5" | "n = 6" | "n = 7" | "n = 8"
    by blast
  then show ?thesis
  proof cases
    case 1
    with st la np show ?thesis unfolding at by (auto simp: lamps_at_def after_round_def)
  next
    case 2
    then have "same_locals ?f" "off_bus ?f"
      unfolding at by (auto simp: same_locals_rules off_bus_rules)
    with st ok have "l' = l" "bdev s' = bdev s" unfolding same_locals_def off_bus_def by blast+
    with 2 la np show ?thesis by (cases t) (auto simp: lamps_at_def after_round_def)
  next
    case 3
    then have "t = Return 0" "l' = l\<lparr>vc := (if vb l = 0 then 3 else wrap32 (vb l - 1))\<rparr>" "s' = s"
      using st unfolding at by (auto simp: u_set_def)
    moreover have "vb l = 0 \<or> vb l = 1 \<or> vb l = 2 \<or> vb l = 3" using la 3 by (auto simp: lamps_at_def)
    ultimately show ?thesis using 3 la np by (auto simp: lamps_at_def after_round_def)
  next
    case 4
    have "?f = u_led b (v ''led'') vc LED_OFF" using 4 unfolding at by simp
    with led_write [OF ok loc, of b vc LED_OFF l] st have
      "t = Return 0" "l' = l" "bdev s' = GPIO_SetLED_b b (wrap32 (vc l)) LED_OFF (bdev s)" by auto
    with 4 la np set_led_lit(2) [OF bus, of "vc l"] show ?thesis by (auto simp: lamps_at_def after_round_def)
  next
    case 5
    have "?f = u_led b (v ''led'') vb LED_ON" using 5 unfolding at by simp
    with led_write [OF ok loc, of b vb LED_ON l] st have
      "t = Return 0" "l' = l" "bdev s' = GPIO_SetLED_b b (wrap32 (vb l)) LED_ON (bdev s)" by auto
    with 5 la np set_led_lit(1) [OF bus, of "vb l"] show ?thesis by (auto simp: lamps_at_def after_round_def)
  next
    case 6
    then have "t = Return 0" "l' = l\<lparr>vb := (if wrap32 (vb l + 1) = 4 then 0 else wrap32 (vb l + 1))\<rparr>" "s' = s"
      using st unfolding at by (auto simp: u_set_def Let_def)
    moreover have "vb l = 0 \<or> vb l = 1 \<or> vb l = 2 \<or> vb l = 3" using la 6 by (auto simp: lamps_at_def)
    ultimately show ?thesis using 6 la np by (auto simp: lamps_at_def after_round_def)
  qed
qed

lemma pins_rd: "pin_outputs b pins \<Longrightarrow> bus_rd b r h = (x, h') \<Longrightarrow> pins h' = pins h"
  unfolding pin_outputs_def by (metis snd_conv)

lemma pins_wr: "pin_outputs b pins \<Longrightarrow> r \<noteq> GPSR0 \<Longrightarrow> r \<noteq> GPCR0 \<Longrightarrow> pins (bus_wr b r x h) = pins h"
  by (simp add: pin_outputs_def)

lemma pins_modify: "pin_outputs b pins \<Longrightarrow> r \<noteq> GPSR0 \<Longrightarrow> r \<noteq> GPCR0 \<Longrightarrow> pins (reg_modify b r f h) = pins h"
  by (auto simp: reg_modify_def pins_wr dest: pins_rd split: prod.splits)

lemmas out_regs = timer_regs GPDR0_def GRER0_def GFER0_def GEDR0_def GAFR0_L_def GPSR0_def GPCR0_def

lemma booted_pins:
  assumes "pin_outputs b pins"
  shows "pins (booted_bus b h) = pins h"
  using assms
  by (auto simp: booted_bus_def os_timer_start_def gpio0_init_def os_timer_init_b_def Let_def pins_modify pins_wr
    out_regs pins_rd split: prod.splits)

lemma irq_pins:
  assumes "pin_outputs b pins" and "irqHandler_b b s = Inr s'"
  shows "pins (bdev s') = pins (bdev s)"
proof -
  from assms(2) obtain s1 where s1: "irq_timer_b b s = Inr s1" and s2: "irq_button_b b s1 = Inr s'"
    by (auto simp: irqHandler_b_def fbind_Inr)
  have "pins (bdev s1) = pins (bdev s)" using s1 assms(1)
    by (auto simp: irq_timer_b_def Let_def fbind_Inr pins_wr out_regs dest!: pins_rd [OF assms(1)] split: prod.splits if_splits)
  moreover have "bdev (snd (call_irq_fn f t)) = bdev t" for f and t :: "'a book"
    by (cases f) (simp add: gpio0_irq_handler_def)
  then have "pins (bdev s') = pins (bdev s1)" using s2 assms(1)
    by (auto simp: irq_button_b_def Let_def pins_wr out_regs dest!: pins_rd [OF assms(1)]
      split: prod.splits if_splits option.splits)
  ultimately show ?thesis by simp
qed

lemma lamps_book_step:
  assumes "locals_ok v" and "pin_outputs b pins" and "book_step b v (ts, s) (ts', s')" and "sys_ok (ts, s)"
    and "lamps_at (fst (ts ! 8)) (snd (ts ! 8)) (lit (pins (bdev s)))"
  shows "lamps_at (fst (ts' ! 8)) (snd (ts' ! 8)) (lit (pins (bdev s')))"
proof -
  have len: "length ts = 9" and pos: "\<And>i. i < 9 \<Longrightarrow> fst (ts ! i) < body_len i" and bok: "book_ok s"
    using assms(4) by (auto simp: sys_ok_def)
  from assms(3) show ?thesis
  proof (cases rule: book_step_form)
    case (task i n l t l' s2)
    then have n: "n < body_len i" "i < 9" using pos [of i] len by simp_all
    have dev: "bdev s' = bdev s2" using task(6) by (auto split: if_splits)
    show ?thesis
    proof (cases "i = 8")
      case True
      have t9: "user_tasks b v ! 8 = user_task_9 b (v 9)" by (simp add: user_tasks_def)
      have "n < 10" using n True by (simp add: body_len_def)
      moreover have "in_stacks (v 9 ''led'')" using assms(1) by (simp add: locals_ok_def)
      moreover have "stmt_at (user_task_9 b (v 9)) n l s = Inr (t, l', s2)" using task(4) True t9 by simp
      ultimately have "lamps_at (after_round (user_task_9 b (v 9)) n t) l' (lit (pins (bdev s2)))"
        using lamps_step [OF assms(2) _ bok] task(3) True assms(5) by simp
      then show ?thesis using task(5) True len dev t9 by simp
    next
      case False
      then have "off_bus (stmt_at (user_tasks b v ! i) n)" using off_bus_others [of i n b v] n by simp
      then have "bdev s2 = bdev s" using task(4) bok unfolding off_bus_def by blast
      then show ?thesis using task(5) False dev assms(5) by simp
    qed
  next
    case irq
    then show ?thesis using irq_pins [OF assms(2)] assms(5) by simp
  qed
qed

lemma lamps_run:
  assumes "locals_ok v" and "pin_outputs b pins" and "(book_step b v)\<^sup>*\<^sup>* st (ts, s)"
    and "sys_ok st" and "lamps_at (fst (fst st ! 8)) (snd (fst st ! 8)) (lit (pins (bdev (snd st))))"
  shows "sys_ok (ts, s) \<and> lamps_at (fst (ts ! 8)) (snd (ts ! 8)) (lit (pins (bdev s)))"
  using assms(3)
proof (induction "(ts, s)" arbitrary: ts s rule: rtranclp_induct)
  case base
  then show ?case using assms(4,5) by auto
next
  case (step y)
  obtain ts1 s1 where y: "y = (ts1, s1)" by (cases y)
  from step(3) [OF y] have ok: "sys_ok (ts1, s1)"
    and la: "lamps_at (fst (ts1 ! 8)) (snd (ts1 ! 8)) (lit (pins (bdev s1)))" by blast+
  from step(2) y have st: "book_step b v (ts1, s1) (ts, s)" by simp
  show ?case using book_step_ok [OF assms(1) st ok] lamps_book_step [OF assms(1,2) st ok la] by blast
qed

lemma boot_sys_ok:
  assumes "fo \<noteq> 0" and "length entries = 9" and "kernel_main_b b entries (book_zero m pa da fo nm h) = Inr (0, s)"
  shows "sys_ok (replicate 9 (0, l0), s)" and "bdev s = booted_bus b h"
proof -
  from book_main [OF assms(1,2), of b m pa da nm h] assms(3) have
    "book_ok s" "heap_wf (memmng (krn s)) (ram (krn s)) []" "locks s = (0, 2)" "bdev s = booted_bus b h" by auto
  then show "sys_ok (replicate 9 (0, l0), s)" "bdev s = booted_bus b h"
    by (auto simp: sys_ok_def locks_def inside_def in_section_def heap_at_def body_len_def dest: nine)
qed

section \<open>The button\<close>

definition button_pending :: "'h bus \<Rightarrow> bool" where
  "button_pending b \<longleftrightarrow> (\<forall>h. fst (bus_rd b ICIP h) AND push_bit 8 1 \<noteq> 0)"

text \<open>
  A history of the button: \<open>True\<close> an interrupt with the button pending, \<open>False\<close> an attempt to
  read; the results of the attempts.
\<close>

fun button_run :: "'h bus \<Rightarrow> u32 \<Rightarrow> bool list \<Rightarrow> 'h book \<Rightarrow> (int list \<times> 'h book) fres" where
  "button_run b buf [] s = Inr ([], s)"
| "button_run b buf (True # es) s = fbind (irq_button_b b s) (button_run b buf es)"
| "button_run b buf (False # es) s = fbind (lib_read_b b MYDRV buf 4 s) (\<lambda>(r, s1).
     fbind (button_run b buf es s1) (\<lambda>(rs, s2). Inr (r # rs, s2)))"

text \<open>A latch for one press: a read takes it, presses before it is taken add nothing.\<close>

primrec latch :: "bool \<Rightarrow> bool list \<Rightarrow> int list" where
  "latch p [] = []"
| "latch p (e # es) = (if e then latch True es else (if p then 4 else -2) # latch False es)"

lemma press_latches:
  assumes "book_ok s" and "irq_vector s ! IRQ8 = Some Fn_gpio0_irq_handler" and "button_pending b"
  shows "\<exists>s'. irq_button_b b s = Inr s' \<and> book_ok s' \<and> irq_vector s' ! IRQ8 = Some Fn_gpio0_irq_handler \<and>
    switch_pushed s' = 1"
proof -
  obtain icip h1 where r: "bus_rd b ICIP (bdev s) = (icip, h1)" by fastforce
  then have p: "icip AND push_bit 8 1 \<noteq> 0" using assms(3) unfolding button_pending_def by (metis fst_conv)
  let ?s = "s\<lparr>bdev := bus_wr b GEDR0 1 h1\<rparr>"
  let ?p = "b_printf (''Switch Push!! in Device Driver Layer'' @ [NL]) [] ?s"
  have sw: "switch_pushed s = 0 \<or> switch_pushed s = 1" and len: "\<not> length (irq_vector s) \<le> IRQ8"
    using assms(1) by (simp_all add: book_ok_def Let_def IRQNUM_def IRQ8_def)
  have irq: "irq_button_b b s = Inr (snd (gpio0_irq_handler ?s))"
    using r p len assms(2) by (simp add: irq_button_b_def)
  have "book_ok (?p\<lparr>switch_pushed := 1\<rparr>)" using assms(1) by simp
  with irq sw assms(1,2) show ?thesis by (auto simp: gpio0_irq_handler_def) (simp add: b_printf_def)
qed

lemma read_takes:
  assumes "book_ok s"
  shows "\<exists>s'. lib_read_b b MYDRV buf 4 s = Inr (if switch_pushed s = 1 then 4 else -2, s') \<and> book_ok s' \<and>
    irq_vector s' = irq_vector s \<and> switch_pushed s' = 0"
proof -
  have "switch_pushed s = 0 \<or> switch_pushed s = 1" using assms by (simp add: book_ok_def Let_def)
  then show ?thesis using assms by (auto simp: drv_calls) (simp_all add: with_ram_def)
qed

lemma button_run_latch:
  assumes "book_ok s" and "irq_vector s ! IRQ8 = Some Fn_gpio0_irq_handler" and "button_pending b"
  shows "\<exists>s'. button_run b buf es s = Inr (latch (switch_pushed s = 1) es, s')"
  using assms(1,2)
proof (induction es arbitrary: s)
  case (Cons e es)
  show ?case
  proof (cases e)
    case True
    from press_latches [OF Cons.prems assms(3)] Cons.IH True show ?thesis by fastforce
  next
    case False
    from read_takes [OF Cons.prems(1), of b buf] obtain s1 where
      s1: "lib_read_b b MYDRV buf 4 s = Inr (if switch_pushed s = 1 then 4 else -2, s1)" "book_ok s1"
        "irq_vector s1 = irq_vector s" "switch_pushed s1 = 0" by blast
    from Cons.IH [OF s1(2)] s1(3,4) Cons.prems(2) obtain s2 where
      "button_run b buf es s1 = Inr (latch False es, s2)" by auto
    with s1(1) False show ?thesis by simp
  qed
qed simp

section \<open>Properties\<close>

text \<open>
  C17: Start-up: \<open>main\<close> reaches its idle loop with nine tasks, task \<open>i\<close> at its entry point on the
  \<open>i\<close>-th stack, the heap empty, two places on semaphore 5, and the button driver registered in slot 0,
  unopened, with no interrupt routine installed.
\<close>
theorem book_boots:
  assumes "fo \<noteq> 0" and "length entries = 9"
  shows "\<exists>s. kernel_main_b b entries (book_zero m pa da fo nm h) = Inr (0, s) \<and>
    max_task_id (taskmng (krn s)) = 8 \<and>
    (\<forall>i < 9. context_pc (free_task_pool (taskmng (krn s)) ! i) = entries ! i \<and>
       unat (context_sp (free_task_pool (taskmng (krn s)) ! i)) = 2689597436 + i * 1048576) \<and>
    heap_wf (memmng (krn s)) (ram (krn s)) [] \<and> msg_flag (msg_cell (msgmng (krn s)) 205) = 2 \<and>
    navil_fops (free_drv_pool (drvmng (krn s)) ! 0) = fo \<and> usecount (free_drv_pool (drvmng (krn s)) ! 0) = 0 \<and>
    irq_vector s = replicate 64 None"
proof -
  from book_main [OF assms, of b m pa da nm h] obtain s where
    s: "kernel_main_b b entries (book_zero m pa da fo nm h) = Inr (0, s)" "book_ok s"
    "tasks_ready entries (taskmng (krn s)) (memmng (krn s))" "heap_wf (memmng (krn s)) (ram (krn s)) []"
    "locks s = (0, 2)" "irq_vector s = replicate IRQNUM None" "usecount (free_drv_pool (drvmng (krn s)) ! 0) = 0"
    "mydrv_fops_at s = fo" by blast
  have fo: "navil_fops (free_drv_pool (drvmng (krn s)) ! 0) = fo"
    using s(2,8) by (simp add: book_ok_def Let_def)
  from s(3) assms(2) unat_stack_top show ?thesis using s fo
    by (intro exI [of _ s]) (auto simp: tasks_ready_def locks_def IRQNUM_def MAXMEMBLK_def)
qed

theorem book_boots_witness:
  "\<exists>s. kernel_main_b pending_bus [0x8000, 0x8100, 0x8200, 0x8300, 0x8400, 0x8500, 0x8600, 0x8700, 0x8800]
      (book_zero (\<lambda>_. 0) 0xA0010000 0xA0020000 0xA0030000 0xA0030100 ()) = Inr (0, s) \<and>
    context_pc (free_task_pool (taskmng (krn s)) ! 8) = 0x8800"
proof -
  let ?fs = "[0x8000, 0x8100, 0x8200, 0x8300, 0x8400, 0x8500, 0x8600, 0x8700, 0x8800] :: u32 list"
  have "0xA0030000 \<noteq> (0 :: u32)" "length ?fs = 9" by simp_all
  from book_boots [OF this, of pending_bus "\<lambda>_. 0" "0xA0010000" "0xA0020000" "0xA0030100" "()"] show ?thesis by fastforce
qed

text \<open>
  C14: The running system never gets stuck: in every state that the nine tasks and the interrupts (the timer's first) can
  reach, in any interleaving, the next statement of each task returns (the system calls, \<open>malloc\<close>
  and \<open>free\<close> included), the scheduler finds the next task after it, and an interrupt is handled.
\<close>
theorem book_tasks_progress:
  assumes "locals_ok v" and "book_reach b v (ts, s)" and "i < 9"
  shows "(\<exists>t l' s' k. stmt_at (user_tasks b v ! i) (fst (ts ! i)) (snd (ts ! i)) s = Inr (t, l', s') \<and>
      scheduler (krn s') = Inr k) \<and> (\<exists>s'. irqHandler_b b s = Inr s')"
proof -
  have ok: "sys_ok (ts, s)" by (rule book_reach_ok [OF assms(1,2)])
  then have "fst (ts ! i) < body_len i" and bok: "book_ok s" using assms(3) by (auto simp: sys_ok_def)
  from stmt_all_ok [OF assms(1,3) this(1), of b] ok obtain t l' s' where
    f: "stmt_at (user_tasks b v ! i) (fst (ts ! i)) (snd (ts ! i)) s = Inr (t, l', s')"
    "sys_ok (ts[i := (after_round (user_tasks b v ! i) (fst (ts ! i)) t, l')], s')"
    unfolding stmt_ok_def by (metis prod.collapse)
  then have "book_ok s'" by (simp add: sys_ok_def)
  with scheduler_ok f(1) irq_ok [OF bok] show ?thesis by blast
qed

text \<open>A boot, and the state after the first timer interrupt, where task 1 runs.\<close>

definition nine_entries :: "u32 list" where
  "nine_entries = [0x8000, 0x8100, 0x8200, 0x8300, 0x8400, 0x8500, 0x8600, 0x8700, 0x8800]"

definition stack_locals :: "nat \<Rightarrow> string \<Rightarrow> u32" where
  "stack_locals i x = 0xA0400000 + of_nat i * 0x1000 + of_nat (length x) * 16"

lemma stack_locals_ok: "locals_ok stack_locals"
  by (simp add: locals_ok_def in_stacks_def stack_locals_def mem_consts)

lemma button_current: "irq_button_b b s = Inr s' \<Longrightarrow> navilnux_current (krn s') = navilnux_current (krn s)"
proof -
  have "navilnux_current (krn (snd (call_irq_fn f t))) = navilnux_current (krn t)" for f and t :: "'a book"
    by (cases f) (simp add: gpio0_irq_handler_def b_printf_def k_printf_def)
  then show "irq_button_b b s = Inr s' \<Longrightarrow> navilnux_current (krn s') = navilnux_current (krn s)"
    by (auto simp: irq_button_b_def Let_def split: prod.splits if_splits option.splits)
qed

text \<open>
  A button pressed in the idle loop of \<open>main\<close>, before the timer's first interrupt: the handler goes on with task 1, though \<open>navilnux_current\<close>
  is the dummy still. The next interrupt stores what the task has done in the dummy's block and starts it again from its entry.
\<close>

lemma early_press:
  assumes "fo \<noteq> 0" and "length entries = 9" and "kernel_main_b b entries (book_zero m pa da fo nm h) = Inr (0, s)"
    and "\<forall>h. fst (bus_rd b ICIP h) AND push_bit 27 1 = 0"
  shows "\<exists>uc' s'. irq_handler_b b uc s = Inr (uc', s') \<and> u_pc uc' = entries ! 0 \<and> navilnux_current (krn s') = DummyTCB"
proof -
  from book_main [OF assms(1,2), of b m pa da nm h] assms(3) have s: "book_ok s" "tasks_ready entries (taskmng (krn s)) (memmng (krn s))"
    "navilnux_current (krn s) = DummyTCB" "navilnux_next (krn s) = PoolTCB 0" "irq_vector s = replicate IRQNUM None" by auto
  obtain k where k: "save_context uc (krn s) = Inr k" "navilnux_current k = DummyTCB" "navilnux_next k = PoolTCB 0" "taskmng k = taskmng (krn s)"
    by (simp add: save_context_def s(3,4) tcb_get_def tcb_put_def)
  let ?s = "s\<lparr>krn := k\<rparr>"
  obtain x h1 where r: "bus_rd b ICIP (bdev s) = (x, h1)" by fastforce
  then have "x AND push_bit 27 1 = 0" using assms(4) by (metis fst_conv)
  then have t: "irq_timer_b b ?s = Inr (?s\<lparr>bdev := h1\<rparr>)" using r by (simp add: irq_timer_b_def)
  obtain x2 h2 where r2: "bus_rd b ICIP h1 = (x2, h2)" by fastforce
  have "irq_button_b b (?s\<lparr>bdev := h1\<rparr>) =
      Inr (?s\<lparr>bdev := if x2 AND push_bit 8 1 \<noteq> 0 then bus_wr b GEDR0 1 h2 else h2\<rparr>)"
    using s(5) by (cases "x2 AND push_bit 8 1 = 0") (simp_all add: irq_button_b_def r2 IRQNUM_def IRQ8_def Let_def)
  then obtain h3 where b: "irq_button_b b (?s\<lparr>bdev := h1\<rparr>) = Inr (?s\<lparr>bdev := h3\<rparr>)" by blast
  have "tcb_get (PoolTCB 0) k = Inr (free_task_pool (taskmng k) ! 0)" "context_pc (free_task_pool (taskmng k) ! 0) = entries ! 0"
    using s(2) k(4) assms(2) by (simp_all add: tcb_get_def tasks_ready_def in_array_def MAXTASKNUM_def)
  then show ?thesis
    by (simp add: irq_handler_b_def irqHandler_b_def k t b in_kernel_def load_context_def)
qed

lemma tick_starts:
  assumes "book_ok s" and "navilnux_current (krn s) = DummyTCB" and "\<forall>h. fst (bus_rd b ICIP h) AND push_bit 27 1 \<noteq> 0"
  shows "\<exists>s'. irqHandler_b b s = Inr s' \<and> navilnux_current (krn s') = PoolTCB 0"
proof -
  let ?k = "(krn s)\<lparr>navilnux_time_tick := navilnux_time_tick (krn s) + 1\<rparr>"
  have "navilnux_current_index (krn s) = -1" "ntasks (krn s) = 9" "sched_ok (krn s)"
    using assms(1,2) by (auto simp: book_ok_def Let_def)
  then have sch: "scheduler ?k = Inr (at_task 0 ?k)"
    by (simp add: scheduler_def at_task_def Let_def ntasks_def sched_ok_def nat_eq_iff)
  from irq_ok [OF assms(1), of b] obtain s1 where s1: "irqHandler_b b s = Inr s1" by blast
  from s1 obtain s2 where s2: "irq_timer_b b s = Inr s2" "irq_button_b b s2 = Inr s1"
    by (auto simp: irqHandler_b_def fbind_Inr)
  obtain icip h1 where rd: "bus_rd b ICIP (bdev s) = (icip, h1)" by fastforce
  with assms(3) have "icip AND push_bit 27 1 \<noteq> 0" by (metis fst_conv)
  with s2(1) rd sch have "navilnux_current (krn s2) = PoolTCB 0"
    by (auto simp: irq_timer_b_def at_task_def split: prod.splits)
  then show ?thesis using s1 button_current [OF s2(2)] by simp
qed

lemma first_tick:
  assumes "\<forall>h. fst (bus_rd b ICIP h) AND push_bit 27 1 \<noteq> 0"
  shows "\<exists>s. book_reach b v (replicate 9 (0, l0), s) \<and> navilnux_current (krn s) = PoolTCB 0"
proof -
  from book_main [of "0xA0030000" nine_entries b "\<lambda>_. 0" "0xA0010000" "0xA0020000" "0xA0030100" h]
  obtain s where s: "kernel_main_b b nine_entries (book_zero (\<lambda>_. 0) 0xA0010000 0xA0020000 0xA0030000 0xA0030100 h) = Inr (0, s)"
    "book_ok s" "navilnux_current (krn s) = DummyTCB" by (auto simp: nine_entries_def)
  have r: "book_reach b v (replicate 9 (0, l0), s)"
    by (rule book_reach.boot [OF _ _ s(1)]) (simp_all add: nine_entries_def)
  from tick_starts [OF s(2,3) assms] obtain s1 where s1: "irqHandler_b b s = Inr s1" "navilnux_current (krn s1) = PoolTCB 0" by blast
  then have "navilnux_current (krn s1) \<noteq> DummyTCB" by simp
  then show ?thesis using book_reach.step [OF r book_step.irq [OF s1(1)]] s1(2) by blast
qed

theorem book_tasks_progress_witness:
  "\<exists>s l0 t l' s'. navilnux_current (krn s) = PoolTCB 0 \<and>
    stmt_at (user_tasks pending_bus stack_locals ! 0) 0 l0 s = Inr (t, l', s')"
proof -
  have "\<forall>h. fst (bus_rd pending_bus ICIP h) AND push_bit 27 1 \<noteq> 0" by (simp add: pending_bus_def)
  from first_tick [OF this, of stack_locals] obtain l0 s where
    s: "book_reach pending_bus stack_locals (replicate 9 (0, l0), s)" "navilnux_current (krn s) = PoolTCB 0" by blast
  from book_tasks_progress [OF stack_locals_ok s(1), of 0] s(2) show ?thesis by fastforce
qed

text \<open>
  C13: Mutual exclusion of the tasks: in every state reachable with the timer's interrupt as the first, tasks 4 and 5 are not both between
  \<open>navilnux_mutex_wait(3)\<close> and \<open>navilnux_mutex_release(3)\<close>, at most two of tasks 6, 7 and 8 are between
  \<open>navilnux_sem_p(5)\<close> and \<open>navilnux_sem_v(5)\<close>, and the semaphore's cell is the number of places left.
\<close>
theorem book_critical_sections:
  assumes "locals_ok v" and "book_reach b v (ts, s)"
  shows "\<not> (in_section (fst (ts ! 3)) \<and> in_section (fst (ts ! 4))) \<and>
    length (filter (\<lambda>i. in_section (fst (ts ! i))) [5, 6, 7]) \<le> 2 \<and>
    msg_flag (msg_cell (msgmng (krn s)) 205) = 2 - int (length (filter (\<lambda>i. in_section (fst (ts ! i))) [5, 6, 7]))"
proof -
  have ok: "sys_ok (ts, s)" by (rule book_reach_ok [OF assms])
  have "int (length (filter (\<lambda>i. in_section (fst (ts ! i))) [5, 6, 7])) = inside ts 5 + inside ts 6 + inside ts 7"
    by (simp add: inside_def)
  moreover have "msg_flag (msg_cell (cells s) 103) = inside ts 3 + inside ts 4" "msg_flag (msg_cell (cells s) 103) \<le> 1"
    "msg_flag (msg_cell (cells s) 205) = 2 - (inside ts 5 + inside ts 6 + inside ts 7)"
    "0 \<le> msg_flag (msg_cell (cells s) 205)" using ok by (simp_all add: sys_ok_def)
  moreover from this(1,2) have "\<not> (in_section (fst (ts ! 3)) \<and> in_section (fst (ts ! 4)))"
    by (simp add: inside_def split: if_splits)
  ultimately show ?thesis by simp
qed

theorem book_critical_sections_witness:
  "\<exists>ts s. book_reach pending_bus stack_locals (ts, s) \<and> length ts = 9 \<and>
    msg_flag (msg_cell (msgmng (krn s)) 205) = 2"
proof -
  have "\<forall>h. fst (bus_rd pending_bus ICIP h) AND push_bit 27 1 \<noteq> 0" by (simp add: pending_bus_def)
  from first_tick [OF this, of stack_locals] obtain l0 s where
    s: "book_reach pending_bus stack_locals (replicate 9 (0, l0), s)" by blast
  from book_critical_sections [OF stack_locals_ok s] have "msg_flag (msg_cell (msgmng (krn s)) 205) = 2"
    by (simp add: in_section_def)
  with s show ?thesis by (intro exI [of _ "replicate 9 (0, l0)"] exI [of _ s]) simp
qed

text \<open>
  C15: The lamps: on pins that behave as the manual says and with all four lamps off at power-on, in
  every state the system runs into (the timer's interrupt coming first) at most one lamp is lit. When task 9 has switched a lamp on it is the
  lamp \<open>b\<close>; then \<open>b\<close> moves on, so that during the sleep it is the lamp before \<open>b\<close>, and it stays on through the next round until
  \<open>c\<close> is set; only in the first round, recognised by \<open>c\<close>, is no lamp lit there, and none is between switching off and on.
\<close>
theorem book_one_lamp:
  assumes "locals_ok v" and "pin_outputs b pins" and "fo \<noteq> 0" and "length entries = 9"
    and "kernel_main_b b entries (book_zero m pa da fo nm h) = Inr (0, s0)" and "lit (pins h) = {}"
    and "(book_step b v)\<^sup>*\<^sup>* (replicate 9 (0, l0), s0) (ts, s)"
  shows "(\<exists>n. lit (pins (bdev s)) \<subseteq> {n}) \<and>
    (fst (ts ! 8) = 8 \<longrightarrow> lit (pins (bdev s)) = {vb (snd (ts ! 8))}) \<and>
    (fst (ts ! 8) = 9 \<longrightarrow> lit (pins (bdev s)) = {(vb (snd (ts ! 8)) + 3) mod 4} \<and> vc (snd (ts ! 8)) = (vb (snd (ts ! 8)) + 2) mod 4) \<and>
    (2 \<le> fst (ts ! 8) \<and> fst (ts ! 8) \<le> 5 \<longrightarrow> lit (pins (bdev s)) =
       (if vc (snd (ts ! 8)) = (vb (snd (ts ! 8)) + 2) mod 4 then {(vb (snd (ts ! 8)) + 3) mod 4} else {})) \<and>
    (fst (ts ! 8) = 7 \<longrightarrow> lit (pins (bdev s)) = {})"
proof -
  have ok: "sys_ok (replicate 9 (0, l0), s0)" and dev: "bdev s0 = booted_bus b h"
    using boot_sys_ok [OF assms(3-5)] by simp_all
  have "lamps_at 0 l0 (lit (pins (bdev s0)))"
    using assms(6) by (simp add: dev booted_pins [OF assms(2)] lamps_at_def)
  then have "lamps_at (fst (ts ! 8)) (snd (ts ! 8)) (lit (pins (bdev s)))"
    using lamps_run [OF assms(1,2,7) ok] by simp
  then show ?thesis unfolding lamps_at_def by (auto split: if_splits)
qed

text \<open>Pins that do what the manual says, with the timer's interrupt always pending.\<close>

definition lamp_bus :: "u32 bus" where
  "lamp_bus = \<lparr>bus_rd = (\<lambda>r h. (if r = ICIP then push_bit 27 1 OR push_bit 8 1 else 0, h)),
     bus_wr = (\<lambda>r x h. if r = GPSR0 then h OR x else if r = GPCR0 then h AND NOT x else h), bus_idle = (\<lambda>h. h)\<rparr>"

lemma lamp_bus_ok: "pin_outputs lamp_bus id" "button_pending lamp_bus"
  by (simp_all add: lamp_bus_def pin_outputs_def button_pending_def)

theorem book_one_lamp_witness:
  "\<exists>s0 s l0. (book_step lamp_bus stack_locals)\<^sup>*\<^sup>* (replicate 9 (0, l0), s0) (replicate 9 (0, l0), s) \<and>
    navilnux_current (krn s0) = DummyTCB \<and> irqHandler_b lamp_bus s0 = Inr s \<and> (\<exists>n. lit (bdev s) \<subseteq> {n})"
proof -
  have "0xA0030000 \<noteq> (0 :: u32)" and len: "length nine_entries = 9" by (simp_all add: nine_entries_def)
  from book_main [OF this, of lamp_bus "\<lambda>_. 0" "0xA0010000" "0xA0020000" "0xA0030100" "0x3C"] obtain s0 where
    s0: "kernel_main_b lamp_bus nine_entries (book_zero (\<lambda>_. 0) 0xA0010000 0xA0020000 0xA0030000 0xA0030100 0x3C) = Inr (0, s0)"
    "book_ok s0" "navilnux_current (krn s0) = DummyTCB" by blast
  have "\<forall>h. fst (bus_rd lamp_bus ICIP h) AND push_bit 27 1 \<noteq> 0" by (simp add: lamp_bus_def)
  from tick_starts [OF s0(2,3) this] obtain s where s: "irqHandler_b lamp_bus s0 = Inr s" "navilnux_current (krn s) \<noteq> DummyTCB" by auto
  have step: "(book_step lamp_bus stack_locals)\<^sup>*\<^sup>* (replicate 9 (0, l0), s0) (replicate 9 (0, l0), s)" for l0
    using book_step.irq [OF s] by blast
  have "lit (id (0x3C :: u32)) = {}"
  proof -
    have "bit (0x3C :: u32) (nat n + 2)" if "0 \<le> n" "n < 4" for n :: int
    proof -
      have "n = 0 \<or> n = 1 \<or> n = 2 \<or> n = 3" using that by auto
      then show ?thesis by (elim disjE) simp_all
    qed
    then show ?thesis unfolding lit_def id_apply by blast
  qed
  from book_one_lamp [OF stack_locals_ok lamp_bus_ok(1) _ len s0(1) this step]
  have "\<exists>n. lit (bdev s) \<subseteq> {n}" by simp
  with step s(1) s0(3) show ?thesis by blast
qed

text \<open>
  C16: Once the driver is open, for any history of presses and reads: a read after a press returns 4, presses
  before the next read count once, and a read without a new press is refused; none faults.
\<close>
theorem button_reads_each_press_once:
  assumes "book_ok s" and "0 \<le> usecount (free_drv_pool (drvmng (krn s)) ! 0)" and "button_pending b"
  shows "\<exists>s1 s2. lib_open_b b MYDRV O_RDWR s = Inr (0, s1) \<and>
    button_run b buf es s1 = Inr (latch False es, s2)"
proof -
  let ?s = "s\<lparr>krn := add_usecount 0 1 (krn s)\<rparr>"
  let ?s1 = "?s\<lparr>irq_vector := (irq_vector ?s)[IRQ8 := Some Fn_gpio0_irq_handler]\<rparr>\<lparr>switch_pushed := 0\<rparr>"
  have "book_ok ?s" using assms(1) by simp
  then have "book_ok ?s1" using book_ok_simps(4,5) by blast
  moreover have "irq_vector ?s1 ! IRQ8 = Some Fn_gpio0_irq_handler"
    using assms(1) by (simp add: book_ok_def Let_def IRQNUM_def IRQ8_def)
  ultimately obtain s2 where "button_run b buf es ?s1 = Inr (latch False es, s2)"
    using button_run_latch [of ?s1 b buf es] assms(3) by auto
  then show ?thesis using assms(1,2) by (auto simp: drv_calls)
qed

theorem button_reads_each_press_once_witness:
  "\<exists>s s1 s2. lib_open_b lamp_bus MYDRV O_RDWR s = Inr (0, s1) \<and>
    button_run lamp_bus 0xA0401000 [False, True, True, False, False] s1 = Inr ([-2, 4, -2], s2)"
proof -
  have "0xA0030000 \<noteq> (0 :: u32)" and len: "length nine_entries = 9" by (simp_all add: nine_entries_def)
  from book_main [OF this, of lamp_bus "\<lambda>_. 0" "0xA0010000" "0xA0020000" "0xA0030100" "0x3C"] obtain s :: "u32 book" where
    s: "book_ok s" "usecount (free_drv_pool (drvmng (krn s)) ! 0) = 0" by auto
  have l: "latch False [False, True, True, False, False] = [-2, 4, -2]" by simp
  have "0 \<le> usecount (free_drv_pool (drvmng (krn s)) ! 0)" using s(2) by simp
  from button_reads_each_press_once [OF s(1) this lamp_bus_ok(2), of "0xA0401000" "[False, True, True, False, False]"]
  show ?thesis unfolding l by blast
qed

text \<open>
  What the driver calls leave out: on a booted system a read of a slot without a driver jumps through
  a null pointer although opening it is refused, and closing the button driver once without having
  opened it succeeds and makes every later open fail.
\<close>
theorem book_driver_call_gaps:
  assumes "fo \<noteq> 0" and "length entries = 9"
    and "kernel_main_b b entries (book_zero m pa da fo nm h) = Inr (0, s)" and "0 < d" and "d < 100"
  shows "lib_open_b b d O_RDWR s = Inr (-1, s) \<and> lib_read_b b d buf 4 s = Inl NullCall \<and>
    (\<exists>s1. lib_close_b b MYDRV s = Inr (0, s1) \<and> lib_open_b b MYDRV O_RDWR s1 = Inr (-1, s1))"
proof -
  from book_main [OF assms(1,2), of b m pa da nm h] assms(3) have
    ok: "book_ok s" and u: "usecount (free_drv_pool (drvmng (krn s)) ! 0) = 0"
    and slot: "free_drv_pool (drvmng (krn s)) ! nat d = \<lparr>navil_fops = 0, usecount = -1, drvname = 0\<rparr>"
    using assms(4,5) by auto
  have d: "wrap32 d = d" "in_array d (free_drv_pool (drvmng (krn s)))"
    using assms(4,5) ok by (simp_all add: in_array_def book_ok_def Let_def DRVLIMIT_def)
  have o: "lib_open_b b d O_RDWR s = Inr (-1, s)" and r: "lib_read_b b d buf 4 s = Inl NullCall"
    using ok d assms(4,5) slot
    by (simp_all add: lib_open_b_def lib_read_b_def trap_b_calls syscall_numbers_b_def sys_open_b_def sys_read_b_def
      drv_slot_def DRVLIMIT_def wrap32_sint_of_int fops_of_def ret_b_def)
  let ?s1 = "s\<lparr>krn := add_usecount 0 (-1) (krn s)\<rparr>"
  have ok1: "book_ok ?s1" using ok by simp
  have "lib_close_b b MYDRV s = Inr (0, ?s1)" using ok ok1
    by (simp add: lib_close_b_def trap_b_calls syscall_numbers_b_def sys_close_b_def drv_slot_def MYDRV_def DRVLIMIT_def
      in_array_def fops_of_def mydrv_fops_def mydrv_close_def ret_b_def book_ok_def Let_def)
  moreover have "usecount (free_drv_pool (drvmng (krn ?s1)) ! 0) = -1"
    using u ok by (simp add: add_usecount_def book_ok_def Let_def DRVLIMIT_def wrap32_id in_int32_def)
  then have "lib_open_b b MYDRV O_RDWR ?s1 = Inr (-1, ?s1)" using drv_calls(3) [OF ok1, of b] by simp
  ultimately show ?thesis using o r by blast
qed

theorem book_driver_call_gaps_witness:
  "\<exists>s s1. lib_read_b pending_bus 5 0xA0401000 4 s = Inl NullCall \<and>
    lib_close_b pending_bus MYDRV s = Inr (0, s1) \<and> lib_open_b pending_bus MYDRV O_RDWR s1 = Inr (-1, s1)"
proof -
  have f: "0xA0030000 \<noteq> (0 :: u32)" and len: "length nine_entries = 9" by (simp_all add: nine_entries_def)
  from book_main [OF this, of pending_bus "\<lambda>_. 0" "0xA0010000" "0xA0020000" "0xA0030100" "()"] obtain s where
    s: "kernel_main_b pending_bus nine_entries (book_zero (\<lambda>_. 0) 0xA0010000 0xA0020000 0xA0030000 0xA0030100 ()) = Inr (0, s)"
    by blast
  from book_driver_call_gaps [OF f len s, of 5 "0xA0401000"] show ?thesis by auto
qed

text \<open>
  C39: The forty-first task is written past the pool: after \<open>navilnux_init\<close>, forty creations succeed, and
  the next one gets a stack (there are sixty) and stores outside \<open>free_task_pool\<close>.
\<close>
theorem forty_first_task_overruns:
  assumes "navilnux_init_b b (book_zero m pa da fo nm h) = Inr s" and "length fs = 40"
  shows "\<exists>k. create_tasks fs (krn s) = Inr k \<and> max_task_id (taskmng k) = 39 \<and>
    k_task_create f k = Inl OutOfBounds"
proof -
  from book_init [of b m pa da fo nm h] assms(1) obtain d where
    k: "krn s = (syscall_init_b (kernel_zero m pa da))\<lparr>memmng := mem_init mem_mng_zero_b,
        taskmng := task_init_b task_mng_zero, msgmng := msg_init msg_mng_zero, drvmng := d\<rparr>" by auto
  have p: "length (free_mem_pool (mem_init mem_mng_zero_b)) = 60" "mm_alloc (mem_init mem_mng_zero_b) = Some Fn_mem_alloc"
    by (simp_all add: mem_init_def mem_mng_zero_b_def MAXMEMBLK_b_def)
  have "tasks_ready [] (taskmng (krn s)) (memmng (krn s))" using p mem_init_blocks [of mem_mng_zero_b]
    by (simp add: k tasks_ready_def task_init_b_def task_mng_zero_def MAXTASKNUM_def MAXMEMBLK_def mem_mng_zero_b_def MAXMEMBLK_b_def)
  moreover have "tm_create (taskmng (krn s)) = Some Fn_task_create" by (simp add: k task_init_b_def)
  ultimately obtain tm q where
    c: "create_tasks fs (krn s) = Inr ((krn s)\<lparr>taskmng := tm, memmng := (memmng (krn s))\<lparr>free_mem_pool := q\<rparr>\<rparr>)"
    "tasks_ready fs tm ((memmng (krn s))\<lparr>free_mem_pool := q\<rparr>)" "length q = 60"
    "q ! 40 = free_mem_pool (memmng (krn s)) ! 40" "tm_create tm \<noteq> None"
    using create_tasks_ready [of "[]" "krn s" fs] assms(2) p by (auto simp: MAXTASKNUM_def MAXMEMBLK_def k)
  let ?k = "(krn s)\<lparr>taskmng := tm, memmng := (memmng (krn s))\<lparr>free_mem_pool := q\<rparr>\<rparr>"
  have top: "is_used (q ! 40) = 0" "block_end_addr (q ! 40) = 0xA2CFFFFC"
    using c(4) by (simp_all add: k mem_init_def nth_mem_init_pool mem_mng_zero_b_def MAXMEMBLK_b_def mem_consts)
  have tm: "max_task_id tm = 39" "length (free_task_pool tm) = 40" "\<forall>i < 40. is_used (q ! i) \<noteq> 0"
    "mm_alloc (memmng (krn s)) = Some Fn_mem_alloc"
    using c(2) assms(2) by (auto simp: tasks_ready_def MAXTASKNUM_def MAXMEMBLK_def)
  have "mem_alloc_pool q = (0xA2CFFFFC, q[40 := (q ! 40)\<lparr>is_used := 1\<rparr>])"
    using mem_alloc_pool_first [of 40 q] top tm c(3) by simp
  then have "k_task_create f ?k = Inl OutOfBounds" using tm c(5)
    by (simp add: k_task_create_def task_create_def MAXTASKNUM_def mem_alloc_def in_array_def)
  then show ?thesis using c(1) tm(1) by simp
qed

theorem forty_first_task_overruns_witness:
  "\<exists>s k. navilnux_init_b pending_bus (book_zero (\<lambda>_. 0) 0 0 0xA0030000 0 ()) = Inr s \<and>
    create_tasks (replicate 40 0x8000) (krn s) = Inr k \<and> k_task_create 0x8000 k = Inl OutOfBounds"
proof -
  from book_init [of pending_bus "\<lambda>_. 0" 0 0 "0xA0030000" 0 "()"] obtain s where
    s: "navilnux_init_b pending_bus (book_zero (\<lambda>_. 0) 0 0 0xA0030000 0 ()) = Inr s" by blast
  from forty_first_task_overruns [OF s, of "replicate 40 0x8000" "0x8000"] s show ?thesis by auto
qed

end
