(* ===== verification/Book_Locks.thy ===== *)
theory Book_Locks
  imports Book_Kernel
begin

text \<open>
  The mutexes of the two kernels compared. In \<open>source/chap16\<close> a mutex is a flag, in
  \<open>navilnux/chap16_driver\<close> it also has an owner, who alone may release it.
\<close>

text \<open>The operations of \<open>source/chap16\<close> as one step, with no current task, and runs of them.\<close>

fun msg_step_b :: "msg_op \<Rightarrow> msg_mng \<Rightarrow> int \<times> msg_mng" where
  "msg_step_b (ItcSend i d) mg = msg_itc_send_b i d mg"
| "msg_step_b (ItcGet i) mg = (let (r, mg', x) = msg_itc_get_b i mg in (r, mg'))"
| "msg_step_b (SemInit i s) mg = msg_sem_init_b i s mg"
| "msg_step_b (SemP i) mg = msg_sem_p_b i mg"
| "msg_step_b (SemV i) mg = msg_sem_v_b i mg"
| "msg_step_b (MutexWait i) mg = msg_mutex_wait_b i mg"
| "msg_step_b (MutexRelease i) mg = msg_mutex_release_b i mg"

fun msg_run_b :: "(u32 \<times> msg_op) list \<Rightarrow> msg_mng \<Rightarrow> msg_event list \<times> msg_mng" where
  "msg_run_b [] mg = ([], mg)"
| "msg_run_b ((c, p) # ops) mg =
     (let (r, mg1) = msg_step_b p mg; (tr, mg2) = msg_run_b ops mg1 in ((c, p, r) # tr, mg2))"

text \<open>The operations on the fifty-five mutexes both kernels have.\<close>

fun mutex_op :: "msg_op \<Rightarrow> bool" where
  "mutex_op (MutexWait i) = (0 \<le> i \<and> i \<le> 54)"
| "mutex_op (MutexRelease i) = (0 \<le> i \<and> i \<le> 54)"
| "mutex_op _ = False"

text \<open>A release the kernel with owners refuses.\<close>

fun refused_release :: "msg_event \<Rightarrow> bool" where
  "refused_release (c, MutexRelease i, r) = (r = -2)"
| "refused_release _ = False"

definition same_flags :: "msg_mng \<Rightarrow> msg_mng \<Rightarrow> bool" where
  "same_flags mg mgb \<longleftrightarrow> length (free_msg_pool mg) = 255 \<and> length (free_msg_pool mgb) = 255 \<and>
     (\<forall>i. 0 \<le> i \<and> i \<le> 54 \<longrightarrow> msg_flag (msg_cell mg (200 + i)) = msg_flag (msg_cell mgb (100 + i)))"

lemma cell_of_set:
  "0 \<le> i \<Longrightarrow> i < 255 \<Longrightarrow> 0 \<le> j \<Longrightarrow> length (free_msg_pool mg) = 255 \<Longrightarrow>
    msg_cell (set_msg_cell mg i c) j = (if i = j then c else msg_cell mg j)"
  by (auto simp: msg_cell_def set_msg_cell_def)

lemma same_flags_set:
  "same_flags mg mgb \<Longrightarrow> 0 \<le> i \<Longrightarrow> i \<le> 54 \<Longrightarrow> msg_flag c = msg_flag c' \<Longrightarrow>
    same_flags (set_msg_cell mg (200 + i) c) (set_msg_cell mgb (100 + i) c')"
  unfolding same_flags_def by (simp add: cell_of_set)

lemma mutex_step_same:
  assumes "same_flags mg mgb" and "mutex_op p" and "msg_step c p mg = (r, mg')" and "\<not> refused_release (c, p, r)"
  shows "\<exists>mgb'. msg_step_b p mgb = (r, mgb') \<and> same_flags mg' mgb'"
proof (cases p)
  case (MutexWait i)
  with assms(2) have i: "0 \<le> i" "i \<le> 54" by simp_all
  have f: "msg_flag (msg_cell mg (200 + i)) = msg_flag (msg_cell mgb (100 + i))"
    using assms(1) i by (simp add: same_flags_def)
  show ?thesis using assms(1,3) MutexWait i f
    by (auto simp: msg_mutex_wait_def msg_mutex_wait_b_def msg_consts_b Let_def add.commute [of i] same_flags_set split: if_splits)
next
  case (MutexRelease i)
  with assms(2) have i: "0 \<le> i" "i \<le> 54" by simp_all
  show ?thesis using assms(1,3,4) MutexRelease i
    by (auto simp: msg_mutex_release_def msg_mutex_release_b_def msg_consts_b Let_def add.commute [of i] same_flags_set split: if_splits)
qed (use assms(2) in simp_all)

lemma mutex_run_same:
  assumes "same_flags mg mgb" and "\<forall>(c, p) \<in> set ops. mutex_op p"
    and "msg_run ops mg = (tr, mg')" and "\<forall>e \<in> set tr. \<not> refused_release e"
  shows "\<exists>mgb'. msg_run_b ops mgb = (tr, mgb')"
  using assms
proof (induction ops arbitrary: mg mgb tr)
  case (Cons a ops)
  obtain c p where a: "a = (c, p)" by (cases a)
  obtain r mg1 where s: "msg_step c p mg = (r, mg1)" by fastforce
  obtain tr1 where t: "msg_run ops mg1 = (tr1, mg')" "tr = (c, p, r) # tr1"
    using Cons.prems(3) a s by (auto split: prod.splits)
  from mutex_step_same [OF Cons.prems(1) _ s] Cons.prems(2,4) a t obtain mgb1 where
    b: "msg_step_b p mgb = (r, mgb1)" "same_flags mg1 mgb1" by auto
  from Cons.IH [OF b(2) _ t(1)] Cons.prems(2,4) t(2) obtain mgb' where "msg_run_b ops mgb1 = (tr1, mgb')" by auto
  then show ?case using a b t(2) by simp
qed simp

lemma same_flags_init: "same_flags (msg_init msg_mng_zero) (msg_init msg_mng_zero)"
  by (auto simp: same_flags_def msg_init_def msg_mng_zero_def MAXMSG_def msg_cell_def)

section \<open>Properties\<close>

text \<open>
  C18: The two kernels' mutexes agree as long as tasks release what they hold: for any sequence of
  waits and releases by any tasks in which the kernel with owners refuses no release, the kernel
  without owners gives the same result to every operation.
\<close>
theorem mutexes_agree:
  assumes "\<forall>(c, p) \<in> set ops. mutex_op p" and "\<forall>e \<in> set (fst (msg_run ops (msg_init msg_mng_zero))). \<not> refused_release e"
  shows "fst (msg_run_b ops (msg_init msg_mng_zero)) = fst (msg_run ops (msg_init msg_mng_zero))"
proof -
  obtain tr mg' where r: "msg_run ops (msg_init msg_mng_zero) = (tr, mg')" by fastforce
  from mutex_run_same [OF same_flags_init assms(1) r] assms(2) r show ?thesis by auto
qed

theorem mutexes_agree_witness:
  "map (snd \<circ> snd) (fst (msg_run_b [(1, MutexWait 3), (2, MutexWait 3), (1, MutexRelease 3), (2, MutexWait 3)]
     (msg_init msg_mng_zero))) = [0, -2, 0, 0]"
proof -
  let ?ops = "[(1, MutexWait 3), (2, MutexWait 3), (1, MutexRelease 3), (2, MutexWait 3)]"
  have r: "fst (msg_run ?ops (msg_init msg_mng_zero)) =
      [(1, MutexWait 3, 0), (2, MutexWait 3, -2), (1, MutexRelease 3, 0), (2, MutexWait 3, 0)]"
    by (simp add: msg_mutex_wait_def msg_mutex_release_def msg_consts msg_init_def msg_mng_zero_def msg_cell_def set_msg_cell_def)
  from mutexes_agree [of ?ops] show ?thesis unfolding r by simp
qed

text \<open>Without an owner a task that does not hold the mutex can release it, and a third task gets in.\<close>

lemma release_by_anyone:
  "map (snd \<circ> snd) (fst (msg_run_b [(1, MutexWait 3), (2, MutexRelease 3), (2, MutexWait 3)] (msg_init msg_mng_zero))) =
     [0, 0, 0]"
  by (simp add: msg_mutex_wait_b_def msg_mutex_release_b_def msg_consts_b msg_init_def msg_mng_zero_def msg_cell_def set_msg_cell_def)

end
