(* ===== verification/Spec2Isabelle.thy ===== *)
theory Spec2Isabelle
  imports Kernel_User Boot_Words Boot_Store Boot_Start Boot_Line Book_System Book_Locks
begin

text \<open>
  \<^bold>\<open>Navilnux and its boot loader.\<close>

  The repository holds Navilnux, a small preemptive kernel for an ARM board (Intel PXA255,
  gumstix), written chapter by chapter for a book, and ezboot, the boot loader of the EZ-X5 board.
  There are two lines of the kernel: \<open>source\<close>, which accompanies the book, and \<open>navilnux\<close>, a
  second writing of it. The development models the last state of each, \<open>source/chap16\<close> and
  \<open>navilnux/chap16_driver\<close>, and the boot loader, \<open>source/ezboot\<close>, function by function; a
  definition has the name of the C function, type or constant it translates.

  \<^bold>\<open>The kernel\<close> (paths under \<open>src/navilnux/chap16_driver\<close>). \<open>main\<close> (\<open>navilnux.c\<close>) initialises the
  managers, creates the tasks (\<open>navilnux_user.c\<close>), starts the OS timer and idles. A timer
  interrupt enters \<open>navilnux_irqHandler\<close> (\<open>entry.S\<close>), which saves the context of the running task
  in its control block, calls \<open>irqHandler\<close> (tick counter, round-robin scheduler) and loads the
  context of the next. A task enters the kernel by \<open>swi\<close>: \<open>navilnux_swiHandler\<close> indexes the call
  table, and number 255 gives up the processor. The calls go to four managers, records of
  data and function pointers: memory, messages, tasks, drivers.

    \<^item> \<open>Kernel_Memory\<close>: \<open>navilnux_memory.c/.h\<close>. The pool of task stacks and the heap, whose block
      headers are in the byte memory. Invariant \<open>heap_ok\<close> (a chain of headers covers the heap),
      refinement to a first-fit allocator on a list of blocks, disjointness of the areas over
      any sequence of requests, release once, and what a failed request leaves behind.
    \<^item> \<open>Kernel_Msg\<close>: \<open>navilnux_msg.c/.h\<close>. Mailboxes, semaphores and mutexes in one pool of cells;
      refinement to separate abstract maps, mutual exclusion and semaphore counts over any
      interleaving of the tasks' operations, delivery, and the missing range check.
    \<^item> \<open>Kernel_Task\<close>: \<open>navilnux_task.c/.h\<close>, task control blocks and creation.
    \<^item> \<open>Kernel_Drv\<close>: \<open>navilnux_drv.c/.h\<close>, the driver table and registration.
    \<^item> \<open>Kernel_Sys\<close>: \<open>navilnux_sys.c/.h\<close>, \<open>syscalltbl.h\<close>, the dispatch of \<open>entry.S\<close>, and the record
      \<open>kernel\<close> of all the kernel's globals.
    \<^item> \<open>Kernel_Sched\<close>: \<open>navilnux.c/.h\<close>, \<open>navilnux_user.c\<close> and the handlers of \<open>entry.S\<close>. The steps of
      the running machine are the inductive relation \<open>kstep\<close>, with the invariant \<open>kernel_inv\<close> of
      the reachable states; preemption, fairness, start-up, and which calls can fault.
    \<^item> \<open>Kernel_Clib\<close>: \<open>navilnux_lib.S\<close> and \<open>navilnux_clib.c\<close>, the traps and the blocking loops of the
      user library.
    \<^item> \<open>Kernel_User\<close>: \<open>user_task_1\<close> of \<open>navilnux_user.c\<close>.

  \<^bold>\<open>The book's kernel\<close> (paths under \<open>src/source/chap16\<close>) has the same structure and differs in the message
  operations (mailboxes checked against their range, mutexes without an owner), the order of the calls,
  sixty stacks, a second interrupt source with a vector of routines, a driver that is
  registered, and nine user tasks. What it shares is not repeated: the record \<open>kernel\<close>, \<open>scheduler\<close>, \<open>sched_init\<close>,
  \<open>task_create\<close>, \<open>drv_register_drv\<close>, \<open>msg_init\<close> and all of \<open>navilnux_memory.c\<close> (whose number of stacks is the
  length of the pool) are the definitions above; what differs has the suffix \<open>_b\<close>.

    \<^item> \<open>Book_Driver\<close>: \<open>my_drv.c\<close>, \<open>GPIO_SetLED\<close>; the record \<open>book\<close> is \<open>kernel\<close> with the interrupt vector, the
      driver's variable and the devices.
    \<^item> \<open>Book_Kernel\<close>: the managers, calls, interrupts and start-up.
    \<^item> \<open>Book_Tasks\<close>: \<open>navilnux_lib.S\<close>, \<open>navilnux_clib.c\<close>, \<open>navilnux_user.c\<close>. A task is the list of its statements, a
      blocking call one round of its loop, which returns, goes round again or gives up the processor
      (\<open>turn\<close>). \<open>book_step\<close> interleaves the statement of the running task, the scheduler call and the
      interrupts. System calls run with interrupts off; outside them an interrupt changes nothing
      a task reads but the tick counter, so a statement is one step (so is a round of \<open>navilnux_sleep\<close>,
      which compares the counter with its own control block). The first interrupt is the timer's: what a button pressed
      before it does is \<open>early_press\<close> in \<open>Book_System\<close>, and no part of \<open>book_step\<close>. The contexts a switch saves and
      restores are the subject of \<open>Kernel_Sched\<close>, and the position and the variables of each task
      stand for them here. The addresses of the tasks' variables are the parameter \<open>v\<close>, of which
      \<open>locals_ok\<close> asks that they be in the stacks.
    \<^item> \<open>Book_Run\<close>: the invariant \<open>sys_ok\<close> of the whole system (the managers' tables, the heap of task 1, the
      position of every task, and the lock cells as a function of the positions) and its preservation
      by every statement and interrupt.
    \<^item> \<open>Book_System\<close>: from power-up to the invariant; no step faults or gets stuck; mutual exclusion of the
      critical sections; one lamp at a time; each press read once; and what the driver calls
      and the task pool leave unchecked.
    \<^item> \<open>Book_Locks\<close>: the mutexes of the two kernels compared.

  \<^bold>\<open>The boot loader\<close> (paths under \<open>src/source/ezboot\<close>, files in \<open>main\<close> and \<open>include\<close>). \<open>main\<close> sets up
  the serial line, timer, flash, NAND and Ethernet chip, loads the configuration from
  flash, waits for a key while the start delay runs, then starts the kernel or
  the shell, which reads a line, cuts it into arguments and calls a command.

    \<^item> \<open>Cstring\<close>: \<open>string.c\<close> and the character classes of \<open>stdio.h\<close> on the byte memory.
      \<open>Vsprintf\<close>, \<open>Vscanf\<close>: \<open>vsprintf.c\<close>, \<open>vscanf.c\<close>. (The kernel has copies of these files.) \<open>Vsprintf_Plain\<close>: what a format
      of \<open>%d\<close>, \<open>%u\<close> and \<open>%s\<close> prints.
    \<^item> \<open>Boot_State\<close>: the record \<open>ez\<close> of the loader's globals and \<open>ensures\<close>, the rules by which an
      operation that may not return is shown to return with a given result.
    \<^item> \<open>Boot_Timer\<close>: \<open>time.c\<close>, \<open>gpio.c\<close>. \<open>Boot_Console\<close>: \<open>serial.c\<close>, \<open>printf.c\<close>.
    \<^item> \<open>Boot_Flash\<close>: \<open>flash_29lvx.c\<close>. \<open>Boot_Config\<close>: \<open>config.c\<close>. \<open>Boot_Store\<close>: the two on a flash chip described by its
      data sheet (\<open>nor_chip\<close>): an image written is there, a configuration saved is loaded, and how it can be lost.
    \<^item> \<open>Boot_Net\<close>: \<open>net.c\<close>, \<open>net.h\<close>. \<open>Boot_Ether\<close>: \<open>cs8900.c\<close>, \<open>arp_cmd.c\<close>. \<open>Boot_Tftp\<close>: \<open>tftp_cmd.c\<close>.
    \<^item> \<open>Boot_Nand\<close>: \<open>nand.c\<close>. \<open>Boot_Nand_Store\<close>: the same on a chip described by its data sheet (\<open>nand_at\<close>, with bad blocks, pages that take time
      to be fetched and operations that take time to be done): kernel and ramdisk stored, verified, and loaded after a reset.
    \<^item> \<open>Crc\<close>, \<open>Boot_Zmodem\<close>: \<open>zmodem.c\<close>, \<open>zmodem.h\<close>.
    \<^item> \<open>Boot_Help\<close>: \<open>help.c\<close>. \<open>Boot_Shell\<close>: \<open>ram_cmd.c\<close>, \<open>go_cmd.c\<close>, \<open>flash_cmd.c\<close>, \<open>zmodem_cmd.c\<close>, \<open>main.c\<close>.
      \<open>Boot_Start\<close>: the whole start of the loader, from power-on to the kernel. \<open>Boot_Line\<close>: the command line the kernel gets.
      \<open>Boot_Words\<close>: what \<open>strtok\<close>, the two argument parsers and the shell make of a line, against the list of its \<open>words\<close>.

  The lemmas: copying, printing and parsing (\<open>Cstring\<close>, \<open>Vsprintf\<close>, \<open>Vscanf\<close>); the line editor and
  the characters sent (\<open>Boot_Console\<close>); the checksum tables against the shift registers
  (\<open>Crc\<close>); headers read back, buffers respected, and when sending returns (\<open>Boot_Zmodem\<close>); the file
  put together from its blocks (\<open>Boot_Tftp\<close>); lines cut into words, typed addresses and the command a line runs (\<open>Boot_Words\<close>); headers built pass the checks (\<open>Boot_Net\<close>);
  the table of blocks the scan leaves, for any marks it finds (\<open>Boot_Nand\<close>), and for the marks on the chip, with the images in both partitions
  (\<open>Boot_Nand_Store\<close>); block indices and what an erase hits (\<open>Boot_Flash\<close>); images and configuration in the boot flash (\<open>Boot_Store\<close>); pins (\<open>Boot_Timer\<close>).
  The Ethernet chip and the transmitter of the serial line are not described beyond what single lemmas ask: \<open>tx_ready\<close> is a transmitter that is
  always ready.

  \<^bold>\<open>Conventions.\<close>
    \<^item> Machine integers are words of their width (\<open>u8\<close>, \<open>u16\<close>, \<open>u32\<close>, in \<open>Prelude\<close>); a C \<open>int\<close> whose overflow
      cannot happen is an \<open>int\<close>. Plain \<open>char\<close> is unsigned on this target. Memory is a function
      from 32-bit addresses to bytes, little-endian, read and written by \<open>ld32\<close>, \<open>st32\<close> and their kin.
    \<^item> An access that is not aligned goes to the bytes at its address. The processor would rotate or fault; the heap's headers are aligned
      when all sizes asked for are multiples of four, as they are in the tasks of both kernels.
    \<^item> Objects the linker or the stack places have the address \<open>e_addr name\<close>, a parameter; a theorem
      that needs them apart says so (\<open>apart\<close>).
    \<^item> A kernel operation that can go wrong returns \<open>fault + 'a option\<close>: \<open>Inl\<close> a fault (null pointer, outside
      an array), \<open>Inr None\<close> when it never returns, \<open>Inr (Some r)\<close> otherwise. The search of \<open>mem_malloc\<close> is a
      \<open>partial_function\<close>: the value \<open>None\<close> is a search that runs for ever. A loader operation returns an \<open>option\<close>
      with the same meaning of \<open>None\<close>.
    \<^item> A device register is read and written through the parameter \<open>b :: 'h bus\<close> (\<open>Bus\<close>), \<open>'h\<close> being the state of
      the devices. A delay loop is a number of turns of \<open>bus_idle b\<close>, in each of which time passes for the devices: 200 for \<open>FB29LVx_Wait\<close>, 250 for
      \<open>NAND_AddressSetupWait\<close>, as the source counts them. Theorems hold for every bus, or name what the device does as a hypothesis,
      with a witness on a concrete bus. Where the loader relies on a delay being long enough, so do the theorems: \<open>wait_covers\<close> for the
      programming of a half-word, \<open>known_chip\<close> for the fetch of a page.
    \<^item> What other tasks and interrupts do while a task waits is the argument \<open>others\<close>, one change of
      state per round; the list bounds the rounds looked at, and \<open>Inr None\<close> says it still waits after them.
      Liveness is stated by exhibiting the round.
    \<^item> \<open>printf\<close> of a literal format in the loader is an entry of the log \<open>e_out\<close> (\<open>say\<close>): it does not wait for the serial line nor write to it. What
      the text of an entry is and how it is sent is \<open>printf\<close> in \<open>Boot_Console\<close>.

  \<^bold>\<open>Interfaces\<close> (\<open>Interfaces\<close>). \<open>allocator\<close>: the laws of an allocator and the disjointness of what it hands
  out, interpreted in \<open>Kernel_Memory\<close> on the heap. \<open>blocking_call\<close>: a call that is retried while it
  is refused, interpreted in \<open>Kernel_Clib\<close> on waiting for a mutex, a semaphore, a message and a read.

  \<^bold>\<open>Not modelled.\<close> \<open>gumstix_uboot\<close> is U-Boot, third-party code. \<open>navilnux/chap2\<close> to \<open>chap15_malloc\<close>
  and \<open>source/chap2\<close> to \<open>chap15\<close> are earlier states of the two kernels. The files \<open>serial.c\<close>, \<open>printf.c\<close>, \<open>string.c\<close>,
  \<open>vsprintf.c\<close> and \<open>time.c\<close> of the kernels are copies or shortened copies of the boot loader's, which are
  modelled; in the kernels \<open>printf\<close> is an entry of the console log. \<open>info_cmd.c\<close> calls
  functions no file defines and is in no command table. The start-up assembly (\<open>entry.S\<close> before
  \<open>main\<close>), \<open>lib1funcs.S\<close> and the one-instruction routines that switch interrupts on and off
  set up the processor and have no state of the program. \<open>navilnux_open\<close> of the last kernel does not compile (it passes an undeclared name).
  A jump into a loaded image ends the model of the loader.
\<close>

end
